(* ===== verification/Prelude.thy ===== *)
theory Prelude
  imports Main "HOL-Library.Sublist" "HOL-Library.Char_ord"
begin

text \<open>
  What the components share: the few functions of Go's \<open>strings\<close> and \<open>slices\<close>
  packages the program calls, over strings as byte lists (\<^typ>\<open>string\<close> is a list of
  bytes, as a Go string is), the comparator-driven selections and sorts, and the
  collections of lemmas the component proofs rest on.

  A Go call \<open>strings.HasPrefix(s, p)\<close> is \<open>prefix p s\<close> of HOL-Library.Sublist and
  \<open>strings.HasSuffix(s, p)\<close> is \<open>suffix p s\<close>.
\<close>

named_theorems go_strings \<open>laws of the string functions\<close>
named_theorems outcome_simps \<open>facts about decisions and their order\<close>

section \<open>Strings\<close>

text \<open>A byte in a range, both ends taken, as the program's byte tests say it.\<close>

abbreviation between :: "char \<Rightarrow> char \<Rightarrow> char \<Rightarrow> bool" where
  "between lo c hi \<equiv> lo \<le> c \<and> c \<le> hi"

definition TrimRight :: "string \<Rightarrow> char list \<Rightarrow> string" where
  "TrimRight s cs = rev (dropWhile (\<lambda>c. c \<in> set cs) (rev s))"

definition TrimLeft :: "string \<Rightarrow> char list \<Rightarrow> string" where
  "TrimLeft s cs = dropWhile (\<lambda>c. c \<in> set cs) s"

definition TrimSuffix :: "string \<Rightarrow> string \<Rightarrow> string" where
  "TrimSuffix s x = (if suffix x s then take (length s - length x) s else s)"

definition CutPrefix :: "string \<Rightarrow> string \<Rightarrow> string option" where
  "CutPrefix s p = (if prefix p s then Some (drop (length p) s) else None)"

definition CutSuffix :: "string \<Rightarrow> string \<Rightarrow> string option" where
  "CutSuffix s x = (if suffix x s then Some (take (length s - length x) s) else None)"

text \<open>\<open>strings.Cut\<close> at a one-byte separator: what is before it, and what is after it
  where there is one.\<close>

fun Cut :: "char \<Rightarrow> string \<Rightarrow> string \<times> string option" where
  "Cut d [] = ([], None)"
| "Cut d (c # cs) = (if c = d then ([], Some cs) else (let (a, b) = Cut d cs in (c # a, b)))"

text \<open>\<open>strings.Split\<close> at a one-byte separator: never empty, empty pieces kept.\<close>

fun Split :: "char \<Rightarrow> string \<Rightarrow> string list" where
  "Split d [] = [[]]"
| "Split d (c # cs) =
     (if c = d then [] # Split d cs
      else (case Split d cs of [] \<Rightarrow> [[c]] | p # ps \<Rightarrow> (c # p) # ps))"

fun Join :: "char \<Rightarrow> string list \<Rightarrow> string" where
  "Join d [] = []"
| "Join d [s] = s"
| "Join d (s # t # ss) = s @ d # Join d (t # ss)"

text \<open>\<open>strings.FieldsFunc\<close>: the non-empty pieces between bytes that satisfy the
  predicate. Every predicate the program gives it is of ASCII bytes alone, so bytes and
  runes split alike.\<close>

fun FieldsFunc :: "(char \<Rightarrow> bool) \<Rightarrow> string \<Rightarrow> string \<Rightarrow> string list" where
  "FieldsFunc f acc [] = (if acc = [] then [] else [rev acc])"
| "FieldsFunc f acc (c # cs) =
     (if f c then (if acc = [] then FieldsFunc f [] cs else rev acc # FieldsFunc f [] cs)
      else FieldsFunc f (c # acc) cs)"

definition ascii_lower :: "char \<Rightarrow> char" where
  "ascii_lower c =
     (if between CHR ''A'' c CHR ''Z'' then char_of (of_char c + (32 :: nat)) else c)"

definition ascii_upper :: "char \<Rightarrow> char" where
  "ascii_upper c =
     (if between CHR ''a'' c CHR ''z'' then char_of (of_char c - (32 :: nat)) else c)"

lemma Split_not_Nil [simp]: "Split d s \<noteq> []"
  by (cases s) (auto split: list.splits)

lemma Split_cons_other: "c \<noteq> d \<Longrightarrow> Split d (c # cs) = (c # hd (Split d cs)) # tl (Split d cs)"
  by (cases "Split d cs") auto

lemma Join_Cons: "Join d (s # ss) = (if ss = [] then s else s @ d # Join d ss)"
  by (cases ss) auto

lemma Join_Split [simp, go_strings]: "Join d (Split d s) = s"
  by (induction s) (auto simp: Join_Cons split: list.splits)

lemma Split_no_sep [go_strings]: "p \<in> set (Split d s) \<Longrightarrow> d \<notin> set p"
  by (induction s arbitrary: p) (auto split: if_splits list.splits)

lemma Split_single [go_strings]: "d \<notin> set s \<Longrightarrow> Split d s = [s]"
  by (induction s) auto

lemma Split_append [go_strings]:
  "Split d (s @ d # t) = Split d s @ Split d t"
  by (induction s) (auto split: list.splits)

lemma Split_Join [go_strings]:
  "ss \<noteq> [] \<Longrightarrow> (\<And>s. s \<in> set ss \<Longrightarrow> d \<notin> set s) \<Longrightarrow> Split d (Join d ss) = ss"
proof (induction ss rule: Join.induct)
  case (3 d s t ss)
  then show ?case by (auto simp: Split_append Split_single)
qed (auto simp: Split_single)

lemma Split_subset: "p \<in> set (Split d s) \<Longrightarrow> set p \<subseteq> set s"
proof (induction s arbitrary: p)
  case (Cons c s)
  show ?case
  proof (cases "c = d \<or> p \<in> set (tl (Split d s))")
    case True
    with Cons show ?thesis
      by (cases "Split d s") (auto, blast+)
  next
    case False
    then have "Split d (c # s) = (c # hd (Split d s)) # tl (Split d s)"
      by (intro Split_cons_other) simp
    with False Cons.prems have "p = c # hd (Split d s)" by (simp del: Split.simps)
    with Cons.IH [of "hd (Split d s)"] show ?thesis by auto
  qed
qed simp

lemma Split_inj: "Split d s = Split d t \<Longrightarrow> s = t"
  by (metis Join_Split)

lemma Cut_None: "snd (Cut d s) = None \<longleftrightarrow> d \<notin> set s"
  by (induction s) (auto simp: Let_def split: prod.splits)

lemma Cut_fst: "fst (Cut d s) = takeWhile (\<lambda>c. c \<noteq> d) s"
  by (induction s) (auto simp: Let_def split: prod.splits)

lemma Cut_append [go_strings]: "d \<notin> set a \<Longrightarrow> Cut d (a @ d # b) = (a, Some b)"
  by (induction a) auto

lemma Cut_SomeD: "Cut d s = (a, Some b) \<Longrightarrow> s = a @ d # b \<and> d \<notin> set a"
proof (induction s arbitrary: a)
  case (Cons c s)
  then show ?case
    by (cases "Cut d s") (auto split: if_splits)
qed simp

lemma CutPrefix_Some: "CutPrefix s p = Some r \<longleftrightarrow> s = p @ r"
  by (auto simp: CutPrefix_def prefix_def)

lemma CutSuffix_Some: "CutSuffix s x = Some r \<longleftrightarrow> s = r @ x"
  by (auto simp: CutSuffix_def suffix_def)

lemma TrimSuffix_append: "TrimSuffix (s @ x) x = s"
  by (simp add: TrimSuffix_def suffix_def)

lemma TrimRight_decomp:
  obtains r where "s = TrimRight s cs @ r" and "set r \<subseteq> set cs"
proof -
  let ?P = "\<lambda>c. c \<in> set cs"
  have "rev s = takeWhile ?P (rev s) @ dropWhile ?P (rev s)" by simp
  then have "s = rev (dropWhile ?P (rev s)) @ rev (takeWhile ?P (rev s))"
    by (metis rev_append rev_rev_ident)
  moreover have "set (rev (takeWhile ?P (rev s))) \<subseteq> set cs"
    by (auto dest: set_takeWhileD)
  ultimately show ?thesis using that by (simp add: TrimRight_def)
qed

lemma TrimRight_last: "TrimRight s cs \<noteq> [] \<Longrightarrow> last (TrimRight s cs) \<notin> set cs"
  unfolding TrimRight_def by (metis hd_dropWhile last_rev rev.simps(1))

lemma TrimRight_id: "s = [] \<or> last s \<notin> set cs \<Longrightarrow> TrimRight s cs = s"
  by (cases s rule: rev_cases) (auto simp: TrimRight_def)

lemma TrimRight_idem [simp]: "TrimRight (TrimRight s cs) cs = TrimRight s cs"
  using TrimRight_id TrimRight_last by blast

lemma TrimRight_subset: "set (TrimRight s cs) \<subseteq> set s"
  by (auto simp: TrimRight_def dest: set_dropWhileD)

lemma FieldsFunc_nonempty: "p \<in> set (FieldsFunc f acc s) \<Longrightarrow> p \<noteq> []"
  by (induction f acc s rule: FieldsFunc.induct) (auto split: if_splits)

lemma FieldsFunc_clean:
  assumes "p \<in> set (FieldsFunc f acc s)" and "\<forall>c\<in>set acc. \<not> f c" and "c \<in> set p"
  shows "\<not> f c"
  using assms
proof (induction s arbitrary: acc)
  case (Cons x s)
  show ?case
  proof (cases "f x")
    case True
    with Cons.prems have "p = rev acc \<or> p \<in> set (FieldsFunc f [] s)"
      by (auto split: if_splits)
    then show ?thesis using Cons.prems(2,3) Cons.IH [of "[]"] by auto
  next
    case False
    with Cons.prems(1) have "p \<in> set (FieldsFunc f (x # acc) s)" by simp
    moreover from False Cons.prems(2) have "\<forall>c\<in>set (x # acc). \<not> f c" by simp
    ultimately show ?thesis using Cons.IH Cons.prems(3) by blast
  qed
qed (auto split: if_splits)

lemma FieldsFunc_none [go_strings]:
  "\<forall>c\<in>set s. \<not> f c \<Longrightarrow> FieldsFunc f acc s = (if acc = [] \<and> s = [] then [] else [rev acc @ s])"
proof (induction s arbitrary: acc)
  case (Cons c s)
  from Cons.prems have "\<not> f c" and "\<forall>c\<in>set s. \<not> f c" by simp_all
  with Cons.IH [of "c # acc"] show ?case by simp
qed simp

section \<open>ASCII case\<close>

definition is_upper :: "char \<Rightarrow> bool" where
  "is_upper c \<longleftrightarrow> between CHR ''A'' c CHR ''Z''"

lemma is_upper_nat: "is_upper c \<longleftrightarrow> (65 :: nat) \<le> of_char c \<and> of_char c \<le> (90 :: nat)"
  by (simp add: is_upper_def less_eq_char_def)

lemma ascii_lower_upper: "is_upper c \<Longrightarrow> of_char (ascii_lower c) = of_char c + (32 :: nat)"
  using is_upper_nat [of c] by (simp add: ascii_lower_def is_upper_def)

lemma ascii_lower_other [simp]: "\<not> is_upper c \<Longrightarrow> ascii_lower c = c"
  by (auto simp: ascii_lower_def is_upper_def)

lemma ascii_lower_not_upper [simp]: "\<not> is_upper (ascii_lower c)"
  by (cases "is_upper c") (auto simp: is_upper_nat ascii_lower_upper)

lemma ascii_lower_idem [simp]: "ascii_lower (ascii_lower c) = ascii_lower c"
  by simp

text \<open>Only letters are changed, and only into letters.\<close>

lemma ascii_lower_eq_iff:
  assumes "\<not> ((97 :: nat) \<le> of_char d \<and> of_char d \<le> (122 :: nat))" and "\<not> is_upper d"
  shows "ascii_lower c = d \<longleftrightarrow> c = d"
proof (cases "is_upper c")
  case True
  with assms(1) have "ascii_lower c \<noteq> d"
    using is_upper_nat [of c] ascii_lower_upper [of c] by auto
  with True assms(2) show ?thesis by auto
qed simp

lemma ascii_lower_dot [simp]: "ascii_lower c = CHR ''.'' \<longleftrightarrow> c = CHR ''.''"
  by (rule ascii_lower_eq_iff) (simp_all add: is_upper_nat)

lemma ascii_lower_hyphen [simp]: "ascii_lower c = CHR ''-'' \<longleftrightarrow> c = CHR ''-''"
  by (rule ascii_lower_eq_iff) (simp_all add: is_upper_nat)

lemma ascii_lower_star [simp]: "ascii_lower c = CHR ''*'' \<longleftrightarrow> c = CHR ''*''"
  by (rule ascii_lower_eq_iff) (simp_all add: is_upper_nat)

lemma ascii_lower_slash [simp]: "ascii_lower c = CHR ''/'' \<longleftrightarrow> c = CHR ''/''"
  by (rule ascii_lower_eq_iff) (simp_all add: is_upper_nat)

lemma ascii_lower_colon [simp]: "ascii_lower c = CHR '':'' \<longleftrightarrow> c = CHR '':''"
  by (rule ascii_lower_eq_iff) (simp_all add: is_upper_nat)

lemma star_in_lower [simp]: "CHR ''*'' \<in> ascii_lower ` set s \<longleftrightarrow> CHR ''*'' \<in> set s"
  by (metis ascii_lower_star imageE imageI)

section \<open>Errors\<close>

text \<open>\<open>if err != nil { return err }\<close>, and what follows it.\<close>

definition ok_then :: "'e + 'a \<Rightarrow> ('a \<Rightarrow> 'e + 'b) \<Rightarrow> 'e + 'b" where
  "ok_then r k = (case r of Inl e \<Rightarrow> Inl e | Inr x \<Rightarrow> k x)"

lemma ok_then_simps [simp]: "ok_then (Inl e) k = Inl e" "ok_then (Inr x) k = k x"
  by (simp_all add: ok_then_def)

lemma ok_then_Inr: "ok_then r k = Inr y \<longleftrightarrow> (\<exists>x. r = Inr x \<and> k x = Inr y)"
  by (cases r) auto

lemma ok_then_Inl: "ok_then r k = Inl e \<longleftrightarrow> r = Inl e \<or> (\<exists>x. r = Inr x \<and> k x = Inl e)"
  by (cases r) auto

text \<open>Loops that stop at the first error, with what each element gives and without.\<close>

fun all_ok :: "('a \<Rightarrow> 'e + 'b) \<Rightarrow> 'a list \<Rightarrow> 'e + 'b list" where
  "all_ok f [] = Inr []"
| "all_ok f (x # xs) = ok_then (f x) (\<lambda>y. ok_then (all_ok f xs) (\<lambda>ys. Inr (y # ys)))"

definition lift_error :: "('d \<Rightarrow> 'e) \<Rightarrow> 'd + 'a \<Rightarrow> 'e + 'a" where
  "lift_error = (\<lambda>f. map_sum f id)"

fun each_ok :: "('a \<Rightarrow> 'e + unit) \<Rightarrow> 'a list \<Rightarrow> 'e + unit" where
  "each_ok f [] = Inr ()"
| "each_ok f (x # xs) = ok_then (f x) (\<lambda>_. each_ok f xs)"

lemma all_ok_Inr: "all_ok f xs = Inr ys \<Longrightarrow> y \<in> set ys \<Longrightarrow> \<exists>x\<in>set xs. f x = Inr y"
  by (induction xs arbitrary: ys) (auto simp: ok_then_Inr)

lemma all_ok_all: "all_ok f xs = Inr ys \<Longrightarrow> x \<in> set xs \<Longrightarrow> \<exists>y. f x = Inr y"
  by (induction xs arbitrary: ys) (auto simp: ok_then_Inr)

lemma all_ok_Nil: "all_ok f xs = Inr [] \<longleftrightarrow> xs = []"
  by (cases xs) (auto simp: ok_then_Inr)

lemma lift_error_Inr [simp]: "lift_error f r = Inr x \<longleftrightarrow> r = Inr x"
  by (cases r) (auto simp: lift_error_def)

lemma each_ok_all: "each_ok f xs = Inr u \<Longrightarrow> x \<in> set xs \<Longrightarrow> f x = Inr ()"
  by (induction xs) (auto simp: ok_then_Inr)

section \<open>Comparisons\<close>

text \<open>
  What \<open>slices.SortStableFunc\<close> and \<open>slices.MinFunc\<close> do with a comparison function, and
  the loop that keeps the best of what it has seen. Go asks of the function that it be a
  strict weak order; the locale is that contract, and what each of the three then returns.
\<close>

fun insert_by :: "('a \<Rightarrow> 'a \<Rightarrow> int) \<Rightarrow> 'a \<Rightarrow> 'a list \<Rightarrow> 'a list" where
  "insert_by cmp x [] = [x]"
| "insert_by cmp x (y # ys) = (if cmp x y \<le> 0 then x # y # ys else y # insert_by cmp x ys)"

fun SortStableFunc :: "('a \<Rightarrow> 'a \<Rightarrow> int) \<Rightarrow> 'a list \<Rightarrow> 'a list" where
  "SortStableFunc cmp [] = []"
| "SortStableFunc cmp (x # xs) = insert_by cmp x (SortStableFunc cmp xs)"

fun MinFunc :: "('a \<Rightarrow> 'a \<Rightarrow> int) \<Rightarrow> 'a \<Rightarrow> 'a list \<Rightarrow> 'a" where
  "MinFunc cmp m [] = m"
| "MinFunc cmp m (x # xs) = MinFunc cmp (if cmp x m < 0 then x else m) xs"

text \<open>The loop \<open>for each x that is eligible, replace best where x beats it\<close>.\<close>

fun keep_best :: "('a \<Rightarrow> bool) \<Rightarrow> ('a \<Rightarrow> 'a \<Rightarrow> bool) \<Rightarrow> 'a option \<Rightarrow> 'a list \<Rightarrow> 'a option" where
  "keep_best ok beats best [] = best"
| "keep_best ok beats best (x # xs) =
     keep_best ok beats
       (if \<not> ok x then best
        else case best of None \<Rightarrow> Some x | Some b \<Rightarrow> if beats x b then Some x else Some b) xs"

lemma set_insert_by [simp]: "set (insert_by cmp x ys) = insert x (set ys)"
  by (induction ys) auto

lemma set_SortStableFunc [simp]: "set (SortStableFunc cmp xs) = set xs"
  by (induction xs) auto

lemma length_insert_by [simp]: "length (insert_by cmp x ys) = Suc (length ys)"
  by (induction ys) auto

lemma length_SortStableFunc [simp]: "length (SortStableFunc cmp xs) = length xs"
  by (induction xs) auto

lemma MinFunc_in: "MinFunc cmp m xs \<in> insert m (set xs)"
  by (induction xs arbitrary: m) (auto split: if_splits)

lemma keep_best_ok:
  "keep_best ok beats best xs = Some b \<Longrightarrow> best = Some b \<or> b \<in> set xs \<and> ok b"
  by (induction xs arbitrary: best) (fastforce split: if_splits option.splits)+

lemma keep_best_None: "keep_best ok beats best xs = None \<longleftrightarrow> best = None \<and> (\<forall>x\<in>set xs. \<not> ok x)"
  by (induction xs arbitrary: best) (auto split: option.splits if_splits)

locale comparison =
  fixes cmp :: "'a \<Rightarrow> 'a \<Rightarrow> int"
  assumes flip: "cmp b a \<le> 0 \<longleftrightarrow> \<not> cmp a b < 0"
    and chain: "cmp a b \<le> 0 \<Longrightarrow> cmp b c \<le> 0 \<Longrightarrow> cmp a c \<le> 0"
begin

lemma same [simp]: "cmp a a = 0"
  using flip [of a a] by (cases "cmp a a < 0") auto

lemma sorted_insert_by:
  "sorted_wrt (\<lambda>a b. cmp a b \<le> 0) ys \<Longrightarrow> sorted_wrt (\<lambda>a b. cmp a b \<le> 0) (insert_by cmp x ys)"
proof (induction ys)
  case (Cons y ys)
  show ?case
  proof (cases "cmp x y \<le> 0")
    case True
    with Cons.prems chain show ?thesis by auto
  next
    case False
    with flip [of y x] have "cmp y x \<le> 0" by linarith
    with False Cons show ?thesis by auto
  qed
qed simp

lemma sorted_SortStableFunc: "sorted_wrt (\<lambda>a b. cmp a b \<le> 0) (SortStableFunc cmp xs)"
  by (induction xs) (simp_all add: sorted_insert_by)

lemma MinFunc_le: "x \<in> insert m (set xs) \<Longrightarrow> cmp (MinFunc cmp m xs) x \<le> 0"
proof (induction xs arbitrary: m x)
  case Nil
  then show ?case by simp
next
  case (Cons y xs)
  let ?m = "if cmp y m < 0 then y else m"
  have le: "cmp (MinFunc cmp ?m xs) ?m \<le> 0" by (rule Cons.IH) simp
  have "cmp ?m m \<le> 0" and "cmp ?m y \<le> 0"
    using flip [of m y] by auto
  with le have "cmp (MinFunc cmp ?m xs) m \<le> 0" and "cmp (MinFunc cmp ?m xs) y \<le> 0"
    by (meson chain)+
  with Cons show ?case by auto
qed

text \<open>What the loop keeps is not beaten by anything eligible.\<close>

lemma keep_best_max:
  "keep_best ok (\<lambda>x b. cmp x b < 0) best xs = Some b \<Longrightarrow>
   (x \<in> set xs \<and> ok x \<or> best = Some x) \<Longrightarrow> cmp b x \<le> 0"
proof (induction xs arbitrary: best x)
  case Nil
  then show ?case by auto
next
  case (Cons y xs)
  let ?best = "if \<not> ok y then best
      else case best of None \<Rightarrow> Some y | Some b \<Rightarrow> if cmp y b < 0 then Some y else Some b"
  have step: "keep_best ok (\<lambda>x b. cmp x b < 0) ?best xs = Some b" using Cons.prems(1) by simp
  show ?case
  proof (cases "x \<in> set xs \<and> ok x \<or> ?best = Some x")
    case True
    then show ?thesis using Cons.IH [OF step] by blast
  next
    case False
    with Cons.prems(2) obtain z where z: "?best = Some z" "cmp z x \<le> 0"
      using flip by (auto split: option.splits if_splits) (metis less_imp_le not_le)+
    from Cons.IH [OF step, of z] z(1) have "cmp b z \<le> 0" by blast
    then show ?thesis using z(2) by (rule chain)
  qed
qed

end

text \<open>Comparing by a key, the larger or the smaller first, and by one comparison and then
  another, are comparisons.\<close>

lemma comparison_key: "comparison (\<lambda>a b. f b - (f a :: int))"
  by unfold_locales auto

lemma comparison_lex:
  assumes "comparison c" and "comparison d"
  shows "comparison (\<lambda>a b. if c a b \<noteq> 0 then c a b else d a b)"
proof
  fix a b
  show "(if c b a \<noteq> 0 then c b a else d b a) \<le> 0 \<longleftrightarrow> \<not> (if c a b \<noteq> 0 then c a b else d a b) < 0"
    using comparison.flip [OF assms(1), of a b] comparison.flip [OF assms(1), of b a]
      comparison.flip [OF assms(2), of a b] comparison.flip [OF assms(2), of b a]
    by (auto split: if_splits)
next
  fix a b e
  assume ab: "(if c a b \<noteq> 0 then c a b else d a b) \<le> 0"
    and be: "(if c b e \<noteq> 0 then c b e else d b e) \<le> 0"
  have c: "c a b \<le> 0" "c b e \<le> 0" using ab be by (auto split: if_splits)
  then have ae: "c a e \<le> 0" by (rule comparison.chain [OF assms(1)])
  show "(if c a e \<noteq> 0 then c a e else d a e) \<le> 0"
  proof (cases "c a e = 0")
    case True
    then have ea: "c e a \<le> 0"
      using comparison.flip [OF assms(1), of a e] comparison.flip [OF assms(1), of e a] by auto
    have "c b a \<le> 0" by (rule comparison.chain [OF assms(1) c(2) ea])
    moreover have "c e b \<le> 0" by (rule comparison.chain [OF assms(1) ea c(1)])
    ultimately have "c a b = 0" "c b e = 0"
      using c comparison.flip [OF assms(1), of a b] comparison.flip [OF assms(1), of b e]
        comparison.flip [OF assms(1), of b a] comparison.flip [OF assms(1), of e b] by auto
    with ab be have "d a e \<le> 0" using comparison.chain [OF assms(2)] by simp
    with True show ?thesis by simp
  qed (use ae in simp)
qed

end
