(* ===== verification/Dns_Match.thy ===== *)
theory Dns_Match
  imports Prelude
begin

text \<open>
  The name allowlist, \<open>internal/dns/match.go\<close>: the normal form of a name, the three
  shapes of an allowlist entry, the validity of a queried name, and the matcher.

  The host patterns of a version 2 document are the quoin module's (\<open>hostpattern\<close>),
  which is not part of this repository: their compiler and matcher are the parameters
  \<open>hp_compile\<close> and \<open>hp_match\<close>.
\<close>

section \<open>Names\<close>

definition maxName :: nat where
  "maxName = 253"

definition Normalize :: "string \<Rightarrow> string" where
  "Normalize name = map ascii_lower (TrimRight name ''.'')"

definition nameByte :: "char \<Rightarrow> bool" where
  "nameByte c \<longleftrightarrow>
     between CHR ''a'' c CHR ''z'' \<or> between CHR ''A'' c CHR ''Z'' \<or>
     between CHR ''0'' c CHR ''9'' \<or> c = CHR ''-'' \<or> c = CHR ''_''"

datatype pattern =
  AnyName
| ExactName string
| WildName string

text \<open>The struct's \<open>Any\<close>, \<open>Wildcard\<close> and \<open>Name\<close> fields as the three shapes they
  spell; \<open>Pattern.String\<close> writes them back.\<close>

fun pattern_String :: "pattern \<Rightarrow> string" where
  "pattern_String AnyName = ''*''"
| "pattern_String (WildName n) = ''*.'' @ n"
| "pattern_String (ExactName n) = n"

datatype hostname_error =
  NoName
| LongName nat
| EmptyLabel
| LongLabel nat
| HyphenEnd string
| NotASCII string
| BadByte string char

datatype pattern_error =
  ErrEmpty
| ErrStar string
| ErrHostname string hostname_error

text \<open>The byte loop over one label: the first byte that is not a name's.\<close>

fun label_bytes :: "string \<Rightarrow> string \<Rightarrow> hostname_error option" where
  "label_bytes label [] = None"
| "label_bytes label (c # cs) =
     (if \<not> nameByte c
      then if (of_char c :: nat) \<ge> 128 then Some (NotASCII label) else Some (BadByte label c)
      else label_bytes label cs)"

fun valid_label :: "string \<Rightarrow> hostname_error option" where
  "valid_label label =
     (if label = [] then Some EmptyLabel
      else if length label > 63 then Some (LongLabel (length label))
      else if hd label = CHR ''-'' \<or> last label = CHR ''-'' then Some (HyphenEnd label)
      else label_bytes label label)"

fun valid_labels :: "string list \<Rightarrow> hostname_error option" where
  "valid_labels [] = None"
| "valid_labels (l # ls) = (case valid_label l of Some e \<Rightarrow> Some e | None \<Rightarrow> valid_labels ls)"

definition validHostname :: "string \<Rightarrow> hostname_error option" where
  "validHostname n =
     (if n = [] then Some NoName
      else if length n > maxName then Some (LongName (length n))
      else valid_labels (Split (CHR ''.'') n))"

definition ParsePattern :: "string \<Rightarrow> pattern_error + pattern" where
  "ParsePattern s =
     (if s = [] then Inl ErrEmpty
      else if s = ''*'' then Inr AnyName
      else
        (let raw = TrimSuffix s ''.'';
             (wild, raw) = (case CutPrefix raw ''*.'' of Some rest \<Rightarrow> (True, rest) | None \<Rightarrow> (False, raw))
         in if CHR ''*'' \<in> set raw \<or> wild \<and> raw = [] then Inl (ErrStar s)
            else case validHostname raw of
                Some e \<Rightarrow> Inl (ErrHostname s e)
              | None \<Rightarrow> Inr (if wild then WildName (Normalize raw) else ExactName (Normalize raw))))"

text \<open>The loop of \<open>ValidQueryName\<close>: \<open>label\<close> counts the bytes of the label so far.\<close>

fun query_bytes :: "nat \<Rightarrow> string \<Rightarrow> bool" where
  "query_bytes label [] \<longleftrightarrow> label > 0"
| "query_bytes label (c # cs) \<longleftrightarrow>
     (if c = CHR ''.'' then label \<noteq> 0 \<and> query_bytes 0 cs
      else if nameByte c then \<not> Suc label > 63 \<and> query_bytes (Suc label) cs
      else False)"

definition ValidQueryName :: "string \<Rightarrow> bool" where
  "ValidQueryName n \<longleftrightarrow> \<not> (n = [] \<or> length n > maxName) \<and> query_bytes 0 n"

section \<open>The matcher\<close>

record 'hp matcher =
  any :: bool
  exact :: "string set"
  wild :: "string set"
  patterns :: "pattern list"
  hosts :: "'hp list"

definition empty_matcher :: "'hp matcher" where
  "empty_matcher = \<lparr>any = False, exact = {}, wild = {}, patterns = [], hosts = []\<rparr>"

fun add_pattern :: "'hp matcher \<Rightarrow> pattern \<Rightarrow> 'hp matcher" where
  "add_pattern m AnyName = m\<lparr>any := True, patterns := patterns m @ [AnyName]\<rparr>"
| "add_pattern m (WildName n) = m\<lparr>wild := insert n (wild m), patterns := patterns m @ [WildName n]\<rparr>"
| "add_pattern m (ExactName n) = m\<lparr>exact := insert n (exact m), patterns := patterns m @ [ExactName n]\<rparr>"

fun add_patterns :: "'hp matcher \<Rightarrow> string list \<Rightarrow> pattern_error + 'hp matcher" where
  "add_patterns m [] = Inr m"
| "add_patterns m (s # ss) =
     (case ParsePattern s of Inl e \<Rightarrow> Inl e | Inr p \<Rightarrow> add_patterns (add_pattern m p) ss)"

definition NewMatcher :: "string list \<Rightarrow> pattern_error + 'hp matcher" where
  "NewMatcher ss = add_patterns empty_matcher ss"

text \<open>\<open>Patterns\<close> and \<open>HostPatterns\<close> copy the lists out; a nil matcher has neither.\<close>

definition Patterns :: "'hp matcher option \<Rightarrow> pattern list" where
  "Patterns m = (case m of None \<Rightarrow> [] | Some m \<Rightarrow> patterns m)"

definition HostPatterns :: "'hp matcher option \<Rightarrow> 'hp list" where
  "HostPatterns m = (case m of None \<Rightarrow> [] | Some m \<Rightarrow> hosts m)"

datatype host_pattern_error =
  ErrCompile
| HostLongLabel nat
| HostBadByte char

definition host_pattern_byte :: "char \<Rightarrow> bool" where
  "host_pattern_byte c \<longleftrightarrow> \<not> (c \<noteq> CHR ''*'' \<and> \<not> nameByte c \<or> between CHR ''A'' c CHR ''Z'')"

fun host_pattern_labels :: "string list \<Rightarrow> host_pattern_error option" where
  "host_pattern_labels [] = None"
| "host_pattern_labels (l # ls) =
     (if length l > 63 then Some (HostLongLabel (length l))
      else case find (\<lambda>c. \<not> host_pattern_byte c) l of
          Some c \<Rightarrow> Some (HostBadByte c)
        | None \<Rightarrow> host_pattern_labels ls)"

definition CheckHostPattern ::
    "(string \<Rightarrow> 'hp option) \<Rightarrow> string \<Rightarrow> host_pattern_error + 'hp" where
  "CheckHostPattern hp_compile k =
     (case hp_compile k of
        None \<Rightarrow> Inl ErrCompile
      | Some p \<Rightarrow> (case host_pattern_labels (Split (CHR ''.'') k) of
            Some e \<Rightarrow> Inl e
          | None \<Rightarrow> Inr p))"

text \<open>The keys before a bad one stay added, as the code appends each as it checks it:
  the error is returned with the matcher as it then is.\<close>

fun AddHostPatterns ::
    "(string \<Rightarrow> 'hp option) \<Rightarrow> 'hp matcher \<Rightarrow> string list \<Rightarrow> 'hp matcher \<times> host_pattern_error option" where
  "AddHostPatterns hp_compile m [] = (m, None)"
| "AddHostPatterns hp_compile m (k # ks) =
     (case CheckHostPattern hp_compile k of
        Inl e \<Rightarrow> (m, Some e)
      | Inr p \<Rightarrow> AddHostPatterns hp_compile (m\<lparr>hosts := hosts m @ [p]\<rparr>) ks)"

text \<open>The walk over the dots: is what follows one of them a wildcard's suffix?\<close>

fun wild_walk :: "string set \<Rightarrow> string \<Rightarrow> bool" where
  "wild_walk w [] \<longleftrightarrow> False"
| "wild_walk w (c # cs) \<longleftrightarrow> c = CHR ''.'' \<and> cs \<in> w \<or> wild_walk w cs"

definition Match :: "('hp \<Rightarrow> string \<Rightarrow> bool) \<Rightarrow> 'hp matcher option \<Rightarrow> string \<Rightarrow> bool" where
  "Match hp_match mo name =
     (case mo of
        None \<Rightarrow> False
      | Some m \<Rightarrow>
          if suffix ''..'' name then False
          else let n = Normalize name in
            if \<not> ValidQueryName n then False
            else if any m then True
            else if n \<in> exact m then True
            else if wild_walk (wild m) n then True
            else list_ex (\<lambda>p. hp_match p n) (hosts m))"


section \<open>What a valid name is\<close>

text \<open>The loop of \<open>ValidQueryName\<close> against the labels it walks.\<close>

definition good_label :: "string \<Rightarrow> bool" where
  "good_label l \<longleftrightarrow> l \<noteq> [] \<and> length l \<le> 63 \<and> (\<forall>c\<in>set l. nameByte c)"

lemma nameByte_not_dot [simp]: "\<not> nameByte CHR ''.''"
  by (simp add: nameByte_def)

lemma nameByte_not_star [simp]: "\<not> nameByte CHR ''*''"
  by (simp add: nameByte_def)

lemma query_bytes_Split:
  "k \<le> 63 \<Longrightarrow> query_bytes k s \<longleftrightarrow>
     (let l = hd (Split CHR ''.'' s)
      in k + length l > 0 \<and> k + length l \<le> 63 \<and> (\<forall>c\<in>set l. nameByte c)) \<and>
     (\<forall>l\<in>set (tl (Split CHR ''.'' s)). good_label l)"
proof (induction s arbitrary: k)
  case Nil
  then show ?case by simp
next
  case (Cons c s)
  obtain p ps where s: "Split CHR ''.'' s = p # ps"
    by (cases "Split CHR ''.'' s") auto
  show ?case
  proof (cases "c = CHR ''.''")
    case True
    have "query_bytes 0 s \<longleftrightarrow> good_label p \<and> (\<forall>l\<in>set ps. good_label l)"
      using Cons.IH [of 0] s by (auto simp: good_label_def Let_def)
    with True s Cons.prems show ?thesis by (auto simp: Let_def)
  next
    case False
    show ?thesis
    proof (cases "Suc k \<le> 63")
      case True
      with Cons.IH [of "Suc k"] False s show ?thesis by (auto simp: Let_def)
    next
      case False
      with \<open>c \<noteq> CHR ''.''\<close> s Cons.prems show ?thesis by (auto simp: Let_def)
    qed
  qed
qed

lemma ValidQueryName_labels:
  "ValidQueryName n \<longleftrightarrow> length n \<le> 253 \<and> (\<forall>l\<in>set (Split CHR ''.'' n). good_label l)"
proof -
  obtain p ps where n: "Split CHR ''.'' n = p # ps"
    by (cases "Split CHR ''.'' n") auto
  have "n = [] \<Longrightarrow> \<not> good_label p" using n by (simp add: good_label_def)
  with n query_bytes_Split [of 0 n] show ?thesis
    by (auto simp: ValidQueryName_def maxName_def good_label_def Let_def)
qed

lemma nameByte_lower [simp]: "nameByte (ascii_lower c) = nameByte c"
proof (cases "is_upper c")
  case True
  then show ?thesis
    using is_upper_nat [of c] ascii_lower_upper [of c]
    by (simp add: nameByte_def less_eq_char_def)
qed simp

lemma Split_map_lower:
  "Split CHR ''.'' (map ascii_lower s) = map (map ascii_lower) (Split CHR ''.'' s)"
  by (induction s) (auto split: list.splits)

lemma good_label_lower [simp]: "good_label (map ascii_lower l) = good_label l"
  by (auto simp: good_label_def)

lemma ValidQueryName_lower [simp]: "ValidQueryName (map ascii_lower n) = ValidQueryName n"
  by (auto simp: ValidQueryName_labels Split_map_lower)

lemma ValidQueryName_last_dot: "ValidQueryName n \<Longrightarrow> n \<noteq> [] \<and> last n \<noteq> CHR ''.''"
proof -
  assume v: "ValidQueryName n"
  have ne: "n \<noteq> []" using v by (auto simp: ValidQueryName_def)
  have "last n \<noteq> CHR ''.''"
  proof
    assume "last n = CHR ''.''"
    with ne obtain m where "n = m @ CHR ''.'' # []" by (metis append_butlast_last_id)
    then have "[] \<in> set (Split CHR ''.'' n)" by (simp add: Split_append)
    with v show False by (auto simp: ValidQueryName_labels good_label_def)
  qed
  with ne show ?thesis by blast
qed

lemma Normalize_idem [simp]: "Normalize (Normalize n) = Normalize n"
proof -
  have "TrimRight (map ascii_lower (TrimRight n ''.'')) ''.'' = map ascii_lower (TrimRight n ''.'')"
  proof (rule TrimRight_id)
    show "map ascii_lower (TrimRight n ''.'') = [] \<or> last (map ascii_lower (TrimRight n ''.'')) \<notin> set ''.''"
      using TrimRight_last [of n "''.''"] by (cases "TrimRight n ''.'' = []") (simp_all add: last_map)
  qed
  then show ?thesis by (simp add: Normalize_def comp_def)
qed

lemma Normalize_valid: "ValidQueryName n \<Longrightarrow> Normalize n = map ascii_lower n"
  using ValidQueryName_last_dot [of n] by (simp add: Normalize_def TrimRight_id)

section \<open>What a parsed pattern is\<close>

lemma label_bytes_None: "label_bytes l s = None \<longleftrightarrow> (\<forall>c\<in>set s. nameByte c)"
  by (induction s) auto

lemma valid_labels_good: "valid_labels ls = None \<Longrightarrow> \<forall>l\<in>set ls. good_label l"
  by (induction ls) (auto simp: good_label_def label_bytes_None split: option.splits if_splits)

lemma validHostname_valid: "validHostname n = None \<Longrightarrow> ValidQueryName n"
  by (auto simp: validHostname_def ValidQueryName_labels maxName_def
      dest: valid_labels_good split: if_splits)

lemma valid_label_lower: "valid_label l = None \<Longrightarrow> valid_label (map ascii_lower l) = None"
  by (auto simp: label_bytes_None hd_map last_map split: if_splits)

lemma valid_labels_None: "valid_labels ls = None \<longleftrightarrow> (\<forall>l\<in>set ls. valid_label l = None)"
  by (induction ls) (auto split: option.splits)

lemma validHostname_lower: "validHostname n = None \<Longrightarrow> validHostname (map ascii_lower n) = None"
  by (auto simp: validHostname_def valid_labels_None Split_map_lower valid_label_lower
      simp del: valid_label.simps split: if_splits)

lemma ParsePattern_cases:
  assumes "ParsePattern s = Inr p"
  obtains "p = AnyName" "s = ''*''"
  | raw where "validHostname raw = None" "CHR ''*'' \<notin> set raw" "p = ExactName (map ascii_lower raw)"
  | raw where "validHostname raw = None" "CHR ''*'' \<notin> set raw" "p = WildName (map ascii_lower raw)"
proof -
  have N: "validHostname raw = None \<Longrightarrow> Normalize raw = map ascii_lower raw" for raw
    using Normalize_valid validHostname_valid by blast
  show thesis
  proof (cases "s = [] \<or> s = ''*''")
    case True
    with assms that(1) show thesis by (auto simp: ParsePattern_def)
  next
    case False
    with assms that(2,3) N show thesis
      by (auto simp: ParsePattern_def Let_def split: option.splits if_splits)
  qed
qed

lemma parsed_name_valid:
  assumes "ParsePattern s = Inr p" and "p = ExactName n \<or> p = WildName n"
  shows "ValidQueryName n" and "Normalize n = n"
  using assms by (auto elim!: ParsePattern_cases simp: Normalize_valid validHostname_valid)


section \<open>What a matcher matches\<close>

text \<open>
  The specification of a pattern, by labels: every name, the name itself, or the names
  with at least one label before the pattern's own.
\<close>

definition covers :: "pattern \<Rightarrow> string \<Rightarrow> bool" where
  "covers p n =
     (case p of
        AnyName \<Rightarrow> True
      | ExactName e \<Rightarrow> n = e
      | WildName e \<Rightarrow>
          (\<exists>ls. ls \<noteq> [] \<and> Split CHR ''.'' n = ls @ Split CHR ''.'' e))"

lemma wild_walk_append: "wild_walk w n \<longleftrightarrow> (\<exists>x e. n = x @ CHR ''.'' # e \<and> e \<in> w)"
proof (induction n)
  case (Cons c n)
  show ?case
  proof (intro iffI)
    assume "wild_walk w (c # n)"
    then have "c = CHR ''.'' \<and> n \<in> w \<or> wild_walk w n" by simp
    then show "\<exists>x e. c # n = x @ CHR ''.'' # e \<and> e \<in> w"
    proof
      assume "c = CHR ''.'' \<and> n \<in> w"
      then have "c # n = [] @ CHR ''.'' # n \<and> n \<in> w" by simp
      then show ?thesis by blast
    next
      assume "wild_walk w n"
      then obtain x e where "n = x @ CHR ''.'' # e" "e \<in> w" using Cons.IH by blast
      then have "c # n = (c # x) @ CHR ''.'' # e \<and> e \<in> w" by simp
      then show ?thesis by blast
    qed
  next
    assume "\<exists>x e. c # n = x @ CHR ''.'' # e \<and> e \<in> w"
    then show "wild_walk w (c # n)" using Cons.IH by (auto simp: Cons_eq_append_conv)
  qed
qed simp

lemma dot_suffix_labels:
  "(\<exists>x. n = x @ CHR ''.'' # e) \<longleftrightarrow>
   (\<exists>ls. ls \<noteq> [] \<and> Split CHR ''.'' n = ls @ Split CHR ''.'' e)"
proof
  assume "\<exists>x. n = x @ CHR ''.'' # e"
  then show "\<exists>ls. ls \<noteq> [] \<and> Split CHR ''.'' n = ls @ Split CHR ''.'' e"
    using Split_append Split_not_Nil by blast
next
  assume "\<exists>ls. ls \<noteq> [] \<and> Split CHR ''.'' n = ls @ Split CHR ''.'' e"
  then obtain ls where ls: "ls \<noteq> []" "Split CHR ''.'' n = ls @ Split CHR ''.'' e" by blast
  have clean: "\<forall>l\<in>set ls. CHR ''.'' \<notin> set l"
  proof
    fix l assume "l \<in> set ls"
    with ls(2) have "l \<in> set (Split CHR ''.'' n)" by simp
    then show "CHR ''.'' \<notin> set l" by (rule Split_no_sep)
  qed
  then have "Split CHR ''.'' (Join CHR ''.'' ls) = ls" using ls(1) by (simp add: Split_Join)
  then have "Split CHR ''.'' n = Split CHR ''.'' (Join CHR ''.'' ls @ CHR ''.'' # e)"
    by (simp add: Split_append ls(2))
  then show "\<exists>x. n = x @ CHR ''.'' # e" using Split_inj by blast
qed

lemma wild_walk_covers: "wild_walk w n \<longleftrightarrow> (\<exists>e\<in>w. covers (WildName e) n)"
proof -
  have "covers (WildName e) n \<longleftrightarrow> (\<exists>x. n = x @ CHR ''.'' # e)" for e
    using dot_suffix_labels [of n e] by (simp add: covers_def)
  then show ?thesis by (auto simp: wild_walk_append)
qed

definition tables :: "'hp matcher \<Rightarrow> string \<Rightarrow> bool" where
  "tables m n \<longleftrightarrow> any m \<or> n \<in> exact m \<or> wild_walk (wild m) n"

lemma add_pattern_tables: "tables (add_pattern m p) n \<longleftrightarrow> tables m n \<or> covers p n"
  by (cases p) (auto simp: tables_def wild_walk_covers covers_def)

lemma add_pattern_fields [simp]:
  "hosts (add_pattern m p) = hosts m" "patterns (add_pattern m p) = patterns m @ [p]"
  by (cases p; simp)+

lemma add_patterns_tables:
  "add_patterns m ss = Inr m' \<Longrightarrow>
   hosts m' = hosts m \<and>
   (tables m' n \<longleftrightarrow> tables m n \<or> (\<exists>s\<in>set ss. \<exists>p. ParsePattern s = Inr p \<and> covers p n))"
proof (induction ss arbitrary: m)
  case (Cons s ss)
  then obtain p where p: "ParsePattern s = Inr p" "add_patterns (add_pattern m p) ss = Inr m'"
    by (auto split: sum.splits)
  from Cons.IH [OF p(2)] p(1) show ?case by (auto simp: add_pattern_tables)
qed simp

lemma NewMatcher_tables:
  "NewMatcher ss = Inr m \<Longrightarrow>
   hosts m = [] \<and> (tables m n \<longleftrightarrow> (\<exists>s\<in>set ss. \<exists>p. ParsePattern s = Inr p \<and> covers p n))"
  using add_patterns_tables [of empty_matcher ss m n]
  by (simp add: NewMatcher_def empty_matcher_def tables_def wild_walk_append)

lemma Match_Some:
  "Match f (Some m) name \<longleftrightarrow>
   \<not> suffix ''..'' name \<and> ValidQueryName (Normalize name) \<and>
   (tables m (Normalize name) \<or> (\<exists>p\<in>set (hosts m). f p (Normalize name)))"
  by (auto simp: Match_def Let_def tables_def list_ex_iff)

lemma Match_valid: "Match f mo name \<Longrightarrow> ValidQueryName (Normalize name)"
  by (cases mo) (auto simp: Match_def Let_def split: if_splits)

lemma add_patterns_parse:
  "(\<exists>m'. add_patterns m ss = Inr m') \<longleftrightarrow> (\<forall>s\<in>set ss. \<exists>p. ParsePattern s = Inr p)"
  by (induction ss arbitrary: m) (auto split: sum.splits)

lemma pattern_String_first:
  assumes "valid_label l = None" and "hd (Split CHR ''.'' n) = l"
  shows "n \<noteq> [] \<and> n \<noteq> ''*'' \<and> hd n \<noteq> CHR ''*''"
  using assms by (cases n) (auto simp: label_bytes_None split: if_splits list.splits)

lemma parsed_String:
  assumes n: "validHostname n = None" and low: "Normalize n = n" and star: "CHR ''*'' \<notin> set n"
  shows "ParsePattern n = Inr (ExactName n)" and "ParsePattern (''*.'' @ n) = Inr (WildName n)"
proof -
  have last: "n \<noteq> []" "last n \<noteq> CHR ''.''"
    using ValidQueryName_last_dot validHostname_valid n by blast+
  then obtain b c where "n = b @ [c]" "c \<noteq> CHR ''.''" by (cases n rule: rev_cases) auto
  then have "\<not> suffix ''.'' n" "\<not> suffix ''.'' (''*.'' @ n)"
    by (simp_all add: suffix_snoc suffix_Cons)
  then have T: "TrimSuffix n ''.'' = n" "TrimSuffix (''*.'' @ n) ''.'' = ''*.'' @ n"
    by (simp_all add: TrimSuffix_def)
  have C: "CutPrefix n ''*.'' = None" "CutPrefix (''*.'' @ n) ''*.'' = Some n"
    using star by (auto simp: CutPrefix_def prefix_def)
  from T C n low star last(1) show "ParsePattern n = Inr (ExactName n)"
    by (auto simp: ParsePattern_def Let_def)
  from T C n low star last(1) show "ParsePattern (''*.'' @ n) = Inr (WildName n)"
    by (auto simp: ParsePattern_def Let_def)
qed

text \<open>A wildcard whose name leaves no room for a label and a dot in front of it covers no name a
  query may have, though \<open>ParsePattern\<close> takes it.\<close>

lemma dead_wildcard:
  assumes "252 \<le> length e" "ValidQueryName q"
  shows "\<not> covers (WildName e) q"
proof
  assume "covers (WildName e) q"
  then have "\<exists>x. q = x @ CHR ''.'' # e" unfolding dot_suffix_labels by (simp add: covers_def)
  then obtain x where x: "q = x @ CHR ''.'' # e" by blast
  with assms(2) have "length x + length e < 253" by (auto simp: ValidQueryName_def maxName_def)
  with assms(1) have "length x = 0" by linarith
  with x assms(2) show False by (simp add: ValidQueryName_def)
qed

section \<open>Properties\<close>

text \<open>
  C14: a matcher built from a list of entries matches a name exactly when the name does not
  end in two dots, its normal form is a valid query name, and some entry of the list covers
  that normal form: every name, the name itself, or, for a wildcard, a name with at least
  one label more in front of the entry's own labels. So "*.google.com" takes neither
  google.com nor evil-google.com, and case and one trailing dot never matter.
\<close>

theorem matcher_spec:
  assumes "NewMatcher ss = Inr m"
  shows "Match f (Some m) name \<longleftrightarrow>
    \<not> suffix ''..'' name \<and> ValidQueryName (Normalize name) \<and>
    (\<exists>s\<in>set ss. \<exists>p. ParsePattern s = Inr p \<and> covers p (Normalize name))"
  using NewMatcher_tables [OF assms] by (simp add: Match_Some)

definition example_matcher :: "unit matcher" where
  "example_matcher =
     \<lparr>any = False, exact = {''a.com''}, wild = {''google.com''},
      patterns = [ExactName ''a.com'', WildName ''google.com''], hosts = []\<rparr>"

theorem matcher_spec_witness:
  "NewMatcher [''A.com'', ''*.google.com.''] = Inr example_matcher \<and>
   Match (\<lambda>_ _. False) (Some example_matcher) ''API.google.com.'' \<and>
   \<not> Match (\<lambda>_ _. False) (Some example_matcher) ''evil-google.com''"
proof -
  let ?ss = "[''A.com'', ''*.google.com.'']"
  have m: "NewMatcher ?ss = Inr example_matcher" by code_simp
  have "ParsePattern ''*.google.com.'' = Inr (WildName ''google.com'')" by code_simp
  moreover have "Split CHR ''.'' (Normalize ''API.google.com.'') = [''api''] @ Split CHR ''.'' ''google.com''"
    by code_simp
  then have "covers (WildName ''google.com'') (Normalize ''API.google.com.'')"
    unfolding covers_def by auto
  ultimately have "\<exists>s\<in>set ?ss. \<exists>p. ParsePattern s = Inr p \<and> covers p (Normalize ''API.google.com.'')"
    by auto
  moreover have "\<not> suffix ''..'' ''API.google.com.''" "ValidQueryName (Normalize ''API.google.com.'')"
    by code_simp+
  ultimately have "Match (\<lambda>_ _. False) (Some example_matcher) ''API.google.com.''"
    using matcher_spec [OF m] by blast
  moreover have "\<not> Match (\<lambda>_ _. False) (Some example_matcher) ''evil-google.com''" by code_simp
  ultimately show ?thesis using m by blast
qed

text \<open>
  What an entry parses as is written back as an entry that parses as the same, so a
  policy printed and read again means what it meant.
\<close>

theorem pattern_roundtrip:
  assumes "ParsePattern s = Inr p"
  shows "ParsePattern (pattern_String p) = Inr p"
  using assms
proof (cases rule: ParsePattern_cases)
  case 1
  then show ?thesis by (simp add: ParsePattern_def)
next
  case (2 raw)
  then have "CHR ''*'' \<notin> set (map ascii_lower raw)" by simp
  with 2 parsed_String(1) validHostname_lower parsed_name_valid(2) [OF assms] show ?thesis by simp
next
  case (3 raw)
  then have "CHR ''*'' \<notin> set (map ascii_lower raw)" by simp
  with 3 parsed_String(2) validHostname_lower parsed_name_valid(2) [OF assms] show ?thesis by simp
qed

theorem pattern_roundtrip_witness:
  "ParsePattern ''*.Example.COM.'' = Inr (WildName ''example.com'') \<and>
   ParsePattern (pattern_String (WildName ''example.com'')) = Inr (WildName ''example.com'')"
proof -
  have "ParsePattern ''*.Example.COM.'' = Inr (WildName ''example.com'')" by code_simp
  with pattern_roundtrip [OF this] show ?thesis by blast
qed

end
