(* ===== verification/Go_Text.thy ===== *)
theory Go_Text
  imports Prelude
begin

text \<open>
  The parts of Go's \<open>unicode/utf8\<close> and \<open>net/url\<close> packages the program's decisions
  rest on, as the standard library documents them: decoding one rune, a string's runes and
  its validity; decoding a percent-encoded path segment; and reading a query.

  Unicode's case tables are not written out: \<open>strings.ToLower\<close> and \<open>strings.ToUpper\<close>
  are the two fields of a record every definition that folds case takes, and nothing is
  assumed of them. On ASCII they are the instance \<open>ascii_unicode\<close>.
\<close>

abbreviation byte :: "char \<Rightarrow> int" where
  "byte c \<equiv> of_char c"

record unicode =
  ToLower :: "string \<Rightarrow> string"
  ToUpper :: "string \<Rightarrow> string"

definition ascii_unicode :: unicode where
  "ascii_unicode = \<lparr>ToLower = map ascii_lower, ToUpper = map ascii_upper\<rparr>"

section \<open>UTF-8\<close>

definition RuneError :: int where
  "RuneError = 65533"

definition cont :: "int \<Rightarrow> int \<Rightarrow> char \<Rightarrow> bool" where
  "cont lo hi c \<longleftrightarrow> lo \<le> byte c \<and> byte c \<le> hi"

text \<open>\<open>utf8.DecodeRuneInString\<close>: the rune and its length in bytes; an encoding that is
  not well formed (overlong, a surrogate, out of range, cut short) is RuneError of length 1.\<close>

definition DecodeRune :: "string \<Rightarrow> int \<times> nat" where
  "DecodeRune s =
     (case s of
        [] \<Rightarrow> (RuneError, 0)
      | a # s1 \<Rightarrow>
          let x = byte a in
          if x < 128 then (x, 1)
          else if 194 \<le> x \<and> x \<le> 223 then
            (case s1 of
               b # _ \<Rightarrow> if cont 128 191 b then ((x - 192) * 64 + (byte b - 128), 2) else (RuneError, 1)
             | _ \<Rightarrow> (RuneError, 1))
          else if 224 \<le> x \<and> x \<le> 239 then
            (case s1 of
               b # c # _ \<Rightarrow>
                 if cont (if x = 224 then 160 else 128) (if x = 237 then 159 else 191) b \<and> cont 128 191 c
                 then ((x - 224) * 4096 + (byte b - 128) * 64 + (byte c - 128), 3)
                 else (RuneError, 1)
             | _ \<Rightarrow> (RuneError, 1))
          else if 240 \<le> x \<and> x \<le> 244 then
            (case s1 of
               b # c # d # _ \<Rightarrow>
                 if cont (if x = 240 then 144 else 128) (if x = 244 then 143 else 191) b
                    \<and> cont 128 191 c \<and> cont 128 191 d
                 then ((x - 240) * 262144 + (byte b - 128) * 4096 + (byte c - 128) * 64 + (byte d - 128), 4)
                 else (RuneError, 1)
             | _ \<Rightarrow> (RuneError, 1))
          else (RuneError, 1))"

lemma DecodeRune_size: "s \<noteq> [] \<Longrightarrow> 1 \<le> snd (DecodeRune s) \<and> snd (DecodeRune s) \<le> length s"
  by (auto simp: DecodeRune_def Let_def split: list.splits if_splits)

lemma DecodeRune_less:
  "(r, n) = DecodeRune (c # cs) \<Longrightarrow> Suc (length cs) - n < Suc (length cs)"
  using DecodeRune_size [of "c # cs"] by (cases n) (auto dest: sym)

lemma DecodeRune_ascii [simp]: "byte a < 128 \<Longrightarrow> DecodeRune (a # s) = (byte a, 1)"
  by (simp add: DecodeRune_def)

text \<open>The runes a \<open>range\<close> over a string yields, and \<open>utf8.ValidString\<close>.\<close>

function runes :: "string \<Rightarrow> int list" where
  "runes s =
     (if s = [] then [] else (let (r, n) = DecodeRune s in r # runes (drop n s)))"
  by pat_completeness auto
termination
proof (relation "measure length", goal_cases)
  case (2 s p r n)
  then show ?case using DecodeRune_size [of s] by (cases "DecodeRune s") auto
qed simp

function ValidString :: "string \<Rightarrow> bool" where
  "ValidString s \<longleftrightarrow>
     (if s = [] then True
      else (let (r, n) = DecodeRune s in \<not> (r = RuneError \<and> n = 1) \<and> ValidString (drop n s)))"
  by pat_completeness auto
termination
proof (relation "measure length", goal_cases)
  case (2 s p r n)
  then show ?case using DecodeRune_size [of s] by (cases "DecodeRune s") auto
qed simp

declare runes.simps [simp del, code del] ValidString.simps [simp del, code del]

text \<open>The same by pattern, which is how they are evaluated.\<close>

lemma runes_code [code]:
  "runes [] = []"
  "runes (a # s) = (case DecodeRune (a # s) of (r, n) \<Rightarrow> r # runes (drop n (a # s)))"
  by (simp_all add: runes.simps [of "[]"] runes.simps [of "a # s"])

lemma ValidString_code [code]:
  "ValidString [] = True"
  "ValidString (a # s) =
     (case DecodeRune (a # s) of (r, n) \<Rightarrow> \<not> (r = RuneError \<and> n = 1) \<and> ValidString (drop n (a # s)))"
  by (simp_all add: ValidString.simps [of "[]"] ValidString.simps [of "a # s"])

lemma runes_Nil [simp]: "runes [] = []"
  by (simp add: runes.simps)

lemma runes_ascii [simp]: "byte a < 128 \<Longrightarrow> runes (a # s) = byte a # runes s"
  by (simp add: runes.simps [of "a # s"])

lemma runes_all_ascii: "\<forall>c\<in>set s. byte c < 128 \<Longrightarrow> runes s = map byte s"
  by (induction s) auto

lemma ValidString_Nil [simp]: "ValidString []"
  by (simp add: ValidString.simps)

lemma ValidString_ascii_Cons [simp]: "byte a < 128 \<Longrightarrow> ValidString (a # s) = ValidString s"
  by (auto simp: ValidString.simps [of "a # s"] RuneError_def)

lemma ValidString_ascii: "\<forall>c\<in>set s. byte c < 128 \<Longrightarrow> ValidString s"
  by (induction s) auto

section \<open>Percent-encoding\<close>

definition ishex :: "char \<Rightarrow> bool" where
  "ishex c \<longleftrightarrow>
     between CHR ''0'' c CHR ''9'' \<or> between CHR ''a'' c CHR ''f'' \<or> between CHR ''A'' c CHR ''F''"

definition unhex :: "char \<Rightarrow> int" where
  "unhex c =
     (if between CHR ''0'' c CHR ''9'' then byte c - 48
      else if between CHR ''a'' c CHR ''f'' then byte c - 97 + 10
      else if between CHR ''A'' c CHR ''F'' then byte c - 65 + 10
      else 0)"

text \<open>\<open>url.PathUnescape\<close>: a percent sign and two hex digits are a byte, a percent sign
  with anything else after it is an error, and every other byte is itself.\<close>

fun PathUnescape :: "string \<Rightarrow> string option" where
  "PathUnescape [] = Some []"
| "PathUnescape (c # cs) =
     (if c = CHR 0x25
      then (case cs of
          a # b # rest \<Rightarrow>
            if ishex a \<and> ishex b
            then map_option ((#) (char_of (16 * unhex a + unhex b))) (PathUnescape rest)
            else None
        | _ \<Rightarrow> None)
      else map_option ((#) c) (PathUnescape cs))"

definition QueryUnescape :: "string \<Rightarrow> string option" where
  "QueryUnescape s = PathUnescape (map (\<lambda>c. if c = CHR ''+'' then CHR '' '' else c) s)"

lemma PathUnescape_length: "PathUnescape s = Some t \<Longrightarrow> length t \<le> length s"
  by (induction s arbitrary: t rule: PathUnescape.induct) (fastforce split: if_splits list.splits)+

lemma PathUnescape_plain: "CHR 0x25 \<notin> set s \<Longrightarrow> PathUnescape s = Some s"
  by (induction s) auto

lemma PathUnescape_shrinks:
  "PathUnescape s = Some t \<Longrightarrow> CHR 0x25 \<in> set s \<Longrightarrow> length t < length s"
proof (induction s arbitrary: t rule: PathUnescape.induct)
  case (2 c cs)
  show ?case
  proof (cases "c = CHR 0x25")
    case True
    with 2(3) obtain a b rest u where "cs = a # b # rest" "PathUnescape rest = Some u" "length t = Suc (length u)"
      by (auto split: list.splits if_splits)
    with PathUnescape_length [of rest u] show ?thesis by simp
  next
    case False
    with 2 show ?thesis by auto
  qed
qed simp

lemma PathUnescape_fix_iff: "PathUnescape s = Some s \<longleftrightarrow> CHR 0x25 \<notin> set s"
  using PathUnescape_plain PathUnescape_shrinks by fastforce

text \<open>Decoding \<open>n\<close> times over, as a chain of servers might.\<close>

fun unescapes :: "nat \<Rightarrow> string \<Rightarrow> string option" where
  "unescapes 0 s = Some s"
| "unescapes (Suc n) s = (case PathUnescape s of None \<Rightarrow> None | Some t \<Rightarrow> unescapes n t)"

lemma unescapes_fix: "PathUnescape s = Some s \<Longrightarrow> unescapes n s = Some s"
  by (induction n) auto

section \<open>Queries\<close>

text \<open>\<open>url.ParseQuery\<close>: whether any pair was in error, and the pairs that were not, in
  order. A pair with a semicolon is an error, and an empty one is skipped.\<close>

fun query_pairs :: "string list \<Rightarrow> bool \<times> (string \<times> string) list" where
  "query_pairs [] = (False, [])"
| "query_pairs (kv # rest) =
     (let (err, ps) = query_pairs rest in
      if CHR '';'' \<in> set kv then (True, ps)
      else if kv = [] then (err, ps)
      else
        let (k, v) = Cut CHR ''='' kv in
        case QueryUnescape k of
          None \<Rightarrow> (True, ps)
        | Some k \<Rightarrow>
            (case QueryUnescape (case v of None \<Rightarrow> [] | Some v \<Rightarrow> v) of
               None \<Rightarrow> (True, ps)
             | Some v \<Rightarrow> (err, (k, v) # ps)))"

definition ParseQuery :: "string \<Rightarrow> bool \<times> (string \<times> string) list" where
  "ParseQuery q = query_pairs (Split CHR ''&'' q)"

definition query_values :: "(string \<times> string) list \<Rightarrow> string \<Rightarrow> string list" where
  "query_values ps k = map snd (filter (\<lambda>p. fst p = k) ps)"

section \<open>Numbers\<close>

text \<open>\<open>%d\<close> of a number.\<close>

fun nat_digits :: "nat \<Rightarrow> string" where
  "nat_digits n = (if n < 10 then [char_of (48 + n)] else nat_digits (n div 10) @ [char_of (48 + n mod 10)])"

declare nat_digits.simps [simp del]

definition Sprint :: "int \<Rightarrow> string" where
  "Sprint i = (if i < 0 then CHR ''-'' # nat_digits (nat (- i)) else nat_digits (nat i))"

end
