(* ===== verification/Scope_Path.thy ===== *)
theory Scope_Path
  imports Go_Text
begin

text \<open>
  How a scope reads a request's path, \<open>internal/intercept/scope.go\<close>: the split into
  segments decoded once, which refuses any path an upstream could read as another one, and
  the lenient reading a stricter rule is matched against.
\<close>

section \<open>Definitions\<close>

definition maxDecodes :: nat where
  "maxDecodes = 4"

definition slash :: "char \<Rightarrow> bool" where
  "slash c \<longleftrightarrow> c = CHR ''/'' \<or> c = CHR 0x5C"

text \<open>\<open>'.'\<close>, U+FF0E, U+2024 and U+FE52.\<close>

definition dot_runes :: "int list" where
  "dot_runes = [46, 65294, 8228, 65106]"

fun dots_loop :: "nat \<Rightarrow> int list \<Rightarrow> bool" where
  "dots_loop dots [] \<longleftrightarrow> dots > 0"
| "dots_loop dots (r # rs) \<longleftrightarrow>
     (if r \<in> set dot_runes then dots_loop (Suc dots) rs
      else if r = 32 then dots_loop dots rs
      else False)"

definition dotsOnly :: "string \<Rightarrow> bool" where
  "dotsOnly s \<longleftrightarrow> dots_loop 0 (runes s)"

definition hazardousOnce :: "string \<Rightarrow> bool" where
  "hazardousOnce seg \<longleftrightarrow>
     \<not> ValidString seg \<or>
     list_ex (\<lambda>c. byte c < 32 \<or> byte c = 127) seg \<or>
     list_ex (\<lambda>part. dotsOnly (fst (Cut CHR '';'' part))) (FieldsFunc slash [] seg)"

fun hazardous_rounds :: "nat \<Rightarrow> string \<Rightarrow> bool" where
  "hazardous_rounds 0 seg \<longleftrightarrow> True"
| "hazardous_rounds (Suc k) seg \<longleftrightarrow>
     (if hazardousOnce seg then True
      else case PathUnescape seg of
          None \<Rightarrow> False
        | Some next \<Rightarrow> if next = seg then False else hazardous_rounds k next)"

definition hazardous :: "string \<Rightarrow> bool" where
  "hazardous seg = hazardous_rounds maxDecodes seg"

fun split_segments :: "string list \<Rightarrow> string list option" where
  "split_segments [] = Some []"
| "split_segments (r # rs) =
     (if r = [] \<and> rs \<noteq> [] then None
      else case PathUnescape r of
          None \<Rightarrow> None
        | Some seg \<Rightarrow> if hazardous seg then None else map_option ((#) seg) (split_segments rs))"

definition splitPath :: "string \<Rightarrow> string list option" where
  "splitPath escaped =
     (if \<not> prefix ''/'' escaped then None else split_segments (Split CHR ''/'' (tl escaped)))"

fun decode_rounds :: "nat \<Rightarrow> string \<Rightarrow> string" where
  "decode_rounds 0 seg = seg"
| "decode_rounds (Suc k) seg =
     (case PathUnescape seg of
        None \<Rightarrow> seg
      | Some next \<Rightarrow> if next = seg then seg else decode_rounds k next)"

definition decode :: "string \<Rightarrow> string" where
  "decode seg = decode_rounds maxDecodes seg"

definition foldDecoded :: "unicode \<Rightarrow> string \<Rightarrow> string" where
  "foldDecoded U seg = ToLower U (TrimRight (fst (Cut CHR '';'' seg)) ''. '')"

definition fold_seg :: "unicode \<Rightarrow> string \<Rightarrow> string" where
  "fold_seg U seg = foldDecoded U (decode seg)"

definition lenient :: "unicode \<Rightarrow> string list \<Rightarrow> string list \<times> string list" where
  "lenient U ss =
     (let whole = map (fold_seg U) ss;
          split = concat (map (\<lambda>s. map (foldDecoded U) (FieldsFunc slash [] (decode s))) ss)
      in (if whole \<noteq> [] \<and> last whole = [] then butlast whole else whole, split))"

fun one_rounds :: "nat \<Rightarrow> string \<Rightarrow> bool" where
  "one_rounds 0 seg \<longleftrightarrow> False"
| "one_rounds (Suc k) seg \<longleftrightarrow>
     (if list_ex slash seg then False
      else case PathUnescape seg of
          None \<Rightarrow> True
        | Some next \<Rightarrow> if next = seg then True else one_rounds k next)"

definition oneSegment :: "string \<Rightarrow> bool" where
  "oneSegment seg \<longleftrightarrow> seg \<noteq> [] \<and> one_rounds maxDecodes seg"

definition asciiEqualFold :: "string \<Rightarrow> string \<Rightarrow> bool" where
  "asciiEqualFold a b \<longleftrightarrow>
     length a = length b \<and>
     list_all (\<lambda>(x, y). byte x < 128 \<and> byte y < 128 \<and> ascii_lower x = ascii_lower y) (zip a b)"

definition cutSuffixFold :: "string \<Rightarrow> string \<Rightarrow> string \<times> bool" where
  "cutSuffixFold s x =
     (if length x \<le> length s \<and> asciiEqualFold (drop (length s - length x) s) x
      then (take (length s - length x) s, True) else (s, False))"

section \<open>What a split path is\<close>

lemma split_segments_Some:
  "split_segments rs = Some segs \<Longrightarrow>
   length segs = length rs \<and>
   (\<forall>i<length rs. PathUnescape (rs ! i) = Some (segs ! i) \<and> \<not> hazardous (segs ! i) \<and>
      (rs ! i = [] \<longrightarrow> i = length rs - 1))"
proof (induction rs arbitrary: segs)
  case (Cons r rs)
  then obtain seg rest where s: "PathUnescape r = Some seg" "\<not> hazardous seg"
      "split_segments rs = Some rest" "segs = seg # rest" "r = [] \<longrightarrow> rs = []"
    by (auto split: if_splits option.splits)
  show ?case
  proof (intro conjI allI impI)
    show "length segs = length (r # rs)" using s Cons.IH by simp
  next
    fix i assume "i < length (r # rs)"
    then show "PathUnescape ((r # rs) ! i) = Some (segs ! i)" "\<not> hazardous (segs ! i)"
      using s Cons.IH by (cases i; auto)+
  next
    fix i assume "i < length (r # rs)" "(r # rs) ! i = []"
    then show "i = length (r # rs) - 1"
      using s Cons.IH by (cases i) auto
  qed
qed simp

lemma splitPath_Some:
  assumes "splitPath p = Some segs"
  shows "\<exists>raw. p = CHR ''/'' # Join CHR ''/'' raw \<and> raw = Split CHR ''/'' (tl p) \<and>
    split_segments raw = Some segs \<and> length segs = length raw"
  using assms split_segments_Some
  by (auto simp: splitPath_def prefix_def split: if_splits)

lemma splitPath_nonempty: "splitPath p = Some segs \<Longrightarrow> segs \<noteq> []"
  using splitPath_Some by fastforce

text \<open>A segment that is not hazardous stops decoding within the rounds, at a spelling that
  decodes to itself or not at all, and none of its decodings is hazardous.\<close>

lemma hazardous_rounds_sound:
  "\<not> hazardous_rounds k seg \<Longrightarrow> unescapes n seg = Some t \<Longrightarrow> \<not> hazardousOnce t"
proof (induction k arbitrary: seg n)
  case (Suc k)
  show ?case
  proof (cases n)
    case 0
    with Suc.prems show ?thesis by (auto split: if_splits)
  next
    case (Suc m)
    with Suc.prems(2) obtain u where u: "PathUnescape seg = Some u" "unescapes m u = Some t"
      by (auto split: option.splits)
    show ?thesis
    proof (cases "u = seg")
      case True
      with u Suc.prems(2) have "t = seg" using unescapes_fix [of seg n] by simp
      with Suc.prems(1) show ?thesis by (auto split: if_splits)
    next
      case False
      with Suc.prems(1) u have "\<not> hazardous_rounds k u" by (auto split: if_splits)
      with u(2) show ?thesis by (rule Suc.IH [rotated])
    qed
  qed
qed simp

lemma hazardous_rounds_decode:
  "\<not> hazardous_rounds k seg \<Longrightarrow>
   PathUnescape (decode_rounds k seg) = None \<or> PathUnescape (decode_rounds k seg) = Some (decode_rounds k seg)"
  by (induction k arbitrary: seg) (auto split: option.splits if_splits)

lemma decode_rounds_unescapes: "\<exists>n. unescapes n seg = Some (decode_rounds k seg)"
proof (induction k arbitrary: seg)
  case 0
  have "unescapes 0 seg = Some (decode_rounds 0 seg)" by simp
  then show ?case by blast
next
  case (Suc k)
  show ?case
  proof (cases "PathUnescape seg")
    case None
    then have "unescapes 0 seg = Some (decode_rounds (Suc k) seg)" by simp
    then show ?thesis by blast
  next
    case (Some u)
    show ?thesis
    proof (cases "u = seg")
      case True
      with Some have "unescapes 0 seg = Some (decode_rounds (Suc k) seg)" by simp
      then show ?thesis by blast
    next
      case False
      from Suc obtain n where "unescapes n u = Some (decode_rounds k u)" by blast
      with Some False have "unescapes (Suc n) seg = Some (decode_rounds (Suc k) seg)" by simp
      then show ?thesis by blast
    qed
  qed
qed

text \<open>So the spelling the lenient reading starts from is the same whichever decoding of the
  segment it is given.\<close>

lemma decode_rounds_more:
  "\<not> hazardous_rounds k seg \<Longrightarrow> k \<le> j \<Longrightarrow> decode_rounds j seg = decode_rounds k seg"
proof (induction k arbitrary: seg j)
  case (Suc k)
  then obtain i where i: "j = Suc i" "k \<le> i" by (cases j) auto
  show ?case
  proof (cases "PathUnescape seg")
    case (Some u)
    show ?thesis
    proof (cases "u = seg")
      case False
      with Some Suc.prems(1) have "\<not> hazardous_rounds k u" by (auto split: if_splits)
      from Suc.IH [OF this i(2)] show ?thesis using Some False i(1) by simp
    qed (use Some i in simp)
  qed (use i in simp)
qed simp

lemma decode_unescapes:
  "\<not> hazardous_rounds k seg \<Longrightarrow> k \<le> j \<Longrightarrow> unescapes n seg = Some t \<Longrightarrow>
   decode_rounds j t = decode_rounds j seg"
proof (induction k arbitrary: seg n)
  case (Suc k)
  show ?case
  proof (cases n)
    case (Suc m)
    with Suc.prems obtain u where u: "PathUnescape seg = Some u" "unescapes m u = Some t"
      by (auto split: option.splits)
    show ?thesis
    proof (cases "u = seg")
      case True
      with u Suc.prems(3) have "t = seg" using unescapes_fix [of seg n] by simp
      then show ?thesis by simp
    next
      case False
      with Suc.prems(1) u have h: "\<not> hazardous_rounds k u" by (auto split: if_splits)
      from Suc.prems(2) obtain i where i: "j = Suc i" "k \<le> i" by (cases j) auto
      have "decode_rounds j t = decode_rounds j u"
        using h i u(2) by (intro Suc.IH) auto
      also have "\<dots> = decode_rounds i u"
        using decode_rounds_more [OF h, of j] decode_rounds_more [OF h, of i] i by simp
      also have "\<dots> = decode_rounds j seg"
        using u(1) False i by simp
      finally show ?thesis .
    qed
  qed (use Suc.prems in simp)
qed simp

lemma dots_loop_iff:
  "dots_loop k rs \<longleftrightarrow>
   (\<forall>r\<in>set rs. r \<in> set dot_runes \<or> r = 32) \<and> (k > 0 \<or> (\<exists>r\<in>set rs. r \<in> set dot_runes))"
  by (induction rs arbitrary: k) auto

lemma dotsOnly_iff:
  "dotsOnly s \<longleftrightarrow>
   (\<forall>r\<in>set (runes s). r \<in> set dot_runes \<or> r = 32) \<and> (\<exists>r\<in>set (runes s). r \<in> set dot_runes)"
  by (simp add: dotsOnly_def dots_loop_iff)

lemma dotsOnly_dots: "n > 0 \<Longrightarrow> dotsOnly (replicate n CHR ''.'')"
  by (simp add: dotsOnly_iff runes_all_ascii dot_runes_def)

text \<open>A path component that climbs is hazardous wherever it sits in a segment.\<close>

lemma FieldsFunc_Split_mem:
  assumes "part \<noteq> []" and "\<forall>c\<in>set part. \<not> f c" and "pre = [] \<or> f (last pre)"
    and "post = [] \<or> f (hd post)"
  shows "part \<in> set (FieldsFunc f [] (pre @ part @ post))"
proof -
  have tail: "FieldsFunc f acc (part @ post) = (rev acc @ part) # FieldsFunc f [] post" for acc
    using assms(1,2)
  proof (induction part arbitrary: acc)
    case (Cons c part)
    show ?case
    proof (cases "part = []")
      case True
      with Cons.prems assms(4) show ?thesis by (cases post) auto
    next
      case False
      with Cons show ?thesis by simp
    qed
  qed simp
  have "part \<in> set (FieldsFunc f acc (pre @ part @ post))" if "pre \<noteq> [] \<or> acc = []" for acc
    using assms(3) that
  proof (induction pre arbitrary: acc)
    case Nil
    then show ?case by (simp add: tail)
  next
    case (Cons c pre)
    show ?case
    proof (cases "pre = []")
      case True
      with Cons.prems(1) show ?thesis by (simp add: tail)
    next
      case False
      with Cons show ?thesis by simp
    qed
  qed
  then show ?thesis by simp
qed

section \<open>Properties\<close>

text \<open>
  C11: no reading of an accepted path climbs. However often a server decodes a segment of a
  path \<open>splitPath\<close> accepts, the result is valid UTF-8 with no control byte, and none of
  the pieces a server splitting at slashes or backslashes would find in it, cut at a
  semicolon, is a run of dots (or of what Unicode folds into dots) and spaces.
\<close>

theorem splitPath_safe:
  assumes "splitPath p = Some segs" and "seg \<in> set segs" and "unescapes n seg = Some t"
  shows "ValidString t \<and> (\<forall>c\<in>set t. 32 \<le> byte c \<and> byte c \<noteq> 127) \<and>
    (\<forall>pre part post. t = pre @ part @ post \<and> part \<noteq> [] \<and> (\<forall>c\<in>set part. \<not> slash c) \<and>
        (pre = [] \<or> slash (last pre)) \<and> (post = [] \<or> slash (hd post)) \<longrightarrow>
      \<not> dotsOnly (fst (Cut CHR '';'' part)))"
proof -
  from assms(1) obtain raw where "split_segments raw = Some segs"
    using splitPath_Some by blast
  with assms(2) have "\<not> hazardous seg"
    using split_segments_Some by (metis in_set_conv_nth)
  then have "\<not> hazardousOnce t"
    using assms(3) hazardous_rounds_sound by (auto simp: hazardous_def)
  then show ?thesis
    using FieldsFunc_Split_mem [of _ slash]
    by (auto simp: hazardousOnce_def list_ex_iff not_less)
qed

theorem splitPath_safe_witness:
  "splitPath ''/repos/feature%2Fx'' = Some [''repos'', ''feature/x''] \<and>
   ValidString ''feature/x'' \<and> splitPath ''/a/%252e%252e/b'' = None"
proof -
  have p: "splitPath ''/repos/feature%2Fx'' = Some [''repos'', ''feature/x'']"
    by code_simp
  have "unescapes 3 ''feature/x'' = Some ''feature/x''" by code_simp
  with splitPath_safe [OF p, of "''feature/x''" 3 "''feature/x''"] have "ValidString ''feature/x''"
    by simp
  moreover have "splitPath ''/a/%252e%252e/b'' = None" by code_simp
  ultimately show ?thesis using p by blast
qed

text \<open>
  C30: the lenient reading of an accepted segment does not depend on how often it has been
  decoded already: every decoding of it folds to the same spelling.
\<close>

theorem fold_stable:
  assumes "splitPath p = Some segs" and "seg \<in> set segs" and "unescapes n seg = Some t"
  shows "fold_seg U t = fold_seg U seg"
proof -
  from assms(1) obtain raw where "split_segments raw = Some segs"
    using splitPath_Some by blast
  with assms(2) have "\<not> hazardous_rounds maxDecodes seg"
    using split_segments_Some hazardous_def by (metis in_set_conv_nth)
  from decode_unescapes [OF this order_refl assms(3)] show ?thesis
    by (simp add: fold_seg_def decode_def)
qed

theorem fold_stable_witness:
  "splitPath ''/v1/x%253AAccess;q'' = Some [''v1'', ''x%3AAccess;q''] \<and>
   fold_seg ascii_unicode ''x:Access;q'' = fold_seg ascii_unicode ''x%3AAccess;q'' \<and>
   fold_seg ascii_unicode ''x%3AAccess;q'' = ''x:access''"
proof -
  have p: "splitPath ''/v1/x%253AAccess;q'' = Some [''v1'', ''x%3AAccess;q'']" by code_simp
  have u: "unescapes 1 ''x%3AAccess;q'' = Some ''x:Access;q''" by code_simp
  have "fold_seg ascii_unicode ''x%3AAccess;q'' = ''x:access''" by code_simp
  with p fold_stable [OF p _ u] show ?thesis by simp
qed

end
