(* ===== verification/Scope_Rules.thy ===== *)
theory Scope_Rules
  imports Scope_Path
begin

text \<open>
  A scope's rules, \<open>internal/intercept/scope.go\<close>: the configuration's path rules and what
  \<open>compilePath\<close> makes of them, whether a rule matches a request's segments as they were
  sent or as the most lenient upstream might read them, and which of two rules is the more
  specific.

  \<open>Operation\<close> is quoin's record, with the fields this code reads and, as \<open>op_ref\<close>, where it
  is: the code compares operations by their address. An outcome that is none
  of the three constants cannot be written here, so the checks of \<open>validOutcome\<close> always
  pass.
\<close>

section \<open>Data\<close>

datatype outcome = Refuse | Admit | Ask

definition strictness :: "outcome \<Rightarrow> int" where
  "strictness o' = (case o' of Admit \<Rightarrow> 0 | Ask \<Rightarrow> 1 | Refuse \<Rightarrow> 2)"

record operation =
  op_ref :: nat
  op_ID :: string
  op_Summary :: string
  op_Class :: string
  op_Category :: string

text \<open>What an admitting rule on a Docker route checks; its own decision is the Docker
  part's. A rule with no queries is one that takes none.\<close>

record query_check =
  qc_Check :: string
  qc_Filters :: "string list"
  qc_Enum :: "string list"

record docker_check =
  Owned :: string
  Param :: int
  Query :: "(string \<times> query_check) list"
  Body :: string
  Upgrade :: string

record docker_rule =
  dr_check :: docker_check
  dr_operation :: "operation option"

record path_rule =
  Methods :: "string list"
  Prefix :: string
  Path :: string
  EncodedSlashes :: bool
  AskFlag :: bool
  RefuseFlag :: bool
  Operation :: "operation option"
  Docker :: "docker_check option"

record compiled_path =
  methods :: "string list"
  segs :: "string list"
  folded :: "string list"
  exact :: bool
  encodedSlashes :: bool
  outcome :: outcome
  operation :: "operation option"
  docker :: "docker_rule option"
  named :: bool

section \<open>Compiling a rule\<close>

definition wildcard :: string where
  "wildcard = ''*''"

definition verb :: "string \<Rightarrow> string option" where
  "verb t = CutPrefix t ''*:''"

definition validVerb :: "string \<Rightarrow> bool" where
  "validVerb v \<longleftrightarrow>
     list_all (\<lambda>c. between CHR ''a'' c CHR ''z'' \<or> between CHR ''A'' c CHR ''Z'' \<or>
       between CHR ''0'' c CHR ''9'' \<or> c = CHR ''-'' \<or> c = CHR ''_'') v \<and> v \<noteq> []"

definition upper :: "unicode \<Rightarrow> string list \<Rightarrow> string list" where
  "upper U ms = map (ToUpper U) ms"

datatype path_error =
  BothPathAndPrefix
| NoMethods
| NoLeadingSlash
| BadPath
| EncodedColon
| TrailingSlash
| EmptySegment
| BadWildcard
| NoWildcard
| AskAndRefuse
| BadOperation

definition contains_sub :: "string \<Rightarrow> string \<Rightarrow> bool" where
  "contains_sub s t \<longleftrightarrow> list_ex (\<lambda>u. prefix t u) (suffixes s)"

text \<open>Whether a template segment holds a \<open>*\<close> as it may: a whole segment or \<open>*:verb\<close>.\<close>

definition template_segment :: "string \<Rightarrow> bool option" where
  "template_segment seg =
     (if seg = wildcard \<or> (case verb seg of None \<Rightarrow> False | Some v \<Rightarrow> validVerb v) then Some True
      else if CHR ''*'' \<in> set seg then None
      else Some False)"

definition compilePath :: "unicode \<Rightarrow> path_rule \<Rightarrow> path_error + compiled_path" where
  "compilePath U p =
     (if Path p \<noteq> [] \<and> Prefix p \<noteq> [] then Inl BothPathAndPrefix
      else
        let ex = (Path p \<noteq> []);
            written = (if ex then Path p else Prefix p) in
        if Methods p = [] then Inl NoMethods
        else if \<not> prefix ''/'' written then Inl NoLeadingSlash
        else case splitPath written of
          None \<Rightarrow> Inl BadPath
        | Some ss0 \<Rightarrow>
            if contains_sub (ToUpper U written) (CHR 0x25 # ''3A'') then Inl EncodedColon
            else if ss0 \<noteq> [] \<and> last ss0 = [] \<and> ex \<and> length ss0 > 1 then Inl TrailingSlash
            else
              let ss = (if ss0 \<noteq> [] \<and> last ss0 = [] \<and> \<not> ex then butlast ss0 else ss0) in
              if [] \<in> set (butlast ss) \<or> \<not> ex \<and> [] \<in> set ss then Inl EmptySegment
              else if list_ex (\<lambda>seg. template_segment seg = None) ss then Inl BadWildcard
              else if EncodedSlashes p \<and> \<not> list_ex (\<lambda>seg. template_segment seg = Some True) ss
                then Inl NoWildcard
              else if AskFlag p \<and> RefuseFlag p then Inl AskAndRefuse
              else if (case Operation p of None \<Rightarrow> False | Some o' \<Rightarrow> op_ID o' = [] \<or> op_Summary o' = [])
                then Inl BadOperation
              else
                let oc = (if AskFlag p then Ask else if RefuseFlag p then Refuse else Admit) in
                Inr \<lparr>methods = upper U (Methods p), segs = ss,
                  folded = map (\<lambda>seg. if seg \<noteq> wildcard then fold_seg U seg else seg) ss,
                  exact = ex, encodedSlashes = EncodedSlashes p, outcome = oc, operation = Operation p,
                  docker = (case Docker p of None \<Rightarrow> None
                    | Some d \<Rightarrow> if oc = Admit then Some \<lparr>dr_check = d, dr_operation = Operation p\<rparr> else None),
                  named = False\<rparr>)"

section \<open>Matching\<close>

text \<open>Whether a \<open>*\<close> takes a segment.\<close>

definition one :: "compiled_path \<Rightarrow> string \<Rightarrow> bool" where
  "one p seg =
     (if encodedSlashes p then list_ex (\<lambda>c. \<not> slash c) (decode seg) else oneSegment seg)"

definition matches_segment :: "compiled_path \<Rightarrow> string \<Rightarrow> string \<Rightarrow> string \<Rightarrow> bool" where
  "matches_segment p t seg raw =
     (if t = wildcard then one p seg
      else case verb t of
          Some v \<Rightarrow>
            (case CutSuffix seg (CHR '':'' # v) of
               None \<Rightarrow> False
             | Some name \<Rightarrow> suffix (CHR '':'' # v) raw \<and> one p name)
        | None \<Rightarrow> seg = t \<and> count_list raw CHR '':'' = count_list t CHR '':'')"

definition matches :: "compiled_path \<Rightarrow> string list \<Rightarrow> string list \<Rightarrow> bool" where
  "matches p ss raw \<longleftrightarrow>
     \<not> (length ss < length (segs p) \<or> exact p \<and> length ss \<noteq> length (segs p)) \<and>
     list_all (\<lambda>(t, s, r). matches_segment p t s r) (zip (segs p) (zip ss raw))"

definition matchesFolded_segment :: "string \<Rightarrow> string \<Rightarrow> bool" where
  "matchesFolded_segment t seg =
     (if t = wildcard then seg \<noteq> []
      else case verb t of Some v \<Rightarrow> suffix (CHR '':'' # v) seg | None \<Rightarrow> seg = t)"

definition matchesFolded :: "compiled_path \<Rightarrow> string list \<Rightarrow> bool" where
  "matchesFolded p ss \<longleftrightarrow>
     \<not> (length ss < length (folded p) \<or> exact p \<and> length ss \<noteq> length (folded p)) \<and>
     list_all (\<lambda>(t, s). matchesFolded_segment t s) (zip (folded p) ss)"

section \<open>Specificity\<close>

definition rank :: "compiled_path \<Rightarrow> nat \<Rightarrow> int" where
  "rank p i =
     (if i \<ge> length (segs p) then 0
      else if segs p ! i = wildcard then 1
      else if verb (segs p ! i) \<noteq> None then 2
      else 3)"

fun first_diff :: "int list \<Rightarrow> int list \<Rightarrow> int" where
  "first_diff (x # xs) (y # ys) = (if x - y \<noteq> 0 then x - y else first_diff xs ys)"
| "first_diff _ _ = 0"

text \<open>The loop over \<open>rank(i)\<close> for \<open>i\<close> below \<open>n\<close>.\<close>

definition specificity :: "compiled_path \<Rightarrow> compiled_path \<Rightarrow> nat \<Rightarrow> int" where
  "specificity p q n = first_diff (map (rank p) [0..<n]) (map (rank q) [0..<n])"

definition outranks :: "compiled_path \<Rightarrow> compiled_path \<Rightarrow> nat \<Rightarrow> bool" where
  "outranks rule stricter n =
     (if exact rule \<noteq> exact stricter then exact rule else specificity rule stricter n > 0)"

section \<open>The order of rules\<close>

lemma strictness_simps [simp, outcome_simps]:
  "strictness Admit = 0" "strictness Ask = 1" "strictness Refuse = 2"
  by (simp_all add: strictness_def)

lemma strictness_inj [simp, outcome_simps]: "strictness a = strictness b \<longleftrightarrow> a = b"
  by (cases a; cases b) simp_all

lemma strictness_bounds [outcome_simps]: "0 \<le> strictness o'" "strictness o' \<le> 2"
  by (cases o'; simp)+

lemma first_diff_flip: "first_diff ys xs = - first_diff xs ys"
  by (induction xs ys rule: first_diff.induct) auto

lemma first_diff_chain:
  "length xs = length ys \<Longrightarrow> length ys = length zs \<Longrightarrow>
   first_diff xs ys \<le> 0 \<Longrightarrow> first_diff ys zs \<le> 0 \<Longrightarrow> first_diff xs zs \<le> 0"
  by (induction xs ys zs rule: list_induct3) (auto split: if_splits)

lemma specificity_flip: "specificity q p n = - specificity p q n"
  unfolding specificity_def by (rule first_diff_flip)

lemma specificity_chain:
  "specificity p q n \<le> 0 \<Longrightarrow> specificity q r n \<le> 0 \<Longrightarrow> specificity p r n \<le> 0"
  unfolding specificity_def by (rule first_diff_chain) auto

lemma specificity_comparison: "comparison (\<lambda>p q. - specificity p q n)"
proof
  fix a b c :: compiled_path
  have "specificity b a n = - specificity a b n" by (rule specificity_flip)
  then show "- specificity b a n \<le> 0 \<longleftrightarrow> \<not> - specificity a b n < 0" by auto
  assume "- specificity a b n \<le> 0" "- specificity b c n \<le> 0"
  then have "specificity c a n \<le> 0"
    using specificity_chain [of c b n a] specificity_flip [of a b n] specificity_flip [of b c n] by linarith
  then show "- specificity a c n \<le> 0" using specificity_flip [of a c n] by linarith
qed

text \<open>The comparison of two rules of a kind, of a kind or not, and of two rules that are
  stricter than what decided: by what comes first in each of the code's orders.\<close>

definition by_specificity :: "nat \<Rightarrow> compiled_path \<Rightarrow> compiled_path \<Rightarrow> int" where
  "by_specificity n p q =
     (if - specificity p q n \<noteq> 0 then - specificity p q n
      else strictness (outcome q) - strictness (outcome p))"

definition kind :: "compiled_path \<Rightarrow> int" where
  "kind p = (if exact p then 1 else 0)"

definition by_outcome :: "(('a \<Rightarrow> compiled_path) \<times> ('a \<Rightarrow> outcome)) \<Rightarrow> nat \<Rightarrow> 'a \<Rightarrow> 'a \<Rightarrow> int" where
  "by_outcome g n a b =
     (if strictness (snd g b) - strictness (snd g a) \<noteq> 0 then strictness (snd g b) - strictness (snd g a)
      else if kind (fst g b) - kind (fst g a) \<noteq> 0 then kind (fst g b) - kind (fst g a)
      else - specificity (fst g a) (fst g b) n)"

interpretation spec: comparison "\<lambda>p q. - specificity p q n" for n
  by (rule specificity_comparison)

interpretation rules: comparison "by_specificity n" for n
  using comparison_lex [OF specificity_comparison comparison_key [of "\<lambda>p. strictness (outcome p)"]]
  by (simp add: by_specificity_def [abs_def])

interpretation strict: comparison "by_outcome g n" for g :: "('a \<Rightarrow> compiled_path) \<times> ('a \<Rightarrow> outcome)" and n
proof -
  have s: "comparison (\<lambda>a b. - specificity (fst g a) (fst g b) n)"
  proof
    fix a b c :: 'a
    show "- specificity (fst g b) (fst g a) n \<le> 0 \<longleftrightarrow> \<not> - specificity (fst g a) (fst g b) n < 0"
      by (rule spec.flip)
    assume "- specificity (fst g a) (fst g b) n \<le> 0" "- specificity (fst g b) (fst g c) n \<le> 0"
    then show "- specificity (fst g a) (fst g c) n \<le> 0" by (rule spec.chain)
  qed
  show "comparison (by_outcome g n)"
    using comparison_lex [OF comparison_key [of "\<lambda>a. strictness (snd g a)"]
        comparison_lex [OF comparison_key [of "\<lambda>a. kind (fst g a)"] s]]
    by (simp add: by_outcome_def [abs_def])
qed

section \<open>Matching leniently\<close>

lemma rank_bounds: "0 \<le> rank p i" "rank p i \<le> 3"
  by (simp_all add: rank_def)

lemma matches_length: "matches p ss raw \<Longrightarrow> length (segs p) \<le> length ss"
  by (simp add: matches_def)

lemma matches_nth:
  assumes "matches p ss raw" and "length raw = length ss" and "i < length (segs p)"
  shows "matches_segment p (segs p ! i) (ss ! i) (raw ! i)"
proof -
  from assms have len: "length (segs p) \<le> length ss" by (simp add: matches_length)
  let ?z = "zip (segs p) (zip ss raw)"
  have "?z ! i = (segs p ! i, ss ! i, raw ! i)" and "i < length ?z"
    using assms(2,3) len by simp_all
  with assms(1) show ?thesis
    unfolding matches_def list_all_length by (metis case_prod_conv)
qed

text \<open>Where a template has no \<open>*\<close>, what it matches starts with the template, segment by
  segment, and never in the middle of one.\<close>

definition literal :: "string \<Rightarrow> bool" where
  "literal t \<longleftrightarrow> t \<noteq> wildcard \<and> verb t = None"

lemma matches_literal:
  assumes "matches p ss raw" and "length raw = length ss" and "i < length (segs p)"
    and "literal (segs p ! i)"
  shows "ss ! i = segs p ! i"
  using matches_nth [OF assms(1-3)] assms(4) by (auto simp: matches_segment_def literal_def)

lemma matches_prefix_literal:
  assumes "matches p ss raw" and "length raw = length ss" and "\<forall>t\<in>set (segs p). literal t"
  shows "prefix (segs p) ss \<and> (exact p \<longrightarrow> ss = segs p)"
proof -
  have len: "length (segs p) \<le> length ss" using assms(1) by (rule matches_length)
  have "take (length (segs p)) ss = segs p"
    using len matches_literal [OF assms(1,2)] assms(3) by (intro nth_equalityI) auto
  moreover have "exact p \<Longrightarrow> length ss = length (segs p)" using assms(1) by (auto simp: matches_def)
  ultimately show ?thesis by (metis take_is_prefix take_all order_refl)
qed

end
