(* ===== verification/Scope_Model.thy ===== *)
theory Scope_Model
  imports Scope_Rules
begin

text \<open>
  What a scope is made of and what it answers, \<open>internal/intercept/scope.go\<close> and
  \<open>graphql.go\<close>: the scope a configuration describes, the scope \<open>compileScope\<close> prepares, and
  the verdict on one request.

  Of a verdict, the fields \<open>jsonBody\<close>, \<open>upgrade\<close>, \<open>status\<close>, \<open>answer\<close> and \<open>release\<close> are set by
  the Docker route's own decision alone, which is after the one modelled here.
\<close>

section \<open>Scopes\<close>

record graphql_rule =
  gr_outcome :: outcome
  gr_operation :: "operation option"

record graphql_scope =
  gs_Path :: string
  gs_Query :: "graphql_rule option"
  gs_Mutations :: "(string \<times> graphql_rule) list"
  gs_Subscriptions :: "(string \<times> graphql_rule) list"
  gs_Unmatched :: outcome

record compiled_graphql =
  cg_path :: compiled_path
  cg_query :: "graphql_rule option"
  cg_mutations :: "(string \<times> graphql_rule) list"
  cg_subscriptions :: "(string \<times> graphql_rule) list"
  cg_unmatched :: outcome

record repo =
  Owner :: string
  RepoName :: string

record git_scope =
  Repos :: "repo list"
  AnyRepo :: bool
  Push :: outcome

record github_api_scope =
  api_Repos :: "repo list"
  api_Methods :: "string list"

datatype unmatched = UnmatchedRefuse | UnmatchedAsk | UnmatchedAdmit

record endpoint =
  e_rule :: path_rule
  e_Outcome :: outcome
  e_Named :: bool

record scope =
  sc_Paths :: "path_rule list"
  sc_Git :: "git_scope option"
  sc_GraphQL :: "graphql_scope list"
  sc_GitHubAPI :: "github_api_scope option"
  sc_Unmatched :: unmatched
  sc_V2 :: bool
  sc_Operations :: "endpoint list"
  sc_Ceiling :: "(string \<times> outcome) list option"

record compiled =
  paths :: "compiled_path list"
  git :: "git_scope option"
  graphql :: "compiled_graphql list"
  api :: "github_api_scope option"
  cs_unmatched :: unmatched
  v2 :: bool
  cs_ops :: "compiled_path list"
  ceiling :: "(string \<times> outcome) list"

section \<open>Verdicts\<close>

definition ReasonBadPath :: string where "ReasonBadPath = ''path not canonical''"
definition ReasonOutOfScope :: string where "ReasonOutOfScope = ''out of scope''"
definition ReasonPush :: string where "ReasonPush = ''push not allowed''"
definition ReasonRefused :: string where "ReasonRefused = ''refused by rule''"
definition RuleUnmatched :: string where "RuleUnmatched = ''unmatched''"
definition ReasonUnclassified :: string where "ReasonUnclassified = ''GraphQL request not classified''"
definition reasonUndecided :: string where "reasonUndecided = ''docker request unchecked''"
definition ReasonStoppedWaiting :: string where "ReasonStoppedWaiting = ''client stopped waiting''"

text \<open>What still decides, from the request's body.\<close>

datatype deferred = NotDeferred | DeferGraphQL compiled_graphql | DeferDocker docker_rule

record verdict =
  v_outcome :: outcome
  v_reason :: string
  v_operation :: "operation option"
  v_operations :: "operation list"
  v_graphql :: string
  v_docker :: string
  v_structural :: bool
  v_unseen :: bool
  v_deferred :: deferred

text \<open>A verdict of an outcome, a reason and an operation, and nothing else.\<close>

definition Verdict :: "outcome \<Rightarrow> string \<Rightarrow> operation option \<Rightarrow> verdict" where
  "Verdict oc reason o' =
     \<lparr>v_outcome = oc, v_reason = reason, v_operation = o', v_operations = [], v_graphql = [],
      v_docker = [], v_structural = False, v_unseen = False, v_deferred = NotDeferred\<rparr>"

lemma Verdict_simps [simp]:
  "v_outcome (Verdict oc r o') = oc" "v_reason (Verdict oc r o') = r" "v_operation (Verdict oc r o') = o'"
  "v_operations (Verdict oc r o') = []" "v_structural (Verdict oc r o') = False"
  "v_unseen (Verdict oc r o') = False" "v_deferred (Verdict oc r o') = NotDeferred"
  by (simp_all add: Verdict_def)

text \<open>\<open>dockerRule.verdict\<close>: refused until the rule's own checks have run.\<close>

definition docker_verdict :: "docker_rule \<Rightarrow> verdict" where
  "docker_verdict d = (Verdict Refuse reasonUndecided (dr_operation d))\<lparr>v_deferred := DeferDocker d\<rparr>"

text \<open>\<open>compiledPath.verdict\<close>.\<close>

definition path_verdict :: "compiled_path \<Rightarrow> verdict" where
  "path_verdict p =
     (case outcome p of
        Refuse \<Rightarrow> Verdict Refuse ReasonRefused (operation p)
      | Ask \<Rightarrow> Verdict Ask ''path'' (operation p)
      | Admit \<Rightarrow>
          (case docker p of
             Some d \<Rightarrow> docker_verdict d
           | None \<Rightarrow> Verdict Admit ''path'' (operation p)))"

lemma docker_verdict_outcome [simp]: "v_outcome (docker_verdict d) = Refuse"
  by (simp add: docker_verdict_def)

text \<open>A rule's verdict is never more lenient than the rule: a Docker check still pending is a
  refusal.\<close>

lemma path_verdict_strict: "strictness (outcome p) \<le> strictness (v_outcome (path_verdict p))"
  by (auto simp: path_verdict_def split: outcome.split option.split)

lemma path_verdict_outcome:
  "v_outcome (path_verdict p) = (if outcome p = Admit \<and> docker p \<noteq> None then Refuse else outcome p)"
  by (auto simp: path_verdict_def split: outcome.split option.split)

end
