(* ===== verification/Scope_Git.thy ===== *)
theory Scope_Git
  imports Scope_Model
begin

text \<open>
  A git scope, \<open>internal/intercept/scope.go\<close>: the repositories a configuration may name, and
  the decision on a request that has git's shape at one of them.
\<close>

section \<open>Repositories\<close>

datatype repo_error = NotOwnerName | EmptyOrDots | BadCharacter char

definition repo_byte :: "char \<Rightarrow> bool" where
  "repo_byte c \<longleftrightarrow>
     between CHR ''a'' c CHR ''z'' \<or> between CHR ''A'' c CHR ''Z'' \<or>
     between CHR ''0'' c CHR ''9'' \<or> c = CHR ''-'' \<or> c = CHR ''_'' \<or> c = CHR ''.''"

definition validate_part :: "string \<Rightarrow> repo_error option" where
  "validate_part part =
     (if part = [] \<or> TrimLeft (TrimRight part ''.'') ''.'' = [] then Some EmptyOrDots
      else map_option BadCharacter (find (\<lambda>c. \<not> repo_byte c) part))"

definition validate :: "repo \<Rightarrow> repo_error option" where
  "validate r =
     (case validate_part (Owner r) of Some e \<Rightarrow> Some e | None \<Rightarrow> validate_part (RepoName r))"

definition ParseRepo :: "string \<Rightarrow> repo_error + repo" where
  "ParseRepo s =
     (case Cut CHR ''/'' s of
        (_, None) \<Rightarrow> Inl NotOwnerName
      | (owner, Some name) \<Rightarrow>
          let r = \<lparr>Owner = owner, RepoName = name\<rparr> in
          (case validate r of Some e \<Rightarrow> Inl e | None \<Rightarrow> Inr r))"

definition repo_String :: "repo \<Rightarrow> string" where
  "repo_String r = Owner r @ ''/'' @ RepoName r"

definition inRepos :: "repo list \<Rightarrow> string \<Rightarrow> string \<Rightarrow> bool" where
  "inRepos rs owner name \<longleftrightarrow>
     list_ex (\<lambda>r. asciiEqualFold (Owner r) owner \<and> asciiEqualFold (RepoName r) name) rs"

section \<open>The decision\<close>

text \<open>What a push is: \<open>ReceivePack\<close>, at an address no configured operation has.\<close>

definition ReceivePack :: operation where
  "ReceivePack = \<lparr>op_ref = 0, op_ID = ''git-receive-pack'', op_Summary = ''Push to a repository'',
     op_Class = ''write'', op_Category = []\<rparr>"

text \<open>No verdict is the code's \<open>false\<close>: not git-shaped, for the caller's other rules.\<close>

definition git_decide :: "git_scope \<Rightarrow> string \<Rightarrow> string list \<Rightarrow> string \<Rightarrow> verdict option" where
  "git_decide g meth ss rawQuery =
     (if length ss < 3 then None
      else
        let name = fst (cutSuffixFold (ss ! 1) ''.git'') in
        if \<not> AnyRepo g \<and> \<not> inRepos (Repos g) (ss ! 0) name then None
        else
          let admit = Verdict Admit ''git'' None;
              outOfScope = (Verdict Refuse ReasonOutOfScope None)\<lparr>v_structural := True\<rparr>;
              rest = drop 2 ss in
          if meth = ''GET'' \<and> rest = [''info'', ''refs''] then
            (let (err, q) = ParseQuery rawQuery in
             if err then Some outOfScope
             else case query_values q ''service'' of
                 [service] \<Rightarrow>
                   if service = ''git-upload-pack'' then Some admit
                   else if service = ''git-receive-pack'' then
                     (if Push g = Refuse then Some (Verdict Refuse ReasonPush None) else Some admit)
                   else Some outOfScope
               | _ \<Rightarrow> Some outOfScope)
          else if meth = ''POST'' \<and> length rest = 1 \<and> rawQuery \<noteq> [] then Some outOfScope
          else if meth = ''POST'' \<and> rest = [''git-upload-pack''] then Some admit
          else if meth = ''POST'' \<and> rest = [''git-receive-pack''] then
            (case Push g of
               Admit \<Rightarrow> Some admit
             | Ask \<Rightarrow> Some (Verdict Ask ''git'' (Some ReceivePack))
             | Refuse \<Rightarrow> Some (Verdict Refuse ReasonPush None))
          else None)"

section \<open>What a repository's name may be\<close>

lemma TrimBoth_empty: "TrimLeft (TrimRight s cs) cs = [] \<longleftrightarrow> set s \<subseteq> set cs"
proof -
  have "TrimLeft (TrimRight s cs) cs = [] \<longleftrightarrow> set (TrimRight s cs) \<subseteq> set cs"
    by (auto simp: TrimLeft_def)
  also have "\<dots> \<longleftrightarrow> set s \<subseteq> set cs"
    by (metis TrimRight_def TrimRight_last TrimRight_subset dropWhile_eq_Nil_conv last_in_set
        empty_set empty_subsetI order_trans rev_is_Nil_conv set_rev subsetD subsetI)
  finally show ?thesis .
qed

text \<open>A part that was validated is a segment: not empty, not all dots, of the alphabet.\<close>

lemma validate_part_None:
  "validate_part part = None \<longleftrightarrow>
   part \<noteq> [] \<and> (\<exists>c\<in>set part. c \<noteq> CHR ''.'') \<and> (\<forall>c\<in>set part. repo_byte c)"
  by (auto simp: validate_part_def TrimBoth_empty find_None_iff)

lemma no_slash: "\<not> repo_byte CHR ''/''"
  by code_simp

lemma ParseRepo_Inr:
  "ParseRepo s = Inr r \<longleftrightarrow> s = repo_String r \<and> validate r = None"
proof
  assume "ParseRepo s = Inr r"
  then show "s = repo_String r \<and> validate r = None"
    by (auto simp: ParseRepo_def repo_String_def Let_def split: prod.splits option.splits dest!: Cut_SomeD)
next
  assume r: "s = repo_String r \<and> validate r = None"
  then have "validate_part (Owner r) = None" by (auto simp: validate_def split: option.splits)
  then have "CHR ''/'' \<notin> set (Owner r)" using no_slash by (auto simp: validate_part_None)
  then have "Cut CHR ''/'' s = (Owner r, Some (RepoName r))"
    using r Cut_append [of "CHR ''/''" "Owner r" "RepoName r"] by (simp add: repo_String_def)
  with r show "ParseRepo s = Inr r" by (cases r) (simp add: ParseRepo_def)
qed

text \<open>
  A repository is written back as it was parsed. What \<open>ParseRepo\<close> accepts is two parts of
  GitHub's alphabet, neither empty nor all dots, and its own spelling is the one that parses as
  it: no other string does.
\<close>

theorem ParseRepo_roundtrip:
  "ParseRepo s = Inr r \<longleftrightarrow> s = repo_String r \<and>
    list_all (\<lambda>part. list_all repo_byte part \<and> list_ex (\<lambda>c. c \<noteq> CHR ''.'') part) [Owner r, RepoName r]"
proof -
  have "validate r = None \<longleftrightarrow> validate_part (Owner r) = None \<and> validate_part (RepoName r) = None"
    by (simp add: validate_def split: option.splits)
  then show ?thesis
    by (auto simp: ParseRepo_Inr validate_part_None list_all_iff list_ex_iff)
qed

section \<open>What git lets through\<close>

text \<open>
  C15: what a git scope does not refuse is git's, at a repository of the scope. A request a git
  scope claims and does not refuse is for one of its repositories and is the ref advertisement
  of exactly one service, or a fetch or a push with no query; and a push, or its advertisement,
  only where the scope's \<open>Push\<close> is not to refuse it, the push itself with the outcome
  \<open>Push\<close> says.
\<close>

theorem git_decide_admits:
  assumes "git_decide g meth ss q = Some v" and "v_outcome v \<noteq> Refuse"
  shows "(AnyRepo g \<or> inRepos (Repos g) (ss ! 0) (fst (cutSuffixFold (ss ! 1) ''.git''))) \<and>
    (meth = ''GET'' \<and> drop 2 ss = [''info'', ''refs''] \<and>
       (\<exists>ps. ParseQuery q = (False, ps) \<and>
          (query_values ps ''service'' = [''git-upload-pack''] \<or>
           query_values ps ''service'' = [''git-receive-pack''] \<and> Push g \<noteq> Refuse)) \<or>
     meth = ''POST'' \<and> q = [] \<and> drop 2 ss = [''git-upload-pack''] \<or>
     meth = ''POST'' \<and> q = [] \<and> drop 2 ss = [''git-receive-pack''] \<and> v_outcome v = Push g)"
proof -
  note d = assms(1) [unfolded git_decide_def Let_def]
  have repo: "AnyRepo g \<or> inRepos (Repos g) (ss ! 0) (fst (cutSuffixFold (ss ! 1) ''.git''))"
    using d by (auto split: if_splits)
  have one: "drop 2 ss = [x] \<Longrightarrow> length (drop 2 ss) = 1" for x by simp
  have "meth = ''GET'' \<and> drop 2 ss = [''info'', ''refs''] \<and>
       (\<exists>ps. ParseQuery q = (False, ps) \<and>
          (query_values ps ''service'' = [''git-upload-pack''] \<or>
           query_values ps ''service'' = [''git-receive-pack''] \<and> Push g \<noteq> Refuse))"
    if "meth = ''GET''"
    using d that assms(2) by (auto split: if_splits prod.splits list.splits simp del: drop_Suc)
  moreover have "meth = ''POST'' \<and> q = [] \<and> drop 2 ss = [''git-upload-pack''] \<or>
     meth = ''POST'' \<and> q = [] \<and> drop 2 ss = [''git-receive-pack''] \<and> v_outcome v = Push g"
    if "meth \<noteq> ''GET''"
    using d that assms(2) one by (auto split: if_splits outcome.splits simp del: length_drop)
  ultimately show ?thesis using repo by blast
qed

theorem git_decide_admits_witness:
  "inRepos [\<lparr>Owner = ''o'', RepoName = ''r''\<rparr>] ''O'' (fst (cutSuffixFold ''r.git'' ''.git'')) \<and>
   git_decide \<lparr>Repos = [\<lparr>Owner = ''o'', RepoName = ''r''\<rparr>], AnyRepo = False, Push = Ask\<rparr> ''POST''
     [''O'', ''r.git'', ''git-receive-pack''] [] = Some (Verdict Ask ''git'' (Some ReceivePack))"
proof -
  let ?g = "\<lparr>Repos = [\<lparr>Owner = ''o'', RepoName = ''r''\<rparr>], AnyRepo = False, Push = Ask\<rparr>"
  have d: "git_decide ?g ''POST'' [''O'', ''r.git'', ''git-receive-pack''] [] =
      Some (Verdict Ask ''git'' (Some ReceivePack))"
    by code_simp
  from git_decide_admits [OF this] d show ?thesis by simp
qed

end
