(* ===== verification/Scope_V2.thy ===== *)
theory Scope_V2
  imports Scope_Git
begin

text \<open>
  How a version 2 scope's operations and patterns decide a request,
  \<open>internal/intercept/scope_v2.go\<close>, and the choice of the most specific rule that both versions
  make.
\<close>

section \<open>The most specific rule\<close>

text \<open>What the loop of \<open>best\<close> and \<open>bestOf\<close> replaces its best rule for.\<close>

definition beats :: "nat \<Rightarrow> compiled_path \<Rightarrow> compiled_path \<Rightarrow> bool" where
  "beats n p b \<longleftrightarrow>
     specificity p b n > 0 \<or> specificity p b n = 0 \<and> strictness (outcome p) > strictness (outcome b)"

definition best_kind ::
    "compiled_path list \<Rightarrow> string \<Rightarrow> nat \<Rightarrow> (compiled_path \<Rightarrow> bool) \<Rightarrow> bool \<Rightarrow> compiled_path option" where
  "best_kind rules meth n match ex =
     keep_best (\<lambda>p. exact p = ex \<and> meth \<in> set (methods p) \<and> match p) (beats n) None rules"

definition bestOf ::
    "compiled_path list \<Rightarrow> string \<Rightarrow> nat \<Rightarrow> (compiled_path \<Rightarrow> bool) \<Rightarrow> compiled_path option" where
  "bestOf rules meth n match =
     (case best_kind rules meth n match True of
        Some p \<Rightarrow> Some p
      | None \<Rightarrow> best_kind rules meth n match False)"

section \<open>Version 2\<close>

record v2_decision =
  d_matched :: bool
  d_outcome :: outcome
  d_decider :: "compiled_path option"
  d_op :: "compiled_path option"
  d_reason :: string

definition clamp :: "compiled \<Rightarrow> outcome \<Rightarrow> string \<Rightarrow> outcome" where
  "clamp c oc class =
     (case map_of (ceiling c) class of
        Some ceil \<Rightarrow> if strictness ceil > strictness oc then ceil else oc
      | None \<Rightarrow> oc)"

definition class_of :: "compiled_path option \<Rightarrow> string" where
  "class_of p =
     (case p of
        None \<Rightarrow> []
      | Some p \<Rightarrow> (case operation p of None \<Rightarrow> [] | Some o' \<Rightarrow> op_Class o'))"

definition v2Decide :: "compiled \<Rightarrow> string \<Rightarrow> nat \<Rightarrow> (compiled_path \<Rightarrow> bool) \<Rightarrow> v2_decision" where
  "v2Decide c meth n match =
     (let op = bestOf (cs_ops c) meth n match;
          class = class_of op;
          by_op = (case op of
              Some q \<Rightarrow> \<lparr>d_matched = True, d_outcome = outcome q, d_decider = op, d_op = op, d_reason = []\<rparr>
            | None \<Rightarrow> \<lparr>d_matched = False, d_outcome = Refuse, d_decider = None, d_op = None, d_reason = []\<rparr>)
      in case bestOf (paths c) meth n match of
           None \<Rightarrow> by_op
         | Some p \<Rightarrow>
             let pattern = \<lparr>d_matched = True, d_outcome = clamp c (outcome p) class, d_decider = Some p,
                   d_op = op, d_reason = []\<rparr>
             in case op of
                  None \<Rightarrow> pattern
                | Some q \<Rightarrow>
                    if \<not> named q \<or> outranks p q n then pattern
                    else if \<not> outranks q p n \<and> strictness (d_outcome pattern) > strictness (outcome q)
                      then pattern
                    else by_op)"

definition api_admits :: "compiled \<Rightarrow> string \<Rightarrow> string list \<Rightarrow> bool" where
  "api_admits c meth ss \<longleftrightarrow>
     (case api c of
        None \<Rightarrow> False
      | Some a \<Rightarrow>
          meth \<in> set (api_Methods a) \<and> length ss \<ge> 3 \<and> ss ! 0 = ''repos'' \<and>
          inRepos (api_Repos a) (ss ! 1) (ss ! 2))"

definition v2Fallback :: "compiled \<Rightarrow> string \<Rightarrow> string list \<Rightarrow> v2_decision" where
  "v2Fallback c meth ss =
     (let decision = (\<lambda>oc reason. \<lparr>d_matched = False, d_outcome = oc, d_decider = None, d_op = None,
            d_reason = reason\<rparr>)
      in if api_admits c meth ss then decision Admit ''github-api''
         else case cs_unmatched c of
             UnmatchedAdmit \<Rightarrow> decision Admit RuleUnmatched
           | UnmatchedAsk \<Rightarrow> decision Ask RuleUnmatched
           | UnmatchedRefuse \<Rightarrow> decision Refuse ReasonOutOfScope)"

text \<open>\<open>v2Decision.verdict\<close>.\<close>

definition v2_verdict :: "v2_decision \<Rightarrow> verdict" where
  "v2_verdict d =
     (case d_decider d of
        None \<Rightarrow>
          (case d_outcome d of
             Admit \<Rightarrow> Verdict Admit (d_reason d) None
           | Ask \<Rightarrow> Verdict Ask RuleUnmatched None
           | Refuse \<Rightarrow> Verdict Refuse ReasonOutOfScope None)
      | Some p \<Rightarrow>
          let op = (case operation p of
              Some o' \<Rightarrow> Some o'
            | None \<Rightarrow> (case d_op d of None \<Rightarrow> None | Some q \<Rightarrow> operation q))
          in case d_outcome d of
               Refuse \<Rightarrow> Verdict Refuse ReasonRefused op
             | Ask \<Rightarrow> Verdict Ask ''path'' op
             | Admit \<Rightarrow>
                 (case (case d_op d of None \<Rightarrow> None | Some q \<Rightarrow> docker q) of
                    Some k \<Rightarrow> docker_verdict k
                  | None \<Rightarrow> (case docker p of
                        Some k \<Rightarrow> docker_verdict k
                      | None \<Rightarrow> Verdict Admit ''path'' op)))"

text \<open>A rule that matches only leniently, what it answers, and whether it is an operation.\<close>

record candidate =
  c_rule :: compiled_path
  c_outcome :: outcome
  c_op :: bool

text \<open>The decision by the request as it was sent, and the rules that read it otherwise, answer
  more strictly, and are not outranked by what decided.\<close>

definition v2_sent :: "compiled \<Rightarrow> string \<Rightarrow> string list \<Rightarrow> string list \<Rightarrow> v2_decision" where
  "v2_sent c meth ss raw =
     (let d = v2Decide c meth (length ss) (\<lambda>p. matches p ss raw) in
      if d_matched d then d else v2Fallback c meth ss)"

definition v2_stricter ::
    "unicode \<Rightarrow> compiled \<Rightarrow> string \<Rightarrow> string list \<Rightarrow> string list \<Rightarrow> v2_decision \<Rightarrow> candidate list" where
  "v2_stricter U c meth ss raw d =
     (let (whole, split) = lenient U ss;
          n = max (length whole) (length split);
          reads = (\<lambda>k. meth \<in> set (methods (c_rule k)) \<and> \<not> matches (c_rule k) ss raw \<and>
              (matchesFolded (c_rule k) whole \<or> matchesFolded (c_rule k) split));
          stricter = (\<lambda>k. strictness (c_outcome k) > strictness (d_outcome d) \<and>
              (case d_decider d of None \<Rightarrow> True | Some q \<Rightarrow> \<not> outranks q (c_rule k) n))
      in filter (\<lambda>k. reads k \<and> stricter k)
           (map (\<lambda>p. \<lparr>c_rule = p, c_outcome = outcome p, c_op = True\<rparr>) (cs_ops c) @
            map (\<lambda>p. \<lparr>c_rule = p, c_outcome = clamp c (outcome p) (class_of (d_op d)), c_op = False\<rparr>) (paths c)))"

definition decideV2 :: "unicode \<Rightarrow> compiled \<Rightarrow> string \<Rightarrow> string list \<Rightarrow> string list \<Rightarrow> verdict" where
  "decideV2 U c meth ss raw =
     (let d = v2_sent c meth ss raw;
          (whole, split) = lenient U ss;
          n = max (length whole) (length split)
      in case v2_stricter U c meth ss raw d of
           [] \<Rightarrow> v2_verdict d
         | k # ks \<Rightarrow>
             let s = MinFunc (by_outcome (c_rule, c_outcome) n) k ks in
             v2_verdict \<lparr>d_matched = True, d_outcome = c_outcome s, d_decider = Some (c_rule s),
               d_op = (if c_op s then Some (c_rule s) else d_op d), d_reason = []\<rparr>)"

section \<open>The most specific rule: lemmas\<close>

lemma beats_by_specificity: "beats n p b \<longleftrightarrow> by_specificity n p b < 0"
  by (auto simp: beats_def by_specificity_def)

lemma best_kind_Some:
  assumes "best_kind rules meth n match ex = Some p"
  shows "p \<in> set rules \<and> exact p = ex \<and> meth \<in> set (methods p) \<and> match p \<and>
    (\<forall>q\<in>set rules. exact q = ex \<longrightarrow> meth \<in> set (methods q) \<longrightarrow> match q \<longrightarrow> \<not> beats n q p)"
proof -
  let ?ok = "\<lambda>p. exact p = ex \<and> meth \<in> set (methods p) \<and> match p"
  have k: "keep_best ?ok (\<lambda>x b. by_specificity n x b < 0) None rules = Some p"
    using assms by (simp add: best_kind_def beats_by_specificity [abs_def])
  from keep_best_ok [OF k] have "p \<in> set rules" "?ok p" by auto
  moreover have "\<not> beats n q p" if "q \<in> set rules" "?ok q" for q
    using rules.keep_best_max [OF k, of q] that rules.flip [of n p q] by (auto simp: beats_by_specificity)
  ultimately show ?thesis by blast
qed

lemma best_kind_None:
  "best_kind rules meth n match ex = None \<longleftrightarrow>
   (\<forall>q\<in>set rules. exact q = ex \<longrightarrow> meth \<in> set (methods q) \<longrightarrow> \<not> match q)"
  by (auto simp: best_kind_def keep_best_None)

lemma bestOf_None:
  "bestOf rules meth n match = None \<longleftrightarrow> (\<forall>q\<in>set rules. meth \<in> set (methods q) \<longrightarrow> \<not> match q)"
  by (auto simp: bestOf_def best_kind_None split: option.split) (metis best_kind_None option.distinct(1))+

lemma bestOf_Some:
  assumes "bestOf rules meth n match = Some p"
  shows "p \<in> set rules \<and> meth \<in> set (methods p) \<and> match p"
  using assms by (auto simp: bestOf_def dest: best_kind_Some split: option.splits)


lemma bestOf_best:
  assumes b: "bestOf rules meth n match = Some p"
    and q: "q \<in> set rules" "meth \<in> set (methods q)" "match q"
  shows "\<not> outranks q p n \<and> (\<not> outranks p q n \<longrightarrow> strictness (outcome q) \<le> strictness (outcome p))"
proof (cases "exact p")
  case True
  then have "best_kind rules meth n match True = Some p"
    using b by (auto simp: bestOf_def dest: best_kind_Some split: option.splits)
  then have "exact q \<longrightarrow> \<not> beats n q p" using best_kind_Some q by blast
  with True show ?thesis
    using specificity_flip [of q p n] by (auto simp: outranks_def beats_def)
next
  case False
  then have n: "best_kind rules meth n match True = None" and k: "best_kind rules meth n match False = Some p"
    using b by (auto simp: bestOf_def dest: best_kind_Some split: option.splits)
  have "\<not> exact q" using n q by (auto simp: best_kind_None)
  moreover from this have "\<not> beats n q p" using best_kind_Some [OF k] q by blast
  ultimately show ?thesis
    using False specificity_flip [of q p n] by (auto simp: outranks_def beats_def)
qed

section \<open>What version 2 decides: lemmas\<close>

lemma v2_verdict_strict: "strictness (d_outcome d) \<le> strictness (v_outcome (v2_verdict d))"
  by (auto simp: v2_verdict_def Let_def split: option.split outcome.split)

lemma v2_verdict_Admit: "v_outcome (v2_verdict d) = Admit \<Longrightarrow> d_outcome d = Admit"
  using v2_verdict_strict [of d] by (cases "d_outcome d") auto

lemma v2_stricter_member:
  "k \<in> set (v2_stricter U c meth ss raw d) \<Longrightarrow> strictness (c_outcome k) > strictness (d_outcome d)"
  by (cases "lenient U ss") (auto simp: v2_stricter_def Let_def)

text \<open>Every rule that may read the request otherwise, and what it answers there.\<close>

definition reads_otherwise ::
    "unicode \<Rightarrow> compiled \<Rightarrow> string \<Rightarrow> string list \<Rightarrow> string list \<Rightarrow> compiled_path \<Rightarrow> bool" where
  "reads_otherwise U c meth ss raw p \<longleftrightarrow>
     meth \<in> set (methods p) \<and> \<not> matches p ss raw \<and>
     (matchesFolded p (fst (lenient U ss)) \<or> matchesFolded p (snd (lenient U ss)))"

definition lenient_length :: "unicode \<Rightarrow> string list \<Rightarrow> nat" where
  "lenient_length U ss = max (length (fst (lenient U ss))) (length (snd (lenient U ss)))"

definition held_off :: "unicode \<Rightarrow> string list \<Rightarrow> v2_decision \<Rightarrow> compiled_path \<Rightarrow> bool" where
  "held_off U ss d p \<longleftrightarrow> (\<exists>q. d_decider d = Some q \<and> outranks q p (lenient_length U ss))"

lemma v2_stricter_iff:
  "k \<in> set (v2_stricter U c meth ss raw d) \<longleftrightarrow>
   (\<exists>p. p \<in> set (cs_ops c) \<and> k = \<lparr>c_rule = p, c_outcome = outcome p, c_op = True\<rparr> \<or>
        p \<in> set (paths c) \<and>
        k = \<lparr>c_rule = p, c_outcome = clamp c (outcome p) (class_of (d_op d)), c_op = False\<rparr>) \<and>
   reads_otherwise U c meth ss raw (c_rule k) \<and>
   strictness (c_outcome k) > strictness (d_outcome d) \<and> \<not> held_off U ss d (c_rule k)"
  by (cases "lenient U ss"; cases "d_decider d")
    (auto simp: v2_stricter_def Let_def reads_otherwise_def held_off_def lenient_length_def)

text \<open>The decision as sent, and what reads it otherwise: the verdict is as strict as each.\<close>

lemma decideV2_strict:
  fixes c meth ss raw
  defines "d \<equiv> v2_sent c meth ss raw"
  shows "strictness (v_outcome (v2_verdict d)) \<le> strictness (v_outcome (decideV2 U c meth ss raw)) \<or>
      v2_stricter U c meth ss raw d \<noteq> []"
    and "k \<in> set (v2_stricter U c meth ss raw d) \<Longrightarrow>
      strictness (c_outcome k) \<le> strictness (v_outcome (decideV2 U c meth ss raw))"
proof -
  obtain whole split where l: "lenient U ss = (whole, split)" by (cases "lenient U ss")
  let ?n = "max (length whole) (length split)"
  let ?s = "MinFunc (by_outcome (c_rule, c_outcome) ?n)"
  show "strictness (v_outcome (v2_verdict d)) \<le> strictness (v_outcome (decideV2 U c meth ss raw)) \<or>
      v2_stricter U c meth ss raw d \<noteq> []"
    using l by (cases "v2_stricter U c meth ss raw d") (simp_all add: decideV2_def d_def [symmetric])
  assume k: "k \<in> set (v2_stricter U c meth ss raw d)"
  then obtain k0 ks where ks: "v2_stricter U c meth ss raw d = k0 # ks"
    by (cases "v2_stricter U c meth ss raw d") auto
  have "by_outcome (c_rule, c_outcome) ?n (?s k0 ks) k \<le> 0"
    by (rule strict.MinFunc_le) (use k ks in simp)
  then have "strictness (c_outcome k) \<le> strictness (c_outcome (?s k0 ks))"
    by (auto simp: by_outcome_def split: if_splits)
  also have "\<dots> \<le> strictness (v_outcome (decideV2 U c meth ss raw))"
    using l ks v2_verdict_strict [of "\<lparr>d_matched = True, d_outcome = c_outcome (?s k0 ks),
      d_decider = Some (c_rule (?s k0 ks)),
      d_op = (if c_op (?s k0 ks) then Some (c_rule (?s k0 ks)) else d_op d), d_reason = []\<rparr>"]
    by (simp add: decideV2_def d_def [symmetric] Let_def)
  finally show "strictness (c_outcome k) \<le> strictness (v_outcome (decideV2 U c meth ss raw))" .
qed

lemma clamp_strict: "strictness oc \<le> strictness (clamp c oc class)"
  by (auto simp: clamp_def split: option.split)

lemma clamp_ceiling: "map_of (ceiling c) class = Some ceil \<Longrightarrow> strictness ceil \<le> strictness (clamp c oc class)"
  by (auto simp: clamp_def)

text \<open>What a request matched as sent was admitted by.\<close>

lemma v2_sent_Admit:
  assumes "d_outcome (v2_sent c meth ss raw) = Admit"
  shows "(\<exists>q. bestOf (cs_ops c) meth (length ss) (\<lambda>p. matches p ss raw) = Some q \<and> outcome q = Admit) \<or>
    (\<exists>p. bestOf (paths c) meth (length ss) (\<lambda>p. matches p ss raw) = Some p \<and> outcome p = Admit \<and>
      clamp c Admit (class_of (bestOf (cs_ops c) meth (length ss) (\<lambda>p. matches p ss raw))) = Admit) \<or>
    bestOf (cs_ops c) meth (length ss) (\<lambda>p. matches p ss raw) = None \<and>
      bestOf (paths c) meth (length ss) (\<lambda>p. matches p ss raw) = None \<and>
      (api_admits c meth ss \<or> cs_unmatched c = UnmatchedAdmit)"
proof -
  let ?m = "\<lambda>p. matches p ss raw"
  have un: "clamp c oc k = Admit \<longleftrightarrow> oc = Admit \<and> clamp c Admit k = Admit" for oc k
    using clamp_strict [of oc c k] by (cases oc) auto
  show ?thesis
  proof (cases "bestOf (paths c) meth (length ss) ?m")
    case None
    with assms show ?thesis
      by (cases "bestOf (cs_ops c) meth (length ss) ?m")
        (auto simp: v2_sent_def v2Decide_def v2Fallback_def Let_def split: if_splits unmatched.splits)
  next
    case (Some p)
    with assms show ?thesis
      by (cases "bestOf (cs_ops c) meth (length ss) ?m")
        (auto simp: v2_sent_def v2Decide_def Let_def un [of "outcome p"] split: if_splits)
  qed
qed


lemma decideV2_sent: "strictness (d_outcome (v2_sent c meth ss raw)) \<le> strictness (v_outcome (decideV2 U c meth ss raw))"
proof (cases "v2_stricter U c meth ss raw (v2_sent c meth ss raw)")
  case Nil
  then show ?thesis
    using decideV2_strict(1) [of c meth ss raw U] v2_verdict_strict order_trans by blast
next
  case (Cons k ks)
  then have k: "k \<in> set (v2_stricter U c meth ss raw (v2_sent c meth ss raw))" by simp
  from decideV2_strict(2) [OF k] v2_stricter_member [OF k] show ?thesis by simp
qed

text \<open>What a request is admitted by, and what would have had it otherwise.\<close>

lemma decideV2_Admit:
  assumes a: "v_outcome (decideV2 U c meth ss raw) = Admit"
  shows "((\<exists>q. bestOf (cs_ops c) meth (length ss) (\<lambda>p. matches p ss raw) = Some q \<and> outcome q = Admit) \<or>
      (\<exists>p. bestOf (paths c) meth (length ss) (\<lambda>p. matches p ss raw) = Some p \<and> outcome p = Admit \<and>
        clamp c Admit (class_of (bestOf (cs_ops c) meth (length ss) (\<lambda>p. matches p ss raw))) = Admit) \<or>
      bestOf (cs_ops c) meth (length ss) (\<lambda>p. matches p ss raw) = None \<and>
        bestOf (paths c) meth (length ss) (\<lambda>p. matches p ss raw) = None \<and>
        (api_admits c meth ss \<or> cs_unmatched c = UnmatchedAdmit)) \<and>
    (\<forall>p. reads_otherwise U c meth ss raw p \<and> \<not> held_off U ss (v2_sent c meth ss raw) p \<longrightarrow>
      (p \<in> set (cs_ops c) \<longrightarrow> outcome p = Admit) \<and>
      (p \<in> set (paths c) \<longrightarrow> clamp c (outcome p) (class_of (d_op (v2_sent c meth ss raw))) = Admit))"
proof -
  let ?d = "v2_sent c meth ss raw"
  have none: "k \<notin> set (v2_stricter U c meth ss raw ?d)" for k
    using decideV2_strict(2) [of k U c meth ss raw] v2_stricter_member [of k U c meth ss raw ?d] a
      strictness_bounds(1) [of "d_outcome ?d"] by fastforce
  have d: "d_outcome ?d = Admit"
    using decideV2_sent [of c meth ss raw U] a by (cases "d_outcome ?d") auto
  have "(p \<in> set (cs_ops c) \<longrightarrow> outcome p = Admit) \<and>
      (p \<in> set (paths c) \<longrightarrow> clamp c (outcome p) (class_of (d_op ?d)) = Admit)"
    if "reads_otherwise U c meth ss raw p" "\<not> held_off U ss ?d p" for p
    using none [of "\<lparr>c_rule = p, c_outcome = outcome p, c_op = True\<rparr>"]
      none [of "\<lparr>c_rule = p, c_outcome = clamp c (outcome p) (class_of (d_op ?d)), c_op = False\<rparr>"] that d
    unfolding v2_stricter_iff
    by (cases "outcome p"; cases "clamp c (outcome p) (class_of (d_op ?d))") auto
  with v2_sent_Admit [OF d] show ?thesis by blast
qed

definition example_rule :: "string list \<Rightarrow> bool \<Rightarrow> outcome \<Rightarrow> compiled_path" where
  "example_rule ss ex oc =
     \<lparr>methods = [''GET''], segs = ss, folded = ss, exact = ex, encodedSlashes = False, outcome = oc,
      operation = None, docker = None, named = False\<rparr>"

definition example_v2 :: compiled where
  "example_v2 =
     \<lparr>paths = [example_rule [''a''] False Admit, example_rule [''a'', ''b''] False Refuse], git = None,
      graphql = [], api = None, cs_unmatched = UnmatchedRefuse, v2 = True,
      cs_ops = [example_rule [''a'', ''*''] True Admit], ceiling = [([], Ask)]\<rparr>"

section \<open>What version 2 decides\<close>

text \<open>
  The rule chosen is the most specific. Of the rules that list the method and match, the one
  \<open>bestOf\<close> returns is outranked by none, and any it does not outrank in turn is no stricter; it
  returns none only where none matches.
\<close>

theorem bestOf_most_specific:
  "case bestOf rules meth n match of
     None \<Rightarrow> (\<forall>q\<in>set rules. \<not> (meth \<in> set (methods q) \<and> match q))
   | Some p \<Rightarrow> p \<in> set rules \<and> meth \<in> set (methods p) \<and> match p \<and>
       (\<forall>q\<in>set rules. meth \<in> set (methods q) \<and> match q \<longrightarrow>
          \<not> outranks q p n \<and> (outranks p q n \<or> strictness (outcome q) \<le> strictness (outcome p)))"
proof (cases "bestOf rules meth n match")
  case None
  then have "\<forall>q\<in>set rules. meth \<in> set (methods q) \<longrightarrow> \<not> match q" by (simp only: bestOf_None)
  with None show ?thesis by simp
next
  case (Some p)
  then show ?thesis using bestOf_Some [OF Some] bestOf_best [OF Some] by auto
qed

theorem bestOf_most_specific_witness:
  "case bestOf [example_rule [''a''] False Admit, example_rule [''a'', ''b''] False Refuse] ''GET'' 2 (\<lambda>_. True) of
     None \<Rightarrow> False
   | Some p \<Rightarrow> p = example_rule [''a'', ''b''] False Refuse \<and> \<not> outranks (example_rule [''a''] False Admit) p 2"
proof -
  let ?rules = "[example_rule [''a''] False Admit, example_rule [''a'', ''b''] False Refuse]"
  have b: "bestOf ?rules ''GET'' 2 (\<lambda>_. True) = Some (example_rule [''a'', ''b''] False Refuse)"
    by code_simp
  have "''GET'' \<in> set (methods (example_rule [''a''] False Admit))" by code_simp
  with bestOf_most_specific [where rules = ?rules and meth = "''GET''" and n = 2 and match = "\<lambda>_. True"] b show ?thesis by simp
qed

text \<open>
  C12: What the rules of a version 2 scope admit, a request that is neither git's nor for a GraphQL
  endpoint, matches, as it was sent, an operation or a pattern that admits it, the pattern within the
  ceiling of its class; or matches nothing, where the GitHub API scope or \<open>Unmatched\<close> admits it. And
  every operation and pattern that reads the request otherwise admits it too, but for those outranked by
  what decided, which are not asked.
\<close>

theorem v2_admits:
  assumes a: "v_outcome (decideV2 U c meth ss raw) = Admit"
  shows "((\<exists>q. bestOf (cs_ops c) meth (length ss) (\<lambda>p. matches p ss raw) = Some q \<and> outcome q = Admit) \<or>
      (\<exists>p. bestOf (paths c) meth (length ss) (\<lambda>p. matches p ss raw) = Some p \<and> outcome p = Admit \<and>
        clamp c Admit (class_of (bestOf (cs_ops c) meth (length ss) (\<lambda>p. matches p ss raw))) = Admit) \<or>
      bestOf (cs_ops c) meth (length ss) (\<lambda>p. matches p ss raw) = None \<and>
        bestOf (paths c) meth (length ss) (\<lambda>p. matches p ss raw) = None \<and>
        (api_admits c meth ss \<or> cs_unmatched c = UnmatchedAdmit)) \<and>
    (\<forall>p. reads_otherwise U c meth ss raw p \<and> \<not> held_off U ss (v2_sent c meth ss raw) p \<longrightarrow>
      (p \<in> set (cs_ops c) \<longrightarrow> outcome p = Admit) \<and>
      (p \<in> set (paths c) \<longrightarrow> clamp c (outcome p) (class_of (d_op (v2_sent c meth ss raw))) = Admit))"
  by (rule decideV2_Admit [OF a])

theorem v2_admits_witness:
  "v_outcome (decideV2 ascii_unicode (example_v2\<lparr>ceiling := []\<rparr>) ''GET'' [''a'', ''c''] [''a'', ''c'']) = Admit \<and>
   clamp (example_v2\<lparr>ceiling := []\<rparr>) Admit [] = Admit"
proof -
  have a: "v_outcome (decideV2 ascii_unicode (example_v2\<lparr>ceiling := []\<rparr>) ''GET'' [''a'', ''c''] [''a'', ''c'']) = Admit"
    by code_simp
  from v2_admits [OF a] a show ?thesis by (simp add: clamp_def)
qed

text \<open>
  A pattern decides no more leniently than the ceiling. Where a pattern matches a request
  whose operation, if it is one, is answered by its class, the answer is at least as strict as
  the pattern and as the ceiling of that class, however the request is read.
\<close>

theorem v2_pattern_ceiling:
  assumes "bestOf (paths c) meth (length ss) (\<lambda>p. matches p ss raw) = Some p"
    and "bestOf (cs_ops c) meth (length ss) (\<lambda>p. matches p ss raw) = op"
    and "case op of None \<Rightarrow> True | Some q \<Rightarrow> \<not> named q"
    and "map_of (ceiling c) (class_of op) = Some ceil"
  shows "max (strictness ceil) (strictness (outcome p)) \<le> strictness (v_outcome (decideV2 U c meth ss raw))"
proof -
  have "d_outcome (v2_sent c meth ss raw) = clamp c (outcome p) (class_of op)"
    using assms by (auto simp: v2_sent_def v2Decide_def Let_def split: option.split)
  with decideV2_sent [of c meth ss raw U] clamp_ceiling [OF assms(4), of "outcome p"]
    clamp_strict [of "outcome p" c "class_of op"]
  show ?thesis by simp
qed

theorem v2_pattern_ceiling_witness:
  "strictness Ask \<le> strictness (v_outcome (decideV2 ascii_unicode example_v2 ''GET'' [''a'', ''c''] [''a'', ''c'']))"
proof -
  let ?m = "\<lambda>p. matches p [''a'', ''c''] [''a'', ''c'']"
  have p: "bestOf (paths example_v2) ''GET'' (length [''a'', ''c'']) ?m = Some (example_rule [''a''] False Admit)"
    by code_simp
  have q: "bestOf (cs_ops example_v2) ''GET'' (length [''a'', ''c'']) ?m = Some (example_rule [''a'', ''*''] True Admit)"
    by code_simp
  show ?thesis
    using v2_pattern_ceiling [OF p q, of Ask ascii_unicode]
    by (simp add: class_of_def example_rule_def example_v2_def)
qed

end
