(* ===== verification/Graphql_Lexer.thy ===== *)
theory Graphql_Lexer
  imports Go_Text
begin

text \<open>
  The GraphQL lexer, \<open>internal/graphql/parse.go\<close>. The lexer's state is what is left of the
  source, its \<open>src[pos:]\<close>; a lexical error is a constructor per message, without the
  message's byte offset.
\<close>

section \<open>Tokens and bytes\<close>

datatype token =
  EOF
| Punct string
| Name string
| IntValue string
| FloatValue string
| StringValue

datatype gql_error =
  LoneCR
| CommentByte char
| LoneDot
| OddByte char
| LeadingZero
| MinusNoNumber
| NoFraction
| NoExponent
| NumberRunsInto char
| UnfinishedEscape
| BadEscape char
| BadUnicodeEscape
| EscapedSurrogate
| ControlByte char
| InvalidUTF8
| UnterminatedString
| UnterminatedBlock
| Unexpected token string
| TooDeep
| TwoOperations string
| TwoFragments string
| TwoArguments string
| TwoFields string
| NoOperation
| AnonymousAmongOthers
| SelfSpread string
| NoFragment string
| TooManySelections
| OutOfFuel

abbreviation CR :: char where "CR \<equiv> CHR 0x0D"
abbreviation LF :: char where "LF \<equiv> CHR 0x0A"
abbreviation TAB :: char where "TAB \<equiv> CHR 0x09"
abbreviation QUOTE :: char where "QUOTE \<equiv> CHR 0x22"
abbreviation BACKSLASH :: char where "BACKSLASH \<equiv> CHR 0x5C"

definition isDigit :: "char \<Rightarrow> bool" where
  "isDigit c \<longleftrightarrow> between CHR ''0'' c CHR ''9''"

definition isNameStart :: "char \<Rightarrow> bool" where
  "isNameStart c \<longleftrightarrow>
     c = CHR ''_'' \<or> between CHR ''a'' c CHR ''z'' \<or> between CHR ''A'' c CHR ''Z''"

definition isNameContinue :: "char \<Rightarrow> bool" where
  "isNameContinue c \<longleftrightarrow> isNameStart c \<or> isDigit c"

definition hexVal :: "char \<Rightarrow> int" where
  "hexVal c =
     (if isDigit c then byte c - 48
      else if between CHR ''a'' c CHR ''f'' then byte c - 97 + 10
      else if between CHR ''A'' c CHR ''F'' then byte c - 65 + 10
      else -1)"

section \<open>Ignored text\<close>

text \<open>The loop over a comment's bytes, to the end of its line.\<close>

fun comment :: "string \<Rightarrow> gql_error + string" where
  "comment [] = Inr []"
| "comment (c # cs) =
     (if c = LF \<or> c = CR then Inr (c # cs)
      else if c \<noteq> TAB \<and> (byte c < 32 \<or> byte c > 126) then Inl (CommentByte c)
      else comment cs)"

lemma comment_length: "comment s = Inr t \<Longrightarrow> length t \<le> length s"
  by (induction s) (auto split: if_splits)

function skip :: "string \<Rightarrow> gql_error + string" where
  "skip [] = Inr []"
| "skip (c # cs) =
     (if c = CR \<and> \<not> prefix [CR, LF] (c # cs) then Inl LoneCR
      else if c = CHR '' '' \<or> c = TAB \<or> c = LF \<or> c = CR \<or> c = CHR '','' then skip cs
      else if c = CHR ''#'' then (case comment cs of Inl e \<Rightarrow> Inl e | Inr t \<Rightarrow> skip t)
      else Inr (c # cs))"
  by pat_completeness auto
termination
  by (relation "measure length") (auto dest: comment_length)

section \<open>Numbers, strings and block strings\<close>

definition digits :: "string \<Rightarrow> string \<times> string" where
  "digits s = (takeWhile isDigit s, dropWhile isDigit s)"

text \<open>Each step of \<open>number\<close> returns the bytes it took and the bytes left.\<close>

definition number_integer :: "string \<Rightarrow> gql_error + string \<times> string" where
  "number_integer s =
     (case s of
        c # t \<Rightarrow>
          if c = CHR ''0'' then
            (case t of d # _ \<Rightarrow> if isDigit d then Inl LeadingZero else Inr ([c], t) | [] \<Rightarrow> Inr ([c], t))
          else if isDigit c then Inr (digits s)
          else Inl MinusNoNumber
      | [] \<Rightarrow> Inl MinusNoNumber)"

definition number_fraction :: "string \<Rightarrow> gql_error + string \<times> string" where
  "number_fraction s =
     (case s of
        c # t \<Rightarrow>
          if c = CHR ''.''
          then (let (d, u) = digits t in if d = [] then Inl NoFraction else Inr (c # d, u))
          else Inr ([], s)
      | [] \<Rightarrow> Inr ([], s))"

definition number_exponent :: "string \<Rightarrow> gql_error + string \<times> string" where
  "number_exponent s =
     (case s of
        c # t \<Rightarrow>
          if c = CHR ''e'' \<or> c = CHR ''E'' then
            (let (sign, u) = (case t of g # u \<Rightarrow> if g = CHR ''+'' \<or> g = CHR ''-'' then ([g], u) else ([], t)
                               | [] \<Rightarrow> ([], t));
                 (d, w) = digits u
             in if d = [] then Inl NoExponent else Inr (c # sign @ d, w))
          else Inr ([], s)
      | [] \<Rightarrow> Inr ([], s))"

definition number :: "string \<Rightarrow> gql_error + token \<times> string" where
  "number s =
     (let (sign, s1) = (case s of c # t \<Rightarrow> if c = CHR ''-'' then ([c], t) else ([], s) | [] \<Rightarrow> ([], s)) in
      case number_integer s1 of Inl e \<Rightarrow> Inl e | Inr (i, s2) \<Rightarrow>
      (case number_fraction s2 of Inl e \<Rightarrow> Inl e | Inr (f, s3) \<Rightarrow>
      (case number_exponent s3 of Inl e \<Rightarrow> Inl e | Inr (x, s4) \<Rightarrow>
        let text = sign @ i @ f @ x;
            tok = (if f = [] \<and> x = [] then IntValue text else FloatValue text)
        in case s4 of
             c # _ \<Rightarrow> if c = CHR ''.'' \<or> isNameStart c then Inl (NumberRunsInto c) else Inr (tok, s4)
           | [] \<Rightarrow> Inr (tok, s4))))"

text \<open>The loop over the runes of \<open>\u\<close>'s four bytes: \<open>byte(h)\<close> is a rune cut to its low
  eight bits.\<close>

fun unicode_escape :: "int \<Rightarrow> int list \<Rightarrow> int option" where
  "unicode_escape r [] = Some r"
| "unicode_escape r (h # hs) =
     (let d = hexVal (char_of (h mod 256)) in
      if d < 0 then None else unicode_escape (r * 16 + d) hs)"

text \<open>What is left after the closing quote; the argument starts after the opening one.\<close>

function lex_string :: "string \<Rightarrow> gql_error + string" where
  "lex_string [] = Inl UnterminatedString"
| "lex_string (c # cs) =
     (if c = QUOTE then Inr cs
      else if c = BACKSLASH then
        (case cs of
           [] \<Rightarrow> Inl UnfinishedEscape
         | e # rest \<Rightarrow>
             if e \<in> set [QUOTE, BACKSLASH, CHR ''/'', CHR ''b'', CHR ''f'', CHR ''n'', CHR ''r'', CHR ''t'']
             then lex_string rest
             else if e \<noteq> CHR ''u'' \<or> length rest < 4 then Inl (BadEscape e)
             else (case unicode_escape 0 (runes (take 4 rest)) of
                 None \<Rightarrow> Inl BadUnicodeEscape
               | Some r \<Rightarrow>
                   if 55296 \<le> r \<and> r \<le> 57343 then Inl EscapedSurrogate else lex_string (drop 4 rest)))
      else if byte c < 32 \<and> c \<noteq> TAB then Inl (ControlByte c)
      else if byte c < 128 then lex_string cs
      else case DecodeRune (c # cs) of
          (r, n) \<Rightarrow> if r = RuneError then Inl InvalidUTF8 else lex_string (drop n (c # cs)))"
  by pat_completeness auto
termination
  by (relation "measure length") (auto simp: DecodeRune_less)

function lex_block :: "string \<Rightarrow> gql_error + string" where
  "lex_block [] = Inl UnterminatedBlock"
| "lex_block (c # cs) =
     (if prefix [BACKSLASH, QUOTE, QUOTE, QUOTE] (c # cs) then lex_block (drop 4 (c # cs))
      else if prefix [QUOTE, QUOTE, QUOTE] (c # cs) then Inr (drop 3 (c # cs))
      else if byte c < 32 \<and> c \<noteq> TAB \<and> c \<noteq> LF \<and> c \<noteq> CR then Inl (ControlByte c)
      else case DecodeRune (c # cs) of
          (r, n) \<Rightarrow> if r = RuneError then Inl InvalidUTF8 else lex_block (drop n (c # cs)))"
  by pat_completeness auto
termination
  by (relation "measure length") (auto simp: DecodeRune_less)

section \<open>The next token\<close>

definition puncts :: string where
  "puncts = ''!$&():=@[]{|}''"

definition lex_token :: "char \<Rightarrow> string \<Rightarrow> gql_error + token \<times> string" where
  "lex_token c cs =
     (if c \<in> set puncts then Inr (Punct [c], cs)
      else if c = CHR ''.'' then
        (if prefix ''...'' (c # cs) then Inr (Punct ''...'', drop 3 (c # cs)) else Inl LoneDot)
      else if isNameStart c then
        Inr (Name (c # takeWhile isNameContinue cs), dropWhile isNameContinue cs)
      else if c = CHR ''-'' \<or> isDigit c then number (c # cs)
      else if c = QUOTE then
        (if prefix [QUOTE, QUOTE, QUOTE] (c # cs)
         then map_sum id (Pair StringValue) (lex_block (drop 3 (c # cs)))
         else map_sum id (Pair StringValue) (lex_string cs))
      else Inl (OddByte c))"

definition next_token :: "string \<Rightarrow> gql_error + token \<times> string" where
  "next_token s =
     (case skip s of
        Inl e \<Rightarrow> Inl e
      | Inr [] \<Rightarrow> Inr (EOF, [])
      | Inr (c # cs) \<Rightarrow> lex_token c cs)"

section \<open>Progress\<close>

lemma skip_length: "skip s = Inr t \<Longrightarrow> length t \<le> length s"
proof (induction s arbitrary: t rule: skip.induct)
  case (2 c cs)
  show ?case
  proof (cases "c = CHR ''#''")
    case True
    with 2(3) obtain u where "comment cs = Inr u" "skip u = Inr t" by (auto split: sum.splits)
    with True 2(2) [of u] show ?thesis by (auto dest!: comment_length)
  next
    case False
    with 2 show ?thesis by (auto split: if_splits)
  qed
qed simp

lemma digits_length: "digits s = (d, t) \<Longrightarrow> s = d @ t"
  by (auto simp: digits_def)

lemma number_integer_split: "number_integer s = Inr (i, t) \<Longrightarrow> s = i @ t \<and> i \<noteq> []"
  by (auto simp: number_integer_def digits_def split: list.splits if_splits)

lemma number_fraction_split: "number_fraction s = Inr (f, t) \<Longrightarrow> s = f @ t"
  by (auto simp: number_fraction_def Let_def split: list.splits if_splits prod.splits dest: digits_length)

lemma number_exponent_split: "number_exponent s = Inr (x, t) \<Longrightarrow> s = x @ t"
  by (auto simp: number_exponent_def Let_def split: list.splits if_splits prod.splits dest!: digits_length)

lemma number_split:
  assumes "number s = Inr (tok, t)"
  shows "\<exists>text. s = text @ t \<and> text \<noteq> [] \<and> (tok = IntValue text \<or> tok = FloatValue text)"
proof -
  obtain sign s1 where s1: "(case s of c # t \<Rightarrow> if c = CHR ''-'' then ([c], t) else ([], s) | [] \<Rightarrow> ([], s)) = (sign, s1)"
      and s: "s = sign @ s1"
    by (cases s; cases "hd s = CHR ''-''") auto
  from assms s1 obtain i s2 f s3 x where
      i: "number_integer s1 = Inr (i, s2)" and f: "number_fraction s2 = Inr (f, s3)"
      and x: "number_exponent s3 = Inr (x, t)"
      and tok: "tok = IntValue (sign @ i @ f @ x) \<or> tok = FloatValue (sign @ i @ f @ x)"
    unfolding number_def by (auto simp: Let_def split: sum.splits prod.splits list.splits if_splits)
  from i f x have "s1 = (i @ f @ x) @ t" "i \<noteq> []"
    by (auto dest!: number_integer_split number_fraction_split number_exponent_split)
  with s tok show ?thesis by auto
qed

lemma lex_string_length: "lex_string s = Inr t \<Longrightarrow> length t < length s"
proof (induction s arbitrary: t rule: lex_string.induct)
  case (2 c cs)
  show ?case
  proof (cases "c = BACKSLASH")
    case True
    with 2 obtain e rest where "cs = e # rest" by (cases cs) auto
    with True 2 show ?thesis by (fastforce split: if_splits option.splits)
  next
    case False
    obtain r n where rn: "DecodeRune (c # cs) = (r, n)" by (cases "DecodeRune (c # cs)")
    with False 2 DecodeRune_less [of r n c cs] show ?thesis
      by (auto split: if_splits) (fastforce dest: sym)+
  qed
qed simp

lemma lex_block_length: "lex_block s = Inr t \<Longrightarrow> length t \<le> length s"
proof (induction s arbitrary: t rule: lex_block.induct)
  case (2 c cs)
  obtain r n where rn: "DecodeRune (c # cs) = (r, n)" by (cases "DecodeRune (c # cs)")
  show ?case
    using 2 rn DecodeRune_less [of r n c cs] by (fastforce split: if_splits)
qed simp

lemma map_Inr: "map_sum id f x = Inr z \<longleftrightarrow> (\<exists>y. x = Inr y \<and> z = f y)"
  by (cases x) auto

lemma lex_token_length:
  assumes "lex_token c cs = Inr (tok, t)"
  shows "tok \<noteq> EOF \<and> length t < Suc (length cs)"
proof (cases "c \<in> set puncts \<or> c = CHR ''.''")
  case True
  with assms show ?thesis by (auto simp: lex_token_def split: if_splits)
next
  case plain: False
  show ?thesis
  proof (cases "isNameStart c")
    case True
    with plain assms have "tok = Name (c # takeWhile isNameContinue cs)" "t = dropWhile isNameContinue cs"
      by (auto simp: lex_token_def)
    then show ?thesis by (simp add: le_imp_less_Suc length_dropWhile_le)
  next
    case False
    show ?thesis
    proof (cases "c = CHR ''-'' \<or> isDigit c")
      case True
      with plain False assms have "number (c # cs) = Inr (tok, t)" by (auto simp: lex_token_def)
      then obtain lx where "c # cs = lx @ t" "lx \<noteq> []" "tok \<noteq> EOF" using number_split by blast
      then show ?thesis by (cases lx) auto
    next
      case nonum: False
      with plain False assms have "c = QUOTE" by (auto simp: lex_token_def split: if_splits)
      with plain False nonum assms show ?thesis
        by (auto simp: lex_token_def map_Inr split: if_splits dest!: lex_string_length lex_block_length)
    qed
  qed
qed

text \<open>A token that is not the end takes at least a byte; the end leaves nothing.\<close>

lemma next_token_progress:
  assumes "next_token s = Inr (tok, t)"
  shows "if tok = EOF then t = [] else length t < length s"
proof -
  from assms obtain u where u: "skip s = Inr u" by (cases "skip s") (auto simp: next_token_def)
  show ?thesis
  proof (cases u)
    case Nil
    with assms u show ?thesis by (simp add: next_token_def)
  next
    case (Cons c cs)
    with assms u have "lex_token c cs = Inr (tok, t)" by (simp add: next_token_def)
    from lex_token_length [OF this] skip_length [OF u] Cons show ?thesis by simp
  qed
qed

section \<open>No lexical error is a parser's\<close>

lemma comment_fuel [simp]: "comment s \<noteq> Inl OutOfFuel"
  by (induction s) auto

lemma skip_fuel [simp]: "skip s \<noteq> Inl OutOfFuel"
proof (induction s rule: skip.induct)
  case (2 c cs)
  show ?case
  proof (cases "c = CHR ''#''")
    case True
    show ?thesis
    proof (cases "comment cs")
      case (Inl e)
      with True comment_fuel [of cs] show ?thesis by auto
    next
      case (Inr t)
      with True 2(2) [of t] show ?thesis by simp
    qed
  next
    case False
    with 2 show ?thesis by auto
  qed
qed simp

lemma lex_string_fuel [simp]: "lex_string s \<noteq> Inl OutOfFuel"
proof (induction s rule: lex_string.induct)
  case (2 c cs)
  show ?case
  proof (cases "c = BACKSLASH")
    case True
    show ?thesis
    proof (cases cs)
      case (Cons e rest)
      with True 2 show ?thesis by (auto split: option.split)
    qed (use True in simp)
  next
    case False
    with 2 show ?thesis by (cases "DecodeRune (c # cs)") (simp del: DecodeRune_ascii)
  qed
qed simp

lemma lex_block_fuel [simp]: "lex_block s \<noteq> Inl OutOfFuel"
proof (induction s rule: lex_block.induct)
  case (2 c cs)
  then show ?case by (cases "DecodeRune (c # cs)") (simp del: DecodeRune_ascii)
qed simp

lemma number_fuel [simp]: "number s \<noteq> Inl OutOfFuel"
proof -
  have i: "number_integer u \<noteq> Inl OutOfFuel" for u
    by (auto simp: number_integer_def split: list.split)
  have f: "number_fraction u \<noteq> Inl OutOfFuel" for u
    by (auto simp: number_fraction_def Let_def split: list.split prod.split)
  have x: "number_exponent u \<noteq> Inl OutOfFuel" for u
    by (auto simp: number_exponent_def Let_def split: list.split prod.split)
  show ?thesis
    using i f x by (auto simp: number_def Let_def split: prod.split sum.split list.split)
qed

lemma map_Inl: "map_sum id f x = Inl e \<longleftrightarrow> x = Inl e"
  by (cases x) auto

lemma next_token_fuel [simp]: "next_token s \<noteq> Inl OutOfFuel"
proof -
  have "lex_token c cs \<noteq> Inl OutOfFuel" for c cs
    by (auto simp: lex_token_def map_Inl)
  then show ?thesis
    by (auto simp: next_token_def split: sum.split list.split)
qed

text \<open>The escape loop reads the four bytes after \<open>\u\<close> as runes and cuts each to its low byte: two
  letters that are two bytes each, and no hexadecimal digit, pass for an escape.\<close>

lemma escape_not_hex:
  "next_token [QUOTE, BACKSLASH, CHR ''u'', CHR 0xC5, CHR 0x81, CHR 0xC5, CHR 0x81, QUOTE] = Inr (StringValue, [])"
  by code_simp

text \<open>A string takes the control character DEL.\<close>

lemma delete_in_string: "next_token [QUOTE, CHR 0x7F, QUOTE] = Inr (StringValue, [])"
  by code_simp

end
