(* ===== verification/Graphql_Parser.thy ===== *)
theory Graphql_Parser
  imports Graphql_Lexer
begin

text \<open>
  The GraphQL parser, \<open>internal/graphql/parse.go\<close>: a recursive-descent parser that keeps
  of a document its operations, its fragments and what their selection sets hold.

  The methods of \<open>*parser\<close> return the parser's next state. The recursion of the grammar is
  by fuel: every loop iteration and every descent spends one, and \<open>OutOfFuel\<close> is the
  error of spending the last. \<open>fuel_for\<close> gives a document more than it can spend, which
  \<open>Parse_total\<close> below shows.
\<close>

section \<open>The parser's state\<close>

definition MaxDepth :: nat where
  "MaxDepth = 64"

datatype selection = Field string | Spread string | Inline "selection list"

record parser =
  rest :: string
  tok :: token
  depth :: nat

definition advance :: "parser \<Rightarrow> gql_error + parser" where
  "advance p = ok_then (next_token (rest p)) (\<lambda>(t, r). Inr (p\<lparr>rest := r, tok := t\<rparr>))"

definition is_punct :: "string \<Rightarrow> parser \<Rightarrow> bool" where
  "is_punct s p \<longleftrightarrow> tok p = Punct s"

definition keyword :: "string \<Rightarrow> parser \<Rightarrow> bool" where
  "keyword s p \<longleftrightarrow> tok p = Name s"

definition unexpected :: "string \<Rightarrow> parser \<Rightarrow> gql_error + 'a" where
  "unexpected want p = Inl (Unexpected (tok p) want)"

definition expect :: "string \<Rightarrow> parser \<Rightarrow> gql_error + parser" where
  "expect s p = (if \<not> is_punct s p then unexpected s p else advance p)"

definition name :: "parser \<Rightarrow> gql_error + string \<times> parser" where
  "name p = (case tok p of
      Name s \<Rightarrow> ok_then (advance p) (\<lambda>p. Inr (s, p))
    | _ \<Rightarrow> unexpected ''a name'' p)"

definition enter :: "parser \<Rightarrow> gql_error + parser" where
  "enter p = (let p = p\<lparr>depth := Suc (depth p)\<rparr> in if depth p > MaxDepth then Inl TooDeep else Inr p)"

definition leave :: "parser \<Rightarrow> parser" where
  "leave p = p\<lparr>depth := depth p - 1\<rparr>"

definition fragmentName :: "parser \<Rightarrow> gql_error + string \<times> parser" where
  "fragmentName p = (if keyword ''on'' p then unexpected ''a fragment name'' p else name p)"

section \<open>Values, arguments, directives and types\<close>

definition is_leaf :: "token \<Rightarrow> bool" where
  "is_leaf t = (case t of
      IntValue _ \<Rightarrow> True | FloatValue _ \<Rightarrow> True | StringValue \<Rightarrow> True | Name _ \<Rightarrow> True | _ \<Rightarrow> False)"

fun parse_value :: "nat \<Rightarrow> bool \<Rightarrow> parser \<Rightarrow> gql_error + parser"
  and list_values :: "nat \<Rightarrow> bool \<Rightarrow> parser \<Rightarrow> gql_error + parser"
  and object_fields :: "nat \<Rightarrow> bool \<Rightarrow> string list \<Rightarrow> parser \<Rightarrow> gql_error + parser" where
  "parse_value 0 constant p = Inl OutOfFuel"
| "parse_value (Suc f) constant p =
     ok_then (enter p) (\<lambda>p.
     ok_then
       (if is_punct ''$'' p \<and> \<not> constant
        then ok_then (advance p) (\<lambda>p. ok_then (name p) (\<lambda>(_, p). Inr p))
        else if is_leaf (tok p) then advance p
        else if is_punct ''['' p then ok_then (advance p) (list_values f constant)
        else if is_punct ''{'' p then ok_then (advance p) (object_fields f constant [])
        else unexpected ''a value'' p)
       (\<lambda>p. Inr (leave p)))"
| "list_values 0 constant p = Inl OutOfFuel"
| "list_values (Suc f) constant p =
     (if is_punct '']'' p then advance p
      else ok_then (parse_value f constant p) (list_values f constant))"
| "object_fields 0 constant seen p = Inl OutOfFuel"
| "object_fields (Suc f) constant seen p =
     (if is_punct ''}'' p then advance p
      else
        ok_then (name p) (\<lambda>(n, p).
        if n \<in> set seen then Inl (TwoFields n)
        else
          ok_then (expect '':'' p) (\<lambda>p.
          ok_then (parse_value f constant p) (object_fields f constant (n # seen)))))"

fun argument_loop :: "nat \<Rightarrow> bool \<Rightarrow> string list \<Rightarrow> parser \<Rightarrow> gql_error + parser" where
  "argument_loop 0 constant seen p = Inl OutOfFuel"
| "argument_loop (Suc f) constant seen p =
     ok_then (name p) (\<lambda>(n, p).
     if n \<in> set seen then Inl (TwoArguments n)
     else
       ok_then (expect '':'' p) (\<lambda>p.
       ok_then (parse_value f constant p) (\<lambda>p.
       if is_punct '')'' p then advance p else argument_loop f constant (n # seen) p)))"

definition arguments :: "nat \<Rightarrow> bool \<Rightarrow> parser \<Rightarrow> gql_error + parser" where
  "arguments f constant p = ok_then (expect ''('' p) (argument_loop f constant [])"

fun directives :: "nat \<Rightarrow> bool \<Rightarrow> parser \<Rightarrow> gql_error + parser" where
  "directives 0 constant p = Inl OutOfFuel"
| "directives (Suc f) constant p =
     (if \<not> is_punct ''@'' p then Inr p
      else
        ok_then (advance p) (\<lambda>p.
        ok_then (name p) (\<lambda>(_, p).
        ok_then (if is_punct ''('' p then arguments f constant p else Inr p)
          (directives f constant))))"

fun typeRef :: "nat \<Rightarrow> parser \<Rightarrow> gql_error + parser" where
  "typeRef 0 p = Inl OutOfFuel"
| "typeRef (Suc f) p =
     ok_then (enter p) (\<lambda>p.
     ok_then
       (if is_punct ''['' p
        then ok_then (advance p) (\<lambda>p. ok_then (typeRef f p) (expect '']''))
        else ok_then (name p) (\<lambda>(_, p). Inr p)) (\<lambda>p.
     ok_then (if is_punct ''!'' p then advance p else Inr p) (\<lambda>p. Inr (leave p))))"

fun variable_loop :: "nat \<Rightarrow> parser \<Rightarrow> gql_error + parser" where
  "variable_loop 0 p = Inl OutOfFuel"
| "variable_loop (Suc f) p =
     ok_then (expect ''$'' p) (\<lambda>p.
     ok_then (name p) (\<lambda>(_, p).
     ok_then (expect '':'' p) (\<lambda>p.
     ok_then (typeRef f p) (\<lambda>p.
     ok_then (if is_punct ''='' p then ok_then (advance p) (parse_value f True) else Inr p) (\<lambda>p.
     ok_then (directives f True p) (\<lambda>p.
     if is_punct '')'' p then advance p else variable_loop f p))))))"

definition variableDefinitions :: "nat \<Rightarrow> parser \<Rightarrow> gql_error + parser" where
  "variableDefinitions f p = ok_then (expect ''('' p) (variable_loop f)"

section \<open>Selection sets\<close>

fun selectionSet :: "nat \<Rightarrow> parser \<Rightarrow> gql_error + selection list \<times> parser"
  and selections :: "nat \<Rightarrow> parser \<Rightarrow> gql_error + selection list \<times> parser"
  and fragment_selection :: "nat \<Rightarrow> parser \<Rightarrow> gql_error + selection \<times> parser"
  and field_selection :: "nat \<Rightarrow> string \<Rightarrow> parser \<Rightarrow> gql_error + selection \<times> parser" where
  "selectionSet 0 p = Inl OutOfFuel"
| "selectionSet (Suc f) p =
     ok_then (enter p) (\<lambda>p.
     ok_then (expect ''{'' p) (\<lambda>p.
     ok_then (selections f p) (\<lambda>(ss, p). Inr (ss, leave p))))"
| "selections 0 p = Inl OutOfFuel"
| "selections (Suc f) p =
     ok_then
       (if is_punct ''...'' p then ok_then (advance p) (fragment_selection f)
        else case tok p of
            Name n \<Rightarrow> ok_then (advance p) (field_selection f n)
          | _ \<Rightarrow> unexpected ''a field or a fragment'' p) (\<lambda>(s, p).
     if is_punct ''}'' p then ok_then (advance p) (\<lambda>p. Inr ([s], p))
     else ok_then (selections f p) (\<lambda>(ss, p). Inr (s # ss, p)))"
| "fragment_selection 0 p = Inl OutOfFuel"
| "fragment_selection (Suc f) p =
     (case tok p of
        Name n \<Rightarrow>
          if n \<noteq> ''on''
          then ok_then (advance p) (\<lambda>p. ok_then (directives f False p) (\<lambda>p. Inr (Spread n, p)))
          else
            ok_then (advance p) (\<lambda>p.
            ok_then (name p) (\<lambda>(_, p).
            ok_then (directives f False p) (\<lambda>p.
            ok_then (selectionSet f p) (\<lambda>(inner, p). Inr (Inline inner, p)))))
      | _ \<Rightarrow>
          ok_then (directives f False p) (\<lambda>p.
          ok_then (selectionSet f p) (\<lambda>(inner, p). Inr (Inline inner, p))))"
| "field_selection 0 n p = Inl OutOfFuel"
| "field_selection (Suc f) n p =
     ok_then (if is_punct '':'' p then ok_then (advance p) name else Inr (n, p)) (\<lambda>(n, p).
     ok_then (if is_punct ''('' p then arguments f False p else Inr p) (\<lambda>p.
     ok_then (directives f False p) (\<lambda>p.
     ok_then (if is_punct ''{'' p then ok_then (selectionSet f p) (\<lambda>(_, p). Inr p) else Inr p)
       (\<lambda>p. Inr (Field n, p)))))"

section \<open>Documents\<close>

record gql_operation =
  Type :: string
  OpName :: string
  Fields :: "string list"

record document =
  ops :: "(gql_operation \<times> selection list) list"
  fragments :: "(string \<times> selection list) list"
  opNames :: "string list"
  anonymous :: bool

definition empty_document :: document where
  "empty_document = \<lparr>ops = [], fragments = [], opNames = [], anonymous = False\<rparr>"

text \<open>An operation written with its type: the keyword is the token at hand.\<close>

definition operation_definition ::
    "nat \<Rightarrow> string \<Rightarrow> document \<Rightarrow> parser \<Rightarrow> gql_error + document \<times> parser" where
  "operation_definition f typ d p =
     ok_then (advance p) (\<lambda>p.
     ok_then
       (case tok p of
          Name n \<Rightarrow>
            if n \<in> set (opNames d) then Inl (TwoOperations n)
            else ok_then (advance p) (\<lambda>p. Inr (n, d\<lparr>opNames := n # opNames d\<rparr>, p))
        | _ \<Rightarrow> Inr ([], d\<lparr>anonymous := True\<rparr>, p)) (\<lambda>(n, d, p).
     ok_then (if is_punct ''('' p then variableDefinitions f p else Inr p) (\<lambda>p.
     ok_then (directives f False p) (\<lambda>p.
     ok_then (selectionSet f p) (\<lambda>(ss, p).
     Inr (d\<lparr>ops := ops d @ [(\<lparr>Type = typ, OpName = n, Fields = []\<rparr>, ss)]\<rparr>, p))))))"

definition fragment_definition :: "nat \<Rightarrow> document \<Rightarrow> parser \<Rightarrow> gql_error + document \<times> parser" where
  "fragment_definition f d p =
     ok_then (advance p) (\<lambda>p.
     ok_then (fragmentName p) (\<lambda>(n, p).
     if map_of (fragments d) n \<noteq> None then Inl (TwoFragments n)
     else if \<not> keyword ''on'' p then unexpected ''on'' p
     else
       ok_then (advance p) (\<lambda>p.
       ok_then (name p) (\<lambda>(_, p).
       ok_then (directives f False p) (\<lambda>p.
       ok_then (selectionSet f p) (\<lambda>(ss, p).
       Inr (d\<lparr>fragments := (n, ss) # fragments d\<rparr>, p)))))))"

fun definitions :: "nat \<Rightarrow> document \<Rightarrow> parser \<Rightarrow> gql_error + document" where
  "definitions 0 d p = Inl OutOfFuel"
| "definitions (Suc f) d p =
     (if tok p = EOF then Inr d
      else
        ok_then
          (if is_punct ''{'' p
           then ok_then (selectionSet f p) (\<lambda>(ss, p).
             Inr (d\<lparr>ops := ops d @ [(\<lparr>Type = ''query'', OpName = [], Fields = []\<rparr>, ss)],
                   anonymous := True\<rparr>, p))
           else case tok p of
               Name n \<Rightarrow>
                 if n = ''query'' \<or> n = ''mutation'' \<or> n = ''subscription''
                 then operation_definition f n d p
                 else if n = ''fragment'' then fragment_definition f d p
                 else unexpected ''an operation or a fragment'' p
             | _ \<Rightarrow> unexpected ''an operation or a fragment'' p)
          (\<lambda>(d, p). definitions f d p))"

definition fuel_for :: "string \<Rightarrow> nat" where
  "fuel_for doc = 2 * length doc + 8"

definition parse_document :: "string \<Rightarrow> gql_error + document" where
  "parse_document doc =
     ok_then (advance \<lparr>rest = doc, tok = EOF, depth = 0\<rparr>) (definitions (fuel_for doc) empty_document)"

section \<open>Enough fuel\<close>

text \<open>What is left of a document: its bytes and the token at hand.\<close>

definition left :: "parser \<Rightarrow> nat" where
  "left p = (if tok p = EOF then 0 else Suc (length (rest p)))"

named_theorems consume \<open>a step that succeeded, and how much less it left\<close>
named_theorems spend \<open>a step that did not run out of fuel\<close>

lemma advance_left: "advance p = Inr q \<Longrightarrow> tok p \<noteq> EOF \<Longrightarrow> left q < left p"
  by (auto simp: advance_def left_def ok_then_Inr dest!: next_token_progress split: if_splits)

lemma is_punct_tok: "is_punct s p \<Longrightarrow> tok p \<noteq> EOF"
  by (auto simp: is_punct_def)

lemma expect_left [consume]: "expect s p = Inr q \<Longrightarrow> left q < left p"
  by (auto simp: expect_def unexpected_def dest: advance_left is_punct_tok split: if_splits)

lemma name_left [consume]: "name p = Inr (n, q) \<Longrightarrow> left q < left p"
  by (auto simp: name_def unexpected_def ok_then_Inr dest: advance_left split: token.splits)

lemma fragmentName_left [consume]: "fragmentName p = Inr (n, q) \<Longrightarrow> left q < left p"
  by (auto simp: fragmentName_def unexpected_def dest: name_left split: if_splits)

lemma enter_left [consume]: "enter p = Inr q \<Longrightarrow> left q = left p \<and> tok q = tok p"
  by (auto simp: enter_def Let_def left_def split: if_splits)

lemma leave_left [simp]: "left (leave p) = left p"
  by (simp add: leave_def left_def)

text \<open>A step that may take nothing takes nothing more than the one it chose between.\<close>

lemma if_left:
  "(if b then f p else Inr p) = Inr q \<Longrightarrow> (\<And>q. b \<Longrightarrow> f p = Inr q \<Longrightarrow> left q < left p) \<Longrightarrow> left q \<le> left p"
  by (auto split: if_splits dest: less_imp_le)

lemma value_left_all:
  "parse_value f c p = Inr q \<Longrightarrow> left q < left p"
  "list_values f c p = Inr q \<Longrightarrow> left q < left p"
  "object_fields f c seen p = Inr q \<Longrightarrow> left q < left p"
proof (induction f c p and f c p and f c seen p arbitrary: q and q and q
    rule: parse_value_list_values_object_fields.induct)
  case (2 f c p)
  from 2(3) obtain p1 p2 where e: "enter p = Inr p1" and q: "q = leave p2"
    and v: "(if is_punct ''$'' p1 \<and> \<not> c
        then ok_then (advance p1) (\<lambda>p. ok_then (name p) (\<lambda>(_, p). Inr p))
        else if is_leaf (tok p1) then advance p1
        else if is_punct ''['' p1 then ok_then (advance p1) (list_values f c)
        else if is_punct ''{'' p1 then ok_then (advance p1) (object_fields f c [])
        else unexpected ''a value'' p1) = Inr p2"
    by (auto simp: ok_then_Inr)
  have leaf: "is_leaf (tok p1) \<Longrightarrow> tok p1 \<noteq> EOF" by (auto simp: is_leaf_def)
  from v leaf 2 have "left p2 < left p1"
    by (auto simp: ok_then_Inr unexpected_def split: if_splits
        dest!: name_left dest: advance_left is_punct_tok) 
      (meson advance_left is_punct_tok less_trans)+
  with enter_left [OF e] q show ?case by simp
next
  case (4 f c p)
  then show ?case
    by (auto simp: ok_then_Inr split: if_splits dest: advance_left is_punct_tok)
      (meson less_trans)
next
  case (6 f c seen p)
  then show ?case
    by (auto simp: ok_then_Inr split: if_splits dest: advance_left is_punct_tok)
      (meson less_trans expect_left name_left)
qed auto

lemmas value_left [consume] = value_left_all(1)

lemma argument_loop_left: "argument_loop f c seen p = Inr q \<Longrightarrow> left q < left p"
proof (induction f c seen p arbitrary: q rule: argument_loop.induct)
  case (2 f c seen p)
  from 2(2) obtain n p1 p2 p3 where s: "name p = Inr (n, p1)" "expect '':'' p1 = Inr p2"
      "parse_value f c p2 = Inr p3" "n \<notin> set seen"
      "(if is_punct '')'' p3 then advance p3 else argument_loop f c (n # seen) p3) = Inr q"
    by (auto simp: ok_then_Inr split: if_splits)
  have "left q < left p3"
    using s 2(1) by (auto split: if_splits dest: advance_left is_punct_tok)
  with name_left [OF s(1)] expect_left [OF s(2)] value_left [OF s(3)] show ?case by linarith
qed simp

lemma arguments_left [consume]: "arguments f c p = Inr q \<Longrightarrow> left q < left p"
  by (auto simp: arguments_def ok_then_Inr dest!: expect_left argument_loop_left)

lemma directives_left [consume]: "directives f c p = Inr q \<Longrightarrow> left q \<le> left p"
proof (induction f c p arbitrary: q rule: directives.induct)
  case (2 f c p)
  show ?case
  proof (cases "is_punct ''@'' p")
    case True
    with 2(2) obtain p1 n p2 p3 where s: "advance p = Inr p1" "name p1 = Inr (n, p2)"
        "(if is_punct ''('' p2 then arguments f c p2 else Inr p2) = Inr p3" "directives f c p3 = Inr q"
      by (auto simp: ok_then_Inr)
    have "left p3 \<le> left p2" using s(3) by (auto split: if_splits dest: arguments_left)
    with 2(1) s advance_left [OF s(1) is_punct_tok [OF True]] name_left [OF s(2)] True
    show ?thesis by fastforce
  qed (use 2 in simp)
qed simp

lemma typeRef_left [consume]: "typeRef f p = Inr q \<Longrightarrow> left q < left p"
proof (induction f p arbitrary: q rule: typeRef.induct)
  case (2 f p)
  from 2(2) obtain p1 p2 p3 where e: "enter p = Inr p1"
    and b: "(if is_punct ''['' p1 then ok_then (advance p1) (\<lambda>p. ok_then (typeRef f p) (expect '']''))
        else ok_then (name p1) (\<lambda>(_, p). Inr p)) = Inr p2"
    and x: "(if is_punct ''!'' p2 then advance p2 else Inr p2) = Inr p3" and q: "q = leave p3"
    by (auto simp: ok_then_Inr)
  have "left p3 \<le> left p2" using x by (auto split: if_splits dest!: advance_left [OF _ is_punct_tok])
  moreover have "left p2 < left p1"
  proof (cases "is_punct ''['' p1")
    case True
    with b obtain u v where s: "advance p1 = Inr u" "typeRef f u = Inr v" "expect '']'' v = Inr p2"
      by (auto simp: ok_then_Inr)
    with 2(1) [OF True s(2)] advance_left [OF s(1) is_punct_tok [OF True]] expect_left [OF s(3)]
    show ?thesis by fastforce
  next
    case False
    with b show ?thesis by (auto simp: ok_then_Inr dest: name_left)
  qed
  ultimately show ?case using enter_left [OF e] q by simp
qed simp

lemma variable_loop_left: "variable_loop f p = Inr q \<Longrightarrow> left q < left p"
proof (induction f p arbitrary: q rule: variable_loop.induct)
  case (2 f p)
  from 2(2) obtain p1 n p2 p3 p4 p5 p6 where s: "expect ''$'' p = Inr p1" "name p1 = Inr (n, p2)"
      "expect '':'' p2 = Inr p3" "typeRef f p3 = Inr p4"
    and v: "(if is_punct ''='' p4 then ok_then (advance p4) (parse_value f True) else Inr p4) = Inr p5"
    and d: "directives f True p5 = Inr p6"
    and r: "(if is_punct '')'' p6 then advance p6 else variable_loop f p6) = Inr q"
    by (auto simp: ok_then_Inr)
  have "left q < left p6"
    using r 2(1) s v d by (fastforce split: if_splits dest: advance_left is_punct_tok)
  moreover have "left p5 \<le> left p4"
    using v by (auto simp: ok_then_Inr split: if_splits dest!: value_left advance_left [OF _ is_punct_tok])
  ultimately show ?case
    using expect_left [OF s(1)] name_left [OF s(2)] expect_left [OF s(3)] typeRef_left [OF s(4)]
      directives_left [OF d] by linarith
qed simp

lemma variableDefinitions_left [consume]: "variableDefinitions f p = Inr q \<Longrightarrow> left q < left p"
  by (auto simp: variableDefinitions_def ok_then_Inr dest!: expect_left variable_loop_left)

lemma selections_left_all:
  "selectionSet f p = Inr (ss, q) \<Longrightarrow> left q < left p"
  "selections f p = Inr (ss, q) \<Longrightarrow> left q < left p"
  "fragment_selection f p = Inr (s, q) \<Longrightarrow> left q \<le> left p"
  "field_selection f n p = Inr (s, q) \<Longrightarrow> left q \<le> left p"
proof (induction f p and f p and f p and f n p arbitrary: ss q and ss q and s q and s q
    rule: selectionSet_selections_fragment_selection_field_selection.induct)
  case (2 f p)
  then show ?case
    by (fastforce simp: ok_then_Inr dest!: enter_left expect_left)
next
  case (4 f p)
  from "4.prems" obtain s1 p1 where
      a: "(if is_punct ''...'' p then ok_then (advance p) (fragment_selection f)
        else case tok p of Name n \<Rightarrow> ok_then (advance p) (field_selection f n)
          | _ \<Rightarrow> unexpected ''a field or a fragment'' p) = Inr (s1, p1)"
    and b: "(if is_punct ''}'' p1 then ok_then (advance p1) (\<lambda>p. Inr ([s1], p))
        else ok_then (selections f p1) (\<lambda>(ss, p). Inr (s1 # ss, p))) = Inr (ss, q)"
    by (auto simp: ok_then_Inr)
  have "left p1 < left p"
  proof (cases "is_punct ''...'' p")
    case True
    with a obtain u where "advance p = Inr u" "fragment_selection f u = Inr (s1, p1)"
      by (auto simp: ok_then_Inr)
    with "4.IH"(1) True advance_left is_punct_tok show ?thesis by fastforce
  next
    case False
    with a obtain n u where "tok p = Name n" "advance p = Inr u" "field_selection f n u = Inr (s1, p1)"
      by (auto simp: ok_then_Inr unexpected_def split: token.splits)
    with "4.IH"(2) False advance_left [of p u] show ?thesis by fastforce
  qed
  moreover have "left q < left p1"
    using b "4.IH"(3) a by (fastforce simp: ok_then_Inr split: if_splits dest: advance_left is_punct_tok)
  ultimately show ?case by linarith
next
  case (6 f p)
  show ?case
  proof (cases "\<exists>n. tok p = Name n")
    case True
    then obtain n where n: "tok p = Name n" by blast
    show ?thesis
    proof (cases "n = ''on''")
      case True
      with "6.prems" n obtain p1 t p2 p3 i where s: "advance p = Inr p1" "name p1 = Inr (t, p2)"
          "directives f False p2 = Inr p3" "selectionSet f p3 = Inr (i, q)"
        by (auto simp: ok_then_Inr)
      have "left q < left p3" using "6.IH" n True s(4) by auto
      with advance_left [OF s(1)] n name_left [OF s(2)] directives_left [OF s(3)] show ?thesis by simp
    next
      case False
      with "6.prems" n show ?thesis
        by (fastforce simp: ok_then_Inr dest: advance_left directives_left)
    qed
  next
    case False
    with "6.prems" obtain p1 i where "directives f False p = Inr p1" "selectionSet f p1 = Inr (i, q)"
      by (auto simp: ok_then_Inr split: token.splits)
    moreover from this False "6.IH" have "left q < left p1" by (cases "tok p") auto
    ultimately show ?thesis using directives_left by fastforce
  qed
next
  case (8 f n p)
  from "8.prems" obtain n1 p1 p2 p3 where
      a: "(if is_punct '':'' p then ok_then (advance p) name else Inr (n, p)) = Inr (n1, p1)"
    and b: "(if is_punct ''('' p1 then arguments f False p1 else Inr p1) = Inr p2"
    and c: "directives f False p2 = Inr p3"
    and d: "(if is_punct ''{'' p3 then ok_then (selectionSet f p3) (\<lambda>(_, p). Inr p) else Inr p3) = Inr q"
    by (auto simp: ok_then_Inr)
  have "left p1 \<le> left p"
    using a by (auto simp: ok_then_Inr split: if_splits dest!: name_left advance_left [OF _ is_punct_tok])
  moreover have "left p2 \<le> left p1" using b by (auto split: if_splits dest: arguments_left)
  moreover have "left p3 \<le> left p2" using c by (rule directives_left)
  moreover have "left q \<le> left p3"
    using d "8.IH" a b c by (fastforce simp: ok_then_Inr split: if_splits)
  ultimately show ?case by linarith
qed auto

lemmas selectionSet_left [consume] = selections_left_all(1)

end
