(* ===== verification/Graphql_Total.thy ===== *)
theory Graphql_Total
  imports Graphql_Parser
begin

text \<open>
  The fuel \<open>fuel_for\<close> gives the parser is enough: no document runs out of it. Every token
  taken pays for two units, which is what a list or an object, or a selection set, spends
  for each token it holds.
\<close>

lemma advance_fuel [simp]: "advance p \<noteq> Inl OutOfFuel"
  by (auto simp: advance_def ok_then_Inl)

lemma unexpected_fuel [simp]: "unexpected w p \<noteq> Inl OutOfFuel"
  by (simp add: unexpected_def)

lemma expect_fuel [simp]: "expect s p \<noteq> Inl OutOfFuel"
  by (simp add: expect_def)

lemma name_fuel [simp]: "name p \<noteq> Inl OutOfFuel"
  by (auto simp: name_def ok_then_Inl split: token.split)

lemma fragmentName_fuel [simp]: "fragmentName p \<noteq> Inl OutOfFuel"
  by (simp add: fragmentName_def)

lemma enter_fuel [simp]: "enter p \<noteq> Inl OutOfFuel"
  by (simp add: enter_def Let_def)

text \<open>A step and what follows it: neither runs out.\<close>

lemma ok_then_fuel:
  "r \<noteq> Inl OutOfFuel \<Longrightarrow> (\<And>x. r = Inr x \<Longrightarrow> k x \<noteq> Inl OutOfFuel) \<Longrightarrow> ok_then r k \<noteq> Inl OutOfFuel"
  by (auto simp: ok_then_Inl)

lemma ok_then_fuel2:
  "r \<noteq> Inl OutOfFuel \<Longrightarrow> (\<And>x y. r = Inr (x, y) \<Longrightarrow> k x y \<noteq> Inl OutOfFuel) \<Longrightarrow>
   ok_then r (\<lambda>(x, y). k x y) \<noteq> Inl OutOfFuel"
  by (auto simp: ok_then_Inl)

lemmas value_unfold = parse_value.simps

lemma value_fuel_all:
  "2 * left p + 1 \<le> f \<Longrightarrow> parse_value f c p \<noteq> Inl OutOfFuel"
  "2 * left p + 2 \<le> f \<Longrightarrow> list_values f c p \<noteq> Inl OutOfFuel"
  "2 * left p + 2 \<le> f \<Longrightarrow> object_fields f c seen p \<noteq> Inl OutOfFuel"
proof (induction f c p and f c p and f c seen p rule: parse_value_list_values_object_fields.induct)
  case (2 f c p)
  show ?case
    unfolding value_unfold
  proof (intro ok_then_fuel enter_fuel)
    fix p1 assume e: "enter p = Inr p1"
    have l: "left p1 = left p" using enter_left [OF e] by simp
    have adv: "advance p1 = Inr p2 \<Longrightarrow> is_punct s p1 \<Longrightarrow> 2 * left p2 + 2 \<le> f" for p2 s
      using advance_left [of p1 p2] is_punct_tok [of s p1] "2.prems" l by fastforce
    show "(if is_punct ''$'' p1 \<and> \<not> c then ok_then (advance p1) (\<lambda>p. ok_then (name p) (\<lambda>(_, p). Inr p))
        else if is_leaf (tok p1) then advance p1
        else if is_punct ''['' p1 then ok_then (advance p1) (list_values f c)
        else if is_punct ''{'' p1 then ok_then (advance p1) (object_fields f c [])
        else unexpected ''a value'' p1) \<noteq> Inl OutOfFuel"
      using adv "2.IH" e by (auto simp: ok_then_Inl)
  qed simp
next
  case (4 f c p)
  show ?case
  proof (cases "is_punct '']'' p")
    case False
    have "parse_value f c p \<noteq> Inl OutOfFuel" using "4.IH"(1) False "4.prems" by simp
    moreover have "list_values f c q \<noteq> Inl OutOfFuel" if "parse_value f c p = Inr q" for q
      using "4.IH"(2) [OF False] value_left [OF that] "4.prems" by simp
    ultimately show ?thesis using False by (auto simp: ok_then_Inl)
  qed simp
next
  case (6 f c seen p)
  show ?case
  proof (cases "is_punct ''}'' p")
    case False
    show ?thesis
      unfolding object_fields.simps if_not_P [OF False]
    proof (intro ok_then_fuel name_fuel)
      fix x assume "name p = Inr x"
      then obtain n p1 where n: "name p = Inr (n, p1)" and x: "x = (n, p1)" by (cases x) auto
      show "(case x of (n, p) \<Rightarrow> if n \<in> set seen then Inl (TwoFields n)
        else ok_then (expect '':'' p) (\<lambda>p. ok_then (parse_value f c p) (object_fields f c (n # seen)))) \<noteq> Inl OutOfFuel"
      proof (cases "n \<in> set seen")
        case fresh: False
        have "ok_then (parse_value f c p2) (object_fields f c (n # seen)) \<noteq> Inl OutOfFuel"
          if e: "expect '':'' p1 = Inr p2" for p2
        proof (rule ok_then_fuel)
          have l: "left p2 + 2 \<le> left p" using name_left [OF n] expect_left [OF e] by simp
          show "parse_value f c p2 \<noteq> Inl OutOfFuel"
            using "6.IH" False n fresh e l "6.prems" by simp
          fix q assume v: "parse_value f c p2 = Inr q"
          show "object_fields f c (n # seen) q \<noteq> Inl OutOfFuel"
            using "6.IH" False n fresh e value_left [OF v] l "6.prems" by simp
        qed
        with fresh x show ?thesis by (auto simp: ok_then_Inl)
      qed (simp add: x)
    qed
  qed simp
qed auto

lemmas value_fuel = value_fuel_all(1)

lemma argument_loop_fuel: "2 * left p + 2 \<le> f \<Longrightarrow> argument_loop f c seen p \<noteq> Inl OutOfFuel"
proof (induction f c seen p rule: argument_loop.induct)
  case (2 f c seen p)
  show ?case
    unfolding argument_loop.simps
  proof (intro ok_then_fuel name_fuel)
    fix x assume "name p = Inr x"
    then obtain n p1 where n: "name p = Inr (n, p1)" and x: "x = (n, p1)" by (cases x) auto
    have "ok_then (parse_value f c p2) (\<lambda>p. if is_punct '')'' p then advance p else argument_loop f c (n # seen) p)
        \<noteq> Inl OutOfFuel" if fresh: "n \<notin> set seen" and e: "expect '':'' p1 = Inr p2" for p2
    proof (rule ok_then_fuel)
      have l: "left p2 + 2 \<le> left p" using name_left [OF n] expect_left [OF e] by simp
      then show "parse_value f c p2 \<noteq> Inl OutOfFuel" using "2.prems" by (intro value_fuel) simp
      fix q assume v: "parse_value f c p2 = Inr q"
      show "(if is_punct '')'' q then advance q else argument_loop f c (n # seen) q) \<noteq> Inl OutOfFuel"
        using "2.IH" n fresh e v value_left [OF v] l "2.prems" by simp
    qed
    with x show "(case x of (n, p) \<Rightarrow> if n \<in> set seen then Inl (TwoArguments n)
        else ok_then (expect '':'' p) (\<lambda>p. ok_then (parse_value f c p)
          (\<lambda>p. if is_punct '')'' p then advance p else argument_loop f c (n # seen) p))) \<noteq> Inl OutOfFuel"
      by (auto simp: ok_then_Inl)
  qed
qed simp

lemma arguments_fuel: "2 * left p + 1 \<le> f \<Longrightarrow> arguments f c p \<noteq> Inl OutOfFuel"
  unfolding arguments_def
  by (rule ok_then_fuel) (auto dest!: expect_left intro!: argument_loop_fuel)

lemma directives_fuel: "2 * left p + 2 \<le> f \<Longrightarrow> directives f c p \<noteq> Inl OutOfFuel"
proof (induction f c p rule: directives.induct)
  case (2 f c p)
  show ?case
  proof (cases "is_punct ''@'' p")
    case True
    have "ok_then (if is_punct ''('' p2 then arguments f c p2 else Inr p2) (directives f c) \<noteq> Inl OutOfFuel"
      if a: "advance p = Inr p1" and n: "name p1 = Inr (s, p2)" for p1 s p2
    proof (rule ok_then_fuel)
      have l: "left p2 + 2 \<le> left p"
        using advance_left [OF a is_punct_tok [OF True]] name_left [OF n] by simp
      then show "(if is_punct ''('' p2 then arguments f c p2 else Inr p2) \<noteq> Inl OutOfFuel"
        using arguments_fuel [of p2 f c] "2.prems" by simp
      fix q assume q: "(if is_punct ''('' p2 then arguments f c p2 else Inr p2) = Inr q"
      then have "left q \<le> left p2" by (auto split: if_splits dest: arguments_left)
      with "2.IH" True a n q l "2.prems" show "directives f c q \<noteq> Inl OutOfFuel" by simp
    qed
    with True show ?thesis by (auto simp: ok_then_Inl)
  qed simp
qed simp

lemma typeRef_fuel: "left p + 1 \<le> f \<Longrightarrow> typeRef f p \<noteq> Inl OutOfFuel"
proof (induction f p rule: typeRef.induct)
  case (2 f p)
  have "typeRef f p2 \<noteq> Inl OutOfFuel"
    if "enter p = Inr p1" "is_punct ''['' p1" "advance p1 = Inr p2" for p1 p2
    using that "2.IH" "2.prems" enter_left [of p p1] advance_left [of p1 p2] is_punct_tok by fastforce
  then show ?case by (auto simp: ok_then_Inl)
qed simp

lemma variable_loop_fuel: "2 * left p + 2 \<le> f \<Longrightarrow> variable_loop f p \<noteq> Inl OutOfFuel"
proof (induction f p rule: variable_loop.induct)
  case (2 f p)
  show ?case
    unfolding variable_loop.simps
  proof (rule ok_then_fuel [OF expect_fuel], rule ok_then_fuel2 [OF name_fuel],
      rule ok_then_fuel [OF expect_fuel], rule ok_then_fuel)
    fix p1 n p2 p3
    assume p1: "expect ''$'' p = Inr p1" and n: "name p1 = Inr (n, p2)" and p3: "expect '':'' p2 = Inr p3"
    have l3: "left p3 + 3 \<le> left p"
      using expect_left [OF p1] name_left [OF n] expect_left [OF p3] by simp
    then show "typeRef f p3 \<noteq> Inl OutOfFuel" using "2.prems" by (intro typeRef_fuel) simp
    fix p4 assume p4: "typeRef f p3 = Inr p4"
    have l4: "left p4 + 4 \<le> left p" using typeRef_left [OF p4] l3 by simp
    show "ok_then (if is_punct ''='' p4 then ok_then (advance p4) (parse_value f True) else Inr p4) (\<lambda>p.
        ok_then (directives f True p) (\<lambda>p. if is_punct '')'' p then advance p else variable_loop f p))
        \<noteq> Inl OutOfFuel"
    proof (rule ok_then_fuel, goal_cases)
      case 1
      have "parse_value f True q \<noteq> Inl OutOfFuel" if "advance p4 = Inr q" "is_punct ''='' p4" for q
        using advance_left [OF that(1) is_punct_tok [OF that(2)]] l4 "2.prems" by (intro value_fuel) simp
      then show ?case by (auto simp: ok_then_Inl)
    next
      case (2 p5)
      then have l5: "left p5 \<le> left p4"
        by (auto simp: ok_then_Inr split: if_splits dest!: value_left advance_left [OF _ is_punct_tok])
      show ?case
      proof (rule ok_then_fuel)
        show "directives f True p5 \<noteq> Inl OutOfFuel" using l4 l5 "2.prems" by (intro directives_fuel) simp
        fix p6 assume p6: "directives f True p5 = Inr p6"
        then show "(if is_punct '')'' p6 then advance p6 else variable_loop f p6) \<noteq> Inl OutOfFuel"
          using "2.IH" p1 n p3 p4 2 directives_left [OF p6] l5 l4 "2.prems" by simp
      qed
    qed
  qed
qed simp

lemma variableDefinitions_fuel: "2 * left p + 1 \<le> f \<Longrightarrow> variableDefinitions f p \<noteq> Inl OutOfFuel"
  unfolding variableDefinitions_def
  by (rule ok_then_fuel) (auto dest!: expect_left intro!: variable_loop_fuel)

lemma selections_fuel_all:
  "2 * left p + 1 \<le> f \<Longrightarrow> selectionSet f p \<noteq> Inl OutOfFuel"
  "2 * left p + 2 \<le> f \<Longrightarrow> selections f p \<noteq> Inl OutOfFuel"
  "2 * left p + 3 \<le> f \<Longrightarrow> fragment_selection f p \<noteq> Inl OutOfFuel"
  "2 * left p + 3 \<le> f \<Longrightarrow> field_selection f n p \<noteq> Inl OutOfFuel"
proof (induction f p and f p and f p and f n p
    rule: selectionSet_selections_fragment_selection_field_selection.induct)
  case (2 f p)
  show ?case
    unfolding selectionSet.simps
  proof (rule ok_then_fuel [OF enter_fuel], rule ok_then_fuel [OF expect_fuel], rule ok_then_fuel2)
    fix p1 p2 assume p1: "enter p = Inr p1" and p2: "expect ''{'' p1 = Inr p2"
    have "left p2 + 1 \<le> left p" using enter_left [OF p1] expect_left [OF p2] by simp
    with "2.IH" p1 p2 "2.prems" show "selections f p2 \<noteq> Inl OutOfFuel" by simp
  qed simp
next
  case (4 f p)
  show ?case
    unfolding selections.simps
  proof (rule ok_then_fuel2)
    have "fragment_selection f q \<noteq> Inl OutOfFuel" if "advance p = Inr q" "is_punct ''...'' p" for q
      using "4.IH"(1) that "4.prems" advance_left [OF that(1) is_punct_tok [OF that(2)]] by simp
    moreover have "field_selection f n q \<noteq> Inl OutOfFuel"
      if "advance p = Inr q" "tok p = Name n" "\<not> is_punct ''...'' p" for q n
      using "4.IH"(2) that "4.prems" advance_left [OF that(1)] by simp
    ultimately show "(if is_punct ''...'' p then ok_then (advance p) (fragment_selection f)
        else case tok p of Name n \<Rightarrow> ok_then (advance p) (field_selection f n)
          | _ \<Rightarrow> unexpected ''a field or a fragment'' p) \<noteq> Inl OutOfFuel"
      by (auto simp: ok_then_Inl split: token.split)
  next
    fix s q assume q: "(if is_punct ''...'' p then ok_then (advance p) (fragment_selection f)
        else case tok p of Name n \<Rightarrow> ok_then (advance p) (field_selection f n)
          | _ \<Rightarrow> unexpected ''a field or a fragment'' p) = Inr (s, q)"
    then have "left q < left p"
      by (auto simp: ok_then_Inr unexpected_def split: if_splits token.splits
          dest!: selections_left_all(3,4) advance_left dest: is_punct_tok)
    with "4.IH"(3) q "4.prems"
    show "(if is_punct ''}'' q then ok_then (advance q) (\<lambda>p. Inr ([s], p))
        else ok_then (selections f q) (\<lambda>(ss, p). Inr (s # ss, p))) \<noteq> Inl OutOfFuel"
      by (auto simp: ok_then_Inl)
  qed
next
  case (6 f p)
  show ?case
  proof (cases "\<exists>n. tok p = Name n \<and> n \<noteq> ''on''")
    case True
    then obtain n where n: "tok p = Name n" "n \<noteq> ''on''" by blast
    have "directives f False q \<noteq> Inl OutOfFuel" if "advance p = Inr q" for q
      using advance_left [OF that] n "6.prems" by (intro directives_fuel) simp
    with n show ?thesis by (auto simp: ok_then_Inl)
  next
    case False
    have set: "selectionSet f r \<noteq> Inl OutOfFuel" if "2 * left r + 1 \<le> f" for r
      using "6.IH" False that by (cases "tok p") auto
    have inner: "ok_then (directives f False q)
        (\<lambda>p. ok_then (selectionSet f p) (\<lambda>(inner, p). Inr (Inline inner, p))) \<noteq> Inl OutOfFuel"
      if "left q \<le> left p" for q
    proof (rule ok_then_fuel)
      show "directives f False q \<noteq> Inl OutOfFuel" using that "6.prems" by (intro directives_fuel) simp
      fix r assume r: "directives f False q = Inr r"
      then have "selectionSet f r \<noteq> Inl OutOfFuel"
        using directives_left [OF r] that "6.prems" by (intro set) simp
      then show "ok_then (selectionSet f r) (\<lambda>(inner, p). Inr (Inline inner, p)) \<noteq> Inl OutOfFuel"
        by (auto simp: ok_then_Inl)
    qed
    show ?thesis
    proof (cases "tok p")
      case (Name n)
      with False have n: "n = ''on''" by simp
      have "left q2 \<le> left p" if "advance p = Inr q1" "name q1 = Inr (t, q2)" for q1 t q2
        using advance_left [OF that(1)] name_left [OF that(2)] Name by simp
      with inner show ?thesis
        using Name n by (auto simp: ok_then_Inl)
    qed (use inner [of p] in simp_all)
  qed
next
  case (8 f n p)
  show ?case
    unfolding field_selection.simps
  proof (rule ok_then_fuel2)
    show "(if is_punct '':'' p then ok_then (advance p) name else Inr (n, p)) \<noteq> Inl OutOfFuel"
      by (auto simp: ok_then_Inl)
  next
    fix n1 p1 assume p1: "(if is_punct '':'' p then ok_then (advance p) name else Inr (n, p)) = Inr (n1, p1)"
    then have l1: "left p1 \<le> left p"
      by (auto simp: ok_then_Inr split: if_splits dest!: name_left advance_left [OF _ is_punct_tok])
    show "ok_then (if is_punct ''('' p1 then arguments f False p1 else Inr p1) (\<lambda>p.
        ok_then (directives f False p) (\<lambda>p.
        ok_then (if is_punct ''{'' p then ok_then (selectionSet f p) (\<lambda>(_, p). Inr p) else Inr p)
          (\<lambda>p. Inr (Field n1, p)))) \<noteq> Inl OutOfFuel"
    proof (rule ok_then_fuel, goal_cases)
      case 1
      show ?case using arguments_fuel [of p1 f False] l1 "8.prems" by simp
    next
      case (2 p2)
      then have l2: "left p2 \<le> left p1" by (auto split: if_splits dest: arguments_left)
      show ?case
      proof (rule ok_then_fuel)
        show "directives f False p2 \<noteq> Inl OutOfFuel" using l1 l2 "8.prems" by (intro directives_fuel) simp
        fix p3 assume p3: "directives f False p2 = Inr p3"
        have "selectionSet f p3 \<noteq> Inl OutOfFuel" if "is_punct ''{'' p3"
          using "8.IH" p1 2 p3 that directives_left [OF p3] l1 l2 "8.prems" by simp
        then show "ok_then (if is_punct ''{'' p3 then ok_then (selectionSet f p3) (\<lambda>(_, p). Inr p) else Inr p3)
            (\<lambda>p. Inr (Field n1, p)) \<noteq> Inl OutOfFuel"
          by (auto simp: ok_then_Inl)
      qed
    qed
  qed
qed auto

lemmas selectionSet_fuel = selections_fuel_all(1)


section \<open>Documents\<close>

lemma operation_definition_left:
  "operation_definition f typ d p = Inr (d', q) \<Longrightarrow> tok p \<noteq> EOF \<Longrightarrow> left q < left p"
proof -
  assume r: "operation_definition f typ d p = Inr (d', q)" and t: "tok p \<noteq> EOF"
  then obtain p1 n d1 p2 p3 p4 ss q0 where p1: "advance p = Inr p1"
    and p2: "(case tok p1 of
          Name n \<Rightarrow>
            if n \<in> set (opNames d) then Inl (TwoOperations n)
            else ok_then (advance p1) (\<lambda>p. Inr (n, d\<lparr>opNames := n # opNames d\<rparr>, p))
        | _ \<Rightarrow> Inr ([], d\<lparr>anonymous := True\<rparr>, p1)) = Inr (n, d1, p2)"
    and p3: "(if is_punct ''('' p2 then variableDefinitions f p2 else Inr p2) = Inr p3"
    and p4: "directives f False p3 = Inr p4" and q0: "selectionSet f p4 = Inr (ss, q)"
    unfolding operation_definition_def by (auto simp: ok_then_Inr)
  have "left p1 < left p" using advance_left [OF p1 t] .
  moreover have "left p2 \<le> left p1"
    using p2 by (auto simp: ok_then_Inr split: token.splits if_splits dest!: advance_left)
  moreover have "left p3 \<le> left p2"
    using p3 by (auto split: if_splits dest!: variableDefinitions_left)
  moreover have "left p4 \<le> left p3" "left q < left p4"
    using directives_left [OF p4] selectionSet_left [OF q0] .
  ultimately show ?thesis by simp
qed

lemma operation_definition_fuel:
  assumes "2 * left p + 1 \<le> f" and t: "tok p \<noteq> EOF"
  shows "operation_definition f typ d p \<noteq> Inl OutOfFuel"
  unfolding operation_definition_def
proof (rule ok_then_fuel [OF advance_fuel], rule ok_then_fuel)
  fix p1 assume p1: "advance p = Inr p1"
  let ?named = "case tok p1 of
          Name n \<Rightarrow>
            if n \<in> set (opNames d) then Inl (TwoOperations n)
            else ok_then (advance p1) (\<lambda>p. Inr (n, d\<lparr>opNames := n # opNames d\<rparr>, p))
        | _ \<Rightarrow> Inr ([], d\<lparr>anonymous := True\<rparr>, p1)"
  show "?named \<noteq> Inl OutOfFuel" by (auto simp: ok_then_Inl split: token.split)
  fix x assume "?named = Inr x"
  then obtain n d1 p2 where x: "x = (n, d1, p2)" and p2: "?named = Inr (n, d1, p2)" by (cases x) auto
  have l2: "left p2 + 1 \<le> left p"
    using p2 advance_left [OF p1 t]
    by (auto simp: ok_then_Inr split: token.splits if_splits dest!: advance_left)
  show "(case x of (n, d, p) \<Rightarrow> ok_then (if is_punct ''('' p then variableDefinitions f p else Inr p) (\<lambda>p.
     ok_then (directives f False p) (\<lambda>p.
     ok_then (selectionSet f p) (\<lambda>(ss, p).
     Inr (d\<lparr>ops := ops d @ [(\<lparr>Type = typ, OpName = n, Fields = []\<rparr>, ss)]\<rparr>, p))))) \<noteq> Inl OutOfFuel"
    unfolding x prod.case
  proof (rule ok_then_fuel, goal_cases)
    case 1
    show ?case using variableDefinitions_fuel [of p2 f] l2 assms by simp
  next
    case (2 p3)
    then have l3: "left p3 \<le> left p2" by (auto split: if_splits dest!: variableDefinitions_left)
    have "directives f False p3 \<noteq> Inl OutOfFuel" using l2 l3 assms by (intro directives_fuel) simp
    moreover have "selectionSet f p4 \<noteq> Inl OutOfFuel" if "directives f False p3 = Inr p4" for p4
      using directives_left [OF that] l2 l3 assms by (intro selectionSet_fuel) simp
    ultimately show ?case by (auto simp: ok_then_Inl)
  qed
qed

lemma fragment_definition_left:
  "fragment_definition f d p = Inr (d', q) \<Longrightarrow> tok p \<noteq> EOF \<Longrightarrow> left q < left p"
  unfolding fragment_definition_def
  by (auto simp: ok_then_Inr unexpected_def split: if_splits option.splits
      dest!: advance_left fragmentName_left name_left directives_left selectionSet_left is_punct_tok)
    (auto simp: keyword_def)

lemma fragment_definition_fuel:
  assumes "2 * left p + 1 \<le> f" and t: "tok p \<noteq> EOF"
  shows "fragment_definition f d p \<noteq> Inl OutOfFuel"
proof -
  have fin: "ok_then (directives f False p4) (\<lambda>p. ok_then (selectionSet f p) (\<lambda>(ss, p).
      Inr (d\<lparr>fragments := (n, ss) # fragments d\<rparr>, p))) \<noteq> Inl OutOfFuel"
    if "advance p = Inr p1" "fragmentName p1 = Inr (n, p2)" "keyword ''on'' p2" "advance p2 = Inr p3"
      "name p3 = Inr (m, p4)" for p1 n p2 p3 m p4
  proof -
    have l: "left p4 + 4 \<le> left p"
      using that t advance_left [of p p1] fragmentName_left [of p1 n p2] advance_left [of p2 p3]
        name_left [of p3 m p4] by (simp add: keyword_def)
    then have "directives f False p4 \<noteq> Inl OutOfFuel" using assms by (intro directives_fuel) simp
    moreover have "selectionSet f p5 \<noteq> Inl OutOfFuel" if "directives f False p4 = Inr p5" for p5
      using directives_left [OF that] l assms by (intro selectionSet_fuel) simp
    ultimately show ?thesis by (auto simp: ok_then_Inl)
  qed
  have "fragmentName q \<noteq> Inl OutOfFuel" for q by (simp add: fragmentName_def unexpected_def)
  with fin show ?thesis
    unfolding fragment_definition_def by (auto simp: ok_then_Inl unexpected_def)
qed

text \<open>One definition: it is read without running out, and takes something.\<close>

lemma definitions_fuel: "2 * left p + 2 \<le> f \<Longrightarrow> definitions f d p \<noteq> Inl OutOfFuel"
proof (induction f d p rule: definitions.induct)
  case (2 f d p)
  show ?case
  proof (cases "tok p = EOF")
    case False
    let ?one = "if is_punct ''{'' p
           then ok_then (selectionSet f p) (\<lambda>(ss, p).
             Inr (d\<lparr>ops := ops d @ [(\<lparr>Type = ''query'', OpName = [], Fields = []\<rparr>, ss)],
                   anonymous := True\<rparr>, p))
           else case tok p of
               Name n \<Rightarrow>
                 if n = ''query'' \<or> n = ''mutation'' \<or> n = ''subscription''
                 then operation_definition f n d p
                 else if n = ''fragment'' then fragment_definition f d p
                 else unexpected ''an operation or a fragment'' p
             | _ \<Rightarrow> unexpected ''an operation or a fragment'' p"
    have "?one \<noteq> Inl OutOfFuel"
      using selectionSet_fuel [of p f] operation_definition_fuel [of p f _ d, OF _ False]
        fragment_definition_fuel [of p f d, OF _ False] "2.prems"
      by (auto simp: ok_then_Inl unexpected_def split: token.split)
    moreover have "left q < left p" if "?one = Inr (d', q)" for d' q
      using that False by (auto simp: ok_then_Inr unexpected_def split: if_splits token.splits
          dest: selectionSet_left operation_definition_left fragment_definition_left)
    moreover have "definitions f d' q \<noteq> Inl OutOfFuel" if "?one = Inr (d', q)" "left q < left p" for d' q
      using "2.IH" [OF False] that "2.prems" by simp
    ultimately show ?thesis
      unfolding definitions.simps if_not_P [OF False] by (rule_tac ok_then_fuel2) auto
  qed simp
qed simp

lemma parse_document_fuel: "parse_document doc \<noteq> Inl OutOfFuel"
  unfolding parse_document_def
proof (rule ok_then_fuel [OF advance_fuel])
  fix p assume "advance \<lparr>rest = doc, tok = EOF, depth = 0\<rparr> = Inr p"
  then have "left p \<le> length doc + 1"
    by (auto simp: advance_def left_def ok_then_Inr dest!: next_token_progress split: if_splits)
  then show "definitions (fuel_for doc) empty_document p \<noteq> Inl OutOfFuel"
    by (intro definitions_fuel) (simp add: fuel_for_def)
qed

end
