(* ===== verification/Graphql_Roots.thy ===== *)
theory Graphql_Roots
  imports Graphql_Total
begin

text \<open>
  The fields at an operation's root, \<open>roots\<close> of \<open>internal/graphql/parse.go\<close>, and \<open>Parse\<close>
  whole: \<open>walk\<close> follows inline fragments and fragment spreads, each fragment once, refuses a
  cycle of them, and gives up after \<open>maxFollowed\<close> selections over the whole document.

  \<open>root_field\<close> is what the walk is for, with no bookkeeping at all: the fields a server would
  find at the root. The lemmas show that a walk that succeeds names exactly those.
\<close>

section \<open>The walk\<close>

lemma ok_then_cong [fundef_cong]:
  "r = r' \<Longrightarrow> (\<And>x. r' = Inr x \<Longrightarrow> k x = k' x) \<Longrightarrow> ok_then r k = ok_then r' k'"
  by (cases r') auto

definition maxFollowed :: int where
  "maxFollowed = 16384"

record roots =
  followed :: int
  found :: "string list"
  seen :: "string set"
  visited :: "string set"
  spreading :: "string set"

type_synonym fragment_table = "(string \<times> selection list) list"

definition see :: "string \<Rightarrow> roots \<Rightarrow> roots" where
  "see n r = (if n \<in> seen r then r else r\<lparr>seen := insert n (seen r), found := found r @ [n]\<rparr>)"

lemma see_followed [simp]: "followed (see n r) = followed r"
  by (simp add: see_def)

function walk :: "fragment_table \<Rightarrow> selection list \<Rightarrow> roots \<Rightarrow> gql_error + roots" where
  "walk fs [] r = Inr r"
| "walk fs (s # ss) r =
     (let r = r\<lparr>followed := followed r + 1\<rparr> in
      if followed r > maxFollowed then Inl TooManySelections
      else
        ok_then
          (case s of
             Field n \<Rightarrow> Inr (see n r)
           | Spread n \<Rightarrow>
               if n \<in> spreading r then Inl (SelfSpread n)
               else if n \<in> visited r then Inr r
               else (case map_of fs n of
                   None \<Rightarrow> Inl (NoFragment n)
                 | Some f \<Rightarrow>
                     ok_then (walk fs f (r\<lparr>visited := insert n (visited r), spreading := insert n (spreading r)\<rparr>))
                       (\<lambda>r. Inr (r\<lparr>spreading := spreading r - {n}\<rparr>)))
           | Inline inner \<Rightarrow> walk fs inner r)
          (walk fs ss))"
  by pat_completeness auto

lemma walk_followed_dom:
  "walk_dom (fs, ss, r) \<Longrightarrow> walk fs ss r = Inr r' \<Longrightarrow> followed r \<le> followed r'"
proof (induction arbitrary: r' rule: walk.pinduct)
  case (2 fs s ss r)
  show ?case
    using 2 
    by (fastforce simp: walk.psimps Let_def ok_then_Inr split: if_splits selection.splits option.splits)
qed (simp add: walk.psimps)

termination walk
proof (relation "measure (\<lambda>(fs, ss, r). nat (maxFollowed + 1 - followed r))", goal_cases)
  case 1 then show ?case by simp
next
  case 2 then show ?case by simp
next
  case 3 then show ?case by simp
next
  case (4 fs s ss r x y)
  then show ?case
    by (auto simp: ok_then_Inr split: selection.splits option.splits if_splits)
      (fastforce dest: walk_followed_dom [rotated])+
qed

text \<open>The method \<open>of\<close>: a root afresh, the count of followed selections kept.\<close>

definition roots_of :: "fragment_table \<Rightarrow> selection list \<Rightarrow> int \<Rightarrow> gql_error + string list \<times> int" where
  "roots_of fs ss n =
     ok_then (walk fs ss \<lparr>followed = n, found = [], seen = {}, visited = {}, spreading = {}\<rparr>)
       (\<lambda>r. Inr (found r, followed r))"

fun operations_roots ::
    "fragment_table \<Rightarrow> (gql_operation \<times> selection list) list \<Rightarrow> int \<Rightarrow> gql_error + gql_operation list" where
  "operations_roots fs [] n = Inr []"
| "operations_roots fs ((o1, ss) # os) n =
     ok_then (roots_of fs ss n) (\<lambda>(fields, n).
     ok_then (operations_roots fs os n) (\<lambda>out. Inr (o1\<lparr>Fields := fields\<rparr> # out)))"

definition Parse :: "string \<Rightarrow> gql_error + gql_operation list" where
  "Parse doc =
     ok_then (parse_document doc) (\<lambda>d.
     if ops d = [] then Inl NoOperation
     else if anonymous d \<and> 1 < length (ops d) then Inl AnonymousAmongOthers
     else operations_roots (fragments d) (ops d) 0)"

section \<open>What the walk is for\<close>

inductive root_field :: "fragment_table \<Rightarrow> selection list \<Rightarrow> string \<Rightarrow> bool" for fs where
  "Field n \<in> set ss \<Longrightarrow> root_field fs ss n"
| "Inline inner \<in> set ss \<Longrightarrow> root_field fs inner n \<Longrightarrow> root_field fs ss n"
| "Spread m \<in> set ss \<Longrightarrow> map_of fs m = Some f \<Longrightarrow> root_field fs f n \<Longrightarrow> root_field fs ss n"

inductive_cases root_field_NilE [elim!]: "root_field fs [] n"

inductive spreads :: "selection list \<Rightarrow> string \<Rightarrow> bool" where
  "Spread m \<in> set ss \<Longrightarrow> spreads ss m"
| "Inline inner \<in> set ss \<Longrightarrow> spreads inner m \<Longrightarrow> spreads ss m"

inductive_cases spreads_NilE [elim!]: "spreads [] m"

lemma spreads_Nil [simp]: "\<not> spreads [] m"
  by auto

lemma spreads_Cons:
  "spreads (s # ss) m \<longleftrightarrow> (case s of Field _ \<Rightarrow> False | Spread n \<Rightarrow> m = n | Inline i \<Rightarrow> spreads i m) \<or> spreads ss m"
  using spreads.simps [of "s # ss" m] spreads.simps [of ss m] by (cases s) auto

inductive names_directly :: "selection list \<Rightarrow> string \<Rightarrow> bool" where
  "Field n \<in> set ss \<Longrightarrow> names_directly ss n"
| "Inline inner \<in> set ss \<Longrightarrow> names_directly inner n \<Longrightarrow> names_directly ss n"

inductive_cases names_directly_NilE [elim!]: "names_directly [] n"

lemma names_directly_Nil [simp]: "\<not> names_directly [] m"
  by auto

lemma names_directly_Cons:
  "names_directly (s # ss) m \<longleftrightarrow>
   (case s of Field n \<Rightarrow> m = n | Spread n \<Rightarrow> False | Inline i \<Rightarrow> names_directly i m) \<or> names_directly ss m"
  using names_directly.simps [of "s # ss" m] names_directly.simps [of ss m] by (cases s) auto

lemma root_field_Cons:
  "root_field fs (s # ss) n \<longleftrightarrow>
   (case s of Field m \<Rightarrow> n = m | Spread m \<Rightarrow> \<exists>f. map_of fs m = Some f \<and> root_field fs f n
    | Inline i \<Rightarrow> root_field fs i n) \<or> root_field fs ss n"
  using root_field.simps [of fs "s # ss" n] root_field.simps [of fs ss n] by (cases s) auto

text \<open>The edges of the fragments' graph, and the fragments a walk is done with.\<close>

definition edges :: "fragment_table \<Rightarrow> (string \<times> string) set" where
  "edges fs = {(a, b). \<exists>f. map_of fs a = Some f \<and> spreads f b}"

definition followed_all :: "roots \<Rightarrow> string set" where
  "followed_all r = visited r - spreading r"

definition walking :: "fragment_table \<Rightarrow> roots \<Rightarrow> bool" where
  "walking fs r \<longleftrightarrow> spreading r \<subseteq> visited r \<and> seen r = set (found r) \<and> distinct (found r) \<and>
     (\<forall>m \<in> followed_all r. \<exists>f. map_of fs m = Some f \<and> Collect (names_directly f) \<subseteq> seen r \<and>
        Collect (spreads f) \<subseteq> followed_all r) \<and>
     acyclic (edges fs \<inter> followed_all r \<times> UNIV)"

text \<open>A fragment all of whose spreads lead to fragments already found acyclic closes no cycle.\<close>

lemma acyclic_extend:
  assumes "acyclic E" "E \<subseteq> D \<times> D" "m \<notin> D" "S \<subseteq> D"
  shows "acyclic (E \<union> {m} \<times> S)"
proof (rule acyclicI, intro allI notI)
  let ?R = "E \<union> {m} \<times> S"
  have inside: "(x, y) \<in> E\<^sup>+" if "(x, y) \<in> ?R\<^sup>+" "x \<in> D" for x y
    using that
  proof induction
    case (base y)
    with assms show ?case by auto
  next
    case (step y z)
    then have "y \<in> D" using assms(2) trancl_subset_Sigma [of E D] by auto
    with step assms show ?case by (auto intro: trancl_into_trancl)
  qed
  have target: "y \<in> D" if "(x, y) \<in> ?R\<^sup>+" for x y
    using that assms by induction auto
  fix x assume x: "(x, x) \<in> ?R\<^sup>+"
  from inside [OF x target [OF x]] show False using assms(1) by (auto simp: acyclic_def)
qed


text \<open>A field named and a fragment entered or left keep what is known of a walk.\<close>

lemma followed_all_simps [simp]:
  "followed_all (r\<lparr>followed := n\<rparr>) = followed_all r"
  "followed_all (see x r) = followed_all r"
  by (simp_all add: followed_all_def see_def)

lemma see_simps [simp]:
  "seen (see n r) = insert n (seen r)" "visited (see n r) = visited r" "spreading (see n r) = spreading r"
  by (auto simp: see_def)

lemma walking_step [simp]: "walking fs (r\<lparr>followed := n\<rparr>) = walking fs r"
  by (simp add: walking_def)

lemma walking_see: "walking fs r \<Longrightarrow> walking fs (see n r)"
proof (cases "n \<in> seen r")
  case False
  moreover assume "walking fs r"
  ultimately show ?thesis
    unfolding walking_def by (simp add: see_def followed_all_def) blast
qed (simp add: see_def)

lemma walking_enter:
  assumes "walking fs r" "n \<notin> visited r"
  shows "walking fs (r\<lparr>visited := insert n (visited r), spreading := insert n (spreading r)\<rparr>)"
proof -
  have "followed_all (r\<lparr>visited := insert n (visited r), spreading := insert n (spreading r)\<rparr>) = followed_all r"
    using assms by (auto simp: followed_all_def)
  with assms show ?thesis by (auto simp: walking_def)
qed

lemma walking_leave:
  assumes w: "walking fs r" and n: "n \<in> spreading r" and f: "map_of fs n = Some f"
    and d: "Collect (names_directly f) \<subseteq> seen r" and s: "Collect (spreads f) \<subseteq> followed_all r"
  shows "walking fs (r\<lparr>spreading := spreading r - {n}\<rparr>)"
proof -
  let ?r = "r\<lparr>spreading := spreading r - {n}\<rparr>"
  have D: "followed_all ?r = insert n (followed_all r)" and new: "n \<notin> followed_all r"
    using w n by (auto simp: followed_all_def walking_def)
  have E: "edges fs \<inter> insert n (followed_all r) \<times> UNIV =
      (edges fs \<inter> followed_all r \<times> UNIV) \<union> {n} \<times> Collect (spreads f)"
    using f by (auto simp: edges_def)
  have "edges fs \<inter> followed_all r \<times> UNIV \<subseteq> followed_all r \<times> followed_all r"
    using w by (fastforce simp: walking_def edges_def)
  then have "acyclic (edges fs \<inter> followed_all ?r \<times> UNIV)"
    unfolding D E using w new s by (intro acyclic_extend) (auto simp: walking_def)
  moreover have "\<exists>f. map_of fs m = Some f \<and> Collect (names_directly f) \<subseteq> seen r \<and>
      Collect (spreads f) \<subseteq> followed_all ?r" if "m \<in> followed_all ?r" for m
    using that f d s w unfolding D walking_def by blast
  ultimately show ?thesis using w by (auto simp: walking_def)
qed

definition walked :: "fragment_table \<Rightarrow> selection list \<Rightarrow> roots \<Rightarrow> roots \<Rightarrow> bool" where
  "walked fs ss r r' \<longleftrightarrow> walking fs r' \<and> spreading r' = spreading r \<and> visited r \<subseteq> visited r' \<and>
     seen r \<subseteq> seen r' \<and> Collect (names_directly ss) \<subseteq> seen r' \<and> Collect (spreads ss) \<subseteq> followed_all r' \<and>
     seen r' \<subseteq> seen r \<union> Collect (root_field fs ss)"

lemma walked_trans:
  assumes "walked fs [s] r r1" "walked fs ss r1 r2"
  shows "walked fs (s # ss) r r2"
proof -
  have "Collect (names_directly (s # ss)) = Collect (names_directly [s]) \<union> Collect (names_directly ss)"
    "Collect (spreads (s # ss)) = Collect (spreads [s]) \<union> Collect (spreads ss)"
    "Collect (root_field fs (s # ss)) = Collect (root_field fs [s]) \<union> Collect (root_field fs ss)"
    by (auto simp: names_directly_Cons [of s ss] names_directly_Cons [of s "[]"]
        spreads_Cons [of s ss] spreads_Cons [of s "[]"]
        root_field_Cons [of fs s ss] root_field_Cons [of fs s "[]"])
  moreover have "followed_all r1 \<subseteq> followed_all r2"
    using assms by (auto simp: walked_def followed_all_def)
  ultimately show ?thesis
    using assms unfolding walked_def by (simp add: le_supI) blast
qed

lemma walk_walked: "walk fs ss r = Inr r' \<Longrightarrow> walking fs r \<Longrightarrow> walked fs ss r r'"
proof (induction fs ss r arbitrary: r' rule: walk.induct)
  case (1 fs r)
  then show ?case by (auto simp: walked_def)
next
  case (2 fs s ss r)
  define r0 where "r0 = r\<lparr>followed := followed r + 1\<rparr>"
  have w0: "walking fs r0" using 2 by (simp add: r0_def)
  have cnt: "\<not> maxFollowed < followed r0" using 2 by (auto simp: r0_def Let_def split: if_splits)
  let ?step = "case s of
             Field n \<Rightarrow> Inr (see n r0)
           | Spread n \<Rightarrow>
               if n \<in> spreading r0 then Inl (SelfSpread n)
               else if n \<in> visited r0 then Inr r0
               else (case map_of fs n of
                   None \<Rightarrow> Inl (NoFragment n)
                 | Some f \<Rightarrow>
                     ok_then (walk fs f (r0\<lparr>visited := insert n (visited r0), spreading := insert n (spreading r0)\<rparr>))
                       (\<lambda>r. Inr (r\<lparr>spreading := spreading r - {n}\<rparr>)))
           | Inline inner \<Rightarrow> walk fs inner r0"
  from "2.prems"(1) cnt obtain r1 where r1: "?step = Inr r1" and r': "walk fs ss r1 = Inr r'"
    by (auto simp: Let_def r0_def [symmetric] ok_then_Inr)
  have one: "walked fs [s] r r1"
  proof (cases s)
    case (Field n)
    with r1 w0 show ?thesis
      by (auto simp: walked_def walking_see names_directly_Cons spreads_Cons root_field_Cons r0_def)
  next
    case (Inline inner)
    then have "walked fs inner r0 r1"
      using "2.IH"(2) [OF r0_def cnt Inline] r1 w0 by simp
    with Inline show ?thesis
      by (auto simp: walked_def names_directly_Cons spreads_Cons root_field_Cons r0_def)
  next
    case (Spread n)
    show ?thesis
    proof (cases "n \<in> visited r0")
      case True
      with Spread r1 w0 show ?thesis
        by (auto simp: walked_def names_directly_Cons spreads_Cons root_field_Cons r0_def followed_all_def
            split: if_splits)
    next
      case False
      let ?r = "r0\<lparr>visited := insert n (visited r0), spreading := insert n (spreading r0)\<rparr>"
      have ns: "n \<notin> spreading r0" using w0 False by (auto simp: walking_def)
      from r1 Spread False ns obtain f r2 where f: "map_of fs n = Some f" and r2: "walk fs f ?r = Inr r2"
        and r1': "r1 = r2\<lparr>spreading := spreading r2 - {n}\<rparr>"
        by (auto simp: ok_then_Inr split: option.splits if_splits)
      have "walked fs f ?r r2"
        using "2.IH"(1) [OF r0_def cnt Spread ns False f r2] walking_enter [OF w0 False] by simp
      moreover from this have "walking fs r1"
        unfolding r1' by (intro walking_leave [OF _ _ f]) (auto simp: walked_def)
      ultimately show ?thesis
        using f Spread ns False
        by (auto simp: walked_def names_directly_Cons spreads_Cons root_field_Cons r0_def r1' followed_all_def)
    qed
  qed
  have "walked fs ss r1 r'"
    using "2.IH"(3) [OF r0_def cnt r1 r'] one by (simp add: walked_def)
  with one show ?case by (rule walked_trans)
qed


lemma walking_closed:
  "walking fs r \<Longrightarrow> m \<in> followed_all r \<Longrightarrow> map_of fs m = Some f \<Longrightarrow>
   Collect (names_directly f) \<subseteq> seen r \<and> Collect (spreads f) \<subseteq> followed_all r"
  by (fastforce simp: walking_def)

lemma root_field_found:
  "root_field fs ss n \<Longrightarrow> walking fs r \<Longrightarrow> Collect (names_directly ss) \<subseteq> seen r \<Longrightarrow>
   Collect (spreads ss) \<subseteq> followed_all r \<Longrightarrow> n \<in> seen r"
proof (induction ss n rule: root_field.induct)
  case (1 n ss)
  then show ?case by (auto intro: names_directly.intros(1))
next
  case (2 inner ss n)
  then show ?case by (metis (no_types, lifting) Collect_mono dual_order.trans names_directly.intros(2) spreads.intros(2))
next
  case (3 m ss f n)
  then have "m \<in> followed_all r" by (auto intro: spreads.intros(1))
  with walking_closed [OF 3(5) this 3(2)] 3 show ?case by blast
qed

text \<open>What one root gives: each field once, and every fragment it reaches defined and on no cycle.\<close>

lemma roots_of_fields:
  assumes "roots_of fs ss k = Inr (ns, k')"
  shows "distinct ns \<and> set ns = Collect (root_field fs ss) \<and>
    (\<forall>a b. spreads ss a \<longrightarrow> (a, b) \<in> (edges fs)\<^sup>* \<longrightarrow> map_of fs b \<noteq> None \<and> (b, b) \<notin> (edges fs)\<^sup>+)"
proof -
  let ?r = "\<lparr>followed = k, found = [], seen = {}, visited = {}, spreading = {}\<rparr>"
  from assms obtain r where r: "walk fs ss ?r = Inr r" and f: "ns = found r"
    by (auto simp: roots_of_def ok_then_Inr)
  have w: "walked fs ss ?r r"
    by (rule walk_walked [OF r]) (simp add: walking_def followed_all_def acyclic_def)
  then have ok: "walking fs r" and sp: "spreading r = {}" by (simp_all add: walked_def)
  have set: "set ns = Collect (root_field fs ss)"
    using w root_field_found [OF _ ok] by (auto simp: f walked_def walking_def)
  have closed: "b \<in> followed_all r" if "a \<in> followed_all r" "(a, b) \<in> (edges fs)\<^sup>*" for a b
    using that(2,1)
  proof induction
    case (step y z)
    from step(2) obtain f where "map_of fs y = Some f" "spreads f z" by (auto simp: edges_def)
    with walking_closed [OF ok] step show ?case by blast
  qed
  have "map_of fs b \<noteq> None \<and> (b, b) \<notin> (edges fs)\<^sup>+" if "spreads ss a" "(a, b) \<in> (edges fs)\<^sup>*" for a b
  proof -
    have b: "b \<in> followed_all r" using that w closed by (auto simp: walked_def)
    have cyc: "(b, c) \<in> (edges fs \<inter> followed_all r \<times> UNIV)\<^sup>+" if "(b, c) \<in> (edges fs)\<^sup>+" for c
      using that
    proof induction
      case (step y z)
      from step(1) have "y \<in> followed_all r" by (intro closed [OF b] trancl_into_rtrancl)
      with step show ?case by (auto intro: trancl_into_trancl)
    qed (use b in auto)
    have "map_of fs b \<noteq> None" using b ok by (fastforce simp: walking_def)
    moreover have "(b, b) \<notin> (edges fs)\<^sup>+" using cyc [of b] ok by (auto simp: walking_def acyclic_def)
    ultimately show ?thesis by simp
  qed
  moreover have "distinct ns" using ok f by (simp add: walking_def)
  ultimately show ?thesis using set by blast
qed

lemma operations_roots_all:
  "operations_roots fs os k = Inr out \<Longrightarrow>
   list_all2 (\<lambda>(o1, ss) p. Type p = Type o1 \<and> OpName p = OpName o1 \<and> distinct (Fields p) \<and>
      set (Fields p) = Collect (root_field fs ss)) os out"
  by (induction fs os k arbitrary: out rule: operations_roots.induct)
    (auto simp: ok_then_Inr dest: roots_of_fields)

lemma operations_roots_reach:
  "operations_roots fs os k = Inr out \<Longrightarrow> (o1, ss) \<in> set os \<Longrightarrow> spreads ss a \<Longrightarrow> (a, b) \<in> (edges fs)\<^sup>* \<Longrightarrow>
   map_of fs b \<noteq> None \<and> (b, b) \<notin> (edges fs)\<^sup>+"
proof (induction fs os k arbitrary: out rule: operations_roots.induct)
  case (2 fs o2 ss2 os n)
  then obtain ns n' out' where "roots_of fs ss2 n = Inr (ns, n')" "operations_roots fs os n' = Inr out'"
    by (auto simp: ok_then_Inr)
  with 2 roots_of_fields show ?case by (metis Pair_inject set_ConsD)
qed simp

lemma walk_bound:
  "walk fs ss r = Inr r' \<Longrightarrow> followed r \<le> maxFollowed \<Longrightarrow>
   followed r' \<le> maxFollowed \<and> int (length (found r')) - int (length (found r)) \<le> followed r' - followed r"
proof (induction fs ss r arbitrary: r' rule: walk.induct)
  case (2 fs s ss r)
  let ?r = "r\<lparr>followed := followed r + 1\<rparr>"
  have cnt: "\<not> followed ?r > maxFollowed" using 2 by (auto simp: Let_def split: if_splits)
  let ?step = "case s of
             Field n \<Rightarrow> Inr (see n ?r)
           | Spread n \<Rightarrow>
               if n \<in> spreading ?r then Inl (SelfSpread n)
               else if n \<in> visited ?r then Inr ?r
               else (case map_of fs n of
                   None \<Rightarrow> Inl (NoFragment n)
                 | Some f \<Rightarrow>
                     ok_then (walk fs f (?r\<lparr>visited := insert n (visited ?r), spreading := insert n (spreading ?r)\<rparr>))
                       (\<lambda>r. Inr (r\<lparr>spreading := spreading r - {n}\<rparr>)))
           | Inline inner \<Rightarrow> walk fs inner ?r"
  from "2.prems"(1) cnt obtain r1 where r1: "?step = Inr r1" and r': "walk fs ss r1 = Inr r'"
    by (auto simp: Let_def ok_then_Inr)
  have "followed r1 \<le> maxFollowed \<and> int (length (found r1)) - int (length (found r)) \<le> followed r1 - followed r"
  proof (cases s)
    case (Field n)
    with r1 cnt show ?thesis by (auto simp: see_def)
  next
    case (Inline inner)
    with r1 cnt "2.IH"(2) [OF refl cnt Inline] show ?thesis by fastforce
  next
    case (Spread n)
    with r1 cnt "2.IH"(1) [OF refl cnt Spread] show ?thesis
      by (fastforce simp: ok_then_Inr split: if_splits option.splits)
  qed
  with "2.IH"(3) [OF refl cnt r1 r'] show ?case by fastforce
qed simp

lemma roots_of_bound:
  "roots_of fs ss k = Inr (ns, k') \<Longrightarrow> k \<le> maxFollowed \<Longrightarrow>
   k' \<le> maxFollowed \<and> k + int (length ns) \<le> k'"
  by (auto simp: roots_of_def ok_then_Inr dest!: walk_bound)

lemma operations_roots_bound:
  "operations_roots fs os k = Inr out \<Longrightarrow> k \<le> maxFollowed \<Longrightarrow>
   k + int (sum_list (map (\<lambda>p. length (Fields p)) out)) \<le> maxFollowed"
  by (induction fs os k arbitrary: out rule: operations_roots.induct)
    (fastforce simp: ok_then_Inr dest: roots_of_bound)+

lemma walk_fuel: "walk fs ss r \<noteq> Inl OutOfFuel"
proof (induction fs ss r rule: walk.induct)
  case (2 fs s ss r)
  then show ?case by (cases s) (auto simp: Let_def ok_then_Inl split: option.splits)
qed simp

lemma operations_roots_fuel: "operations_roots fs os k \<noteq> Inl OutOfFuel"
  by (induction fs os k rule: operations_roots.induct) (auto simp: ok_then_Inl roots_of_def walk_fuel)

lemma Parse_parts:
  "Parse doc = Inr out \<longleftrightarrow> (\<exists>d. parse_document doc = Inr d \<and> ops d \<noteq> [] \<and>
     (anonymous d \<longrightarrow> length (ops d) \<le> 1) \<and> operations_roots (fragments d) (ops d) 0 = Inr out)"
  unfolding Parse_def by (cases "parse_document doc") auto

definition example_parsed :: document where
  "example_parsed =
    \<lparr>ops = [(\<lparr>Type = ''query'', OpName = ''Q'', Fields = []\<rparr>, [Spread ''F'', Field ''b''])],
     fragments = [(''F'', [Field ''a'', Inline [Field ''b'']])], opNames = [''Q''], anonymous = False\<rparr>"

section \<open>What a document's operations are\<close>

text \<open>
  C29: reading a document ends: with the fuel a document of its length is given, the parser
  answers with operations or with one of the errors of the source, and never by running out.
\<close>

theorem Parse_total: "Parse doc \<noteq> Inl OutOfFuel"
  by (auto simp: Parse_def ok_then_Inl parse_document_fuel operations_roots_fuel)

text \<open>
  C13: the fields an operation is said to have are those at its root. When \<open>Parse\<close> answers, it
  names at least one operation, one alone when any is anonymous; and each with its type, its
  name, and, each once, exactly the fields its root reaches through inline fragments and
  fragment spreads, whatever the sharing between fragments.
\<close>

theorem Parse_fields:
  assumes "Parse doc = Inr out"
  shows "\<exists>d. parse_document doc = Inr d \<and> out \<noteq> [] \<and> (anonymous d \<longrightarrow> length out = 1) \<and>
    list_all2 (\<lambda>(o1, ss) p. Type p = Type o1 \<and> OpName p = OpName o1 \<and> distinct (Fields p) \<and>
      set (Fields p) = Collect (root_field (fragments d) ss)) (ops d) out"
proof -
  from assms obtain d where d: "parse_document doc = Inr d" "ops d \<noteq> []" "anonymous d \<longrightarrow> length (ops d) \<le> 1"
    and r: "operations_roots (fragments d) (ops d) 0 = Inr out"
    by (auto simp: Parse_parts)
  note all = operations_roots_all [OF r]
  have "length (ops d) = length out" using list_all2_lengthD [OF all] .
  with d have "out \<noteq> []" "anonymous d \<longrightarrow> length out = 1" by (cases "ops d"; cases out; auto)+
  with d all show ?thesis by blast
qed

theorem Parse_fields_witness:
  "\<exists>d. parse_document ''query Q{...F b}fragment F on T{a ...{b}}'' = Inr d \<and>
    list_all2 (\<lambda>(o1, ss) p. distinct (Fields p) \<and> set (Fields p) = Collect (root_field (fragments d) ss))
      (ops d) [\<lparr>Type = ''query'', OpName = ''Q'', Fields = [''a'', ''b'']\<rparr>]"
proof -
  have "Parse ''query Q{...F b}fragment F on T{a ...{b}}'' =
      Inr [\<lparr>Type = ''query'', OpName = ''Q'', Fields = [''a'', ''b'']\<rparr>]"
    by code_simp
  from Parse_fields [OF this] show ?thesis
    by (auto elim!: list_all2_mono)
qed

text \<open>
  A cycle of fragments is refused, however long. In a document \<open>Parse\<close> answers for, every
  fragment an operation reaches by spreads is defined and spreads itself through no others.
\<close>

theorem Parse_no_cycles:
  assumes "Parse doc = Inr out" "parse_document doc = Inr d" "(o1, ss) \<in> set (ops d)"
    and "spreads ss a" "(a, b) \<in> (edges (fragments d))\<^sup>*"
  shows "map_of (fragments d) b \<noteq> None \<and> (b, b) \<notin> (edges (fragments d))\<^sup>+"
  using assms operations_roots_reach by (fastforce simp: Parse_parts)

theorem Parse_no_cycles_witness:
  "map_of (fragments example_parsed) ''F'' \<noteq> None \<and> (''F'', ''F'') \<notin> (edges (fragments example_parsed))\<^sup>+"
proof (rule Parse_no_cycles)
  show "Parse ''query Q{...F b}fragment F on T{a ...{b}}'' =
      Inr [\<lparr>Type = ''query'', OpName = ''Q'', Fields = [''a'', ''b'']\<rparr>]"
    by code_simp
  show "parse_document ''query Q{...F b}fragment F on T{a ...{b}}'' = Inr example_parsed"
    by code_simp
  show "(\<lparr>Type = ''query'', OpName = ''Q'', Fields = []\<rparr>, [Spread ''F'', Field ''b'']) \<in> set (ops example_parsed)"
    by (simp add: example_parsed_def)
qed (auto simp: spreads_Cons)

text \<open>
  What \<open>Parse\<close> answers with is bounded whatever fragments share: over all the operations of a
  document together it names at most \<open>maxFollowed\<close> fields.
\<close>

theorem Parse_bounded:
  assumes "Parse doc = Inr out"
  shows "sum_list (map (\<lambda>p. length (Fields p)) out) \<le> 16384"
proof -
  from assms obtain fs os where "operations_roots fs os 0 = Inr out" by (auto simp: Parse_parts)
  from operations_roots_bound [OF this] show ?thesis by (simp add: maxFollowed_def)
qed

theorem Parse_bounded_witness:
  "sum_list (map (\<lambda>p. length (Fields p)) [\<lparr>Type = ''query'', OpName = [], Fields = [''a'']\<rparr>]) \<le> 16384"
  by (rule Parse_bounded [of "''{a}''"]) code_simp

end
