(* ===== verification/Scope_GraphQL.thy ===== *)
theory Scope_GraphQL
  imports Scope_Model Graphql_Roots
begin

text \<open>
  A GraphQL endpoint: \<open>graphql.Read\<close>, \<open>internal/graphql/request.go\<close>, which reads a request's
  body, and \<open>internal/intercept/graphql.go\<close>, which decides it.

  Three pieces of Go's library are parameters. \<open>json\<close> is what \<open>json.Decoder\<close> gives for a body:
  whether its first token opens an object, the object's members as the decoder meets them, and
  how it ends. \<open>media\<close> is \<open>mime.ParseMediaType\<close>, and \<open>why\<close> the text of an error, which goes to
  the log.
\<close>

section \<open>Reading a body\<close>

datatype json_value = JString string | JNull | JOther

datatype json_item = Member string json_value | BadMember

datatype json_end = Closed | Broken | ClosedWithMore

type_synonym json_decoder = "string \<Rightarrow> (json_item list \<times> json_end) option"

datatype read_error =
  NotUTF8
| SurrogateEscape
| NotAnObject
| NotJSON
| KeyTwice string
| QueryNotString
| NameNotString
| MoreAfter
| NoQuery
| BadDocument gql_error

record request =
  Operations :: "gql_operation list"
  Unseen :: string

text \<open>The byte with its \<open>0x20\<close> bit set is \<open>d\<close>: a \<open>D\<close> of either case.\<close>

fun escapedSurrogate :: "string \<Rightarrow> bool" where
  "escapedSurrogate (a # b # s) =
     (if a \<noteq> BACKSLASH then escapedSurrogate (b # s)
      else if b = CHR ''u'' \<and>
          (case s of
             h1 # h2 # _ # _ # _ \<Rightarrow> h1 \<in> {CHR ''d'', CHR ''D''} \<and> hexVal h2 \<ge> 8
           | _ \<Rightarrow> False) then True
      else escapedSurrogate s)"
| "escapedSurrogate _ = False"

text \<open>The loop over the object's members: the query, the first key not known, and the keys.\<close>

fun read_members ::
    "string option \<Rightarrow> string \<Rightarrow> string list \<Rightarrow> json_item list \<Rightarrow> read_error + string option \<times> string" where
  "read_members query unseen keys [] = Inr (query, unseen)"
| "read_members query unseen keys (BadMember # items) = Inl NotJSON"
| "read_members query unseen keys (Member key v # items) =
     (if key \<in> set keys then Inl (KeyTwice key)
      else if key = ''query'' then
        (case v of
           JString s \<Rightarrow> read_members (Some s) unseen (key # keys) items
         | JNull \<Rightarrow> read_members (Some []) unseen (key # keys) items
         | JOther \<Rightarrow> Inl QueryNotString)
      else if key = ''operationName'' then
        (if v = JOther then Inl NameNotString else read_members query unseen (key # keys) items)
      else
        read_members query
          (if key \<noteq> ''variables'' \<and> unseen = [] then ''key '' @ QUOTE # key @ [QUOTE] else unseen)
          (key # keys) items)"

definition Read :: "json_decoder \<Rightarrow> string \<Rightarrow> read_error + request" where
  "Read json body =
     (if \<not> ValidString body then Inl NotUTF8
      else if escapedSurrogate body then Inl SurrogateEscape
      else case json body of
        None \<Rightarrow> Inl NotAnObject
      | Some (items, e) \<Rightarrow>
          ok_then (read_members None [] [] items) (\<lambda>(query, unseen).
          case e of
            Broken \<Rightarrow> Inl NotJSON
          | ClosedWithMore \<Rightarrow> Inl MoreAfter
          | Closed \<Rightarrow>
              (case query of
                 None \<Rightarrow> Inl NoQuery
               | Some q \<Rightarrow>
                   (case Parse q of
                      Inl err \<Rightarrow> Inl (BadDocument err)
                    | Inr out \<Rightarrow> Inr \<lparr>Operations = out, Unseen = unseen\<rparr>))))"

section \<open>Compiling an endpoint\<close>

datatype graphql_compile_error = GraphQLPath path_error | NoIdOrSummary | NoField

definition check_rule :: "graphql_rule \<Rightarrow> graphql_compile_error option" where
  "check_rule r =
     (case gr_operation r of
        Some o' \<Rightarrow> if op_ID o' = [] \<or> op_Summary o' = [] then Some NoIdOrSummary else None
      | None \<Rightarrow> None)"

text \<open>The loop over the fields, in the order the map gives them.\<close>

fun check_fields :: "(string \<times> graphql_rule) list \<Rightarrow> graphql_compile_error option" where
  "check_fields [] = None"
| "check_fields ((field, r) # rules) =
     (if field = [] then Some NoField
      else case check_rule r of Some e \<Rightarrow> Some e | None \<Rightarrow> check_fields rules)"

definition compileGraphQL :: "unicode \<Rightarrow> graphql_scope \<Rightarrow> graphql_compile_error + compiled_graphql" where
  "compileGraphQL U g =
     (case compilePath U \<lparr>Methods = [''POST''], Prefix = [], Path = gs_Path g, EncodedSlashes = False,
          AskFlag = False, RefuseFlag = False, Operation = None, Docker = None\<rparr> of
        Inl e \<Rightarrow> Inl (GraphQLPath e)
      | Inr p \<Rightarrow>
          (case (case gs_Query g of None \<Rightarrow> None | Some r \<Rightarrow> check_rule r) of
             Some e \<Rightarrow> Inl e
           | None \<Rightarrow>
               (case check_fields (gs_Mutations g @ gs_Subscriptions g) of
                  Some e \<Rightarrow> Inl e
                | None \<Rightarrow>
                    Inr \<lparr>cg_path = p, cg_query = gs_Query g, cg_mutations = gs_Mutations g,
                      cg_subscriptions = gs_Subscriptions g, cg_unmatched = gs_Unmatched g\<rparr>)))"

text \<open>Whether a path read leniently may reach the endpoint: the last segment of the template
  against a segment cut at its first dot.\<close>

definition near :: "compiled_graphql \<Rightarrow> string list \<Rightarrow> bool" where
  "near g ss =
     (let t = folded (cg_path g) in
      \<not> length ss < length t \<and>
      list_all (\<lambda>i. matchesFolded_segment (t ! i)
          (if i = length t - 1 then fst (Cut CHR ''.'' (ss ! i)) else ss ! i)) [0..<length t])"

section \<open>Deciding a request\<close>

definition clip :: "string \<Rightarrow> string" where
  "clip s = (if length s > 200 then take 200 s @ ''...'' else s)"

definition ruled :: "graphql_rule \<Rightarrow> verdict" where
  "ruled r =
     (if gr_outcome r = Refuse then Verdict Refuse ReasonRefused (gr_operation r)
      else Verdict (gr_outcome r) ''graphql'' (gr_operation r))"

definition unknown :: "compiled_graphql \<Rightarrow> verdict" where
  "unknown g =
     (case cg_unmatched g of
        Ask \<Rightarrow> Verdict Ask RuleUnmatched None
      | Admit \<Rightarrow> Verdict Admit RuleUnmatched None
      | Refuse \<Rightarrow> Verdict Refuse ReasonOutOfScope None)"

definition unseen_verdict :: "compiled_graphql \<Rightarrow> verdict" where
  "unseen_verdict g =
     (if cg_unmatched g = Refuse then (Verdict Refuse ReasonUnclassified None)\<lparr>v_unseen := True\<rparr>
      else (Verdict Ask RuleUnmatched None)\<lparr>v_unseen := True\<rparr>)"

definition unclassified :: "compiled_graphql \<Rightarrow> string \<Rightarrow> verdict" where
  "unclassified g w = (unseen_verdict g)\<lparr>v_graphql := clip (''unread: '' @ w)\<rparr>"

fun join :: "string \<Rightarrow> string list \<Rightarrow> string" where
  "join sep [] = []"
| "join sep [s] = s"
| "join sep (s # t # ss) = s @ sep @ join sep (t # ss)"

record classifying =
  decided_so_far :: "verdict option"
  ops_so_far :: "operation list"
  read_so_far :: "string list"
  unnamed :: "string list"

definition consider_verdict :: "verdict \<Rightarrow> classifying \<Rightarrow> classifying" where
  "consider_verdict v st =
     st\<lparr>decided_so_far :=
          (case decided_so_far st of
             None \<Rightarrow> Some v
           | Some d \<Rightarrow> if strictness (v_outcome v) > strictness (v_outcome d) then Some v else Some d),
        ops_so_far :=
          (case v_operation v of
             None \<Rightarrow> ops_so_far st
           | Some o' \<Rightarrow> if o' \<in> set (ops_so_far st) then ops_so_far st else ops_so_far st @ [o'])\<rparr>"

definition rules_of :: "compiled_graphql \<Rightarrow> string \<Rightarrow> (string \<times> graphql_rule) list" where
  "rules_of g typ =
     (if typ = ''mutation'' then cg_mutations g else if typ = ''subscription'' then cg_subscriptions g else [])"

definition classify_field :: "compiled_graphql \<Rightarrow> string \<Rightarrow> string \<Rightarrow> classifying \<Rightarrow> classifying" where
  "classify_field g typ f st =
     (case map_of (rules_of g typ) f of
        Some rule \<Rightarrow> consider_verdict (ruled rule) st
      | None \<Rightarrow> consider_verdict (unknown g) (st\<lparr>unnamed := unnamed st @ [f]\<rparr>))"

definition classify_operation :: "compiled_graphql \<Rightarrow> gql_operation \<Rightarrow> classifying \<Rightarrow> classifying" where
  "classify_operation g p st =
     (if Type p = ''query'' then
        (let st = st\<lparr>read_so_far := read_so_far st @ [''query'']\<rparr> in
         case cg_query g of
           None \<Rightarrow> consider_verdict (unknown g) (st\<lparr>unnamed := unnamed st @ [''query'']\<rparr>)
         | Some r \<Rightarrow> consider_verdict (ruled r) st)
      else
        fold (classify_field g (Type p)) (Fields p)
          (st\<lparr>read_so_far := read_so_far st @ [Type p @ '' '' @ join '','' (Fields p)]\<rparr>))"

definition classify :: "compiled_graphql \<Rightarrow> request \<Rightarrow> verdict" where
  "classify g req =
     (let st = fold (classify_operation g) (Operations req)
            \<lparr>decided_so_far = None, ops_so_far = [], read_so_far = [], unnamed = []\<rparr>;
          st = (if Unseen req \<noteq> []
            then consider_verdict (unseen_verdict g) (st\<lparr>read_so_far := read_so_far st @ [''unseen: '' @ Unseen req]\<rparr>)
            else st)
      in case decided_so_far st of
           None \<Rightarrow> unclassified g ''no field''
         | Some v \<Rightarrow>
             v\<lparr>v_operations := (if length (ops_so_far st) > 1 then ops_so_far st else v_operations v),
               v_unseen := (v_unseen v \<or> Unseen req \<noteq> []),
               v_graphql := clip (join ''; ''
                 (if unnamed st \<noteq> [] then read_so_far st @ [''unnamed '' @ join '','' (unnamed st)]
                  else read_so_far st))\<rparr>)"

section \<open>The request's body\<close>

text \<open>A request: whether it has no body at all, the bytes of it that arrive, and whether reading
  then fails.\<close>

record http_request =
  hr_Method :: string
  hr_RawQuery :: string
  hr_ContentEncoding :: "string list"
  hr_ContentType :: "string list"
  hr_NoBody :: bool
  hr_Body :: string
  hr_fails :: bool
  hr_ContentLength :: int
  hr_TransferEncoding :: "string list"

definition maxClassifiedBody :: int where
  "maxClassifiedBody = 1048576"

datatype body_read = ReadFailed | TooLong | Whole string

text \<open>What is read is put back: a body read whole is sent as it was read, with its length; a
  longer one is what was read and then the rest.\<close>

definition readUpTo :: "http_request \<Rightarrow> int \<Rightarrow> body_read \<times> http_request" where
  "readUpTo r most =
     (if hr_NoBody r then (Whole [], r)
      else if int (length (hr_Body r)) > most then (TooLong, r)
      else if hr_fails r then (ReadFailed, r)
      else (Whole (hr_Body r),
        r\<lparr>hr_ContentLength := int (length (hr_Body r)), hr_TransferEncoding := []\<rparr>))"

definition isJSON :: "(string \<Rightarrow> (string \<times> (string \<times> string) list) option) \<Rightarrow> string list \<Rightarrow> bool" where
  "isJSON media values =
     (case values of
        [v] \<Rightarrow>
          (case media v of
             None \<Rightarrow> False
           | Some (t, params) \<Rightarrow>
               t = ''application/json'' \<and>
               list_all (\<lambda>(k, v). k = ''charset'' \<and> map ascii_lower v = ''utf-8'') params)
      | _ \<Rightarrow> False)"

definition graphql_decide ::
    "json_decoder \<Rightarrow> (string \<Rightarrow> (string \<times> (string \<times> string) list) option) \<Rightarrow> (read_error \<Rightarrow> string) \<Rightarrow>
     compiled_graphql \<Rightarrow> http_request \<Rightarrow> verdict \<times> http_request" where
  "graphql_decide json media why g r =
     (if hr_Method r \<noteq> ''POST'' then (unclassified g ''not a POST'', r)
      else if hr_RawQuery r \<noteq> [] then (unclassified g ''a query string'', r)
      else if hr_ContentEncoding r \<noteq> [] then (unclassified g ''a Content-Encoding'', r)
      else if \<not> isJSON media (hr_ContentType r) then (unclassified g ''not application/json'', r)
      else case readUpTo r maxClassifiedBody of
        (ReadFailed, r) \<Rightarrow> (Verdict Refuse ReasonStoppedWaiting None, r)
      | (TooLong, r) \<Rightarrow> (unclassified g ''over 1048576 bytes'', r)
      | (Whole body, r) \<Rightarrow>
          (case Read json body of
             Inl err \<Rightarrow> (unclassified g (why err), r)
           | Inr req \<Rightarrow> (classify g req, r)))"


section \<open>What reading a body shows\<close>

text \<open>A body with nothing unseen holds no key but the three the reader knows, each once.\<close>

fun member_key :: "json_item \<Rightarrow> string" where
  "member_key (Member k v) = k"
| "member_key BadMember = []"

lemma read_members_unseen:
  "read_members query unseen keys items = Inr (q, u) \<Longrightarrow>
   (unseen \<noteq> [] \<longrightarrow> u \<noteq> []) \<and>
   (u = [] \<longrightarrow> member_key ` set items \<subseteq> {''query'', ''operationName'', ''variables''}) \<and>
   distinct (map member_key items) \<and> member_key ` set items \<inter> set keys = {}"
proof (induction query unseen keys items rule: read_members.induct)
  case (3 query unseen keys key v items)
  have fresh: "key \<notin> set keys" using "3.prems" by (auto split: if_splits)
  consider (query) "key = ''query''" | (name) "key = ''operationName''"
    | (other) "key \<noteq> ''query''" "key \<noteq> ''operationName''" by blast
  then show ?case
  proof cases
    case query
    with fresh "3.IH"(1,2) "3.prems" show ?thesis by (cases v) auto
  next
    case name
    with fresh "3.IH"(3) "3.prems" show ?thesis by (auto split: if_splits)
  next
    case other
    with fresh "3.IH"(4) "3.prems" show ?thesis by (auto split: if_splits)
  qed
qed auto

section \<open>What classifying decides\<close>

definition stricter_or_eq :: "outcome \<Rightarrow> verdict option \<Rightarrow> bool" where
  "stricter_or_eq oc d \<longleftrightarrow> (\<exists>v. d = Some v \<and> strictness oc \<le> strictness (v_outcome v))"

lemma consider_unnamed [simp]: "decided_so_far (st\<lparr>unnamed := xs\<rparr>) = decided_so_far st"
  "decided_so_far (st\<lparr>read_so_far := xs\<rparr>) = decided_so_far st"
  by simp_all

lemma consider_covers: "v_outcome v = oc \<Longrightarrow> stricter_or_eq oc (decided_so_far (consider_verdict v st))"
  by (auto simp: consider_verdict_def stricter_or_eq_def split: option.split)

lemma consider_keeps:
  "stricter_or_eq oc (decided_so_far st) \<Longrightarrow> stricter_or_eq oc (decided_so_far (consider_verdict v st))"
  by (auto simp: consider_verdict_def stricter_or_eq_def split: option.splits)

definition held_outcome :: "compiled_graphql \<Rightarrow> string \<Rightarrow> string \<Rightarrow> outcome" where
  "held_outcome g typ f =
     (case map_of (rules_of g typ) f of Some r \<Rightarrow> gr_outcome r | None \<Rightarrow> cg_unmatched g)"

definition query_outcome :: "compiled_graphql \<Rightarrow> outcome" where
  "query_outcome g = (case cg_query g of Some r \<Rightarrow> gr_outcome r | None \<Rightarrow> cg_unmatched g)"

lemma ruled_outcome [simp]: "v_outcome (ruled r) = gr_outcome r"
  by (simp add: ruled_def)

lemma unknown_outcome [simp]: "v_outcome (unknown g) = cg_unmatched g"
  by (simp add: unknown_def split: outcome.split)

lemma unseen_outcome: "v_outcome (unseen_verdict g) \<noteq> Admit"
  by (simp add: unseen_verdict_def)

lemma unclassified_outcome: "v_outcome (unclassified g w) \<noteq> Admit"
  by (simp add: unclassified_def unseen_outcome)

lemma classify_field_covers: "stricter_or_eq (held_outcome g typ f) (decided_so_far (classify_field g typ f st))"
  by (auto simp: classify_field_def held_outcome_def intro!: consider_covers split: option.split)

lemma classify_field_keeps:
  "stricter_or_eq oc (decided_so_far st) \<Longrightarrow> stricter_or_eq oc (decided_so_far (classify_field g typ f st))"
  by (auto simp: classify_field_def intro: consider_keeps split: option.split)

lemma fold_keeps:
  "(\<And>x st. P st \<Longrightarrow> P (f x st)) \<Longrightarrow> P st \<Longrightarrow> P (fold f xs st)"
  by (induction xs arbitrary: st) auto

lemma fold_covers:
  "(\<And>st. P (f x st)) \<Longrightarrow> (\<And>y st. P st \<Longrightarrow> P (f y st)) \<Longrightarrow> x \<in> set xs \<Longrightarrow> P (fold f xs st)"
  by (induction xs arbitrary: st) (auto intro: fold_keeps)

lemma classify_operation_keeps:
  "stricter_or_eq oc (decided_so_far st) \<Longrightarrow> stricter_or_eq oc (decided_so_far (classify_operation g p st))"
  using fold_keeps [where P = "\<lambda>st. stricter_or_eq oc (decided_so_far st)" and f = "classify_field g (Type p)"
      and xs = "Fields p" and st = "st\<lparr>read_so_far := xs\<rparr>" for xs] classify_field_keeps
  by (auto simp: classify_operation_def Let_def intro!: consider_keeps split: option.split)

lemma classify_operation_covers:
  "Type p = ''query'' \<Longrightarrow> stricter_or_eq (query_outcome g) (decided_so_far (classify_operation g p st))"
  "Type p \<noteq> ''query'' \<Longrightarrow> f \<in> set (Fields p) \<Longrightarrow>
   stricter_or_eq (held_outcome g (Type p) f) (decided_so_far (classify_operation g p st))"
proof -
  assume "Type p = ''query''"
  then show "stricter_or_eq (query_outcome g) (decided_so_far (classify_operation g p st))"
    by (auto simp: classify_operation_def query_outcome_def Let_def intro!: consider_covers split: option.split)
next
  assume "Type p \<noteq> ''query''" "f \<in> set (Fields p)"
  then show "stricter_or_eq (held_outcome g (Type p) f) (decided_so_far (classify_operation g p st))"
    unfolding classify_operation_def
    by (auto intro!: fold_covers [where P = "\<lambda>st. stricter_or_eq (held_outcome g (Type p) f) (decided_so_far st)"
          and x = f] classify_field_covers classify_field_keeps)
qed

text \<open>The outcomes a request holds: each query's, each field's, and what it may run unseen.\<close>

definition held_by :: "compiled_graphql \<Rightarrow> request \<Rightarrow> outcome set" where
  "held_by g req =
     {query_outcome g |p. p \<in> set (Operations req) \<and> Type p = ''query''} \<union>
     {held_outcome g (Type p) f |p f. p \<in> set (Operations req) \<and> Type p \<noteq> ''query'' \<and> f \<in> set (Fields p)} \<union>
     {v_outcome (unseen_verdict g) |_::unit. Unseen req \<noteq> []}"

lemma held_by_field:
  "p \<in> set (Operations req) \<Longrightarrow> Type p \<noteq> ''query'' \<Longrightarrow> f \<in> set (Fields p) \<Longrightarrow>
   held_outcome g (Type p) f \<in> held_by g req"
  unfolding held_by_def by (intro UnI1 UnI2 CollectI exI [of _ p] exI [of _ f]) simp

definition starting :: classifying where
  "starting = \<lparr>decided_so_far = None, ops_so_far = [], read_so_far = [], unnamed = []\<rparr>"

definition classified :: "compiled_graphql \<Rightarrow> request \<Rightarrow> classifying" where
  "classified g req =
     (let st = fold (classify_operation g) (Operations req) starting in
      if Unseen req \<noteq> []
      then consider_verdict (unseen_verdict g) (st\<lparr>read_so_far := read_so_far st @ [''unseen: '' @ Unseen req]\<rparr>)
      else st)"

lemma classify_outcome:
  "v_outcome (classify g req) =
   (case decided_so_far (classified g req) of
      None \<Rightarrow> v_outcome (unclassified g ''no field'') | Some v \<Rightarrow> v_outcome v)"
  by (simp add: classify_def classified_def starting_def Let_def split: option.split)

lemma classified_covers: "oc \<in> held_by g req \<Longrightarrow> stricter_or_eq oc (decided_so_far (classified g req))"
proof -
  assume "oc \<in> held_by g req"
  then consider (op) p where "p \<in> set (Operations req)"
      "Type p = ''query'' \<and> oc = query_outcome g \<or>
       Type p \<noteq> ''query'' \<and> (\<exists>f\<in>set (Fields p). oc = held_outcome g (Type p) f)"
    | (unseen) "Unseen req \<noteq> []" "oc = v_outcome (unseen_verdict g)"
    by (auto simp: held_by_def)
  then show ?thesis
  proof cases
    case op
    have "stricter_or_eq oc (decided_so_far (fold (classify_operation g) (Operations req) starting))"
      by (rule fold_covers [where P = "\<lambda>st. stricter_or_eq oc (decided_so_far st)", OF _ _ op(1)])
        (use op(2) in \<open>auto intro: classify_operation_covers classify_operation_keeps\<close>)
    then show ?thesis by (auto simp: classified_def Let_def intro: consider_keeps)
  next
    case unseen
    then show ?thesis by (auto simp: classified_def Let_def intro: consider_covers)
  qed
qed

definition within :: "outcome set \<Rightarrow> classifying \<Rightarrow> bool" where
  "within S st \<longleftrightarrow> (\<forall>v. decided_so_far st = Some v \<longrightarrow> v_outcome v \<in> S)"

lemma within_consider: "within S st \<Longrightarrow> v_outcome v \<in> S \<Longrightarrow> within S (consider_verdict v st)"
  by (auto simp: within_def consider_verdict_def split: option.split)

lemma within_updates [simp]:
  "within S (st\<lparr>unnamed := xs\<rparr>) = within S st" "within S (st\<lparr>read_so_far := xs\<rparr>) = within S st"
  by (simp_all add: within_def)

lemma within_fold: "(\<And>x st. x \<in> set xs \<Longrightarrow> within S st \<Longrightarrow> within S (f x st)) \<Longrightarrow> within S st \<Longrightarrow> within S (fold f xs st)"
  by (induction xs arbitrary: st) auto

lemma within_field: "within S st \<Longrightarrow> held_outcome g typ f \<in> S \<Longrightarrow> within S (classify_field g typ f st)"
  by (auto simp: classify_field_def held_outcome_def intro!: within_consider split: option.splits)

lemma within_operation:
  assumes "within S st" and "Type p = ''query'' \<Longrightarrow> query_outcome g \<in> S"
    and "\<And>f. Type p \<noteq> ''query'' \<Longrightarrow> f \<in> set (Fields p) \<Longrightarrow> held_outcome g (Type p) f \<in> S"
  shows "within S (classify_operation g p st)"
proof (cases "Type p = ''query''")
  case True
  with assms show ?thesis
    by (auto simp: classify_operation_def query_outcome_def Let_def intro!: within_consider split: option.splits)
next
  case False
  with assms show ?thesis by (auto simp: classify_operation_def intro!: within_fold within_field)
qed

lemma classified_within: "within (held_by g req) (classified g req)"
proof -
  have "within (held_by g req) (fold (classify_operation g) (Operations req) starting)"
    by (intro within_fold within_operation) (auto simp: held_by_def, simp add: within_def starting_def)
  then show ?thesis
    by (auto simp: classified_def Let_def held_by_def intro!: within_consider)
qed

text \<open>
  A GraphQL request is decided by the strictest of everything it holds. Whatever operations a
  document has, the outcome is one it holds, of a query, of a field at a root or of what it may
  run unseen, and none it holds is stricter; and a request that holds nothing is unclassified.
\<close>

theorem classify_strictest:
  "if held_by g req = {} then v_outcome (classify g req) = v_outcome (unclassified g ''no field'')
   else v_outcome (classify g req) \<in> held_by g req \<and>
     strictness (v_outcome (classify g req)) = Max (strictness ` held_by g req)"
proof (cases "held_by g req = {}")
  case True
  with classified_within [of g req] have "decided_so_far (classified g req) = None"
    by (cases "decided_so_far (classified g req)") (auto simp: within_def)
  with True show ?thesis by (simp add: classify_outcome)
next
  case False
  then obtain oc where oc: "oc \<in> held_by g req" by auto
  from classified_covers [OF this] obtain v where v: "decided_so_far (classified g req) = Some v"
    by (auto simp: stricter_or_eq_def)
  then have out: "v_outcome (classify g req) = v_outcome v" by (simp add: classify_outcome)
  have mem: "v_outcome v \<in> held_by g req" using classified_within [of g req] v by (simp add: within_def)
  have le: "strictness o' \<le> strictness (v_outcome v)" if "o' \<in> held_by g req" for o'
    using classified_covers [OF that] v by (simp add: stricter_or_eq_def)
  have fin: "finite (UNIV :: outcome set)"
    by (rule finite_subset [of _ "{Refuse, Admit, Ask}"]) (auto intro: outcome.exhaust)
  have "Max (strictness ` held_by g req) = strictness (v_outcome v)"
    by (rule Max_eqI) (use mem le finite_subset [OF _ fin] in auto)
  with False mem out show ?thesis by simp
qed

lemma classify_admit:
  assumes "v_outcome (classify g req) = Admit" "oc \<in> held_by g req"
  shows "oc = Admit"
proof -
  obtain v where "decided_so_far (classified g req) = Some v" "strictness oc \<le> strictness (v_outcome v)"
    using classified_covers [OF assms(2)] by (auto simp: stricter_or_eq_def)
  with assms(1) show ?thesis by (cases oc) (simp_all add: classify_outcome)
qed

section \<open>What an endpoint admits\<close>

lemma read_members_query:
  "read_members query unseen keys items = Inr (q, u) \<Longrightarrow> q = Some s \<Longrightarrow>
   query = Some s \<or> Member ''query'' (JString s) \<in> set items \<or> s = []"
  by (induction query unseen keys items rule: read_members.induct) (auto split: if_splits json_value.splits)

lemma Parse_empty: "Parse [] = Inl NoOperation"
  by code_simp

lemma case_Inr:
  "(case x of Inl e \<Rightarrow> Inl (f e) | Inr y \<Rightarrow> Inr (h y)) = Inr z \<longleftrightarrow> (\<exists>y. x = Inr y \<and> h y = z)"
  by (cases x) auto

lemma Read_Inr:
  assumes "Read json body = Inr req"
  shows "\<exists>items s. json body = Some (items, Closed) \<and> Member ''query'' (JString s) \<in> set items \<and>
    distinct (map member_key items) \<and> Parse s = Inr (Operations req) \<and>
    (Unseen req = [] \<longrightarrow> member_key ` set items \<subseteq> {''query'', ''operationName'', ''variables''})"
proof -
  from assms obtain items q u s where j: "json body = Some (items, Closed)"
    and m: "read_members None [] [] items = Inr (q, u)" and q: "q = Some s"
    and p: "Parse s = Inr (Operations req)" and u: "Unseen req = u"
    by (auto simp: Read_def ok_then_Inr case_Inr split: if_splits option.splits json_end.splits)
  have "s \<noteq> []" using p Parse_empty by auto
  then have "Member ''query'' (JString s) \<in> set items" using read_members_query [OF m q] by simp
  then show ?thesis using read_members_unseen [OF m] j p u by auto
qed

definition sent_body :: "http_request \<Rightarrow> string" where
  "sent_body r = (if hr_NoBody r then [] else hr_Body r)"

text \<open>What is admitted: read whole, and every part of it.\<close>

lemma graphql_decide_Admit:
  assumes "v_outcome (fst (graphql_decide json media why g r)) = Admit"
  shows "hr_Method r = ''POST'' \<and> hr_RawQuery r = [] \<and> hr_ContentEncoding r = [] \<and>
    isJSON media (hr_ContentType r) \<and>
    (\<exists>items s d. json (sent_body r) = Some (items, Closed) \<and> distinct (map member_key items) \<and>
      member_key ` set items \<subseteq> {''query'', ''operationName'', ''variables''} \<and>
      Member ''query'' (JString s) \<in> set items \<and> parse_document s = Inr d \<and>
      (\<forall>(o1, ss)\<in>set (ops d). if Type o1 = ''query'' then query_outcome g = Admit
        else \<forall>f. root_field (fragments d) ss f \<longrightarrow> held_outcome g (Type o1) f = Admit))"
proof -
  have no: "v_outcome (unclassified g w) = Admit \<longleftrightarrow> False" for w by (simp add: unclassified_outcome)
  from assms have head: "hr_Method r = ''POST''" "hr_RawQuery r = []" "hr_ContentEncoding r = []"
    "isJSON media (hr_ContentType r)"
    by (auto simp: graphql_decide_def no split: if_splits)
  with assms obtain req where req: "Read json (sent_body r) = Inr req"
    and c: "v_outcome (classify g req) = Admit"
    by (auto simp: graphql_decide_def readUpTo_def sent_body_def no split: if_splits sum.splits)
  from Read_Inr [OF req] obtain items s where items: "json (sent_body r) = Some (items, Closed)"
    "Member ''query'' (JString s) \<in> set items" "distinct (map member_key items)"
    "Unseen req = [] \<longrightarrow> member_key ` set items \<subseteq> {''query'', ''operationName'', ''variables''}"
    and p: "Parse s = Inr (Operations req)"
    by blast
  have "Unseen req = []"
    using classify_admit [OF c, of "v_outcome (unseen_verdict g)"] unseen_outcome [of g]
    by (auto simp: held_by_def)
  moreover from p obtain d where d: "parse_document s = Inr d"
    and all: "list_all2 (\<lambda>(o1, ss) p. Type p = Type o1 \<and> OpName p = OpName o1 \<and> distinct (Fields p) \<and>
      set (Fields p) = Collect (root_field (fragments d) ss)) (ops d) (Operations req)"
    using operations_roots_all by (auto simp: Parse_parts)
  moreover have "if Type o1 = ''query'' then query_outcome g = Admit
        else \<forall>f. root_field (fragments d) ss f \<longrightarrow> held_outcome g (Type o1) f = Admit"
    if o1: "(o1, ss) \<in> set (ops d)" for o1 ss
  proof -
    from o1 obtain i where i: "i < length (ops d)" "ops d ! i = (o1, ss)" by (auto simp: in_set_conv_nth)
    let ?p = "Operations req ! i"
    have p: "?p \<in> set (Operations req)" "Type ?p = Type o1" "set (Fields ?p) = Collect (root_field (fragments d) ss)"
      using list_all2_nthD [OF all i(1)] i list_all2_lengthD [OF all] by auto
    show ?thesis
    proof (cases "Type o1 = ''query''")
      case True
      then have "query_outcome g \<in> held_by g req" using p by (auto simp: held_by_def)
      with True show ?thesis using classify_admit [OF c] by simp
    next
      case False
      have "held_outcome g (Type o1) f = Admit" if "root_field (fragments d) ss f" for f
      proof (rule classify_admit [OF c])
        from that have "f \<in> set (Fields ?p)" using p by simp
        then have "held_outcome g (Type ?p) f \<in> held_by g req" using p False by (intro held_by_field) simp_all
        then show "held_outcome g (Type o1) f \<in> held_by g req" using p by simp
      qed
      with False show ?thesis by simp
    qed
  qed
  ultimately show ?thesis using head items by (intro conjI exI [of _ items] exI [of _ s] exI [of _ d]) auto
qed

text \<open>
  C10: what a GraphQL endpoint admits, it has read whole and every part of it is admitted. An
  admitted request is a POST of JSON with no query string and no content encoding, whose body is
  one object of known keys, each once; its document parses; a query in it is one the endpoint
  admits; and every field the root of a mutation or subscription reaches, through fragments of
  whatever sharing, has a rule that admits it or no rule where the endpoint admits the unmatched.
\<close>

theorem graphql_admits:
  assumes "v_outcome (fst (graphql_decide json media why g r)) = Admit"
  shows "hr_Method r = ''POST'' \<and> hr_RawQuery r = [] \<and> hr_ContentEncoding r = [] \<and>
    isJSON media (hr_ContentType r) \<and>
    (\<exists>items s d. json (sent_body r) = Some (items, Closed) \<and> distinct (map member_key items) \<and>
      member_key ` set items \<subseteq> {''query'', ''operationName'', ''variables''} \<and>
      Member ''query'' (JString s) \<in> set items \<and> parse_document s = Inr d \<and>
      (\<forall>(o1, ss)\<in>set (ops d). if Type o1 = ''query'' then query_outcome g = Admit
        else \<forall>f. root_field (fragments d) ss f \<longrightarrow> held_outcome g (Type o1) f = Admit))"
  by (rule graphql_decide_Admit [OF assms])

definition example_endpoint :: compiled_graphql where
  "example_endpoint =
     \<lparr>cg_path = \<lparr>methods = [''POST''], segs = [''graphql''], folded = [''graphql''], exact = True,
        encodedSlashes = False, outcome = Admit, operation = None, docker = None, named = False\<rparr>,
      cg_query = None, cg_mutations = [(''a'', \<lparr>gr_outcome = Admit, gr_operation = None\<rparr>)],
      cg_subscriptions = [], cg_unmatched = Refuse\<rparr>"

definition example_post :: http_request where
  "example_post =
     \<lparr>hr_Method = ''POST'', hr_RawQuery = [], hr_ContentEncoding = [], hr_ContentType = [''application/json''],
      hr_NoBody = False, hr_Body = ''{...}'', hr_fails = False, hr_ContentLength = 5, hr_TransferEncoding = []\<rparr>"

theorem graphql_admits_witness:
  "hr_Method example_post = ''POST'' \<and>
   v_outcome (fst (graphql_decide (\<lambda>_. Some ([Member ''query'' (JString ''mutation{a}'')], Closed))
     (\<lambda>t. Some (t, [])) (\<lambda>_. []) example_endpoint example_post)) = Admit"
proof -
  have a: "v_outcome (fst (graphql_decide (\<lambda>_. Some ([Member ''query'' (JString ''mutation{a}'')], Closed))
     (\<lambda>t. Some (t, [])) (\<lambda>_. []) example_endpoint example_post)) = Admit"
    by code_simp
  from graphql_admits [OF a] a show ?thesis by blast
qed

end
