(* ===== verification/Scope_Decide.thy ===== *)
theory Scope_Decide
  imports Scope_V2 Scope_GraphQL
begin

text \<open>
  A scope whole, \<open>internal/intercept/scope.go\<close>: \<open>compileScope\<close>, which checks what a
  configuration says, and \<open>decided\<close>, which answers a request by git, by GraphQL, and by a
  version 1 or version 2 scope's rules, in that order. A version 1 scope's own rules are here.

  A request is its method, its path as it was escaped and its raw query. \<open>twin\<close> is a test's
  and is not modelled.
\<close>

section \<open>Compiling a scope\<close>

datatype scope_error =
  BadUnmatched
| V1WithV2Parts
| OperationAsksOrRefuses
| NoOperationNamed
| ScopePath path_error
| GitRepos
| BadRepo repo_error
| ScopeGraphQL graphql_compile_error
| GraphQLTwice
| APINeeds
| AdmitsNothing

definition compile_endpoint :: "unicode \<Rightarrow> endpoint \<Rightarrow> scope_error + compiled_path" where
  "compile_endpoint U e =
     (if AskFlag (e_rule e) \<or> RefuseFlag (e_rule e) then Inl OperationAsksOrRefuses
      else if Operation (e_rule e) = None then Inl NoOperationNamed
      else
        ok_then (lift_error ScopePath (compilePath U (e_rule e))) (\<lambda>cp.
        let cp = cp\<lparr>outcome := e_Outcome e, named := e_Named e\<rparr> in
        Inr (case Docker (e_rule e) of
            None \<Rightarrow> cp
          | Some d \<Rightarrow> cp\<lparr>docker := Some \<lparr>dr_check = d, dr_operation = Operation (e_rule e)\<rparr>\<rparr>)))"

definition check_repos :: "repo list \<Rightarrow> scope_error + unit" where
  "check_repos rs =
     ok_then (all_ok (\<lambda>r. case validate r of None \<Rightarrow> Inr () | Some e \<Rightarrow> Inl (BadRepo e)) rs) (\<lambda>_. Inr ())"

definition check_git :: "git_scope option \<Rightarrow> scope_error + unit" where
  "check_git g =
     (case g of
        None \<Rightarrow> Inr ()
      | Some g \<Rightarrow> if AnyRepo g \<noteq> (Repos g = []) then Inl GitRepos else check_repos (Repos g))"

text \<open>The loop over the endpoints: each compiled, and none at a template before it.\<close>

fun compile_graphqls ::
    "unicode \<Rightarrow> compiled_graphql list \<Rightarrow> graphql_scope list \<Rightarrow> scope_error + compiled_graphql list" where
  "compile_graphqls U cgs [] = Inr cgs"
| "compile_graphqls U cgs (g # gs) =
     ok_then (lift_error ScopeGraphQL (compileGraphQL U g)) (\<lambda>cg.
     if list_ex (\<lambda>other. segs (cg_path other) = segs (cg_path cg)) cgs then Inl GraphQLTwice
     else compile_graphqls U (cgs @ [cg]) gs)"

definition compile_api :: "unicode \<Rightarrow> github_api_scope option \<Rightarrow> scope_error + github_api_scope option" where
  "compile_api U a =
     (case a of
        None \<Rightarrow> Inr None
      | Some a \<Rightarrow>
          if api_Repos a = [] \<or> api_Methods a = [] then Inl APINeeds
          else ok_then (check_repos (api_Repos a)) (\<lambda>_.
            Inr (Some (a\<lparr>api_Methods := upper U (api_Methods a)\<rparr>))))"

definition compileScope :: "unicode \<Rightarrow> scope \<Rightarrow> scope_error + compiled" where
  "compileScope U s =
     (if sc_Unmatched s = UnmatchedAdmit \<and> \<not> sc_V2 s then Inl BadUnmatched
      else if \<not> sc_V2 s \<and> (sc_Operations s \<noteq> [] \<or> sc_Ceiling s \<noteq> None) then Inl V1WithV2Parts
      else
        ok_then (all_ok (compile_endpoint U) (sc_Operations s)) (\<lambda>os.
        ok_then (all_ok (\<lambda>p. lift_error ScopePath (compilePath U p)) (sc_Paths s)) (\<lambda>ps.
        ok_then (check_git (sc_Git s)) (\<lambda>_.
        ok_then (compile_graphqls U [] (sc_GraphQL s)) (\<lambda>gs.
        ok_then (compile_api U (sc_GitHubAPI s)) (\<lambda>a.
        if ps = [] \<and> os = [] \<and> sc_Git s = None \<and> gs = [] \<and> a = None \<and> sc_Unmatched s = UnmatchedRefuse
        then Inl AdmitsNothing
        else Inr \<lparr>paths = ps, git = sc_Git s, graphql = gs, api = a, cs_unmatched = sc_Unmatched s,
          v2 = sc_V2 s, cs_ops = os,
          ceiling = (case sc_Ceiling s of None \<Rightarrow> [] | Some m \<Rightarrow> m)\<rparr>))))))"

section \<open>Version 1\<close>

definition stricterLeniently :: "unicode \<Rightarrow> compiled \<Rightarrow> string \<Rightarrow> string list \<Rightarrow> outcome \<Rightarrow> compiled_path list" where
  "stricterLeniently U c meth ss than =
     (let (whole, split) = lenient U ss in
      SortStableFunc (by_outcome (\<lambda>p. p, outcome) (max (length whole) (length split)))
        (filter (\<lambda>p. strictness (outcome p) > strictness than \<and> meth \<in> set (methods p) \<and>
            (matchesFolded p whole \<or> matchesFolded p split)) (paths c)))"

definition v1_verdict :: "unicode \<Rightarrow> compiled \<Rightarrow> string \<Rightarrow> string list \<Rightarrow> compiled_path \<Rightarrow> verdict" where
  "v1_verdict U c meth ss best =
     (case find (\<lambda>p. \<not> outranks best p (length ss)) (stricterLeniently U c meth ss (outcome best)) of
        Some p \<Rightarrow> path_verdict p
      | None \<Rightarrow> path_verdict best)"

definition decideV1 :: "unicode \<Rightarrow> compiled \<Rightarrow> string \<Rightarrow> string list \<Rightarrow> string list \<Rightarrow> verdict" where
  "decideV1 U c meth ss raw =
     (let best = best_kind (paths c) meth (length ss) (\<lambda>p. matches p ss raw) in
      case best True of
        Some p \<Rightarrow> v1_verdict U c meth ss p
      | None \<Rightarrow>
          (case best False of
             Some p \<Rightarrow> v1_verdict U c meth ss p
           | None \<Rightarrow>
               if api_admits c meth ss then
                 (case stricterLeniently U c meth ss Admit of
                    p # _ \<Rightarrow> path_verdict p
                  | [] \<Rightarrow> Verdict Admit ''github-api'' None)
               else if cs_unmatched c = UnmatchedAsk then
                 (case stricterLeniently U c meth ss Ask of
                    p # _ \<Rightarrow> path_verdict p
                  | [] \<Rightarrow> Verdict Ask RuleUnmatched None)
               else Verdict Refuse ReasonOutOfScope None))"

section \<open>A request\<close>

definition reaches_graphql :: "unicode \<Rightarrow> string list \<Rightarrow> string list \<Rightarrow> compiled_graphql \<Rightarrow> bool" where
  "reaches_graphql U ss raw g \<longleftrightarrow>
     (let (whole, split) = lenient U ss in matches (cg_path g) ss raw \<or> near g whole \<or> near g split)"

definition decided :: "unicode \<Rightarrow> compiled \<Rightarrow> string \<Rightarrow> string \<Rightarrow> string \<Rightarrow> verdict" where
  "decided U c meth escaped rawQuery =
     (case splitPath escaped of
        None \<Rightarrow> Verdict Refuse ReasonBadPath None
      | Some ss \<Rightarrow>
          let raw = Split CHR ''/'' (tl escaped) in
          (case (case git c of None \<Rightarrow> None | Some g \<Rightarrow> git_decide g meth ss rawQuery) of
             Some v \<Rightarrow> v
           | None \<Rightarrow>
               (case find (reaches_graphql U ss raw) (graphql c) of
                  Some g \<Rightarrow> (Verdict Refuse ''graphql body unread'' None)\<lparr>v_deferred := DeferGraphQL g\<rparr>
                | None \<Rightarrow>
                    if v2 c then decideV2 U c meth ss raw else decideV1 U c meth ss raw)))"

datatype answer_error = AnswerScope scope_error | AnswerTarget

record answered =
  a_Outcome :: outcome
  a_Reason :: string
  a_Operation :: string
  a_Deferred :: string

text \<open>\<open>Answer\<close>: \<open>target\<close> is what \<open>url.ParseRequestURI\<close> makes of a request target, its escaped path
  and raw query.\<close>

definition Answer ::
    "unicode \<Rightarrow> (string \<Rightarrow> (string \<times> string) option) \<Rightarrow> scope \<Rightarrow> string \<Rightarrow> string \<Rightarrow> answer_error + answered" where
  "Answer U target s meth t =
     ok_then (lift_error AnswerScope (compileScope U s)) (\<lambda>c.
     case target t of
       None \<Rightarrow> Inl AnswerTarget
     | Some (escaped, rawQuery) \<Rightarrow>
         let v = decided U c meth escaped rawQuery;
             id_of = (\<lambda>op d. case op of None \<Rightarrow> d | Some o' \<Rightarrow> op_ID o');
             op = id_of (v_operation v) []
         in Inr (case v_deferred v of
              NotDeferred \<Rightarrow>
                \<lparr>a_Outcome = v_outcome v, a_Reason = v_reason v, a_Operation = op, a_Deferred = []\<rparr>
            | DeferGraphQL _ \<Rightarrow>
                \<lparr>a_Outcome = v_outcome v, a_Reason = v_reason v, a_Operation = op, a_Deferred = ''graphql''\<rparr>
            | DeferDocker d \<Rightarrow>
                \<lparr>a_Outcome = v_outcome v, a_Reason = v_reason v, a_Operation = id_of (dr_operation d) op,
                 a_Deferred = ''docker''\<rparr>))"

section \<open>Compiling: lemmas\<close>

text \<open>A rule as \<open>compilePath\<close> leaves it: a template for every segment, the folded one beside it,
  and every \<open>*\<close> a whole segment or before a verb.\<close>

definition wf_path :: "compiled_path \<Rightarrow> bool" where
  "wf_path p \<longleftrightarrow>
     length (folded p) = length (segs p) \<and> methods p \<noteq> [] \<and>
     (\<forall>i<length (segs p). segs p ! i = [] \<longrightarrow> exact p \<and> i = length (segs p) - 1) \<and>
     list_all (\<lambda>t. CHR ''*'' \<in> set t \<longrightarrow> t = wildcard \<or> (\<exists>v. t = ''*:'' @ v \<and> validVerb v)) (segs p) \<and>
     (encodedSlashes p \<longrightarrow> (\<exists>t\<in>set (segs p). CHR ''*'' \<in> set t))"

lemma template_segment_None:
  "template_segment t \<noteq> None \<Longrightarrow> CHR ''*'' \<in> set t \<Longrightarrow> t = wildcard \<or> (\<exists>v. t = ''*:'' @ v \<and> validVerb v)"
  by (auto simp: template_segment_def verb_def CutPrefix_Some split: if_splits option.splits)

lemma template_segment_True: "template_segment t = Some True \<Longrightarrow> CHR ''*'' \<in> set t"
  by (auto simp: template_segment_def verb_def CutPrefix_Some wildcard_def split: if_splits option.splits)


lemma if_Inl_Inr: "(if b then Inl e else r) = Inr x \<longleftrightarrow> \<not> b \<and> r = Inr x"
  by simp

lemma case_None_Inr:
  "(case x of None \<Rightarrow> Inl e | Some y \<Rightarrow> k y) = Inr z \<longleftrightarrow> (\<exists>y. x = Some y \<and> k y = Inr z)"
  by (cases x) auto

lemma compilePath_wf:
  assumes "compilePath U r = Inr p"
  shows "wf_path p" and "operation p = Operation r" and "\<not> named p"
    and "docker p \<noteq> None \<longrightarrow> outcome p = Admit"
proof -
  let ?ex = "Path r \<noteq> []"
  from assms obtain ss0 where a: "splitPath (if ?ex then Path r else Prefix r) = Some ss0"
    and rest: "let ss = (if ss0 \<noteq> [] \<and> last ss0 = [] \<and> \<not> ?ex then butlast ss0 else ss0);
        oc = (if AskFlag r then Ask else if RefuseFlag r then Refuse else Admit) in
      Methods r \<noteq> [] \<and> \<not> ([] \<in> set (butlast ss) \<or> \<not> ?ex \<and> [] \<in> set ss) \<and>
      \<not> list_ex (\<lambda>seg. template_segment seg = None) ss \<and>
      \<not> (EncodedSlashes r \<and> \<not> list_ex (\<lambda>seg. template_segment seg = Some True) ss) \<and>
      p = \<lparr>methods = upper U (Methods r), segs = ss,
          folded = map (\<lambda>seg. if seg \<noteq> wildcard then fold_seg U seg else seg) ss,
          exact = ?ex, encodedSlashes = EncodedSlashes r, outcome = oc, operation = Operation r,
          docker = (case Docker r of None \<Rightarrow> None
            | Some d \<Rightarrow> if oc = Admit then Some \<lparr>dr_check = d, dr_operation = Operation r\<rparr> else None),
          named = False\<rparr>"
    unfolding compilePath_def Let_def if_Inl_Inr case_None_Inr sum.inject by (elim conjE exE) blast
  define ss where "ss = (if ss0 \<noteq> [] \<and> last ss0 = [] \<and> \<not> ?ex then butlast ss0 else ss0)"
  define ex where "ex = ?ex"
  note rest = rest [folded ex_def, folded ss_def, unfolded Let_def, folded ss_def]
  have m: "Methods r \<noteq> []"
    and e: "\<not> ([] \<in> set (butlast ss) \<or> \<not> ex \<and> [] \<in> set ss)"
    and t: "\<not> list_ex (\<lambda>seg. template_segment seg = None) ss"
    and w: "\<not> (EncodedSlashes r \<and> \<not> list_ex (\<lambda>seg. template_segment seg = Some True) ss)"
    and p: "p = (let oc = (if AskFlag r then Ask else if RefuseFlag r then Refuse else Admit) in
                \<lparr>methods = upper U (Methods r), segs = ss,
                  folded = map (\<lambda>seg. if seg \<noteq> wildcard then fold_seg U seg else seg) ss,
                  exact = ex, encodedSlashes = EncodedSlashes r, outcome = oc, operation = Operation r,
                  docker = (case Docker r of None \<Rightarrow> None
                    | Some d \<Rightarrow> if oc = Admit then Some \<lparr>dr_check = d, dr_operation = Operation r\<rparr> else None),
                  named = False\<rparr>)"
    using rest unfolding ss_def ex_def Let_def by blast+
  have "exact p \<and> i = length ss - 1" if "i < length ss" "ss ! i = []" for i
  proof -
    have "ex" using e that by (metis nth_mem)
    moreover have "\<not> i < length ss - 1"
    proof
      assume i: "i < length ss - 1"
      then have "butlast ss ! i = []" using that by (simp add: nth_butlast)
      moreover have "i < length (butlast ss)" using i by simp
      ultimately show False using e nth_mem by metis
    qed
    ultimately show ?thesis using that p by (simp add: Let_def)
  qed
  moreover have "segs p = ss" "length (folded p) = length ss" "methods p \<noteq> []" "encodedSlashes p = EncodedSlashes r"
    using m by (simp_all add: p Let_def upper_def)
  moreover have "CHR ''*'' \<in> set x \<longrightarrow> x = wildcard \<or> (\<exists>v. x = ''*:'' @ v \<and> validVerb v)" if "x \<in> set ss" for x
    using t that template_segment_None [of x] by (auto simp: list_ex_iff)
  moreover have "\<exists>x\<in>set ss. CHR ''*'' \<in> set x" if "EncodedSlashes r"
    using w that template_segment_True by (auto simp: list_ex_iff)
  ultimately show "wf_path p" by (simp add: wf_path_def list_all_iff)
  show "operation p = Operation r" "\<not> named p" "docker p \<noteq> None \<longrightarrow> outcome p = Admit"
    by (auto simp: p Let_def split: option.splits)
qed

lemma check_repos_Inr: "check_repos rs = Inr u \<Longrightarrow> r \<in> set rs \<Longrightarrow> validate r = None"
  by (auto simp: check_repos_def ok_then_Inr dest!: all_ok_all split: option.splits)

lemma wf_path_update [simp]: "wf_path (p\<lparr>outcome := oc, named := nm\<rparr>) = wf_path p"
  "wf_path (p\<lparr>docker := d\<rparr>) = wf_path p"
  by (simp_all add: wf_path_def)

lemma compile_endpoint_wf:
  "compile_endpoint U e = Inr p \<Longrightarrow> wf_path p \<and> operation p \<noteq> None \<and> outcome p = e_Outcome e"
  by (auto simp: compile_endpoint_def ok_then_Inr Let_def compilePath_wf dest: compilePath_wf(2)
      split: if_splits option.splits)

lemma compile_graphqls_distinct:
  "compile_graphqls U cgs gs = Inr out \<Longrightarrow> distinct (map (\<lambda>g. segs (cg_path g)) cgs) \<Longrightarrow>
   distinct (map (\<lambda>g. segs (cg_path g)) out)"
  by (induction U cgs gs rule: compile_graphqls.induct)
    (fastforce simp: ok_then_Inr list_ex_iff split: if_splits)+

section \<open>Version 1: lemmas\<close>

lemma find_first_le:
  assumes "sorted_wrt R xs" "\<And>x. R x x" "find P xs = Some q" "p \<in> set xs" "P p"
  shows "R q p"
  using assms(1,3-5) by (induction xs) (auto simp: assms(2) split: if_splits)

lemma stricterLeniently_set:
  "p \<in> set (stricterLeniently U c meth ss than) \<longleftrightarrow>
   p \<in> set (paths c) \<and> strictness (outcome p) > strictness than \<and> meth \<in> set (methods p) \<and>
   (matchesFolded p (fst (lenient U ss)) \<or> matchesFolded p (snd (lenient U ss)))"
  by (cases "lenient U ss") (auto simp: stricterLeniently_def)

lemma stricterLeniently_sorted:
  "sorted_wrt (\<lambda>a b. strictness (outcome b) \<le> strictness (outcome a)) (stricterLeniently U c meth ss than)"
proof (cases "lenient U ss")
  case (Pair whole split)
  have "sorted_wrt (\<lambda>a b. by_outcome (\<lambda>p. p, outcome) (max (length whole) (length split)) a b \<le> 0)
      (stricterLeniently U c meth ss than)"
    by (simp add: stricterLeniently_def Pair strict.sorted_SortStableFunc)
  then show ?thesis
    by (rule sorted_wrt_mono_rel [rotated]) (auto simp: by_outcome_def split: if_splits)
qed

text \<open>A version 1 verdict is as strict as the rule chosen, and as every rule that reads the
  request leniently and the chosen one does not outrank.\<close>

definition reads_leniently :: "unicode \<Rightarrow> string \<Rightarrow> string list \<Rightarrow> compiled_path \<Rightarrow> bool" where
  "reads_leniently U meth ss p \<longleftrightarrow>
     meth \<in> set (methods p) \<and> (matchesFolded p (fst (lenient U ss)) \<or> matchesFolded p (snd (lenient U ss)))"

lemma v1_verdict_strict:
  "strictness (outcome best) \<le> strictness (v_outcome (v1_verdict U c meth ss best))"
proof (cases "find (\<lambda>p. \<not> outranks best p (length ss)) (stricterLeniently U c meth ss (outcome best))")
  case None
  then show ?thesis by (simp add: v1_verdict_def path_verdict_strict)
next
  case (Some q)
  then have "q \<in> set (stricterLeniently U c meth ss (outcome best))"
    by (auto simp: find_Some_iff)
  then have "strictness (outcome best) < strictness (outcome q)" by (simp add: stricterLeniently_set)
  with Some path_verdict_strict [of q] show ?thesis by (simp add: v1_verdict_def)
qed

lemma v1_verdict_lenient:
  assumes "p \<in> set (paths c)" "reads_leniently U meth ss p" "\<not> outranks best p (length ss)"
  shows "strictness (outcome p) \<le> strictness (v_outcome (v1_verdict U c meth ss best))"
proof (cases "strictness (outcome p) > strictness (outcome best)")
  case False
  with v1_verdict_strict [of best U c meth ss] show ?thesis by simp
next
  case True
  let ?l = "stricterLeniently U c meth ss (outcome best)"
  have p: "p \<in> set ?l" using assms True by (simp add: stricterLeniently_set reads_leniently_def)
  then obtain q where q: "find (\<lambda>p. \<not> outranks best p (length ss)) ?l = Some q"
    using assms(3) by (cases "find (\<lambda>p. \<not> outranks best p (length ss)) ?l") (auto simp: find_None_iff)
  have "strictness (outcome p) \<le> strictness (outcome q)"
    by (rule find_first_le [OF stricterLeniently_sorted _ q p]) (use assms in simp_all)
  with q path_verdict_strict [of q] show ?thesis by (simp add: v1_verdict_def)
qed

lemma stricterLeniently_hd:
  assumes "p \<in> set (paths c)" "reads_leniently U meth ss p" "strictness (outcome p) > strictness than"
  shows "\<exists>q qs. stricterLeniently U c meth ss than = q # qs \<and> strictness (outcome p) \<le> strictness (outcome q)"
proof -
  have "p \<in> set (stricterLeniently U c meth ss than)"
    using assms by (simp add: stricterLeniently_set reads_leniently_def)
  with stricterLeniently_sorted [of U c meth ss than] show ?thesis
    by (cases "stricterLeniently U c meth ss than") auto
qed

lemma decideV1_bestOf:
  "decideV1 U c meth ss raw =
   (case bestOf (paths c) meth (length ss) (\<lambda>p. matches p ss raw) of
      Some p \<Rightarrow> v1_verdict U c meth ss p
    | None \<Rightarrow>
        if api_admits c meth ss then
          (case stricterLeniently U c meth ss Admit of
             p # _ \<Rightarrow> path_verdict p | [] \<Rightarrow> Verdict Admit ''github-api'' None)
        else if cs_unmatched c = UnmatchedAsk then
          (case stricterLeniently U c meth ss Ask of
             p # _ \<Rightarrow> path_verdict p | [] \<Rightarrow> Verdict Ask RuleUnmatched None)
        else Verdict Refuse ReasonOutOfScope None)"
  by (simp add: decideV1_def bestOf_def Let_def split: option.split)


lemma path_verdict_Admit: "v_outcome (path_verdict p) = Admit \<longleftrightarrow> outcome p = Admit \<and> docker p = None"
  by (auto simp: path_verdict_def split: outcome.split option.split)

lemma stricter_not_Admit: "q \<in> set (stricterLeniently U c meth ss than) \<Longrightarrow> outcome q \<noteq> Admit"
  using strictness_bounds(1) [of than] by (auto simp: stricterLeniently_set)

lemma v1_verdict_Admit:
  assumes "v_outcome (v1_verdict U c meth ss p) = Admit"
  shows "outcome p = Admit \<and> docker p = None \<and>
    (\<forall>r\<in>set (paths c). reads_leniently U meth ss r \<and> \<not> outranks p r (length ss) \<longrightarrow> outcome r = Admit)"
proof -
  have "outcome p = Admit \<and> docker p = None"
  proof (cases "find (\<lambda>r. \<not> outranks p r (length ss)) (stricterLeniently U c meth ss (outcome p))")
    case None
    with assms show ?thesis by (simp add: v1_verdict_def path_verdict_Admit)
  next
    case (Some q)
    then have "q \<in> set (stricterLeniently U c meth ss (outcome p))" by (auto simp: find_Some_iff)
    with Some assms stricter_not_Admit show ?thesis by (auto simp: v1_verdict_def path_verdict_Admit)
  qed
  moreover have "outcome r = Admit"
    if "r \<in> set (paths c)" "reads_leniently U meth ss r" "\<not> outranks p r (length ss)" for r
    using v1_verdict_lenient [OF that] assms by (cases "outcome r") simp_all
  ultimately show ?thesis by blast
qed

lemma decideV1_Admit:
  assumes "v_outcome (decideV1 U c meth ss raw) = Admit"
  shows "case bestOf (paths c) meth (length ss) (\<lambda>p. matches p ss raw) of
      Some p \<Rightarrow> outcome p = Admit \<and> docker p = None \<and>
        (\<forall>r\<in>set (paths c). reads_leniently U meth ss r \<and> \<not> outranks p r (length ss) \<longrightarrow> outcome r = Admit)
    | None \<Rightarrow> api_admits c meth ss \<and>
        (\<forall>r\<in>set (paths c). reads_leniently U meth ss r \<longrightarrow> outcome r = Admit)"
proof (cases "bestOf (paths c) meth (length ss) (\<lambda>p. matches p ss raw)")
  case (Some p)
  with assms v1_verdict_Admit show ?thesis by (simp add: decideV1_bestOf)
next
  case None
  have first: "v_outcome (path_verdict q) \<noteq> Admit" if "stricterLeniently U c meth ss than = q # qs" for q qs than
    using that stricter_not_Admit [of q U c meth ss than] by (simp add: path_verdict_Admit)
  from assms None have api: "api_admits c meth ss" and e: "stricterLeniently U c meth ss Admit = []"
    by (auto simp: decideV1_bestOf first split: if_splits list.splits)
  have "outcome r = Admit" if "r \<in> set (paths c)" "reads_leniently U meth ss r" for r
    using stricterLeniently_hd [OF that, of Admit] e by (cases "outcome r") auto
  with None api show ?thesis by simp
qed

text \<open>What still decides refuses until it has.\<close>

lemma docker_verdict_deferred [simp]: "v_deferred (docker_verdict d) = DeferDocker d"
  by (simp add: docker_verdict_def)

lemma path_verdict_deferred: "v_deferred (path_verdict p) \<noteq> NotDeferred \<Longrightarrow> v_outcome (path_verdict p) = Refuse"
  by (auto simp: path_verdict_def split: outcome.splits option.splits)

lemma v2_verdict_deferred: "v_deferred (v2_verdict d) \<noteq> NotDeferred \<Longrightarrow> v_outcome (v2_verdict d) = Refuse"
  by (auto simp: v2_verdict_def Let_def split: outcome.splits option.splits)

lemma git_decide_deferred: "git_decide g meth ss q = Some v \<Longrightarrow> v_deferred v = NotDeferred"
  by (auto simp: git_decide_def Let_def split: if_splits prod.splits list.splits outcome.splits)

lemma decideV1_deferred:
  "v_deferred (decideV1 U c meth ss raw) \<noteq> NotDeferred \<Longrightarrow> v_outcome (decideV1 U c meth ss raw) = Refuse"
  unfolding decideV1_bestOf v1_verdict_def
  by (auto dest: path_verdict_deferred split: option.splits if_splits list.splits)

lemma decideV2_deferred:
  "v_deferred (decideV2 U c meth ss raw) \<noteq> NotDeferred \<Longrightarrow> v_outcome (decideV2 U c meth ss raw) = Refuse"
  by (auto simp: decideV2_def Let_def dest: v2_verdict_deferred split: prod.splits list.splits)

definition example_scope :: scope where
  "example_scope =
     \<lparr>sc_Paths =
        [\<lparr>Methods = [''get''], Prefix = ''/a'', Path = [], EncodedSlashes = False, AskFlag = False,
          RefuseFlag = False, Operation = None, Docker = None\<rparr>,
         \<lparr>Methods = [''get''], Prefix = [], Path = ''/a/secret'', EncodedSlashes = False, AskFlag = False,
          RefuseFlag = True, Operation = None, Docker = None\<rparr>],
      sc_Git = Some \<lparr>Repos = [\<lparr>Owner = ''o'', RepoName = ''r''\<rparr>], AnyRepo = False, Push = Refuse\<rparr>,
      sc_GraphQL = [], sc_GitHubAPI = None, sc_Unmatched = UnmatchedRefuse, sc_V2 = False,
      sc_Operations = [], sc_Ceiling = None\<rparr>"

definition example_compiled :: compiled where
  "example_compiled =
     \<lparr>paths = [example_rule [''a''] False Admit, example_rule [''a'', ''secret''] True Refuse],
      git = Some \<lparr>Repos = [\<lparr>Owner = ''o'', RepoName = ''r''\<rparr>], AnyRepo = False, Push = Refuse\<rparr>,
      graphql = [], api = None, cs_unmatched = UnmatchedRefuse, v2 = False, cs_ops = [], ceiling = []\<rparr>"

lemma example_compiles: "compileScope ascii_unicode example_scope = Inr example_compiled"
  by code_simp

section \<open>What a scope is and admits\<close>

text \<open>
  What \<open>compileScope\<close> accepts is well formed. Every rule of a compiled scope has a method, a
  folded template beside its own, no empty segment but the root's, and a \<open>*\<close> only as a segment or
  before a verb; a version 1 scope holds no part of a version 2 one and never admits the
  unmatched; a git scope names valid repositories or any repository, not both; no two GraphQL
  endpoints have one path; and something is let through.
\<close>

theorem compileScope_wf:
  assumes "compileScope U s = Inr c"
  shows "list_all wf_path (paths c @ cs_ops c) \<and> list_all (\<lambda>p. operation p \<noteq> None) (cs_ops c) \<and>
    (\<not> v2 c \<longrightarrow> cs_ops c = [] \<and> ceiling c = [] \<and> cs_unmatched c \<noteq> UnmatchedAdmit) \<and>
    (\<forall>g. git c = Some g \<longrightarrow> (AnyRepo g \<longleftrightarrow> Repos g = []) \<and> (\<forall>r\<in>set (Repos g). validate r = None)) \<and>
    distinct (map (\<lambda>g. segs (cg_path g)) (graphql c)) \<and>
    (paths c \<noteq> [] \<or> cs_ops c \<noteq> [] \<or> git c \<noteq> None \<or> graphql c \<noteq> [] \<or> api c \<noteq> None \<or>
      cs_unmatched c \<noteq> UnmatchedRefuse)"
proof -
  from assms obtain os ps gs a where v1: "\<not> (sc_Unmatched s = UnmatchedAdmit \<and> \<not> sc_V2 s)"
      "\<not> (\<not> sc_V2 s \<and> (sc_Operations s \<noteq> [] \<or> sc_Ceiling s \<noteq> None))"
    and os: "all_ok (compile_endpoint U) (sc_Operations s) = Inr os"
    and ps: "all_ok (\<lambda>p. lift_error ScopePath (compilePath U p)) (sc_Paths s) = Inr ps"
    and g: "check_git (sc_Git s) = Inr ()" and gs: "compile_graphqls U [] (sc_GraphQL s) = Inr gs"
    and nz: "\<not> (ps = [] \<and> os = [] \<and> sc_Git s = None \<and> gs = [] \<and> a = None \<and> sc_Unmatched s = UnmatchedRefuse)"
    and c: "c = \<lparr>paths = ps, git = sc_Git s, graphql = gs, api = a, cs_unmatched = sc_Unmatched s,
          v2 = sc_V2 s, cs_ops = os, ceiling = (case sc_Ceiling s of None \<Rightarrow> [] | Some m \<Rightarrow> m)\<rparr>"
    unfolding compileScope_def if_Inl_Inr ok_then_Inr sum.inject by (elim conjE exE) simp
  have "list_all wf_path (ps @ os)" "list_all (\<lambda>p. operation p \<noteq> None) os"
    using all_ok_Inr [OF ps] all_ok_Inr [OF os] compilePath_wf(1) compile_endpoint_wf
    by (auto simp: list_all_iff) (metis compile_endpoint_wf)+
  moreover have "\<not> sc_V2 s \<longrightarrow> os = []" using v1 os by auto
  moreover have "(AnyRepo h \<longleftrightarrow> Repos h = []) \<and> (\<forall>r\<in>set (Repos h). validate r = None)" if "sc_Git s = Some h" for h
    using g that check_repos_Inr by (auto simp: check_git_def split: if_splits)
  moreover have "distinct (map (\<lambda>g. segs (cg_path g)) gs)"
    using compile_graphqls_distinct [OF gs] by simp
  ultimately show ?thesis using v1 nz by (auto simp: c)
qed

theorem compileScope_wf_witness:
  "compileScope ascii_unicode example_scope = Inr example_compiled \<and> list_all wf_path (paths example_compiled)"
  using compileScope_wf [OF example_compiles] example_compiles by simp

text \<open>
  C9: A request a version 1 scope admits has a canonical path. The git scope admits it, whatever the
  rules for paths say, which are then not asked; or it reaches no GraphQL endpoint however its path is
  read, and the most specific rule that matches it admits it with nothing left to check, as does
  every rule that reads it leniently and that rule does not outrank; or no rule matches it, the
  GitHub API scope covers it, and every rule that reads it leniently admits it.
\<close>

theorem decided_admits:
  assumes "v_outcome (decided U c meth escaped q) = Admit" and "\<not> v2 c"
  shows "\<exists>ss raw. splitPath escaped = Some ss \<and> raw = Split CHR ''/'' (tl escaped) \<and>
    ((\<exists>g v. git c = Some g \<and> git_decide g meth ss q = Some v \<and> v_outcome v = Admit) \<or>
     (\<forall>g\<in>set (graphql c). \<not> reaches_graphql U ss raw g) \<and>
     (case bestOf (paths c) meth (length ss) (\<lambda>p. matches p ss raw) of
        Some p \<Rightarrow> outcome p = Admit \<and> docker p = None \<and>
          (\<forall>r\<in>set (paths c). reads_leniently U meth ss r \<and> \<not> outranks p r (length ss) \<longrightarrow> outcome r = Admit)
      | None \<Rightarrow> api_admits c meth ss \<and>
          (\<forall>r\<in>set (paths c). reads_leniently U meth ss r \<longrightarrow> outcome r = Admit)))"
proof -
  from assms obtain ss where ss: "splitPath escaped = Some ss"
    by (auto simp: decided_def split: option.splits)
  let ?raw = "Split CHR ''/'' (tl escaped)"
  show ?thesis
  proof (cases "case git c of None \<Rightarrow> None | Some g \<Rightarrow> git_decide g meth ss q")
    case (Some v)
    with assms ss show ?thesis by (auto simp: decided_def split: option.splits)
  next
    case None
    with assms ss have n: "find (reaches_graphql U ss ?raw) (graphql c) = None"
      and "v_outcome (decideV1 U c meth ss ?raw) = Admit"
      by (auto simp: decided_def Let_def split: option.splits)
    with ss decideV1_Admit [of U c meth ss ?raw] show ?thesis by (auto simp: find_None_iff)
  qed
qed

theorem decided_admits_witness:
  "v_outcome (decided ascii_unicode (example_compiled\<lparr>git := None\<rparr>) ''GET'' ''/a/b'' []) = Admit \<and>
   \<not> (reads_leniently ascii_unicode ''GET'' [''a'', ''b''] (example_rule [''a'', ''secret''] True Refuse) \<and>
     \<not> outranks (example_rule [''a''] False Admit) (example_rule [''a'', ''secret''] True Refuse) (length [''a'', ''b'']))"
proof -
  let ?c = "example_compiled\<lparr>git := None\<rparr>"
  have a: "v_outcome (decided ascii_unicode ?c ''GET'' ''/a/b'' []) = Admit" by code_simp
  have v: "\<not> v2 ?c" by code_simp
  have s: "splitPath ''/a/b'' = Some [''a'', ''b'']" by code_simp
  have b: "bestOf (paths ?c) ''GET'' (length [''a'', ''b'']) (\<lambda>p. matches p [''a'', ''b''] (Split CHR ''/'' (tl ''/a/b''))) =
      Some (example_rule [''a''] False Admit)" by code_simp
  have g: "git ?c = None" "paths ?c = paths example_compiled" by simp_all
  from decided_admits [OF a v, unfolded s option.inject] obtain ss raw where
    ss: "[''a'', ''b''] = ss" and raw: "raw = Split CHR ''/'' (tl ''/a/b'')"
    and "case bestOf (paths ?c) ''GET'' (length ss) (\<lambda>p. matches p ss raw) of
        Some p \<Rightarrow> outcome p = Admit \<and> docker p = None \<and>
          (\<forall>r\<in>set (paths ?c). reads_leniently ascii_unicode ''GET'' ss r \<and> \<not> outranks p r (length ss) \<longrightarrow> outcome r = Admit)
      | None \<Rightarrow> api_admits ?c ''GET'' ss \<and>
          (\<forall>r\<in>set (paths ?c). reads_leniently ascii_unicode ''GET'' ss r \<longrightarrow> outcome r = Admit)"
    unfolding g(1) by blast
  from this(3) [unfolded raw, folded ss, unfolded g(2) b [unfolded g(2)] option.case] a show ?thesis
    by (auto simp: example_compiled_def example_rule_def)
qed

text \<open>
  A lenient reading is never answered more leniently than the rule it reaches. Where the rules
  of a version 1 scope decide, the verdict is as strict as the rule that matches as sent, and as
  any other that reads the request leniently and is not outranked by it.
\<close>

theorem decideV1_lenient:
  assumes "bestOf (paths c) meth (length ss) (\<lambda>p. matches p ss raw) = Some p"
    and "r \<in> set (paths c)" and "reads_leniently U meth ss r" and "\<not> outranks p r (length ss)"
  shows "max (strictness (outcome p)) (strictness (outcome r)) \<le> strictness (v_outcome (decideV1 U c meth ss raw))"
  using assms v1_verdict_strict [of p U c meth ss] v1_verdict_lenient [of r c U meth ss p]
  by (simp add: decideV1_bestOf)

theorem decideV1_lenient_witness:
  "strictness Refuse \<le> strictness (v_outcome (decideV1 ascii_unicode example_compiled ''GET'' [''a'', ''SECRET.''] [''a'', ''SECRET.'']))"
proof -
  let ?ss = "[''a'', ''SECRET.'']"
  have b: "bestOf (paths example_compiled) ''GET'' (length ?ss) (\<lambda>p. matches p ?ss ?ss) =
      Some (example_rule [''a''] False Admit)" by code_simp
  have r: "example_rule [''a'', ''secret''] True Refuse \<in> set (paths example_compiled)"
    by (simp add: example_compiled_def)
  have l: "reads_leniently ascii_unicode ''GET'' ?ss (example_rule [''a'', ''secret''] True Refuse)" by code_simp
  have o: "\<not> outranks (example_rule [''a''] False Admit) (example_rule [''a'', ''secret''] True Refuse) (length ?ss)"
    by code_simp
  from decideV1_lenient [OF b r l o] show ?thesis by (simp add: example_rule_def)
qed

text \<open>
  What is still to be decided is refused meanwhile. A verdict that leaves the request to what
  its body says, at a GraphQL endpoint or on a Docker route, is a refusal.
\<close>

theorem decided_deferred:
  "v_deferred (decided U c meth escaped q) = NotDeferred \<or> v_outcome (decided U c meth escaped q) = Refuse"
  unfolding decided_def Let_def
  by (auto dest: git_decide_deferred decideV1_deferred decideV2_deferred split: option.splits)

end
