(* ===== verification/Net_Addr.thy ===== *)
theory Net_Addr
  imports Prelude "HOL-Library.Word"
begin

unbundle bit_operations_syntax

text \<open>
  The parts of Go's \<open>net/netip\<close> the egress classifier is written on: addresses, which are v4,
  v6 with a zone, or the zero value that is no address, and prefixes.

  A prefix keeps its address without a zone, and has a length or is invalid.
\<close>

section \<open>Addresses\<close>

datatype addr = NoAddr | V4 "32 word" | V6 "128 word" string

fun IsValid :: "addr \<Rightarrow> bool" where
  "IsValid NoAddr = False"
| "IsValid _ = True"

fun WithoutZone :: "addr \<Rightarrow> addr" where
  "WithoutZone (V6 x _) = V6 x []"
| "WithoutZone a = a"

fun Zone :: "addr \<Rightarrow> string" where
  "Zone (V6 _ z) = z"
| "Zone _ = []"

fun Is6 :: "addr \<Rightarrow> bool" where
  "Is6 (V6 _ _) = True"
| "Is6 _ = False"

fun Is4In6 :: "addr \<Rightarrow> bool" where
  "Is4In6 (V6 x _) = (drop_bit 32 x = 0xFFFF)"
| "Is4In6 _ = False"

text \<open>The v4 address at a byte offset of a v6 one.\<close>

definition v4At :: "128 word \<Rightarrow> nat \<Rightarrow> 32 word" where
  "v4At x off = ucast (drop_bit (96 - 8 * off) x)"

fun Unmap :: "addr \<Rightarrow> addr" where
  "Unmap (V6 x z) = (if Is4In6 (V6 x z) then V4 (v4At x 12) else V6 x z)"
| "Unmap a = a"

fun BitLen :: "addr \<Rightarrow> nat" where
  "BitLen NoAddr = 0"
| "BitLen (V4 _) = 32"
| "BitLen (V6 _ _) = 128"

section \<open>Prefixes\<close>

record netprefix =
  p_addr :: addr
  p_bits :: "nat option"

definition PrefixFrom :: "addr \<Rightarrow> int \<Rightarrow> netprefix" where
  "PrefixFrom a bits =
     \<lparr>p_addr = WithoutZone a,
      p_bits = (if IsValid a \<and> 0 \<le> bits \<and> bits \<le> int (BitLen a) then Some (nat bits) else None)\<rparr>"

definition prefix_valid :: "netprefix \<Rightarrow> bool" where
  "prefix_valid p \<longleftrightarrow> p_bits p \<noteq> None"

text \<open>The low bits that a prefix does not fix, cleared.\<close>

definition clear_low :: "nat \<Rightarrow> 'a::len word \<Rightarrow> 'a word" where
  "clear_low n x = push_bit n (drop_bit n x)"

definition Masked :: "netprefix \<Rightarrow> netprefix" where
  "Masked p =
     (case p_bits p of
        None \<Rightarrow> \<lparr>p_addr = NoAddr, p_bits = None\<rparr>
      | Some b \<Rightarrow>
          \<lparr>p_addr = (case p_addr p of
              V4 x \<Rightarrow> V4 (clear_low (32 - b) x)
            | V6 x z \<Rightarrow> V6 (clear_low (128 - b) x) z
            | NoAddr \<Rightarrow> NoAddr), p_bits = Some b\<rparr>)"

text \<open>A zoned address is in no prefix, and a v4 one in no v6 prefix.\<close>

definition Contains :: "netprefix \<Rightarrow> addr \<Rightarrow> bool" where
  "Contains p a =
     (case p_bits p of
        None \<Rightarrow> False
      | Some b \<Rightarrow>
          (case (p_addr p, a) of
             (V4 x, V4 y) \<Rightarrow> drop_bit (32 - b) (x XOR y) = 0
           | (V6 x _, V6 y z) \<Rightarrow> z = [] \<and> drop_bit (128 - b) (x XOR y) = 0
           | _ \<Rightarrow> False))"

text \<open>The spelling frisket keeps an address under: no zone, and a v4-mapped address as v4.\<close>

definition canonAddr :: "addr \<Rightarrow> addr" where
  "canonAddr a = Unmap (WithoutZone a)"

section \<open>Lemmas\<close>

lemma WithoutZone_valid [simp]: "IsValid (WithoutZone a) = IsValid a"
  by (cases a) simp_all

lemma WithoutZone_idem [simp]: "WithoutZone (WithoutZone a) = WithoutZone a"
  by (cases a) simp_all

lemma Unmap_valid [simp]: "IsValid (Unmap a) = IsValid a"
  by (cases a) simp_all

lemma Unmap_not_mapped [simp]: "\<not> Is4In6 (Unmap a)"
  by (cases a) simp_all

lemma Unmap_id [simp]: "\<not> Is4In6 a \<Longrightarrow> Unmap a = a"
  by (cases a) simp_all

lemma Is4In6_WithoutZone [simp]: "Is4In6 (WithoutZone a) = Is4In6 a"
  by (cases a) simp_all

lemma WithoutZone_Unmap [simp]: "WithoutZone (Unmap (WithoutZone a)) = Unmap (WithoutZone a)"
  by (cases a) simp_all

lemma canonAddr_idem [simp]: "canonAddr (canonAddr a) = canonAddr a"
  by (simp add: canonAddr_def)

lemma canonAddr_valid [simp]: "IsValid (canonAddr a) = IsValid a"
  by (simp add: canonAddr_def)

lemma canonAddr_zone [simp]: "Zone (canonAddr a) = []"
  by (cases a) (simp_all add: canonAddr_def)

lemma clear_low_same: "drop_bit n (clear_low n x) = drop_bit n x"
  for x :: "'a::len word"
  by (rule bit_word_eqI) (auto simp: clear_low_def bit_simps dest: bit_imp_le_length)

lemma xor_zero: "x XOR y = 0 \<longleftrightarrow> x = y" for x y :: "'a::len word"
  by (auto simp: bit_eq_iff bit_simps)

lemma drop_bit_xor_zero: "drop_bit n (x XOR y) = 0 \<longleftrightarrow> drop_bit n x = drop_bit n y" for x y :: "'a::len word"
  by (simp add: drop_bit_xor xor_zero)

text \<open>Clearing the bits a prefix does not fix changes nothing it contains.\<close>

lemma Contains_Masked: "Contains (Masked p) a = Contains p a"
  by (cases "p_bits p"; cases "p_addr p"; cases a)
    (auto simp: Contains_def Masked_def drop_bit_xor_zero clear_low_same)

end
