(* ===== verification/Egress_Host.thy ===== *)
theory Egress_Host
  imports Net_Addr
begin

text \<open>
  The host's own addresses, \<open>internal/egress/host.go\<close>: a list of prefixes read from the kernel
  and read again when it is stale.

  \<open>source\<close> and \<open>now\<close> are what is outside: \<open>h_world k\<close> is what they give the \<open>k\<close>th time the list is
  asked, the clock when the age is looked at, what the source returns if it is asked, and the
  clock once it has. Times and durations are nanoseconds.

  A set of addresses as a classifier sees it is the locale \<open>address_set\<close>: a lookup that answers,
  or does not know, and what an answer means.
\<close>

section \<open>The list\<close>

record reading =
  w_checked :: int
  w_source :: "netprefix list option"
  w_read :: int

record host_addrs =
  h_world :: "nat \<Rightarrow> reading"
  h_asked :: nat
  h_maxAge :: int
  h_pfx :: "netprefix list"
  h_at :: int
  h_read :: bool

definition DefaultHostMaxAge :: int where
  "DefaultHostMaxAge = 1000000000"

definition HostAddrsFrom :: "(nat \<Rightarrow> reading) \<Rightarrow> int \<Rightarrow> host_addrs" where
  "HostAddrsFrom w maxAge =
     \<lparr>h_world = w, h_asked = 0, h_maxAge = maxAge, h_pfx = [], h_at = 0, h_read = False\<rparr>"

definition NewHostAddrs :: "(nat \<Rightarrow> reading) \<Rightarrow> int \<Rightarrow> host_addrs" where
  "NewHostAddrs w maxAge = HostAddrsFrom w (if maxAge \<le> 0 then DefaultHostMaxAge else maxAge)"

text \<open>One prefix as the source gave it: without its zone, a v4-mapped one as v4, masked.\<close>

definition canon_read :: "netprefix \<Rightarrow> netprefix option" where
  "canon_read p =
     (case p_bits p of
        None \<Rightarrow> None
      | Some bits \<Rightarrow>
          let a = WithoutZone (p_addr p) in
          Some (Masked (if Is4In6 a then PrefixFrom (Unmap a) (max (int bits - 96) 0)
            else PrefixFrom a (int bits))))"

definition refreshLocked :: "reading \<Rightarrow> host_addrs \<Rightarrow> bool \<times> host_addrs" where
  "refreshLocked w h =
     (case w_source w of
        None \<Rightarrow> (False, h\<lparr>h_pfx := [], h_read := False\<rparr>)
      | Some raw \<Rightarrow>
          (True, h\<lparr>h_pfx := List.map_filter canon_read raw, h_at := w_read w, h_read := True\<rparr>))"

definition ask_world :: "host_addrs \<Rightarrow> reading \<times> host_addrs" where
  "ask_world h = (h_world h (h_asked h), h\<lparr>h_asked := Suc (h_asked h)\<rparr>)"

definition Refresh :: "host_addrs \<Rightarrow> bool \<times> host_addrs" where
  "Refresh h = (let (w, h) = ask_world h in refreshLocked w h)"

text \<open>\<open>None\<close> is the error: whether the host owns the address is not known.\<close>

definition host_Contains :: "addr \<Rightarrow> host_addrs \<Rightarrow> bool option \<times> host_addrs" where
  "host_Contains a h =
     (let (w, h) = ask_world h;
          (ok, h) = (if \<not> h_read h \<or> h_maxAge h > 0 \<and> w_checked w - h_at h \<ge> h_maxAge h
            then refreshLocked w h else (True, h))
      in (if ok then Some (list_ex (\<lambda>p. Contains p (canonAddr a)) (h_pfx h)) else None, h))"

definition Prefixes :: "host_addrs \<Rightarrow> netprefix list option \<times> host_addrs" where
  "Prefixes h =
     (let (w, h) = ask_world h;
          (ok, h) = (if \<not> h_read h then refreshLocked w h else (True, h))
      in (if ok then Some (h_pfx h) else None, h))"

section \<open>Routes of the local table\<close>

text \<open>A netlink message: its type, its bytes after the header, and the route attributes
  \<open>syscall.ParseNetlinkRouteAttr\<close> finds there, or none where it fails. Bytes are as they are in
  memory; \<open>order\<close> is the machine's reading of them as a number.\<close>

record netlink_message =
  nm_type :: int
  nm_data :: "char list"
  nm_attrs :: "(int \<times> char list) list option"

definition byte_at :: "char list \<Rightarrow> nat \<Rightarrow> int" where
  "byte_at bs i = (if i < length bs then of_char (bs ! i) else 0)"

text \<open>The big-endian number bytes write.\<close>

fun big_endian :: "char list \<Rightarrow> int" where
  "big_endian bs = foldl (\<lambda>n b. n * 256 + of_char b) 0 bs"

definition AddrFromSlice :: "char list \<Rightarrow> addr option" where
  "AddrFromSlice bs =
     (if length bs = 4 then Some (V4 (word_of_int (big_endian bs)))
      else if length bs = 16 then Some (V6 (word_of_int (big_endian bs)) [])
      else None)"

definition NLMSG_ERROR :: int where "NLMSG_ERROR = 2"
definition RTM_NEWROUTE :: int where "RTM_NEWROUTE = 24"
definition SizeofRtMsg :: nat where "SizeofRtMsg = 12"
definition RTN_UNICAST :: int where "RTN_UNICAST = 1"
definition RTN_LOCAL :: int where "RTN_LOCAL = 2"
definition RTN_ANYCAST :: int where "RTN_ANYCAST = 4"
definition RT_TABLE_LOCAL :: int where "RT_TABLE_LOCAL = 255"
definition RTA_DST :: int where "RTA_DST = 1"
definition RTA_OIF :: int where "RTA_OIF = 4"
definition RTA_GATEWAY :: int where "RTA_GATEWAY = 5"
definition RTA_MULTIPATH :: int where "RTA_MULTIPATH = 9"
definition RTA_TABLE :: int where "RTA_TABLE = 15"

text \<open>The loop over a local route's attributes: its table and its destination.\<close>

fun local_attrs :: "(char list \<Rightarrow> int) \<Rightarrow> int \<Rightarrow> addr \<Rightarrow> (int \<times> char list) list \<Rightarrow> int \<times> addr" where
  "local_attrs order table dst [] = (table, dst)"
| "local_attrs order table dst ((t, v) # as) =
     (if t = RTA_TABLE then local_attrs order (if length v = 4 then order v else table) dst as
      else if t = RTA_DST then
        local_attrs order table (case AddrFromSlice v of Some ip \<Rightarrow> ip | None \<Rightarrow> dst) as
      else local_attrs order table dst as)"

fun parseLocalRoutes :: "(char list \<Rightarrow> int) \<Rightarrow> netlink_message list \<Rightarrow> netprefix list option" where
  "parseLocalRoutes order [] = Some []"
| "parseLocalRoutes order (m # ms) =
     (if nm_type m = NLMSG_ERROR then None
      else if nm_type m \<noteq> RTM_NEWROUTE \<or> length (nm_data m) < SizeofRtMsg then parseLocalRoutes order ms
      else if byte_at (nm_data m) 7 \<noteq> RTN_LOCAL \<and> byte_at (nm_data m) 7 \<noteq> RTN_ANYCAST
        then parseLocalRoutes order ms
      else case nm_attrs m of
          None \<Rightarrow> None
        | Some as \<Rightarrow>
            let (table, dst) = local_attrs order (byte_at (nm_data m) 4) NoAddr as;
                dstLen = byte_at (nm_data m) 1 in
            if table \<noteq> RT_TABLE_LOCAL \<or> \<not> IsValid dst then parseLocalRoutes order ms
            else if dstLen > int (BitLen (Unmap dst)) then parseLocalRoutes order ms
            else map_option (\<lambda>out. Masked (PrefixFrom (Unmap dst) dstLen) # out) (parseLocalRoutes order ms))"

text \<open>\<open>readHostPrefixes\<close> over what the interfaces and the kernel said: each interface address
  alone, and the local routes.\<close>

definition readHostPrefixes :: "addr list option \<Rightarrow> netprefix list option \<Rightarrow> netprefix list option" where
  "readHostPrefixes interfaces routes =
     (case interfaces of
        None \<Rightarrow> None
      | Some as \<Rightarrow>
          map_option (\<lambda>rs. map (\<lambda>a. PrefixFrom (Unmap a) (int (BitLen (Unmap a)))) as @ rs) routes)"

section \<open>Sets of addresses\<close>

text \<open>
  What a classifier may rely on: where a lookup answers, the answer is that some prefix of a list
  the source gave, no older than the set allows, contains the address; and a lookup changes
  nothing but how often the set was asked and that list.
\<close>

locale address_set =
  fixes contains :: "addr \<Rightarrow> 's \<Rightarrow> bool option \<times> 's"
    and known :: "'s \<Rightarrow> netprefix list option"
  assumes answers: "contains a s = (Some b, s') \<Longrightarrow>
      \<exists>pfx. known s' = Some pfx \<and> b = list_ex (\<lambda>p. Contains p (canonAddr a)) pfx"
    and unknown: "contains a s = (None, s') \<Longrightarrow> known s' = None"
    and spelling: "contains (canonAddr a) s = contains a s"
begin

text \<open>Every spelling of an address has one answer.\<close>

lemma same_answer: "canonAddr a = canonAddr b \<Longrightarrow> contains a s = contains b s"
  using spelling by metis

lemma owned: "fst (contains a s) = Some False \<Longrightarrow> known (snd (contains a s)) = Some pfx \<Longrightarrow> p \<in> set pfx \<Longrightarrow>
  \<not> Contains p (canonAddr a)"
  using answers [of a s] by (cases "contains a s") (auto simp: list_ex_iff)

end

definition host_known :: "host_addrs \<Rightarrow> netprefix list option" where
  "host_known h = (if h_read h then Some (h_pfx h) else None)"

interpretation host: address_set host_Contains host_known
proof
  fix a h b h'
  assume "host_Contains a h = (Some b, h')"
  then show "\<exists>pfx. host_known h' = Some pfx \<and> b = list_ex (\<lambda>p. Contains p (canonAddr a)) pfx"
    by (auto simp: host_Contains_def ask_world_def refreshLocked_def host_known_def Let_def
        split: prod.splits if_splits option.splits)
next
  fix a h h'
  assume "host_Contains a h = (None, h')"
  then show "host_known h' = None"
    by (auto simp: host_Contains_def ask_world_def refreshLocked_def host_known_def Let_def
        split: prod.splits if_splits option.splits)
next
  fix a h
  show "host_Contains (canonAddr a) h = host_Contains a h"
    by (simp only: host_Contains_def canonAddr_idem)
qed

section \<open>How old an answer may be\<close>

lemma host_Contains_world [simp]:
  "h_world (snd (host_Contains a h)) = h_world h" "h_asked (snd (host_Contains a h)) = Suc (h_asked h)"
  "h_maxAge (snd (host_Contains a h)) = h_maxAge h"
  by (auto simp: host_Contains_def ask_world_def refreshLocked_def Let_def split: prod.splits if_splits option.splits)

lemma refreshLocked_cases:
  "refreshLocked w h = (ok, h') \<Longrightarrow>
   (\<not> ok \<and> w_source w = None \<and> h' = h\<lparr>h_pfx := [], h_read := False\<rparr>) \<or>
   (ok \<and> (\<exists>raw. w_source w = Some raw \<and>
      h' = h\<lparr>h_pfx := List.map_filter canon_read raw, h_at := w_read w, h_read := True\<rparr>))"
  by (auto simp: refreshLocked_def split: option.splits)

text \<open>A list the source gave, at the \<open>k\<close>th question read then or not too old by the clock, whatever the set keeps; and
  that what the set keeps is one, of the reading it was made of.\<close>

definition known_at :: "host_addrs \<Rightarrow> nat \<Rightarrow> netprefix list \<Rightarrow> bool" where
  "known_at h k pfx \<longleftrightarrow>
     (\<exists>j raw. j \<le> k \<and> w_source (h_world h j) = Some raw \<and> pfx = List.map_filter canon_read raw \<and>
        (j = k \<or> h_maxAge h \<le> 0 \<or> w_checked (h_world h k) - w_read (h_world h j) < h_maxAge h))"

definition host_ok :: "host_addrs \<Rightarrow> bool" where
  "host_ok h \<longleftrightarrow>
     (h_read h \<longrightarrow> (\<exists>j raw. j < h_asked h \<and> w_source (h_world h j) = Some raw \<and> h_pfx h = List.map_filter canon_read raw \<and>
        h_at h = w_read (h_world h j)))"

lemma known_at_same: "h_world h' = h_world h \<Longrightarrow> h_maxAge h' = h_maxAge h \<Longrightarrow> known_at h' = known_at h"
  by (simp add: known_at_def fun_eq_iff)

lemma host_ok_From: "host_ok (HostAddrsFrom w age)"
  by (simp add: host_ok_def HostAddrsFrom_def)

lemma host_Contains_known:
  assumes "host_Contains a h = (r, h')" "host_ok h"
  shows "host_ok h' \<and> (\<forall>b. r = Some b \<longrightarrow> (\<exists>pfx. known_at h (h_asked h) pfx \<and> b = list_ex (\<lambda>p. Contains p (canonAddr a)) pfx))"
proof -
  let ?w = "h_world h (h_asked h)"
  let ?h = "h\<lparr>h_asked := Suc (h_asked h)\<rparr>"
  show ?thesis
  proof (cases "\<not> h_read h \<or> h_maxAge h > 0 \<and> w_checked ?w - h_at h \<ge> h_maxAge h")
    case True
    show ?thesis
    proof (cases "w_source ?w")
      case None
      with True assms(1) show ?thesis
        by (auto simp: host_Contains_def ask_world_def refreshLocked_def Let_def host_ok_def)
    next
      case (Some raw)
      with True assms(1) have r: "r = Some (list_ex (\<lambda>p. Contains p (canonAddr a)) (List.map_filter canon_read raw))"
        "h' = ?h\<lparr>h_pfx := List.map_filter canon_read raw, h_at := w_read ?w, h_read := True\<rparr>"
        by (auto simp: host_Contains_def ask_world_def refreshLocked_def Let_def)
      from Some have "known_at h (h_asked h) (List.map_filter canon_read raw)" unfolding known_at_def by blast
      with Some r show ?thesis by (auto simp: host_ok_def)
    qed
  next
    case False
    with assms(1) have r: "r = Some (list_ex (\<lambda>p. Contains p (canonAddr a)) (h_pfx h))" "h' = ?h"
      by (auto simp: host_Contains_def ask_world_def Let_def)
    from assms(2) False obtain j raw where j: "j < h_asked h" "w_source (h_world h j) = Some raw"
      "h_pfx h = List.map_filter canon_read raw" "h_at h = w_read (h_world h j)" unfolding host_ok_def by blast
    from False j(4) have "h_maxAge h \<le> 0 \<or> w_checked ?w - w_read (h_world h j) < h_maxAge h" by auto
    with j(1-3) have "known_at h (h_asked h) (h_pfx h)" unfolding known_at_def using less_imp_le by blast
    with r j show ?thesis by (auto simp: host_ok_def less_Suc_eq)
  qed
qed

definition example_host :: host_addrs where
  "example_host =
     NewHostAddrs (\<lambda>k. \<lparr>w_checked = 0,
       w_source = (if k = 0 then Some [\<lparr>p_addr = V4 0xCB007105, p_bits = Some 32\<rparr>] else None),
       w_read = 0\<rparr>) 0"

text \<open>
  The host's addresses are never answered from a list the source no longer vouches for. An
  answer comes from a list read successfully and, where the set has an age, younger than it by
  the clock the lookup read, or read by the lookup itself; and after a read that fails nothing is
  known, whatever was known before.
\<close>

theorem host_Contains_fresh:
  assumes "host_Contains a h = (r, h')"
  shows "let w = h_world h (h_asked h) in
    case r of
      Some b \<Rightarrow> h_read h' \<and> b = list_ex (\<lambda>p. Contains p (canonAddr a)) (h_pfx h') \<and>
        (h_read h \<and> h_pfx h' = h_pfx h \<and> (h_maxAge h \<le> 0 \<or> w_checked w - h_at h < h_maxAge h) \<or>
         (\<exists>raw. w_source w = Some raw \<and> h_pfx h' = List.map_filter canon_read raw \<and> h_at h' = w_read w))
    | None \<Rightarrow> w_source w = None \<and> h_pfx h' = [] \<and> \<not> h_read h'"
proof -
  let ?w = "h_world h (h_asked h)"
  let ?h = "h\<lparr>h_asked := Suc (h_asked h)\<rparr>"
  show ?thesis
  proof (cases "\<not> h_read h \<or> h_maxAge h > 0 \<and> w_checked ?w - h_at h \<ge> h_maxAge h")
    case True
    then show ?thesis
      using assms by (cases "w_source ?w") (auto simp: host_Contains_def ask_world_def refreshLocked_def Let_def)
  next
    case False
    then show ?thesis
      using assms by (auto simp: host_Contains_def ask_world_def Let_def)
  qed
qed

theorem host_Contains_fresh_witness:
  "fst (host_Contains (V4 0xCB007105) example_host) = Some True \<and>
   h_read (snd (host_Contains (V4 0xCB007105) example_host)) \<and>
   fst (Refresh (snd (host_Contains (V4 0xCB007105) example_host))) = False"
proof -
  have a: "fst (host_Contains (V4 0xCB007105) example_host) = Some True" by code_simp
  have r: "fst (Refresh (snd (host_Contains (V4 0xCB007105) example_host))) = False" by code_simp
  from host_Contains_fresh [of "V4 0xCB007105" example_host "Some True"] a r show ?thesis
    by (cases "host_Contains (V4 0xCB007105) example_host") (auto simp: Let_def)
qed

end
