(* ===== verification/Egress_Classify.thy ===== *)
theory Egress_Classify
  imports Egress_Host
begin

text \<open>
  The address classifier, \<open>internal/egress/classify.go\<close>, and its variant for the local network,
  \<open>lan.go\<close>.

  A classifier's sets of addresses are shared and change as they are asked, so every operation
  returns the classifier as it leaves it. \<open>show\<close> is \<open>netip.Addr.String\<close>.
\<close>

section \<open>The structural table\<close>

abbreviation ReasonUnspecified :: string where "ReasonUnspecified \<equiv> ''unspecified''"
abbreviation ReasonLoopback :: string where "ReasonLoopback \<equiv> ''loopback''"
abbreviation ReasonPrivate :: string where "ReasonPrivate \<equiv> ''private''"
abbreviation ReasonCGNAT :: string where "ReasonCGNAT \<equiv> ''cgnat''"
abbreviation ReasonLinkLocal :: string where "ReasonLinkLocal \<equiv> ''link-local''"
abbreviation ReasonULA :: string where "ReasonULA \<equiv> ''unique-local''"
abbreviation ReasonSiteLocal :: string where "ReasonSiteLocal \<equiv> ''site-local''"
abbreviation ReasonMulticast :: string where "ReasonMulticast \<equiv> ''multicast''"
abbreviation ReasonReserved :: string where "ReasonReserved \<equiv> ''reserved''"
abbreviation ReasonLocalNAT64 :: string where "ReasonLocalNAT64 \<equiv> ''local-use nat64''"
abbreviation ReasonHostOwned :: string where "ReasonHostOwned \<equiv> ''host-owned''"
abbreviation ReasonHostUnknown :: string where "ReasonHostUnknown \<equiv> ''host addresses unknown''"
abbreviation ReasonInvalid :: string where "ReasonInvalid \<equiv> ''invalid address''"

record range =
  rg_prefix :: netprefix
  rg_reason :: string

definition row4 :: "32 word \<Rightarrow> nat \<Rightarrow> string \<Rightarrow> range" where
  "row4 x b reason = \<lparr>rg_prefix = \<lparr>p_addr = V4 x, p_bits = Some b\<rparr>, rg_reason = reason\<rparr>"

definition row6 :: "128 word \<Rightarrow> nat \<Rightarrow> string \<Rightarrow> range" where
  "row6 x b reason = \<lparr>rg_prefix = \<lparr>p_addr = V6 x [], p_bits = Some b\<rparr>, rg_reason = reason\<rparr>"

definition DefaultRanges :: "range list" where
  "DefaultRanges =
     [row4 0x00000000 8 ReasonUnspecified,
      row4 0x0A000000 8 ReasonPrivate,
      row4 0x64400000 10 ReasonCGNAT,
      row4 0x7F000000 8 ReasonLoopback,
      row4 0xA9FE0000 16 ReasonLinkLocal,
      row4 0xAC100000 12 ReasonPrivate,
      row4 0xC0A80000 16 ReasonPrivate,
      row4 0xE0000000 4 ReasonMulticast,
      row4 0xF0000000 4 ReasonReserved,
      row6 0 128 ReasonUnspecified,
      row6 1 128 ReasonLoopback,
      row6 0xFE800000000000000000000000000000 10 ReasonLinkLocal,
      row6 0xFEC00000000000000000000000000000 10 ReasonSiteLocal,
      row6 0xFC000000000000000000000000000000 7 ReasonULA,
      row6 0xFF000000000000000000000000000000 8 ReasonMulticast,
      row6 0x0064FF9B000100000000000000000000 48 ReasonLocalNAT64]"

section \<open>v4 addresses written in v6 ones\<close>

record embedding =
  em_prefix :: netprefix
  em_spelling :: string
  em_extract :: "128 word \<Rightarrow> 32 word list"

definition embeddings :: "embedding list" where
  "embeddings =
     [\<lparr>em_prefix = \<lparr>p_addr = V6 0xFFFF000000000000 [], p_bits = Some 96\<rparr>,
       em_spelling = ''v4-translated'', em_extract = (\<lambda>x. [v4At x 12])\<rparr>,
      \<lparr>em_prefix = \<lparr>p_addr = V6 0 [], p_bits = Some 96\<rparr>,
       em_spelling = ''v4-compatible'', em_extract = (\<lambda>x. [v4At x 12])\<rparr>,
      \<lparr>em_prefix = \<lparr>p_addr = V6 0x20020000000000000000000000000000 [], p_bits = Some 16\<rparr>,
       em_spelling = ''6to4'', em_extract = (\<lambda>x. [v4At x 2])\<rparr>,
      \<lparr>em_prefix = \<lparr>p_addr = V6 0x0064FF9B000000000000000000000000 [], p_bits = Some 96\<rparr>,
       em_spelling = ''nat64'', em_extract = (\<lambda>x. [v4At x 12])\<rparr>,
      \<lparr>em_prefix = \<lparr>p_addr = V6 0x20010000000000000000000000000000 [], p_bits = Some 32\<rparr>,
       em_spelling = ''teredo'', em_extract = (\<lambda>x. [v4At x 4, NOT (v4At x 12)])\<rparr>]"

text \<open>The v4 addresses an address spells, in the order the loops reach them.\<close>

definition embedded :: "addr \<Rightarrow> (string \<times> addr) list" where
  "embedded a =
     (case a of
        V6 x _ \<Rightarrow>
          concat (map (\<lambda>e. map (\<lambda>v. (em_spelling e, V4 v)) (em_extract e x))
            (filter (\<lambda>e. Contains (em_prefix e) a) embeddings))
      | _ \<Rightarrow> [])"

section \<open>Refusals\<close>

record refusal =
  r_reason :: string
  r_spelling :: string
  r_embedded :: addr

definition refusal_for :: "string \<Rightarrow> refusal" where
  "refusal_for reason = \<lparr>r_reason = reason, r_spelling = [], r_embedded = NoAddr\<rparr>"

definition not_refused :: refusal where
  "not_refused = refusal_for []"

definition Refused :: "refusal \<Rightarrow> bool" where
  "Refused r \<longleftrightarrow> r_reason r \<noteq> []"

definition refusal_String :: "(addr \<Rightarrow> string) \<Rightarrow> refusal \<Rightarrow> string" where
  "refusal_String show r =
     (if \<not> Refused r then ''not refused''
      else if r_spelling r \<noteq> [] then
        r_reason r @ '' ('' @ r_spelling r @ '' spelling of '' @ show (r_embedded r) @ '')''
      else r_reason r)"

section \<open>The classifier\<close>

record classifier =
  cl_ranges :: "range list"
  cl_host :: host_addrs
  cl_gateways :: "host_addrs option"
  cl_inner :: "host_addrs option"

datatype classifier_error = NoHost | InvalidPrefix | ZonedPrefix | MappedPrefix | NoReason

definition canonPrefix :: "netprefix \<Rightarrow> classifier_error + netprefix" where
  "canonPrefix p =
     (if \<not> prefix_valid p then Inl InvalidPrefix
      else if Zone (p_addr p) \<noteq> [] then Inl ZonedPrefix
      else if Is4In6 (p_addr p) then Inl MappedPrefix
      else Inr (Masked p))"

fun canon_ranges :: "range list \<Rightarrow> classifier_error + range list" where
  "canon_ranges [] = Inr []"
| "canon_ranges (r # rs) =
     ok_then (canonPrefix (rg_prefix r)) (\<lambda>p.
     if rg_reason r = [] then Inl NoReason
     else ok_then (canon_ranges rs) (\<lambda>out. Inr (\<lparr>rg_prefix = p, rg_reason = rg_reason r\<rparr> # out)))"

definition NewClassifier :: "range list option \<Rightarrow> host_addrs option \<Rightarrow> classifier_error + classifier" where
  "NewClassifier ranges h =
     (case h of
        None \<Rightarrow> Inl NoHost
      | Some h \<Rightarrow>
          ok_then (canon_ranges (case ranges of None \<Rightarrow> DefaultRanges | Some rs \<Rightarrow> rs)) (\<lambda>out.
          Inr \<lparr>cl_ranges = out, cl_host = h, cl_gateways = None, cl_inner = None\<rparr>))"

definition WithGateways :: "host_addrs \<Rightarrow> classifier \<Rightarrow> classifier" where
  "WithGateways g c = c\<lparr>cl_gateways := Some g\<rparr>"

definition WithHostNetworks :: "host_addrs \<Rightarrow> classifier \<Rightarrow> classifier" where
  "WithHostNetworks n c = c\<lparr>cl_inner := Some n\<rparr>"

text \<open>The table and the host's own addresses, for an address as it is.\<close>

definition classify_here :: "addr \<Rightarrow> classifier \<Rightarrow> refusal \<times> classifier" where
  "classify_here a c =
     (case find (\<lambda>r. Contains (rg_prefix r) a) (cl_ranges c) of
        Some r \<Rightarrow> (refusal_for (rg_reason r), c)
      | None \<Rightarrow>
          (case host_Contains a (cl_host c) of
             (None, h) \<Rightarrow> (refusal_for ReasonHostUnknown, c\<lparr>cl_host := h\<rparr>)
           | (Some True, h) \<Rightarrow> (refusal_for ReasonHostOwned, c\<lparr>cl_host := h\<rparr>)
           | (Some False, h) \<Rightarrow> (not_refused, c\<lparr>cl_host := h\<rparr>)))"

text \<open>The loops over the v4 addresses an address spells, each of which spells no other.\<close>

fun classify_embedded :: "(string \<times> addr) list \<Rightarrow> classifier \<Rightarrow> refusal \<times> classifier" where
  "classify_embedded [] c = (not_refused, c)"
| "classify_embedded ((spelling, v4) # vs) c =
     (let (r, c) = classify_here v4 c in
      if Refused r then (\<lparr>r_reason = r_reason r, r_spelling = spelling, r_embedded = v4\<rparr>, c)
      else classify_embedded vs c)"

definition classify_addr :: "addr \<Rightarrow> classifier \<Rightarrow> refusal \<times> classifier" where
  "classify_addr a c =
     (let (r, c) = classify_here a c in
      if Refused r then (r, c) else classify_embedded (embedded a) c)"

definition Classify :: "addr \<Rightarrow> classifier \<Rightarrow> refusal \<times> classifier" where
  "Classify a c =
     (if \<not> IsValid a then (refusal_for ReasonInvalid, c)
      else let a = WithoutZone a in
        if Is4In6 a then classify_addr (Unmap a) c else classify_addr a c)"

section \<open>The local network\<close>

abbreviation ReasonGateway :: string where "ReasonGateway \<equiv> ''gateway''"
abbreviation ReasonGatewayUnknown :: string where "ReasonGatewayUnknown \<equiv> ''gateways unknown''"
abbreviation ReasonHostNetwork :: string where "ReasonHostNetwork \<equiv> ''host network''"
abbreviation ReasonHostNetworkUnknown :: string where "ReasonHostNetworkUnknown \<equiv> ''host networks unknown''"
abbreviation ReasonMetadata :: string where "ReasonMetadata \<equiv> ''metadata service''"

definition metadata :: "netprefix list" where
  "metadata =
     [\<lparr>p_addr = V4 0xA9FEA9FE, p_bits = Some 32\<rparr>,
      \<lparr>p_addr = V4 0xA9FEAA02, p_bits = Some 32\<rparr>,
      \<lparr>p_addr = V6 0xFD000EC2000000000000000000000254 [], p_bits = Some 128\<rparr>]"

definition lan :: "refusal \<Rightarrow> bool" where
  "lan r \<longleftrightarrow> r_spelling r = [] \<and> r_reason r \<in> {ReasonPrivate, ReasonULA, ReasonLinkLocal}"

text \<open>A set that may not be there: no answer where it is not.\<close>

definition ask_set :: "addr \<Rightarrow> host_addrs option \<Rightarrow> bool option \<times> host_addrs option" where
  "ask_set a h =
     (case h of
        None \<Rightarrow> (None, None)
      | Some h \<Rightarrow> (let (b, h) = host_Contains a h in (b, Some h)))"

definition ClassifyLAN :: "addr \<Rightarrow> classifier \<Rightarrow> refusal \<times> classifier" where
  "ClassifyLAN a c =
     (let (r, c) = Classify a c in
      if \<not> lan r then (r, c)
      else
        let a = canonAddr a in
        if list_ex (\<lambda>p. Contains p a) metadata then (refusal_for ReasonMetadata, c)
        else
          let (owned, h) = host_Contains a (cl_host c); c = c\<lparr>cl_host := h\<rparr> in
          if owned = None then (refusal_for ReasonHostUnknown, c)
          else if owned = Some True then (refusal_for ReasonHostOwned, c)
          else
            let (gw, g) = ask_set a (cl_gateways c); c = c\<lparr>cl_gateways := g\<rparr> in
            if gw = None then (refusal_for ReasonGatewayUnknown, c)
            else if gw = Some True then (refusal_for ReasonGateway, c)
            else
              let (inside, n) = ask_set a (cl_inner c); c = c\<lparr>cl_inner := n\<rparr> in
              if inside = None then (refusal_for ReasonHostNetworkUnknown, c)
              else if inside = Some True then (refusal_for ReasonHostNetwork, c)
              else (not_refused, c))"

section \<open>At the dial\<close>

datatype refused_error = RefusedError string string refusal

text \<open>\<open>Dialer.Control\<close> and \<open>controlLAN\<close>: \<open>parsed\<close> is the address \<open>netip.ParseAddrPort\<close> reads, if it
  reads one. No error is the dial going on.\<close>

definition control ::
    "(addr \<Rightarrow> classifier \<Rightarrow> refusal \<times> classifier) \<Rightarrow> classifier option \<Rightarrow> string \<Rightarrow> string \<Rightarrow>
     addr option \<Rightarrow> refused_error option \<times> classifier option" where
  "control check d network address parsed =
     (case d of
        None \<Rightarrow> (Some (RefusedError network address (refusal_for ''no classifier'')), None)
      | Some c \<Rightarrow>
          (case parsed of
             None \<Rightarrow> (Some (RefusedError network address (refusal_for ''unparseable dial address'')), Some c)
           | Some a \<Rightarrow>
               (let (r, c) = check a c in
                (if Refused r then Some (RefusedError network address r) else None, Some c))))"

definition Control ::
    "classifier option \<Rightarrow> string \<Rightarrow> string \<Rightarrow> addr option \<Rightarrow> refused_error option \<times> classifier option" where
  "Control = control Classify"

definition controlLAN ::
    "classifier option \<Rightarrow> string \<Rightarrow> string \<Rightarrow> addr option \<Rightarrow> refused_error option \<times> classifier option" where
  "controlLAN = control ClassifyLAN"

section \<open>What a clear address is\<close>

text \<open>The address as the kernel takes it, and every v4 address it spells.\<close>

definition spellings :: "addr \<Rightarrow> addr list" where
  "spellings a = canonAddr a # map snd (embedded (canonAddr a))"

text \<open>An address is off a table where no row holds it; and not the host's, at a question of it, where a list the
  host's source vouched for at that question does not hold it.\<close>

definition off_table :: "range list \<Rightarrow> addr \<Rightarrow> bool" where
  "off_table rs a \<longleftrightarrow> list_all (\<lambda>r. \<not> Contains (rg_prefix r) a) rs"

definition not_hosts :: "host_addrs \<Rightarrow> nat \<Rightarrow> addr \<Rightarrow> bool" where
  "not_hosts h k a \<longleftrightarrow> (\<exists>pfx. known_at h k pfx \<and> \<not> list_ex (\<lambda>p. Contains p (canonAddr a)) pfx)"

definition same_sources :: "classifier \<Rightarrow> classifier \<Rightarrow> bool" where
  "same_sources c c' \<longleftrightarrow>
     cl_ranges c' = cl_ranges c \<and> h_world (cl_host c') = h_world (cl_host c) \<and> h_maxAge (cl_host c') = h_maxAge (cl_host c) \<and>
     cl_gateways c' = cl_gateways c \<and> cl_inner c' = cl_inner c \<and> (host_ok (cl_host c) \<longrightarrow> host_ok (cl_host c'))"

lemma same_sources_refl [simp]: "same_sources c c"
  by (simp add: same_sources_def)

lemma same_sources_trans: "same_sources a b \<Longrightarrow> same_sources b c \<Longrightarrow> same_sources a c"
  by (simp add: same_sources_def)

lemma Refused_simps [simp]: "Refused (refusal_for x) \<longleftrightarrow> x \<noteq> []" "\<not> Refused not_refused"
  "r_reason (refusal_for x) = x" "r_spelling (refusal_for x) = []"
  by (simp_all add: Refused_def refusal_for_def not_refused_def)

lemma not_hosts_same: "same_sources c c' \<Longrightarrow> not_hosts (cl_host c') = not_hosts (cl_host c)"
  using known_at_same [of "cl_host c'" "cl_host c"] by (simp add: same_sources_def not_hosts_def fun_eq_iff)

text \<open>What one lookup says of an address it does not refuse, and that it is one question of the host.\<close>

definition let_through :: "classifier \<Rightarrow> nat \<Rightarrow> addr \<Rightarrow> bool" where
  "let_through c k a \<longleftrightarrow> off_table (cl_ranges c) a \<and> (host_ok (cl_host c) \<longrightarrow> not_hosts (cl_host c) k a)"

lemma let_through_same: "same_sources c c' \<Longrightarrow> host_ok (cl_host c) \<Longrightarrow> let_through c' k a \<longleftrightarrow> let_through c k a"
  using not_hosts_same [of c c'] by (simp add: let_through_def same_sources_def)

lemma classify_here_clear:
  assumes "classify_here a c = (r, c')" "\<forall>x\<in>set (cl_ranges c). rg_reason x \<noteq> []"
  shows "same_sources c c' \<and> r_spelling r = [] \<and> (\<not> Refused r \<longrightarrow>
    let_through c (h_asked (cl_host c)) a \<and> r = not_refused \<and> h_asked (cl_host c') = Suc (h_asked (cl_host c)))"
proof (cases "find (\<lambda>r. Contains (rg_prefix r) a) (cl_ranges c)")
  case (Some x)
  then have "x \<in> set (cl_ranges c)" by (auto simp: find_Some_iff)
  with Some assms show ?thesis by (auto simp: classify_here_def)
next
  case None
  obtain b h where h: "host_Contains a (cl_host c) = (b, h)" by fastforce
  with host_Contains_world [of a "cl_host c"]
  have w: "h_world h = h_world (cl_host c)" "h_asked h = Suc (h_asked (cl_host c))" "h_maxAge h = h_maxAge (cl_host c)" by simp_all
  note known = host_Contains_known [OF h]
  have "b = Some False \<longrightarrow> let_through c (h_asked (cl_host c)) a"
    using None known by (auto simp: let_through_def off_table_def not_hosts_def list_all_iff find_None_iff)
  then show ?thesis
    using None h assms(1) w known
    by (cases b) (auto simp: classify_here_def same_sources_def not_refused_def split: bool.splits)
qed

lemma classify_embedded_clear:
  assumes "\<forall>x\<in>set (cl_ranges c). rg_reason x \<noteq> []"
  shows "classify_embedded vs c = (r, c') \<Longrightarrow>
    same_sources c c' \<and> (Refused r \<longrightarrow> r_spelling r \<in> fst ` set vs) \<and>
    (\<not> Refused r \<longrightarrow> r = not_refused \<and> (\<forall>v\<in>set vs. off_table (cl_ranges c) (snd v)) \<and>
       (host_ok (cl_host c) \<longrightarrow> (\<forall>i < length vs. not_hosts (cl_host c) (h_asked (cl_host c) + i) (snd (vs ! i)))))"
  using assms
proof (induction vs c rule: classify_embedded.induct)
  case (1 c)
  then show ?case by (auto simp: not_refused_def)
next
  case (2 spelling v4 vs c)
  obtain r1 c1 where h: "classify_here v4 c = (r1, c1)" by fastforce
  note here = classify_here_clear [OF h "2.prems"(2)]
  show ?case
  proof (cases "Refused r1")
    case True
    with h here "2.prems"(1) show ?thesis by (auto simp: Refused_def)
  next
    case False
    with h here "2.prems" "2.IH" [OF h [symmetric] refl False] have ih:
      "same_sources c1 c' \<and> (Refused r \<longrightarrow> r_spelling r \<in> fst ` set vs) \<and>
       (\<not> Refused r \<longrightarrow> r = not_refused \<and> (\<forall>v\<in>set vs. off_table (cl_ranges c1) (snd v)) \<and>
         (host_ok (cl_host c1) \<longrightarrow> (\<forall>i < length vs. not_hosts (cl_host c1) (h_asked (cl_host c1) + i) (snd (vs ! i)))))"
      by (simp add: same_sources_def)
    from here False have c1: "cl_ranges c1 = cl_ranges c" "host_ok (cl_host c) \<longrightarrow> host_ok (cl_host c1)"
      "not_hosts (cl_host c1) = not_hosts (cl_host c)" "h_asked (cl_host c1) = Suc (h_asked (cl_host c))"
      "let_through c (h_asked (cl_host c)) v4"
      using not_hosts_same [of c c1] by (auto simp: same_sources_def)
    have "not_hosts (cl_host c) (h_asked (cl_host c) + i) (snd (((spelling, v4) # vs) ! i))"
      if "\<not> Refused r" "host_ok (cl_host c)" "i < Suc (length vs)" for i
      using that ih c1 by (cases i) (auto simp: let_through_def)
    with ih c1 here show ?thesis by (auto simp: let_through_def intro: same_sources_trans)
  qed
qed

lemma Classify_canon: "IsValid a \<Longrightarrow> Classify a c = classify_addr (canonAddr a) c"
  by (cases "Is4In6 a") (simp_all add: Classify_def canonAddr_def Let_def)

lemma Classify_clear_all:
  assumes "Classify a c = (r, c')" "\<forall>x\<in>set (cl_ranges c). rg_reason x \<noteq> []"
  shows "same_sources c c' \<and>
    (\<not> Refused r \<longrightarrow> r = not_refused \<and> IsValid a \<and> (\<forall>s\<in>set (spellings a). off_table (cl_ranges c) s) \<and>
       (host_ok (cl_host c) \<longrightarrow>
          (\<forall>i < length (spellings a). not_hosts (cl_host c) (h_asked (cl_host c) + i) (spellings a ! i))))"
proof (cases "IsValid a")
  case False
  with assms show ?thesis by (auto simp: Classify_def)
next
  case True
  obtain r1 c1 where h: "classify_here (canonAddr a) c = (r1, c1)" by fastforce
  note here = classify_here_clear [OF h assms(2)]
  show ?thesis
  proof (cases "Refused r1")
    case True
    with h here assms(1) \<open>IsValid a\<close> show ?thesis by (simp add: Classify_canon classify_addr_def)
  next
    case False
    let ?vs = "embedded (canonAddr a)"
    from False h assms(1) True have e: "classify_embedded ?vs c1 = (r, c')"
      by (simp add: Classify_canon classify_addr_def)
    from here False have c1: "cl_ranges c1 = cl_ranges c" "host_ok (cl_host c) \<longrightarrow> host_ok (cl_host c1)"
      "not_hosts (cl_host c1) = not_hosts (cl_host c)" "h_asked (cl_host c1) = Suc (h_asked (cl_host c))"
      "let_through c (h_asked (cl_host c)) (canonAddr a)" "same_sources c c1"
      using not_hosts_same [of c c1] by (auto simp: same_sources_def)
    have "\<forall>x\<in>set (cl_ranges c1). rg_reason x \<noteq> []" using c1(1) assms(2) by simp
    note es = classify_embedded_clear [OF this e]
    have "not_hosts (cl_host c) (h_asked (cl_host c) + i) (spellings a ! i)"
      if "\<not> Refused r" "host_ok (cl_host c)" "i < length (spellings a)" for i
      using that es c1 by (cases i) (auto simp: let_through_def spellings_def)
    with es c1 True show ?thesis by (auto simp: let_through_def spellings_def intro: same_sources_trans)
  qed
qed

end
