(* ===== verification/Egress_Structural.thy ===== *)
theory Egress_Structural
  imports Egress_Classify
begin

text \<open>
  What the egress classifier shows: an address it lets through is clear of its table and its host
  in every spelling it has, and the local network's variant lets through only what is nobody's.
\<close>

section \<open>The table a classifier is built with\<close>

lemma canonPrefix_Inr: "canonPrefix p = Inr q \<Longrightarrow> Contains q a = Contains p a"
  by (auto simp: canonPrefix_def Contains_Masked split: if_splits)

lemma canon_ranges_Inr:
  "canon_ranges rs = Inr out \<Longrightarrow>
   (\<forall>x\<in>set out. rg_reason x \<noteq> []) \<and>
   ((\<exists>x\<in>set out. Contains (rg_prefix x) a) \<longleftrightarrow> (\<exists>x\<in>set rs. Contains (rg_prefix x) a))"
  by (induction rs arbitrary: out) (auto simp: ok_then_Inr canonPrefix_Inr split: if_splits)

lemma NewClassifier_ranges:
  assumes "NewClassifier ranges (Some h) = Inr c"
  shows "(\<forall>x\<in>set (cl_ranges c). rg_reason x \<noteq> []) \<and> cl_host c = h \<and>
    ((\<exists>x\<in>set (cl_ranges c). Contains (rg_prefix x) a) \<longleftrightarrow>
     (\<exists>x\<in>set (case ranges of None \<Rightarrow> DefaultRanges | Some rs \<Rightarrow> rs). Contains (rg_prefix x) a))"
  using assms canon_ranges_Inr [of "case ranges of None \<Rightarrow> DefaultRanges | Some rs \<Rightarrow> rs" _ a]
  by (auto simp: NewClassifier_def ok_then_Inr)

section \<open>Spelling a v4 address\<close>

definition spell :: "128 word \<Rightarrow> 32 word \<Rightarrow> 128 word" where
  "spell base x = base OR ucast x"

definition spell_6to4 :: "32 word \<Rightarrow> 128 word \<Rightarrow> 128 word" where
  "spell_6to4 x rest = 0x20020000000000000000000000000000 OR push_bit 80 (ucast x) OR take_bit 80 rest"

lemma drop_ucast: "drop_bit 32 (ucast x :: 128 word) = 0" for x :: "32 word"
  by (rule bit_word_eqI) (auto simp: bit_simps dest: bit_imp_le_length)

lemma ucast_back: "ucast (ucast x :: 128 word) = x" for x :: "32 word"
  by (rule bit_word_eqI) (auto simp: bit_simps)

lemma ucast_or: "ucast (x OR y) = (ucast x OR ucast y :: 32 word)" for x y :: "128 word"
  by (rule bit_word_eqI) (auto simp: bit_simps)

lemma spell_low:
  assumes "(ucast base :: 32 word) = 0"
  shows "v4At (spell base x) 12 = x"
proof -
  have "v4At (spell base x) 12 = ucast base OR ucast (ucast x :: 128 word)"
    by (simp add: v4At_def spell_def ucast_or)
  also have "\<dots> = x" using assms by (simp add: ucast_back)
  finally show ?thesis .
qed

lemma spell_prefix: "drop_bit 32 (spell base x) = drop_bit 32 base"
  by (simp add: spell_def drop_ucast)

lemma spell_Contains: "Contains \<lparr>p_addr = V6 base [], p_bits = Some 96\<rparr> (V6 (spell base x) [])"
  by (simp add: Contains_def drop_bit_xor_zero spell_prefix)

lemma spell_6to4_Contains:
  "Contains \<lparr>p_addr = V6 0x20020000000000000000000000000000 [], p_bits = Some 16\<rparr> (V6 (spell_6to4 x rest) [])"
proof -
  have "drop_bit 112 (push_bit 80 (ucast x :: 128 word)) = 0" "drop_bit 112 (take_bit 80 rest) = 0"
    by (rule bit_word_eqI; auto simp: bit_simps dest: bit_imp_le_length)+
  then show ?thesis by (simp add: Contains_def drop_bit_xor_zero spell_6to4_def)
qed

lemma spell_6to4_extract: "v4At (spell_6to4 x rest) 2 = x"
proof -
  have a: "drop_bit 80 (push_bit 80 (ucast x :: 128 word)) = ucast x"
    by (rule bit_word_eqI) (auto simp: bit_simps dest: bit_imp_le_length)
  have b: "drop_bit 80 (take_bit 80 rest) = 0"
    by (rule bit_word_eqI) (auto simp: bit_simps)
  have c: "ucast (drop_bit 80 (0x20020000000000000000000000000000 :: 128 word)) = (0 :: 32 word)"
    by code_simp
  have "v4At (spell_6to4 x rest) 2 =
      ucast (drop_bit 80 (0x20020000000000000000000000000000 :: 128 word)) OR
      ucast (drop_bit 80 (push_bit 80 (ucast x :: 128 word))) OR ucast (drop_bit 80 (take_bit 80 rest))"
    by (simp only: v4At_def spell_6to4_def drop_bit_or ucast_or) simp
  also have "\<dots> = x" unfolding a b c ucast_back by simp
  finally show ?thesis .
qed

text \<open>The v6 addresses that spell a v4 one: mapped, compatible, translated, by NAT64, and by 6to4
  at any host.\<close>

definition spelled :: "32 word \<Rightarrow> 128 word set" where
  "spelled x =
     {spell 0xFFFF00000000 x, spell 0 x, spell 0xFFFF000000000000 x, spell 0x0064FF9B000000000000000000000000 x} \<union>
     range (spell_6to4 x)"

lemma spelled_spellings: "y \<in> spelled x \<Longrightarrow> V4 x \<in> set (spellings (V6 y z))"
proof -
  assume "y \<in> spelled x"
  then consider "y = spell 0xFFFF00000000 x" | "y = spell 0 x" | "y = spell 0xFFFF000000000000 x"
    | "y = spell 0x0064FF9B000000000000000000000000 x" | rest where "y = spell_6to4 x rest"
    by (auto simp: spelled_def)
  then show ?thesis
  proof cases
    case 1
    have "(ucast (0xFFFF00000000 :: 128 word) :: 32 word) = 0" by code_simp
    then have "v4At y 12 = x" using 1 spell_low by simp
    moreover have "Is4In6 (V6 y [])"
    proof -
      have "drop_bit 32 (0xFFFF00000000 :: 128 word) = 0xFFFF" by code_simp
      with 1 show ?thesis by (simp add: spell_prefix)
    qed
    ultimately show ?thesis by (simp add: spellings_def canonAddr_def)
  next
    case 2
    have "(ucast (0 :: 128 word) :: 32 word) = 0" by simp
    then show ?thesis
      using 2 spell_low [of 0 x] spell_Contains [of 0 x]
      by (auto simp: spellings_def canonAddr_def embedded_def embeddings_def spell_prefix)
  next
    case 3
    have "(ucast (0xFFFF000000000000 :: 128 word) :: 32 word) = 0" by code_simp
    moreover have "\<not> Is4In6 (V6 y [])"
    proof -
      have "drop_bit 32 (0xFFFF000000000000 :: 128 word) \<noteq> 0xFFFF" by code_simp
      with 3 show ?thesis by (simp add: spell_prefix)
    qed
    ultimately show ?thesis
      using 3 spell_low [of "0xFFFF000000000000" x] spell_Contains [of "0xFFFF000000000000" x]
      by (auto simp: spellings_def canonAddr_def embedded_def embeddings_def simp del: Is4In6.simps)
  next
    case 4
    have "(ucast (0x0064FF9B000000000000000000000000 :: 128 word) :: 32 word) = 0" by code_simp
    moreover have "\<not> Is4In6 (V6 y [])"
    proof -
      have "drop_bit 32 (0x0064FF9B000000000000000000000000 :: 128 word) \<noteq> 0xFFFF" by code_simp
      with 4 show ?thesis by (simp add: spell_prefix)
    qed
    ultimately show ?thesis
      using 4 spell_low [of "0x0064FF9B000000000000000000000000" x]
        spell_Contains [of "0x0064FF9B000000000000000000000000" x]
      by (auto simp: spellings_def canonAddr_def embedded_def embeddings_def simp del: Is4In6.simps)
  next
    case 5
    have "\<not> Is4In6 (V6 y [])"
    proof
      assume "Is4In6 (V6 y [])"
      then have "drop_bit 80 (drop_bit 32 y) = drop_bit 80 (0xFFFF :: 128 word)" by simp
      then have "drop_bit 112 y = (0 :: 128 word)" by (simp add: drop_bit_drop_bit)
      moreover have "drop_bit 112 y = (0x2002 :: 128 word)"
        using spell_6to4_Contains [of x rest] 5 by (auto simp: Contains_def xor_zero)
      ultimately show False by simp
    qed
    then show ?thesis
      using 5 spell_6to4_extract [of x rest] spell_6to4_Contains [of x rest]
      by (auto simp: spellings_def canonAddr_def embedded_def embeddings_def simp del: Is4In6.simps)
  qed
qed


section \<open>What is let through\<close>

definition example_classifier :: classifier where
  "example_classifier =
     (case NewClassifier None (Some example_host) of Inr c \<Rightarrow> c | Inl _ \<Rightarrow>
        \<lparr>cl_ranges = [], cl_host = example_host, cl_gateways = None, cl_inner = None\<rparr>)"

lemma example_classifier_built: "NewClassifier None (Some example_host) = Inr example_classifier"
proof -
  have "\<exists>c. NewClassifier None (Some example_host) = Inr c"
    by (simp add: NewClassifier_def DefaultRanges_def canonPrefix_def prefix_valid_def row4_def row6_def)
  then show ?thesis by (auto simp: example_classifier_def)
qed

lemma Classify_same: "Classify a c = (r, c') \<Longrightarrow> \<forall>x\<in>set (cl_ranges c). rg_reason x \<noteq> [] \<Longrightarrow> same_sources c c'"
  using Classify_clear_all by blast

text \<open>A refusal as on the local network is a row's, and asks the host nothing.\<close>

lemma lan_row:
  assumes "Classify a c = (r, c')" "lan r" "\<forall>x\<in>set (cl_ranges c). rg_reason x \<noteq> []"
  shows "c' = c \<and> find (\<lambda>r. Contains (rg_prefix r) (canonAddr a)) (cl_ranges c) \<noteq> None"
proof -
  have v: "IsValid a"
  proof (rule ccontr)
    assume "\<not> IsValid a"
    with assms(1) have "r = refusal_for ReasonInvalid" by (simp add: Classify_def)
    with assms(2) show False by (simp add: lan_def)
  qed
  obtain r1 c1 where h: "classify_here (canonAddr a) c = (r1, c1)" by fastforce
  note here = classify_here_clear [OF h assms(3)]
  show ?thesis
  proof (cases "Refused r1")
    case True
    with h assms(1,2) v have "lan r1" "c' = c1" by (simp_all add: Classify_canon classify_addr_def)
    with h show ?thesis by (auto simp: classify_here_def lan_def not_refused_def split: option.splits prod.splits bool.splits)
  next
    case False
    with h v assms(1) have e: "classify_embedded (embedded (canonAddr a)) c1 = (r, c')"
      by (simp add: Classify_canon classify_addr_def)
    have "\<forall>x\<in>set (cl_ranges c1). rg_reason x \<noteq> []" using here assms(3) by (simp add: same_sources_def)
    from classify_embedded_clear [OF this e] assms(2) have "[] \<in> fst ` set (embedded (canonAddr a))"
      by (auto simp: lan_def Refused_def)
    moreover have "[] \<noteq> em_spelling e" if "e \<in> set embeddings" for e using that by (auto simp: embeddings_def)
    ultimately show ?thesis by (auto simp: embedded_def split: addr.splits)
  qed
qed

text \<open>What asking a classifier changes: no row, and no source.\<close>

definition same_table :: "classifier \<Rightarrow> classifier \<Rightarrow> bool" where
  "same_table c c' \<longleftrightarrow> cl_ranges c' = cl_ranges c \<and> h_world (cl_host c') = h_world (cl_host c) \<and>
     h_maxAge (cl_host c') = h_maxAge (cl_host c) \<and> (host_ok (cl_host c) \<longrightarrow> host_ok (cl_host c'))"

lemma same_table_refl [simp]: "same_table c c"
  by (simp add: same_table_def)

lemma same_table_trans: "same_table a b \<Longrightarrow> same_table b c \<Longrightarrow> same_table a c"
  by (simp add: same_table_def)

lemma same_sources_table: "same_sources c c' \<Longrightarrow> same_table c c'"
  by (simp add: same_sources_def same_table_def)

lemma ClassifyLAN_table:
  assumes "ClassifyLAN a c = (r, c')" "\<forall>x\<in>set (cl_ranges c). rg_reason x \<noteq> []"
  shows "same_table c c'"
proof -
  obtain r1 c1 where k: "Classify a c = (r1, c1)" by fastforce
  from Classify_same [OF k assms(2)] have same: "same_table c c1" by (rule same_sources_table)
  obtain b h where h: "host_Contains (canonAddr a) (cl_host c1) = (b, h)" by fastforce
  have w: "h_world h = h_world (cl_host c1)" "h_maxAge h = h_maxAge (cl_host c1)" "host_ok (cl_host c1) \<longrightarrow> host_ok h"
    using host_Contains_world [of "canonAddr a" "cl_host c1"] host_Contains_known [OF h] h by simp_all
  have "cl_ranges c' = cl_ranges c1 \<and> (cl_host c' = cl_host c1 \<or> cl_host c' = h)"
    using assms(1) k h by (auto simp: ClassifyLAN_def Let_def split: if_splits prod.splits)
  with same w show ?thesis by (auto simp: same_table_def)
qed

text \<open>A classifier after questions: of each, whether it is for the local network.\<close>

fun after_asking :: "classifier \<Rightarrow> (bool \<times> addr) list \<Rightarrow> classifier" where
  "after_asking c [] = c"
| "after_asking c ((local, a) # qs) = after_asking (snd (if local then ClassifyLAN a c else Classify a c)) qs"

lemma after_asking_table:
  "\<forall>x\<in>set (cl_ranges c). rg_reason x \<noteq> [] \<Longrightarrow> same_table c (after_asking c qs)"
proof (induction c qs rule: after_asking.induct)
  case (2 c lan_too a qs)
  obtain r c1 where k: "(if lan_too then ClassifyLAN a c else Classify a c) = (r, c1)" by fastforce
  have same: "same_table c c1"
    using k ClassifyLAN_table Classify_same same_sources_table "2.prems" by (cases lan_too) (simp; blast)+
  then have "\<forall>x\<in>set (cl_ranges c1). rg_reason x \<noteq> []" using "2.prems" by (simp add: same_table_def)
  with "2.IH" k same show ?case by (auto intro: same_table_trans)
qed simp

text \<open>
  C31: a structural refusal has no way round it by spelling. An address a classifier does not refuse, whatever it
  was asked before, is a valid one, and neither it, in the form the kernel takes it, nor any v4 address written
  inside it is in a row of the table, or the host's: each of them was looked for, at a question of its own, in a
  list the host's source gave, just then or within the set's age by the clock of that question, and was not on it.
\<close>

theorem Classify_clear:
  assumes "NewClassifier ranges (Some (HostAddrsFrom w age)) = Inr c0" and "c = after_asking c0 qs"
    and "Classify a c = (r, c')" and "\<not> Refused r" and "k = h_asked (cl_host c)"
  shows "IsValid a \<and>
    list_all (off_table (case ranges of None \<Rightarrow> DefaultRanges | Some rs \<Rightarrow> rs)) (spellings a) \<and>
    (\<forall>i < length (spellings a). \<exists>j raw. j \<le> k + i \<and> w_source (w j) = Some raw \<and>
       (j = k + i \<or> age \<le> 0 \<or> w_checked (w (k + i)) - w_read (w j) < age) \<and>
       \<not> list_ex (\<lambda>p. Contains p (canonAddr (spellings a ! i))) (List.map_filter canon_read raw))"
proof -
  note n = NewClassifier_ranges [OF assms(1)]
  then have h0: "cl_host c0 = HostAddrsFrom w age" "\<forall>x\<in>set (cl_ranges c0). rg_reason x \<noteq> []" by blast+
  have same: "same_table c0 c" unfolding assms(2) by (rule after_asking_table) (rule h0(2))
  then have c: "\<forall>x\<in>set (cl_ranges c). rg_reason x \<noteq> []" "host_ok (cl_host c)" "h_world (cl_host c) = w" "h_maxAge (cl_host c) = age"
    using h0 host_ok_From [of w age] by (simp_all add: same_table_def) (simp_all add: HostAddrsFrom_def)
  note all = Classify_clear_all [OF assms(3) c(1)]
  have "off_table (cl_ranges c) s = off_table (case ranges of None \<Rightarrow> DefaultRanges | Some rs \<Rightarrow> rs) s" for s
    using n [of s] same by (auto simp: off_table_def same_table_def list_all_iff)
  with all assms(4) have "list_all (off_table (case ranges of None \<Rightarrow> DefaultRanges | Some rs \<Rightarrow> rs)) (spellings a)"
    by (simp add: list_all_iff)
  moreover have "\<exists>j raw. j \<le> k + i \<and> w_source (w j) = Some raw \<and>
       (j = k + i \<or> age \<le> 0 \<or> w_checked (w (k + i)) - w_read (w j) < age) \<and>
       \<not> list_ex (\<lambda>p. Contains p (canonAddr (spellings a ! i))) (List.map_filter canon_read raw)"
    if "i < length (spellings a)" for i
  proof -
    from that all assms(4) c(2) have "not_hosts (cl_host c) (k + i) (spellings a ! i)" by (simp add: assms(5))
    then show ?thesis unfolding not_hosts_def known_at_def c(3,4) by blast
  qed
  ultimately show ?thesis using all assms(4) by blast
qed

lemma example_refusal: "\<not> Refused (fst (Classify (V4 0x08080808) example_classifier))"
  by code_simp

lemma example_host_From: "HostAddrsFrom (h_world example_host) DefaultHostMaxAge = example_host"
  unfolding example_host_def NewHostAddrs_def HostAddrsFrom_def by (simp only: host_addrs.simps order_refl if_True)

theorem Classify_clear_witness:
  "off_table DefaultRanges (V4 0x08080808) \<and>
   (\<exists>raw. w_source (h_world example_host 0) = Some raw \<and>
      \<not> list_ex (\<lambda>p. Contains p (V4 0x08080808)) (List.map_filter canon_read raw))"
proof -
  obtain r c' where c: "Classify (V4 0x08080808) example_classifier = (r, c')" by fastforce
  with example_refusal have n: "\<not> Refused r" by simp
  have same: "example_classifier = after_asking example_classifier []" by simp
  have s: "spellings (V4 0x08080808) = [V4 0x08080808]" "canonAddr (V4 0x08080808) = V4 0x08080808" by code_simp+
  have k: "0 = h_asked (cl_host example_classifier)" by code_simp
  have built: "NewClassifier None (Some (HostAddrsFrom (h_world example_host) DefaultHostMaxAge)) = Inr example_classifier"
    unfolding example_host_From by (rule example_classifier_built)
  note all = Classify_clear [OF built same c n k, unfolded s option.case]
  from all have "list_all (off_table DefaultRanges) [V4 0x08080808]" by blast
  moreover obtain raw where "w_source (h_world example_host 0) = Some raw"
    "\<not> list_ex (\<lambda>p. Contains p (V4 0x08080808)) (List.map_filter canon_read raw)"
    using all [THEN conjunct2, THEN conjunct2, rule_format, of 0] by (auto simp: s(2))
  ultimately show ?thesis by auto
qed

text \<open>
  What the shipped table refuses, it refuses in every spelling. A v4 address in a row of the
  table is refused written as itself, and in each v6 address that carries it: mapped,
  compatible, translated, by NAT64, and by 6to4 at any host, with any zone.
\<close>

theorem Classify_spelled:
  assumes "NewClassifier None (Some h) = Inr c0" and "same_sources c0 c"
    and "x \<in> set DefaultRanges" and "Contains (rg_prefix x) (V4 v)" and "a \<in> insert (V4 v) {V6 y z |y z. y \<in> spelled v}"
  shows "Refused (fst (Classify a c))"
proof (rule ccontr)
  assume n: "\<not> Refused (fst (Classify a c))"
  have "\<forall>x\<in>set (cl_ranges c). rg_reason x \<noteq> []"
    using NewClassifier_ranges [OF assms(1)] assms(2) by (simp add: same_sources_def)
  from Classify_clear_all [OF prod.collapse [symmetric] this] n
  have clear: "\<forall>s\<in>set (spellings a). off_table (cl_ranges c) s" by blast
  have "V4 v \<in> set (spellings (V4 v))" by (simp add: spellings_def canonAddr_def)
  with assms(5) spelled_spellings have "V4 v \<in> set (spellings a)" by blast
  with clear have "off_table (cl_ranges c) (V4 v)" by blast
  with NewClassifier_ranges [OF assms(1), of "V4 v"] assms show False
    by (auto simp: off_table_def list_all_iff same_sources_def)
qed

theorem Classify_spelled_witness:
  "Refused (fst (Classify (V6 (spell 0x0064FF9B000000000000000000000000 0x7F000001) ''eth0'') example_classifier))"
proof (rule Classify_spelled [OF example_classifier_built same_sources_refl])
  show "row4 0x7F000000 8 ReasonLoopback \<in> set DefaultRanges" by (simp add: DefaultRanges_def)
  show "Contains (rg_prefix (row4 0x7F000000 8 ReasonLoopback)) (V4 0x7F000001)" by code_simp
qed (simp add: spelled_def)

section \<open>The local network\<close>

text \<open>An address refused only as on the local network, and nobody's, by the classifier as it is: no metadata
  service's, and not the host's own, a router's or of a network only the host is on, all of which are known.\<close>

definition set_without :: "addr \<Rightarrow> host_addrs option \<Rightarrow> bool" where
  "set_without a h \<longleftrightarrow> (case h of None \<Rightarrow> False | Some h \<Rightarrow> fst (host_Contains a h) = Some False)"

definition lan_free :: "addr \<Rightarrow> classifier \<Rightarrow> bool" where
  "lan_free a c \<longleftrightarrow>
     lan (fst (Classify a c)) \<and> \<not> list_ex (\<lambda>p. Contains p (canonAddr a)) metadata \<and>
     set_without a (Some (cl_host c)) \<and> set_without a (cl_gateways c) \<and> set_without a (cl_inner c)"

lemma ask_set_without: "fst (ask_set a h) = Some False \<longleftrightarrow> set_without a h"
  by (cases h) (auto simp: ask_set_def set_without_def split: prod.split)

lemma host_Contains_canon: "host_Contains (canonAddr a) = host_Contains a"
  by (rule ext) (rule host.spelling)

lemma ask_set_canon: "ask_set (canonAddr a) = ask_set a"
  by (simp add: ask_set_def fun_eq_iff host_Contains_canon split: option.split)

text \<open>Past a refusal as on the local network, what is asked is not changed by the asking of it.\<close>

lemma ClassifyLAN_lan:
  assumes "Classify a c = (r, c)" "lan r"
  shows "Refused (fst (ClassifyLAN a c)) \<longleftrightarrow> list_ex (\<lambda>p. Contains p (canonAddr a)) metadata \<or>
    fst (host_Contains a (cl_host c)) \<noteq> Some False \<or> fst (ask_set a (cl_gateways c)) \<noteq> Some False \<or>
    fst (ask_set a (cl_inner c)) \<noteq> Some False"
proof -
  have three: "x \<noteq> Some False \<longleftrightarrow> x = None \<or> x = Some True" for x :: "bool option" by (cases x) auto
  obtain b h where h: "host_Contains a (cl_host c) = (b, h)" by fastforce
  obtain gw g where g: "ask_set a (cl_gateways c) = (gw, g)" by fastforce
  obtain inn n where i: "ask_set a (cl_inner c) = (inn, n)" by fastforce
  have u: "cl_gateways (c\<lparr>cl_host := h\<rparr>) = cl_gateways c" "cl_inner (c\<lparr>cl_host := h, cl_gateways := g\<rparr>) = cl_inner c" by simp_all
  have "fst (ClassifyLAN a c) =
      (if list_ex (\<lambda>p. Contains p (canonAddr a)) metadata then refusal_for ReasonMetadata
       else if b = None then refusal_for ReasonHostUnknown else if b = Some True then refusal_for ReasonHostOwned
       else if gw = None then refusal_for ReasonGatewayUnknown else if gw = Some True then refusal_for ReasonGateway
       else if inn = None then refusal_for ReasonHostNetworkUnknown else if inn = Some True then refusal_for ReasonHostNetwork
       else not_refused)"
    using assms by (simp only: ClassifyLAN_def Let_def host_Contains_canon ask_set_canon prod.case h g i if_False not_True_eq_False
      u if_distrib [of fst] fst_conv)
  then show ?thesis unfolding h g i fst_conv three by simp
qed

text \<open>The local network is reached only where it is nobody's.\<close>

theorem ClassifyLAN_clear:
  assumes "\<forall>x\<in>set (cl_ranges c). rg_reason x \<noteq> []"
  shows "\<not> Refused (fst (ClassifyLAN a c)) \<longleftrightarrow> \<not> Refused (fst (Classify a c)) \<or> lan_free a c"
proof -
  obtain r c1 where k: "Classify a c = (r, c1)" by fastforce
  show ?thesis
  proof (cases "lan r")
    case False
    with k show ?thesis by (simp add: ClassifyLAN_def lan_free_def)
  next
    case True
    then have same: "Classify a c = (r, c)" and ref: "Refused r" using lan_row [OF k _ assms] k by (auto simp: lan_def Refused_def)
    have "lan_free a c \<longleftrightarrow> \<not> Refused (fst (ClassifyLAN a c))"
      unfolding ClassifyLAN_lan [OF same True] lan_free_def ask_set_without same
      using True unfolding set_without_def option.case fst_conv by blast
    with ref same show ?thesis by simp
  qed
qed

end
