(* ===== verification/Egress_Resolved.thy ===== *)
theory Egress_Resolved
  imports Net_Addr
begin

text \<open>
  A session's resolved set, \<open>internal/egress/resolved.go\<close>: the addresses its DNS answered, each
  until its answer's clamped lifetime ends, at most a capacity of them.

  The code keeps a linked list of items, least recently recorded first, and an index from address
  to list element. So does the model: an element is a number, \<open>rs_item\<close> what is stored there. The
  abstract set is a list of addresses with their entries, and the operations refine it.
\<close>

section \<open>The set\<close>

record entry =
  en_Name :: string
  en_Query :: nat
  en_Expires :: int

record resolved_config =
  MinTTL :: int
  MaxTTL :: int
  Cap :: int

record resolved =
  rs_cfg :: resolved_config
  rs_index :: "addr \<Rightarrow> nat option"
  rs_order :: "nat list"
  rs_item :: "nat \<Rightarrow> addr \<times> entry"
  rs_next :: nat

definition DefaultMinTTL :: int where "DefaultMinTTL = 60000000000"
definition DefaultMaxTTL :: int where "DefaultMaxTTL = 3600000000000"
definition DefaultResolvedCap :: int where "DefaultResolvedCap = 4096"

definition NewResolved :: "resolved_config \<Rightarrow> resolved" where
  "NewResolved cfg =
     (let mn = (if MinTTL cfg \<le> 0 then DefaultMinTTL else MinTTL cfg);
          mx = (if MaxTTL cfg \<le> 0 then DefaultMaxTTL else MaxTTL cfg);
          mx = (if mx < mn then mn else mx);
          cap = (if Cap cfg \<le> 0 then DefaultResolvedCap else Cap cfg)
      in \<lparr>rs_cfg = \<lparr>MinTTL = mn, MaxTTL = mx, Cap = cap\<rparr>, rs_index = (\<lambda>_. None), rs_order = [],
          rs_item = (\<lambda>_. (NoAddr, \<lparr>en_Name = [], en_Query = 0, en_Expires = 0\<rparr>)), rs_next = 0\<rparr>)"

text \<open>The loop that removes the front of the list while it is at its capacity.\<close>

fun evict :: "nat list \<Rightarrow> resolved \<Rightarrow> resolved" where
  "evict [] r = r"
| "evict (front # rest) r =
     (if int (length (front # rest)) \<ge> Cap (rs_cfg r)
      then evict rest (r\<lparr>rs_index := (rs_index r)(fst (rs_item r front) := None), rs_order := rest\<rparr>)
      else r)"

definition lifetime :: "resolved_config \<Rightarrow> int \<Rightarrow> int" where
  "lifetime cfg ttl = min (max ttl (MinTTL cfg)) (MaxTTL cfg)"

definition Record :: "int \<Rightarrow> string \<Rightarrow> addr \<Rightarrow> int \<Rightarrow> nat \<Rightarrow> resolved \<Rightarrow> resolved" where
  "Record now name a ttl query r =
     (if \<not> IsValid a then r
      else
        let a = canonAddr a;
            expires = now + lifetime (rs_cfg r) ttl in
        case rs_index r a of
          Some el \<Rightarrow>
            let e = snd (rs_item r el);
                e = \<lparr>en_Name = name, en_Query = query,
                  en_Expires = (if expires > en_Expires e then expires else en_Expires e)\<rparr>
            in r\<lparr>rs_item := (rs_item r)(el := (a, e)), rs_order := filter (\<lambda>x. x \<noteq> el) (rs_order r) @ [el]\<rparr>
        | None \<Rightarrow>
            let r = evict (rs_order r) r;
                el = rs_next r
            in r\<lparr>rs_item := (rs_item r)(el := (a, \<lparr>en_Name = name, en_Query = query, en_Expires = expires\<rparr>)),
                rs_order := rs_order r @ [el], rs_index := (rs_index r)(a := Some el), rs_next := Suc el\<rparr>)"

definition Lookup :: "int \<Rightarrow> addr \<Rightarrow> resolved \<Rightarrow> entry option \<times> resolved" where
  "Lookup now a r =
     (if \<not> IsValid a then (None, r)
      else
        let a = canonAddr a in
        case rs_index r a of
          None \<Rightarrow> (None, r)
        | Some el \<Rightarrow>
            let e = snd (rs_item r el) in
            if \<not> now < en_Expires e
            then (None, r\<lparr>rs_index := (rs_index r)(a := None), rs_order := filter (\<lambda>x. x \<noteq> el) (rs_order r)\<rparr>)
            else (Some e, r))"

definition Len :: "resolved \<Rightarrow> nat" where
  "Len r = length (rs_order r)"

section \<open>The abstract set\<close>

type_synonym answers = "(addr \<times> entry) list"

definition items :: "resolved \<Rightarrow> answers" where
  "items r = map (rs_item r) (rs_order r)"

definition note_answer :: "resolved_config \<Rightarrow> int \<Rightarrow> string \<Rightarrow> addr \<Rightarrow> int \<Rightarrow> nat \<Rightarrow> answers \<Rightarrow> answers" where
  "note_answer cfg now name a ttl query xs =
     (let expires = now + lifetime cfg ttl in
      case map_of xs a of
        Some e \<Rightarrow>
          filter (\<lambda>p. fst p \<noteq> a) xs @
          [(a, \<lparr>en_Name = name, en_Query = query, en_Expires = max expires (en_Expires e)\<rparr>)]
      | None \<Rightarrow>
          drop (Suc (length xs) - nat (Cap cfg)) xs @
          [(a, \<lparr>en_Name = name, en_Query = query, en_Expires = expires\<rparr>)])"

definition find_answer :: "int \<Rightarrow> addr \<Rightarrow> answers \<Rightarrow> entry option \<times> answers" where
  "find_answer now a xs =
     (case map_of xs a of
        None \<Rightarrow> (None, xs)
      | Some e \<Rightarrow> if now < en_Expires e then (Some e, xs) else (None, filter (\<lambda>p. fst p \<noteq> a) xs))"

section \<open>The invariant\<close>

definition config_ok :: "resolved_config \<Rightarrow> bool" where
  "config_ok cfg \<longleftrightarrow> 0 < MinTTL cfg \<and> MinTTL cfg \<le> MaxTTL cfg \<and> 0 < Cap cfg"

definition resolved_ok :: "resolved \<Rightarrow> bool" where
  "resolved_ok r \<longleftrightarrow>
     config_ok (rs_cfg r) \<and> distinct (rs_order r) \<and> distinct (map (\<lambda>el. fst (rs_item r el)) (rs_order r)) \<and>
     (\<forall>a el. rs_index r a = Some el \<longleftrightarrow> el \<in> set (rs_order r) \<and> fst (rs_item r el) = a) \<and>
     (\<forall>el\<in>set (rs_order r). el < rs_next r) \<and> int (length (rs_order r)) \<le> Cap (rs_cfg r)"

lemma NewResolved_ok: "resolved_ok (NewResolved cfg)"
  by (simp add: NewResolved_def resolved_ok_def config_ok_def Let_def DefaultMinTTL_def DefaultMaxTTL_def
      DefaultResolvedCap_def)

lemma lifetime_bounds: "config_ok cfg \<Longrightarrow> MinTTL cfg \<le> lifetime cfg ttl \<and> lifetime cfg ttl \<le> MaxTTL cfg"
  by (auto simp: lifetime_def config_ok_def)

lemma index_iff:
  "resolved_ok r \<Longrightarrow> rs_index r a = Some el \<longleftrightarrow> el \<in> set (rs_order r) \<and> fst (rs_item r el) = a"
  by (simp add: resolved_ok_def)

lemma index_None: "resolved_ok r \<Longrightarrow> rs_index r a = None \<Longrightarrow> x \<in> set (rs_order r) \<Longrightarrow> fst (rs_item r x) \<noteq> a"
  using index_iff [of r a x] by auto

lemma one_element:
  "resolved_ok r \<Longrightarrow> x \<in> set (rs_order r) \<Longrightarrow> y \<in> set (rs_order r) \<Longrightarrow>
   fst (rs_item r x) = fst (rs_item r y) \<Longrightarrow> x = y"
  using index_iff [of r "fst (rs_item r y)" x] index_iff [of r "fst (rs_item r y)" y] by auto

lemma index_map_of: "resolved_ok r \<Longrightarrow> map_of (items r) a = map_option (\<lambda>el. snd (rs_item r el)) (rs_index r a)"
proof -
  assume ok: "resolved_ok r"
  have keys: "distinct (map fst (items r))" using ok by (simp add: resolved_ok_def items_def comp_def)
  show ?thesis
  proof (cases "rs_index r a")
    case None
    have "\<forall>x\<in>set (rs_order r). fst (rs_item r x) \<noteq> a" using index_None [OF ok None] by blast
    then have "a \<notin> fst ` set (items r)" by (metis (no_types, lifting) image_iff items_def list.set_map)
    with None show ?thesis by (simp add: map_of_eq_None_iff)
  next
    case (Some el)
    then have "el \<in> set (rs_order r)" "fst (rs_item r el) = a" using ok by (auto simp: resolved_ok_def)
    then have "(a, snd (rs_item r el)) \<in> set (items r)" by (force simp: items_def)
    with keys Some show ?thesis by simp
  qed
qed

lemma filter_items:
  assumes "resolved_ok r" "rs_index r a = Some el"
  shows "map (rs_item r) (filter (\<lambda>x. x \<noteq> el) (rs_order r)) = filter (\<lambda>p. fst p \<noteq> a) (items r)"
proof -
  have "x \<noteq> el \<longleftrightarrow> fst (rs_item r x) \<noteq> a" if "x \<in> set (rs_order r)" for x
    using assms that unfolding resolved_ok_def by (metis (no_types, lifting) option.inject)
  then have "filter (\<lambda>x. x \<noteq> el) (rs_order r) = filter (\<lambda>x. fst (rs_item r x) \<noteq> a) (rs_order r)"
    by (rule filter_cong [OF refl])
  then show ?thesis by (simp add: items_def filter_map comp_def)
qed

text \<open>A list element that is filtered out of the order, with its index entry, leaves the set well
  formed.\<close>

lemma forget_ok:
  assumes "resolved_ok r" "rs_index r a = Some el"
  shows "resolved_ok (r\<lparr>rs_index := (rs_index r)(a := None), rs_order := filter (\<lambda>x. x \<noteq> el) (rs_order r)\<rparr>)"
proof -
  let ?o = "filter (\<lambda>x. x \<noteq> el) (rs_order r)"
  have "int (length ?o) \<le> int (length (rs_order r))" by simp
  also have "\<dots> \<le> Cap (rs_cfg r)" using assms by (simp add: resolved_ok_def)
  finally have len: "int (length ?o) \<le> Cap (rs_cfg r)" .
  have el: "el \<in> set (rs_order r)" "fst (rs_item r el) = a" using assms by (simp_all add: index_iff)
  have idx: "((rs_index r)(a := None)) b = Some x \<longleftrightarrow> x \<in> set ?o \<and> fst (rs_item r x) = b" for b x
    using index_iff [OF assms(1), of b x] one_element [OF assms(1), of x el] el by auto
  have "distinct (map (\<lambda>x. fst (rs_item r x)) ?o)"
    using assms by (simp add: resolved_ok_def distinct_map_filter)
  with len idx assms(1) show ?thesis by (simp add: resolved_ok_def)
qed

lemma forget_items:
  assumes "resolved_ok r" "rs_index r a = Some el"
  shows "items (r\<lparr>rs_index := (rs_index r)(a := None), rs_order := filter (\<lambda>x. x \<noteq> el) (rs_order r)\<rparr>) =
    filter (\<lambda>p. fst p \<noteq> a) (items r)"
  using filter_items [OF assms] by (simp add: items_def)

text \<open>Eviction drops the front of the list, as many as it takes to make room for one.\<close>

lemma evict_front:
  assumes "resolved_ok r" "rs_order r = front # rest"
  shows "resolved_ok (r\<lparr>rs_index := (rs_index r)(fst (rs_item r front) := None), rs_order := rest\<rparr>)"
proof -
  have "rs_index r (fst (rs_item r front)) = Some front" using assms by (simp add: index_iff)
  from forget_ok [OF assms(1) this] show ?thesis
    using assms by (auto simp: resolved_ok_def)
qed

lemma evict_spec:
  "resolved_ok r \<Longrightarrow> rs_order r = os \<Longrightarrow>
   (let r' = evict os r in
      resolved_ok r' \<and> int (Suc (length (rs_order r'))) \<le> Cap (rs_cfg r') \<and>
      rs_order r' = drop (Suc (length os) - nat (Cap (rs_cfg r))) os \<and>
      rs_item r' = rs_item r \<and> rs_cfg r' = rs_cfg r \<and> rs_next r' = rs_next r \<and>
      (rs_index r a = None \<longrightarrow> rs_index r' a = None))"
proof (induction os r rule: evict.induct)
  case (1 r)
  then show ?case by (auto simp: resolved_ok_def config_ok_def)
next
  case (2 front rest r)
  let ?r = "r\<lparr>rs_index := (rs_index r)(fst (rs_item r front) := None), rs_order := rest\<rparr>"
  show ?case
  proof (cases "int (length (front # rest)) \<ge> Cap (rs_cfg r)")
    case True
    have "int (length (front # rest)) \<le> Cap (rs_cfg r)" using "2.prems" by (simp add: resolved_ok_def)
    with True have cap: "nat (Cap (rs_cfg r)) = Suc (length rest)" by auto
    from "2.IH" [OF True evict_front [OF "2.prems"]] True cap show ?thesis
      by (auto simp: Let_def)
  next
    case False
    with "2.prems" show ?thesis by (auto simp: Let_def)
  qed
qed


lemma drop_items: "map (rs_item r) (drop n (rs_order r)) = drop n (items r)"
  by (simp add: items_def drop_map)

section \<open>The operations refine the abstract set\<close>

lemma length_filter_one: "distinct xs \<Longrightarrow> el \<in> set xs \<Longrightarrow> Suc (length (filter (\<lambda>x. x \<noteq> el) xs)) = length xs"
proof (induction xs)
  case (Cons x xs)
  have "filter (\<lambda>x. x \<noteq> el) ys = ys" if "el \<notin> set ys" for ys
    using that by (metis (mono_tags, lifting) filter_True)
  with Cons show ?case by (cases "x = el") auto
qed simp

lemma Record_fresh:
  fixes e
  assumes ok: "resolved_ok r" and room: "int (Suc (length (rs_order r))) \<le> Cap (rs_cfg r)"
    and a: "rs_index r a = None"
  defines "r' \<equiv> r\<lparr>rs_item := (rs_item r)(rs_next r := (a, e)), rs_order := rs_order r @ [rs_next r],
      rs_index := (rs_index r)(a := Some (rs_next r)), rs_next := Suc (rs_next r)\<rparr>"
  shows "resolved_ok r' \<and> items r' = items r @ [(a, e)]"
proof -
  have new: "x \<noteq> rs_next r" if "x \<in> set (rs_order r)" for x using ok that by (auto simp: resolved_ok_def)
  then have same: "map (\<lambda>x. ((rs_item r)(rs_next r := (a, e))) x) (rs_order r) = map (rs_item r) (rs_order r)"
    by (intro map_cong) auto
  have "distinct (map (\<lambda>x. fst (((rs_item r)(rs_next r := (a, e))) x)) (rs_order r))"
  proof -
    have "map (\<lambda>x. fst (((rs_item r)(rs_next r := (a, e))) x)) (rs_order r) = map (\<lambda>x. fst (rs_item r x)) (rs_order r)"
      using new by (intro map_cong) auto
    moreover have "distinct (map (\<lambda>x. fst (rs_item r x)) (rs_order r))" using ok by (simp add: resolved_ok_def)
    ultimately show ?thesis by (simp only:)
  qed
  moreover have "a \<notin> (\<lambda>x. fst (((rs_item r)(rs_next r := (a, e))) x)) ` set (rs_order r)"
    using index_None [OF ok a] new by auto
  moreover have "((rs_index r)(a := Some (rs_next r))) b = Some x \<longleftrightarrow>
      x \<in> set (rs_order r @ [rs_next r]) \<and> fst (((rs_item r)(rs_next r := (a, e))) x) = b" for b x
    using index_iff [OF ok, of b x] index_None [OF ok a, of x] new [of x] by auto
  moreover have "config_ok (rs_cfg r)" "distinct (rs_order r @ [rs_next r])"
    using ok new by (auto simp: resolved_ok_def)
  moreover have "\<forall>x\<in>set (rs_order r @ [rs_next r]). x < Suc (rs_next r)"
    using ok by (auto simp: resolved_ok_def)
  ultimately have "resolved_ok r'"
    using room by (simp add: resolved_ok_def r'_def)
  with same show ?thesis by (simp add: r'_def items_def)
qed

lemma Record_again:
  fixes e
  assumes ok: "resolved_ok r" and el: "rs_index r a = Some el"
  defines "r' \<equiv> r\<lparr>rs_item := (rs_item r)(el := (a, e)), rs_order := filter (\<lambda>x. x \<noteq> el) (rs_order r) @ [el]\<rparr>"
  shows "resolved_ok r' \<and> items r' = filter (\<lambda>p. fst p \<noteq> a) (items r) @ [(a, e)]"
proof -
  let ?o = "filter (\<lambda>x. x \<noteq> el) (rs_order r)"
  have mem: "el \<in> set (rs_order r)" "fst (rs_item r el) = a" using ok el by (simp_all add: index_iff)
  have "Suc (length ?o) = length (rs_order r)"
    using ok mem by (intro length_filter_one) (auto simp: resolved_ok_def)
  then have len: "int (length (?o @ [el])) \<le> Cap (rs_cfg r)" using ok by (simp add: resolved_ok_def)
  have parts: "rs_order r' = ?o @ [el]" "rs_cfg r' = rs_cfg r" "rs_index r' = rs_index r" "rs_next r' = rs_next r"
    by (simp_all add: r'_def)
  have keys: "fst (rs_item r' x) = fst (rs_item r x)" for x using mem by (simp add: r'_def)
  have "distinct (map (\<lambda>x. fst (rs_item r x)) (?o @ [el]))"
    using ok mem one_element [OF ok] by (auto simp: resolved_ok_def distinct_map_filter)
  moreover have "rs_index r b = Some x \<longleftrightarrow> x \<in> set (?o @ [el]) \<and> fst (rs_item r x) = b" for b x
    using index_iff [OF ok, of b x] mem by auto
  moreover have "\<forall>x\<in>set (?o @ [el]). x < rs_next r" "config_ok (rs_cfg r)" "distinct (?o @ [el])"
    using ok mem by (auto simp: resolved_ok_def)
  ultimately have "resolved_ok r'"
    using len unfolding resolved_ok_def parts keys by blast
  moreover have "map ((rs_item r)(el := (a, e))) ?o = map (rs_item r) ?o"
    by (intro map_cong) auto
  ultimately show ?thesis using filter_items [OF ok el] by (simp add: r'_def items_def)
qed


lemma Record_refines:
  assumes ok: "resolved_ok r"
  shows "resolved_ok (Record now name a ttl query r) \<and> rs_cfg (Record now name a ttl query r) = rs_cfg r \<and>
    items (Record now name a ttl query r) =
      (if IsValid a then note_answer (rs_cfg r) now name (canonAddr a) ttl query (items r) else items r)"
proof (cases "IsValid a")
  case True
  let ?a = "canonAddr a"
  let ?x = "now + lifetime (rs_cfg r) ttl"
  show ?thesis
  proof (cases "rs_index r ?a")
    case None
    let ?e = "evict (rs_order r) r"
    have ev: "resolved_ok ?e" "int (Suc (length (rs_order ?e))) \<le> Cap (rs_cfg ?e)" "rs_index ?e ?a = None"
      and parts: "rs_order ?e = drop (Suc (length (rs_order r)) - nat (Cap (rs_cfg r))) (rs_order r)"
      "rs_item ?e = rs_item r" "rs_cfg ?e = rs_cfg r"
      using evict_spec [OF ok refl, where a = ?a] None unfolding Let_def by blast+
    have its: "items ?e = drop (Suc (length (items r)) - nat (Cap (rs_cfg r))) (items r)"
      by (simp only: items_def parts(1,2)) (simp add: drop_map)
    show ?thesis
      using Record_fresh [OF ev(1,2,3)] True None its parts(3) index_map_of [OF ok, of ?a]
      by (simp add: Record_def note_answer_def Let_def)
  next
    case (Some el)
    then show ?thesis
      using Record_again [OF ok Some] True index_map_of [OF ok, of ?a]
      by (simp add: Record_def note_answer_def Let_def max_def)
  qed
qed (use ok in \<open>simp add: Record_def\<close>)

lemma Lookup_refines:
  assumes ok: "resolved_ok r" and l: "Lookup now a r = (found, r')"
  shows "resolved_ok r' \<and> rs_cfg r' = rs_cfg r \<and>
    (found, items r') = (if IsValid a then find_answer now (canonAddr a) (items r) else (None, items r))"
proof (cases "IsValid a")
  case True
  show ?thesis
  proof (cases "rs_index r (canonAddr a)")
    case None
    then show ?thesis
      using l ok True index_map_of [OF ok, of "canonAddr a"] by (auto simp: Lookup_def find_answer_def Let_def)
  next
    case (Some el)
    then show ?thesis
      using l ok True index_map_of [OF ok, of "canonAddr a"] forget_ok [OF ok Some] forget_items [OF ok Some]
      by (auto simp: Lookup_def find_answer_def Let_def split: if_splits)
  qed
qed (use ok l in \<open>simp add: Lookup_def\<close>)


section \<open>What a set of answers promises\<close>

text \<open>What is asked of a set, in order: the clock each time, and what was asked.\<close>

datatype event =
  Recorded (ev_now: int) string addr int nat
| Looked (ev_now: int) addr

fun run_with ::
  "(int \<Rightarrow> string \<Rightarrow> addr \<Rightarrow> int \<Rightarrow> nat \<Rightarrow> 's \<Rightarrow> 's) \<Rightarrow> (int \<Rightarrow> addr \<Rightarrow> 's \<Rightarrow> entry option \<times> 's) \<Rightarrow>
   event list \<Rightarrow> 's \<Rightarrow> 's" where
  "run_with rec look [] s = s"
| "run_with rec look (Recorded now name a ttl query # es) s = run_with rec look es (rec now name a ttl query s)"
| "run_with rec look (Looked now a # es) s = run_with rec look es (snd (look now a s))"

text \<open>That an event of the list gave an address a lifetime reaching to an instant, and that one
  named it.\<close>

definition promised :: "(int \<Rightarrow> int) \<Rightarrow> event list \<Rightarrow> addr \<Rightarrow> int \<Rightarrow> bool" where
  "promised life es a until \<longleftrightarrow>
     (\<exists>t name b ttl query. Recorded t name b ttl query \<in> set es \<and> IsValid b \<and> canonAddr b = a \<and> until = t + life ttl)"

definition named :: "event list \<Rightarrow> addr \<Rightarrow> string \<Rightarrow> nat \<Rightarrow> bool" where
  "named es a name query \<longleftrightarrow>
     (\<exists>t b ttl. Recorded t name b ttl query \<in> set es \<and> IsValid b \<and> canonAddr b = a)"

lemma promised_now: "IsValid a \<Longrightarrow> promised life (ds @ [Recorded t name a ttl query]) (canonAddr a) (t + life ttl)"
  unfolding promised_def
  by (rule exI [of _ t], rule exI [of _ name], rule exI [of _ a], rule exI [of _ ttl], rule exI [of _ query]) simp

lemma named_now: "IsValid a \<Longrightarrow> named (ds @ [Recorded t name a ttl query]) (canonAddr a) name query"
  unfolding named_def by (rule exI [of _ t], rule exI [of _ a], rule exI [of _ ttl]) simp

locale answer_set =
  fixes rec :: "int \<Rightarrow> string \<Rightarrow> addr \<Rightarrow> int \<Rightarrow> nat \<Rightarrow> 's \<Rightarrow> 's"
    and look :: "int \<Rightarrow> addr \<Rightarrow> 's \<Rightarrow> entry option \<times> 's"
    and good :: "'s \<Rightarrow> bool"
    and held :: "'s \<Rightarrow> (addr \<times> entry) set"
    and life :: "'s \<Rightarrow> int \<Rightarrow> int"
  assumes rec_good: "good s \<Longrightarrow> good (rec now name a ttl query s) \<and> life (rec now name a ttl query s) = life s"
    and rec_held: "good s \<Longrightarrow> (b, e) \<in> held (rec now name a ttl query s) \<Longrightarrow>
      (b, e) \<in> held s \<or>
      (IsValid a \<and> b = canonAddr a \<and> en_Name e = name \<and> en_Query e = query \<and>
       (en_Expires e = now + life s ttl \<or> (\<exists>e'. (b, e') \<in> held s \<and> en_Expires e = en_Expires e')))"
    and look_good: "good s \<Longrightarrow> good (snd (look now a s)) \<and> life (snd (look now a s)) = life s \<and>
      held (snd (look now a s)) \<subseteq> held s"
    and look_found: "good s \<Longrightarrow> fst (look now a s) = Some e \<Longrightarrow> (canonAddr a, e) \<in> held s \<and> now < en_Expires e"
begin

text \<open>Everything held was named by an event, and its end promised by one.\<close>

lemma run_held:
  assumes "good s" and "\<And>b e. (b, e) \<in> held s \<Longrightarrow> promised (life s) ds b (en_Expires e) \<and> named ds b (en_Name e) (en_Query e)"
  shows "good (run_with rec look es s) \<and>
    (\<forall>b e. (b, e) \<in> held (run_with rec look es s) \<longrightarrow>
       promised (life s) (ds @ es) b (en_Expires e) \<and> named (ds @ es) b (en_Name e) (en_Query e))"
  using assms
proof (induction es arbitrary: s ds)
  case (Cons ev es)
  have more: "promised l (ds @ [ev]) b u" if "promised l ds b u" for l b u
    using that unfolding promised_def set_append by blast
  have more': "named (ds @ [ev]) b n q" if "named ds b n q" for b n q
    using that unfolding named_def set_append by blast
  show ?case
  proof (cases ev)
    case (Recorded now name a ttl query)
    let ?s = "rec now name a ttl query s"
    have g: "good ?s" "life ?s = life s" using rec_good [OF Cons.prems(1)] by simp_all
    have "promised (life ?s) (ds @ [ev]) b (en_Expires e) \<and> named (ds @ [ev]) b (en_Name e) (en_Query e)"
      if "(b, e) \<in> held ?s" for b e
      using rec_held [OF Cons.prems(1) that]
    proof (elim disjE conjE exE)
      assume "(b, e) \<in> held s"
      with Cons.prems(2) g more more' show ?thesis by simp
    next
      assume h: "IsValid a" "b = canonAddr a" "en_Name e = name" "en_Query e = query" "en_Expires e = now + life s ttl"
      then have "promised (life s) (ds @ [ev]) b (en_Expires e)"
        by (simp add: Recorded promised_now)
      moreover from h have "named (ds @ [ev]) b (en_Name e) (en_Query e)" by (simp add: Recorded named_now)
      ultimately show ?thesis by (simp add: g)
    next
      fix e' assume h: "IsValid a" "b = canonAddr a" "en_Name e = name" "en_Query e = query"
        and "(b, e') \<in> held s" "en_Expires e = en_Expires e'"
      then have "promised (life s) (ds @ [ev]) b (en_Expires e)" using Cons.prems(2) more by metis
      moreover from h have "named (ds @ [ev]) b (en_Name e) (en_Query e)" by (simp add: Recorded named_now)
      ultimately show ?thesis by (simp add: g)
    qed
    from Cons.IH [OF g(1) this] g show ?thesis by (simp add: Recorded)
  next
    case (Looked now a)
    let ?s = "snd (look now a s)"
    have g: "good ?s" "life ?s = life s" "held ?s \<subseteq> held s" using look_good [OF Cons.prems(1)] by simp_all
    have "promised (life ?s) (ds @ [ev]) b (en_Expires e) \<and> named (ds @ [ev]) b (en_Name e) (en_Query e)"
      if "(b, e) \<in> held ?s" for b e
      using Cons.prems(2) [of b e] that g more more' by auto
    from Cons.IH [OF g(1) this] g show ?thesis by (simp add: Looked)
  qed
qed simp

lemma found_promised:
  assumes "good s" "held s = {}" "fst (look now a (run_with rec look es s)) = Some e"
  shows "named es (canonAddr a) (en_Name e) (en_Query e) \<and> promised (life s) es (canonAddr a) (en_Expires e) \<and>
    now < en_Expires e"
proof -
  have "good (run_with rec look es s) \<and>
    (\<forall>b e. (b, e) \<in> held (run_with rec look es s) \<longrightarrow>
       promised (life s) ([] @ es) b (en_Expires e) \<and> named ([] @ es) b (en_Name e) (en_Query e))"
    by (rule run_held) (use assms in auto)
  with look_found [of "run_with rec look es s" now a e] assms(3) show ?thesis by auto
qed

end

definition life_of :: "resolved \<Rightarrow> int \<Rightarrow> int" where
  "life_of r = lifetime (rs_cfg r)"

lemma note_answer_held:
  assumes "(b, e) \<in> set (note_answer cfg now name a ttl query xs)"
  shows "(b, e) \<in> set xs \<or> (b = a \<and> en_Name e = name \<and> en_Query e = query \<and>
    (en_Expires e = now + lifetime cfg ttl \<or> (\<exists>e'. (b, e') \<in> set xs \<and> en_Expires e = en_Expires e')))"
proof (cases "map_of xs a")
  case None
  with assms show ?thesis by (auto simp: note_answer_def Let_def dest: in_set_dropD)
next
  case (Some e')
  then have "(a, e') \<in> set xs" by (rule map_of_SomeD)
  with assms Some show ?thesis by (auto simp: note_answer_def Let_def max_def split: if_splits)
qed

lemma find_answer_held:
  "set (snd (find_answer now a xs)) \<subseteq> set xs"
  "fst (find_answer now a xs) = Some e \<Longrightarrow> (a, e) \<in> set xs \<and> now < en_Expires e"
  by (auto simp: find_answer_def dest: map_of_SomeD split: option.splits if_splits)

interpretation answers: answer_set Record Lookup resolved_ok "\<lambda>r. set (items r)" life_of
proof
  fix r now name a ttl query
  assume ok: "resolved_ok r"
  show "resolved_ok (Record now name a ttl query r) \<and> life_of (Record now name a ttl query r) = life_of r"
    using Record_refines [OF ok] by (simp add: life_of_def)
  fix b e
  assume "(b, e) \<in> set (items (Record now name a ttl query r))"
  then have "(b, e) \<in> set (if IsValid a then note_answer (rs_cfg r) now name (canonAddr a) ttl query (items r) else items r)"
    using Record_refines [OF ok] by simp
  then show "(b, e) \<in> set (items r) \<or> (IsValid a \<and> b = canonAddr a \<and> en_Name e = name \<and> en_Query e = query \<and>
    (en_Expires e = now + life_of r ttl \<or> (\<exists>e'. (b, e') \<in> set (items r) \<and> en_Expires e = en_Expires e')))"
    by (cases "IsValid a") (auto simp: life_of_def dest!: note_answer_held)
next
  fix r now a
  assume ok: "resolved_ok r"
  have l: "Lookup now a r = (fst (Lookup now a r), snd (Lookup now a r))" by simp
  note ref = Lookup_refines [OF ok l]
  then have its: "items (snd (Lookup now a r)) = (if IsValid a then snd (find_answer now (canonAddr a) (items r)) else items r)"
    "fst (Lookup now a r) = (if IsValid a then fst (find_answer now (canonAddr a) (items r)) else None)"
    by (metis (no_types, lifting) fst_conv snd_conv)+
  show "resolved_ok (snd (Lookup now a r)) \<and> life_of (snd (Lookup now a r)) = life_of r \<and>
    set (items (snd (Lookup now a r))) \<subseteq> set (items r)"
    using ref its(1) find_answer_held(1) [of now "canonAddr a" "items r"] by (simp add: life_of_def)
  fix e
  assume "fst (Lookup now a r) = Some e"
  with its(2) have "fst (find_answer now (canonAddr a) (items r)) = Some e" by (simp split: if_splits)
  then show "(canonAddr a, e) \<in> set (items r) \<and> now < en_Expires e" by (rule find_answer_held(2))
qed


section \<open>What the set keeps\<close>

text \<open>An address at most \<open>n\<close> places from the back of the list, held at least until an instant.\<close>

definition kept :: "addr \<Rightarrow> int \<Rightarrow> nat \<Rightarrow> answers \<Rightarrow> bool" where
  "kept a until n xs \<longleftrightarrow> (\<exists>pre e suf. xs = pre @ (a, e) # suf \<and> length suf \<le> n \<and> until \<le> en_Expires e)"

lemma kept_filter: "kept a until n xs \<Longrightarrow> b \<noteq> a \<Longrightarrow> kept a until n (filter (\<lambda>p. fst p \<noteq> b) xs)"
  unfolding kept_def by (fastforce intro: order_trans [OF length_filter_le])

lemma kept_snoc: "kept a until n xs \<Longrightarrow> kept a until (Suc n) (xs @ [p])"
  unfolding kept_def by (metis (no_types, lifting) append.assoc append_Cons length_append_singleton not_less_eq_eq)

lemma kept_drop: "kept a until n xs \<Longrightarrow> k + Suc n \<le> length xs \<Longrightarrow> kept a until n (drop k xs)"
  unfolding kept_def by (elim exE conjE, rename_tac pre e suf) (rule_tac x = "drop k pre" in exI, auto)

lemma kept_mono: "kept a until n xs \<Longrightarrow> n \<le> m \<Longrightarrow> kept a until m xs"
  unfolding kept_def by (elim exE conjE, rename_tac pre e suf) (rule_tac x = pre in exI, auto)

lemma kept_map_of:
  assumes "kept a until n xs" "distinct (map fst xs)"
  shows "\<exists>e. map_of xs a = Some e \<and> until \<le> en_Expires e"
  using assms unfolding kept_def by (metis in_set_conv_decomp map_of_is_SomeI)

lemma note_answer_kept:
  assumes "kept a until n xs" "distinct (map fst xs)" "int n + 2 \<le> Cap cfg"
  shows "kept a until (Suc n) (note_answer cfg now name b ttl query xs)"
proof (cases "b = a")
  case True
  obtain e where e: "map_of xs a = Some e" "until \<le> en_Expires e" using kept_map_of [OF assms(1,2)] by blast
  then show ?thesis unfolding True note_answer_def kept_def Let_def
    by (auto intro!: exI [of _ "filter (\<lambda>p. fst p \<noteq> a) xs"])
next
  case False
  show ?thesis
  proof (cases "map_of xs b")
    case None
    let ?k = "Suc (length xs) - nat (Cap cfg)"
    have "kept a until n (drop ?k xs)"
    proof (cases "?k = 0")
      case True
      then show ?thesis using assms(1) by (simp only: drop_0)
    next
      case k: False
      then have "?k + Suc n \<le> length xs" using assms(3) by linarith
      from kept_drop [OF assms(1) this] show ?thesis .
    qed
    then show ?thesis using None by (simp add: note_answer_def Let_def kept_snoc)
  next
    case (Some e)
    then show ?thesis using kept_snoc [OF kept_filter [OF assms(1) False]] by (simp add: note_answer_def Let_def)
  qed
qed

lemma find_answer_kept:
  assumes "kept a until n xs" "distinct (map fst xs)" "now < until"
  shows "kept a until n (snd (find_answer now b xs))"
proof (cases "b = a")
  case True
  obtain e where e: "map_of xs a = Some e" "until \<le> en_Expires e" using kept_map_of [OF assms(1,2)] by blast
  with assms True show ?thesis by (simp add: find_answer_def)
next
  case False
  with assms(1) show ?thesis by (auto simp: find_answer_def kept_filter split: option.splits)
qed

fun is_record :: "event \<Rightarrow> bool" where
  "is_record (Recorded now name a ttl query) = True"
| "is_record (Looked now a) = False"

lemma items_distinct: "resolved_ok r \<Longrightarrow> distinct (map fst (items r))"
  by (simp add: resolved_ok_def items_def comp_def)

lemma run_kept:
  assumes "resolved_ok r" "kept a until n (items r)"
    and "int n + int (length (filter is_record es)) + 1 \<le> Cap (rs_cfg r)"
    and "\<And>ev. ev \<in> set es \<Longrightarrow> ev_now ev < until"
  shows "resolved_ok (run_with Record Lookup es r) \<and> (\<exists>m. kept a until m (items (run_with Record Lookup es r)))"
  using assms
proof (induction es arbitrary: r n)
  case (Cons ev es)
  show ?case
  proof (cases ev)
    case (Recorded now name b ttl query)
    let ?r = "Record now name b ttl query r"
    note ref = Record_refines [OF Cons.prems(1), of now name b ttl query]
    have cap: "int (Suc n) + int (length (filter is_record es)) + 1 \<le> Cap (rs_cfg r)"
      using Cons.prems(3) by (simp add: Recorded)
    then have "int n + 2 \<le> Cap (rs_cfg r)" by simp
    from note_answer_kept [OF Cons.prems(2) items_distinct [OF Cons.prems(1)] this]
    have k: "kept a until (Suc n) (items ?r)"
      using ref kept_mono [OF Cons.prems(2), of "Suc n"] by simp
    have late: "\<And>ev. ev \<in> set es \<Longrightarrow> ev_now ev < until" using Cons.prems(4) by simp
    have "resolved_ok ?r" "int (Suc n) + int (length (filter is_record es)) + 1 \<le> Cap (rs_cfg ?r)" using ref cap by simp_all
    from Cons.IH [OF this(1) k this(2) late] show ?thesis by (simp add: Recorded)
  next
    case (Looked now b)
    let ?r = "snd (Lookup now b r)"
    have l: "Lookup now b r = (fst (Lookup now b r), ?r)" by simp
    note ref = Lookup_refines [OF Cons.prems(1) l]
    then have "items ?r = (if IsValid b then snd (find_answer now (canonAddr b) (items r)) else items r)"
      by (metis (no_types, lifting) snd_conv)
    moreover have "now < until" using Cons.prems(4) [of ev] by (simp add: Looked)
    ultimately have k: "kept a until n (items ?r)"
      using find_answer_kept [OF Cons.prems(2) items_distinct [OF Cons.prems(1)]] Cons.prems(2) by simp
    have cap: "int n + int (length (filter is_record es)) + 1 \<le> Cap (rs_cfg ?r)"
      using Cons.prems(3) ref by (simp add: Looked)
    have late: "\<And>ev. ev \<in> set es \<Longrightarrow> ev_now ev < until" using Cons.prems(4) by simp
    have "resolved_ok ?r" using ref by simp
    from Cons.IH [OF this k cap late] show ?thesis by (simp add: Looked)
  qed
qed auto

lemma Record_kept:
  assumes "resolved_ok r" "IsValid a"
  shows "kept (canonAddr a) (t + MinTTL (rs_cfg r)) 0 (items (Record t name a ttl query r))"
proof -
  have "t + MinTTL (rs_cfg r) \<le> t + lifetime (rs_cfg r) ttl"
    using assms(1) lifetime_bounds by (simp add: resolved_ok_def)
  then show ?thesis
    using Record_refines [OF assms(1)] assms(2)
    by (auto simp: note_answer_def Let_def kept_def le_max_iff_disj split: option.splits)
qed


section \<open>The properties\<close>

definition two_answers :: "event list" where
  "two_answers =
     [Recorded 0 ''a.example'' (V4 0xCB007105) 0 1,
      Looked 10 (V4 0xCB007106),
      Recorded 20 ''b.example'' (V6 0x00000000000000000000FFFFCB007106 []) 90000000000 2]"

text \<open>
  C34: the linked list and its index are a list of addresses with their answers, each address once,
  never more than the capacity. Recording an answer appends it, keeping the later end of an answer
  already there and dropping the least recently recorded where there is no room; a lookup answers
  from that list what has not ended, and forgets what has. An invalid address changes nothing.
\<close>

theorem resolved_refines:
  assumes "resolved_ok r"
  shows "resolved_ok (Record now name a ttl query r) \<and>
    items (Record now name a ttl query r) =
      (if IsValid a then note_answer (rs_cfg r) now name (canonAddr a) ttl query (items r) else items r) \<and>
    resolved_ok (snd (Lookup now a r)) \<and>
    (fst (Lookup now a r), items (snd (Lookup now a r))) =
      (if IsValid a then find_answer now (canonAddr a) (items r) else (None, items r)) \<and>
    distinct (map fst (items r)) \<and> Len r = length (items r) \<and> int (Len r) \<le> Cap (rs_cfg r)"
proof -
  have l: "Lookup now a r = (fst (Lookup now a r), snd (Lookup now a r))" by simp
  have "Len r = length (items r)" "int (Len r) \<le> Cap (rs_cfg r)"
    using assms by (simp_all add: Len_def items_def resolved_ok_def)
  with Record_refines [OF assms, of now name a ttl query] Lookup_refines [OF assms l] items_distinct [OF assms]
  show ?thesis by blast
qed

theorem resolved_refines_witness:
  "items (Record 5 ''a.example'' (V4 7) 0 1 (NewResolved \<lparr>MinTTL = 0, MaxTTL = 0, Cap = 0\<rparr>)) =
     [(V4 7, \<lparr>en_Name = ''a.example'', en_Query = 1, en_Expires = 60000000005\<rparr>)]"
proof -
  let ?r = "NewResolved \<lparr>MinTTL = 0, MaxTTL = 0, Cap = 0\<rparr>"
  have "items (Record 5 ''a.example'' (V4 7) 0 1 ?r) =
      (if IsValid (V4 7) then note_answer (rs_cfg ?r) 5 ''a.example'' (canonAddr (V4 7)) 0 1 (items ?r) else items ?r)"
    using resolved_refines [OF NewResolved_ok, of 5 "''a.example''" "V4 7" 0 1] by blast
  also have "\<dots> = [(V4 7, \<lparr>en_Name = ''a.example'', en_Query = 1, en_Expires = 60000000005\<rparr>)]"
    by code_simp
  finally show ?thesis .
qed

text \<open>
  A set of answers that started empty gives for an address only what was recorded for that
  address, in whatever spelling: the name and the query of an answer recorded for it, and not once
  every answer recorded for it is older than its clamped lifetime, let alone the longest allowed.
\<close>

theorem Lookup_recorded:
  assumes "fst (Lookup now a (run_with Record Lookup es (NewResolved cfg))) = Some e"
  shows "named es (canonAddr a) (en_Name e) (en_Query e) \<and>
    (\<exists>t name b ttl query. Recorded t name b ttl query \<in> set es \<and> IsValid b \<and> canonAddr b = canonAddr a \<and>
       now < t + lifetime (rs_cfg (NewResolved cfg)) ttl \<and> now < t + MaxTTL (rs_cfg (NewResolved cfg)))"
proof -
  let ?r = "NewResolved cfg"
  have "set (items ?r) = {}" by (simp add: NewResolved_def items_def Let_def)
  from answers.found_promised [OF NewResolved_ok this assms]
  have p: "named es (canonAddr a) (en_Name e) (en_Query e)" "promised (life_of ?r) es (canonAddr a) (en_Expires e)"
    "now < en_Expires e" by simp_all
  then obtain t name b ttl query where b: "Recorded t name b ttl query \<in> set es" "IsValid b"
    "canonAddr b = canonAddr a" "en_Expires e = t + lifetime (rs_cfg ?r) ttl"
    unfolding promised_def life_of_def by blast
  have "lifetime (rs_cfg ?r) ttl \<le> MaxTTL (rs_cfg ?r)"
    using NewResolved_ok [of cfg] lifetime_bounds by (simp add: resolved_ok_def)
  with p(3) b(4) have "now < t + lifetime (rs_cfg ?r) ttl" "now < t + MaxTTL (rs_cfg ?r)" by simp_all
  with p(1) b(1-3) show ?thesis by blast
qed

theorem Lookup_recorded_witness:
  "named two_answers (V4 0xCB007106) ''b.example'' 2 \<and>
   fst (Lookup 90000000020 (V4 0xCB007106)
     (run_with Record Lookup two_answers (NewResolved \<lparr>MinTTL = 0, MaxTTL = 0, Cap = 0\<rparr>))) = None"
proof -
  let ?cfg = "\<lparr>MinTTL = 0, MaxTTL = 0, Cap = 0\<rparr>"
  have l: "fst (Lookup 90000000019 (V4 0xCB007106) (run_with Record Lookup two_answers (NewResolved ?cfg))) =
      Some \<lparr>en_Name = ''b.example'', en_Query = 2, en_Expires = 90000000020\<rparr>" by code_simp
  have "canonAddr (V4 0xCB007106) = V4 0xCB007106" by code_simp
  with Lookup_recorded [OF l] have "named two_answers (V4 0xCB007106) ''b.example'' 2" by simp
  moreover have "fst (Lookup 90000000020 (V4 0xCB007106) (run_with Record Lookup two_answers (NewResolved ?cfg))) = None"
    by code_simp
  ultimately show ?thesis by blast
qed

text \<open>
  An answer the client was given can be used. Whatever is asked or recorded in between, an
  address just recorded is found at any time within the shortest lifetime, unless answers for as
  many other addresses as the set can hold have been recorded since.
\<close>

theorem Lookup_kept:
  assumes "resolved_ok r" "IsValid a"
    and "int (length (filter is_record es)) < Cap (rs_cfg r)"
    and "\<And>ev. ev \<in> set es \<Longrightarrow> ev_now ev < t + MinTTL (rs_cfg r)"
    and "now < t + MinTTL (rs_cfg r)"
  shows "\<exists>e. fst (Lookup now a (run_with Record Lookup es (Record t name a ttl query r))) = Some e \<and>
    t + MinTTL (rs_cfg r) \<le> en_Expires e"
proof -
  let ?r = "Record t name a ttl query r"
  let ?s = "run_with Record Lookup es ?r"
  have ref: "resolved_ok ?r" "rs_cfg ?r = rs_cfg r" using Record_refines [OF assms(1)] by simp_all
  have "resolved_ok ?s \<and> (\<exists>m. kept (canonAddr a) (t + MinTTL (rs_cfg r)) m (items ?s))"
    by (rule run_kept [OF ref(1) Record_kept [OF assms(1,2)]]) (use assms ref in auto)
  then obtain m where ok: "resolved_ok ?s" and k: "kept (canonAddr a) (t + MinTTL (rs_cfg r)) m (items ?s)" by blast
  obtain e where e: "map_of (items ?s) (canonAddr a) = Some e" "t + MinTTL (rs_cfg r) \<le> en_Expires e"
    using kept_map_of [OF k items_distinct [OF ok]] by blast
  have l: "Lookup now a ?s = (fst (Lookup now a ?s), snd (Lookup now a ?s))" by simp
  from Lookup_refines [OF ok l] have "fst (Lookup now a ?s) = fst (find_answer now (canonAddr a) (items ?s))"
    using assms(2) by (metis (no_types, lifting) fst_conv)
  with e assms(5) show ?thesis by (simp add: find_answer_def)
qed

theorem Lookup_kept_witness:
  "\<exists>e. fst (Lookup 59999999999 (V4 7)
     (run_with Record Lookup two_answers
       (Record 0 ''c.example'' (V4 7) 0 9 (NewResolved \<lparr>MinTTL = 0, MaxTTL = 0, Cap = 3\<rparr>)))) = Some e"
proof -
  let ?r = "NewResolved \<lparr>MinTTL = 0, MaxTTL = 0, Cap = 3\<rparr>"
  have c: "rs_cfg ?r = \<lparr>MinTTL = 60000000000, MaxTTL = 3600000000000, Cap = 3\<rparr>" by code_simp
  have "\<exists>e. fst (Lookup 59999999999 (V4 7) (run_with Record Lookup two_answers (Record 0 ''c.example'' (V4 7) 0 9 ?r))) =
      Some e \<and> 0 + MinTTL (rs_cfg ?r) \<le> en_Expires e"
    by (rule Lookup_kept [OF NewResolved_ok]) (auto simp: c two_answers_def)
  then show ?thesis by blast
qed

end
