(* ===== verification/Record_Recorder.thy ===== *)
theory Record_Recorder
  imports Prelude "HOL-Library.Word"
begin

text \<open>
  A recording session's recorder, \<open>internal/record/record.go\<close>: what its policy would refuse or ask
  about, decided by a default or by a person, remembered, and written down.

  A recorder is shared by the goroutines of every session under one document. Its operations are
  broken up where the code takes and gives up the lock, and where it waits: \<open>move\<close> is one such
  part of one goroutine's call, and \<open>step\<close> interleaves them. Where a call stands is a \<open>pc\<close>, the
  pointers to entries in the memory are numbers of cells, and what is outside, the clock, what a
  person answers, and whether the client has gone, is given with each part. The sink, \<open>sink.go\<close>, is what
  was written to its file: whole lines, cut ones, and the piece of an earlier run's; it takes lines until
  it is full, and each write may fail.
\<close>

section \<open>Answers and lines\<close>

type_synonym answer = string

abbreviation answer_Allow :: answer where "answer_Allow \<equiv> ''allow''"
abbreviation answer_Ask :: answer where "answer_Ask \<equiv> ''ask''"
abbreviation answer_Refuse :: answer where "answer_Refuse \<equiv> ''refuse''"
abbreviation answer_Always :: answer where "answer_Always \<equiv> ''always''"

definition Admits :: "answer \<Rightarrow> bool" where
  "Admits a \<longleftrightarrow> a = answer_Allow \<or> a = answer_Ask \<or> a = answer_Always"

definition AllowIf :: "bool \<Rightarrow> answer" where
  "AllowIf ok = (if ok then answer_Allow else answer_Refuse)"

definition validAnswer :: "answer \<Rightarrow> bool" where
  "validAnswer a \<longleftrightarrow> a = answer_Allow \<or> a = answer_Ask \<or> a = answer_Refuse"

abbreviation KindHTTP :: string where "KindHTTP \<equiv> ''http''"
abbreviation KindSSH :: string where "KindSSH \<equiv> ''ssh''"
abbreviation KindEgress :: string where "KindEgress \<equiv> ''egress''"
abbreviation KindDNS :: string where "KindDNS \<equiv> ''dns''"

abbreviation SourceDefault :: string where "SourceDefault \<equiv> ''default''"
abbreviation SourceHuman :: string where "SourceHuman \<equiv> ''human''"
abbreviation SourceUnanswered :: string where "SourceUnanswered \<equiv> ''unanswered''"
abbreviation SourceHard :: string where "SourceHard \<equiv> ''hard''"
abbreviation SourceTelemetry :: string where "SourceTelemetry \<equiv> ''telemetry''"
abbreviation SourceMemo :: string where "SourceMemo \<equiv> ''memo''"

abbreviation ReasonStoppedWaiting :: string where "ReasonStoppedWaiting \<equiv> ''client stopped waiting''"
abbreviation ReasonNotLookedUp :: string where "ReasonNotLookedUp \<equiv> ''not looked up''"
abbreviation RuleNotAllowed :: string where "RuleNotAllowed \<equiv> ''not allowed''"

definition maxPath :: nat where "maxPath = 2048"
definition maxCommand :: nat where "maxCommand = 4096"
definition maxMemo :: int where "maxMemo = 65536"
definition maxNoise :: int where "maxNoise = 4096"

record line =
  ln_Time :: int
  ln_Session :: string
  ln_Policy :: string
  ln_Kind :: string
  ln_Route :: string
  ln_Method :: string
  ln_Host :: string
  ln_Path :: string
  ln_Name :: string
  ln_Port :: "16 word"
  ln_Address :: string
  ln_User :: string
  ln_Command :: string
  ln_Shell :: bool
  ln_LAN :: bool
  ln_Operation :: string
  ln_GraphQL :: string
  ln_Would :: string
  ln_Rule :: string
  ln_Answer :: answer
  ln_Source :: string
  ln_Reason :: string

definition empty_line :: line where
  "empty_line =
     \<lparr>ln_Time = 0, ln_Session = [], ln_Policy = [], ln_Kind = [], ln_Route = [], ln_Method = [], ln_Host = [],
      ln_Path = [], ln_Name = [], ln_Port = 0, ln_Address = [], ln_User = [], ln_Command = [],
      ln_Shell = False, ln_LAN = False, ln_Operation = [], ln_GraphQL = [], ln_Would = [], ln_Rule = [],
      ln_Answer = [], ln_Source = [], ln_Reason = []\<rparr>"

definition bounded :: "string \<Rightarrow> nat \<Rightarrow> string" where
  "bounded s n = (if length s > n then take n s @ ''...'' else s)"

text \<open>The fields of a line for the journal.\<close>

datatype attr = Text string string | Number string "16 word" | Flag string bool

definition add_attr :: "string \<Rightarrow> string \<Rightarrow> attr list" where
  "add_attr k v = (if v \<noteq> [] then [Text k v] else [])"

definition attrs :: "line \<Rightarrow> attr list" where
  "attrs l =
     [Text ''session'' (ln_Session l), Text ''policy'' (ln_Policy l), Text ''kind'' (ln_Kind l)] @
     add_attr ''route'' (ln_Route l) @ add_attr ''method'' (ln_Method l) @ add_attr ''host'' (ln_Host l) @
     add_attr ''path'' (ln_Path l) @ add_attr ''name'' (ln_Name l) @
     (if ln_Port l \<noteq> 0 then [Number ''port'' (ln_Port l)] else []) @
     add_attr ''address'' (ln_Address l) @ add_attr ''user'' (ln_User l) @ add_attr ''command'' (ln_Command l) @
     (if ln_Shell l then [Flag ''shell'' True] else []) @ (if ln_LAN l then [Flag ''lan'' True] else []) @
     add_attr ''operation'' (ln_Operation l) @ add_attr ''graphql'' (ln_GraphQL l) @
     [Text ''would'' (ln_Would l)] @ add_attr ''rule'' (ln_Rule l) @
     [Text ''answer'' (ln_Answer l), Text ''source'' (ln_Source l)] @ add_attr ''reason'' (ln_Reason l)"

section \<open>The sink\<close>

text \<open>
  A file of lines, appended to and bounded, \<open>sink.go\<close>. \<open>sk_file\<close> is what it was given: whole lines, the one
  saying that the rest was dropped, and what a write that failed had written of one, by its length.
\<close>

datatype written = Whole_line line | Cut_line int | Piece nat

record sink =
  sk_size :: int
  sk_max :: int
  sk_truncated :: bool
  sk_open :: bool
  sk_file :: "written list"

definition MaxSink :: int where "MaxSink = 67108864"

text \<open>What is outside, at one part of a call: the clock; what a person answers, and whether the client has gone; and
  of a line for the sink, how long \<open>encoding/json\<close> makes it, if it does, and the line saying the rest was dropped,
  and the bytes of it written where the write fails.\<close>

type_synonym asked = "answer \<times> string \<times> string option"

record outside =
  o_now :: int
  o_asked :: asked
  o_gone :: bool
  o_json :: "int option"
  o_cut :: int
  o_broke :: "nat option"

definition noise :: "line \<Rightarrow> bool" where
  "noise l \<longleftrightarrow> ln_Source l = SourceHard \<or> ln_Source l = SourceTelemetry"

definition endsTruncated :: "string \<Rightarrow> bool" where
  "endsTruncated content =
     (if content = [] then False
      else
        let tail = drop (length content - min (length content) 128) content;
            before = butlast tail;
            rest = drop (length before - length (takeWhile (\<lambda>c. c \<noteq> CHR 0x0A) (rev before))) tail
        in list_ex (\<lambda>i. prefix ''\"truncated\":true'' (drop i rest)) [0..<Suc (length rest)])"

text \<open>\<open>openSink\<close>, of a file it could open and take: what it holds.\<close>

definition openSink :: "string \<Rightarrow> int \<Rightarrow> sink" where
  "openSink content m =
     \<lparr>sk_size = int (length content), sk_max = m, sk_truncated = (endsTruncated content \<or> int (length content) \<ge> m),
      sk_open = True, sk_file = []\<rparr>"

definition OpenSink :: "string \<Rightarrow> sink" where
  "OpenSink content = openSink content MaxSink"

text \<open>\<open>Sink.Write\<close>: whether it gives no error.\<close>

definition put_line :: "outside \<Rightarrow> written \<Rightarrow> int \<Rightarrow> sink \<Rightarrow> bool \<times> sink" where
  "put_line env x n s =
     (case o_broke env of
        None \<Rightarrow> (True, s\<lparr>sk_size := sk_size s + n, sk_file := sk_file s @ [x]\<rparr>)
      | Some k \<Rightarrow> (False, s\<lparr>sk_size := sk_size s + int k, sk_file := sk_file s @ [Piece k]\<rparr>))"

definition sink_Write :: "outside \<Rightarrow> line \<Rightarrow> sink \<Rightarrow> bool \<times> sink" where
  "sink_Write env l s =
     (case o_json env of
        None \<Rightarrow> (False, s)
      | Some b \<Rightarrow>
          let n = b + 1 in
          if sk_truncated s \<or> \<not> sk_open s then (True, s)
          else if noise l \<and> sk_size s + n > sk_max s div 2 then (True, s)
          else if sk_size s + n > sk_max s
          then put_line env (Cut_line (sk_max s)) (o_cut env + 1) (s\<lparr>sk_truncated := True\<rparr>)
          else put_line env (Whole_line l) n s)"

definition sink_Close :: "sink \<Rightarrow> sink" where
  "sink_Close s = s\<lparr>sk_open := False\<rparr>"

section \<open>The recorder\<close>

record config =
  cf_Policy :: string
  cf_Default :: answer
  cf_Sink :: "sink option"

text \<open>\<open>sj_key\<close> is the key a cell was made for; the code does not keep it, and no operation reads it.\<close>

record cell =
  sj_done :: bool
  sj_answer :: answer
  sj_answered :: bool
  sj_key :: string

record recorder =
  rc_cfg :: config
  rc_memo :: "string \<Rightarrow> nat option"
  rc_cells :: "nat \<Rightarrow> cell"
  rc_next :: nat
  rc_decided :: "string \<Rightarrow> int"
  rc_noise :: "string \<Rightarrow> int"
  rc_journal :: "line list"
  rc_sink :: "sink option"
  rc_failures :: "line list"

text \<open>\<open>New\<close>, for a configuration with a log; \<open>None\<close> is the error.\<close>

definition new_recorder :: "config \<Rightarrow> recorder option" where
  "new_recorder cfg =
     (if cf_Default cfg = [] \<or> cf_Default cfg = answer_Allow \<or> cf_Default cfg = answer_Ask \<or>
         cf_Default cfg = answer_Refuse
      then Some \<lparr>rc_cfg = cfg, rc_memo = (\<lambda>_. None),
        rc_cells = (\<lambda>_. \<lparr>sj_done = False, sj_answer = [], sj_answered = False, sj_key = []\<rparr>), rc_next = 0,
        rc_decided = (\<lambda>_. 0), rc_noise = (\<lambda>_. 0), rc_journal = [], rc_sink = cf_Sink cfg, rc_failures = []\<rparr>
      else None)"

text \<open>\<open>Close\<close>, of the sink the recorder was given.\<close>

definition recorder_Close :: "recorder \<Rightarrow> recorder" where
  "recorder_Close r = r\<lparr>rc_sink := map_option sink_Close (rc_sink r)\<rparr>"

definition Interactive :: "recorder \<Rightarrow> bool" where
  "Interactive r \<longleftrightarrow> cf_Default (rc_cfg r) = []"

definition Default :: "recorder \<Rightarrow> answer" where
  "Default r = cf_Default (rc_cfg r)"

definition memoKey :: "string \<Rightarrow> string \<Rightarrow> string \<Rightarrow> string" where
  "memoKey session kind key = session @ [CHR 0x00] @ kind @ [CHR 0x00] @ key"

record result =
  res_Answer :: answer
  res_Source :: string
  res_Reason :: string
  res_Err :: "string option"

text \<open>What a person, or the asker in their place, said, is an answer, why there is none, and the asker's own error.\<close>

definition ask_person :: "asked \<Rightarrow> result" where
  "ask_person asked =
     (let (a, reason, err) = asked in
      if reason \<noteq> [] \<or> \<not> validAnswer a
      then \<lparr>res_Answer = answer_Refuse, res_Source = SourceUnanswered, res_Reason = reason, res_Err = err\<rparr>
      else \<lparr>res_Answer = a, res_Source = SourceHuman, res_Reason = [], res_Err = err\<rparr>)"

definition decision_of :: "recorder \<Rightarrow> asked \<Rightarrow> result" where
  "decision_of r asked =
     (if Interactive r then ask_person asked
      else \<lparr>res_Answer = Default r, res_Source = SourceDefault, res_Reason = [], res_Err = None\<rparr>)"

text \<open>\<open>write\<close>: the line in the journal, and in the sink too if it is for it. The level in the journal is left out;
  \<open>rc_failures\<close> are the lines whose write to the sink failed, each an error in the daemon's log.\<close>

definition stamp :: "config \<Rightarrow> int \<Rightarrow> line \<Rightarrow> line" where
  "stamp cfg now l =
     l\<lparr>ln_Time := now, ln_Policy := cf_Policy cfg, ln_Path := bounded (ln_Path l) maxPath,
       ln_Command := bounded (ln_Command l) maxCommand\<rparr>"

definition write_line :: "outside \<Rightarrow> line \<Rightarrow> bool \<Rightarrow> recorder \<Rightarrow> recorder" where
  "write_line env l sink r =
     (let l = stamp (rc_cfg r) (o_now env) l;
          r = r\<lparr>rc_journal := rc_journal r @ [l]\<rparr> in
      case rc_sink r of
        None \<Rightarrow> r
      | Some s \<Rightarrow>
          if \<not> sink then r
          else
            let (ok, s) = sink_Write env l s in
            r\<lparr>rc_sink := Some s, rc_failures := (if ok then rc_failures r else rc_failures r @ [l])\<rparr>)"

section \<open>The parts of a call\<close>

text \<open>The lock of \<open>decide\<close>: the entry of the subject to wait for, or a new one to answer.\<close>

definition find_cell :: "string \<Rightarrow> string \<Rightarrow> recorder \<Rightarrow> (nat \<times> bool) option \<times> nat \<times> recorder" where
  "find_cell k session r =
     (case rc_memo r k of
        Some e \<Rightarrow> (None, e, r)
      | None \<Rightarrow>
          let e = rc_next r;
              r = r\<lparr>rc_cells := (rc_cells r)(e := \<lparr>sj_done = False, sj_answer = [], sj_answered = False, sj_key = k\<rparr>),
                    rc_next := Suc e\<rparr> in
          if rc_decided r session < maxMemo
          then (Some (e, True), e,
            r\<lparr>rc_memo := (rc_memo r)(k := Some e), rc_decided := (rc_decided r)(session := rc_decided r session + 1)\<rparr>)
          else (Some (e, False), e, r))"

text \<open>The lock of \<open>answer\<close>.\<close>

definition set_answer :: "nat \<Rightarrow> answer \<Rightarrow> recorder \<Rightarrow> recorder" where
  "set_answer e a r = r\<lparr>rc_cells := (rc_cells r)(e := (rc_cells r e)\<lparr>sj_answer := a, sj_answered := True\<rparr>)\<rparr>"

definition settle :: "string \<Rightarrow> string \<Rightarrow> nat \<Rightarrow> result \<Rightarrow> recorder \<Rightarrow> recorder" where
  "settle k session e res r =
     (if res_Source res \<noteq> SourceUnanswered then set_answer e (res_Answer res) r
      else if rc_memo r k = Some e
        then r\<lparr>rc_memo := (rc_memo r)(k := None), rc_decided := (rc_decided r)(session := rc_decided r session - 1)\<rparr>
      else r)"

definition close_cell :: "nat \<Rightarrow> recorder \<Rightarrow> recorder" where
  "close_cell e r = r\<lparr>rc_cells := (rc_cells r)(e := (rc_cells r e)\<lparr>sj_done := True\<rparr>)\<rparr>"

text \<open>The lock of \<open>again\<close>: whether the answer differs, and the cell with it.\<close>

definition change_answer :: "nat \<Rightarrow> answer \<Rightarrow> recorder \<Rightarrow> bool \<times> recorder" where
  "change_answer e a r =
     (sj_answer (rc_cells r e) \<noteq> a, r\<lparr>rc_cells := (rc_cells r)(e := (rc_cells r e)\<lparr>sj_answer := a\<rparr>)\<rparr>)"

text \<open>The lock of \<open>once\<close>: nothing where the subject was seen, or whether its line goes to the sink.\<close>

definition note_once :: "string \<Rightarrow> line \<Rightarrow> recorder \<Rightarrow> bool option \<times> recorder" where
  "note_once k l r =
     (if rc_memo r k \<noteq> None then (None, r)
      else if rc_noise r (ln_Session l) \<ge> maxNoise then (Some False, r)
      else
        let e = rc_next r in
        (Some True,
         r\<lparr>rc_cells := (rc_cells r)(e := \<lparr>sj_done = True, sj_answer = ln_Answer l, sj_answered = True, sj_key = k\<rparr>),
           rc_next := Suc e, rc_memo := (rc_memo r)(k := Some e),
           rc_noise := (rc_noise r)(ln_Session l := rc_noise r (ln_Session l) + 1)\<rparr>))"

text \<open>\<open>Hard\<close>, \<open>Resolved\<close> and \<open>Unresolved\<close>: the subject's key and its line, for \<open>once\<close>.\<close>

definition Hard :: "line \<Rightarrow> string \<Rightarrow> string \<Rightarrow> string \<times> line" where
  "Hard l key reason =
     (memoKey (ln_Session l) (''hard '' @ ln_Kind l) key,
      l\<lparr>ln_Would := answer_Refuse, ln_Answer := answer_Refuse, ln_Source := SourceHard, ln_Reason := reason\<rparr>)"

definition rec_Resolved :: "string \<Rightarrow> string \<Rightarrow> string \<times> line" where
  "rec_Resolved session name =
     (memoKey session KindDNS name,
      empty_line\<lparr>ln_Session := session, ln_Kind := KindDNS, ln_Name := name, ln_Would := answer_Refuse,
        ln_Rule := RuleNotAllowed, ln_Answer := answer_Allow, ln_Source := SourceTelemetry\<rparr>)"

definition Unresolved :: "string \<Rightarrow> string \<Rightarrow> string \<times> line" where
  "Unresolved session name =
     (memoKey session KindDNS name,
      empty_line\<lparr>ln_Session := session, ln_Kind := KindDNS, ln_Name := name, ln_Would := answer_Refuse,
        ln_Rule := RuleNotAllowed, ln_Answer := answer_Refuse, ln_Source := SourceTelemetry,
        ln_Reason := ReasonNotLookedUp\<rparr>)"

section \<open>Goroutines\<close>

text \<open>A call: \<open>Decide\<close> or \<open>DecideEach\<close> of a line and its key, or \<open>once\<close> of a key and a line.\<close>

datatype call = Deciding line string bool | Noting string line

datatype pc =
  Start
| Owner nat bool
| Closing nat result
| Writing bool line "result option"
| Waiting nat
| Again nat
| Finished "result option"

text \<open>One part of a call; \<open>None\<close> where it has to wait, or is over. At \<open>Waiting\<close>, \<open>o_gone\<close> is the
  select taking the client's going.\<close>

fun move :: "outside \<Rightarrow> call \<Rightarrow> pc \<Rightarrow> recorder \<Rightarrow> (pc \<times> recorder) option" where
  "move env (Deciding l key each) Start r =
     (case find_cell (memoKey (ln_Session l) (ln_Kind l) key) (ln_Session l) r of
        (None, e, r) \<Rightarrow> Some (Waiting e, r)
      | (Some (e, held), _, r) \<Rightarrow> Some (Owner e held, r))"
| "move env (Deciding l key each) (Owner e held) r =
     (let res = decision_of r (o_asked env) in
      Some (Closing e res, settle (memoKey (ln_Session l) (ln_Kind l) key) (ln_Session l) e res r))"
| "move env (Deciding l key each) (Closing e res) r =
     Some (Writing True (l\<lparr>ln_Answer := res_Answer res, ln_Source := res_Source res, ln_Reason := res_Reason res\<rparr>)
       (Some res), close_cell e r)"
| "move env (Deciding l key each) (Waiting e) r =
     (if o_gone env
      then Some (Finished (Some \<lparr>res_Answer = answer_Refuse, res_Source = SourceUnanswered,
        res_Reason = ReasonStoppedWaiting, res_Err = None\<rparr>), r)
      else if \<not> sj_done (rc_cells r e) then None
      else if \<not> sj_answered (rc_cells r e) then Some (Start, r)
      else if Interactive r \<and> (each \<or> sj_answer (rc_cells r e) = answer_Ask) then Some (Again e, r)
      else Some (Finished (Some \<lparr>res_Answer = sj_answer (rc_cells r e), res_Source = SourceMemo, res_Reason = [],
        res_Err = None\<rparr>), r))"
| "move env (Deciding l key each) (Again e) r =
     (let res = ask_person (o_asked env) in
      if res_Source res = SourceUnanswered then Some (Finished (Some res), r)
      else
        let (changed, r) = change_answer e (res_Answer res) r in
        if changed
        then Some (Writing True (l\<lparr>ln_Answer := res_Answer res, ln_Source := res_Source res\<rparr>) (Some res), r)
        else Some (Finished (Some res), r))"
| "move env (Noting k l) Start r =
     (case note_once k l r of
        (None, r) \<Rightarrow> Some (Finished None, r)
      | (Some sink, r) \<Rightarrow> Some (Writing sink l None, r))"
| "move env c (Writing sink l res) r = Some (Finished res, write_line env l sink r)"
| "move env c (Finished res) r = None"
| "move env (Noting k l) pc r = None"

record world =
  w_rec :: recorder
  w_calls :: "nat \<Rightarrow> (call \<times> pc) option"

inductive step :: "world \<Rightarrow> world \<Rightarrow> bool" where
  begins: "w_calls w t = None \<Longrightarrow> step w (w\<lparr>w_calls := (w_calls w)(t := Some (c, Start))\<rparr>)"
| moves: "w_calls w t = Some (c, pc) \<Longrightarrow> move env c pc (w_rec w) = Some (pc', r) \<Longrightarrow>
    step w (w\<lparr>w_rec := r, w_calls := (w_calls w)(t := Some (c, pc'))\<rparr>)"
| shuts: "step w (w\<lparr>w_rec := recorder_Close (w_rec w)\<rparr>)"

inductive reachable :: "config \<Rightarrow> world \<Rightarrow> bool" for cfg where
  starts: "new_recorder cfg = Some r \<Longrightarrow> reachable cfg \<lparr>w_rec = r, w_calls = (\<lambda>_. None)\<rparr>"
| steps: "reachable cfg w \<Longrightarrow> step w w' \<Longrightarrow> reachable cfg w'"


section \<open>What every reachable state keeps\<close>

fun call_key :: "call \<Rightarrow> string" where
  "call_key (Deciding l key each) = memoKey (ln_Session l) (ln_Kind l) key"
| "call_key (Noting k l) = k"

fun deciding :: "call \<Rightarrow> bool" where
  "deciding (Deciding l key each) = True"
| "deciding (Noting k l) = False"

text \<open>A goroutine that is to answer an entry.\<close>

fun owns :: "pc \<Rightarrow> nat \<Rightarrow> bool" where
  "owns (Owner e held) e' = (e = e')"
| "owns (Closing e res) e' = (e = e')"
| "owns pc e' = False"

fun pc_ok :: "recorder \<Rightarrow> call \<Rightarrow> pc \<Rightarrow> bool" where
  "pc_ok r c (Owner e held) =
     (deciding c \<and> e < rc_next r \<and> sj_key (rc_cells r e) = call_key c \<and> \<not> sj_done (rc_cells r e) \<and>
      \<not> sj_answered (rc_cells r e) \<and> (held \<longleftrightarrow> rc_memo r (call_key c) = Some e))"
| "pc_ok r c (Closing e res) =
     (deciding c \<and> e < rc_next r \<and> sj_key (rc_cells r e) = call_key c \<and> \<not> sj_done (rc_cells r e) \<and>
      (if sj_answered (rc_cells r e) then res_Source res \<noteq> SourceUnanswered \<and> sj_answer (rc_cells r e) = res_Answer res
       else rc_memo r (call_key c) \<noteq> Some e))"
| "pc_ok r c (Waiting e) = (deciding c \<and> e < rc_next r \<and> sj_key (rc_cells r e) = call_key c)"
| "pc_ok r c (Again e) =
     (deciding c \<and> Interactive r \<and> e < rc_next r \<and> sj_key (rc_cells r e) = call_key c \<and> sj_done (rc_cells r e) \<and>
      sj_answered (rc_cells r e))"
| "pc_ok r c pc = True"

definition calls_ok :: "world \<Rightarrow> bool" where
  "calls_ok w \<longleftrightarrow> (\<forall>t c pc. w_calls w t = Some (c, pc) \<longrightarrow> pc_ok (w_rec w) c pc)"

definition one_owner :: "world \<Rightarrow> bool" where
  "one_owner w \<longleftrightarrow>
     (\<forall>t u c d pc qc e. w_calls w t = Some (c, pc) \<and> w_calls w u = Some (d, qc) \<and> owns pc e \<and> owns qc e \<longrightarrow> t = u)"

definition open_owned :: "world \<Rightarrow> bool" where
  "open_owned w \<longleftrightarrow>
     (\<forall>e < rc_next (w_rec w). \<not> sj_done (rc_cells (w_rec w) e) \<longrightarrow> (\<exists>t c pc. w_calls w t = Some (c, pc) \<and> owns pc e))"

definition memo_ok :: "recorder \<Rightarrow> bool" where
  "memo_ok r \<longleftrightarrow>
     (\<forall>k e. rc_memo r k = Some e \<longrightarrow> e < rc_next r \<and> sj_key (rc_cells r e) = k \<and>
        (sj_done (rc_cells r e) \<longrightarrow> sj_answered (rc_cells r e)))"

definition world_ok :: "world \<Rightarrow> bool" where
  "world_ok w \<longleftrightarrow> calls_ok w \<and> one_owner w \<and> open_owned w \<and> memo_ok (w_rec w)"

lemma write_line_simps [simp]:
  "rc_memo (write_line env l sink r) = rc_memo r" "rc_cells (write_line env l sink r) = rc_cells r"
  "rc_next (write_line env l sink r) = rc_next r" "rc_cfg (write_line env l sink r) = rc_cfg r"
  "rc_decided (write_line env l sink r) = rc_decided r" "rc_noise (write_line env l sink r) = rc_noise r"
  "rc_journal (write_line env l sink r) = rc_journal r @ [stamp (rc_cfg r) (o_now env) l]"
  by (simp_all add: write_line_def Let_def split: option.split prod.split)

lemma recorder_Close_simps [simp]:
  "rc_memo (recorder_Close r) = rc_memo r" "rc_cells (recorder_Close r) = rc_cells r"
  "rc_next (recorder_Close r) = rc_next r" "rc_cfg (recorder_Close r) = rc_cfg r"
  "rc_decided (recorder_Close r) = rc_decided r" "rc_noise (recorder_Close r) = rc_noise r"
  "rc_journal (recorder_Close r) = rc_journal r" "rc_failures (recorder_Close r) = rc_failures r"
  "rc_sink (recorder_Close r) = map_option sink_Close (rc_sink r)"
  by (simp_all add: recorder_Close_def)

lemma Close_kept [simp]:
  "pc_ok (recorder_Close r) c pc = pc_ok r c pc" "memo_ok (recorder_Close r) = memo_ok r"
  by (cases pc; simp add: Interactive_def) (simp add: memo_ok_def)

lemma set_answer_simps [simp]:
  "rc_memo (set_answer e a r) = rc_memo r" "rc_next (set_answer e a r) = rc_next r" "rc_cfg (set_answer e a r) = rc_cfg r"
  "rc_decided (set_answer e a r) = rc_decided r" "rc_noise (set_answer e a r) = rc_noise r"
  "rc_journal (set_answer e a r) = rc_journal r" "rc_sink (set_answer e a r) = rc_sink r" "rc_failures (set_answer e a r) = rc_failures r"
  "rc_cells (set_answer e a r) = (rc_cells r)(e := (rc_cells r e)\<lparr>sj_answer := a, sj_answered := True\<rparr>)"
  by (simp_all add: set_answer_def)

lemma close_cell_simps [simp]:
  "rc_memo (close_cell e r) = rc_memo r" "rc_next (close_cell e r) = rc_next r" "rc_cfg (close_cell e r) = rc_cfg r"
  "rc_decided (close_cell e r) = rc_decided r" "rc_noise (close_cell e r) = rc_noise r"
  "rc_journal (close_cell e r) = rc_journal r" "rc_sink (close_cell e r) = rc_sink r" "rc_failures (close_cell e r) = rc_failures r"
  "rc_cells (close_cell e r) = (rc_cells r)(e := (rc_cells r e)\<lparr>sj_done := True\<rparr>)"
  by (simp_all add: close_cell_def)

lemma Interactive_cfg: "rc_cfg r = rc_cfg r' \<Longrightarrow> Interactive r = Interactive r'"
  by (simp add: Interactive_def)

text \<open>
  The parts again, as a relation with a rule for each way through the code: what it needs, where the
  call goes, and what becomes of the recorder.
\<close>

definition fresh_cell :: "string \<Rightarrow> bool \<Rightarrow> answer \<Rightarrow> recorder \<Rightarrow> recorder" where
  "fresh_cell k answered a r =
     r\<lparr>rc_cells := (rc_cells r)(rc_next r := \<lparr>sj_done = answered, sj_answer = a, sj_answered = answered, sj_key = k\<rparr>),
       rc_next := Suc (rc_next r)\<rparr>"

definition remember :: "string \<Rightarrow> nat option \<Rightarrow> recorder \<Rightarrow> recorder" where
  "remember k e r = r\<lparr>rc_memo := (rc_memo r)(k := e)\<rparr>"

definition count :: "string \<Rightarrow> int \<Rightarrow> recorder \<Rightarrow> recorder" where
  "count session n r = r\<lparr>rc_decided := (rc_decided r)(session := rc_decided r session + n)\<rparr>"

definition count_noise :: "string \<Rightarrow> recorder \<Rightarrow> recorder" where
  "count_noise session r = r\<lparr>rc_noise := (rc_noise r)(session := rc_noise r session + 1)\<rparr>"

inductive part :: "call \<Rightarrow> pc \<Rightarrow> pc \<Rightarrow> recorder \<Rightarrow> recorder \<Rightarrow> bool" where
  waits: "rc_memo r (call_key (Deciding l key each)) = Some e \<Longrightarrow> part (Deciding l key each) Start (Waiting e) r r"
| remembered: "rc_memo r (call_key (Deciding l key each)) = None \<Longrightarrow> rc_decided r (ln_Session l) < maxMemo \<Longrightarrow>
    part (Deciding l key each) Start (Owner (rc_next r) True) r
      (count (ln_Session l) 1 (remember (call_key (Deciding l key each)) (Some (rc_next r))
        (fresh_cell (call_key (Deciding l key each)) False [] r)))"
| full: "rc_memo r (call_key (Deciding l key each)) = None \<Longrightarrow> rc_decided r (ln_Session l) \<ge> maxMemo \<Longrightarrow>
    part (Deciding l key each) Start (Owner (rc_next r) False) r
      (fresh_cell (call_key (Deciding l key each)) False [] r)"
| answered: "res = decision_of r asked \<Longrightarrow> res_Source res \<noteq> SourceUnanswered \<Longrightarrow>
    part (Deciding l key each) (Owner e held) (Closing e res) r (set_answer e (res_Answer res) r)"
| unanswered: "res = decision_of r asked \<Longrightarrow> res_Source res = SourceUnanswered \<Longrightarrow>
    rc_memo r (call_key (Deciding l key each)) = Some e \<Longrightarrow>
    part (Deciding l key each) (Owner e held) (Closing e res) r
      (count (ln_Session l) (- 1) (remember (call_key (Deciding l key each)) None r))"
| unanswered_full: "res = decision_of r asked \<Longrightarrow> res_Source res = SourceUnanswered \<Longrightarrow>
    rc_memo r (call_key (Deciding l key each)) \<noteq> Some e \<Longrightarrow>
    part (Deciding l key each) (Owner e held) (Closing e res) r r"
| closes: "part (Deciding l key each) (Closing e res)
    (Writing True (l\<lparr>ln_Answer := res_Answer res, ln_Source := res_Source res, ln_Reason := res_Reason res\<rparr>) (Some res))
    r (close_cell e r)"
| stops: "part (Deciding l key each) (Waiting e)
    (Finished (Some \<lparr>res_Answer = answer_Refuse, res_Source = SourceUnanswered, res_Reason = ReasonStoppedWaiting, res_Err = None\<rparr>))
    r r"
| retries: "sj_done (rc_cells r e) \<Longrightarrow> \<not> sj_answered (rc_cells r e) \<Longrightarrow> part (Deciding l key each) (Waiting e) Start r r"
| asks_again: "sj_done (rc_cells r e) \<Longrightarrow> sj_answered (rc_cells r e) \<Longrightarrow> Interactive r \<Longrightarrow>
    each \<or> sj_answer (rc_cells r e) = answer_Ask \<Longrightarrow> part (Deciding l key each) (Waiting e) (Again e) r r"
| recalls: "sj_done (rc_cells r e) \<Longrightarrow> sj_answered (rc_cells r e) \<Longrightarrow>
    \<not> (Interactive r \<and> (each \<or> sj_answer (rc_cells r e) = answer_Ask)) \<Longrightarrow>
    part (Deciding l key each) (Waiting e)
      (Finished (Some \<lparr>res_Answer = sj_answer (rc_cells r e), res_Source = SourceMemo, res_Reason = [], res_Err = None\<rparr>))
      r r"
| again_unanswered: "res = ask_person asked \<Longrightarrow> res_Source res = SourceUnanswered \<Longrightarrow>
    part (Deciding l key each) (Again e) (Finished (Some res)) r r"
| again_same: "res = ask_person asked \<Longrightarrow> res_Source res \<noteq> SourceUnanswered \<Longrightarrow>
    sj_answer (rc_cells r e) = res_Answer res \<Longrightarrow>
    part (Deciding l key each) (Again e) (Finished (Some res)) r r"
| again_changed: "res = ask_person asked \<Longrightarrow> res_Source res \<noteq> SourceUnanswered \<Longrightarrow>
    sj_answer (rc_cells r e) \<noteq> res_Answer res \<Longrightarrow>
    part (Deciding l key each) (Again e)
      (Writing True (l\<lparr>ln_Answer := res_Answer res, ln_Source := res_Source res\<rparr>) (Some res)) r
      (r\<lparr>rc_cells := (rc_cells r)(e := (rc_cells r e)\<lparr>sj_answer := res_Answer res\<rparr>)\<rparr>)"
| seen: "rc_memo r k \<noteq> None \<Longrightarrow> part (Noting k l) Start (Finished None) r r"
| over: "rc_memo r k = None \<Longrightarrow> rc_noise r (ln_Session l) \<ge> maxNoise \<Longrightarrow> part (Noting k l) Start (Writing False l None) r r"
| noted: "rc_memo r k = None \<Longrightarrow> rc_noise r (ln_Session l) < maxNoise \<Longrightarrow>
    part (Noting k l) Start (Writing True l None) r
      (count_noise (ln_Session l) (remember k (Some (rc_next r)) (fresh_cell k True (ln_Answer l) r)))"
| writes: "part c (Writing sink l res) (Finished res) r (write_line env l sink r)"

lemmas change_defs = fresh_cell_def remember_def count_def count_noise_def

lemma same_answer_cell [simp]:
  "sj_answer (rc_cells r e) = a \<Longrightarrow> r\<lparr>rc_cells := (rc_cells r)(e := (rc_cells r e)\<lparr>sj_answer := a\<rparr>)\<rparr> = r"
  by auto

lemma move_part: "move env c pc r = Some (pc', r') \<Longrightarrow> part c pc pc' r r'"
proof (induction env c pc r rule: move.induct)
  case (1 env l key each r)
  let ?k = "call_key (Deciding l key each)"
  show ?case
  proof (cases "rc_memo r ?k")
    case None
    with 1 part.remembered [of r l key each] part.full [of r l key each] show ?thesis
      by (cases "rc_decided r (ln_Session l) < maxMemo") (simp_all add: find_cell_def Let_def change_defs)
  next
    case (Some e)
    with 1 part.waits [of r l key each e] show ?thesis by (simp add: find_cell_def)
  qed
next
  case (2 env l key each e held r)
  then show ?case
    using part.answered [of _ r "o_asked env" l key each e held] part.unanswered [of _ r "o_asked env" l key each e held]
      part.unanswered_full [of _ r "o_asked env" l key each e held]
    by (cases "res_Source (decision_of r (o_asked env)) = SourceUnanswered") (auto simp: Let_def settle_def change_defs)
next
  case (4 env l key each e r)
  then show ?case by (auto split: if_splits intro: part.intros)
next
  case (5 env l key each e r)
  then show ?case
    using part.again_unanswered [of _ "o_asked env" l key each e r] part.again_same [of _ "o_asked env" r e l key each]
      part.again_changed [of _ "o_asked env" r e l key each]
    by (auto simp: Let_def change_answer_def split: if_splits)
next
  case (6 env k l r)
  then show ?case
    using part.seen [of r k l] part.over [of r k l] part.noted [of r k l]
    by (auto simp: note_once_def Let_def change_defs split: if_splits)
qed (auto intro: part.intros)
lemma part_pc: "part c pc pc' r r' \<Longrightarrow> pc_ok r c pc \<Longrightarrow> memo_ok r \<Longrightarrow> pc_ok r' c pc'"
  by (induction rule: part.induct) (auto simp: change_defs memo_ok_def Interactive_def)

lemma part_memo: "part c pc pc' r r' \<Longrightarrow> pc_ok r c pc \<Longrightarrow> memo_ok r \<Longrightarrow> memo_ok r'"
  by (induction rule: part.induct) (auto simp: change_defs memo_ok_def less_Suc_eq split: if_splits)

lemma part_others:
  "part c pc pc' r r' \<Longrightarrow> pc_ok r c pc \<Longrightarrow> memo_ok r \<Longrightarrow> pc_ok r d qc \<Longrightarrow> \<forall>e. \<not> (owns pc e \<and> owns qc e) \<Longrightarrow> pc_ok r' d qc"
  by (induction rule: part.induct; cases qc) (auto simp: change_defs Interactive_def split: if_splits)

lemma part_open:
  "part c pc pc' r r' \<Longrightarrow> e < rc_next r' \<Longrightarrow> \<not> sj_done (rc_cells r' e) \<Longrightarrow>
   owns pc' e \<or> (e < rc_next r \<and> \<not> sj_done (rc_cells r e) \<and> \<not> owns pc e)"
  by (induction rule: part.induct) (auto simp: change_defs less_Suc_eq split: if_splits)

lemma part_owns: "part c pc pc' r r' \<Longrightarrow> owns pc' e \<Longrightarrow> owns pc e \<or> e = rc_next r"
  by (induction rule: part.induct) auto

lemma owned_old: "pc_ok r c pc \<Longrightarrow> owns pc e \<Longrightarrow> e < rc_next r"
  by (cases pc) auto

lemma calls_okD: "calls_ok w \<Longrightarrow> w_calls w t = Some (c, pc) \<Longrightarrow> pc_ok (w_rec w) c pc"
  by (auto simp: calls_ok_def)

lemma one_ownerD:
  "one_owner w \<Longrightarrow> w_calls w t = Some (c, pc) \<Longrightarrow> w_calls w u = Some (d, qc) \<Longrightarrow> owns pc e \<Longrightarrow> owns qc e \<Longrightarrow> t = u"
  unfolding one_owner_def by blast

lemma world_ok_moves:
  assumes ok: "world_ok w" and t: "w_calls w t = Some (c, pc)" and p: "part c pc pc' (w_rec w) r"
  shows "world_ok (w\<lparr>w_rec := r, w_calls := (w_calls w)(t := Some (c, pc'))\<rparr>)"
proof -
  let ?w = "w\<lparr>w_rec := r, w_calls := (w_calls w)(t := Some (c, pc'))\<rparr>"
  have calls: "calls_ok w" and own: "one_owner w" and opn: "open_owned w" and memo: "memo_ok (w_rec w)"
    using ok by (simp_all add: world_ok_def)
  have here: "pc_ok (w_rec w) c pc" using calls t by (rule calls_okD)
  have "calls_ok ?w"
    unfolding calls_ok_def
  proof (intro allI impI)
    fix u d qc
    assume u: "w_calls ?w u = Some (d, qc)"
    show "pc_ok (w_rec ?w) d qc"
    proof (cases "u = t")
      case True
      with u part_pc [OF p here memo] show ?thesis by simp
    next
      case False
      with u have d: "w_calls w u = Some (d, qc)" by simp
      have "\<forall>e. \<not> (owns pc e \<and> owns qc e)" using one_ownerD [OF own t d] False by blast
      from part_others [OF p here memo calls_okD [OF calls d] this] show ?thesis by simp
    qed
  qed
  moreover have "one_owner ?w"
    unfolding one_owner_def
  proof (intro allI impI, elim conjE)
    fix s u d d' pd pd' e
    assume s: "w_calls ?w s = Some (d, pd)" and u: "w_calls ?w u = Some (d', pd')" and o: "owns pd e" "owns pd' e"
    have mine: "x = t" if "owns pc' e" "w_calls w x = Some (b, qc)" "owns qc e" for x b qc
      using part_owns [OF p that(1)] owned_old [OF calls_okD [OF calls that(2)] that(3)] one_ownerD [OF own that(2) t that(3)]
      by auto
    show "s = u"
    proof (cases "s = t \<or> u = t")
      case True
      with s u o mine show ?thesis by (auto split: if_splits)
    next
      case False
      with s u o one_ownerD [OF own] show ?thesis by auto
    qed
  qed
  moreover have "open_owned ?w"
    unfolding open_owned_def
  proof (intro allI impI)
    fix e assume e: "e < rc_next (w_rec ?w)" "\<not> sj_done (rc_cells (w_rec ?w) e)"
    then consider (mine) "owns pc' e" | (old) "e < rc_next (w_rec w)" "\<not> sj_done (rc_cells (w_rec w) e)" "\<not> owns pc e"
      using part_open [OF p, of e] by auto
    then show "\<exists>u d qc. w_calls ?w u = Some (d, qc) \<and> owns qc e"
    proof cases
      case mine
      then show ?thesis by (intro exI [of _ t]) simp
    next
      case old
      then obtain u d qc where u: "w_calls w u = Some (d, qc)" "owns qc e"
        using opn unfolding open_owned_def by blast
      with old(3) t have "u \<noteq> t" by auto
      with u show ?thesis by (intro exI [of _ u]) simp
    qed
  qed
  moreover have "memo_ok (w_rec ?w)" using part_memo [OF p here memo] by simp
  ultimately show ?thesis by (simp add: world_ok_def)
qed

lemma new_recorder_fields:
  "new_recorder cfg = Some r \<Longrightarrow>
   rc_cfg r = cfg \<and> rc_memo r = (\<lambda>_. None) \<and> rc_next r = 0 \<and> rc_decided r = (\<lambda>_. 0) \<and> rc_noise r = (\<lambda>_. 0) \<and>
   rc_journal r = [] \<and> rc_sink r = cf_Sink cfg \<and> (cf_Default cfg = [] \<or> validAnswer (cf_Default cfg))"
  by (auto simp: new_recorder_def validAnswer_def split: if_splits)

lemma reachable_ok: "reachable cfg w \<Longrightarrow> world_ok w"
proof (induction rule: reachable.induct)
  case (starts r)
  then show ?case
    by (auto dest!: new_recorder_fields simp: world_ok_def calls_ok_def one_owner_def open_owned_def memo_ok_def)
next
  case (steps w w')
  from steps.hyps(2) steps.IH show ?case
  proof (cases rule: step.cases)
    case (begins t c)
    with steps.IH show ?thesis
      unfolding world_ok_def calls_ok_def one_owner_def open_owned_def
      by (auto split: if_splits) (metis option.distinct(1) fun_upd_other)
  next
    case (moves t c pc env pc' r)
    with world_ok_moves [OF steps.IH moves(2) move_part [OF moves(3)]] show ?thesis by simp
  next
    case shuts
    with steps.IH show ?thesis unfolding world_ok_def calls_ok_def one_owner_def open_owned_def by simp
  qed
qed


section \<open>Keys\<close>

definition no_nul :: "string \<Rightarrow> bool" where
  "no_nul s \<longleftrightarrow> CHR 0x00 \<notin> set s"

definition key_session :: "string \<Rightarrow> string" where
  "key_session k = takeWhile (\<lambda>c. c \<noteq> CHR 0x00) k"

definition key_kind :: "string \<Rightarrow> string" where
  "key_kind k = takeWhile (\<lambda>c. c \<noteq> CHR 0x00) (drop (Suc (length (key_session k))) k)"

lemma takeWhile_nul: "no_nul s \<Longrightarrow> takeWhile (\<lambda>c. c \<noteq> CHR 0x00) (s @ CHR 0x00 # x) = s"
  unfolding no_nul_def by (induction s) auto

lemma key_session_memoKey [simp]: "no_nul s \<Longrightarrow> key_session (memoKey s kind x) = s"
  by (simp add: key_session_def memoKey_def takeWhile_nul)

lemma key_kind_memoKey [simp]: "no_nul s \<Longrightarrow> no_nul kind \<Longrightarrow> key_kind (memoKey s kind x) = kind"
  by (simp add: key_kind_def) (simp add: memoKey_def takeWhile_nul)

lemma memoKey_inject:
  "no_nul s \<Longrightarrow> no_nul s' \<Longrightarrow> no_nul kind \<Longrightarrow> no_nul kind' \<Longrightarrow>
   memoKey s kind x = memoKey s' kind' x' \<longleftrightarrow> s = s' \<and> kind = kind' \<and> x = x'"
proof -
  assume n: "no_nul s" "no_nul s'" "no_nul kind" "no_nul kind'"
  show ?thesis
  proof
    assume eq: "memoKey s kind x = memoKey s' kind' x'"
    have "s = s'" "kind = kind'"
      using arg_cong [OF eq, of key_session] arg_cong [OF eq, of key_kind] n by simp_all
    with eq show "s = s' \<and> kind = kind' \<and> x = x'" by (simp add: memoKey_def)
  qed simp
qed

definition decided_kind :: "string \<Rightarrow> bool" where
  "decided_kind kind \<longleftrightarrow> kind = KindHTTP \<or> kind = KindSSH \<or> kind = KindEgress"

lemma decided_kind_nul: "decided_kind kind \<Longrightarrow> no_nul kind"
  by (auto simp: decided_kind_def no_nul_def)

text \<open>The calls the program makes: sessions are names, which hold no NUL, and \<open>once\<close> is given keys
  of kinds that are never decided.\<close>

fun proper :: "call \<Rightarrow> bool" where
  "proper (Deciding l key each) = (no_nul (ln_Session l) \<and> decided_kind (ln_Kind l))"
| "proper (Noting k l) = (no_nul (ln_Session l) \<and> key_session k = ln_Session l \<and> \<not> decided_kind (key_kind k))"

definition all_proper :: "world \<Rightarrow> bool" where
  "all_proper w \<longleftrightarrow> (\<forall>t c pc. w_calls w t = Some (c, pc) \<longrightarrow> proper c)"

lemma proper_key: "proper c \<Longrightarrow> decided_kind (key_kind (call_key c)) \<longleftrightarrow> deciding c"
  by (cases c) (auto simp: decided_kind_nul)

lemma Hard_proper:
  "no_nul (ln_Session l) \<Longrightarrow> decided_kind (ln_Kind l) \<Longrightarrow> proper (Noting (fst (Hard l key reason)) (snd (Hard l key reason)))"
  by (auto simp: Hard_def decided_kind_def no_nul_def)

lemma telemetry_proper:
  "no_nul s \<Longrightarrow> proper (Noting (fst (rec_Resolved s name)) (snd (rec_Resolved s name))) \<and>
    proper (Noting (fst (Unresolved s name)) (snd (Unresolved s name)))"
  by (auto simp: rec_Resolved_def Unresolved_def decided_kind_def no_nul_def empty_line_def)

lemma step_proper: "step w w' \<Longrightarrow> all_proper w' \<Longrightarrow> all_proper w"
proof (erule step.cases)
  fix v t c
  assume "w = v" "w' = v\<lparr>w_calls := (w_calls v)(t := Some (c, Start))\<rparr>" "w_calls v t = None" "all_proper w'"
  then show "all_proper w" unfolding all_proper_def by (auto split: if_splits) (metis option.distinct(1))
next
  fix v t c pc env pc' r
  assume "w = v" "w' = v\<lparr>w_rec := r, w_calls := (w_calls v)(t := Some (c, pc'))\<rparr>" "w_calls v t = Some (c, pc)"
    "all_proper w'"
  then show "all_proper w" unfolding all_proper_def by (auto split: if_splits) (metis option.inject prod.inject)
qed (simp add: all_proper_def)

section \<open>What is answered and what is written\<close>

lemma part_cfg: "part c pc pc' r r' \<Longrightarrow> rc_cfg r' = rc_cfg r"
  by (induction rule: part.induct) (simp_all add: change_defs)

lemma reachable_cfg: "reachable cfg w \<Longrightarrow> rc_cfg (w_rec w) = cfg \<and> (cf_Default cfg = [] \<or> validAnswer (cf_Default cfg))"
proof (induction rule: reachable.induct)
  case (steps w w')
  from steps.hyps(2) steps.IH show ?case
    by (cases rule: step.cases) (auto dest: move_part part_cfg)
qed (auto dest: new_recorder_fields)

text \<open>What a result may be: the recorder's answer, or a refusal for want of one.\<close>

definition answer_ok :: "config \<Rightarrow> answer \<Rightarrow> bool" where
  "answer_ok cfg a \<longleftrightarrow> validAnswer a \<and> (cf_Default cfg \<noteq> [] \<longrightarrow> a = cf_Default cfg)"

definition result_ok :: "config \<Rightarrow> result \<Rightarrow> bool" where
  "result_ok cfg res \<longleftrightarrow>
     (if res_Source res = SourceUnanswered
      then res_Answer res = answer_Refuse \<and> (cf_Default cfg \<noteq> [] \<longrightarrow> res_Reason res = ReasonStoppedWaiting)
      else answer_ok cfg (res_Answer res))"

fun pc_result :: "pc \<Rightarrow> result option" where
  "pc_result (Closing e res) = Some res"
| "pc_result (Writing sink l res) = res"
| "pc_result (Finished res) = res"
| "pc_result pc = None"

definition results_ok :: "world \<Rightarrow> bool" where
  "results_ok w \<longleftrightarrow>
     (\<forall>t c pc res. w_calls w t = Some (c, pc) \<and> pc_result pc = Some res \<longrightarrow> result_ok (rc_cfg (w_rec w)) res) \<and>
     (\<forall>e < rc_next (w_rec w). sj_answered (rc_cells (w_rec w) e) \<and> decided_kind (key_kind (sj_key (rc_cells (w_rec w) e))) \<longrightarrow>
        answer_ok (rc_cfg (w_rec w)) (sj_answer (rc_cells (w_rec w) e)))"

lemma ask_person_ok: "cf_Default cfg = [] \<Longrightarrow> result_ok cfg (ask_person asked)"
  by (auto simp: ask_person_def result_ok_def answer_ok_def Let_def split: prod.splits if_splits)

lemma decision_ok:
  "cf_Default (rc_cfg r) = [] \<or> validAnswer (cf_Default (rc_cfg r)) \<Longrightarrow> result_ok (rc_cfg r) (decision_of r asked)"
  by (auto simp: decision_of_def Interactive_def Default_def ask_person_ok) (simp add: result_ok_def answer_ok_def)

lemma part_result:
  assumes "part c pc pc' r r'" "pc_ok r c pc" "proper c" "cf_Default (rc_cfg r) = [] \<or> validAnswer (cf_Default (rc_cfg r))"
    and "\<And>res. pc_result pc = Some res \<Longrightarrow> result_ok (rc_cfg r) res"
    and "\<And>e. e < rc_next r \<Longrightarrow> sj_answered (rc_cells r e) \<Longrightarrow> decided_kind (key_kind (sj_key (rc_cells r e))) \<Longrightarrow>
      answer_ok (rc_cfg r) (sj_answer (rc_cells r e))"
  shows "(pc_result pc' = Some res \<longrightarrow> result_ok (rc_cfg r') res) \<and>
    (e < rc_next r' \<and> sj_answered (rc_cells r' e) \<and> decided_kind (key_kind (sj_key (rc_cells r' e))) \<longrightarrow>
      answer_ok (rc_cfg r') (sj_answer (rc_cells r' e)))"
  using assms
proof (induction rule: part.induct)
  case (answered res r asked l key each e' held)
  have "result_ok (rc_cfg r) res" using answered by (simp add: decision_ok)
  with answered show ?case by (auto simp: result_ok_def)
next
  case (unanswered res r asked l key each e' held)
  have "result_ok (rc_cfg r) res" using unanswered by (simp add: decision_ok)
  with unanswered show ?case by (auto simp: change_defs)
next
  case (unanswered_full res r asked l key each e' held)
  have "result_ok (rc_cfg r) res" using unanswered_full by (simp add: decision_ok)
  with unanswered_full show ?case by auto
next
  case (recalls r e' each l key)
  have "answer_ok (rc_cfg r) (sj_answer (rc_cells r e'))"
    using recalls.prems(1,2) recalls.hyps by (intro recalls.prems(5)) (auto simp: decided_kind_nul)
  with recalls.prems recalls.hyps show ?case by (auto simp: result_ok_def)
next
  case (again_unanswered res asked l key each e' r)
  then show ?case by (auto simp: Interactive_def ask_person_ok)
next
  case (again_same res asked r e' l key each)
  then show ?case by (auto simp: Interactive_def ask_person_ok)
next
  case (again_changed res asked r e' l key each)
  have "result_ok (rc_cfg r) res" using again_changed by (simp add: Interactive_def ask_person_ok)
  with again_changed show ?case by (auto simp: result_ok_def)
next
  case (stops l key each e' r)
  then show ?case by (auto simp: result_ok_def)
next
  case (closes l key each e' res r)
  then show ?case by (auto simp: result_ok_def)
qed (auto simp: change_defs less_Suc_eq split: if_splits)

lemma reachable_results: "reachable cfg w \<Longrightarrow> all_proper w \<Longrightarrow> results_ok w"
proof (induction rule: reachable.induct)
  case (starts r)
  then show ?case by (auto simp: results_ok_def dest!: new_recorder_fields)
next
  case (steps w w')
  have ok: "world_ok w" "results_ok w" "cf_Default (rc_cfg (w_rec w)) = [] \<or> validAnswer (cf_Default (rc_cfg (w_rec w)))"
    using steps.IH [OF step_proper [OF steps.hyps(2) steps.prems]] reachable_ok [OF steps.hyps(1)]
      reachable_cfg [OF steps.hyps(1)] by simp_all
  from steps.hyps(2) show ?case
  proof (cases rule: step.cases)
    case (begins t c)
    with ok(2) show ?thesis unfolding results_ok_def by auto
  next
    case (moves t c pc env pc' r)
    note p = move_part [OF moves(3)]
    have "all_proper w" by (rule step_proper [OF steps.hyps(2) steps.prems])
    then have here: "pc_ok (w_rec w) c pc" "proper c"
      using ok(1) moves(2) unfolding world_ok_def all_proper_def by (auto dest: calls_okD)
    have res: "result_ok (rc_cfg (w_rec w)) res" if "w_calls w u = Some (d, qc)" "pc_result qc = Some res" for u d qc res
      using ok(2) that unfolding results_ok_def by blast
    have ans: "answer_ok (rc_cfg (w_rec w)) (sj_answer (rc_cells (w_rec w) e))"
      if "e < rc_next (w_rec w)" "sj_answered (rc_cells (w_rec w) e)" "decided_kind (key_kind (sj_key (rc_cells (w_rec w) e)))" for e
      using ok(2) that unfolding results_ok_def by blast
    note new = part_result [OF p here ok(3) res [OF moves(2)] ans]
    show ?thesis
      unfolding results_ok_def moves(1)
      using new res part_cfg [OF p] by (auto split: if_splits)
  next
    case shuts
    with ok(2) show ?thesis by (simp add: results_ok_def)
  qed
qed


section \<open>The audit\<close>

fun call_line :: "call \<Rightarrow> line" where
  "call_line (Deciding l key each) = l"
| "call_line (Noting k l) = l"

text \<open>A line a grant may be made from is in the journal; and in the sink, where there is one, unless the sink was
  bounded or closed, its write failed, which the daemon's log says, or it is noise.\<close>

definition on_record :: "recorder \<Rightarrow> line \<Rightarrow> bool" where
  "on_record r l \<longleftrightarrow>
     l \<in> set (rc_journal r) \<and>
     (case rc_sink r of
        None \<Rightarrow> True
      | Some s \<Rightarrow> Whole_line l \<in> set (sk_file s) \<or> sk_truncated s \<or> \<not> sk_open s \<or> l \<in> set (rc_failures r) \<or> noise l)"

definition answered_line :: "call \<Rightarrow> answer \<Rightarrow> line \<Rightarrow> bool" where
  "answered_line c a l' \<longleftrightarrow>
     (\<exists>source reason. l' = (call_line c)\<lparr>ln_Answer := a, ln_Source := source, ln_Reason := reason\<rparr>) \<and>
     (deciding c \<longrightarrow> \<not> noise l')"

definition logged :: "recorder \<Rightarrow> call \<Rightarrow> answer \<Rightarrow> bool" where
  "logged r c a \<longleftrightarrow> (\<exists>l now. answered_line c a l \<and> on_record r (stamp (rc_cfg r) now l))"

text \<open>A line that its goroutine is about to write.\<close>

fun about_to_log :: "call \<Rightarrow> pc \<Rightarrow> answer \<Rightarrow> bool" where
  "about_to_log c (Closing e res) a =
     (deciding c \<and> res_Answer res = a \<and> res_Source res \<noteq> SourceHard \<and> res_Source res \<noteq> SourceTelemetry)"
| "about_to_log c (Writing sink l res) a = (sink \<and> answered_line c a l)"
| "about_to_log c pc a = False"

definition noted_for :: "world \<Rightarrow> string \<Rightarrow> answer \<Rightarrow> bool" where
  "noted_for w k a \<longleftrightarrow>
     (\<exists>t c pc. w_calls w t = Some (c, pc) \<and> call_key c = k \<and> (logged (w_rec w) c a \<or> about_to_log c pc a))"

definition audit_ok :: "world \<Rightarrow> bool" where
  "audit_ok w \<longleftrightarrow>
     (\<forall>e < rc_next (w_rec w). sj_answered (rc_cells (w_rec w) e) \<longrightarrow>
        noted_for w (sj_key (rc_cells (w_rec w) e)) (sj_answer (rc_cells (w_rec w) e))) \<and>
     (\<forall>t c pc res. w_calls w t = Some (c, pc) \<and> pc_result pc = Some res \<and> res_Source res \<noteq> SourceUnanswered \<longrightarrow>
        noted_for w (call_key c) (res_Answer res))"

lemma answered_line_same [simp]: "answered_line (Noting k l) (ln_Answer l) l"
  unfolding answered_line_def call_line.simps
  by (rule conjI, rule exI [of _ "ln_Source l"], rule exI [of _ "ln_Reason l"]) simp_all

lemma answered_line_set:
  assumes "source \<noteq> SourceHard" "source \<noteq> SourceTelemetry"
  shows "answered_line (Deciding l key each) a (l\<lparr>ln_Answer := a, ln_Source := source, ln_Reason := r\<rparr>)"
    "answered_line (Deciding l key each) a (l\<lparr>ln_Answer := a, ln_Source := source\<rparr>)"
proof -
  have n: "\<not> noise (l\<lparr>ln_Answer := a, ln_Source := source, ln_Reason := x\<rparr>)" for x using assms by (simp add: noise_def)
  then show "answered_line (Deciding l key each) a (l\<lparr>ln_Answer := a, ln_Source := source, ln_Reason := r\<rparr>)"
    unfolding answered_line_def call_line.simps by blast
  have "l\<lparr>ln_Answer := a, ln_Source := source\<rparr> = l\<lparr>ln_Answer := a, ln_Source := source, ln_Reason := ln_Reason l\<rparr>" by simp
  with n show "answered_line (Deciding l key each) a (l\<lparr>ln_Answer := a, ln_Source := source\<rparr>)"
    unfolding answered_line_def call_line.simps by metis
qed

text \<open>A write to the sink keeps what it holds, and whether it is full or closed.\<close>

lemma sink_Write_keeps:
  assumes "sink_Write env l s = (ok, s')"
  shows "set (sk_file s) \<subseteq> set (sk_file s')" "sk_truncated s \<Longrightarrow> sk_truncated s'" "sk_open s' = sk_open s"
    "ok \<Longrightarrow> Whole_line l \<in> set (sk_file s') \<or> sk_truncated s' \<or> \<not> sk_open s' \<or> noise l"
  using assms by (auto simp: sink_Write_def put_line_def Let_def split: option.splits if_splits)

lemma on_record_write:
  "on_record r x \<Longrightarrow> on_record (write_line env l sink r) x"
  "sink \<Longrightarrow> on_record (write_line env l sink r) (stamp (rc_cfg r) (o_now env) l)"
proof -
  let ?l = "stamp (rc_cfg r) (o_now env) l"
  show "on_record r x \<Longrightarrow> on_record (write_line env l sink r) x"
  proof (cases "rc_sink r")
    case (Some s)
    obtain ok s' where w: "sink_Write env ?l s = (ok, s')" by fastforce
    assume "on_record r x"
    with sink_Write_keeps [OF w] show ?thesis
      by (auto simp: on_record_def write_line_def Let_def Some w)
  qed (auto simp: on_record_def write_line_def Let_def)
  show "sink \<Longrightarrow> on_record (write_line env l sink r) ?l"
  proof (cases "rc_sink r")
    case (Some s)
    obtain ok s' where w: "sink_Write env ?l s = (ok, s')" by fastforce
    assume sink
    with sink_Write_keeps(4) [OF w] show ?thesis
      by (auto simp: on_record_def write_line_def Let_def Some w)
  qed (auto simp: on_record_def write_line_def Let_def)
qed

lemma on_record_Close: "on_record r l \<Longrightarrow> on_record (recorder_Close r) l"
  by (auto simp: on_record_def sink_Close_def split: option.splits)

lemma part_record: "part c pc pc' r r' \<Longrightarrow> on_record r l \<Longrightarrow> on_record r' l"
proof (induction rule: part.induct)
  case (writes c sink l' res r env)
  then show ?case by (simp add: on_record_write(1))
qed (auto simp: on_record_def change_defs split: option.splits)

lemma logged_mono: "part c pc pc' r r' \<Longrightarrow> logged r d a \<Longrightarrow> logged r' d a"
  using part_record part_cfg unfolding logged_def by metis

lemma part_about:
  "part c pc pc' r r' \<Longrightarrow> about_to_log c pc a \<Longrightarrow> about_to_log c pc' a \<or> logged r' c a"
proof (induction rule: part.induct)
  case (writes c sink l res r env)
  then show ?case using on_record_write(2) [of sink env l r] by (auto simp: logged_def)
qed (auto simp: answered_line_set)

lemma noted_moves:
  assumes t: "w_calls w t = Some (c, pc)" and p: "part c pc pc' (w_rec w) r" and n: "noted_for w k a"
  shows "noted_for (w\<lparr>w_rec := r, w_calls := (w_calls w)(t := Some (c, pc'))\<rparr>) k a"
proof -
  obtain u d qc where u: "w_calls w u = Some (d, qc)" "call_key d = k" "logged (w_rec w) d a \<or> about_to_log d qc a"
    using n unfolding noted_for_def by blast
  show ?thesis
  proof (cases "u = t")
    case True
    with u t have "d = c" "qc = pc" by simp_all
    with u part_about [OF p, of a] logged_mono [OF p, of c a] have "logged r c a \<or> about_to_log c pc' a" by blast
    with u \<open>d = c\<close> show ?thesis unfolding noted_for_def by (intro exI [of _ t] exI [of _ c] exI [of _ pc']) simp
  next
    case False
    with u logged_mono [OF p, of d a] show ?thesis
      unfolding noted_for_def by (intro exI [of _ u] exI [of _ d] exI [of _ qc]) auto
  qed
qed

lemma ask_source: "res_Source (ask_person asked) \<in> {SourceHuman, SourceUnanswered}"
  by (simp add: ask_person_def split: prod.split)

lemma decision_source: "res_Source (decision_of r asked) \<in> {SourceDefault, SourceHuman, SourceUnanswered}"
  using ask_source [of asked] by (auto simp: decision_of_def)

text \<open>What a part makes new is noted by its own call, or was noted before.\<close>

lemma part_audit:
  assumes "part c pc pc' r r'" "pc_ok r c pc"
  shows "(pc_result pc' = Some res \<and> res_Source res \<noteq> SourceUnanswered \<longrightarrow>
      about_to_log c pc' (res_Answer res) \<or> pc_result pc = Some res \<or>
      (\<exists>e < rc_next r. sj_answered (rc_cells r e) \<and> sj_key (rc_cells r e) = call_key c \<and> sj_answer (rc_cells r e) = res_Answer res)) \<and>
    (e < rc_next r' \<and> sj_answered (rc_cells r' e) \<longrightarrow>
      (sj_key (rc_cells r' e) = call_key c \<and> about_to_log c pc' (sj_answer (rc_cells r' e))) \<or>
      (e < rc_next r \<and> sj_answered (rc_cells r e) \<and> sj_key (rc_cells r' e) = sj_key (rc_cells r e) \<and>
       sj_answer (rc_cells r' e) = sj_answer (rc_cells r e)))"
  using assms
proof (induction rule: part.induct)
  case (noted r k l)
  then show ?case by (cases "e = rc_next r") (auto simp: change_defs)
next
  case (answered res r asked l key each e' held)
  then show ?case using decision_source [of r asked] by (auto simp: change_defs)
next
  case (again_changed res asked r e' l key each)
  then show ?case using ask_source [of asked] by (auto simp: answered_line_set)
qed (auto simp: change_defs less_Suc_eq split: if_splits)

lemma reachable_audit: "reachable cfg w \<Longrightarrow> audit_ok w"
proof (induction rule: reachable.induct)
  case (starts r)
  then show ?case by (auto simp: audit_ok_def dest!: new_recorder_fields)
next
  case (steps w w')
  have calls: "calls_ok w" using reachable_ok [OF steps.hyps(1)] by (simp add: world_ok_def)
  from steps.hyps(2) show ?case
  proof (cases rule: step.cases)
    case (begins t c)
    have mono: "noted_for w' k a" if n: "noted_for w k a" for k a
    proof -
      obtain u d qc where u: "w_calls w u = Some (d, qc)" "call_key d = k" "logged (w_rec w) d a \<or> about_to_log d qc a"
        using n unfolding noted_for_def by blast
      then have "u \<noteq> t" using begins(2) by auto
      with u begins(1) show ?thesis
        unfolding noted_for_def by (intro exI [of _ u] exI [of _ d] exI [of _ qc]) simp
    qed
    from steps.IH show ?thesis
      unfolding audit_ok_def begins(1) by (auto split: if_splits intro: mono [unfolded begins(1)])
  next
    case (moves t c pc env pc' r)
    note p = move_part [OF moves(3)]
    have here: "pc_ok (w_rec w) c pc" by (rule calls_okD [OF calls moves(2)])
    have mono: "noted_for w k a \<Longrightarrow> noted_for w' k a" for k a
      unfolding moves(1) by (rule noted_moves [OF moves(2) p])
    have self: "noted_for w' (call_key c) a" if "about_to_log c pc' a" for a
      using that unfolding noted_for_def moves(1) by (intro exI [of _ t] exI [of _ c] exI [of _ pc']) simp
    have cells: "noted_for w (sj_key (rc_cells (w_rec w) e)) (sj_answer (rc_cells (w_rec w) e))"
      if "e < rc_next (w_rec w)" "sj_answered (rc_cells (w_rec w) e)" for e
      using steps.IH that unfolding audit_ok_def by blast
    have results: "noted_for w (call_key d) (res_Answer res)"
      if "w_calls w u = Some (d, qc)" "pc_result qc = Some res" "res_Source res \<noteq> SourceUnanswered" for u d qc res
      using steps.IH that unfolding audit_ok_def by blast
    show ?thesis
      unfolding audit_ok_def
    proof (intro conjI allI impI)
      fix e assume e: "e < rc_next (w_rec w')" "sj_answered (rc_cells (w_rec w') e)"
      with part_audit [OF p here, of undefined e] show "noted_for w' (sj_key (rc_cells (w_rec w') e)) (sj_answer (rc_cells (w_rec w') e))"
        unfolding moves(1) using self cells mono moves(1) by fastforce
    next
      fix u d qc res
      assume u: "w_calls w' u = Some (d, qc) \<and> pc_result qc = Some res \<and> res_Source res \<noteq> SourceUnanswered"
      show "noted_for w' (call_key d) (res_Answer res)"
      proof (cases "u = t")
        case True
        with u moves(1) have "d = c" "qc = pc'" by simp_all
        with u part_audit [OF p here, of res] show ?thesis
          using self mono results [OF moves(2), of res] cells by metis
      next
        case False
        with u moves(1) have "w_calls w u = Some (d, qc)" by simp
        with u results mono show ?thesis by blast
      qed
    qed
  next
    case shuts
    have "noted_for w k a \<Longrightarrow> noted_for w' k a" for k a
      using on_record_Close unfolding noted_for_def logged_def shuts by auto blast
    with steps.IH show ?thesis unfolding audit_ok_def shuts by auto
  qed
qed


section \<open>What the memory holds\<close>

definition subjects :: "recorder \<Rightarrow> string \<Rightarrow> bool \<Rightarrow> string set" where
  "subjects r session d = {k \<in> dom (rc_memo r). key_session k = session \<and> decided_kind (key_kind k) = d}"

definition counts_ok :: "recorder \<Rightarrow> bool" where
  "counts_ok r \<longleftrightarrow>
     finite (dom (rc_memo r)) \<and>
     (\<forall>s. rc_decided r s = int (card (subjects r s True)) \<and> rc_decided r s \<le> maxMemo \<and>
        rc_noise r s = int (card (subjects r s False)) \<and> rc_noise r s \<le> maxNoise)"

lemma subjects_finite [simp]: "finite (dom (rc_memo r)) \<Longrightarrow> finite (subjects r s d)"
  by (simp add: subjects_def)

lemma subjects_insert:
  "rc_memo r' = (rc_memo r)(k := Some e) \<Longrightarrow> rc_memo r k = None \<Longrightarrow> finite (dom (rc_memo r)) \<Longrightarrow>
   int (card (subjects r' s d)) =
     int (card (subjects r s d)) + (if key_session k = s \<and> decided_kind (key_kind k) = d then 1 else 0)"
proof -
  assume m: "rc_memo r' = (rc_memo r)(k := Some e)" "rc_memo r k = None" "finite (dom (rc_memo r))"
  then have "subjects r' s d =
      (if key_session k = s \<and> decided_kind (key_kind k) = d then insert k (subjects r s d) else subjects r s d)"
    by (auto simp: subjects_def)
  moreover have "k \<notin> subjects r s d" using m(2) by (simp add: subjects_def domIff)
  ultimately show ?thesis using m(3) by simp
qed

lemma subjects_delete:
  "rc_memo r' = (rc_memo r)(k := None) \<Longrightarrow> rc_memo r k = Some e \<Longrightarrow> finite (dom (rc_memo r)) \<Longrightarrow>
   int (card (subjects r' s d)) =
     int (card (subjects r s d)) - (if key_session k = s \<and> decided_kind (key_kind k) = d then 1 else 0)"
proof -
  assume m: "rc_memo r' = (rc_memo r)(k := None)" "rc_memo r k = Some e" "finite (dom (rc_memo r))"
  have "rc_memo r = (rc_memo r')(k := Some e)" "rc_memo r' k = None" "finite (dom (rc_memo r'))"
    using m by auto
  from subjects_insert [OF this, of s d] show ?thesis by simp
qed

lemma counts_okD:
  "counts_ok r \<Longrightarrow> rc_decided r s = int (card (subjects r s True)) \<and> rc_decided r s \<le> maxMemo \<and>
    rc_noise r s = int (card (subjects r s False)) \<and> rc_noise r s \<le> maxNoise"
  unfolding counts_ok_def by blast

lemma counts_same:
  "rc_memo r' = rc_memo r \<Longrightarrow> rc_decided r' = rc_decided r \<Longrightarrow> rc_noise r' = rc_noise r \<Longrightarrow> counts_ok r' = counts_ok r"
  by (simp only: counts_ok_def subjects_def)

lemma counts_ok_same [simp]:
  "counts_ok (fresh_cell k b a r) = counts_ok r" "counts_ok (set_answer e a r) = counts_ok r"
  "counts_ok (close_cell e r) = counts_ok r" "counts_ok (write_line env l sink r) = counts_ok r" "counts_ok (recorder_Close r) = counts_ok r"
  "counts_ok (r\<lparr>rc_cells := cells\<rparr>) = counts_ok r"
  by (rule counts_same; simp add: change_defs)+

text \<open>One subject comes or goes, and the count of its session and sort with it.\<close>

lemma counts_change:
  assumes "counts_ok r" "finite (dom (rc_memo r'))"
    and "\<And>s d. int (card (subjects r' s d)) = int (card (subjects r s d)) + (if s = session \<and> d = b then n else 0)"
    and "\<And>s. rc_decided r' s = rc_decided r s + (if s = session \<and> b then n else 0)"
    and "\<And>s. rc_noise r' s = rc_noise r s + (if s = session \<and> \<not> b then n else 0)"
    and "b \<Longrightarrow> rc_decided r session + n \<le> maxMemo" "\<not> b \<Longrightarrow> rc_noise r session + n \<le> maxNoise"
  shows "counts_ok r'"
  unfolding counts_ok_def
proof (intro conjI allI)
  fix s
  note old = counts_okD [OF assms(1), of s]
  show "rc_decided r' s = int (card (subjects r' s True))" using old assms(3) [of s True] assms(4) [of s] by auto
  show "rc_noise r' s = int (card (subjects r' s False))" using old assms(3) [of s False] assms(5) [of s] by auto
  show "rc_decided r' s \<le> maxMemo" using old assms(4) [of s] assms(6) by auto
  show "rc_noise r' s \<le> maxNoise" using old assms(5) [of s] assms(7) by auto
qed (rule assms(2))

lemma part_counts: "part c pc pc' r r' \<Longrightarrow> proper c \<Longrightarrow> counts_ok r \<Longrightarrow> counts_ok r'"
proof (induction rule: part.induct)
  case (remembered r l key each)
  let ?k = "call_key (Deciding l key each)"
  let ?r = "count (ln_Session l) 1 (remember ?k (Some (rc_next r)) (fresh_cell ?k False [] r))"
  have m: "rc_memo ?r = (rc_memo r)(?k := Some (rc_next r))" by (simp add: change_defs)
  have f: "finite (dom (rc_memo r))" using remembered.prems(2) by (simp add: counts_ok_def)
  have k: "key_session ?k = ln_Session l" "decided_kind (key_kind ?k)" using remembered.prems(1) by (simp_all add: decided_kind_nul)
  show ?case
  proof (rule counts_change [OF remembered.prems(2), where session = "ln_Session l" and b = True and n = 1])
    show "int (card (subjects ?r s d)) = int (card (subjects r s d)) + (if s = ln_Session l \<and> d = True then 1 else 0)" for s d
      using subjects_insert [OF m remembered.hyps(1) f, of s d] k by (simp add: eq_commute [of s])
  qed (use f remembered.hyps(2) in \<open>simp_all add: change_defs\<close>)
next
  case (unanswered res r asked l key each e held)
  let ?k = "call_key (Deciding l key each)"
  let ?r = "count (ln_Session l) (- 1) (remember ?k None r)"
  have m: "rc_memo ?r = (rc_memo r)(?k := None)" by (simp add: change_defs)
  have f: "finite (dom (rc_memo r))" using unanswered.prems(2) by (simp add: counts_ok_def)
  have k: "key_session ?k = ln_Session l" "decided_kind (key_kind ?k)" using unanswered.prems(1) by (simp_all add: decided_kind_nul)
  show ?case
  proof (rule counts_change [OF unanswered.prems(2), where session = "ln_Session l" and b = True and n = "- 1"])
    show "int (card (subjects ?r s d)) = int (card (subjects r s d)) + (if s = ln_Session l \<and> d = True then - 1 else 0)" for s d
      using subjects_delete [OF m unanswered.hyps(3) f, of s d] k by (simp add: eq_commute [of s])
    show "rc_decided r (ln_Session l) + - 1 \<le> maxMemo" using counts_okD [OF unanswered.prems(2), of "ln_Session l"] by simp
  qed (use f in \<open>simp_all add: change_defs\<close>)
next
  case (noted r k l)
  let ?r = "count_noise (ln_Session l) (remember k (Some (rc_next r)) (fresh_cell k True (ln_Answer l) r))"
  have m: "rc_memo ?r = (rc_memo r)(k := Some (rc_next r))" by (simp add: change_defs)
  have f: "finite (dom (rc_memo r))" using noted.prems(2) by (simp add: counts_ok_def)
  have k: "key_session k = ln_Session l" "\<not> decided_kind (key_kind k)" using noted.prems(1) by simp_all
  show ?case
  proof (rule counts_change [OF noted.prems(2), where session = "ln_Session l" and b = False and n = 1])
    show "int (card (subjects ?r s d)) = int (card (subjects r s d)) + (if s = ln_Session l \<and> d = False then 1 else 0)" for s d
      using subjects_insert [OF m noted.hyps(1) f, of s d] k by (simp add: eq_commute [of s])
  qed (use f noted.hyps(2) in \<open>simp_all add: change_defs\<close>)
qed simp_all

lemma reachable_counts: "reachable cfg w \<Longrightarrow> all_proper w \<Longrightarrow> counts_ok (w_rec w)"
proof (induction rule: reachable.induct)
  case (starts r)
  then show ?case by (auto simp: counts_ok_def subjects_def maxMemo_def maxNoise_def dest!: new_recorder_fields)
next
  case (steps w w')
  have "all_proper w" by (rule step_proper [OF steps.hyps(2) steps.prems])
  note counts = steps.IH [OF this] and proper = this
  from steps.hyps(2) show ?case
  proof (cases rule: step.cases)
    case (begins t c)
    with counts show ?thesis by simp
  next
    case (moves t c pc env pc' r)
    have "proper c" using proper moves(2) unfolding all_proper_def by blast
    from part_counts [OF move_part [OF moves(3)] this counts] show ?thesis by (simp add: moves(1))
  next
    case shuts
    with counts show ?thesis by simp
  qed
qed

section \<open>An answer that stands\<close>

text \<open>An answer of allow or refuse in the memory, that nobody is being asked about again, and the
  calls for its subject since.\<close>

definition stands :: "string \<Rightarrow> nat \<Rightarrow> answer \<Rightarrow> recorder \<Rightarrow> bool" where
  "stands k e a r \<longleftrightarrow> rc_memo r k = Some e \<and> sj_answered (rc_cells r e) \<and> sj_answer (rc_cells r e) = a"

fun each_of :: "call \<Rightarrow> bool" where
  "each_of (Deciding l key each) = each"
| "each_of (Noting k l) = False"

fun settled :: "nat \<Rightarrow> answer \<Rightarrow> pc \<Rightarrow> bool" where
  "settled e a Start = True"
| "settled e a (Waiting e') = (e' = e)"
| "settled e a (Finished (Some res)) =
     ((res_Answer res = a \<and> res_Source res = SourceMemo) \<or>
      (res_Source res = SourceUnanswered \<and> res_Reason res = ReasonStoppedWaiting))"
| "settled e a pc = False"

lemma part_stands:
  assumes "part c pc pc' r r'" "pc_ok r c pc" "stands k e a r" "e < rc_next r" "sj_key (rc_cells r e) = k" "pc \<noteq> Again e"
  shows "stands k e a r'"
  using assms by (induction rule: part.induct) (auto simp: stands_def change_defs)

lemma part_settled:
  assumes "part c pc pc' r r'" "deciding c" "call_key c = k" "\<not> each_of c" "a \<noteq> answer_Ask" "stands k e a r" "settled e a pc"
  shows "settled e a pc'"
  using assms by (induction rule: part.induct) (auto simp: stands_def)

lemma part_again:
  assumes "part c pc pc' r r'" "pc_ok r c pc" "stands k e a r" "sj_key (rc_cells r e) = k" "pc \<noteq> Again e"
    "a \<noteq> answer_Ask" "call_key c = k \<Longrightarrow> \<not> each_of c"
  shows "pc' \<noteq> Again e"
  using assms by (induction rule: part.induct) (auto simp: stands_def)


section \<open>Runs to look at\<close>

datatype tick = Begin nat call | Go nat outside

fun schedule :: "tick list \<Rightarrow> world \<Rightarrow> world" where
  "schedule [] w = w"
| "schedule (Begin t c # ts) w =
     schedule ts (if w_calls w t = None then w\<lparr>w_calls := (w_calls w)(t := Some (c, Start))\<rparr> else w)"
| "schedule (Go t env # ts) w =
     schedule ts (case w_calls w t of
         None \<Rightarrow> w
       | Some (c, pc) \<Rightarrow>
           (case move env c pc (w_rec w) of
              None \<Rightarrow> w
            | Some (pc', r) \<Rightarrow> w\<lparr>w_rec := r, w_calls := (w_calls w)(t := Some (c, pc'))\<rparr>))"

definition start_world :: "config \<Rightarrow> world" where
  "start_world cfg = \<lparr>w_rec = the (new_recorder cfg), w_calls = (\<lambda>_. None)\<rparr>"

fun begun :: "tick list \<Rightarrow> (nat \<times> call) list" where
  "begun [] = []"
| "begun (Begin t c # ts) = (t, c) # begun ts"
| "begun (Go t env # ts) = begun ts"

lemma schedule_steps: "step\<^sup>*\<^sup>* w (schedule ts w)"
proof (induction ts w rule: schedule.induct)
  case (2 t c ts w)
  let ?w = "if w_calls w t = None then w\<lparr>w_calls := (w_calls w)(t := Some (c, Start))\<rparr> else w"
  have "step\<^sup>*\<^sup>* w ?w" by (cases "w_calls w t = None") (auto intro: step.begins)
  with 2 show ?case by simp
next
  case (3 t env ts w)
  let ?w = "case w_calls w t of None \<Rightarrow> w | Some (c, pc) \<Rightarrow> (case move env c pc (w_rec w) of None \<Rightarrow> w
    | Some (pc', r) \<Rightarrow> w\<lparr>w_rec := r, w_calls := (w_calls w)(t := Some (c, pc'))\<rparr>)"
  have "step\<^sup>*\<^sup>* w ?w"
    by (auto split: option.splits prod.splits intro: step.moves)
  with 3 show ?case by simp
qed simp

lemma reachable_steps: "step\<^sup>*\<^sup>* w w' \<Longrightarrow> reachable cfg w \<Longrightarrow> reachable cfg w'"
  by (induction rule: rtranclp_induct) (auto intro: reachable.steps)

lemma schedule_reachable: "new_recorder cfg \<noteq> None \<Longrightarrow> reachable cfg (schedule ts (start_world cfg))"
  by (rule reachable_steps [OF schedule_steps]) (auto simp: start_world_def intro: reachable.starts)

lemma schedule_calls:
  "w_calls (schedule ts w) t = Some (c, pc) \<Longrightarrow> (t, c) \<in> set (begun ts) \<or> (\<exists>qc. w_calls w t = Some (c, qc))"
proof (induction ts w rule: schedule.induct)
  case (2 t' c' ts w)
  then show ?case by (auto split: if_splits)
next
  case (3 t' env ts w)
  then show ?case by (auto split: if_splits option.splits prod.splits)
qed auto

lemma schedule_begun: "w_calls (schedule ts (start_world cfg)) t = Some (c, pc) \<Longrightarrow> (t, c) \<in> set (begun ts)"
  using schedule_calls [of ts "start_world cfg" t c pc] by (simp add: start_world_def)

lemma schedule_proper: "list_all (\<lambda>p. proper (snd p)) (begun ts) \<Longrightarrow> all_proper (schedule ts (start_world cfg))"
  unfolding all_proper_def list_all_iff using schedule_begun by fastforce

definition person :: "answer \<Rightarrow> outside" where
  "person a = \<lparr>o_now = 0, o_asked = (a, [], None), o_gone = False, o_json = Some 200, o_cut = 60, o_broke = None\<rparr>"

definition push_call :: call where
  "push_call = Deciding (empty_line\<lparr>ln_Session := ''s'', ln_Kind := KindEgress, ln_Name := ''a.example''\<rparr>) ''a.example:443'' False"

text \<open>Two goroutines with one subject: the first puts it to a person, the second waits.\<close>

definition both_ask :: "tick list" where
  "both_ask = [Begin 1 push_call, Begin 2 push_call, Go 1 (person []), Go 2 (person [])]"

text \<open>The person allows it; both go on.\<close>

definition both_answered :: "tick list" where
  "both_answered = both_ask @
     [Go 1 (person answer_Allow), Go 1 (person []), Go 2 (person []), Go 1 (person [])]"

definition asking_config :: config where
  "asking_config = \<lparr>cf_Policy = ''p'', cf_Default = [], cf_Sink = Some (OpenSink [])\<rparr>"

lemma asking_reachable: "reachable asking_config (schedule ts (start_world asking_config))"
  by (rule schedule_reachable) (simp add: asking_config_def new_recorder_def)

section \<open>The properties\<close>



text \<open>
  C35: nobody waits for nothing. Whatever has been asked, answered and given up, a call that waits
  for an entry waits for one that is closed, and goes on, or for one that another call under way is
  to answer; and that call, once a person or the default has answered it, closes the entry in its
  next part. Every other call that is not over can go on.
\<close>

theorem waiters_woken:
  assumes "reachable cfg w" "w_calls w t = Some (c, pc)" "\<And>res. pc \<noteq> Finished res"
  shows "(\<exists>pc' r. move env c pc (w_rec w) = Some (pc', r)) \<or>
    (\<exists>e u d qc. pc = Waiting e \<and> u \<noteq> t \<and> w_calls w u = Some (d, qc) \<and>
       ((\<exists>held res r. qc = Owner e held \<and> move env d qc (w_rec w) = Some (Closing e res, r)) \<or>
        (\<exists>res pc' r. qc = Closing e res \<and> move env d qc (w_rec w) = Some (pc', r) \<and> sj_done (rc_cells r e))))"
proof -
  have ok: "calls_ok w" "open_owned w" using reachable_ok [OF assms(1)] by (simp_all add: world_ok_def)
  note here = calls_okD [OF ok(1) assms(2)]
  show ?thesis
  proof (cases "\<exists>e. pc = Waiting e \<and> \<not> sj_done (rc_cells (w_rec w) e)")
    case True
    then obtain e where e: "pc = Waiting e" "\<not> sj_done (rc_cells (w_rec w) e)" by blast
    with here have "e < rc_next (w_rec w)" by simp
    with ok(2) e(2) obtain u d qc where u: "w_calls w u = Some (d, qc)" "owns qc e"
      unfolding open_owned_def by blast
    with assms(2) e(1) have "u \<noteq> t" by auto
    from calls_okD [OF ok(1) u(1)] u(2) obtain l key each where d: "d = Deciding l key each"
      by (cases qc; cases d) auto
    from u(2) have "(\<exists>held. qc = Owner e held) \<or> (\<exists>res. qc = Closing e res)" by (cases qc) auto
    with e(1) u(1) \<open>u \<noteq> t\<close> show ?thesis by (auto simp: d Let_def)
  next
    case False
    with here assms(3) show ?thesis
      by (cases c; cases pc) (auto simp: Let_def change_answer_def split: prod.splits option.splits)
  qed
qed

theorem waiters_woken_witness:
  "\<exists>u d qc. u \<noteq> 2 \<and> w_calls (schedule both_ask (start_world asking_config)) u = Some (d, qc) \<and> owns qc 0"
proof -
  let ?w = "schedule both_ask (start_world asking_config)"
  have b: "w_calls ?w 2 = Some (push_call, Waiting 0)" by code_simp
  have m: "move (person []) push_call (Waiting 0) (w_rec ?w) = None" by code_simp
  from waiters_woken [OF asking_reachable b, of "person []"] m show ?thesis by auto
qed

text \<open>
  What a recorder remembers is bounded, and its counters are exact. Each session's subjects and
  its noise are counted as the memory holds them, never below nothing, so it never holds more than
  65536 subjects of a session, nor more than 4096 lines of noise.
\<close>

theorem memory_bounded:
  assumes "reachable cfg w" "all_proper w"
  shows "0 \<le> rc_decided (w_rec w) s \<and> 0 \<le> rc_noise (w_rec w) s \<and>
    int (card {k \<in> dom (rc_memo (w_rec w)). key_session k = s \<and> decided_kind (key_kind k)}) = rc_decided (w_rec w) s \<and>
    int (card {k \<in> dom (rc_memo (w_rec w)). key_session k = s}) = rc_decided (w_rec w) s + rc_noise (w_rec w) s \<and>
    int (card {k \<in> dom (rc_memo (w_rec w)). key_session k = s}) \<le> 65536 + 4096"
proof -
  let ?r = "w_rec w"
  have ok: "counts_ok ?r" by (rule reachable_counts [OF assms])
  then have f: "finite (dom (rc_memo ?r))" by (simp add: counts_ok_def)
  have "{k \<in> dom (rc_memo ?r). key_session k = s} = subjects ?r s True \<union> subjects ?r s False"
    "subjects ?r s True \<inter> subjects ?r s False = {}" by (auto simp: subjects_def)
  then have "card {k \<in> dom (rc_memo ?r). key_session k = s} = card (subjects ?r s True) + card (subjects ?r s False)"
    using card_Un_disjoint [of "subjects ?r s True" "subjects ?r s False"] f by simp
  moreover have "{k \<in> dom (rc_memo ?r). key_session k = s \<and> decided_kind (key_kind k)} = subjects ?r s True"
    by (simp add: subjects_def)
  ultimately show ?thesis
    using counts_okD [OF ok, of s] by (simp add: maxMemo_def maxNoise_def)
qed

theorem memory_bounded_witness:
  "rc_decided (w_rec (schedule both_answered (start_world asking_config))) ''s'' = 1 \<and>
   int (card {k \<in> dom (rc_memo (w_rec (schedule both_answered (start_world asking_config)))).
     key_session k = ''s'' \<and> decided_kind (key_kind k)}) = 1"
proof -
  let ?w = "schedule both_answered (start_world asking_config)"
  have d: "rc_decided (w_rec ?w) ''s'' = 1" by code_simp
  have "all_proper ?w" by (rule schedule_proper) code_simp
  from memory_bounded [OF asking_reachable this, of "''s''"] d show ?thesis by simp
qed

text \<open>
  C33: nothing is admitted off the record. Where a call for a subject came back admitted, by a person, the default
  or the memory, a call for the same subject of the same session has that answer's line in the journal, or is about
  to put it there, and has once it is over; and where the recorder was given a sink, the line is in it whole, unless
  the sink was full and took no more, was closed, or the line's write failed, which is in the daemon's log. No line
  of an admitted subject is dropped as noise.
\<close>

theorem admitted_logged:
  assumes "reachable cfg w" "all_proper w"
    and "w_calls w t = Some (Deciding l key each, Finished (Some res))" "Admits (res_Answer res)"
  shows "\<exists>u l' each' pc. w_calls w u = Some (Deciding l' key each', pc) \<and>
    ln_Session l' = ln_Session l \<and> ln_Kind l' = ln_Kind l \<and>
    (about_to_log (Deciding l' key each') pc (res_Answer res) \<or>
     (\<exists>x source reason now.
        x = stamp cfg now (l'\<lparr>ln_Answer := res_Answer res, ln_Source := source, ln_Reason := reason\<rparr>) \<and>
        x \<in> set (rc_journal (w_rec w)) \<and>
        (case rc_sink (w_rec w) of
           None \<Rightarrow> True
         | Some s \<Rightarrow> Whole_line x \<in> set (sk_file s) \<or> sk_truncated s \<or> \<not> sk_open s \<or> x \<in> set (rc_failures (w_rec w)))))"
proof -
  have rs: "results_ok w" by (rule reachable_results [OF assms(1,2)])
  then have "result_ok (rc_cfg (w_rec w)) res"
    using assms(3) unfolding results_ok_def by (metis pc_result.simps(3))
  with assms(4) have "res_Source res \<noteq> SourceUnanswered" by (auto simp: result_ok_def Admits_def)
  with reachable_audit [OF assms(1)] assms(3) have
    "noted_for w (call_key (Deciding l key each)) (res_Answer res)"
    unfolding audit_ok_def by (metis pc_result.simps(3))
  then obtain u d pc where u: "w_calls w u = Some (d, pc)" "call_key d = call_key (Deciding l key each)"
    "logged (w_rec w) d (res_Answer res) \<or> about_to_log d pc (res_Answer res)"
    unfolding noted_for_def by blast
  have p: "proper d" "proper (Deciding l key each)" using assms(2,3) u(1) unfolding all_proper_def by blast+
  with u(2) proper_key have "deciding d" by (metis deciding.simps(1))
  then obtain l' key' each' where d: "d = Deciding l' key' each'" by (cases d) auto
  with u(2) p have k: "ln_Session l' = ln_Session l" "ln_Kind l' = ln_Kind l" "key' = key"
    by (simp_all add: memoKey_inject decided_kind_nul)
  have cfg: "rc_cfg (w_rec w) = cfg" using reachable_cfg [OF assms(1)] by blast
  have "\<exists>x source reason now. x = stamp cfg now (l'\<lparr>ln_Answer := res_Answer res, ln_Source := source, ln_Reason := reason\<rparr>) \<and>
      x \<in> set (rc_journal (w_rec w)) \<and>
      (case rc_sink (w_rec w) of None \<Rightarrow> True
       | Some s \<Rightarrow> Whole_line x \<in> set (sk_file s) \<or> sk_truncated s \<or> \<not> sk_open s \<or> x \<in> set (rc_failures (w_rec w)))"
    if "logged (w_rec w) d (res_Answer res)"
  proof -
    from that obtain y now where y: "answered_line d (res_Answer res) y" "on_record (w_rec w) (stamp cfg now y)"
      unfolding logged_def cfg by blast
    from y(1) obtain source reason where "y = l'\<lparr>ln_Answer := res_Answer res, ln_Source := source, ln_Reason := reason\<rparr>"
      "\<not> noise y" unfolding answered_line_def d by auto
    moreover have "noise (stamp cfg now y) = noise y" by (simp add: noise_def stamp_def)
    ultimately show ?thesis using y(2) unfolding on_record_def by (auto split: option.splits)
  qed
  with u(1,3) d k show ?thesis by blast
qed

theorem admitted_logged_witness:
  "\<exists>x. ln_Session x = ''s'' \<and> ln_Answer x = answer_Allow \<and>
     x \<in> set (rc_journal (w_rec (schedule both_answered (start_world asking_config)))) \<and>
     (case rc_sink (w_rec (schedule both_answered (start_world asking_config))) of
        None \<Rightarrow> False | Some s \<Rightarrow> Whole_line x \<in> set (sk_file s))"
proof -
  let ?w = "schedule both_answered (start_world asking_config)"
  let ?l = "empty_line\<lparr>ln_Session := ''s'', ln_Kind := KindEgress, ln_Name := ''a.example''\<rparr>"
  have p: "all_proper ?w" by (rule schedule_proper) code_simp
  have c: "w_calls ?w 2 = Some (Deciding ?l ''a.example:443'' False, Finished (Some
      \<lparr>res_Answer = answer_Allow, res_Source = SourceMemo, res_Reason = [], res_Err = None\<rparr>))" by code_simp
  have a: "Admits (res_Answer \<lparr>res_Answer = answer_Allow, res_Source = SourceMemo, res_Reason = [], res_Err = None\<rparr>)"
    by (simp add: Admits_def)
  have allowed: "res_Answer \<lparr>res_Answer = answer_Allow, res_Source = SourceMemo, res_Reason = [], res_Err = None\<rparr> = answer_Allow"
    and session: "ln_Session ?l = ''s''" by simp_all
  have over: "case w_calls ?w 1 of Some (c, Finished r) \<Rightarrow> True | _ \<Rightarrow> False" by code_simp
  have only: "u = 1 \<or> u = 2" if "w_calls ?w u = Some (d, pc)" for u d pc
    using schedule_begun [OF that] by (auto simp: both_answered_def both_ask_def)
  have sink: "case rc_sink (w_rec ?w) of None \<Rightarrow> False
      | Some s \<Rightarrow> \<not> sk_truncated s \<and> sk_open s \<and> rc_failures (w_rec ?w) = []" by code_simp
  obtain u l' each' pc where u: "w_calls ?w u = Some (Deciding l' ''a.example:443'' each', pc)" "ln_Session l' = ''s''"
    and rest: "about_to_log (Deciding l' ''a.example:443'' each') pc answer_Allow \<or>
     (\<exists>x source reason now.
        x = stamp asking_config now (l'\<lparr>ln_Answer := answer_Allow, ln_Source := source, ln_Reason := reason\<rparr>) \<and>
        x \<in> set (rc_journal (w_rec ?w)) \<and>
        (case rc_sink (w_rec ?w) of
           None \<Rightarrow> True
         | Some s \<Rightarrow> Whole_line x \<in> set (sk_file s) \<or> sk_truncated s \<or> \<not> sk_open s \<or> x \<in> set (rc_failures (w_rec ?w))))"
    using admitted_logged [OF asking_reachable p c a, unfolded allowed session] by blast
  have "\<exists>r. pc = Finished r"
    using only [OF u(1)] u(1) c over by (auto split: option.splits prod.splits pc.splits)
  then have "\<not> about_to_log (Deciding l' ''a.example:443'' each') pc answer_Allow" by auto
  with rest obtain x source reason now where
    x: "x = stamp asking_config now (l'\<lparr>ln_Answer := answer_Allow, ln_Source := source, ln_Reason := reason\<rparr>)"
    "x \<in> set (rc_journal (w_rec ?w))"
    "case rc_sink (w_rec ?w) of None \<Rightarrow> True
     | Some s \<Rightarrow> Whole_line x \<in> set (sk_file s) \<or> sk_truncated s \<or> \<not> sk_open s \<or> x \<in> set (rc_failures (w_rec ?w))" by blast
  have "ln_Session x = ''s''" "ln_Answer x = answer_Allow" unfolding x(1) using u(2) by (simp_all add: stamp_def)
  with x(2,3) sink show ?thesis by (intro exI [of _ x]) (auto split: option.splits)
qed

text \<open>
  A recording decides as it was told to. Every result of a call for a subject is allow, ask or
  refuse, never always; with a default, it is the default, or a refusal because the client has
  gone; and what is unanswered is refused.
\<close>

theorem results_sound:
  assumes "reachable cfg w" "all_proper w" "w_calls w t = Some (c, Finished (Some res))"
  shows "validAnswer (res_Answer res) \<and>
    (res_Source res = SourceUnanswered \<longrightarrow> \<not> Admits (res_Answer res)) \<and>
    (cf_Default cfg \<noteq> [] \<longrightarrow> res_Answer res = cf_Default cfg \<or>
      res_Source res = SourceUnanswered \<and> res_Reason res = ReasonStoppedWaiting)"
proof -
  have "result_ok cfg res"
    using reachable_results [OF assms(1,2)] reachable_cfg [OF assms(1)] assms(3)
    unfolding results_ok_def by (metis pc_result.simps(3))
  then show ?thesis by (auto simp: result_ok_def answer_ok_def validAnswer_def Admits_def split: if_splits)
qed

theorem results_sound_witness:
  "w_calls (schedule both_answered (start_world asking_config)) 1 = Some (push_call, Finished (Some
     \<lparr>res_Answer = answer_Allow, res_Source = SourceHuman, res_Reason = [], res_Err = None\<rparr>)) \<and>
   validAnswer answer_Allow"
proof -
  let ?w = "schedule both_answered (start_world asking_config)"
  have p: "all_proper ?w" by (rule schedule_proper) code_simp
  have c: "w_calls ?w 1 = Some (push_call, Finished (Some
      \<lparr>res_Answer = answer_Allow, res_Source = SourceHuman, res_Reason = [], res_Err = None\<rparr>))" by code_simp
  from results_sound [OF asking_reachable p c] c show ?thesis by simp
qed

text \<open>What an answer that stands keeps, from one state to any later one.\<close>

definition standing :: "world \<Rightarrow> string \<Rightarrow> nat \<Rightarrow> answer \<Rightarrow> (nat \<Rightarrow> bool) \<Rightarrow> world \<Rightarrow> bool" where
  "standing w0 k e a new w \<longleftrightarrow>
     stands k e a (w_rec w) \<and> (\<forall>t c. w_calls w t \<noteq> Some (c, Again e)) \<and>
     (\<forall>t c pc. w_calls w t = Some (c, pc) \<and> new t \<and> deciding c \<and> call_key c = k \<longrightarrow> settled e a pc)"

definition none_each :: "world \<Rightarrow> string \<Rightarrow> bool" where
  "none_each w k \<longleftrightarrow> (\<forall>t c pc. w_calls w t = Some (c, pc) \<and> call_key c = k \<longrightarrow> \<not> each_of c)"

lemma step_none_each: "step w w' \<Longrightarrow> none_each w' k \<Longrightarrow> none_each w k"
proof (erule step.cases)
  fix v t c
  assume "w = v" "w' = v\<lparr>w_calls := (w_calls v)(t := Some (c, Start))\<rparr>" "w_calls v t = None" "none_each w' k"
  then show "none_each w k" unfolding none_each_def by (auto split: if_splits) (metis option.distinct(1))
next
  fix v t c pc env pc' r
  assume "w = v" "w' = v\<lparr>w_rec := r, w_calls := (w_calls v)(t := Some (c, pc'))\<rparr>" "w_calls v t = Some (c, pc)"
    "none_each w' k"
  then show "none_each w k" unfolding none_each_def by (auto split: if_splits) (metis option.inject prod.inject)
qed (simp add: none_each_def)

lemma standing_step:
  assumes "step w w'" "world_ok w" "none_each w k" "a \<noteq> answer_Ask" "standing w0 k e a new w"
  shows "standing w0 k e a new w'"
  using assms(1)
proof (cases rule: step.cases)
  case (begins t c)
  with assms(5) show ?thesis by (auto simp: standing_def)
next
  case (moves t c pc env pc' r)
  note p = move_part [OF moves(3)]
  have st: "stands k e a (w_rec w)" and na: "pc \<noteq> Again e" using assms(5) moves(2) unfolding standing_def by auto
  then have mem: "rc_memo (w_rec w) k = Some e" by (simp add: stands_def)
  have "memo_ok (w_rec w)" "calls_ok w" using assms(2) by (simp_all add: world_ok_def)
  then have e: "e < rc_next (w_rec w)" "sj_key (rc_cells (w_rec w) e) = k" and here: "pc_ok (w_rec w) c pc"
    using mem moves(2) calls_okD unfolding memo_ok_def by blast+
  have each: "call_key c = k \<Longrightarrow> \<not> each_of c" using assms(3) moves(2) unfolding none_each_def by blast
  have "stands k e a r" by (rule part_stands [OF p here st e na])
  moreover have "pc' \<noteq> Again e" by (rule part_again [OF p here st e(2) na assms(4) each])
  moreover have "settled e a pc'" if "new t" "deciding c" "call_key c = k"
    using part_settled [OF p that(2,3) each [OF that(3)] assms(4) st] assms(5) moves(2) that unfolding standing_def by blast
  ultimately show ?thesis
    using assms(5) moves(1) by (auto simp: standing_def)
next
  case shuts
  with assms(5) show ?thesis by (simp add: standing_def stands_def)
qed

lemma standing_steps:
  assumes "step\<^sup>*\<^sup>* w w'" "reachable cfg w" "none_each w' k" "a \<noteq> answer_Ask" "standing w0 k e a new w"
  shows "standing w0 k e a new w'"
  using assms
proof (induction rule: rtranclp_induct)
  case (step v v')
  have "none_each v k" by (rule step_none_each [OF step.hyps(2) step.prems(2)])
  with step.IH step.prems have "standing w0 k e a new v" by blast
  moreover have "world_ok v" by (rule reachable_ok [OF reachable_steps [OF step.hyps(1) step.prems(1)]])
  ultimately show ?case using standing_step [OF step.hyps(2) _ \<open>none_each v k\<close> step.prems(3)] by blast
qed simp

text \<open>
  A person's allow or refuse is the answer for the rest of the session. Once it is in the
  memory, and nobody is being asked about the subject again, it never changes, and every later call
  for the subject comes back with it, asking nobody, unless its client goes first; so long as no
  call for the subject asks to be put to a person each time.
\<close>

theorem answer_stands:
  assumes "reachable cfg w" "step\<^sup>*\<^sup>* w w'" "none_each w' k"
    and "rc_memo (w_rec w) k = Some e" "sj_answered (rc_cells (w_rec w) e)"
    and "sj_answer (rc_cells (w_rec w) e) = a" "a \<noteq> answer_Ask" "\<And>t c. w_calls w t \<noteq> Some (c, Again e)"
  shows "rc_memo (w_rec w') k = Some e \<and> sj_answer (rc_cells (w_rec w') e) = a \<and>
    (w_calls w t = None \<and> w_calls w' t = Some (c, pc) \<and> deciding c \<and> call_key c = k \<longrightarrow>
       (\<forall>e' held. pc \<noteq> Owner e' held) \<and> (\<forall>e'. pc \<noteq> Again e') \<and>
       (\<forall>res. pc = Finished (Some res) \<longrightarrow>
          res_Answer res = a \<and> res_Source res = SourceMemo \<or> res_Reason res = ReasonStoppedWaiting))"
proof -
  have "standing w k e a (\<lambda>t. w_calls w t = None) w"
    using assms by (auto simp: standing_def stands_def)
  from standing_steps [OF assms(2,1,3,7) this] have st: "standing w k e a (\<lambda>t. w_calls w t = None) w'" .
  moreover have "settled e a pc \<Longrightarrow> (\<forall>e' held. pc \<noteq> Owner e' held) \<and> (\<forall>e'. pc \<noteq> Again e') \<and>
       (\<forall>res. pc = Finished (Some res) \<longrightarrow>
          res_Answer res = a \<and> res_Source res = SourceMemo \<or> res_Reason res = ReasonStoppedWaiting)"
    by (cases pc) auto
  ultimately show ?thesis unfolding standing_def stands_def by blast
qed

definition third_asks :: "tick list" where
  "third_asks = [Begin 3 push_call, Go 3 (person []), Go 3 (person answer_Refuse)]"

theorem answer_stands_witness:
  "w_calls (schedule third_asks (schedule both_answered (start_world asking_config))) 3 = Some (push_call, Finished (Some
     \<lparr>res_Answer = answer_Allow, res_Source = SourceMemo, res_Reason = [], res_Err = None\<rparr>)) \<and>
   rc_memo (w_rec (schedule third_asks (schedule both_answered (start_world asking_config)))) (call_key push_call) = Some 0"
proof -
  let ?w = "schedule both_answered (start_world asking_config)"
  let ?w' = "schedule third_asks ?w"
  have begun: "t \<in> {1, 2} \<and> c = push_call" if "w_calls ?w t = Some (c, pc)" for t c pc
    using schedule_begun [OF that] by (simp add: both_answered_def both_ask_def) blast
  have begun': "c = push_call" if "w_calls ?w' t = Some (c, pc)" for t c pc
    using schedule_calls [OF that] begun by (auto simp: third_asks_def)
  have each: "none_each ?w' (call_key push_call)"
    unfolding none_each_def using begun' by (metis each_of.simps(1) push_call_def)
  have one: "w_calls ?w 1 = Some (push_call, Finished (Some
      \<lparr>res_Answer = answer_Allow, res_Source = SourceHuman, res_Reason = [], res_Err = None\<rparr>))" by code_simp
  have two: "w_calls ?w 2 = Some (push_call, Finished (Some
      \<lparr>res_Answer = answer_Allow, res_Source = SourceMemo, res_Reason = [], res_Err = None\<rparr>))" by code_simp
  have quiet: "w_calls ?w t \<noteq> Some (c, Again 0)" for t c
  proof
    assume a: "w_calls ?w t = Some (c, Again 0)"
    with begun [OF a] one two show False by auto
  qed
  have m: "rc_memo (w_rec ?w) (call_key push_call) = Some 0" by code_simp
  have ans: "sj_answered (rc_cells (w_rec ?w) 0)" by code_simp
  have val: "sj_answer (rc_cells (w_rec ?w) 0) = answer_Allow" by code_simp
  have "rc_memo (w_rec ?w') (call_key push_call) = Some 0"
    using answer_stands [OF asking_reachable schedule_steps each m ans val _ quiet] by simp
  moreover have "w_calls ?w' 3 = Some (push_call, Finished (Some
     \<lparr>res_Answer = answer_Allow, res_Source = SourceMemo, res_Reason = [], res_Err = None\<rparr>))" by code_simp
  ultimately show ?thesis by blast
qed

end
