(* ===== verification/Egress_Handler.thy ===== *)
theory Egress_Handler
  imports Egress_Structural Egress_Resolved Record_Recorder
begin

text \<open>
  The egress decision and what a connection comes to, \<open>internal/egress/handler.go\<close>: the classifier,
  the session's resolved set, the document's names on the local network, and a recording session's
  recorder, with \<open>Control\<close> at the dial.

  The sets and the classifier change as they are asked, so a policy is returned as it is left. What
  is outside is given: the clock, \<open>now k\<close> at the \<open>k\<close>th lookup of a connection, what the recorder decided (\<open>Record_Recorder\<close>), and
  what the network did with the dial. \<open>show\<close> is \<open>netip.Addr.String\<close> and \<open>show_port\<close> that of an
  address and port.
\<close>

section \<open>The policy\<close>

abbreviation ReasonNotResolved :: string where "ReasonNotResolved \<equiv> ''not resolved by this session''"
abbreviation ReasonLAN :: string where "ReasonLAN \<equiv> ''lan''"
abbreviation RuleRecorded :: string where "RuleRecorded \<equiv> ''recorded''"
abbreviation ReasonRecordRefused :: string where "ReasonRecordRefused \<equiv> ''refused while recording''"

record lan_names =
  la_Resolved :: resolved
  la_Ports :: "string \<Rightarrow> 16 word list option"
  la_Match :: "(string \<Rightarrow> 16 word list option) option"

record egress_policy =
  ep_Classifier :: classifier
  ep_Resolved :: resolved
  ep_LAN :: "lan_names option"

record decision =
  d_Allowed :: bool
  d_Reason :: string
  d_Refusal :: refusal
  d_Entry :: entry
  d_Resolved :: bool
  d_LAN :: bool

definition no_entry :: entry where
  "no_entry = \<lparr>en_Name = [], en_Query = 0, en_Expires = 0\<rparr>"

definition entry_of :: "entry option \<Rightarrow> entry" where
  "entry_of found = (case found of None \<Rightarrow> no_entry | Some e \<Rightarrow> e)"

definition structural :: "(addr \<Rightarrow> string) \<Rightarrow> refusal \<Rightarrow> string" where
  "structural show r = ''structural: '' @ refusal_String show r"

definition Decide :: "(addr \<Rightarrow> string) \<Rightarrow> int \<Rightarrow> addr \<Rightarrow> egress_policy \<Rightarrow> decision \<times> egress_policy" where
  "Decide show now dst p =
     (let (refusal, c) = Classify dst (ep_Classifier p);
          (found, s) = Lookup now dst (ep_Resolved p);
          p = p\<lparr>ep_Classifier := c, ep_Resolved := s\<rparr>;
          d = \<lparr>d_Allowed = False, d_Reason = [], d_Refusal = refusal, d_Entry = entry_of found,
            d_Resolved = (found \<noteq> None), d_LAN = False\<rparr>
      in if Refused refusal then (d\<lparr>d_Reason := structural show refusal\<rparr>, p)
         else if found = None then (d\<lparr>d_Reason := ReasonNotResolved\<rparr>, p)
         else (d\<lparr>d_Allowed := True\<rparr>, p))"

text \<open>The ports a name is a LAN name for, if it is one.\<close>

definition lan_ports :: "lan_names \<Rightarrow> string \<Rightarrow> 16 word list option" where
  "lan_ports l name =
     (case la_Ports l name of
        Some ports \<Rightarrow> Some ports
      | None \<Rightarrow> (case la_Match l of None \<Rightarrow> None | Some f \<Rightarrow> f name))"

definition DecideLAN ::
    "(addr \<Rightarrow> string) \<Rightarrow> int \<Rightarrow> addr \<times> 16 word \<Rightarrow> decision \<Rightarrow> egress_policy \<Rightarrow> decision \<times> egress_policy" where
  "DecideLAN show now dst d p =
     (case ep_LAN p of
        None \<Rightarrow> (d, p)
      | Some l \<Rightarrow>
          if d_Allowed d \<or> \<not> lan (d_Refusal d) then (d, p)
          else
            let (found, s) = Lookup now (fst dst) (la_Resolved l);
                p = p\<lparr>ep_LAN := Some (l\<lparr>la_Resolved := s\<rparr>)\<rparr>
            in case found of
                 None \<Rightarrow> (d, p)
               | Some e \<Rightarrow>
                   (case lan_ports l (en_Name e) of
                      None \<Rightarrow> (d, p)
                    | Some ports \<Rightarrow>
                        if ports \<noteq> [] \<and> snd dst \<notin> set ports then (d, p)
                        else
                          let d = d\<lparr>d_Entry := e, d_Resolved := True\<rparr>;
                              (r, c) = ClassifyLAN (fst dst) (ep_Classifier p);
                              p = p\<lparr>ep_Classifier := c\<rparr>
                          in if Refused r then (d\<lparr>d_Refusal := r, d_Reason := structural show r\<rparr>, p)
                             else (d\<lparr>d_Allowed := True, d_Reason := ReasonLAN, d_LAN := True\<rparr>, p)))"

section \<open>A recording session\<close>

record recording =
  rg_Unlisted :: resolved
  rg_Session :: string

text \<open>What a connection the policy refused is to the recorder: a hard refusal, with its reason and
  what is written down, or a subject to decide.\<close>

datatype subject =
  Hard_refusal string "string \<times> line"
| To_decide line string bool

text \<open>\<open>strconv.Itoa\<close> of a port.\<close>

definition itoa :: "16 word \<Rightarrow> string" where
  "itoa p = (let n = unat p in
     map (\<lambda>k. char_of (48 + n div 10 ^ k mod 10))
       (rev [0..<(if n < 10 then 1 else if n < 100 then 2 else if n < 1000 then 3 else if n < 10000 then 4 else 5)]))"

definition record_line :: "(addr \<times> 16 word \<Rightarrow> string) \<Rightarrow> string \<Rightarrow> addr \<times> 16 word \<Rightarrow> decision \<Rightarrow> line" where
  "record_line show_port session dst d =
     empty_line\<lparr>ln_Session := session, ln_Kind := KindEgress, ln_Port := snd dst, ln_Address := show_port dst,
       ln_Would := answer_Refuse, ln_Rule := d_Reason d\<rparr>"

definition record_subject ::
    "(addr \<Rightarrow> string) \<Rightarrow> (addr \<times> 16 word \<Rightarrow> string) \<Rightarrow> int \<Rightarrow> addr \<times> 16 word \<Rightarrow> decision \<Rightarrow> recording \<Rightarrow>
     egress_policy \<Rightarrow> subject \<times> recording \<times> egress_policy" where
  "record_subject show show_port now dst d rc p =
     (let l = record_line show_port (rg_Session rc) dst d;
          (unlisted, s) = Lookup now (fst dst) (rg_Unlisted rc);
          rc = rc\<lparr>rg_Unlisted := s\<rparr>;
          name = (if \<not> d_Resolved d \<and> unlisted \<noteq> None then en_Name (entry_of unlisted) else en_Name (d_Entry d));
          address = ''address '' @ show_port dst
      in if \<not> d_Resolved d \<and> unlisted = None
         then (Hard_refusal (d_Reason d) (Hard l address (d_Reason d)), rc, p)
         else if Refused (d_Refusal d) then
           (let (r, c) = ClassifyLAN (fst dst) (ep_Classifier p); p = p\<lparr>ep_Classifier := c\<rparr> in
            if Refused r
            then (Hard_refusal (structural show r) (Hard (l\<lparr>ln_Name := name\<rparr>) address (structural show r)), rc, p)
            else (To_decide (l\<lparr>ln_Name := name, ln_LAN := True\<rparr>) (name @ '':'' @ itoa (snd dst) @ '' lan'') True, rc, p))
         else (To_decide (l\<lparr>ln_Rule := RuleNotAllowed, ln_Name := name, ln_LAN := False\<rparr>)
           (name @ '':'' @ itoa (snd dst)) False, rc, p))"

text \<open>What \<open>record\<close> returns, given what the recorder made of the subject.\<close>

definition record_conn :: "(line \<Rightarrow> string \<Rightarrow> result) \<Rightarrow> subject \<Rightarrow> string \<times> bool" where
  "record_conn decide s =
     (case s of
        Hard_refusal reason _ \<Rightarrow> (reason, False)
      | To_decide l key lanDst \<Rightarrow>
          let res = decide l key in
          if Admits (res_Answer res) then ([], lanDst)
          else if res_Reason res \<noteq> [] then (res_Reason res, lanDst)
          else (ReasonRecordRefused, lanDst))"

section \<open>A connection\<close>

abbreviation DecisionAccepted :: string where "DecisionAccepted \<equiv> ''accepted''"
abbreviation DecisionRefused :: string where "DecisionRefused \<equiv> ''refused''"
abbreviation DecisionFailed :: string where "DecisionFailed \<equiv> ''failed''"

record egress_line =
  el_decision :: decision
  el_outcome :: string

text \<open>The decision of \<open>ServeConn\<close>: the decision on the line, whether the destination is dialled as
  one on the local network, the hard line there is to write, and what is left.\<close>

record served =
  sv_decision :: decision
  sv_lan :: bool
  sv_hard :: "(string \<times> line) option"
  sv_recording :: "recording option"
  sv_policy :: egress_policy

definition admit_conn ::
    "(addr \<Rightarrow> string) \<Rightarrow> (addr \<times> 16 word \<Rightarrow> string) \<Rightarrow> (line \<Rightarrow> string \<Rightarrow> result) \<Rightarrow> (nat \<Rightarrow> int) \<Rightarrow> addr \<times> 16 word \<Rightarrow>
     recording option \<Rightarrow> egress_policy \<Rightarrow> served" where
  "admit_conn show show_port decide now dst rec p =
     (let (d, p) = Decide show (now 0) (fst dst) p;
          (d, p) = DecideLAN show (now 1) dst d p
      in case rec of
           None \<Rightarrow> \<lparr>sv_decision = d, sv_lan = False, sv_hard = None, sv_recording = None, sv_policy = p\<rparr>
         | Some rc \<Rightarrow>
             if d_Allowed d
             then \<lparr>sv_decision = d, sv_lan = False, sv_hard = None, sv_recording = Some rc, sv_policy = p\<rparr>
             else
               let (e, s) = Lookup (now 2) (fst dst) (rg_Unlisted rc);
                   rc = rc\<lparr>rg_Unlisted := s\<rparr>;
                   named = (if e \<noteq> None \<and> \<not> d_Resolved d then d\<lparr>d_Entry := entry_of e\<rparr> else d);
                   (subject, rc, p) = record_subject show show_port (now 3) dst d rc p;
                   (reason, lanDst) = record_conn decide subject
               in \<lparr>sv_decision =
                     (if reason = [] then named\<lparr>d_Allowed := True, d_Reason := RuleRecorded\<rparr>
                      else if reason = d_Reason d then named
                      else named\<lparr>d_Reason := d_Reason named @ ''; '' @ reason\<rparr>),
                   sv_lan = lanDst,
                   sv_hard = (case subject of Hard_refusal _ h \<Rightarrow> Some h | _ \<Rightarrow> None),
                   sv_recording = Some rc, sv_policy = p\<rparr>)"

text \<open>The dial: \<open>Control\<close> on the address the socket is for, then the network's own answer.\<close>

datatype dialled = Dial_refused refusal | Dial_failed | Dialled

record dialer =
  dl_Classifier :: "classifier option"

definition dial :: "bool \<Rightarrow> string \<Rightarrow> string \<Rightarrow> addr option \<Rightarrow> bool \<Rightarrow> dialer \<Rightarrow> dialled \<times> dialer" where
  "dial lanDst network address parsed connected d =
     (let (err, c) = (if lanDst then controlLAN else Control) (dl_Classifier d) network address parsed;
          d = d\<lparr>dl_Classifier := c\<rparr>
      in case err of
           Some (RefusedError _ _ r) \<Rightarrow> (Dial_refused r, d)
         | None \<Rightarrow> (if connected then Dialled else Dial_failed, d))"

definition ServeConn ::
    "(addr \<Rightarrow> string) \<Rightarrow> (addr \<times> 16 word \<Rightarrow> string) \<Rightarrow> (line \<Rightarrow> string \<Rightarrow> result) \<Rightarrow> (nat \<Rightarrow> int) \<Rightarrow> addr \<times> 16 word \<Rightarrow>
     addr option \<Rightarrow> bool \<Rightarrow> recording option \<Rightarrow> egress_policy \<Rightarrow> dialer \<Rightarrow> egress_line \<times> served \<times> dialer" where
  "ServeConn show show_port decide now dst parsed connected rec p dl =
     (let s = admit_conn show show_port decide now dst rec p;
          d = sv_decision s
      in if \<not> d_Allowed d then (\<lparr>el_decision = d, el_outcome = DecisionRefused\<rparr>, s, dl)
         else
           let (res, dl) = dial (sv_lan s \<or> d_LAN d) ''tcp'' (show_port dst) parsed connected dl
           in case res of
                Dial_refused r \<Rightarrow>
                  (\<lparr>el_decision = d\<lparr>d_Refusal := r, d_Reason := ''structural at dial: '' @ refusal_String show r\<rparr>,
                    el_outcome = DecisionRefused\<rparr>, s, dl)
              | Dial_failed \<Rightarrow> (\<lparr>el_decision = d, el_outcome = DecisionFailed\<rparr>, s, dl)
              | Dialled \<Rightarrow> (\<lparr>el_decision = d, el_outcome = DecisionAccepted\<rparr>, s, dl))"


section \<open>What is let through\<close>

definition reasoned :: "classifier \<Rightarrow> bool" where
  "reasoned c \<longleftrightarrow> (\<forall>x\<in>set (cl_ranges c). rg_reason x \<noteq> [])"

lemma Decide_parts:
  assumes "Decide show now a p = (d, p')" "reasoned (ep_Classifier p)"
  shows "same_sources (ep_Classifier p) (ep_Classifier p') \<and> ep_LAN p' = ep_LAN p \<and>
    ep_Resolved p' = snd (Lookup now a (ep_Resolved p)) \<and>
    d_Refusal d = fst (Classify a (ep_Classifier p)) \<and> \<not> d_LAN d \<and>
    d_Entry d = entry_of (fst (Lookup now a (ep_Resolved p))) \<and>
    (d_Resolved d \<longleftrightarrow> fst (Lookup now a (ep_Resolved p)) \<noteq> None) \<and>
    (d_Allowed d \<longleftrightarrow> \<not> Refused (d_Refusal d) \<and> d_Resolved d) \<and> (d_Allowed d \<or> d_Reason d \<noteq> [])"
proof -
  obtain r c where k: "Classify a (ep_Classifier p) = (r, c)" by fastforce
  obtain f s where l: "Lookup now a (ep_Resolved p) = (f, s)" by fastforce
  from Classify_same [OF k] assms(2) have "same_sources (ep_Classifier p) c" by (simp add: reasoned_def)
  with assms(1) k l show ?thesis by (auto simp: Decide_def Let_def structural_def split: if_splits)
qed

lemma same_table_reasoned: "same_table c c' \<Longrightarrow> reasoned c' = reasoned c"
  by (simp add: same_table_def reasoned_def)

text \<open>What \<open>DecideLAN\<close> may change: nothing, a refusal for another, or an admission by name.\<close>

definition lan_named :: "int \<Rightarrow> addr \<times> 16 word \<Rightarrow> egress_policy \<Rightarrow> entry \<Rightarrow> bool" where
  "lan_named now dst p e \<longleftrightarrow>
     (\<exists>l ports. ep_LAN p = Some l \<and> fst (Lookup now (fst dst) (la_Resolved l)) = Some e \<and>
        lan_ports l (en_Name e) = Some ports \<and> (ports = [] \<or> snd dst \<in> set ports))"

lemma DecideLAN_parts:
  assumes "DecideLAN show now dst d p = (d', p')" "reasoned (ep_Classifier p)" "\<not> d_LAN d"
  shows "same_table (ep_Classifier p) (ep_Classifier p') \<and>
    (d_Resolved d' \<longrightarrow> d_Resolved d \<and> d_Entry d' = d_Entry d \<or>
       (\<exists>l. ep_LAN p = Some l \<and> fst (Lookup now (fst dst) (la_Resolved l)) = Some (d_Entry d'))) \<and>
    (d_Allowed d' \<longrightarrow> d' = d \<or> d_LAN d' \<and> \<not> d_Allowed d \<and> lan (d_Refusal d) \<and> lan_named now dst p (d_Entry d') \<and>
       \<not> Refused (fst (ClassifyLAN (fst dst) (ep_Classifier p)))) \<and>
    (\<not> d_Allowed d' \<longrightarrow> \<not> d_Allowed d \<and> \<not> d_LAN d' \<and> (d_Reason d \<noteq> [] \<longrightarrow> d_Reason d' \<noteq> []) \<and>
       (d' = d \<or> lan (d_Refusal d) \<and> d_Resolved d' \<and> Refused (d_Refusal d'))) \<and>
    (\<not> lan (d_Refusal d) \<longrightarrow> d' = d \<and> p' = p)"
proof (cases "ep_LAN p")
  case None
  with assms show ?thesis by (auto simp: DecideLAN_def)
next
  case (Some l)
  show ?thesis
  proof (cases "d_Allowed d \<or> \<not> lan (d_Refusal d)")
    case True
    with Some assms show ?thesis by (auto simp: DecideLAN_def)
  next
    case False
    obtain f s where l: "Lookup now (fst dst) (la_Resolved l) = (f, s)" by fastforce
    obtain r c where k: "ClassifyLAN (fst dst) (ep_Classifier p) = (r, c)" by fastforce
    from ClassifyLAN_table [OF k] assms(2) [unfolded reasoned_def] have "same_table (ep_Classifier p) c" .
    with Some False l k assms show ?thesis
      by (cases f; cases "lan_ports l (en_Name (the f))")
        (auto simp: DecideLAN_def Let_def lan_named_def structural_def split: if_splits)
  qed
qed

text \<open>What the recorder may decide: an address the session's DNS gave for some name, refused by
  nothing, or only for being on the local network.\<close>

lemma record_subject_parts:
  assumes "record_subject show show_port now dst d rc p = (s, rc', p')" "d_Reason d \<noteq> []"
  shows "(case s of
      Hard_refusal reason h \<Rightarrow> reason \<noteq> [] \<and> ln_Answer (snd h) = answer_Refuse
    | To_decide l key lanDst \<Rightarrow>
        (d_Resolved d \<or> fst (Lookup now (fst dst) (rg_Unlisted rc)) \<noteq> None) \<and>
        (if lanDst then \<not> Refused (fst (ClassifyLAN (fst dst) (ep_Classifier p))) else \<not> Refused (d_Refusal d)) \<and>
        ln_LAN l = lanDst \<and> ln_Address l = show_port dst \<and> ln_Port l = snd dst \<and>
        ln_Name l = (if \<not> d_Resolved d then en_Name (entry_of (fst (Lookup now (fst dst) (rg_Unlisted rc)))) else en_Name (d_Entry d)) \<and>
        key = ln_Name l @ '':'' @ itoa (snd dst) @ (if lanDst then '' lan'' else []))"
proof -
  obtain f r where l: "Lookup now (fst dst) (rg_Unlisted rc) = (f, r)" by fastforce
  obtain q c where k: "ClassifyLAN (fst dst) (ep_Classifier p) = (q, c)" by fastforce
  from assms l k show ?thesis
    by (auto simp: record_subject_def Let_def record_line_def empty_line_def Hard_def structural_def split: if_splits)
qed

lemma record_conn_admits:
  assumes "record_conn decide s = (reason, lanDst)" "reason = []"
    and "\<And>reason h. s = Hard_refusal reason h \<Longrightarrow> reason \<noteq> []"
  shows "\<exists>l key. s = To_decide l key lanDst \<and> Admits (res_Answer (decide l key))"
  using assms by (auto simp: record_conn_def Let_def split: subject.splits if_splits)

text \<open>An admission by the policy, by the local names, or by the recording.\<close>

definition by_policy :: "int \<Rightarrow> addr \<Rightarrow> egress_policy \<Rightarrow> entry \<Rightarrow> bool" where
  "by_policy now a p e \<longleftrightarrow>
     \<not> Refused (fst (Classify a (ep_Classifier p))) \<and> fst (Lookup now a (ep_Resolved p)) = Some e"

lemma entry_of_Some: "f \<noteq> None \<Longrightarrow> f = Some (entry_of f)"
  by (auto simp: entry_of_def)

text \<open>By name: the name's address and port, the address on the local network and nobody's.\<close>

definition by_name :: "int \<Rightarrow> addr \<times> 16 word \<Rightarrow> egress_policy \<Rightarrow> entry \<Rightarrow> bool" where
  "by_name now dst p e \<longleftrightarrow> lan_named now dst p e \<and> lan_free (fst dst) (ep_Classifier p)"

text \<open>The session's DNS gave the address: for an allowed name, a local one, or an unlisted one.\<close>

definition session_named :: "(nat \<Rightarrow> int) \<Rightarrow> addr \<Rightarrow> egress_policy \<Rightarrow> recording \<Rightarrow> string \<Rightarrow> bool" where
  "session_named now a p rc name \<longleftrightarrow>
     (\<exists>e. en_Name e = name \<and>
        (fst (Lookup (now 0) a (ep_Resolved p)) = Some e \<or>
         (\<exists>l. ep_LAN p = Some l \<and> fst (Lookup (now 1) a (la_Resolved l)) = Some e) \<or>
         fst (Lookup (now 3) a (snd (Lookup (now 2) a (rg_Unlisted rc)))) = Some e))"

text \<open>The policy as \<open>Decide\<close> and \<open>DecideLAN\<close> leave it, which \<open>record\<close> asks.\<close>

definition policy_asked :: "(addr \<Rightarrow> string) \<Rightarrow> (nat \<Rightarrow> int) \<Rightarrow> addr \<times> 16 word \<Rightarrow> egress_policy \<Rightarrow> egress_policy" where
  "policy_asked show now dst p = (let (d, p) = Decide show (now 0) (fst dst) p in snd (DecideLAN show (now 1) dst d p))"

definition by_recording ::
    "(addr \<Rightarrow> string) \<Rightarrow> (line \<Rightarrow> string \<Rightarrow> result) \<Rightarrow> (addr \<times> 16 word \<Rightarrow> string) \<Rightarrow> (nat \<Rightarrow> int) \<Rightarrow> addr \<times> 16 word \<Rightarrow>
     egress_policy \<Rightarrow> recording \<Rightarrow> bool \<Rightarrow> bool" where
  "by_recording show decide show_port now dst p rc lanDst \<longleftrightarrow>
     (\<exists>l. session_named now (fst dst) p rc (ln_Name l) \<and>
        Admits (res_Answer (decide l (ln_Name l @ '':'' @ itoa (snd dst) @ (if lanDst then '' lan'' else [])))) \<and>
        ln_LAN l = lanDst \<and> ln_Address l = show_port dst \<and> ln_Port l = snd dst) \<and>
     (if lanDst
      then \<not> Refused (fst (Classify (fst dst) (ep_Classifier (policy_asked show now dst p)))) \<or>
        lan_free (fst dst) (ep_Classifier (policy_asked show now dst p))
      else \<not> Refused (fst (Classify (fst dst) (ep_Classifier p))))"

lemma by_nameI:
  assumes "Decide show now0 (fst dst) p = (d, p1)" "lan (d_Refusal d)" "lan_named now dst p1 e"
    "\<not> Refused (fst (ClassifyLAN (fst dst) (ep_Classifier p1)))" "reasoned (ep_Classifier p)"
  shows "by_name now dst p e"
proof -
  obtain r c where k: "Classify (fst dst) (ep_Classifier p) = (r, c)" by fastforce
  have D: "ep_Classifier p1 = c" "d_Refusal d = r" "ep_LAN p1 = ep_LAN p"
    using assms(1) k by (auto simp: Decide_def Let_def split: prod.splits if_splits)
  have ok: "\<forall>x\<in>set (cl_ranges (ep_Classifier p)). rg_reason x \<noteq> []" using assms(5) by (simp add: reasoned_def)
  have "lan r" using assms(2) D(2) by simp
  from lan_row [OF k this ok] D(1) have c: "ep_Classifier p1 = ep_Classifier p" by simp
  have "Refused r" using \<open>lan r\<close> by (auto simp: lan_def Refused_def)
  with ClassifyLAN_clear [OF ok, of "fst dst"] assms(4) k have "lan_free (fst dst) (ep_Classifier p)" unfolding c by simp
  with assms(3) D(3) show ?thesis by (simp add: by_name_def lan_named_def)
qed

lemma admit_conn_parts:
  assumes s: "s = admit_conn show show_port decide now dst rec p" and ok: "reasoned (ep_Classifier p)"
    and a: "d_Allowed (sv_decision s)"
  shows "(by_policy (now 0) (fst dst) p (d_Entry (sv_decision s)) \<and> \<not> sv_lan s \<and> \<not> d_LAN (sv_decision s)) \<or>
    (by_name (now 1) dst p (d_Entry (sv_decision s)) \<and> \<not> sv_lan s \<and> d_LAN (sv_decision s)) \<or>
    (\<exists>rc. rec = Some rc \<and> d_Reason (sv_decision s) = RuleRecorded \<and> \<not> d_LAN (sv_decision s) \<and>
       by_recording show decide show_port now dst p rc (sv_lan s))"
proof -
  obtain d p1 where d: "Decide show (now 0) (fst dst) p = (d, p1)" by fastforce
  note D = Decide_parts [OF d ok]
  have ok1: "reasoned (ep_Classifier p1)" using D ok by (simp add: reasoned_def same_sources_def)
  obtain d' p2 where d': "DecideLAN show (now 1) dst d p1 = (d', p2)" by fastforce
  have nl: "\<not> d_LAN d" using D by blast
  note L = DecideLAN_parts [OF d' ok1 nl]
  show ?thesis
  proof (cases "d_Allowed d'")
    case True
    then have dec: "sv_decision s = d' \<and> \<not> sv_lan s"
      using s d d' by (cases rec) (simp_all add: admit_conn_def)
    from L True consider "d' = d" | "d_LAN d' \<and> \<not> d_Allowed d \<and> lan (d_Refusal d) \<and> lan_named (now 1) dst p1 (d_Entry d') \<and>
        \<not> Refused (fst (ClassifyLAN (fst dst) (ep_Classifier p1)))" by blast
    then show ?thesis
    proof cases
      case 1
      with D True have r: "\<not> Refused (fst (Classify (fst dst) (ep_Classifier p)))"
        "fst (Lookup (now 0) (fst dst) (ep_Resolved p)) \<noteq> None"
        "d_Entry d = entry_of (fst (Lookup (now 0) (fst dst) (ep_Resolved p)))" by metis+
      from r(1) entry_of_Some [OF r(2)] have "by_policy (now 0) (fst dst) p (d_Entry d)"
        unfolding by_policy_def r(3) by blast
      with dec nl 1 show ?thesis by simp
    next
      case 2
      with by_nameI [OF d _ _ _ ok] have "by_name (now 1) dst p (d_Entry d')" by blast
      with 2 dec show ?thesis by simp
    qed
  next
    case False
    then obtain rc where rc: "rec = Some rc" using s d d' a by (cases rec) (simp_all add: admit_conn_def)
    obtain e q where e: "Lookup (now 2) (fst dst) (rg_Unlisted rc) = (e, q)" by fastforce
    let ?rc = "rc\<lparr>rg_Unlisted := q\<rparr>"
    obtain sub rc' p3 where sub: "record_subject show show_port (now 3) dst d' ?rc p2 = (sub, rc', p3)" by (metis prod_cases3)
    obtain reason lanDst where rec: "record_conn decide sub = (reason, lanDst)" by fastforce
    have why: "d_Reason d' \<noteq> []" using L False D by blast
    note R = record_subject_parts [OF sub why]
    have s': "sv_lan s = lanDst" "reason = []" "d_Reason (sv_decision s) = RuleRecorded" "\<not> d_LAN (sv_decision s)"
      using s d d' rc e sub rec a False L by (auto simp: admit_conn_def Let_def split: if_splits)
    have "\<exists>l key. sub = To_decide l key lanDst \<and> Admits (res_Answer (decide l key))"
      by (rule record_conn_admits [OF rec s'(2)]) (use R in auto)
    then obtain l key where lk: "sub = To_decide l key lanDst" "Admits (res_Answer (decide l key))" by blast
    let ?name = "if \<not> d_Resolved d' then en_Name (entry_of (fst (Lookup (now 3) (fst dst) q))) else en_Name (d_Entry d')"
    from lk(1) R have r: "d_Resolved d' \<or> fst (Lookup (now 3) (fst dst) q) \<noteq> None"
      "if lanDst then \<not> Refused (fst (ClassifyLAN (fst dst) (ep_Classifier p2))) else \<not> Refused (d_Refusal d')"
      "ln_LAN l = lanDst" "ln_Address l = show_port dst" "ln_Port l = snd dst" "ln_Name l = ?name"
      "key = ln_Name l @ '':'' @ itoa (snd dst) @ (if lanDst then '' lan'' else [])" by simp_all
    have named: "session_named now (fst dst) p rc (ln_Name l)"
    proof (cases "d_Resolved d'")
      case True
      with L have "d_Resolved d \<and> d_Entry d' = d_Entry d \<or>
        (\<exists>l. ep_LAN p = Some l \<and> fst (Lookup (now 1) (fst dst) (la_Resolved l)) = Some (d_Entry d'))" using D by simp
      with D entry_of_Some [of "fst (Lookup (now 0) (fst dst) (ep_Resolved p))"] have
        "fst (Lookup (now 0) (fst dst) (ep_Resolved p)) = Some (d_Entry d') \<or>
         (\<exists>l. ep_LAN p = Some l \<and> fst (Lookup (now 1) (fst dst) (la_Resolved l)) = Some (d_Entry d'))" by metis
      with r(6) True show ?thesis unfolding session_named_def by auto
    next
      case False
      with r(1) entry_of_Some have "fst (Lookup (now 3) (fst dst) q) = Some (entry_of (fst (Lookup (now 3) (fst dst) q)))" by blast
      with r(6) False e show ?thesis unfolding session_named_def by auto
    qed
    have table: "same_table (ep_Classifier p) (ep_Classifier p2)"
      using L D same_sources_table same_table_trans by blast
    then have ok2: "\<forall>x\<in>set (cl_ranges (ep_Classifier p2)). rg_reason x \<noteq> []" using ok by (simp add: same_table_def reasoned_def)
    have p2: "policy_asked show now dst p = p2" unfolding policy_asked_def d Let_def prod.case d' by (rule snd_conv)
    have "\<not> Refused (d_Refusal d') \<Longrightarrow> d_Refusal d' = fst (Classify (fst dst) (ep_Classifier p))"
      using L False D by metis
    with r(2) ClassifyLAN_clear [OF ok2, of "fst dst"]
    have "if lanDst then \<not> Refused (fst (Classify (fst dst) (ep_Classifier p2))) \<or> lan_free (fst dst) (ep_Classifier p2)
      else \<not> Refused (fst (Classify (fst dst) (ep_Classifier p)))" by (auto split: if_splits)
    with named lk(2) r(3-5) have "by_recording show decide show_port now dst p rc lanDst"
      unfolding by_recording_def p2 r(7) by blast
    with rc s' show ?thesis by blast
  qed
qed


lemma dial_through:
  assumes "dial lanDst network address parsed connected dl = (Dialled, dl')"
  shows "connected \<and> (\<exists>c a. dl_Classifier dl = Some c \<and> parsed = Some a \<and>
    \<not> Refused (fst ((if lanDst then ClassifyLAN else Classify) a c)))"
  using assms
  by (auto simp: dial_def Control_def controlLAN_def control_def split: option.splits prod.splits if_splits refused_error.splits)

text \<open>A row of the table that is not of the local network, holding the address as the kernel takes it, refuses it
  whatever else is known; and so does any row that holds a v4 address it spells, where none holds it itself.\<close>

lemma Classify_row:
  assumes "find (\<lambda>r. Contains (rg_prefix r) (canonAddr a)) (cl_ranges c) = Some x" "IsValid a" "rg_reason x \<noteq> []"
  shows "Classify a c = (refusal_for (rg_reason x), c)"
  using assms by (simp add: Classify_canon classify_addr_def classify_here_def)

definition row_refuses :: "range list \<Rightarrow> addr \<Rightarrow> bool" where
  "row_refuses rs a \<longleftrightarrow>
     \<not> IsValid a \<or>
     (case find (\<lambda>r. Contains (rg_prefix r) (canonAddr a)) rs of
        Some x \<Rightarrow> rg_reason x \<notin> {ReasonPrivate, ReasonULA, ReasonLinkLocal}
      | None \<Rightarrow> list_ex (\<lambda>v. \<not> off_table rs (snd v)) (embedded (canonAddr a)))"

definition never_lan :: "addr \<Rightarrow> range list \<Rightarrow> bool" where
  "never_lan a rs \<longleftrightarrow> (\<forall>c. cl_ranges c = rs \<longrightarrow>
     Refused (fst (Classify a c)) \<and> \<not> lan (fst (Classify a c)) \<and> cl_ranges (snd (Classify a c)) = rs)"

lemma embedded_spelling: "v \<in> set (embedded a) \<Longrightarrow> fst v \<noteq> []"
  by (auto simp: embedded_def embeddings_def split: addr.splits if_splits)

lemma row_never_lan:
  assumes "row_refuses (cl_ranges c0) a" "reasoned c0"
  shows "never_lan a (cl_ranges c0)"
  unfolding never_lan_def
proof (intro allI impI)
  fix c :: classifier
  assume rs: "cl_ranges c = cl_ranges c0"
  have ok: "\<forall>x\<in>set (cl_ranges c). rg_reason x \<noteq> []" using assms(2) rs by (simp add: reasoned_def)
  obtain r c' where k: "Classify a c = (r, c')" by fastforce
  from Classify_same [OF k ok] rs have ranges: "cl_ranges c' = cl_ranges c0" by (simp add: same_sources_def)
  have "Refused r \<and> \<not> lan r"
  proof (cases "IsValid a")
    case False
    with k show ?thesis by (auto simp: Classify_def lan_def)
  next
    case v: True
    show ?thesis
    proof (cases "find (\<lambda>r. Contains (rg_prefix r) (canonAddr a)) (cl_ranges c)")
      case (Some x)
      then have "rg_reason x \<noteq> []" using ok by (auto simp: find_Some_iff)
      with Classify_row [OF Some v] k Some assms(1) v rs show ?thesis by (auto simp: row_refuses_def lan_def)
    next
      case None
      obtain v4 where v4: "v4 \<in> set (embedded (canonAddr a))" "\<not> off_table (cl_ranges c) (snd v4)"
        using assms(1) v None rs by (auto simp: row_refuses_def list_ex_iff)
      then have "\<not> (\<forall>s\<in>set (spellings a). off_table (cl_ranges c) s)" by (auto simp: spellings_def)
      with Classify_clear_all [OF k ok] have "Refused r" by blast
      moreover have "\<not> lan r"
      proof
        assume l: "lan r"
        from lan_row [OF k l ok] None show False by simp
      qed
      ultimately show ?thesis by blast
    qed
  qed
  with k ranges show "Refused (fst (Classify a c)) \<and> \<not> lan (fst (Classify a c)) \<and> cl_ranges (snd (Classify a c)) = cl_ranges c0"
    by simp
qed

lemma never_lan_admit:
  assumes "never_lan (fst dst) (cl_ranges (ep_Classifier p))"
  shows "\<not> d_Allowed (sv_decision (admit_conn show show_port decide now dst rec p))"
proof -
  obtain d p1 where d: "Decide show (now 0) (fst dst) p = (d, p1)" by fastforce
  obtain r c where k: "Classify (fst dst) (ep_Classifier p) = (r, c)" by fastforce
  with assms have r: "Refused r" "\<not> lan r" "cl_ranges c = cl_ranges (ep_Classifier p)" unfolding never_lan_def by auto
  from d have D: "\<not> d_Allowed d" "Refused (d_Refusal d)" "\<not> lan (d_Refusal d)"
    "cl_ranges (ep_Classifier p1) = cl_ranges (ep_Classifier p)" "d_Reason d \<noteq> []"
    using r by (auto simp: Decide_def k Let_def structural_def split: prod.splits)
  then have d': "DecideLAN show (now 1) dst d p1 = (d, p1)"
    by (simp add: DecideLAN_def split: option.split)
  show ?thesis
  proof (cases rec)
    case None
    with d d' D show ?thesis by (simp add: admit_conn_def)
  next
    case (Some rc)
    obtain e q where e: "Lookup (now 2) (fst dst) (rg_Unlisted rc) = (e, q)" by fastforce
    obtain sub rc' p3 where sub: "record_subject show show_port (now 3) dst d (rc\<lparr>rg_Unlisted := q\<rparr>) p1 = (sub, rc', p3)"
      by (metis prod_cases3)
    from assms D(4) have "Refused (fst (Classify (fst dst) (ep_Classifier p1))) \<and> \<not> lan (fst (Classify (fst dst) (ep_Classifier p1)))"
      unfolding never_lan_def by blast
    then have "Refused (fst (ClassifyLAN (fst dst) (ep_Classifier p1)))" by (auto simp: ClassifyLAN_def split: prod.splits)
    with sub D have "case sub of Hard_refusal reason h \<Rightarrow> reason \<noteq> [] | To_decide l key lanDst \<Rightarrow> False"
      by (auto simp: record_subject_def Let_def structural_def split: prod.splits if_splits)
    then obtain reason h where h: "sub = Hard_refusal reason h" "reason \<noteq> []" by (cases sub) simp_all
    from Some d d' e sub h D show ?thesis by (simp add: admit_conn_def record_conn_def Let_def)
  qed
qed

section \<open>The properties\<close>

definition small_classifier :: classifier where
  "small_classifier =
     \<lparr>cl_ranges = [row4 0x7F000000 8 ReasonLoopback], cl_host = example_host, cl_gateways = None, cl_inner = None\<rparr>"

definition example_policy :: egress_policy where
  "example_policy =
     \<lparr>ep_Classifier = small_classifier,
      ep_Resolved = Record 0 ''a.example'' (V4 0x08080808) 0 1 (NewResolved \<lparr>MinTTL = 0, MaxTTL = 0, Cap = 0\<rparr>),
      ep_LAN = None\<rparr>"

definition no_show :: "'a \<Rightarrow> string" where "no_show a = []"

definition refuses_all :: "line \<Rightarrow> string \<Rightarrow> result" where
  "refuses_all l key = \<lparr>res_Answer = answer_Refuse, res_Source = SourceDefault, res_Reason = [], res_Err = None\<rparr>"

lemma example_reasoned: "reasoned small_classifier"
  by (simp add: reasoned_def small_classifier_def row4_def)

text \<open>
  C27: a connection is spliced only where every guard said yes. It was admitted by the policy, its classifier
  passing the address and the session's own answer for it unexpired; or by a local name, its address, unexpired,
  and port the document's, and the address, by the classifier that was asked, refused for nothing but being on the
  local network, no metadata service's, and on none of the lists of the host's own addresses, its routers and its
  own networks, all of which were known; or by the recording of a session that resolved the address for a name, the
  recorder admitting that name at that port, and the classifier \<open>record\<close> asked, as the questions before left it,
  refusing it for nothing, or for no more than the local network in the same sense. And the address the socket
  was for, whatever it was, passed the classifier again at the dial.
\<close>

theorem ServeConn_accepted:
  assumes "ServeConn show show_port decide now dst parsed connected rec p dl = (line, s, dl')"
    and "el_outcome line = DecisionAccepted" and "reasoned (ep_Classifier p)"
  shows "(by_policy (now 0) (fst dst) p (d_Entry (sv_decision s)) \<or>
      by_name (now 1) dst p (d_Entry (sv_decision s)) \<or>
      (\<exists>rc. rec = Some rc \<and> by_recording show decide show_port now dst p rc (sv_lan s))) \<and>
    connected \<and>
    (\<exists>c a. dl_Classifier dl = Some c \<and> parsed = Some a \<and>
      \<not> Refused (fst ((if sv_lan s \<or> d_LAN (sv_decision s) then ClassifyLAN else Classify) a c)))"
proof -
  have s: "s = admit_conn show show_port decide now dst rec p" and a: "d_Allowed (sv_decision s)"
    and d: "fst (dial (sv_lan s \<or> d_LAN (sv_decision s)) ''tcp'' (show_port dst) parsed connected dl) = Dialled"
    using assms(1,2) by (auto simp: ServeConn_def Let_def split: prod.splits dialled.splits if_splits)
  from d obtain dl2 where "dial (sv_lan s \<or> d_LAN (sv_decision s)) ''tcp'' (show_port dst) parsed connected dl = (Dialled, dl2)"
    by (metis prod.collapse)
  note through = dial_through [OF this]
  from admit_conn_parts [OF s assms(3) a] through show ?thesis by blast
qed

theorem ServeConn_accepted_witness:
  "by_policy 0 (V4 0x08080808) example_policy \<lparr>en_Name = ''a.example'', en_Query = 1, en_Expires = 60000000000\<rparr>"
proof -
  let ?run = "ServeConn no_show no_show refuses_all (\<lambda>_. 0) (V4 0x08080808, 443) (Some (V4 0x08080808)) True None
    example_policy \<lparr>dl_Classifier = Some small_classifier\<rparr>"
  let ?e = "\<lparr>en_Name = ''a.example'', en_Query = 1, en_Expires = 60000000000\<rparr>"
  have all: "(el_outcome (fst ?run), d_Entry (sv_decision (fst (snd ?run)))) = (DecisionAccepted, ?e)" by code_simp
  have out: "el_outcome (fst ?run) = DecisionAccepted" using arg_cong [OF all, of fst] by (simp only: fst_conv)
  have e: "d_Entry (sv_decision (fst (snd ?run))) = ?e" using arg_cong [OF all, of snd] by (simp only: snd_conv)
  have "\<not> lan_free (V4 0x08080808) small_classifier" by code_simp
  then have no: "\<not> by_name now (V4 0x08080808, port) example_policy entry" for now port entry
    by (simp add: by_name_def example_policy_def)
  have run: "?run = (fst ?run, fst (snd ?run), snd (snd ?run))" by simp
  have "reasoned (ep_Classifier example_policy)" by (simp add: example_policy_def example_reasoned)
  from ServeConn_accepted [OF run out this] no show ?thesis unfolding e by simp
qed

text \<open>
  C28: a refusal by the table is first and nothing undoes it. An address that is none; that the first row of the
  table holding it refuses for more than being on the local network; or that no row holds and that spells a v4
  address some row does, for whatever reason, is refused and never dialled, whatever the session resolved, the
  document names on the local network, or a recording and the person behind it say, and whatever the host's own
  addresses are or were known to be. Of a refusal as the host's own address, or as its addresses unknown, this is
  not said: they may be read again, and read otherwise, before a recording asks.
\<close>

theorem structural_final:
  assumes "row_refuses (cl_ranges (ep_Classifier p)) (fst dst)" "reasoned (ep_Classifier p)"
  shows "el_outcome (fst (ServeConn show show_port decide now dst parsed connected rec p dl)) = DecisionRefused \<and>
    snd (snd (ServeConn show show_port decide now dst parsed connected rec p dl)) = dl"
proof -
  from never_lan_admit [OF row_never_lan [OF assms]] show ?thesis by (simp add: ServeConn_def Let_def)
qed

theorem structural_final_witness:
  "el_outcome (fst (ServeConn no_show no_show (\<lambda>l key. \<lparr>res_Answer = answer_Allow, res_Source = SourceHuman, res_Reason = [], res_Err = None\<rparr>)
     (\<lambda>_. 0) (V6 0x0064FF9B00000000000000007F000001 ''lo'', 22) None True None
     (example_policy\<lparr>ep_Resolved := Record 0 ''a.example'' (V4 0x7F000001) 0 1 (ep_Resolved example_policy)\<rparr>)
     \<lparr>dl_Classifier = None\<rparr>)) = DecisionRefused"
proof -
  let ?p = "example_policy\<lparr>ep_Resolved := Record 0 ''a.example'' (V4 0x7F000001) 0 1 (ep_Resolved example_policy)\<rparr>"
  have "row_refuses (cl_ranges small_classifier) (V6 0x0064FF9B00000000000000007F000001 ''lo'')" by code_simp
  then have "row_refuses (cl_ranges (ep_Classifier ?p)) (fst (V6 0x0064FF9B00000000000000007F000001 ''lo'', 22 :: 16 word))"
    by (simp add: example_policy_def)
  moreover have "reasoned (ep_Classifier ?p)" by (simp add: example_policy_def example_reasoned)
  ultimately show ?thesis
    using structural_final [of ?p "(V6 0x0064FF9B00000000000000007F000001 ''lo'', 22)"] by blast
qed

end
