(* ===== verification/Egress_Routes.thy ===== *)
theory Egress_Routes
  imports Egress_Structural
begin

text \<open>
  The host's routers and its own networks from a route dump, \<open>internal/egress/lan.go\<close>: the
  attributes of each route message, those inside a multipath attribute read here byte by byte.

  A message is as in \<open>Egress_Host\<close>, with the attributes \<open>syscall.ParseNetlinkRouteAttr\<close> finds, and
  \<open>order\<close> is the machine's reading of bytes as a number. \<open>None\<close> is the error.
\<close>

section \<open>Attributes\<close>

definition rtaVia :: int where "rtaVia = 18"
definition rtaNHID :: int where "rtaNHID = 30"
definition sizeofRtNexthop :: nat where "sizeofRtNexthop = 8"
definition SizeofRtAttr :: nat where "SizeofRtAttr = 4"
definition RTA_ALIGNTO :: int where "RTA_ALIGNTO = 4"
definition AF_INET :: int where "AF_INET = 2"
definition AF_INET6 :: int where "AF_INET6 = 10"

definition rtaAlign :: "int \<Rightarrow> int" where
  "rtaAlign n = (n + RTA_ALIGNTO - 1) AND NOT (RTA_ALIGNTO - 1)"

lemma and_not_mask2: "n AND NOT 3 = n - n mod 4" for n :: int
proof -
  have "n AND 3 = n mod 4" using take_bit_eq_mask [of 2 n] by (simp add: take_bit_eq_mod mask_eq_exp_minus_1)
  moreover have "(n AND NOT 3) + (n AND 3) = n"
    by (subst disjunctive_add) (auto simp: bit_simps bit_eq_iff)
  ultimately show ?thesis by simp
qed

lemma rtaAlign_eq: "rtaAlign n = 4 * ((n + 3) div 4)"
  using and_not_mask2 [of "n + 3"] by (simp add: rtaAlign_def RTA_ALIGNTO_def minus_mod_eq_mult_div algebra_simps)

lemma rtaAlign_ge: "n \<le> rtaAlign n"
  unfolding rtaAlign_eq by linarith

lemma rtaAlign_lt: "rtaAlign n < n + 4"
  unfolding rtaAlign_eq by linarith

text \<open>What is left after an item of \<open>n\<close> bytes and its padding.\<close>

definition after_item :: "int \<Rightarrow> char list \<Rightarrow> char list" where
  "after_item n b = drop (nat (min (rtaAlign n) (int (length b)))) b"

lemma after_item_shorter: "0 < n \<Longrightarrow> n \<le> int (length b) \<Longrightarrow> length (after_item n b) < length b"
  using rtaAlign_ge [of n] by (auto simp: after_item_def)

function parseAttrs :: "(char list \<Rightarrow> int) \<Rightarrow> char list \<Rightarrow> (int \<times> char list) list option" where
  "parseAttrs order b =
     (if length b < SizeofRtAttr then Some []
      else
        let n = order (take 2 b) in
        if n < int SizeofRtAttr \<or> n > int (length b) then None
        else map_option (\<lambda>out. (order (take 2 (drop 2 b)), drop SizeofRtAttr (take (nat n) b)) # out)
          (parseAttrs order (after_item n b)))"
  by pat_completeness auto

termination parseAttrs
  by (relation "measure (\<lambda>(order, b). length b)") (auto simp: SizeofRtAttr_def intro: after_item_shorter)

declare parseAttrs.simps [simp del]

definition gatewayAddr :: "int \<Rightarrow> char list \<Rightarrow> addr option" where
  "gatewayAddr typ v =
     (if typ = rtaVia then (if length v < 2 then None else AddrFromSlice (drop 2 v))
      else AddrFromSlice v)"

definition is_gateway :: "int \<Rightarrow> bool" where
  "is_gateway t \<longleftrightarrow> t = RTA_GATEWAY \<or> t = rtaVia"

definition attr_gateways :: "(int \<times> char list) list \<Rightarrow> addr list" where
  "attr_gateways as = List.map_filter (\<lambda>(t, v). if is_gateway t then gatewayAddr t v else None) as"

text \<open>\<open>int(int32(u))\<close> of a number of four bytes.\<close>

definition int32 :: "int \<Rightarrow> int" where
  "int32 n = sint (word_of_int n :: 32 word)"

function parseMultipath :: "(char list \<Rightarrow> int) \<Rightarrow> char list \<Rightarrow> (int list \<times> addr list) option" where
  "parseMultipath order b =
     (if length b < sizeofRtNexthop then Some ([], [])
      else
        let n = order (take 2 b) in
        if n < int sizeofRtNexthop \<or> n > int (length b) then None
        else
          (case parseAttrs order (drop sizeofRtNexthop (take (nat n) b)) of
             None \<Rightarrow> None
           | Some as \<Rightarrow>
               map_option (\<lambda>(oifs, gws). (int32 (order (take 4 (drop 4 b))) # oifs, attr_gateways as @ gws))
                 (parseMultipath order (after_item n b))))"
  by pat_completeness auto

termination parseMultipath
  by (relation "measure (\<lambda>(order, b). length b)") (auto simp: sizeofRtNexthop_def intro: after_item_shorter)

declare parseMultipath.simps [simp del]

section \<open>Routes\<close>

record route_attrs =
  ra_dst :: addr
  ra_oifs :: "int list"
  ra_byObj :: bool
  ra_gws :: "addr list"

text \<open>The switch on one of a route's attributes, and the loop over them.\<close>

definition route_attr :: "(char list \<Rightarrow> int) \<Rightarrow> int \<Rightarrow> char list \<Rightarrow> route_attrs \<Rightarrow> route_attrs option" where
  "route_attr order t v r =
     (if t = RTA_DST then Some (case AddrFromSlice v of Some ip \<Rightarrow> r\<lparr>ra_dst := ip\<rparr> | None \<Rightarrow> r)
      else if is_gateway t then
        Some (case gatewayAddr t v of Some ip \<Rightarrow> r\<lparr>ra_gws := ra_gws r @ [ip]\<rparr> | None \<Rightarrow> r)
      else if t = RTA_OIF then Some (if length v = 4 then r\<lparr>ra_oifs := ra_oifs r @ [int32 (order v)]\<rparr> else r)
      else if t = RTA_MULTIPATH then
        map_option (\<lambda>(hops, gws). r\<lparr>ra_oifs := ra_oifs r @ hops, ra_gws := ra_gws r @ gws\<rparr>) (parseMultipath order v)
      else Some (if t = rtaNHID then r\<lparr>ra_byObj := True\<rparr> else r))"

fun route_loop :: "(char list \<Rightarrow> int) \<Rightarrow> (int \<times> char list) list \<Rightarrow> route_attrs \<Rightarrow> route_attrs option" where
  "route_loop order [] r = Some r"
| "route_loop order ((t, v) # as) r =
     (case route_attr order t v r of None \<Rightarrow> None | Some r \<Rightarrow> route_loop order as r)"

definition no_attrs :: route_attrs where
  "no_attrs = \<lparr>ra_dst = NoAddr, ra_oifs = [], ra_byObj = False, ra_gws = []\<rparr>"

definition single :: "addr \<Rightarrow> netprefix" where
  "single a = PrefixFrom (Unmap a) (int (BitLen (Unmap a)))"

text \<open>A route's destination, everything of its family where it names none; and that destination
  where the route is a unicast one that leaves by no hardware.\<close>

definition route_dst :: "char list \<Rightarrow> route_attrs \<Rightarrow> addr" where
  "route_dst data r =
     (if IsValid (ra_dst r) then ra_dst r
      else if byte_at data 0 = AF_INET then V4 0
      else if byte_at data 0 = AF_INET6 then V6 0 []
      else NoAddr)"

definition inner_of :: "(int \<Rightarrow> bool) \<Rightarrow> char list \<Rightarrow> route_attrs \<Rightarrow> netprefix list" where
  "inner_of hardware data r =
     (if byte_at data 7 \<noteq> RTN_UNICAST then []
      else
        let dst = route_dst data r in
        if \<not> IsValid dst then []
        else if byte_at data 1 > int (BitLen (Unmap dst)) then []
        else if ra_oifs r = [] \<or> list_ex (\<lambda>o'. \<not> hardware o') (ra_oifs r)
          then [Masked (PrefixFrom (Unmap dst) (byte_at data 1))]
        else [])"

fun parseRoutes ::
    "(char list \<Rightarrow> int) \<Rightarrow> (int \<Rightarrow> bool) \<Rightarrow> netlink_message list \<Rightarrow> (netprefix list \<times> netprefix list) option" where
  "parseRoutes order hardware [] = Some ([], [])"
| "parseRoutes order hardware (m # ms) =
     (if nm_type m = NLMSG_ERROR then None
      else if nm_type m \<noteq> RTM_NEWROUTE \<or> length (nm_data m) < SizeofRtMsg then parseRoutes order hardware ms
      else case nm_attrs m of
          None \<Rightarrow> None
        | Some as \<Rightarrow>
            (case route_loop order as no_attrs of
               None \<Rightarrow> None
             | Some r \<Rightarrow>
                 if ra_byObj r \<and> ra_oifs r = [] \<and> ra_gws r = [] then None
                 else map_option (\<lambda>(gateways, inner). (map single (ra_gws r) @ gateways, inner_of hardware (nm_data m) r @ inner))
                   (parseRoutes order hardware ms)))"


section \<open>Writing attributes\<close>

text \<open>The bytes the kernel writes for attributes, on a little-endian machine.\<close>

fun little :: "char list \<Rightarrow> int" where
  "little [] = 0"
| "little (c # cs) = of_char c + 256 * little cs"

definition le16 :: "nat \<Rightarrow> char list" where
  "le16 n = [char_of (n mod 256), char_of (n div 256 mod 256)]"

definition padding :: "nat \<Rightarrow> char list" where
  "padding n = replicate (nat (rtaAlign (int n)) - n) (CHR 0x00)"

definition encode_attr :: "int \<times> char list \<Rightarrow> char list" where
  "encode_attr a =
     (let n = SizeofRtAttr + length (snd a) in le16 n @ le16 (nat (fst a)) @ snd a @ padding n)"

definition attr_fits :: "int \<times> char list \<Rightarrow> bool" where
  "attr_fits a \<longleftrightarrow> 0 \<le> fst a \<and> fst a < 65536 \<and> length (snd a) < 65532"

lemma little_le16: "n < 65536 \<Longrightarrow> little (le16 n) = int n"
proof -
  assume n: "n < 65536"
  then have "n div 256 < 256" by (simp add: div_less_iff_less_mult)
  moreover have "(of_char (char_of k :: char) :: int) = int (k mod 256)" for k :: nat
    by (metis of_char_of of_nat_of_char)
  ultimately have "little (le16 n) = int (n mod 256) + 256 * int (n div 256)"
    by (simp add: le16_def)
  also have "\<dots> = int (n mod 256 + 256 * (n div 256))" by (simp only: of_nat_add of_nat_mult of_nat_numeral)
  finally have "little (le16 n) = int (n mod 256 + 256 * (n div 256))" .
  then show ?thesis by (simp only: mod_mult_div_eq)
qed

lemma parseAttrs_encode:
  "\<forall>a\<in>set as. attr_fits a \<Longrightarrow> parseAttrs little (concat (map encode_attr as)) = Some as"
proof (induction as)
  case Nil
  then show ?case by (simp add: parseAttrs.simps SizeofRtAttr_def)
next
  case (Cons a as)
  obtain t v where a: "a = (t, v)" by fastforce
  let ?n = "4 + length v"
  define b where "b = concat (map encode_attr (a # as))"
  have fit: "0 \<le> t" "t < 65536" "length v < 65532" using Cons.prems by (simp_all add: a attr_fits_def)
  have b: "b = le16 ?n @ le16 (nat t) @ v @ padding ?n @ concat (map encode_attr as)"
    by (simp add: b_def a encode_attr_def SizeofRtAttr_def Let_def)
  have le: "length (le16 k) = 2" for k by (simp add: le16_def)
  have n: "little (take 2 b) = int ?n" unfolding b using fit by (simp add: le little_le16)
  have ty: "little (take 2 (drop 2 b)) = t" unfolding b using fit by (simp add: le little_le16)
  have va: "drop 4 (take ?n b) = v" unfolding b by (simp add: le)
  have pad: "length (padding ?n) = nat (rtaAlign (int ?n)) - ?n" by (simp add: padding_def)
  have ge: "?n \<le> nat (rtaAlign (int ?n))" using rtaAlign_ge [of "int ?n"] by simp
  have "int (length b) \<ge> rtaAlign (int ?n)" unfolding b using ge by (simp add: le pad)
  then have "after_item (int ?n) b = drop (nat (rtaAlign (int ?n))) b" by (simp add: after_item_def min_def)
  also have "\<dots> = concat (map encode_attr as)" unfolding b using ge by (simp add: le pad)
  finally have rest: "after_item (int ?n) b = concat (map encode_attr as)" .
  have "parseAttrs little (concat (map encode_attr as)) = Some as" using Cons by simp
  moreover have "\<not> length b < 4" "int ?n \<le> int (length b)" unfolding b by (simp_all add: le)
  ultimately have "parseAttrs little b = Some ((t, v) # as)"
    by (subst parseAttrs.simps) (simp add: n ty va rest [simplified] SizeofRtAttr_def nat_add_distrib Let_def)
  then show ?case by (simp only: b_def a)
qed

section \<open>What a dump names\<close>

text \<open>The gateways a route's attributes name: its own, and those of its hops.\<close>

definition names_gateway :: "(char list \<Rightarrow> int) \<Rightarrow> (int \<times> char list) list \<Rightarrow> addr \<Rightarrow> bool" where
  "names_gateway order as ip \<longleftrightarrow>
     (\<exists>t v. (t, v) \<in> set as \<and> is_gateway t \<and> gatewayAddr t v = Some ip) \<or>
     (\<exists>v hops gws. (RTA_MULTIPATH, v) \<in> set as \<and> parseMultipath order v = Some (hops, gws) \<and> ip \<in> set gws)"

lemmas rta_defs = RTA_DST_def RTA_GATEWAY_def rtaVia_def RTA_OIF_def RTA_MULTIPATH_def rtaNHID_def

lemma names_gateway_Cons:
  "names_gateway order ((t, v) # as) ip \<longleftrightarrow>
     (is_gateway t \<and> gatewayAddr t v = Some ip) \<or>
     (t = RTA_MULTIPATH \<and> (\<exists>hops gws. parseMultipath order v = Some (hops, gws) \<and> ip \<in> set gws)) \<or>
     names_gateway order as ip"
  unfolding names_gateway_def by auto

lemma route_attr_gateways:
  assumes "route_attr order t v r = Some r'"
  shows "set (ra_gws r') = set (ra_gws r) \<union> {ip. is_gateway t \<and> gatewayAddr t v = Some ip} \<union>
    {ip. t = RTA_MULTIPATH \<and> (\<exists>hops gws. parseMultipath order v = Some (hops, gws) \<and> ip \<in> set gws)}"
proof (cases "t = RTA_MULTIPATH")
  case True
  then have "\<not> is_gateway t" "t \<noteq> RTA_DST" "t \<noteq> RTA_OIF" by (simp_all add: is_gateway_def rta_defs)
  with True assms show ?thesis by (auto simp: route_attr_def)
next
  case False
  have "\<not> (is_gateway RTA_DST)" by (simp add: is_gateway_def rta_defs)
  with False assms show ?thesis by (auto simp: route_attr_def split: if_splits option.splits)
qed

lemma route_loop_gateways:
  "route_loop order as r = Some r' \<Longrightarrow> set (ra_gws r') = set (ra_gws r) \<union> {ip. names_gateway order as ip}"
proof (induction order as r rule: route_loop.induct)
  case (1 order r)
  then show ?case by (simp add: names_gateway_def)
next
  case (2 order t v as r)
  from "2.prems" obtain r1 where r1: "route_attr order t v r = Some r1" "route_loop order as r1 = Some r'"
    by (auto split: option.splits)
  from "2.IH" [OF r1] route_attr_gateways [OF r1(1)] show ?case by (auto simp: names_gateway_Cons)
qed

lemma single_Contains: "IsValid ip \<Longrightarrow> Zone ip = [] \<Longrightarrow> Contains (single ip) (canonAddr ip)"
  by (cases ip) (auto simp: single_def PrefixFrom_def Contains_def canonAddr_def)

lemma AddrFromSlice_valid: "AddrFromSlice v = Some ip \<Longrightarrow> IsValid ip \<and> Zone ip = []"
  by (auto simp: AddrFromSlice_def split: if_splits)

lemma gatewayAddr_valid: "gatewayAddr t v = Some ip \<Longrightarrow> IsValid ip \<and> Zone ip = []"
  by (auto simp: gatewayAddr_def AddrFromSlice_valid split: if_splits)

lemma attr_gateways_valid: "ip \<in> set (attr_gateways as) \<Longrightarrow> IsValid ip \<and> Zone ip = []"
  by (auto simp: attr_gateways_def List.map_filter_def gatewayAddr_valid split: if_splits)

lemma parseMultipath_valid:
  "parseMultipath order b = Some (hops, gws) \<Longrightarrow> ip \<in> set gws \<Longrightarrow> IsValid ip \<and> Zone ip = []"
proof (induction order b arbitrary: hops gws rule: parseMultipath.induct)
  case (1 order b)
  show ?case
  proof (cases "length b < sizeofRtNexthop")
    case True
    with "1.prems" show ?thesis by (simp add: parseMultipath.simps)
  next
    case False
    let ?n = "order (take 2 b)"
    have n: "\<not> (?n < int sizeofRtNexthop \<or> ?n > int (length b))"
      using "1.prems"(1) False by (subst (asm) parseMultipath.simps) (auto simp: Let_def)
    from "1.prems"(1) False n obtain as hops' gws' where
      as: "parseAttrs order (drop sizeofRtNexthop (take (nat ?n) b)) = Some as" and
      rest: "parseMultipath order (after_item ?n b) = Some (hops', gws')" "gws = attr_gateways as @ gws'"
      by (subst (asm) parseMultipath.simps) (auto simp: Let_def split: option.splits)
    from rest(2) "1.prems"(2) consider "ip \<in> set (attr_gateways as)" | "ip \<in> set gws'" by auto
    then show ?thesis
    proof cases
      case 2
      with "1.IH" [OF False refl n as rest(1)] show ?thesis by blast
    qed (rule attr_gateways_valid)
  qed
qed

lemma names_gateway_valid: "names_gateway order as ip \<Longrightarrow> IsValid ip \<and> Zone ip = []"
  unfolding names_gateway_def using gatewayAddr_valid parseMultipath_valid by blast

text \<open>A route message the loop reads.\<close>

definition is_route :: "netlink_message \<Rightarrow> (int \<times> char list) list \<Rightarrow> bool" where
  "is_route m as \<longleftrightarrow> nm_type m = RTM_NEWROUTE \<and> SizeofRtMsg \<le> length (nm_data m) \<and> nm_attrs m = Some as"

lemma parseRoutes_member:
  "parseRoutes order hardware ms = Some (gateways, inner) \<Longrightarrow> m \<in> set ms \<Longrightarrow> is_route m as \<Longrightarrow>
   \<exists>r. route_loop order as no_attrs = Some r \<and> \<not> (ra_byObj r \<and> ra_oifs r = [] \<and> ra_gws r = []) \<and>
     set (map single (ra_gws r)) \<subseteq> set gateways \<and> set (inner_of hardware (nm_data m) r) \<subseteq> set inner"
proof (induction ms arbitrary: gateways inner)
  case (Cons m' ms)
  show ?case
  proof (cases "nm_type m' = NLMSG_ERROR \<or> nm_type m' \<noteq> RTM_NEWROUTE \<or> length (nm_data m') < SizeofRtMsg")
    case True
    with Cons.prems have "parseRoutes order hardware ms = Some (gateways, inner)" by (auto split: if_splits)
    moreover have "m \<noteq> m'" using True Cons.prems(3) by (auto simp: is_route_def NLMSG_ERROR_def RTM_NEWROUTE_def)
    ultimately show ?thesis using Cons by simp
  next
    case False
    from Cons.prems(1) False obtain as' r' gs ins where
      p: "nm_attrs m' = Some as'" "route_loop order as' no_attrs = Some r'" "\<not> (ra_byObj r' \<and> ra_oifs r' = [] \<and> ra_gws r' = [])"
        "parseRoutes order hardware ms = Some (gs, ins)" "gateways = map single (ra_gws r') @ gs"
        "inner = inner_of hardware (nm_data m') r' @ ins"
      by (auto split: option.splits if_splits)
    show ?thesis
    proof (cases "m = m'")
      case True
      with Cons.prems(3) p show ?thesis by (auto simp: is_route_def)
    next
      case False
      with Cons.prems(2) have "m \<in> set ms" by simp
      from Cons.IH [OF p(4) this Cons.prems(3)] p show ?thesis by auto
    qed
  qed
qed simp

section \<open>The properties\<close>

definition example_attrs :: "(int \<times> char list) list" where
  "example_attrs =
     [(RTA_MULTIPATH, le16 16 @ map char_of [0, 0, 2, 0, 0, 0 :: nat] @
        encode_attr (RTA_GATEWAY, map char_of [192, 168, 0, 1 :: nat]))]"

definition example_route :: netlink_message where
  "example_route =
     \<lparr>nm_type = RTM_NEWROUTE, nm_data = map char_of [2, 0, 0, 0, 254, 0, 0, 1, 0, 0, 0, 0 :: nat],
      nm_attrs = Some example_attrs\<rparr>"

text \<open>Where a route is known to leave: by no interface named, or by one not known to be hardware.\<close>

definition leaves_inside :: "(int \<Rightarrow> bool) \<Rightarrow> netlink_message \<Rightarrow> route_attrs \<Rightarrow> addr \<Rightarrow> bool" where
  "leaves_inside hardware m r a \<longleftrightarrow>
     byte_at (nm_data m) 7 = RTN_UNICAST \<and> IsValid (route_dst (nm_data m) r) \<and>
     (ra_oifs r = [] \<or> list_ex (\<lambda>o'. \<not> hardware o') (ra_oifs r)) \<and>
     Contains (PrefixFrom (Unmap (route_dst (nm_data m) r)) (byte_at (nm_data m) 1)) a"

text \<open>
  No router of the host's is missed. Where the routes are read at all, every gateway that any
  route names, in its own attribute of either family's form or in any hop of a multipath, is an
  address the list of gateways holds, so that \<open>ClassifyLAN\<close> refuses it; and every address of the
  destination of a unicast route that leaves by an interface not known to be hardware, or by none
  that it names, is in the host's own networks.
\<close>

theorem parseRoutes_complete:
  assumes "parseRoutes order hardware ms = Some (gateways, inner)" "m \<in> set ms" "is_route m as"
  shows "(names_gateway order as ip \<longrightarrow> list_ex (\<lambda>p. Contains p (canonAddr ip)) gateways) \<and>
    (\<exists>r. route_loop order as no_attrs = Some r \<and>
      (leaves_inside hardware m r a \<longrightarrow> list_ex (\<lambda>p. Contains p a) inner))"
proof -
  from parseRoutes_member [OF assms] obtain r where r: "route_loop order as no_attrs = Some r"
    "set (map single (ra_gws r)) \<subseteq> set gateways" "set (inner_of hardware (nm_data m) r) \<subseteq> set inner" by blast
  have "list_ex (\<lambda>p. Contains p (canonAddr ip)) gateways" if "names_gateway order as ip"
  proof -
    from route_loop_gateways [OF r(1)] that have "ip \<in> set (ra_gws r)" by blast
    then have "single ip \<in> set gateways" using r(2) by auto
    moreover have "Contains (single ip) (canonAddr ip)" using names_gateway_valid [OF that] single_Contains by blast
    ultimately show ?thesis unfolding list_ex_iff by blast
  qed
  moreover have "list_ex (\<lambda>p. Contains p a) inner" if i: "leaves_inside hardware m r a"
  proof -
    let ?p = "PrefixFrom (Unmap (route_dst (nm_data m) r)) (byte_at (nm_data m) 1)"
    have c: "Contains ?p a" using i by (simp add: leaves_inside_def)
    then have "p_bits ?p \<noteq> None" by (auto simp: Contains_def split: option.splits)
    then have "byte_at (nm_data m) 1 \<le> int (BitLen (Unmap (route_dst (nm_data m) r)))"
      by (auto simp: PrefixFrom_def split: if_splits)
    with i have "Masked ?p \<in> set (inner_of hardware (nm_data m) r)"
      by (auto simp: leaves_inside_def inner_of_def Let_def)
    with r(3) c Contains_Masked show ?thesis unfolding list_ex_iff by blast
  qed
  ultimately show ?thesis using r(1) by auto
qed

theorem parseRoutes_complete_witness:
  "\<exists>gateways inner. parseRoutes little (\<lambda>i. i = 2) [example_route] = Some (gateways, inner) \<and>
    list_ex (\<lambda>p. Contains p (V4 0xC0A80001)) gateways"
proof -
  have some: "parseRoutes little (\<lambda>i. i = 2) [example_route] \<noteq> None" by code_simp
  then obtain gateways inner where p: "parseRoutes little (\<lambda>i. i = 2) [example_route] = Some (gateways, inner)" by fastforce
  have m: "parseMultipath little (snd (hd example_attrs)) = Some ([2], [V4 0xC0A80001])" by code_simp
  have route: "is_route example_route example_attrs" by (simp add: is_route_def example_route_def SizeofRtMsg_def)
  have "(RTA_MULTIPATH, snd (hd example_attrs)) \<in> set example_attrs" by (simp add: example_attrs_def)
  with m have n: "names_gateway little example_attrs (V4 0xC0A80001)"
    unfolding names_gateway_def by (intro disjI2 exI conjI) (assumption, assumption, simp)
  have "canonAddr (V4 0xC0A80001) = V4 0xC0A80001" by (simp add: canonAddr_def)
  with parseRoutes_complete [OF p _ route, of "V4 0xC0A80001"] n p show ?thesis by auto
qed

end
