(* ===== verification/Docker_Json.thy ===== *)
theory Docker_Json
  imports Go_Text "HOL-Library.List_Lexorder"
begin

text \<open>
  A body read, \<open>internal/dockerapi/read.go\<close>: exactly one JSON object, no key twice, nested no
  deeper than it may. The tree it gives is \<open>json\<close>: an object is its members in the order they were
  read, a number is its text.

  The JSON grammar is \<open>encoding/json\<close>'s: \<open>tokens\<close> gives what its decoder's \<open>Token\<close> returns one
  after another, \<open>Bad\<close> where it fails, and nothing at the end. The tree is what the program judges and
  sends on; its encoding is left out.
\<close>

section \<open>Trees\<close>

datatype json =
  JNull
| JBool bool
| JNum string
| JStr string
| JArr "json list"
| JObj "(string \<times> json) list"

type_synonym members = "(string \<times> json) list"

text \<open>An object as a Go map: \<open>m[k] = v\<close> and \<open>delete(m, k)\<close>.\<close>

fun put :: "string \<Rightarrow> 'v \<Rightarrow> (string \<times> 'v) list \<Rightarrow> (string \<times> 'v) list" where
  "put k v [] = [(k, v)]"
| "put k v ((k', v') # m) = (if k' = k then (k, v) # m else (k', v') # put k v m)"

definition del :: "string \<Rightarrow> (string \<times> 'v) list \<Rightarrow> (string \<times> 'v) list" where
  "del k m = filter (\<lambda>p. fst p \<noteq> k) m"

definition sortedKeys :: "(string \<times> 'v) list \<Rightarrow> string list" where
  "sortedKeys m = sort (map fst m)"

lemma map_of_put [simp]: "map_of (put k v m) = (map_of m)(k \<mapsto> v)"
  by (induction m) (auto simp: fun_eq_iff)

lemma map_of_del [simp]: "map_of (del k m) = (map_of m)(k := None)"
  by (induction m) (auto simp: del_def fun_eq_iff)

lemma keys_put [simp]: "fst ` set (put k v m) = insert k (fst ` set m)"
proof (induction m)
  case (Cons p m)
  then show ?case by (cases p; cases "fst p = k") (simp_all add: insert_commute)
qed simp

lemma keys_del: "fst ` set (del k m) = fst ` set m - {k}"
  by (auto simp: del_def image_iff)

lemma distinct_put: "distinct (map fst m) \<Longrightarrow> distinct (map fst (put k v m))"
proof (induction m)
  case (Cons p m)
  then show ?case by (cases p; cases "fst p = k") simp_all
qed simp

lemma distinct_del: "distinct (map fst m) \<Longrightarrow> distinct (map fst (del k m))"
  by (simp add: del_def distinct_map_filter)

lemma set_sortedKeys [simp]: "set (sortedKeys m) = fst ` set m"
  by (simp add: sortedKeys_def)

lemma distinct_sortedKeys: "distinct (map fst m) \<Longrightarrow> distinct (sortedKeys m)"
  by (simp add: sortedKeys_def)

section \<open>Refusals\<close>

abbreviation ReasonUnreadable :: string where "ReasonUnreadable \<equiv> ''body unreadable''"
abbreviation ReasonBody :: string where "ReasonBody \<equiv> ''body not allowed''"
abbreviation ReasonHostIP :: string where "ReasonHostIP \<equiv> ''hostip not allowed''"
abbreviation ReasonQuery :: string where "ReasonQuery \<equiv> ''query not allowed''"

text \<open>A refusal as its client reads it. What is in frisket's own log alone is left out.\<close>

record body_refusal =
  bf_Reason :: string
  bf_Detail :: string

definition refusal_Error :: "body_refusal \<Rightarrow> string" where
  "refusal_Error r = (if bf_Detail r = [] then bf_Reason r else bf_Reason r @ '': '' @ bf_Detail r)"

definition unreadable :: "string \<Rightarrow> body_refusal" where
  "unreadable detail = \<lparr>bf_Reason = ReasonUnreadable, bf_Detail = detail\<rparr>"

section \<open>Reading\<close>

definition MaxDepth :: nat where
  "MaxDepth = 32"

datatype token = Delim char | TStr string | TNum string | TBool bool | TNull | Bad

definition More :: "token list \<Rightarrow> bool" where
  "More ts \<longleftrightarrow> ts \<noteq> [] \<and> hd ts \<noteq> Delim CHR '']'' \<and> hd ts \<noteq> Delim CHR ''}''"

text \<open>What ends a reading or a walk: a refusal, running out of the fuel the recursion is given, or the
  panic of a map's spec with nothing to judge its values. \<open>Token\<close> is the next token, or the error; what
  is read after it is what \<open>ok_then\<close> goes on with.\<close>

datatype failure = Refused_body body_refusal | Out_of_fuel | Nil_node

definition Token :: "token list \<Rightarrow> failure + token \<times> token list" where
  "Token ts = (case ts of [] \<Rightarrow> Inl (Refused_body (unreadable ''not JSON''))
     | t # rest \<Rightarrow> if t = Bad then Inl (Refused_body (unreadable ''not JSON'')) else Inr (t, rest))"

text \<open>A member's key, and a value that is neither an object nor an array.\<close>

definition Key :: "token list \<Rightarrow> failure + string \<times> token list" where
  "Key ts = ok_then (Token ts) (\<lambda>(t, ts). case t of TStr key \<Rightarrow> Inr (key, ts)
     | _ \<Rightarrow> Inl (Refused_body (unreadable ''not JSON'')))"

fun scalar :: "token \<Rightarrow> failure + json" where
  "scalar (TStr s) = Inr (JStr s)"
| "scalar (TNum s) = Inr (JNum s)"
| "scalar (TBool b) = Inr (JBool b)"
| "scalar TNull = Inr JNull"
| "scalar _ = Inl (Refused_body (unreadable ''not JSON''))"

text \<open>The readers of the values that come next, with the depth they are in; the length of what is to
  be read bounds the fuel.\<close>

function (sequential) readValue :: "nat \<Rightarrow> token list \<Rightarrow> nat \<Rightarrow> failure + json \<times> token list"
and readObject :: "nat \<Rightarrow> members \<Rightarrow> token list \<Rightarrow> nat \<Rightarrow> failure + json \<times> token list"
and readArray :: "nat \<Rightarrow> json list \<Rightarrow> token list \<Rightarrow> nat \<Rightarrow> failure + json \<times> token list" where
  "readValue 0 ts depth = Inl Out_of_fuel"
| "readValue (Suc n) ts depth = ok_then (Token ts) (\<lambda>(t, ts).
     if (t = Delim CHR ''{'' \<or> t = Delim CHR ''['') \<and> depth + 1 > MaxDepth
     then Inl (Refused_body (unreadable ''nested too deeply''))
     else if t = Delim CHR ''{'' then readObject n [] ts (depth + 1)
     else if t = Delim CHR ''['' then readArray n [] ts (depth + 1)
     else ok_then (scalar t) (\<lambda>v. Inr (v, ts)))"
| "readObject 0 obj ts depth = Inl Out_of_fuel"
| "readObject (Suc n) obj ts depth =
     (if More ts
      then ok_then (Key ts) (\<lambda>(key, ts).
        if key \<in> fst ` set obj then Inl (Refused_body (unreadable ''a key twice in one object''))
        else ok_then (readValue n ts depth) (\<lambda>(v, ts). readObject n (obj @ [(key, v)]) ts depth))
      else ok_then (Token ts) (\<lambda>(t, ts). Inr (JObj obj, ts)))"
| "readArray 0 arr ts depth = Inl Out_of_fuel"
| "readArray (Suc n) arr ts depth =
     (if More ts
      then ok_then (readValue n ts depth) (\<lambda>(v, ts). readArray n (arr @ [v]) ts depth)
      else ok_then (Token ts) (\<lambda>(t, ts). Inr (JArr arr, ts)))"
  by pat_completeness auto

termination
  by (relation "measure (case_sum fst (case_sum fst fst))") simp_all

definition read_fuel :: "token list \<Rightarrow> nat" where
  "read_fuel ts = 2 * length ts + 2"

definition Read :: "(string \<Rightarrow> token list) \<Rightarrow> string \<Rightarrow> failure + members" where
  "Read tokens body =
     (if prefix [CHR 0xEF, CHR 0xBB, CHR 0xBF] body then Inl (Refused_body (unreadable ''a byte-order mark''))
      else if \<not> ValidString body then Inl (Refused_body (unreadable ''not UTF-8''))
      else
        (case Token (tokens body) of
           Inl e \<Rightarrow> Inl (Refused_body (unreadable ''not a JSON object''))
         | Inr (t, ts) \<Rightarrow>
             if t \<noteq> Delim CHR ''{'' then Inl (Refused_body (unreadable ''not a JSON object''))
             else ok_then (readObject (read_fuel ts) [] ts 1) (\<lambda>(v, ts).
               (case v of
                  JObj obj \<Rightarrow> if ts = [] then Inr obj else Inl (Refused_body (unreadable ''more after the object''))
                | _ \<Rightarrow> Inl (Refused_body (unreadable ''not a JSON object''))))))"

section \<open>What is read\<close>

text \<open>Every object of a tree, and how deep it nests.\<close>

fun no_key_twice :: "json \<Rightarrow> bool" where
  "no_key_twice (JObj m) \<longleftrightarrow> distinct (map fst m) \<and> list_all (\<lambda>p. no_key_twice (snd p)) m"
| "no_key_twice (JArr vs) \<longleftrightarrow> list_all no_key_twice vs"
| "no_key_twice v \<longleftrightarrow> True"

fun depth_within :: "nat \<Rightarrow> json \<Rightarrow> bool" where
  "depth_within d (JObj m) \<longleftrightarrow> 0 < d \<and> list_all (\<lambda>p. depth_within (d - 1) (snd p)) m"
| "depth_within d (JArr vs) \<longleftrightarrow> 0 < d \<and> list_all (depth_within (d - 1)) vs"
| "depth_within d v \<longleftrightarrow> True"

lemma Token_length: "Token ts = Inr (t, ts') \<Longrightarrow> length ts = Suc (length ts')"
  by (auto simp: Token_def split: list.splits if_splits)

lemma Key_length: "Key ts = Inr (key, ts') \<Longrightarrow> length ts = Suc (length ts')"
proof -
  assume k: "Key ts = Inr (key, ts')"
  then obtain t where "Token ts = Inr (t, ts')"
    by (cases "Token ts") (auto simp: Key_def split: token.splits)
  then show ?thesis by (rule Token_length)
qed

lemma never_out_of_fuel: "Token ts \<noteq> Inl Out_of_fuel" "Key ts \<noteq> Inl Out_of_fuel" "scalar t \<noteq> Inl Out_of_fuel"
    apply (cases ts; simp add: Token_def)
   apply (cases ts; auto simp: Key_def Token_def split: token.splits)
  apply (cases t; simp)
  done

text \<open>What a successful reading went through.\<close>

lemma readValue_Inr: "readValue (Suc n) ts depth = Inr (v, ts') \<longleftrightarrow>
    (\<exists>t ts1. Token ts = Inr (t, ts1) \<and>
       (t = Delim CHR ''{'' \<and> depth < MaxDepth \<and> readObject n [] ts1 (Suc depth) = Inr (v, ts') \<or>
        t = Delim CHR ''['' \<and> depth < MaxDepth \<and> readArray n [] ts1 (Suc depth) = Inr (v, ts') \<or>
        scalar t = Inr v \<and> ts1 = ts'))"
proof (cases "Token ts")
  case (Inr p)
  then show ?thesis
    by (cases p; cases "fst p = Delim CHR ''{''"; cases "fst p = Delim CHR ''[''") (auto simp: ok_then_Inr)
qed simp

lemma readObject_Inr: "readObject (Suc n) obj ts depth = Inr (v, ts') \<longleftrightarrow>
    (if More ts
     then \<exists>key ts1 x ts2. Key ts = Inr (key, ts1) \<and> key \<notin> fst ` set obj \<and> readValue n ts1 depth = Inr (x, ts2) \<and>
       readObject n (obj @ [(key, x)]) ts2 depth = Inr (v, ts')
     else (\<exists>t. Token ts = Inr (t, ts')) \<and> v = JObj obj)"
  by (auto simp: ok_then_Inr split_def split: if_splits)

lemma readArray_Inr: "readArray (Suc n) arr ts depth = Inr (v, ts') \<longleftrightarrow>
    (if More ts then \<exists>x ts1. readValue n ts depth = Inr (x, ts1) \<and> readArray n (arr @ [x]) ts1 depth = Inr (v, ts')
     else (\<exists>t. Token ts = Inr (t, ts')) \<and> v = JArr arr)"
  by (auto simp: ok_then_Inr split_def split: if_splits)

lemmas reading = readValue_Inr readObject_Inr readArray_Inr

lemma read_length:
  "(\<forall>ts depth v ts'. readValue n ts depth = Inr (v, ts') \<longrightarrow> length ts' < length ts) \<and>
   (\<forall>obj ts depth v ts'. readObject n obj ts depth = Inr (v, ts') \<longrightarrow> length ts' < length ts) \<and>
   (\<forall>arr ts depth v ts'. readArray n arr ts depth = Inr (v, ts') \<longrightarrow> length ts' < length ts)"
proof (induction n)
  case (Suc n)
  show ?case
    by (intro conjI allI impI; simp only: reading split: if_splits; elim exE conjE disjE)
      (use Suc in \<open>auto dest!: Token_length Key_length; fastforce\<close>)+
qed simp

lemmas readValue_length = conjunct1 [OF read_length, rule_format]

lemma read_enough:
  "(\<forall>ts depth. 2 * length ts + 1 \<le> n \<longrightarrow> readValue n ts depth \<noteq> Inl Out_of_fuel) \<and>
   (\<forall>obj ts depth. 2 * length ts + 2 \<le> n \<longrightarrow> readObject n obj ts depth \<noteq> Inl Out_of_fuel) \<and>
   (\<forall>arr ts depth. 2 * length ts + 2 \<le> n \<longrightarrow> readArray n arr ts depth \<noteq> Inl Out_of_fuel)"
proof (induction n)
  case (Suc n)
  then have v: "2 * length ts + 1 \<le> n \<Longrightarrow> readValue n ts depth \<noteq> Inl Out_of_fuel"
    and o: "2 * length ts + 2 \<le> n \<Longrightarrow> readObject n obj ts depth \<noteq> Inl Out_of_fuel"
    and a: "2 * length ts + 2 \<le> n \<Longrightarrow> readArray n arr ts depth \<noteq> Inl Out_of_fuel" for ts depth obj arr
    by blast+
  have "readValue (Suc n) ts depth \<noteq> Inl Out_of_fuel" if "2 * length ts + 1 \<le> Suc n" for ts depth
  proof (cases "Token ts")
    case (Inr p)
    with that have "2 * length (snd p) + 2 \<le> n" by (cases p) (auto dest!: Token_length)
    with Inr never_out_of_fuel(3) [of "fst p"] show ?thesis
      by (cases p) (auto simp: ok_then_Inl o a)
  qed (use never_out_of_fuel(1) [of ts] in simp)
  moreover have "readObject (Suc n) obj ts depth \<noteq> Inl Out_of_fuel" if "2 * length ts + 2 \<le> Suc n" for obj ts depth
  proof
    assume "readObject (Suc n) obj ts depth = Inl Out_of_fuel"
    then obtain key ts1 where k: "Key ts = Inr (key, ts1)"
      and b: "readValue n ts1 depth = Inl Out_of_fuel \<or>
        (\<exists>x ts2. readValue n ts1 depth = Inr (x, ts2) \<and> readObject n (obj @ [(key, x)]) ts2 depth = Inl Out_of_fuel)"
      by (auto simp: ok_then_Inl never_out_of_fuel split: if_splits)
    from Key_length [OF k] that have l: "2 * length ts1 + 1 \<le> n" by simp
    from b v [OF l] obtain x ts2 where "readValue n ts1 depth = Inr (x, ts2)"
      "readObject n (obj @ [(key, x)]) ts2 depth = Inl Out_of_fuel" by blast
    with readValue_length [OF this(1)] l o show False by simp
  qed
  moreover have "readArray (Suc n) arr ts depth \<noteq> Inl Out_of_fuel" if l: "2 * length ts + 2 \<le> Suc n" for arr ts depth
  proof
    assume "readArray (Suc n) arr ts depth = Inl Out_of_fuel"
    then have b: "readValue n ts depth = Inl Out_of_fuel \<or>
        (\<exists>x ts2. readValue n ts depth = Inr (x, ts2) \<and> readArray n (arr @ [x]) ts2 depth = Inl Out_of_fuel)"
      by (auto simp: ok_then_Inl never_out_of_fuel split: if_splits)
    with v [of ts depth] l obtain x ts2 where "readValue n ts depth = Inr (x, ts2)"
      "readArray n (arr @ [x]) ts2 depth = Inl Out_of_fuel" by auto
    with readValue_length [OF this(1)] l a show False by simp
  qed
  ultimately show ?case by blast
qed simp

lemma readObject_fuel: "readObject (read_fuel ts) obj ts depth \<noteq> Inl Out_of_fuel"
  using read_enough [of "read_fuel ts"] by (simp add: read_fuel_def)

text \<open>A value inside something at \<open>depth\<close> has no key twice, and nests within what is left.\<close>

definition value_ok :: "nat \<Rightarrow> json \<Rightarrow> bool" where
  "value_ok depth v \<longleftrightarrow> no_key_twice v \<and> depth_within (MaxDepth - depth) v"

lemma value_ok_obj:
  "depth < MaxDepth \<Longrightarrow>
   value_ok depth (JObj m) \<longleftrightarrow> distinct (map fst m) \<and> (\<forall>p\<in>set m. value_ok (Suc depth) (snd p))"
  by (auto simp: value_ok_def list_all_iff)

lemma value_ok_arr:
  "depth < MaxDepth \<Longrightarrow> value_ok depth (JArr vs) \<longleftrightarrow> (\<forall>v\<in>set vs. value_ok (Suc depth) v)"
  by (auto simp: value_ok_def list_all_iff)

lemma value_ok_scalar: "scalar t = Inr v \<Longrightarrow> value_ok d v"
  by (cases t) (auto simp: value_ok_def)

lemma read_value_ok:
  "(\<forall>ts depth v ts'. readValue n ts depth = Inr (v, ts') \<longrightarrow> depth \<le> MaxDepth \<longrightarrow> value_ok depth v) \<and>
   (\<forall>obj ts depth v ts'. readObject n obj ts (Suc depth) = Inr (v, ts') \<longrightarrow> depth < MaxDepth \<longrightarrow>
      distinct (map fst obj) \<longrightarrow> (\<forall>p\<in>set obj. value_ok (Suc depth) (snd p)) \<longrightarrow> value_ok depth v) \<and>
   (\<forall>arr ts depth v ts'. readArray n arr ts (Suc depth) = Inr (v, ts') \<longrightarrow> depth < MaxDepth \<longrightarrow>
      (\<forall>x\<in>set arr. value_ok (Suc depth) x) \<longrightarrow> value_ok depth v)"
proof (induction n)
  case (Suc n)
  then have v: "readValue n ts depth = Inr (x, ts') \<Longrightarrow> depth \<le> MaxDepth \<Longrightarrow> value_ok depth x"
    and o: "readObject n obj ts (Suc depth) = Inr (x, ts') \<Longrightarrow> depth < MaxDepth \<Longrightarrow> distinct (map fst obj) \<Longrightarrow>
      (\<And>p. p \<in> set obj \<Longrightarrow> value_ok (Suc depth) (snd p)) \<Longrightarrow> value_ok depth x"
    and a: "readArray n arr ts (Suc depth) = Inr (x, ts') \<Longrightarrow> depth < MaxDepth \<Longrightarrow>
      (\<And>y. y \<in> set arr \<Longrightarrow> value_ok (Suc depth) y) \<Longrightarrow> value_ok depth x" for ts depth obj arr x ts'
    by blast+
  have "value_ok depth x" if r: "readValue (Suc n) ts depth = Inr (x, ts')" for ts depth x ts'
  proof -
    from r [unfolded readValue_Inr] obtain t ts1 where
      "depth < MaxDepth \<and> readObject n [] ts1 (Suc depth) = Inr (x, ts') \<or>
       depth < MaxDepth \<and> readArray n [] ts1 (Suc depth) = Inr (x, ts') \<or> scalar t = Inr x" by blast
    then show ?thesis
      by (elim disjE conjE) (erule (1) o, simp, simp, erule (1) a, simp, erule value_ok_scalar)
  qed
  moreover have "value_ok depth x" if r: "readObject (Suc n) obj ts (Suc depth) = Inr (x, ts')"
    and d: "depth < MaxDepth" and k: "distinct (map fst obj)" "\<forall>p\<in>set obj. value_ok (Suc depth) (snd p)"
    for obj ts depth x ts'
  proof (cases "More ts")
    case True
    with r [unfolded readObject_Inr] obtain key ts1 y ts2 where n: "key \<notin> fst ` set obj"
      "readValue n ts1 (Suc depth) = Inr (y, ts2)" "readObject n (obj @ [(key, y)]) ts2 (Suc depth) = Inr (x, ts')"
      by auto
    with v [OF n(2)] d k show ?thesis by (intro o [OF n(3) d]) auto
  next
    case False
    with r [unfolded readObject_Inr] d k show ?thesis by (simp add: value_ok_obj)
  qed
  moreover have "value_ok depth x" if r: "readArray (Suc n) arr ts (Suc depth) = Inr (x, ts')"
    and d: "depth < MaxDepth" and k: "\<forall>y\<in>set arr. value_ok (Suc depth) y" for arr ts depth x ts'
  proof (cases "More ts")
    case True
    with r [unfolded readArray_Inr] obtain y ts1 where n:
      "readValue n ts (Suc depth) = Inr (y, ts1)" "readArray n (arr @ [y]) ts1 (Suc depth) = Inr (x, ts')"
      by auto
    with v [OF n(1)] d k show ?thesis by (intro a [OF n(2) d]) auto
  next
    case False
    with r [unfolded readArray_Inr] d k show ?thesis by (simp add: value_ok_arr)
  qed
  ultimately show ?case by blast
qed simp

lemmas readObject_ok = read_value_ok [THEN conjunct2, THEN conjunct1, rule_format]

lemma Read_fuel: "Read tokens body \<noteq> Inl Out_of_fuel"
proof (cases "Token (tokens body)")
  case (Inr p)
  then show ?thesis
    by (cases p; cases "readObject (read_fuel (snd p)) [] (snd p) 1")
      (auto simp: Read_def readObject_fuel ok_then_Inl split: json.splits if_splits)
qed (simp add: Read_def)

lemma Read_ok:
  assumes "Read tokens body = Inr m"
  shows "distinct (map fst m)" "list_all (\<lambda>p. no_key_twice (snd p)) m" "depth_within MaxDepth (JObj m)"
proof -
  have "\<exists>n ts ts'. readObject n [] ts (Suc 0) = Inr (JObj m, ts')"
  proof (cases "Token (tokens body)")
    case (Inr p)
    with assms have "\<exists>ts'. readObject (read_fuel (snd p)) [] (snd p) (Suc 0) = Inr (JObj m, ts')"
      by (cases p; cases "readObject (read_fuel (snd p)) [] (snd p) 1")
        (auto simp: Read_def split: if_splits json.splits)
    then show ?thesis by blast
  qed (use assms in \<open>simp add: Read_def split: if_splits\<close>)
  then obtain n ts ts' where r: "readObject n [] ts (Suc 0) = Inr (JObj m, ts')" by blast
  have "value_ok 0 (JObj m)"
    by (rule readObject_ok [OF r]) (simp_all add: MaxDepth_def)
  then show "distinct (map fst m)" "list_all (\<lambda>p. no_key_twice (snd p)) m" "depth_within MaxDepth (JObj m)"
    by (simp_all add: value_ok_def MaxDepth_def)
qed

end
