(* ===== verification/Docker_Image.thy ===== *)
theory Docker_Image
  imports Go_Text
begin

text \<open>
  The images a Docker route may name, \<open>docker/image.go\<close>: references it may list, the repositories
  and namespaces its project builds, and whether a reference a client sends is in one.

  \<open>F\<close> is Unicode's simple folding as a function: a rune to one rune of its class, the same for all
  of them. \<open>strings.EqualFold\<close> is equality of the folded runes.
\<close>

section \<open>Runes\<close>

definition EqualFold :: "(int \<Rightarrow> int) \<Rightarrow> string \<Rightarrow> string \<Rightarrow> bool" where
  "EqualFold F s t \<longleftrightarrow> map F (runes s) = map F (runes t)"

text \<open>The folding of ASCII letters, and of the two runes outside ASCII that fold to one.\<close>

definition latin_fold :: "int \<Rightarrow> int" where
  "latin_fold r = (if 65 \<le> r \<and> r \<le> 90 then r + 32 else if r = 383 then 115 else if r = 8490 then 107 else r)"

lemma EqualFold_refl [simp]: "EqualFold F s s"
  by (simp add: EqualFold_def)

lemma EqualFold_sym: "EqualFold F s t = EqualFold F t s"
  by (auto simp: EqualFold_def)

lemma EqualFold_trans: "EqualFold F s t \<Longrightarrow> EqualFold F t u \<Longrightarrow> EqualFold F s u"
  by (simp add: EqualFold_def)

definition IsSpace :: "int \<Rightarrow> bool" where
  "IsSpace r \<longleftrightarrow> 9 \<le> r \<and> r \<le> 13 \<or> r \<in> {32, 133, 160, 5760, 8232, 8233, 8239, 8287, 12288} \<or> 8192 \<le> r \<and> r \<le> 8202"

definition IsControl :: "int \<Rightarrow> bool" where
  "IsControl r \<longleftrightarrow> 0 \<le> r \<and> r \<le> 31 \<or> 127 \<le> r \<and> r \<le> 159"

definition spaced :: "string \<Rightarrow> bool" where
  "spaced s \<longleftrightarrow> list_ex (\<lambda>r. IsSpace r \<or> IsControl r) (runes s)"

section \<open>References\<close>

definition lower_hex :: "char \<Rightarrow> bool" where
  "lower_hex c \<longleftrightarrow> between CHR ''0'' c CHR ''9'' \<or> between CHR ''a'' c CHR ''f''"

definition any_hex :: "char \<Rightarrow> bool" where
  "any_hex c \<longleftrightarrow> lower_hex c \<or> between CHR ''A'' c CHR ''F''"

definition digestRE :: "string \<Rightarrow> bool" where
  "digestRE s \<longleftrightarrow>
     (case CutPrefix s ''sha256:'' of None \<Rightarrow> False | Some h \<Rightarrow> length h = 64 \<and> list_all lower_hex h)"

definition hex64RE :: "string \<Rightarrow> bool" where
  "hex64RE s \<longleftrightarrow> length s = 64 \<and> list_all any_hex s"

definition shortHexRE :: "string \<Rightarrow> bool" where
  "shortHexRE s \<longleftrightarrow> s \<noteq> [] \<and> list_all any_hex s"

definition registries :: "string list" where
  "registries =
     [''docker.io'', ''registry-1.docker.io'', ''ghcr.io'', ''quay.io'', ''gcr.io'', ''mcr.microsoft.com'',
      ''public.ecr.aws'', ''registry.k8s.io'']"

definition registrySuffixes :: "string list" where
  "registrySuffixes = [''.gcr.io'', ''-docker.pkg.dev'']"

definition dnsLabel :: "string \<Rightarrow> bool" where
  "dnsLabel s \<longleftrightarrow>
     \<not> (length s > 63 \<or> hd s = CHR ''-'' \<or> last s = CHR ''-'') \<and>
     list_all (\<lambda>c. between CHR ''a'' c CHR ''z'' \<or> between CHR ''0'' c CHR ''9'' \<or> c = CHR ''-'') s"

definition knownRegistry :: "string \<Rightarrow> bool" where
  "knownRegistry host \<longleftrightarrow>
     host \<in> set registries \<or>
     list_ex (\<lambda>s. case CutSuffix host s of None \<Rightarrow> False | Some label \<Rightarrow> label \<noteq> [] \<and> dnsLabel label) registrySuffixes"

definition isDomain :: "unicode \<Rightarrow> string \<Rightarrow> bool" where
  "isDomain U first \<longleftrightarrow>
     CHR ''.'' \<in> set first \<or> CHR '':'' \<in> set first \<or> first = ''localhost'' \<or> ToLower U first \<noteq> first"

text \<open>What is after the last slash.\<close>

definition last_part :: "string \<Rightarrow> string" where
  "last_part s = last (Split CHR ''/'' s)"

definition Tagged :: "string \<Rightarrow> bool" where
  "Tagged ref \<longleftrightarrow> (CHR '':'' \<in> set (last_part ref) \<or> CHR ''@'' \<in> set (last_part ref))"

datatype image_error =
  EmptyImage | SpacedImage | EmptyComponent | ImageID | UnknownRegistry | Untagged | BadDigest | EmptyNameOrTag

definition names_id :: "(int \<Rightarrow> int) \<Rightarrow> string \<Rightarrow> bool" where
  "names_id F p \<longleftrightarrow>
     (let name = fst (Cut CHR '':'' (fst (Cut CHR ''@'' p))) in EqualFold F name ''sha256'' \<or> hex64RE name)"

definition ValidImage :: "unicode \<Rightarrow> (int \<Rightarrow> int) \<Rightarrow> string \<Rightarrow> image_error option" where
  "ValidImage U F ref =
     (let parts = Split CHR ''/'' ref in
      if ref = [] then Some EmptyImage
      else if spaced ref then Some SpacedImage
      else if [] \<in> set parts then Some EmptyComponent
      else if list_ex (names_id F) parts then Some ImageID
      else if length parts > 1 \<and> isDomain U (hd parts) \<and> \<not> knownRegistry (hd parts) then Some UnknownRegistry
      else if \<not> Tagged ref then Some Untagged
      else
        (case Cut CHR ''@'' (last parts) of
           (name, Some digest) \<Rightarrow>
             if \<not> digestRE digest then Some BadDigest
             else (case Cut CHR '':'' name of
                 (n, Some tag) \<Rightarrow> if n = [] \<or> tag = [] then Some EmptyNameOrTag else None
               | _ \<Rightarrow> None)
         | (name, None) \<Rightarrow>
             (case Cut CHR '':'' (last parts) of
                 (n, Some tag) \<Rightarrow> if n = [] \<or> tag = [] then Some EmptyNameOrTag else None
               | _ \<Rightarrow> None)))"

datatype build_error = EmptyBuild | SpacedBuild | EmptyBuildComponent | BuildID | BuildTag

text \<open>The loop over a build's components; \<open>i\<close> is whether one came before.\<close>

fun build_parts :: "(int \<Rightarrow> int) \<Rightarrow> bool \<Rightarrow> string list \<Rightarrow> build_error option" where
  "build_parts F i [] = None"
| "build_parts F i (p # ps) =
     (if p = [] then Some EmptyBuildComponent
      else if EqualFold F p ''sha256'' \<or> hex64RE p then Some BuildID
      else if CHR ''@'' \<in> set p \<or> i \<and> CHR '':'' \<in> set p then Some BuildTag
      else build_parts F True ps)"

definition ValidBuild :: "(int \<Rightarrow> int) \<Rightarrow> string \<Rightarrow> build_error option" where
  "ValidBuild F build =
     (if build = [] then Some EmptyBuild
      else if spaced build then Some SpacedBuild
      else build_parts F False (Split CHR ''/'' (TrimSuffix build ''/'')))"

text \<open>A reference without the tag or digest of its last component.\<close>

definition repository :: "string \<Rightarrow> string" where
  "repository ref =
     (let parts = Split CHR ''/'' ref in
      Join CHR ''/'' (butlast parts @ [fst (Cut CHR '':'' (fst (Cut CHR ''@'' (last parts))))]))"

definition Built :: "(int \<Rightarrow> int) \<Rightarrow> string \<Rightarrow> string list \<Rightarrow> bool" where
  "Built F ref builds =
     (if ref = [] \<or> builds = [] then False
      else
        let repo = repository ref in
        if list_ex (\<lambda>p. p = [] \<or> EqualFold F p ''sha256'' \<or> hex64RE p) (Split CHR ''/'' repo) then False
        else if repo = ref \<and> shortHexRE ref then False
        else list_ex (\<lambda>b. repo = b \<or> suffix ''/'' b \<and> prefix b repo) builds)"

section \<open>What a reference in a build is\<close>

lemma Built_repository:
  assumes "Built F ref builds"
  shows "\<exists>b\<in>set builds. repository ref = b \<or> suffix ''/'' b \<and> prefix b (repository ref)"
  using assms by (auto simp: Built_def Let_def list_ex_iff split: if_splits)

end
