(* ===== verification/Docker_Table.thy ===== *)
theory Docker_Table
  imports Docker_Json Docker_Image
begin

text \<open>
  The body tables, \<open>internal/dockerapi/table.go\<close>: a flat table compiled into a tree of specs, and
  frisket's floor for the operation it is named for, which no table may loosen.

  A table's own errors are told apart by constructor; their text is left out.
\<close>

section \<open>Specs\<close>

datatype kind =
  kStruct | kMap | kAny | kZero | kNull | kImage | kLabels | kObjectName | kBinds | kMounts | kNetwork
| kPortBindings | kEnum

datatype keyCheck = keyAbsPath | keyPort | keyNetwork

definition kindNames :: "(string \<times> kind) list" where
  "kindNames =
     [(''struct'', kStruct), (''any'', kAny), (''zero'', kZero), (''null'', kNull), (''image'', kImage),
      (''labels'', kLabels), (''objectName'', kObjectName), (''binds'', kBinds), (''mounts'', kMounts),
      (''network'', kNetwork), (''portBindings'', kPortBindings)]"

definition keyChecks :: "(string \<times> keyCheck) list" where
  "keyChecks = [(''absPath'', keyAbsPath), (''port'', keyPort), (''network'', keyNetwork)]"

text \<open>One path of a table. The program's nodes point to their children and are never shared.\<close>

datatype node = Node
  (n_kind: kind) (n_key: keyCheck) (n_enum: "json list") (n_children: "(string \<times> node) list")
  (n_elem: "node option") (n_path: string)

definition leaf_node :: "kind \<Rightarrow> node" where
  "leaf_node k = Node k keyAbsPath [] [] None []"

definition required :: "node \<Rightarrow> bool" where
  "required n \<longleftrightarrow> n_kind n = kImage \<or> n_kind n = kNetwork"

record table =
  t_name :: string
  t_root :: node

datatype spec_error =
  NoTable | Unread | NoParent | NoSpec | NotEnum | NotScalar | NotSpec | NotName | OtherCase | NotStar
| NoFields | NoElem | Missing | NotDown | NotWithin | NotAllowed

fun scalar_json :: "json \<Rightarrow> bool" where
  "scalar_json (JArr _) = False"
| "scalar_json (JObj _) = False"
| "scalar_json _ = True"

fun parseSpec :: "json \<Rightarrow> spec_error + node" where
  "parseSpec (JStr s) =
     (case map_of kindNames s of
        Some k \<Rightarrow> Inr (leaf_node k)
      | None \<Rightarrow>
          (case CutPrefix s ''map/'' of
             None \<Rightarrow> Inl NoSpec
           | Some check \<Rightarrow>
               (case map_of keyChecks check of
                  Some key \<Rightarrow> Inr (Node kMap key [] [] None [])
                | None \<Rightarrow> Inl NoSpec)))"
| "parseSpec (JObj s) =
     (case map_of s ''enum'' of
        Some (JArr values) \<Rightarrow>
          if length s \<noteq> 1 then Inl NotEnum
          else if \<not> list_all scalar_json values then Inl NotScalar
          else Inr (Node kEnum keyAbsPath values [] None [])
      | _ \<Rightarrow> Inl NotEnum)"
| "parseSpec _ = Inl NotSpec"

section \<open>Compiling\<close>

definition child :: "node \<Rightarrow> string \<Rightarrow> node option" where
  "child n seg =
     (case n_kind n of
        kStruct \<Rightarrow> map_of (n_children n) seg
      | kMap \<Rightarrow> if seg = ''*'' then n_elem n else None
      | _ \<Rightarrow> None)"

text \<open>What a write through the pointer to a child leaves in its parent.\<close>

definition with_child :: "node \<Rightarrow> string \<Rightarrow> node \<Rightarrow> node" where
  "with_child n seg c =
     (if n_kind n = kStruct
      then Node (n_kind n) (n_key n) (n_enum n) (put seg c (n_children n)) (n_elem n) (n_path n)
      else Node (n_kind n) (n_key n) (n_enum n) (n_children n) (Some c) (n_path n))"

definition at_path :: "string \<Rightarrow> node \<Rightarrow> node" where
  "at_path p n = Node (n_kind n) (n_key n) (n_enum n) (n_children n) (n_elem n) p"

definition place_last :: "(int \<Rightarrow> int) \<Rightarrow> node \<Rightarrow> string \<Rightarrow> node \<Rightarrow> spec_error + node" where
  "place_last F parent seg n =
     (case n_kind parent of
        kStruct \<Rightarrow>
          if seg = [] \<or> seg = ''*'' then Inl NotName
          else if list_ex (\<lambda>sib. EqualFold F (fst sib) seg) (n_children parent) then Inl OtherCase
          else Inr (with_child parent seg n)
      | kMap \<Rightarrow> if seg \<noteq> ''*'' then Inl NotStar else Inr (with_child parent seg n)
      | _ \<Rightarrow> Inl NoFields)"

text \<open>\<open>place\<close>: down the ancestors of \<open>p\<close>, and the spec at the end.\<close>

fun place_under :: "(int \<Rightarrow> int) \<Rightarrow> node \<Rightarrow> string list \<Rightarrow> string \<Rightarrow> json \<Rightarrow> spec_error + node" where
  "place_under F parent [] p spec = Inl NotName"
| "place_under F parent [seg] p spec = ok_then (parseSpec spec) (\<lambda>n. place_last F parent seg (at_path p n))"
| "place_under F parent (seg # segs) p spec =
     (case child parent seg of
        None \<Rightarrow> Inl NoParent
      | Some c \<Rightarrow> ok_then (place_under F c segs p spec) (\<lambda>c. Inr (with_child parent seg c)))"

definition place :: "(int \<Rightarrow> int) \<Rightarrow> node \<Rightarrow> string \<Rightarrow> json \<Rightarrow> spec_error + node" where
  "place F root p spec = place_under F root (Split CHR ''.'' p) p spec"

fun place_all :: "(int \<Rightarrow> int) \<Rightarrow> members \<Rightarrow> string list \<Rightarrow> node \<Rightarrow> spec_error + node" where
  "place_all F entries [] root = Inr root"
| "place_all F entries (p # ps) root =
     ok_then (place F root p (the (map_of entries p))) (place_all F entries ps)"

text \<open>A map with no \<open>*\<close> says nothing of its values.\<close>

fun complete :: "node \<Rightarrow> bool" where
  "complete (Node k key enum children elem p) \<longleftrightarrow>
     (case k of
        kStruct \<Rightarrow> list_all (\<lambda>c. complete (snd c)) children
      | kMap \<Rightarrow> (case elem of None \<Rightarrow> False | Some n \<Rightarrow> complete n)
      | _ \<Rightarrow> True)"

section \<open>The floor\<close>

record floorRule =
  fr_path :: string
  fr_allowed :: "kind list"
  fr_values :: "string list"
  fr_required :: bool
  fr_key :: keyCheck

text \<open>The walk of a rule's path down a table: where it ends, unless nothing is there.\<close>

fun walk_to :: "(int \<Rightarrow> int) \<Rightarrow> node \<Rightarrow> string list \<Rightarrow> spec_error + node option" where
  "walk_to F n [] = Inr (Some n)"
| "walk_to F n (seg # segs) =
     (if n_kind n = kZero \<or> n_kind n = kNull then Inr None
      else if n_kind n = kStruct \<and> seg \<noteq> ''*'' then
        (if list_ex (\<lambda>c. fst c \<noteq> seg \<and> EqualFold F (fst c) seg) (n_children n) then Inl OtherCase
         else (case map_of (n_children n) seg of None \<Rightarrow> Inr None | Some c \<Rightarrow> walk_to F c segs))
      else if n_kind n = kMap \<and> seg = ''*'' then
        (case n_elem n of None \<Rightarrow> Inr None | Some c \<Rightarrow> walk_to F c segs)
      else Inl NotDown)"

definition missing :: "floorRule \<Rightarrow> spec_error option" where
  "missing r = (if fr_required r then Some Missing else None)"

definition check :: "(int \<Rightarrow> int) \<Rightarrow> floorRule \<Rightarrow> node \<Rightarrow> spec_error option" where
  "check F r root =
     (case walk_to F root (Split CHR ''.'' (fr_path r)) of
        Inl e \<Rightarrow> Some e
      | Inr None \<Rightarrow> missing r
      | Inr (Some n) \<Rightarrow>
          if fr_values r \<noteq> [] then
            (if n_kind n \<noteq> kEnum then Some NotWithin
             else if list_all (\<lambda>v. case v of JStr s \<Rightarrow> s \<in> set (fr_values r) | _ \<Rightarrow> False) (n_enum n) then None
             else Some NotWithin)
          else if n_kind n \<notin> set (fr_allowed r) \<or> n_kind n = kMap \<and> n_key n \<noteq> fr_key r then Some NotAllowed
          else None)"

definition zeroAt :: "string \<Rightarrow> floorRule" where
  "zeroAt path = \<lparr>fr_path = path, fr_allowed = [kZero, kNull], fr_values = [], fr_required = False, fr_key = keyAbsPath\<rparr>"

definition exactly :: "string \<Rightarrow> kind \<Rightarrow> floorRule" where
  "exactly path k = \<lparr>fr_path = path, fr_allowed = [k], fr_values = [], fr_required = False, fr_key = keyAbsPath\<rparr>"

definition orZero :: "string \<Rightarrow> kind \<Rightarrow> floorRule" where
  "orZero path k =
     \<lparr>fr_path = path, fr_allowed = [k, kZero, kNull], fr_values = [], fr_required = False, fr_key = keyAbsPath\<rparr>"

definition enumAt :: "string \<Rightarrow> string list \<Rightarrow> floorRule" where
  "enumAt path vs = \<lparr>fr_path = path, fr_allowed = [], fr_values = vs, fr_required = False, fr_key = keyAbsPath\<rparr>"

definition hostconfig_zero :: "string list" where
  "hostconfig_zero =
     [''PublishAllPorts'', ''VolumeDriver'', ''VolumesFrom'', ''Privileged'', ''CapAdd'', ''SecurityOpt'',
      ''Devices'', ''DeviceRequests'', ''DeviceCgroupRules'', ''PidMode'', ''IpcMode'', ''UTSMode'',
      ''UsernsMode'', ''CgroupnsMode'', ''Cgroup'', ''CgroupParent'', ''Runtime'', ''Sysctls'',
      ''Annotations'', ''Links'', ''StorageOpt'', ''Isolation'', ''ExtraHosts'', ''Dns'', ''DnsOptions'',
      ''DnsSearch'', ''ContainerIDFile'']"

definition endpoint_zero :: "string list" where
  "endpoint_zero =
     [''IPAMConfig'', ''Links'', ''DriverOpts'', ''MacAddress'', ''IPAddress'', ''NetworkID'', ''EndpointID'']"

definition containerFloor :: "floorRule list" where
  "containerFloor =
     [(exactly ''Image'' kImage)\<lparr>fr_required := True\<rparr>,
      (exactly ''HostConfig.NetworkMode'' kNetwork)\<lparr>fr_required := True\<rparr>,
      exactly ''Labels'' kLabels,
      orZero ''HostConfig.Binds'' kBinds,
      orZero ''HostConfig.Mounts'' kMounts,
      orZero ''HostConfig.PortBindings'' kPortBindings,
      (orZero ''NetworkingConfig.EndpointsConfig'' kMap)\<lparr>fr_key := keyNetwork\<rparr>,
      exactly ''HostConfig.MaskedPaths'' kNull,
      exactly ''HostConfig.ReadonlyPaths'' kNull,
      zeroAt ''HostConfig.Tmpfs.*'',
      enumAt ''HostConfig.LogConfig.Type'' ['''', ''json-file'', ''local''],
      zeroAt ''HostConfig.LogConfig.Config'',
      enumAt ''HostConfig.RestartPolicy.Name'' ['''', ''no'', ''on-failure'']] @
     map (\<lambda>p. zeroAt (''HostConfig.'' @ p)) hostconfig_zero @
     map (\<lambda>p. zeroAt (''NetworkingConfig.EndpointsConfig.*.'' @ p)) endpoint_zero"

definition floors :: "(string \<times> floorRule list) list" where
  "floors =
     [(''ContainerCreate'', containerFloor),
      (''ExecCreate'', [zeroAt ''Privileged'']),
      (''ExecStart'', []),
      (''VolumeCreate'',
        [enumAt ''Driver'' ['''', ''local''], zeroAt ''DriverOpts'', zeroAt ''ClusterVolumeSpec'',
         exactly ''Labels'' kLabels, exactly ''Name'' kObjectName]),
      (''NetworkCreate'',
        [enumAt ''Driver'' ['''', ''bridge''], zeroAt ''Options'', zeroAt ''IPAM'', zeroAt ''ConfigFrom'',
         zeroAt ''ConfigOnly'', zeroAt ''Ingress'', exactly ''Labels'' kLabels, exactly ''Name'' kObjectName])]"

fun check_all :: "(int \<Rightarrow> int) \<Rightarrow> floorRule list \<Rightarrow> node \<Rightarrow> spec_error option" where
  "check_all F [] root = None"
| "check_all F (r # rs) root = (case check F r root of None \<Rightarrow> check_all F rs root | Some e \<Rightarrow> Some e)"

text \<open>The paths, fewer segments first and then by name: a parent before its children.\<close>

definition by_depth :: "string list \<Rightarrow> string list" where
  "by_depth paths = sort_key (\<lambda>p. count_list p CHR ''.'') (sort paths)"

definition Compile :: "(int \<Rightarrow> int) \<Rightarrow> (string \<Rightarrow> token list) \<Rightarrow> string \<Rightarrow> string \<Rightarrow> spec_error + table" where
  "Compile F tokens name raw =
     (case map_of floors name of
        None \<Rightarrow> Inl NoTable
      | Some f \<Rightarrow>
          (case Read tokens raw of
             Inl e \<Rightarrow> Inl Unread
           | Inr entries \<Rightarrow>
               ok_then (place_all F entries (by_depth (map fst entries)) (leaf_node kStruct)) (\<lambda>root.
                 if \<not> complete root then Inl NoElem
                 else (case check_all F f root of
                     Some e \<Rightarrow> Inl e
                   | None \<Rightarrow> Inr \<lparr>t_name = name, t_root = root\<rparr>))))"

end
