(* ===== verification/Docker_Values.thy ===== *)
theory Docker_Values
  imports Docker_Table Net_Addr
begin

text \<open>
  What the walk of a body works with, \<open>internal/dockerapi/walk.go\<close>: the route a table is judged against,
  what is handed back beside the body, and the checks of single values, names and numbers.

  A place in the tree that names a network is the path of keys to its object, where the program keeps a
  pointer to that object.
\<close>

section \<open>What a table is judged against\<close>

text \<open>What is not the program's own: Unicode's tables, how an address prints, Go's quoting of a string,
  and the tokens of a text.\<close>

record lib =
  folding :: "int \<Rightarrow> int"
  casing :: unicode
  printed :: "addr \<Rightarrow> string"
  quoted :: "string \<Rightarrow> string"
  tokens :: "string \<Rightarrow> token list"

record route =
  rt_Project :: string
  rt_Address :: addr
  rt_Ports :: "16 word list"
  rt_Images :: "string list"
  rt_Builds :: "string list"

datatype use = Bind | Mount | Attach | Create

record lookup =
  lk_Kind :: string
  lk_Name :: string
  lk_Use :: use

record slot =
  sl_path :: "string list"
  sl_key :: string
  sl_isKey :: bool

record walker =
  wk_lookups :: "lookup list"
  wk_account :: "string list"
  wk_attached :: "slot list"

record checked =
  ck_tree :: members
  ck_Lookups :: "lookup list"
  ck_Account :: "string list"
  ck_attached :: "slot list"

abbreviation LabelKey :: string where "LabelKey \<equiv> ''frisket.project''"

section \<open>Log keys\<close>

abbreviation maxQuoted :: nat where "maxQuoted \<equiv> 128"

definition RuneStart :: "char \<Rightarrow> bool" where
  "RuneStart c \<longleftrightarrow> \<not> (128 \<le> byte c \<and> byte c < 192)"

text \<open>The last rune boundary at \<open>n\<close> or before.\<close>

fun boundary :: "string \<Rightarrow> nat \<Rightarrow> nat" where
  "boundary s 0 = 0"
| "boundary s (Suc n) = (if RuneStart (s ! Suc n) then Suc n else boundary s n)"

definition clip :: "string \<Rightarrow> string" where
  "clip s = (if length s \<le> maxQuoted then s else take (boundary s maxQuoted) s)"

definition quote :: "lib \<Rightarrow> string \<Rightarrow> string" where
  "quote L s = quoted L (clip s)"

definition plain_key :: "char \<Rightarrow> bool" where
  "plain_key c \<longleftrightarrow> between CHR ''a'' c CHR ''z'' \<or> between CHR ''A'' c CHR ''Z'' \<or> between CHR ''0'' c CHR ''9'' \<or>
     c \<in> {CHR ''_'', CHR ''-'', CHR ''/''}"

definition logKey :: "lib \<Rightarrow> string \<Rightarrow> string" where
  "logKey L s =
     (if s = [] \<or> length s > maxQuoted then quote L s
      else if list_all plain_key s then s
      else quote L s)"

section \<open>Names, paths, ports and zeros\<close>

definition alnum :: "char \<Rightarrow> bool" where
  "alnum c \<longleftrightarrow> between CHR ''a'' c CHR ''z'' \<or> between CHR ''A'' c CHR ''Z'' \<or> between CHR ''0'' c CHR ''9''"

definition nameRE :: "string \<Rightarrow> bool" where
  "nameRE s \<longleftrightarrow> s \<noteq> [] \<and> alnum (hd s) \<and> length s \<le> 255 \<and>
     list_all (\<lambda>c. alnum c \<or> c \<in> {CHR ''_'', CHR ''.'', CHR ''-''}) (tl s)"

definition allHex :: "string \<Rightarrow> bool" where
  "allHex s \<longleftrightarrow> s \<noteq> [] \<and> list_all lower_hex s"

definition anonVol :: "string \<Rightarrow> bool" where
  "anonVol s \<longleftrightarrow> length s = 64 \<and> list_all lower_hex s"

definition objectName :: "string \<Rightarrow> bool" where
  "objectName s \<longleftrightarrow> nameRE s \<and> \<not> allHex s"

abbreviation maxPath :: nat where "maxPath \<equiv> 4096"

definition absPath :: "string \<Rightarrow> bool" where
  "absPath s \<longleftrightarrow> prefix ''/'' s \<and> length s \<le> maxPath \<and> CHR '':'' \<notin> set s \<and> CHR 0x00 \<notin> set s"

definition bindMode :: "string \<Rightarrow> bool" where
  "bindMode s \<longleftrightarrow> s = ''rw'' \<or> s = ''ro''"

definition hostPort :: "string \<Rightarrow> bool" where
  "hostPort s \<longleftrightarrow> s \<noteq> [] \<and> between CHR ''1'' (hd s) CHR ''9'' \<and> length s \<le> 5 \<and>
     list_all (\<lambda>c. between CHR ''0'' c CHR ''9'') (tl s)"

text \<open>A number's value, from its digits.\<close>

definition decimal :: "string \<Rightarrow> int" where
  "decimal s = foldl (\<lambda>n c. 10 * n + (byte c - 48)) 0 s"

definition portKey :: "string \<Rightarrow> bool" where
  "portKey s \<longleftrightarrow>
     (case Cut CHR ''/'' s of
        (p, proto) \<Rightarrow> hostPort p \<and>
          (case proto of None \<Rightarrow> True | Some x \<Rightarrow> x = ''tcp'' \<or> x = ''udp'' \<or> x = ''sctp'') \<and> decimal p \<le> 65535)"

definition listed :: "route \<Rightarrow> string \<Rightarrow> bool" where
  "listed rt hp \<longleftrightarrow> decimal hp \<le> 65535 \<and> word_of_int (decimal hp) \<in> set (rt_Ports rt)"

definition zeroNumber :: "string \<Rightarrow> bool" where
  "zeroNumber s =
     (let digits = (case CutPrefix s ''-'' of None \<Rightarrow> s | Some r \<Rightarrow> r);
          mantissa = takeWhile (\<lambda>c. c \<noteq> CHR ''e'' \<and> c \<noteq> CHR ''E'') digits
      in TrimRight (TrimLeft mantissa ''0.'') ''0.'' = [])"

fun zero :: "json \<Rightarrow> bool" where
  "zero JNull = True"
| "zero (JStr s) = (s = [])"
| "zero (JBool b) = (\<not> b)"
| "zero (JNum x) = zeroNumber x"
| "zero (JArr xs) = (xs = [])"
| "zero (JObj m) = (m = [])"

fun sameScalar :: "json \<Rightarrow> json \<Rightarrow> bool" where
  "sameScalar JNull b = (b = JNull)"
| "sameScalar (JStr x) b = (b = JStr x)"
| "sameScalar (JBool x) b = (b = JBool x)"
| "sameScalar (JNum x) b = (b = JNum x)"
| "sameScalar _ b = False"

definition member :: "members \<Rightarrow> string \<Rightarrow> json" where
  "member m k = (case map_of m k of None \<Rightarrow> JNull | Some v \<Rightarrow> v)"

fun onlyKeys :: "json \<Rightarrow> (string \<times> (json \<Rightarrow> bool)) list \<Rightarrow> bool" where
  "onlyKeys JNull allowed = True"
| "onlyKeys (JObj m) allowed =
     list_all (\<lambda>(k, x). case map_of allowed k of None \<Rightarrow> False | Some ok \<Rightarrow> ok x) m"
| "onlyKeys _ allowed = False"

fun isBoolOrNull :: "json \<Rightarrow> bool" where
  "isBoolOrNull (JBool b) = True"
| "isBoolOrNull v = (v = JNull)"

fun isNumberOrNull :: "json \<Rightarrow> bool" where
  "isNumberOrNull (JNum b) = True"
| "isNumberOrNull v = (v = JNull)"

text \<open>A project's own network.\<close>

fun slash_once :: "string \<Rightarrow> string" where
  "slash_once [] = []"
| "slash_once (c # cs) = (if c = CHR ''/'' then CHR ''_'' # cs else c # slash_once cs)"

definition DefaultNetwork :: "string \<Rightarrow> string" where
  "DefaultNetwork project = ''frisket_'' @ slash_once project"

end
