(* ===== verification/Docker_Walk.thy ===== *)
theory Docker_Walk
  imports Docker_Values
begin

text \<open>
  A body judged against its table, \<open>internal/dockerapi/walk.go\<close>: the walk of the tree and what it
  rewrites, the stamp, and the rewriting of network names to the IDs the daemon gave.

  The program changes the tree in place; here every step returns the tree it leaves.
\<close>

section \<open>Steps\<close>

text \<open>A loop with early return: a step for every element, until one refuses.\<close>

fun each :: "('x \<Rightarrow> 's \<Rightarrow> 'e + 's) \<Rightarrow> 'x list \<Rightarrow> 's \<Rightarrow> 'e + 's" where
  "each f [] s = Inr s"
| "each f (x # xs) s = ok_then (f x s) (each f xs)"

lemma each_cong [fundef_cong]:
  "xs = ys \<Longrightarrow> s = t \<Longrightarrow> (\<And>x s. x \<in> set ys \<Longrightarrow> f x s = g x s) \<Longrightarrow> each f xs s = each g ys t"
proof (induction xs arbitrary: ys s t)
  case (Cons x xs)
  then show ?case by (cases "g x t") auto
qed simp

lemma each_Cons: "each f (x # xs) s = Inr s' \<longleftrightarrow> (\<exists>t. f x s = Inr t \<and> each f xs t = Inr s')"
  by (simp add: ok_then_Inr)

text \<open>What every step keeps, the loop keeps; what a step establishes for its element, and every
  later step keeps, holds of every element.\<close>

lemma each_keeps:
  assumes "each f xs s = Inr s'" "I s" "\<And>x s s'. x \<in> set xs \<Longrightarrow> I s \<Longrightarrow> f x s = Inr s' \<Longrightarrow> I s'"
  shows "I s'"
  using assms
proof (induction xs arbitrary: s)
  case (Cons x xs)
  from Cons.prems(1) obtain t where t: "f x s = Inr t" "each f xs t = Inr s'" by (auto simp: ok_then_Inr)
  have "x \<in> set (x # xs)" and sub: "\<And>z. z \<in> set xs \<Longrightarrow> z \<in> set (x # xs)" by simp_all
  then have "I t" using Cons.prems(3) [OF _ Cons.prems(2) t(1)] by blast
  then show ?case by (rule Cons.IH [OF t(2)]) (erule Cons.prems(3) [OF sub])
qed simp

lemma each_all:
  assumes "each f xs s = Inr s'" "I s"
    and "\<And>x s s'. x \<in> set xs \<Longrightarrow> I s \<Longrightarrow> f x s = Inr s' \<Longrightarrow> I s' \<and> P x s'"
    and "\<And>x y s s'. x \<in> set xs \<Longrightarrow> y \<in> set xs \<Longrightarrow> I s \<Longrightarrow> P y s \<Longrightarrow> f x s = Inr s' \<Longrightarrow> P y s'"
    and "x \<in> set xs"
  shows "P x s'"
  using assms
proof (induction xs arbitrary: s)
  case (Cons y ys)
  from Cons.prems(1) obtain t where t: "f y s = Inr t" "each f ys t = Inr s'" by (auto simp: ok_then_Inr)
  have y: "y \<in> set (y # ys)" and sub: "\<And>z. z \<in> set ys \<Longrightarrow> z \<in> set (y # ys)" by simp_all
  note i = Cons.prems(3) [OF y Cons.prems(2) t(1)]
  show ?case
  proof (cases "x \<in> set ys")
    case True
    show ?thesis
      by (rule Cons.IH [OF t(2) conjunct1 [OF i] Cons.prems(3) Cons.prems(4) True]) (erule sub | assumption)+
  next
    case False
    with Cons.prems(5) have x: "x = y" by simp
    have "I s' \<and> P y s'"
    proof (rule each_keeps [where I = "\<lambda>s. I s \<and> P y s", OF t(2) i])
      fix z s1 s2
      assume z: "z \<in> set ys" and h: "I s1 \<and> P y s1" and f: "f z s1 = Inr s2"
      show "I s2 \<and> P y s2"
        using Cons.prems(3) [OF sub [OF z] conjunct1 [OF h] f]
          Cons.prems(4) [OF sub [OF z] y conjunct1 [OF h] conjunct2 [OF h] f] by simp
    qed
    with x show ?thesis by simp
  qed
next
  case Nil
  from Nil.prems(5) show ?case by simp
qed

section \<open>Leaves\<close>

definition refuse :: "string \<Rightarrow> node \<Rightarrow> string \<Rightarrow> body_refusal" where
  "refuse name n what = \<lparr>bf_Reason = ReasonBody, bf_Detail = name @ '''s '' @ n_path n @ '' '' @ what\<rparr>"

definition add_lookup :: "lookup \<Rightarrow> walker \<Rightarrow> walker" where
  "add_lookup l w = (if l \<in> set (wk_lookups w) then w else w\<lparr>wk_lookups := wk_lookups w @ [l]\<rparr>)"

definition add_account :: "string \<Rightarrow> walker \<Rightarrow> walker" where
  "add_account a w = w\<lparr>wk_account := wk_account w @ [a]\<rparr>"

definition network :: "lib \<Rightarrow> string \<Rightarrow> walker \<Rightarrow> bool \<times> walker" where
  "network L s w =
     (if s = ''none'' then (True, w)
      else if \<not> objectName s then (False, w)
      else if list_ex (EqualFold (folding L) s) [''default'', ''bridge'', ''host''] then (False, w)
      else (True, add_lookup \<lparr>lk_Kind = ''network'', lk_Name = s, lk_Use = Attach\<rparr> w))"

definition label_ok :: "lib \<Rightarrow> string \<times> json \<Rightarrow> bool" where
  "label_ok L p = (case p of (k, v) \<Rightarrow>
     (case v of JStr _ \<Rightarrow> True | _ \<Rightarrow> False) \<and> \<not> (8 \<le> length k \<and> EqualFold (folding L) (take 8 k) ''frisket.''))"

text \<open>The labels of a body, in the order of their keys.\<close>

definition labels :: "lib \<Rightarrow> string \<Rightarrow> node \<Rightarrow> json \<Rightarrow> walker \<Rightarrow> body_refusal + walker" where
  "labels L name n v w =
     (case v of
        JNull \<Rightarrow> Inr w
      | JObj m \<Rightarrow>
          each (\<lambda>k w.
            (case member m k of
               JStr _ \<Rightarrow>
                 if 8 \<le> length k \<and> EqualFold (folding L) (take 8 k) ''frisket.''
                 then Inl (refuse name n ''holds a label only frisket may set'')
                 else Inr w
             | _ \<Rightarrow> Inl (refuse name n ''not an object of strings''))) (sortedKeys m) w
      | _ \<Rightarrow> Inl (refuse name n ''not an object of strings''))"

definition bind_ok :: "string \<Rightarrow> bool" where
  "bind_ok s =
     (let parts = Split CHR '':'' s in
      \<not> (length parts < 2 \<or> length parts > 3 \<or> \<not> objectName (parts ! 0) \<or> \<not> absPath (parts ! 1) \<or>
         length parts = 3 \<and> \<not> bindMode (parts ! 2)))"

definition binds :: "string \<Rightarrow> node \<Rightarrow> json \<Rightarrow> walker \<Rightarrow> body_refusal + walker" where
  "binds name n v w =
     (case v of
        JNull \<Rightarrow> Inr w
      | JArr arr \<Rightarrow>
          each (\<lambda>e w.
            (case e of
               JStr s \<Rightarrow>
                 if bind_ok s
                 then Inr (add_lookup \<lparr>lk_Kind = ''volume'', lk_Name = hd (Split CHR '':'' s), lk_Use = Bind\<rparr> w)
                 else Inl (refuse name n ''holds a bind that is not <volume>:<path>[:rw|ro]'')
             | _ \<Rightarrow> Inl (refuse name n ''not a list of binds''))) arr w
      | _ \<Rightarrow> Inl (refuse name n ''not a list of binds''))"

definition mount_keys :: "string list" where
  "mount_keys = [''Type'', ''Source'', ''Target'', ''ReadOnly'', ''VolumeOptions'', ''TmpfsOptions'']"

definition volume_mount :: "string \<Rightarrow> node \<Rightarrow> members \<Rightarrow> walker \<Rightarrow> body_refusal + walker" where
  "volume_mount name n m w =
     (case member m ''Source'' of
        JStr src \<Rightarrow>
          if \<not> (objectName src \<or> anonVol src)
          then Inl (refuse name n ''holds a volume mount whose source is not a volume's name'')
          else if \<not> onlyKeys (member m ''VolumeOptions'') [(''NoCopy'', isBoolOrNull)]
          then Inl (refuse name n ''holds volume options other than NoCopy'')
          else if \<not> zero (member m ''TmpfsOptions'') then Inl (refuse name n ''holds tmpfs options on a volume'')
          else Inr (add_lookup \<lparr>lk_Kind = ''volume'', lk_Name = src, lk_Use = Mount\<rparr> w)
      | _ \<Rightarrow> Inl (refuse name n ''holds a volume mount whose source is not a volume's name''))"

definition tmpfs_mount :: "string \<Rightarrow> node \<Rightarrow> members \<Rightarrow> walker \<Rightarrow> body_refusal + walker" where
  "tmpfs_mount name n m w =
     (if \<not> zero (member m ''Source'') \<or> \<not> zero (member m ''VolumeOptions'')
      then Inl (refuse name n ''holds a tmpfs mount with a source or volume options'')
      else if \<not> onlyKeys (member m ''TmpfsOptions'') [(''SizeBytes'', isNumberOrNull), (''Mode'', isNumberOrNull)]
      then Inl (refuse name n ''holds tmpfs options other than SizeBytes and Mode'')
      else Inr w)"

definition mount :: "string \<Rightarrow> node \<Rightarrow> members \<Rightarrow> walker \<Rightarrow> body_refusal + walker" where
  "mount name n m w =
     (if \<not> list_all (\<lambda>k. k \<in> set mount_keys) (sortedKeys m)
      then Inl (refuse name n ''holds a mount with a field it does not allow'')
      else if \<not> (case member m ''Target'' of JStr t \<Rightarrow> absPath t | _ \<Rightarrow> False)
      then Inl (refuse name n ''holds a mount whose target is not an absolute path'')
      else if \<not> isBoolOrNull (member m ''ReadOnly'')
      then Inl (refuse name n ''holds a mount whose ReadOnly is not a bool'')
      else if member m ''Type'' = JStr ''volume'' then volume_mount name n m w
      else if member m ''Type'' = JStr ''tmpfs'' then tmpfs_mount name n m w
      else Inl (refuse name n ''holds a mount that is neither a volume nor a tmpfs''))"

definition mounts :: "string \<Rightarrow> node \<Rightarrow> json \<Rightarrow> walker \<Rightarrow> body_refusal + walker" where
  "mounts name n v w =
     (case v of
        JNull \<Rightarrow> Inr w
      | JArr arr \<Rightarrow>
          each (\<lambda>e w.
            (case e of
               JObj m \<Rightarrow> mount name n m w
             | _ \<Rightarrow> Inl (refuse name n ''not a list of mounts''))) arr w
      | _ \<Rightarrow> Inl (refuse name n ''not a list of mounts''))"

text \<open>One binding of a published port: the addresses it may ask for are all the project's, and a host
  port twice is kept once. \<open>kept\<close> are the bindings kept before it.\<close>

definition host_ip_ok :: "lib \<Rightarrow> route \<Rightarrow> members \<Rightarrow> bool" where
  "host_ip_ok L rt b \<longleftrightarrow>
     (case map_of b ''HostIp'' of
        None \<Rightarrow> True
      | Some ip \<Rightarrow> ip = JStr [] \<or> ip = JStr ''0.0.0.0'' \<or> ip = JStr ''127.0.0.1'' \<or> ip = JStr (printed L (rt_Address rt)))"

definition binding :: "lib \<Rightarrow> string \<Rightarrow> route \<Rightarrow> node \<Rightarrow> string \<Rightarrow> json \<Rightarrow> members list \<times> walker \<Rightarrow>
    body_refusal + members list \<times> walker" where
  "binding L name rt n port e st =
     (case e of
        JObj b \<Rightarrow>
          if \<not> list_all (\<lambda>k. k = ''HostIp'' \<or> k = ''HostPort'') (sortedKeys b)
          then Inl (refuse name n ''holds a binding with a field other than HostIp and HostPort'')
          else
            (case member b ''HostPort'' of
               JStr hp \<Rightarrow>
                 if \<not> hostPort hp \<or> \<not> listed rt hp
                 then Inl (refuse name n ''holds a host port this project does not list'')
                 else if \<not> host_ip_ok L rt b
                 then Inl \<lparr>bf_Reason = ReasonHostIP, bf_Detail = name @ '''s '' @ n_path n\<rparr>
                 else
                   let addr = printed L (rt_Address rt);
                       line = ''hostip '' @ logKey L port @ ''->'' @ addr @ '':'' @ hp in
                   if JStr hp \<in> (\<lambda>b. member b ''HostPort'') ` set (fst st)
                   then Inr (fst st, add_account (line @ '' collapsed'') (snd st))
                   else Inr (fst st @ [put ''HostIp'' (JStr addr) b], add_account line (snd st))
             | _ \<Rightarrow> Inl (refuse name n ''holds a host port this project does not list''))
      | _ \<Rightarrow> Inl (refuse name n ''holds a binding that is not an object''))"

definition published :: "lib \<Rightarrow> string \<Rightarrow> route \<Rightarrow> node \<Rightarrow> string \<Rightarrow> members \<times> walker \<Rightarrow>
    body_refusal + members \<times> walker" where
  "published L name rt n port st =
     (if \<not> portKey port then Inl (refuse name n ''has a key that is not a port'')
      else
        (case member (fst st) port of
           JArr arr \<Rightarrow>
             if arr = [] then Inl (refuse name n ''holds a port with no list of bindings'')
             else ok_then (each (binding L name rt n port) arr ([], snd st))
               (\<lambda>(kept, w). Inr (put port (JArr (map JObj kept)) (fst st), w))
         | _ \<Rightarrow> Inl (refuse name n ''holds a port with no list of bindings'')))"

definition portBindings :: "lib \<Rightarrow> string \<Rightarrow> route \<Rightarrow> node \<Rightarrow> json \<Rightarrow> walker \<Rightarrow> body_refusal + json \<times> walker" where
  "portBindings L name rt n v w =
     (case v of
        JNull \<Rightarrow> Inr (v, w)
      | JObj obj \<Rightarrow> ok_then (each (published L name rt n) (sortedKeys obj) (obj, w)) (\<lambda>(obj, w). Inr (JObj obj, w))
      | _ \<Rightarrow> Inl (refuse name n ''not an object''))"

definition kindOf :: "string \<Rightarrow> string" where
  "kindOf name = (if name = ''NetworkCreate'' then ''network'' else ''volume'')"

definition names_object :: "string \<Rightarrow> node \<Rightarrow> bool" where
  "names_object name n \<longleftrightarrow> n_path n = ''Name'' \<and> (name = ''VolumeCreate'' \<or> name = ''NetworkCreate'')"

definition object_name :: "lib \<Rightarrow> string \<Rightarrow> route \<Rightarrow> node \<Rightarrow> json \<Rightarrow> walker \<Rightarrow> body_refusal + walker" where
  "object_name L name rt n v w =
     (case v of
        JStr s \<Rightarrow>
          if s \<noteq> [] \<and> \<not> objectName s then Inl (refuse name n ''not a name'')
          else if name = ''NetworkCreate'' \<and> n_path n = ''Name'' \<and> prefix ''frisket_'' (ToLower (casing L) s) \<and>
            s \<noteq> DefaultNetwork (rt_Project rt)
          then Inl (refuse name n ''is another project's default network'')
          else if s \<noteq> [] \<and> names_object name n
          then Inr (add_lookup \<lparr>lk_Kind = kindOf name, lk_Name = s, lk_Use = Create\<rparr> w)
          else Inr w
      | _ \<Rightarrow> Inl (refuse name n ''not a name''))"

definition image_ok :: "lib \<Rightarrow> route \<Rightarrow> json \<Rightarrow> bool" where
  "image_ok L rt v \<longleftrightarrow>
     (case v of JStr s \<Rightarrow> s \<in> set (rt_Images rt) \<or> Built (folding L) s (rt_Builds rt) | _ \<Rightarrow> False)"

text \<open>What a leaf leaves of its value: only published ports are rewritten.\<close>

definition unchanged :: "json \<Rightarrow> body_refusal + walker \<Rightarrow> body_refusal + json \<times> walker" where
  "unchanged v r = ok_then r (\<lambda>w. Inr (v, w))"

definition leaf :: "lib \<Rightarrow> string \<Rightarrow> route \<Rightarrow> node \<Rightarrow> json \<Rightarrow> walker \<Rightarrow> body_refusal + json \<times> walker" where
  "leaf L name rt n v w =
     (case n_kind n of
        kAny \<Rightarrow> Inr (v, w)
      | kZero \<Rightarrow> if \<not> zero v then Inl (refuse name n ''not zero'') else Inr (v, w)
      | kNull \<Rightarrow> if v \<noteq> JNull then Inl (refuse name n ''not null'') else Inr (v, w)
      | kEnum \<Rightarrow>
          if \<not> list_ex (\<lambda>e. sameScalar e v) (n_enum n) then Inl (refuse name n ''not one of its values'')
          else Inr (v, w)
      | kImage \<Rightarrow> if \<not> image_ok L rt v then Inl (refuse name n ''not a listed image'') else Inr (v, w)
      | kLabels \<Rightarrow> unchanged v (labels L name n v w)
      | kObjectName \<Rightarrow> unchanged v (object_name L name rt n v w)
      | kNetwork \<Rightarrow>
          (case v of
             JStr s \<Rightarrow>
               if fst (network L s w) then Inr (v, snd (network L s w))
               else Inl (refuse name n ''not a network of this project's'')
           | _ \<Rightarrow> Inl (refuse name n ''not a network of this project's''))
      | kBinds \<Rightarrow> unchanged v (binds name n v w)
      | kMounts \<Rightarrow> unchanged v (mounts name n v w)
      | kPortBindings \<Rightarrow> portBindings L name rt n v w
      | _ \<Rightarrow> Inl (refuse name n ''has no spec''))"

section \<open>The walk\<close>

definition mapKey :: "lib \<Rightarrow> keyCheck \<Rightarrow> string \<Rightarrow> walker \<Rightarrow> bool \<times> walker" where
  "mapKey L k key w =
     (case k of keyAbsPath \<Rightarrow> (absPath key, w) | keyPort \<Rightarrow> (portKey key, w) | keyNetwork \<Rightarrow> network L key w)"

definition attach_key :: "string list \<Rightarrow> string \<Rightarrow> walker \<Rightarrow> walker" where
  "attach_key here key w =
     (if key \<noteq> ''none''
      then w\<lparr>wk_attached := wk_attached w @ [\<lparr>sl_path = here, sl_key = key, sl_isKey = True\<rparr>]\<rparr> else w)"

definition attach_value :: "string list \<Rightarrow> string \<Rightarrow> json \<Rightarrow> walker \<Rightarrow> walker" where
  "attach_value here key v w =
     (case v of
        JStr s \<Rightarrow>
          if s \<noteq> ''none''
          then w\<lparr>wk_attached := wk_attached w @ [\<lparr>sl_path = here, sl_key = key, sl_isKey = False\<rparr>]\<rparr> else w
      | _ \<Rightarrow> w)"

definition unknown :: "string \<Rightarrow> node \<Rightarrow> body_refusal" where
  "unknown name n = \<lparr>bf_Reason = ReasonBody, bf_Detail =
     (if n_path n = [] then ''a field '' @ name @ '''s table does not list''
      else ''a field under '' @ name @ '''s '' @ n_path n @ '' that its table does not list'')\<rparr>"

definition bad_key :: "string \<Rightarrow> node \<Rightarrow> body_refusal" where
  "bad_key name n =
     \<lparr>bf_Reason = ReasonBody, bf_Detail = name @ '''s '' @ n_path n @ '' has a key it does not allow''\<rparr>"

definition refused :: "body_refusal + 'a \<Rightarrow> failure + 'a" where
  "refused r = map_sum Refused_body id r"

definition sorted_children :: "node \<Rightarrow> (string \<times> node) list" where
  "sorted_children n = sort_key fst (n_children n)"

lemma size_child: "p \<in> set (n_children n) \<Longrightarrow> size (snd p) < size n"
proof (cases n)
  case (Node k key enum children elem path)
  assume "p \<in> set (n_children n)"
  with Node have "size_prod (\<lambda>_. 0) size p \<le> size_list (size_prod (\<lambda>_. 0) size) children"
    by (intro size_list_estimation') auto
  with Node show ?thesis by (cases p) simp
qed

lemma size_sorted_child: "p \<in> set (sorted_children n) \<Longrightarrow> size (snd p) < size n"
  by (simp add: sorted_children_def size_child)

lemma size_elem: "n_elem n = Some c \<Longrightarrow> size c < size n"
  by (cases n) auto

text \<open>\<open>absent\<close> judges a key that is not there, and \<open>walk\<close> one that is: a required leaf that is absent
  is judged as the empty string, and an absent struct by what is required in it.\<close>

function absent :: "lib \<Rightarrow> string \<Rightarrow> route \<Rightarrow> node \<Rightarrow> walker \<Rightarrow> failure + walker" where
  "absent L name rt n w =
     (if required n then ok_then (refused (leaf L name rt n (JStr []) w)) (\<lambda>(v, w). Inr w)
      else if n_kind n = kStruct then each (\<lambda>c w. absent L name rt (snd c) w) (sorted_children n) w
      else Inr w)"
  by pat_completeness auto

termination
  by (relation "measure (\<lambda>(L, name, rt, n, w). size n)") (auto dest: size_sorted_child)

declare absent.simps [simp del]

function walk :: "lib \<Rightarrow> string \<Rightarrow> route \<Rightarrow> node \<Rightarrow> json \<Rightarrow> string list \<Rightarrow> walker \<Rightarrow> failure + json \<times> walker" where
  "walk L name rt n v here w =
     (if n_kind n = kStruct then
        (case v of
           JNull \<Rightarrow>
             ok_then (each (\<lambda>c w. absent L name rt (snd c) w) (sorted_children n) w) (\<lambda>w. Inr (JNull, w))
         | JObj obj \<Rightarrow>
             if \<not> list_all (\<lambda>k. k \<in> fst ` set (n_children n)) (sortedKeys obj)
             then Inl (Refused_body (unknown name n))
             else ok_then (each (\<lambda>c st.
                 (case map_of (fst st) (fst c) of
                    None \<Rightarrow> ok_then (absent L name rt (snd c) (snd st)) (\<lambda>w. Inr (fst st, w))
                  | Some x \<Rightarrow>
                      ok_then (walk L name rt (snd c) x (here @ [fst c]) (snd st)) (\<lambda>(x, w).
                        Inr (put (fst c) x (fst st),
                          if n_kind (snd c) = kNetwork then attach_value here (fst c) x w else w))))
               (sorted_children n) (obj, w)) (\<lambda>(obj, w). Inr (JObj obj, w))
         | _ \<Rightarrow> Inl (Refused_body (refuse name n ''is not an object'')))
      else if n_kind n = kMap then
        (case v of
           JNull \<Rightarrow> Inr (JNull, w)
         | JObj obj \<Rightarrow>
             ok_then (each (\<lambda>k st.
                 if \<not> fst (mapKey L (n_key n) k (snd st)) then Inl (Refused_body (bad_key name n))
                 else
                   (case n_elem n of
                      None \<Rightarrow> Inl Nil_node
                    | Some c \<Rightarrow>
                        ok_then (walk L name rt c (member (fst st) k) (here @ [k]) (snd (mapKey L (n_key n) k (snd st))))
                          (\<lambda>(x, w).
                            let w = (if n_key n = keyNetwork then attach_key here k w else w)
                            in Inr (put k x (fst st), if n_kind c = kNetwork then attach_value here k x w else w))))
               (sortedKeys obj) (obj, w)) (\<lambda>(obj, w). Inr (JObj obj, w))
         | _ \<Rightarrow> Inl (Refused_body (refuse name n ''is not an object'')))
      else refused (leaf L name rt n v w))"
  by pat_completeness auto

termination
  by (relation "measure (\<lambda>(L, name, rt, n, v, here, w). size n)") (auto dest: size_sorted_child size_elem)

declare walk.simps [simp del]

text \<open>The two loops of a walk, one child or one key at a time.\<close>

definition child_step :: "lib \<Rightarrow> string \<Rightarrow> route \<Rightarrow> string list \<Rightarrow> string \<times> node \<Rightarrow> members \<times> walker \<Rightarrow> failure + members \<times> walker" where
  "child_step L name rt here c st =
     (case map_of (fst st) (fst c) of
        None \<Rightarrow> ok_then (absent L name rt (snd c) (snd st)) (\<lambda>w. Inr (fst st, w))
      | Some x \<Rightarrow>
          ok_then (walk L name rt (snd c) x (here @ [fst c]) (snd st)) (\<lambda>(x, w).
            Inr (put (fst c) x (fst st),
              if n_kind (snd c) = kNetwork then attach_value here (fst c) x w else w)))"

definition key_step :: "lib \<Rightarrow> string \<Rightarrow> route \<Rightarrow> node \<Rightarrow> string list \<Rightarrow> string \<Rightarrow> members \<times> walker \<Rightarrow> failure + members \<times> walker" where
  "key_step L name rt n here k st =
     (if \<not> fst (mapKey L (n_key n) k (snd st)) then Inl (Refused_body (bad_key name n))
      else
        (case n_elem n of
           None \<Rightarrow> Inl Nil_node
         | Some c \<Rightarrow>
             ok_then (walk L name rt c (member (fst st) k) (here @ [k]) (snd (mapKey L (n_key n) k (snd st))))
               (\<lambda>(x, w).
                 let w = (if n_key n = keyNetwork then attach_key here k w else w)
                 in Inr (put k x (fst st), if n_kind c = kNetwork then attach_value here k x w else w))))"

lemma walk_struct: "n_kind n = kStruct \<Longrightarrow> walk L name rt n v here w =
    (case v of
       JNull \<Rightarrow> ok_then (each (\<lambda>c w. absent L name rt (snd c) w) (sorted_children n) w) (\<lambda>w. Inr (JNull, w))
     | JObj obj \<Rightarrow>
         if \<not> list_all (\<lambda>k. k \<in> fst ` set (n_children n)) (sortedKeys obj)
         then Inl (Refused_body (unknown name n))
         else ok_then (each (child_step L name rt here) (sorted_children n) (obj, w)) (\<lambda>(obj, w). Inr (JObj obj, w))
     | _ \<Rightarrow> Inl (Refused_body (refuse name n ''is not an object'')))"
  by (subst walk.simps; cases v) (simp_all add: child_step_def [abs_def])

lemma walk_map: "n_kind n = kMap \<Longrightarrow> walk L name rt n v here w =
    (case v of
       JNull \<Rightarrow> Inr (JNull, w)
     | JObj obj \<Rightarrow>
         ok_then (each (key_step L name rt n here) (sortedKeys obj) (obj, w)) (\<lambda>(obj, w). Inr (JObj obj, w))
     | _ \<Rightarrow> Inl (Refused_body (refuse name n ''is not an object'')))"
  by (subst walk.simps; cases v) (simp_all add: key_step_def [abs_def])

lemma walk_leaf: "n_kind n \<noteq> kStruct \<Longrightarrow> n_kind n \<noteq> kMap \<Longrightarrow>
    walk L name rt n v here w = refused (leaf L name rt n v w)"
  by (subst walk.simps) simp

text \<open>Equations a run is evaluated by.\<close>

definition absent_step :: "lib \<Rightarrow> string \<Rightarrow> route \<Rightarrow> string \<times> node \<Rightarrow> walker \<Rightarrow> failure + walker" where
  "absent_step L name rt c w = absent L name rt (snd c) w"

lemma absent_code [code]:
  "absent L name rt n w =
     (if required n then (case leaf L name rt n (JStr []) w of Inl e \<Rightarrow> Inl (Refused_body e) | Inr (v, w) \<Rightarrow> Inr w)
      else if n_kind n = kStruct then each (absent_step L name rt) (sorted_children n) w
      else Inr w)"
  by (subst absent.simps)
    (simp add: absent_step_def [abs_def] refused_def ok_then_def split: sum.split)

lemma walk_code [code]:
  "walk L name rt n v here w =
     (if n_kind n = kStruct then
        (case v of
           JNull \<Rightarrow> (case each (absent_step L name rt) (sorted_children n) w of Inl e \<Rightarrow> Inl e | Inr w \<Rightarrow> Inr (JNull, w))
         | JObj obj \<Rightarrow>
             if \<not> list_all (\<lambda>k. k \<in> fst ` set (n_children n)) (sortedKeys obj)
             then Inl (Refused_body (unknown name n))
             else (case each (child_step L name rt here) (sorted_children n) (obj, w) of
                 Inl e \<Rightarrow> Inl e | Inr (obj, w) \<Rightarrow> Inr (JObj obj, w))
         | _ \<Rightarrow> Inl (Refused_body (refuse name n ''is not an object'')))
      else if n_kind n = kMap then
        (case v of
           JNull \<Rightarrow> Inr (JNull, w)
         | JObj obj \<Rightarrow>
             (case each (key_step L name rt n here) (sortedKeys obj) (obj, w) of
                 Inl e \<Rightarrow> Inl e | Inr (obj, w) \<Rightarrow> Inr (JObj obj, w))
         | _ \<Rightarrow> Inl (Refused_body (refuse name n ''is not an object'')))
      else refused (leaf L name rt n v w))"
proof -
  consider "n_kind n = kStruct" | "n_kind n = kMap" | "n_kind n \<noteq> kStruct" "n_kind n \<noteq> kMap" by blast
  then show ?thesis
    by cases (simp_all add: walk_struct walk_map walk_leaf ok_then_def absent_step_def [abs_def] split: json.split)
qed

section \<open>Before and after the walk\<close>

text \<open>The daemon's default network is the project's own instead, and a swappiness of -1 is null.\<close>

definition own_mode :: "string \<Rightarrow> members \<Rightarrow> members \<times> string list" where
  "own_mode own tree =
     (case map_of tree ''HostConfig'' of
        Some (JObj hc) \<Rightarrow>
          if map_of hc ''NetworkMode'' = Some (JStr ''default'')
          then (put ''HostConfig'' (JObj (put ''NetworkMode'' (JStr own) hc)) tree,
                [''networkmode default->'' @ own])
          else (tree, [])
      | _ \<Rightarrow> (tree, []))"

definition own_endpoint :: "string \<Rightarrow> members \<Rightarrow> members \<times> string list" where
  "own_endpoint own tree =
     (case map_of tree ''NetworkingConfig'' of
        Some (JObj nc) \<Rightarrow>
          (case map_of nc ''EndpointsConfig'' of
             Some (JObj eps) \<Rightarrow>
               (case map_of eps ''default'' of
                  Some ep \<Rightarrow>
                    if own \<notin> fst ` set eps
                    then (put ''NetworkingConfig''
                            (JObj (put ''EndpointsConfig'' (JObj (put own ep (del ''default'' eps))) nc)) tree,
                          [''endpoint default->'' @ own])
                    else (tree, [])
                | None \<Rightarrow> (tree, []))
           | _ \<Rightarrow> (tree, []))
      | _ \<Rightarrow> (tree, []))"

definition ownDefault :: "members \<Rightarrow> string \<Rightarrow> members \<times> string list" where
  "ownDefault tree project =
     (let own = DefaultNetwork project;
          (tree, mode) = own_mode own tree;
          (tree, endpoint) = own_endpoint own tree
      in (tree, mode @ endpoint))"

definition unsetSwappiness :: "members \<Rightarrow> members \<times> string list" where
  "unsetSwappiness tree =
     (case map_of tree ''HostConfig'' of
        Some (JObj hc) \<Rightarrow>
          if map_of hc ''MemorySwappiness'' = Some (JNum ''-1'')
          then (put ''HostConfig'' (JObj (put ''MemorySwappiness'' JNull hc)) tree, [''memoryswappiness -1->null''])
          else (tree, [])
      | _ \<Rightarrow> (tree, []))"

definition stamps :: "string list" where
  "stamps = [''ContainerCreate'', ''VolumeCreate'', ''NetworkCreate'']"

definition stamp :: "lib \<Rightarrow> members \<Rightarrow> string \<Rightarrow> body_refusal + members" where
  "stamp L tree project =
     (if list_ex (\<lambda>(k, v). k \<noteq> ''Labels'' \<and> EqualFold (folding L) k ''Labels'') tree
      then Inl \<lparr>bf_Reason = ReasonBody, bf_Detail = ''Labels in another case''\<rparr>
      else
        (case member tree ''Labels'' of
           JNull \<Rightarrow> Inr (put ''Labels'' (JObj [(LabelKey, JStr project)]) tree)
         | JObj ls \<Rightarrow> Inr (put ''Labels'' (JObj (put LabelKey (JStr project) ls)) tree)
         | _ \<Rightarrow> Inl \<lparr>bf_Reason = ReasonBody, bf_Detail = ''Labels is not an object''\<rparr>))"

text \<open>The tree a table judges: what was read, but for a container's defaults.\<close>

definition prepared :: "string \<Rightarrow> route \<Rightarrow> members \<Rightarrow> members \<times> string list" where
  "prepared name rt tree =
     (if name = ''ContainerCreate'' then
        let (tree, own) = ownDefault tree (rt_Project rt);
            (tree, unset) = unsetSwappiness tree
        in (tree, own @ unset)
      else (tree, []))"

definition stamped :: "lib \<Rightarrow> string \<Rightarrow> route \<Rightarrow> members \<Rightarrow> walker \<Rightarrow> failure + checked" where
  "stamped L name rt tree w =
     ok_then (if name \<in> set stamps
       then ok_then (refused (stamp L tree (rt_Project rt))) (\<lambda>tree. Inr (tree, add_account ''stamped'' w))
       else Inr (tree, w))
     (\<lambda>(tree, w). Inr \<lparr>ck_tree = tree, ck_Lookups = wk_lookups w, ck_Account = wk_account w,
                        ck_attached = wk_attached w\<rparr>)"

definition Check :: "lib \<Rightarrow> table \<Rightarrow> string \<Rightarrow> route \<Rightarrow> failure + checked" where
  "Check L t body rt =
     ok_then (Read (tokens L) body) (\<lambda>tree.
       let (tree, account) = prepared (t_name t) rt tree
       in ok_then (walk L (t_name t) rt (t_root t) (JObj tree) []
            \<lparr>wk_lookups = [], wk_account = account, wk_attached = []\<rparr>) (\<lambda>(v, w).
         (case v of
            JObj tree \<Rightarrow> stamped L (t_name t) rt tree w
          | _ \<Rightarrow> Inl Nil_node)))"

section \<open>Networks by their ID\<close>

text \<open>The object at a path of keys, with what a write to it leaves.\<close>

fun in_object :: "string list \<Rightarrow> (members \<Rightarrow> body_refusal + members) \<Rightarrow> members \<Rightarrow> body_refusal + members" where
  "in_object [] f m = f m"
| "in_object (k # ks) f m =
     (case map_of m k of
        Some (JObj obj) \<Rightarrow> ok_then (in_object ks f obj) (\<lambda>obj. Inr (put k (JObj obj) m))
      | _ \<Rightarrow> Inr m)"

definition named_twice :: body_refusal where
  "named_twice = \<lparr>bf_Reason = ReasonBody, bf_Detail = ''a network named twice''\<rparr>"

definition no_id :: body_refusal where
  "no_id = \<lparr>bf_Reason = ReasonBody, bf_Detail = ''a network with no ID''\<rparr>"

definition to_id :: "(string \<times> string) list \<Rightarrow> slot \<Rightarrow> members \<Rightarrow> body_refusal + members" where
  "to_id ids s obj =
     (let name = (if sl_isKey s then sl_key s else (case member obj (sl_key s) of JStr x \<Rightarrow> x | _ \<Rightarrow> []))
      in (case map_of ids name of
            None \<Rightarrow> Inl no_id
          | Some i \<Rightarrow>
              if \<not> anonVol i then Inl no_id
              else if \<not> sl_isKey s then Inr (put (sl_key s) (JStr i) obj)
              else if i \<in> fst ` set obj then Inl named_twice
              else Inr (put i (member obj name) (del name obj))))"

definition Attached :: "checked \<Rightarrow> (string \<times> string) list \<Rightarrow> body_refusal + members" where
  "Attached c ids =
     each (\<lambda>s. in_object (sl_path s) (to_id ids s))
       (SortStableFunc (\<lambda>a b. if sl_isKey a = sl_isKey b then 0 else if sl_isKey b then -1 else 1) (ck_attached c))
       (ck_tree c)"

end
