(* ===== verification/Docker_Fits.thy ===== *)
theory Docker_Fits
  imports Docker_Walk
begin

text \<open>
  What a body that passed its table is: the abstract meaning of a spec, as a predicate on the value that
  goes upstream and the names handed back to be looked up, and the lemma that the walk of
  \<open>Docker_Walk\<close> leaves only what its table means.
\<close>

section \<open>The meaning of a leaf\<close>

definition network_fits :: "lib \<Rightarrow> lookup set \<Rightarrow> string \<Rightarrow> bool" where
  "network_fits L ls s \<longleftrightarrow> s = ''none'' \<or>
     objectName s \<and> \<not> list_ex (EqualFold (folding L) s) [''default'', ''bridge'', ''host''] \<and>
     \<lparr>lk_Kind = ''network'', lk_Name = s, lk_Use = Attach\<rparr> \<in> ls"

definition labels_fit :: "lib \<Rightarrow> json \<Rightarrow> bool" where
  "labels_fit L v \<longleftrightarrow>
     (case v of JNull \<Rightarrow> True | JObj m \<Rightarrow> list_all (\<lambda>k. label_ok L (k, member m k)) (map fst m) | _ \<Rightarrow> False)"

definition bind_fits :: "lookup set \<Rightarrow> json \<Rightarrow> bool" where
  "bind_fits ls v \<longleftrightarrow>
     (case v of
        JStr s \<Rightarrow> bind_ok s \<and> \<lparr>lk_Kind = ''volume'', lk_Name = hd (Split CHR '':'' s), lk_Use = Bind\<rparr> \<in> ls
      | _ \<Rightarrow> False)"

definition mount_fits :: "lookup set \<Rightarrow> json \<Rightarrow> bool" where
  "mount_fits ls v \<longleftrightarrow>
     (case v of
        JObj m \<Rightarrow>
          fst ` set m \<subseteq> set mount_keys \<and> isBoolOrNull (member m ''ReadOnly'') \<and>
          (case member m ''Target'' of JStr t \<Rightarrow> absPath t | _ \<Rightarrow> False) \<and>
          (member m ''Type'' = JStr ''volume'' \<and>
             (case member m ''Source'' of
                JStr src \<Rightarrow> (objectName src \<or> anonVol src) \<and> \<lparr>lk_Kind = ''volume'', lk_Name = src, lk_Use = Mount\<rparr> \<in> ls
              | _ \<Rightarrow> False) \<and>
             onlyKeys (member m ''VolumeOptions'') [(''NoCopy'', isBoolOrNull)] \<and> zero (member m ''TmpfsOptions'') \<or>
           member m ''Type'' = JStr ''tmpfs'' \<and> zero (member m ''Source'') \<and> zero (member m ''VolumeOptions'') \<and>
             onlyKeys (member m ''TmpfsOptions'') [(''SizeBytes'', isNumberOrNull), (''Mode'', isNumberOrNull)])
      | _ \<Rightarrow> False)"

definition list_fits :: "(json \<Rightarrow> bool) \<Rightarrow> json \<Rightarrow> bool" where
  "list_fits ok v \<longleftrightarrow> (case v of JNull \<Rightarrow> True | JArr arr \<Rightarrow> list_all ok arr | _ \<Rightarrow> False)"

definition name_fits :: "string \<Rightarrow> node \<Rightarrow> lookup set \<Rightarrow> json \<Rightarrow> bool" where
  "name_fits name n ls v \<longleftrightarrow>
     (case v of
        JStr s \<Rightarrow> s = [] \<or> objectName s \<and>
          (names_object name n \<longrightarrow> \<lparr>lk_Kind = kindOf name, lk_Name = s, lk_Use = Create\<rparr> \<in> ls)
      | _ \<Rightarrow> False)"

text \<open>A published port: bound only on the project's address, at ports its route lists, each once.\<close>

definition binding_fits :: "lib \<Rightarrow> route \<Rightarrow> members \<Rightarrow> bool" where
  "binding_fits L rt b \<longleftrightarrow>
     fst ` set b \<subseteq> {''HostIp'', ''HostPort''} \<and> member b ''HostIp'' = JStr (printed L (rt_Address rt)) \<and>
     (case member b ''HostPort'' of JStr hp \<Rightarrow> hostPort hp \<and> listed rt hp | _ \<Rightarrow> False)"

definition bindings_fit :: "lib \<Rightarrow> route \<Rightarrow> json \<Rightarrow> bool" where
  "bindings_fit L rt v \<longleftrightarrow>
     (\<exists>bs. v = JArr (map JObj bs) \<and> bs \<noteq> [] \<and> list_all (binding_fits L rt) bs \<and>
        distinct (map (\<lambda>b. member b ''HostPort'') bs))"

definition ports_fit :: "lib \<Rightarrow> route \<Rightarrow> json \<Rightarrow> bool" where
  "ports_fit L rt v \<longleftrightarrow>
     (case v of
        JNull \<Rightarrow> True
      | JObj m \<Rightarrow> list_all (\<lambda>port. portKey port \<and> bindings_fit L rt (member m port)) (map fst m)
      | _ \<Rightarrow> False)"

definition leaf_fits :: "lib \<Rightarrow> string \<Rightarrow> route \<Rightarrow> lookup set \<Rightarrow> node \<Rightarrow> json \<Rightarrow> bool" where
  "leaf_fits L name rt ls n v \<longleftrightarrow>
     (case n_kind n of
        kAny \<Rightarrow> True
      | kZero \<Rightarrow> zero v
      | kNull \<Rightarrow> v = JNull
      | kEnum \<Rightarrow> list_ex (\<lambda>e. sameScalar e v) (n_enum n)
      | kImage \<Rightarrow> image_ok L rt v
      | kLabels \<Rightarrow> labels_fit L v
      | kObjectName \<Rightarrow> name_fits name n ls v
      | kNetwork \<Rightarrow> (case v of JStr s \<Rightarrow> network_fits L ls s | _ \<Rightarrow> False)
      | kBinds \<Rightarrow> list_fits (bind_fits ls) v
      | kMounts \<Rightarrow> list_fits (mount_fits ls) v
      | kPortBindings \<Rightarrow> ports_fit L rt v
      | _ \<Rightarrow> False)"

text \<open>A name once handed back stays so.\<close>

lemma network_fits_mono: "ls \<subseteq> ls' \<Longrightarrow> network_fits L ls s \<Longrightarrow> network_fits L ls' s"
  by (auto simp: network_fits_def)

lemma bind_fits_mono: "ls \<subseteq> ls' \<Longrightarrow> bind_fits ls v \<Longrightarrow> bind_fits ls' v"
  by (auto simp: bind_fits_def split: json.splits)

lemma mount_fits_mono: "ls \<subseteq> ls' \<Longrightarrow> mount_fits ls v \<Longrightarrow> mount_fits ls' v"
  by (cases v) (auto simp: mount_fits_def split: json.splits)

lemma list_fits_mono: "list_fits f v \<Longrightarrow> (\<And>x. f x \<Longrightarrow> g x) \<Longrightarrow> list_fits g v"
  by (cases v) (auto simp: list_fits_def list_all_iff)

lemma name_fits_mono: "ls \<subseteq> ls' \<Longrightarrow> name_fits name n ls v \<Longrightarrow> name_fits name n ls' v"
  by (auto simp: name_fits_def split: json.splits)

lemma leaf_fits_mono:
  assumes "ls \<subseteq> ls'" "leaf_fits L name rt ls n v"
  shows "leaf_fits L name rt ls' n v"
  using assms(2) network_fits_mono [OF assms(1)] list_fits_mono [OF _ bind_fits_mono [OF assms(1)]]
    list_fits_mono [OF _ mount_fits_mono [OF assms(1)]] name_fits_mono [OF assms(1)]
  by (cases "n_kind n") (auto simp: leaf_fits_def split: json.splits)

section \<open>The meaning of a table\<close>

text \<open>What an absent key means: nothing required is under it, unless the empty string fits there.\<close>

fun absent_fits :: "lib \<Rightarrow> string \<Rightarrow> route \<Rightarrow> lookup set \<Rightarrow> node \<Rightarrow> bool" where
  "absent_fits L name rt ls (Node k key enum children elem p) \<longleftrightarrow>
     (if k = kImage \<or> k = kNetwork then leaf_fits L name rt ls (Node k key enum children elem p) (JStr [])
      else k = kStruct \<longrightarrow> list_all (\<lambda>c. absent_fits L name rt ls (snd c)) children)"

definition key_fits :: "lib \<Rightarrow> lookup set \<Rightarrow> keyCheck \<Rightarrow> string \<Rightarrow> bool" where
  "key_fits L ls k key \<longleftrightarrow>
     (case k of keyAbsPath \<Rightarrow> absPath key | keyPort \<Rightarrow> portKey key | keyNetwork \<Rightarrow> network_fits L ls key)"

fun fits :: "lib \<Rightarrow> string \<Rightarrow> route \<Rightarrow> lookup set \<Rightarrow> node \<Rightarrow> json \<Rightarrow> bool" where
  "fits L name rt ls (Node k key enum children elem p) v \<longleftrightarrow>
     (case k of
        kStruct \<Rightarrow>
          (case v of
             JNull \<Rightarrow> list_all (\<lambda>c. absent_fits L name rt ls (snd c)) children
           | JObj m \<Rightarrow> fst ` set m \<subseteq> fst ` set children \<and>
               list_all (\<lambda>c. case map_of m (fst c) of
                   None \<Rightarrow> absent_fits L name rt ls (snd c) | Some x \<Rightarrow> fits L name rt ls (snd c) x) children
           | _ \<Rightarrow> False)
      | kMap \<Rightarrow>
          (case v of
             JNull \<Rightarrow> True
           | JObj m \<Rightarrow> list_all (\<lambda>x. key_fits L ls key x \<and>
               (case elem of None \<Rightarrow> False | Some c \<Rightarrow> fits L name rt ls c (member m x))) (map fst m)
           | _ \<Rightarrow> False)
      | _ \<Rightarrow> leaf_fits L name rt ls (Node k key enum children elem p) v)"

section \<open>The walk leaves what its table means\<close>

abbreviation seen :: "walker \<Rightarrow> lookup set" where
  "seen w \<equiv> set (wk_lookups w)"

lemma seen_add [simp]: "seen (add_lookup l w) = insert l (seen w)" "seen (add_account a w) = seen w"
  by (auto simp: add_lookup_def add_account_def)

lemma seen_attach [simp]: "seen (attach_key here k w) = seen w" "seen (attach_value here k v w) = seen w"
  by (auto simp: attach_key_def attach_value_def split: json.split)

lemma network_seen: "seen w \<subseteq> seen (snd (network L s w))"
  by (auto simp: network_def)

lemma network_fits: "fst (network L s w) \<Longrightarrow> network_fits L (seen (snd (network L s w))) s"
  by (auto simp: network_def network_fits_def split: if_splits)

text \<open>A loop over values that only grows the names handed back.\<close>

lemma each_list:
  assumes "each f xs w = Inr w'"
    and step: "\<And>x w w'. x \<in> set xs \<Longrightarrow> f x w = Inr w' \<Longrightarrow> seen w \<subseteq> seen w' \<and> P (seen w') x"
    and mono: "\<And>ls ls' x. ls \<subseteq> ls' \<Longrightarrow> P ls x \<Longrightarrow> P ls' x"
  shows "seen w \<subseteq> seen w' \<and> (\<forall>x\<in>set xs. P (seen w') x)"
proof (intro conjI ballI)
  show "seen w \<subseteq> seen w'"
    by (rule each_keeps [where I = "\<lambda>t. seen w \<subseteq> seen t", OF assms(1) order_refl]) (use step in blast)
  fix x assume "x \<in> set xs"
  then show "P (seen w') x"
  proof (rule each_all [where I = "\<lambda>_. True" and P = "\<lambda>x t. P (seen t) x", OF assms(1) TrueI, rotated 2])
    show "True \<and> P (seen s') x" if "x \<in> set xs" "f x s = Inr s'" for x s s'
      using step [OF that] by simp
    show "P (seen s') y" if "x \<in> set xs" "P (seen s) y" "f x s = Inr s'" for x y s s'
      using step [OF that(1,3)] mono [OF _ that(2)] by simp
  qed
qed

lemma labels_fit:
  assumes "labels L name n v w = Inr w'"
  shows "seen w \<subseteq> seen w' \<and> labels_fit L v"
proof (cases v)
  case (JObj m)
  have step: "seen s \<subseteq> seen s' \<and> label_ok L (k, member m k)"
    if "(case member m k of
        JStr _ \<Rightarrow> if 8 \<le> length k \<and> EqualFold (folding L) (take 8 k) ''frisket.''
          then Inl (refuse name n ''holds a label only frisket may set'') else Inr s
      | _ \<Rightarrow> Inl (refuse name n ''not an object of strings'')) = Inr s'" for k s s'
    using that by (cases "member m k") (auto simp: label_ok_def split: if_splits)
  from assms JObj have "seen w \<subseteq> seen w' \<and> (\<forall>k\<in>set (sortedKeys m). label_ok L (k, member m k))"
    by (intro each_list [where P = "\<lambda>_ k. label_ok L (k, member m k)"]) (auto simp: labels_def dest!: step)
  with JObj show ?thesis by (auto simp: labels_fit_def list_all_iff)
qed (use assms in \<open>simp_all add: labels_def labels_fit_def\<close>)

lemma binds_fit:
  assumes "binds name n v w = Inr w'"
  shows "seen w \<subseteq> seen w' \<and> list_fits (bind_fits (seen w')) v"
proof (cases v)
  case (JArr arr)
  have "seen w \<subseteq> seen w' \<and> (\<forall>e\<in>set arr. bind_fits (seen w') e)"
    by (rule each_list [OF assms [unfolded binds_def JArr json.case]])
      (auto simp: bind_fits_def split: json.splits if_splits)
  with JArr show ?thesis by (auto simp: list_fits_def list_all_iff)
qed (use assms in \<open>simp_all add: binds_def list_fits_def\<close>)

lemma mount_fits:
  assumes "mount name n m w = Inr w'"
  shows "seen w \<subseteq> seen w' \<and> mount_fits (seen w') (JObj m)"
proof -
  from assms have keys: "fst ` set m \<subseteq> set mount_keys" "isBoolOrNull (member m ''ReadOnly'')"
      "case member m ''Target'' of JStr t \<Rightarrow> absPath t | _ \<Rightarrow> False"
    by (auto simp: mount_def list_all_iff split: if_splits)
  from assms consider
      "member m ''Type'' = JStr ''volume''" "volume_mount name n m w = Inr w'"
    | "member m ''Type'' = JStr ''tmpfs''" "tmpfs_mount name n m w = Inr w'"
    by (auto simp: mount_def split: if_splits)
  then show ?thesis
  proof cases
    case 1
    then show ?thesis using keys
      by (cases "member m ''Source''") (auto simp: volume_mount_def mount_fits_def split: if_splits)
  next
    case 2
    then show ?thesis using keys by (auto simp: tmpfs_mount_def mount_fits_def split: if_splits)
  qed
qed

lemma mounts_fit:
  assumes "mounts name n v w = Inr w'"
  shows "seen w \<subseteq> seen w' \<and> list_fits (mount_fits (seen w')) v"
proof (cases v)
  case (JArr arr)
  have "seen w \<subseteq> seen w' \<and> (\<forall>e\<in>set arr. mount_fits (seen w') e)"
    by (rule each_list [OF assms [unfolded mounts_def JArr json.case]])
      (auto simp: mount_fits mount_fits_mono split: json.splits dest: mount_fits)
  with JArr show ?thesis by (auto simp: list_fits_def list_all_iff)
qed (use assms in \<open>simp_all add: mounts_def list_fits_def\<close>)

lemma name_fits:
  "object_name L name rt n v w = Inr w' \<Longrightarrow> seen w \<subseteq> seen w' \<and> name_fits name n (seen w') v"
  by (cases v) (auto simp: object_name_def name_fits_def split: if_splits)

lemma member_put [simp]: "member (put k v m) k' = (if k' = k then v else member m k')"
  by (simp add: member_def)

text \<open>The bindings kept of one port.\<close>

definition kept_fit :: "lib \<Rightarrow> route \<Rightarrow> members list \<Rightarrow> bool" where
  "kept_fit L rt bs \<longleftrightarrow> list_all (binding_fits L rt) bs \<and> distinct (map (\<lambda>b. member b ''HostPort'') bs)"

lemma binding_keeps:
  assumes "binding L name rt n port e (kept, w) = Inr (kept', w')" "kept_fit L rt kept"
  shows "kept_fit L rt kept' \<and> kept' \<noteq> [] \<and> seen w \<subseteq> seen w'"
proof -
  obtain b where e: "e = JObj b" using assms(1) by (cases e) (simp_all add: binding_def)
  obtain hp where hp: "member b ''HostPort'' = JStr hp"
    using assms(1) e by (cases "member b ''HostPort''") (simp_all add: binding_def split: if_splits)
  from assms(1) e hp have keys: "fst ` set b \<subseteq> {''HostIp'', ''HostPort''}" and ok: "hostPort hp" "listed rt hp"
    by (auto simp: binding_def list_all_iff split: if_splits)
  have fits: "binding_fits L rt (put ''HostIp'' (JStr (printed L (rt_Address rt))) b)"
    using keys ok hp by (simp add: binding_fits_def)
  show ?thesis
  proof (cases "JStr hp \<in> (\<lambda>b. member b ''HostPort'') ` set kept")
    case True
    then have "kept \<noteq> []" by auto
    moreover from assms(1) e hp True have "kept' = kept" "seen w' = seen w"
      by (auto simp: binding_def Let_def split: if_splits)
    ultimately show ?thesis using assms(2) by simp
  next
    case False
    with assms(1) e hp have "kept' = kept @ [put ''HostIp'' (JStr (printed L (rt_Address rt))) b]"
      and "seen w' = seen w" by (auto simp: binding_def Let_def split: if_splits)
    with assms(2) fits False hp show ?thesis by (simp add: kept_fit_def)
  qed
qed

lemma bindings_keep:
  assumes "each (binding L name rt n port) arr ([], w) = Inr (kept, w')" "arr \<noteq> []"
  shows "bindings_fit L rt (JArr (map JObj kept)) \<and> seen w \<subseteq> seen w'"
proof -
  define I where "I st \<longleftrightarrow> kept_fit L rt (fst st) \<and> seen w \<subseteq> seen (snd st)" for st :: "members list \<times> walker"
  have start: "I ([], w)" by (simp add: I_def kept_fit_def)
  have step: "I s' \<and> fst s' \<noteq> []" if "I s" "binding L name rt n port e s = Inr s'" for e s s'
    using that binding_keeps [of L name rt n port e "fst s" "snd s" "fst s'" "snd s'"] by (auto simp: I_def)
  have "I (kept, w')"
    by (rule each_keeps [where I = I, OF assms(1) start]) (use step in blast)
  moreover have "fst (kept, w') \<noteq> []"
    by (rule each_all [where I = I and P = "\<lambda>x st. fst st \<noteq> []", OF assms(1) start _ _ hd_in_set [OF assms(2)]])
      (use step in blast)+
  ultimately show ?thesis by (auto simp: I_def kept_fit_def bindings_fit_def)
qed

lemma published_keeps:
  assumes "published L name rt n port (obj, w) = Inr (obj', w')"
  shows "portKey port \<and> seen w \<subseteq> seen w' \<and> (\<exists>v. obj' = put port v obj \<and> bindings_fit L rt v)"
proof -
  obtain arr where arr: "member obj port = JArr arr" "portKey port" "arr \<noteq> []"
    using assms by (cases "member obj port") (simp_all add: published_def split: if_splits)
  with assms obtain kept where "each (binding L name rt n port) arr ([], w) = Inr (kept, w')"
    "obj' = put port (JArr (map JObj kept)) obj"
    by (auto simp: published_def ok_then_Inr)
  with bindings_keep [OF this(1) arr(3)] arr(2) show ?thesis by blast
qed

lemma ports_fit:
  assumes "portBindings L name rt n v w = Inr (v', w')"
  shows "seen w \<subseteq> seen w' \<and> ports_fit L rt v'"
proof (cases v)
  case (JObj obj)
  from assms JObj obtain obj' where r: "each (published L name rt n) (sortedKeys obj) (obj, w) = Inr (obj', w')"
    and v': "v' = JObj obj'" by (auto simp: portBindings_def ok_then_Inr)
  define I where "I st \<longleftrightarrow> fst ` set (fst st) = fst ` set obj \<and> seen w \<subseteq> seen (snd st)" for st :: "members \<times> walker"
  define P where "P port st \<longleftrightarrow> portKey port \<and> bindings_fit L rt (member (fst st) port)" for port and st :: "members \<times> walker"
  have start: "I (obj, w)" by (simp add: I_def)
  have step: "I s' \<and> P port s'"
    if port: "port \<in> set (sortedKeys obj)" and i: "I s" and p: "published L name rt n port s = Inr s'" for port s s'
  proof -
    from p published_keeps [of L name rt n port "fst s" "snd s" "fst s'" "snd s'"] obtain x where
      x: "portKey port" "seen (snd s) \<subseteq> seen (snd s')" "fst s' = put port x (fst s)" "bindings_fit L rt x" by auto
    from i port x(3) have "fst ` set (fst s') = fst ` set obj" by (simp add: I_def insert_absorb)
    with i x show ?thesis by (auto simp: I_def P_def simp del: keys_put)
  qed
  have later: "P port' s'" if "P port' s" "published L name rt n port s = Inr s'" for port port' s s'
    using that published_keeps [of L name rt n port "fst s" "snd s" "fst s'" "snd s'"]
    by (auto simp: P_def)
  have "I (obj', w')"
    by (rule each_keeps [where I = I, OF r start]) (use step in blast)
  moreover have "P port (obj', w')" if "port \<in> set (sortedKeys obj)" for port
    by (rule each_all [where I = I and P = P, OF r start _ _ that]) (use step later in blast)+
  ultimately show ?thesis by (auto simp: I_def P_def v' ports_fit_def list_all_iff)
qed (use assms in \<open>auto simp: portBindings_def ports_fit_def\<close>)

lemma leaf_fits:
  assumes "leaf L name rt n v w = Inr (v', w')"
  shows "seen w \<subseteq> seen w' \<and> leaf_fits L name rt (seen w') n v'"
proof (cases "n_kind n")
  case kNetwork
  with assms obtain s where "v = JStr s" "fst (network L s w)" "v' = v" "w' = snd (network L s w)"
    by (cases v) (auto simp: leaf_def split: if_splits)
  with kNetwork network_seen [of w L s] network_fits [of L s w] show ?thesis by (simp add: leaf_fits_def)
next
  case kPortBindings
  with assms ports_fit [of L name rt n v w v' w'] show ?thesis by (simp add: leaf_def leaf_fits_def)
qed (use assms labels_fit [of L name n v w w'] binds_fit [of name n v w w'] mounts_fit [of name n v w w']
    name_fits [of L name rt n v w w'] in \<open>auto simp: leaf_def leaf_fits_def unchanged_def ok_then_Inr split: if_splits\<close>)

subsection \<open>Tables\<close>

text \<open>No field of a struct is listed twice.\<close>

fun wf_node :: "node \<Rightarrow> bool" where
  "wf_node (Node k key enum children elem p) \<longleftrightarrow>
     distinct (map fst children) \<and> list_all (\<lambda>c. wf_node (snd c)) children \<and>
     (case elem of None \<Rightarrow> True | Some c \<Rightarrow> wf_node c)"

lemma wf_node_iff: "wf_node n \<longleftrightarrow> distinct (map fst (n_children n)) \<and>
    (\<forall>c\<in>set (n_children n). wf_node (snd c)) \<and> (\<forall>c. n_elem n = Some c \<longrightarrow> wf_node c)"
  by (cases n) (auto simp: list_all_iff split: option.split)

lemma set_sorted_children [simp]: "set (sorted_children n) = set (n_children n)"
  by (simp add: sorted_children_def)

lemma absent_fits_iff: "absent_fits L name rt ls n \<longleftrightarrow>
    (if required n then leaf_fits L name rt ls n (JStr [])
     else n_kind n = kStruct \<longrightarrow> (\<forall>c\<in>set (n_children n). absent_fits L name rt ls (snd c)))"
  by (cases n) (simp add: required_def list_all_iff)

lemma fits_struct: "n_kind n = kStruct \<Longrightarrow> fits L name rt ls n v \<longleftrightarrow>
    (case v of
       JNull \<Rightarrow> \<forall>c\<in>set (n_children n). absent_fits L name rt ls (snd c)
     | JObj m \<Rightarrow> fst ` set m \<subseteq> fst ` set (n_children n) \<and>
         (\<forall>c\<in>set (n_children n). case map_of m (fst c) of
             None \<Rightarrow> absent_fits L name rt ls (snd c) | Some x \<Rightarrow> fits L name rt ls (snd c) x)
     | _ \<Rightarrow> False)"
  by (cases n) (auto simp: list_all_iff split: json.splits)

lemma fits_map: "n_kind n = kMap \<Longrightarrow> fits L name rt ls n v \<longleftrightarrow>
    (case v of
       JNull \<Rightarrow> True
     | JObj m \<Rightarrow> (\<forall>k\<in>fst ` set m. key_fits L ls (n_key n) k \<and>
         (case n_elem n of None \<Rightarrow> False | Some c \<Rightarrow> fits L name rt ls c (member m k)))
     | _ \<Rightarrow> False)"
  by (cases n) (auto simp: list_all_iff split: json.splits option.splits)

lemma fits_leaf: "n_kind n \<noteq> kStruct \<Longrightarrow> n_kind n \<noteq> kMap \<Longrightarrow> fits L name rt ls n v \<longleftrightarrow> leaf_fits L name rt ls n v"
  by (cases n; cases "n_kind n") simp_all

lemma absent_fits_mono: "ls \<subseteq> ls' \<Longrightarrow> absent_fits L name rt ls n \<Longrightarrow> absent_fits L name rt ls' n"
proof (induction n rule: measure_induct_rule [of size])
  case (less n)
  then show ?case
    using leaf_fits_mono [OF less.prems(1)] size_child [of _ n]
    unfolding absent_fits_iff [of L name rt _ n] by (auto split: if_splits)
qed

lemma key_fits_mono: "ls \<subseteq> ls' \<Longrightarrow> key_fits L ls k key \<Longrightarrow> key_fits L ls' k key"
  by (cases k) (simp_all add: key_fits_def network_fits_mono)

lemma fits_mono: "ls \<subseteq> ls' \<Longrightarrow> fits L name rt ls n v \<Longrightarrow> fits L name rt ls' n v"
proof (induction n arbitrary: v rule: measure_induct_rule [of size])
  case (less n)
  show ?case
  proof (cases "n_kind n = kStruct")
    case True
    note struct = fits_struct [OF True]
    have child: "case map_of m (fst c) of None \<Rightarrow> absent_fits L name rt ls' (snd c) | Some x \<Rightarrow> fits L name rt ls' (snd c) x"
      if "c \<in> set (n_children n)"
        "case map_of m (fst c) of None \<Rightarrow> absent_fits L name rt ls (snd c) | Some x \<Rightarrow> fits L name rt ls (snd c) x" for c m
      using that less.IH [OF size_child [OF that(1)] less.prems(1)] absent_fits_mono [OF less.prems(1)]
      by (auto split: option.splits)
    show ?thesis using less.prems(2) child absent_fits_mono [OF less.prems(1)]
      unfolding struct by (cases v) auto
  next
    case False
    show ?thesis
    proof (cases "n_kind n = kMap")
      case True
      note map = fits_map [OF True]
      show ?thesis using less.prems(2) less.IH [OF size_elem less.prems(1)] key_fits_mono [OF less.prems(1)]
        unfolding map by (cases v; cases "n_elem n") auto
    next
      case leaf: False
      show ?thesis using less.prems(2) leaf_fits_mono [OF less.prems(1)]
        unfolding fits_leaf [OF False leaf] by blast
    qed
  qed
qed

subsection \<open>The walk\<close>

lemma refused_Inr [simp]: "refused r = Inr x \<longleftrightarrow> r = Inr x"
  by (cases r) (simp_all add: refused_def)

lemma absent_keeps: "absent L name rt n w = Inr w' \<Longrightarrow> seen w \<subseteq> seen w' \<and> absent_fits L name rt (seen w') n"
proof (induction n arbitrary: w w' rule: measure_induct_rule [of size])
  case (less n)
  show ?case
  proof (cases "required n")
    case True
    with less.prems obtain v where "leaf L name rt n (JStr []) w = Inr (v, w')"
      by (auto simp: absent.simps [of L name rt n] ok_then_Inr)
    moreover from this True have "v = JStr []"
      by (auto simp: leaf_def required_def split: if_splits json.splits)
    ultimately show ?thesis using leaf_fits True unfolding absent_fits_iff [of L name rt _ n] by metis
  next
    case False
    show ?thesis
    proof (cases "n_kind n = kStruct")
      case True
      with less.prems False have r: "each (\<lambda>c. absent L name rt (snd c)) (sorted_children n) w = Inr w'"
        by (simp add: absent.simps [of L name rt n])
      have "seen w \<subseteq> seen w' \<and> (\<forall>c\<in>set (sorted_children n). absent_fits L name rt (seen w') (snd c))"
        by (rule each_list [OF r]) (use less.IH [OF size_sorted_child] absent_fits_mono in blast)+
      with False show ?thesis unfolding absent_fits_iff [of L name rt _ n] by simp
    next
      case other: False
      with less.prems False show ?thesis
        unfolding absent_fits_iff [of L name rt _ n] by (simp add: absent.simps [of L name rt n])
    qed
  qed
qed

lemma child_step_keeps:
  assumes "child_step L name rt here c st = Inr st'"
    and walk: "\<And>x w x' w'. walk L name rt (snd c) x (here @ [fst c]) w = Inr (x', w') \<Longrightarrow>
      seen w \<subseteq> seen w' \<and> fits L name rt (seen w') (snd c) x'"
  shows "fst ` set (fst st') = fst ` set (fst st) \<and> seen (snd st) \<subseteq> seen (snd st') \<and>
    (\<forall>k. k \<noteq> fst c \<longrightarrow> map_of (fst st') k = map_of (fst st) k) \<and>
    (case map_of (fst st') (fst c) of
       None \<Rightarrow> absent_fits L name rt (seen (snd st')) (snd c)
     | Some x \<Rightarrow> fits L name rt (seen (snd st')) (snd c) x)"
proof (cases "map_of (fst st) (fst c)")
  case None
  with assms(1) obtain w where "absent L name rt (snd c) (snd st) = Inr w" "st' = (fst st, w)"
    by (auto simp: child_step_def ok_then_Inr)
  with absent_keeps [OF this(1)] None show ?thesis by simp
next
  case (Some x)
  with assms(1) obtain x' w where r: "walk L name rt (snd c) x (here @ [fst c]) (snd st) = Inr (x', w)"
    and st': "st' = (put (fst c) x' (fst st), if n_kind (snd c) = kNetwork then attach_value here (fst c) x' w else w)"
    by (auto simp: child_step_def ok_then_Inr)
  have "fst c \<in> fst ` set (fst st)" using Some by (metis domI dom_map_of_conv_image_fst)
  with walk [OF r] st' show ?thesis by (auto simp: insert_absorb)
qed

lemma key_step_keeps:
  assumes "key_step L name rt n here k st = Inr st'"
    and walk: "\<And>c x w x' w'. n_elem n = Some c \<Longrightarrow> walk L name rt c x (here @ [k]) w = Inr (x', w') \<Longrightarrow>
      seen w \<subseteq> seen w' \<and> fits L name rt (seen w') c x'"
  shows "(\<exists>x. fst st' = put k x (fst st)) \<and> seen (snd st) \<subseteq> seen (snd st') \<and>
    key_fits L (seen (snd st')) (n_key n) k \<and>
    (case n_elem n of None \<Rightarrow> False | Some c \<Rightarrow> fits L name rt (seen (snd st')) c (member (fst st') k))"
proof -
  have key: "seen (snd st) \<subseteq> seen (snd (mapKey L (n_key n) k (snd st)))"
    by (cases "n_key n") (simp_all add: mapKey_def network_seen)
  from assms(1) have ok: "fst (mapKey L (n_key n) k (snd st))" by (simp add: key_step_def split: if_splits)
  then have fits: "key_fits L (seen (snd (mapKey L (n_key n) k (snd st)))) (n_key n) k"
    by (cases "n_key n") (simp_all add: mapKey_def key_fits_def network_fits)
  from assms(1) ok obtain c where c: "n_elem n = Some c"
    by (cases "n_elem n") (simp_all add: key_step_def)
  with assms(1) ok obtain x w where
    r: "walk L name rt c (member (fst st) k) (here @ [k]) (snd (mapKey L (n_key n) k (snd st))) = Inr (x, w)"
    and st': "fst st' = put k x (fst st)" "seen (snd st') = seen w"
    by (auto simp: key_step_def ok_then_Inr Let_def)
  note w = walk [OF c r]
  have "seen (snd st) \<subseteq> seen (snd st')" using key w st' by blast
  moreover have "key_fits L (seen (snd st')) (n_key n) k" using key_fits_mono fits w st' by metis
  ultimately show ?thesis using c w st' by auto
qed

lemma walk_struct_fits:
  assumes "n_kind n = kStruct" "walk L name rt n v here w = Inr (v', w')" "distinct (map fst (n_children n))"
    and ih: "\<And>c v here w v' w'. c \<in> set (n_children n) \<Longrightarrow> walk L name rt (snd c) v here w = Inr (v', w') \<Longrightarrow>
      seen w \<subseteq> seen w' \<and> fits L name rt (seen w') (snd c) v'"
  shows "seen w \<subseteq> seen w' \<and> fits L name rt (seen w') n v'"
proof (cases v)
  case JNull
  with assms have r: "each (\<lambda>c. absent L name rt (snd c)) (sorted_children n) w = Inr w'"
    and v': "v' = JNull" by (auto simp: walk_struct ok_then_Inr)
  have "seen w \<subseteq> seen w' \<and> (\<forall>c\<in>set (sorted_children n). absent_fits L name rt (seen w') (snd c))"
    by (rule each_list [OF r]) (use absent_keeps absent_fits_mono in blast)+
  with v' assms(1) show ?thesis by (simp add: fits_struct)
next
  case (JObj obj)
  with assms obtain obj' where
    keys: "fst ` set obj \<subseteq> fst ` set (n_children n)"
    and r: "each (child_step L name rt here) (sorted_children n) (obj, w) = Inr (obj', w')"
    and v': "v' = JObj obj'"
    by (auto simp: walk_struct ok_then_Inr list_all_iff image_subset_iff split: if_splits)
  define I where "I st \<longleftrightarrow> fst ` set (fst st) = fst ` set obj \<and> seen w \<subseteq> seen (snd st)" for st :: "members \<times> walker"
  define P where "P c st \<longleftrightarrow> (case map_of (fst st) (fst c) of
      None \<Rightarrow> absent_fits L name rt (seen (snd st)) (snd c)
    | Some x \<Rightarrow> fits L name rt (seen (snd st)) (snd c) x)" for c :: "string \<times> node" and st :: "members \<times> walker"
  have keeps: "fst ` set (fst s') = fst ` set (fst s) \<and> seen (snd s) \<subseteq> seen (snd s') \<and>
      (\<forall>k. k \<noteq> fst c \<longrightarrow> map_of (fst s') k = map_of (fst s) k) \<and> P c s'"
    if "c \<in> set (sorted_children n)" "child_step L name rt here c s = Inr s'" for c s s'
    using child_step_keeps [OF that(2) ih] that(1) by (simp add: P_def)
  have start: "I (obj, w)" by (simp add: I_def)
  have step: "I s' \<and> P c s'"
    if "c \<in> set (sorted_children n)" "I s" "child_step L name rt here c s = Inr s'" for c s s'
    using keeps [OF that(1,3)] that(2) by (auto simp: I_def)
  have later: "P d s'" if c: "c \<in> set (sorted_children n)" and d: "d \<in> set (sorted_children n)"
    and p: "P d s" and e: "child_step L name rt here c s = Inr s'" for c d s s'
  proof (cases "d = c")
    case False
    with assms(3) c d have "fst d \<noteq> fst c" by (metis eq_key_imp_eq_value prod.collapse set_sorted_children)
    with keeps [OF c e] have m: "map_of (fst s') (fst d) = map_of (fst s) (fst d)"
      and g: "seen (snd s) \<subseteq> seen (snd s')" by auto
    from p show ?thesis
      unfolding P_def m using fits_mono [OF g] absent_fits_mono [OF g] by (auto split: option.splits)
  qed (use keeps [OF c e] in simp)
  have "I (obj', w')" by (rule each_keeps [where I = I, OF r start]) (use step in blast)
  moreover have "P c (obj', w')" if "c \<in> set (sorted_children n)" for c
    by (rule each_all [where I = I and P = P, OF r start _ _ that]) (use step later in blast)+
  ultimately show ?thesis
    using keys unfolding v' fits_struct [OF assms(1)] I_def P_def fst_conv snd_conv by simp
qed (use assms(1,2) in \<open>simp_all add: walk_struct\<close>)

lemma walk_map_fits:
  assumes "n_kind n = kMap" "walk L name rt n v here w = Inr (v', w')"
    and ih: "\<And>c v here w v' w'. n_elem n = Some c \<Longrightarrow> walk L name rt c v here w = Inr (v', w') \<Longrightarrow>
      seen w \<subseteq> seen w' \<and> fits L name rt (seen w') c v'"
  shows "seen w \<subseteq> seen w' \<and> fits L name rt (seen w') n v'"
proof (cases v)
  case (JObj obj)
  with assms obtain obj' where
    r: "each (key_step L name rt n here) (sortedKeys obj) (obj, w) = Inr (obj', w')" and v': "v' = JObj obj'"
    by (auto simp: walk_map ok_then_Inr)
  define I where "I st \<longleftrightarrow> fst ` set (fst st) = fst ` set obj \<and> seen w \<subseteq> seen (snd st)" for st :: "members \<times> walker"
  define P where "P k st \<longleftrightarrow> key_fits L (seen (snd st)) (n_key n) k \<and>
    (case n_elem n of None \<Rightarrow> False | Some c \<Rightarrow> fits L name rt (seen (snd st)) c (member (fst st) k))"
    for k and st :: "members \<times> walker"
  have keeps: "(\<exists>x. fst s' = put k x (fst s)) \<and> seen (snd s) \<subseteq> seen (snd s') \<and> P k s'"
    if "key_step L name rt n here k s = Inr s'" for k s s'
    using key_step_keeps [OF that ih] by (simp add: P_def)
  have start: "I (obj, w)" by (simp add: I_def)
  have step: "I s' \<and> P k s'"
    if k: "k \<in> set (sortedKeys obj)" and i: "I s" and e: "key_step L name rt n here k s = Inr s'" for k s s'
  proof -
    from keeps [OF e] obtain x where x: "fst s' = put k x (fst s)" by blast
    with k i have "fst ` set (fst s') = fst ` set obj" by (simp add: I_def insert_absorb)
    with keeps [OF e] i show ?thesis by (auto simp: I_def)
  qed
  have later: "P d s'" if p: "P d s" and e: "key_step L name rt n here k s = Inr s'" for k d s s'
  proof (cases "d = k")
    case False
    with keeps [OF e] have m: "member (fst s') d = member (fst s) d" and g: "seen (snd s) \<subseteq> seen (snd s')" by auto
    from p show ?thesis
      unfolding P_def m using fits_mono [OF g] key_fits_mono [OF g] by (auto split: option.splits)
  qed (use keeps [OF e] in simp)
  have "I (obj', w')" by (rule each_keeps [where I = I, OF r start]) (use step in blast)
  moreover have "P k (obj', w')" if "k \<in> set (sortedKeys obj)" for k
    by (rule each_all [where I = I and P = P, OF r start _ _ that]) (use step later in blast)+
  ultimately show ?thesis
    unfolding v' fits_map [OF assms(1)] I_def P_def fst_conv snd_conv by simp
qed (use assms(1,2) in \<open>simp_all add: walk_map fits_map\<close>)

theorem walk_fits:
  "walk L name rt n v here w = Inr (v', w') \<Longrightarrow> wf_node n \<Longrightarrow> seen w \<subseteq> seen w' \<and> fits L name rt (seen w') n v'"
proof (induction n arbitrary: v here w v' w' rule: measure_induct_rule [of size])
  case (less n)
  note wf = less.prems(2) [unfolded wf_node_iff [of n]]
  consider "n_kind n = kStruct" | "n_kind n = kMap" | "n_kind n \<noteq> kStruct" "n_kind n \<noteq> kMap" by blast
  then show ?case
  proof cases
    case 1
    show ?thesis
      by (rule walk_struct_fits [OF 1 less.prems(1)]) (use less.IH [OF size_child] wf in blast)+
  next
    case 2
    show ?thesis
      by (rule walk_map_fits [OF 2 less.prems(1)]) (use less.IH [OF size_elem] wf in blast)+
  next
    case 3
    with less.prems(1) leaf_fits show ?thesis by (simp add: walk_leaf fits_leaf)
  qed
qed

end
