(* ===== verification/Docker_Floor.thy ===== *)
theory Docker_Floor
  imports Docker_Fits
begin

text \<open>
  What frisket's floor buys: a body that passed a compiled table, read the way the daemon reads it, with
  every key taken for a field in any case, holds at a floor's path only what the floor allows.
\<close>

section \<open>Compiled tables list no field twice\<close>

lemma in_put: "p \<in> set (put k v m) \<Longrightarrow> p = (k, v) \<or> p \<in> set m"
  by (induction m) (auto split: if_splits)

lemma wf_with_child: "wf_node n \<Longrightarrow> wf_node c \<Longrightarrow> wf_node (with_child n seg c)"
  unfolding wf_node_iff [of n] wf_node_iff [of "with_child n seg c"]
  by (auto simp: with_child_def distinct_put dest!: in_put)

lemma wf_leaf_node: "wf_node (leaf_node k)"
  by (simp add: leaf_node_def)

lemma wf_at_path: "wf_node (at_path p n) \<longleftrightarrow> wf_node n"
  by (cases n) (simp add: at_path_def)

lemma wf_parseSpec: "parseSpec spec = Inr n \<Longrightarrow> wf_node n"
  by (cases spec) (auto simp: wf_leaf_node split: option.splits json.splits if_splits)

lemma wf_place_last: "place_last F parent seg n = Inr n' \<Longrightarrow> wf_node parent \<Longrightarrow> wf_node n \<Longrightarrow> wf_node n'"
  by (cases "n_kind parent") (auto simp: place_last_def wf_with_child split: if_splits)

lemma wf_child: "child n seg = Some c \<Longrightarrow> wf_node n \<Longrightarrow> wf_node c"
  unfolding wf_node_iff [of n] by (cases "n_kind n") (auto simp: child_def dest: map_of_SomeD split: if_splits)

lemma wf_place_under: "place_under F parent segs p spec = Inr n \<Longrightarrow> wf_node parent \<Longrightarrow> wf_node n"
proof (induction F parent segs p spec arbitrary: n rule: place_under.induct)
  case (2 F parent seg p spec)
  then obtain m where "parseSpec spec = Inr m" "place_last F parent seg (at_path p m) = Inr n"
    by (auto simp: ok_then_Inr)
  with wf_parseSpec [OF this(1)] wf_place_last [OF this(2) "2.prems"(2)] show ?case by (simp add: wf_at_path)
next
  case (3 F parent seg s segs p spec)
  then show ?case by (auto simp: ok_then_Inr intro: wf_with_child wf_child split: option.splits)
qed simp

lemma wf_place_all: "place_all F entries ps root = Inr n \<Longrightarrow> wf_node root \<Longrightarrow> wf_node n"
  by (induction ps arbitrary: root) (auto simp: ok_then_Inr place_def dest: wf_place_under)

lemma Compile_Inr:
  assumes "Compile F tokenized name raw = Inr t" "map_of floors name = Some rs"
  shows "wf_node (t_root t)" "t_name t = name" "check_all F rs (t_root t) = None" "complete (t_root t)"
  using assms wf_leaf_node
  by (auto simp: Compile_def ok_then_Inr dest: wf_place_all split: sum.splits if_splits option.splits)

lemma check_all_None: "check_all F rs root = None \<Longrightarrow> r \<in> set rs \<Longrightarrow> check F r root = None"
  by (induction rs) (auto split: option.splits)

section \<open>What the daemon reads\<close>

text \<open>The values at a path: a field is any key equal to it under folding, \<open>*\<close> any key of a map.\<close>

fun daemon_reads :: "(int \<Rightarrow> int) \<Rightarrow> string list \<Rightarrow> json \<Rightarrow> json set" where
  "daemon_reads F [] v = {v}"
| "daemon_reads F (seg # segs) (JObj m) =
     (\<Union>k\<in>{k \<in> fst ` set m. seg = ''*'' \<or> EqualFold F k seg}. daemon_reads F segs (member m k))"
| "daemon_reads F (seg # segs) v = {}"

text \<open>What a floor's rule allows there.\<close>

definition floor_allows :: "lib \<Rightarrow> string \<Rightarrow> route \<Rightarrow> lookup set \<Rightarrow> floorRule \<Rightarrow> json \<Rightarrow> bool" where
  "floor_allows L name rt ls r x \<longleftrightarrow>
     (if fr_values r \<noteq> [] then \<exists>s\<in>set (fr_values r). x = JStr s
      else \<exists>n. n_kind n \<in> set (fr_allowed r) \<and> (n_kind n = kMap \<longrightarrow> n_key n = fr_key r) \<and> fits L name rt ls n x)"

lemma member_SomeD: "k \<in> fst ` set m \<Longrightarrow> map_of m k = Some (member m k)"
proof -
  assume "k \<in> fst ` set m"
  then obtain v where "map_of m k = Some v" by (metis domD dom_map_of_conv_image_fst)
  then show ?thesis by (simp add: member_def)
qed

lemma struct_field:
  assumes "n_kind n = kStruct" "fits L name rt ls n (JObj m)" "k \<in> fst ` set m"
  shows "\<exists>c. (k, c) \<in> set (n_children n) \<and> fits L name rt ls c (member m k)"
proof -
  from assms(2,3) obtain c where "(k, c) \<in> set (n_children n)" unfolding fits_struct [OF assms(1)] by auto
  moreover with assms(2) member_SomeD [OF assms(3)] have "fits L name rt ls c (member m k)"
    unfolding fits_struct [OF assms(1)] by force
  ultimately show ?thesis by blast
qed

lemma wf_map_of: "wf_node n \<Longrightarrow> (k, c) \<in> set (n_children n) \<Longrightarrow> map_of (n_children n) k = Some c"
  unfolding wf_node_iff [of n] by (auto intro: map_of_is_SomeI)

lemma fits_zero_or_null:
  assumes "n_kind n = kZero \<or> n_kind n = kNull" "fits L name rt ls n v"
  shows "zero v"
  using assms by (cases n) (auto simp: leaf_fits_def)

text \<open>Where a rule's path ends in the table, the values read fit the spec there; where it leads
  nowhere, nothing is read.\<close>

lemma walk_to_reads:
  assumes "walk_to F n segs = Inr e" "wf_node n" "fits L name rt ls n v" "x \<in> daemon_reads F segs v"
  shows "\<exists>n'. e = Some n' \<and> fits L name rt ls n' x"
  using assms
proof (induction F n segs arbitrary: v rule: walk_to.induct)
  case (2 F n seg segs)
  from "2.prems"(4) obtain m k where v: "v = JObj m" and k: "k \<in> fst ` set m" "seg = ''*'' \<or> EqualFold F k seg"
    and x: "x \<in> daemon_reads F segs (member m k)"
    by (cases v) auto
  have nz: "\<not> (n_kind n = kZero \<or> n_kind n = kNull)"
  proof
    assume "n_kind n = kZero \<or> n_kind n = kNull"
    from fits_zero_or_null [OF this "2.prems"(3)] v k show False by auto
  qed
  show ?case
  proof (cases "n_kind n = kStruct \<and> seg \<noteq> ''*''")
    case True
    from struct_field "2.prems"(3) True v k obtain c where c: "(k, c) \<in> set (n_children n)" "fits L name rt ls c (member m k)"
      by blast
    from "2.prems"(1) nz True have other: "\<not> list_ex (\<lambda>c. fst c \<noteq> seg \<and> EqualFold F (fst c) seg) (n_children n)"
      by (auto split: if_splits)
    with c k True have seg: "k = seg" by (auto simp: list_ex_iff)
    with wf_map_of [OF "2.prems"(2) c(1)] have m: "map_of (n_children n) seg = Some c" by simp
    from "2.prems"(1) nz True other m have "walk_to F c segs = Inr e" by auto
    moreover have "wf_node c" using "2.prems"(2) c(1) unfolding wf_node_iff [of n] by auto
    ultimately show ?thesis using "2.IH"(1) [OF nz True other m _ _ c(2) x] by blast
  next
    case False
    with "2.prems"(1) nz have map: "n_kind n = kMap" "seg = ''*''" by (auto split: if_splits)
    from "2.prems"(3) v k(1) obtain c where c: "n_elem n = Some c" "fits L name rt ls c (member m k)"
      unfolding fits_map [OF map(1)] by (auto split: option.splits)
    from "2.prems"(1) nz map c have "walk_to F c segs = Inr e" by simp
    moreover have "wf_node c" using "2.prems"(2) c(1) unfolding wf_node_iff [of n] by auto
    ultimately show ?thesis using "2.IH"(2) [OF nz False _ c(1) _ _ c(2) x] map by blast
  qed
qed auto

lemma floor_holds:
  assumes "check F r root = None" "wf_node root" "fits L name rt ls root v"
    and "x \<in> daemon_reads F (Split CHR ''.'' (fr_path r)) v"
  shows "floor_allows L name rt ls r x"
proof -
  from assms(1) obtain e where e: "walk_to F root (Split CHR ''.'' (fr_path r)) = Inr e"
    by (auto simp: check_def split: sum.splits)
  from walk_to_reads [OF e assms(2-4)] obtain n where n: "e = Some n" "fits L name rt ls n x" by blast
  show ?thesis
  proof (cases "fr_values r = []")
    case True
    with assms(1) e n(1) have "n_kind n \<in> set (fr_allowed r)" "n_kind n = kMap \<longrightarrow> n_key n = fr_key r"
      by (auto simp: check_def split: if_splits)
    with True n(2) show ?thesis by (auto simp: floor_allows_def)
  next
    case False
    with assms(1) e n(1) have k: "n_kind n = kEnum"
      and within: "\<forall>v\<in>set (n_enum n). case v of JStr s \<Rightarrow> s \<in> set (fr_values r) | _ \<Rightarrow> False"
      by (auto simp: check_def list_all_iff split: if_splits)
    from n(2) k obtain v where "v \<in> set (n_enum n)" "sameScalar v x"
      by (auto simp: fits_leaf leaf_fits_def list_ex_iff)
    with within have "\<exists>s\<in>set (fr_values r). x = JStr s" by (cases v) auto
    with False show ?thesis by (simp add: floor_allows_def)
  qed
qed

section \<open>A body that passed\<close>

lemma Check_Inr:
  assumes "Check L t body rt = Inr c" "wf_node (t_root t)" "n_kind (t_root t) = kStruct"
  obtains tree where "fits L (t_name t) rt (set (ck_Lookups c)) (t_root t) (JObj tree)"
    and "t_name t \<in> set stamps \<Longrightarrow> stamp L tree (rt_Project rt) = Inr (ck_tree c)"
    and "t_name t \<notin> set stamps \<Longrightarrow> ck_tree c = tree"
proof -
  from assms(1) obtain read where r: "Read (tokens L) body = Inr read"
    by (cases "Read (tokens L) body") (simp_all add: Check_def)
  obtain tree account where p: "prepared (t_name t) rt read = (tree, account)" by fastforce
  define start where "start = \<lparr>wk_lookups = [], wk_account = account, wk_attached = []\<rparr>"
  from assms(1) r p have "\<exists>v w. walk L (t_name t) rt (t_root t) (JObj tree) [] start = Inr (v, w)"
    by (cases "walk L (t_name t) rt (t_root t) (JObj tree) [] start") (auto simp: Check_def start_def)
  then obtain v w where w: "walk L (t_name t) rt (t_root t) (JObj tree) [] start = Inr (v, w)" by blast
  with assms(1) r p have s: "\<exists>tree'. v = JObj tree' \<and> stamped L (t_name t) rt tree' w = Inr c"
    by (cases v) (simp_all add: Check_def start_def)
  from s obtain tree' where v: "v = JObj tree'" and c: "stamped L (t_name t) rt tree' w = Inr c" by blast
  from walk_fits [OF w assms(2)] v have fits: "fits L (t_name t) rt (seen w) (t_root t) (JObj tree')" by simp
  from c have ls: "set (ck_Lookups c) = seen w"
    by (auto simp: stamped_def ok_then_Inr add_account_def split: if_splits)
  from c have "t_name t \<in> set stamps \<Longrightarrow> stamp L tree' (rt_Project rt) = Inr (ck_tree c)"
    and "t_name t \<notin> set stamps \<Longrightarrow> ck_tree c = tree'"
    by (auto simp: stamped_def ok_then_Inr split: if_splits)
  with fits show thesis unfolding ls [symmetric] by (rule that)
qed

lemma place_root_kind: "place_under F root segs p spec = Inr n \<Longrightarrow> n_kind n = n_kind root"
  by (cases "(F, root, segs, p, spec)" rule: place_under.cases)
    (auto simp: ok_then_Inr place_last_def with_child_def split: option.splits if_splits kind.splits)

lemma place_all_kind: "place_all F entries ps root = Inr n \<Longrightarrow> n_kind n = n_kind root"
  by (induction ps arbitrary: root) (auto simp: ok_then_Inr place_def dest: place_root_kind)

lemma Compile_struct: "Compile F tokenized name raw = Inr t \<Longrightarrow> n_kind (t_root t) = kStruct"
  by (auto simp: Compile_def ok_then_Inr leaf_node_def dest!: place_all_kind split: sum.splits if_splits option.splits)

text \<open>The stamp leaves every other field as it was.\<close>

lemma stamp_Inr:
  assumes "stamp L tree project = Inr tree'"
  obtains ls where "tree' = put ''Labels'' (JObj ls) tree"
    and "\<And>k. k \<in> fst ` set tree \<Longrightarrow> EqualFold (folding L) k ''Labels'' \<Longrightarrow> k = ''Labels''"
    and "member tree ''Labels'' = JNull \<and> ls = [(LabelKey, JStr project)] \<or>
      (\<exists>old. member tree ''Labels'' = JObj old \<and> ls = put LabelKey (JStr project) old)"
proof -
  have other: "\<And>k. k \<in> fst ` set tree \<Longrightarrow> EqualFold (folding L) k ''Labels'' \<Longrightarrow> k = ''Labels''"
    using assms by (auto simp: stamp_def list_ex_iff split: if_splits)
  have "\<exists>ls. tree' = put ''Labels'' (JObj ls) tree \<and>
    (member tree ''Labels'' = JNull \<and> ls = [(LabelKey, JStr project)] \<or>
     (\<exists>old. member tree ''Labels'' = JObj old \<and> ls = put LabelKey (JStr project) old))"
    using assms by (cases "member tree ''Labels''") (auto simp: stamp_def split: if_splits)
  then show thesis using that other by blast
qed

lemma daemon_reads_put:
  assumes "seg \<noteq> ''*''" "\<not> EqualFold F k seg"
  shows "daemon_reads F (seg # segs) (JObj (put k v m)) = daemon_reads F (seg # segs) (JObj m)"
proof -
  have "{i \<in> fst ` set (put k v m). seg = ''*'' \<or> EqualFold F i seg} = {i \<in> fst ` set m. seg = ''*'' \<or> EqualFold F i seg}"
    using assms by auto
  moreover have "daemon_reads F segs (member (put k v m) i) = daemon_reads F segs (member m i)"
    if "i \<in> {i \<in> fst ` set m. seg = ''*'' \<or> EqualFold F i seg}" for i
    using that assms by auto
  ultimately show ?thesis by (simp del: member_put keys_put)
qed

text \<open>A required leaf that the empty string does not fit is read exactly once.\<close>

lemma required_absent:
  "walk_to F n segs = Inr (Some n') \<Longrightarrow> required n' \<Longrightarrow> \<not> leaf_fits L name rt ls n' (JStr []) \<Longrightarrow> ''*'' \<notin> set segs \<Longrightarrow>
   \<not> absent_fits L name rt ls n"
proof (induction F n segs rule: walk_to.induct)
  case (1 F n)
  then show ?case unfolding absent_fits_iff [of L name rt ls n] by simp
next
  case (2 F n seg segs)
  from "2.prems"(1,4) have n: "\<not> (n_kind n = kZero \<or> n_kind n = kNull)" "n_kind n = kStruct \<and> seg \<noteq> ''*''"
    "\<not> list_ex (\<lambda>c. fst c \<noteq> seg \<and> EqualFold F (fst c) seg) (n_children n)" by (auto split: if_splits)
  with "2.prems"(1) obtain c where c: "map_of (n_children n) seg = Some c" "walk_to F c segs = Inr (Some n')"
    by (auto split: option.splits)
  from "2.IH"(1) [OF n c] "2.prems"(2-4) have "\<not> absent_fits L name rt ls c" by simp
  moreover have "\<not> required n" using n(2) by (simp add: required_def)
  moreover have "(seg, c) \<in> set (n_children n)" using c(1) by (rule map_of_SomeD)
  ultimately show ?case unfolding absent_fits_iff [of L name rt ls n] using n(2) by force
qed

lemma struct_child:
  assumes "n_kind n = kStruct" "fits L name rt ls n v" "(k, c) \<in> set (n_children n)"
  shows "case v of
      JNull \<Rightarrow> absent_fits L name rt ls c
    | JObj m \<Rightarrow> (case map_of m k of None \<Rightarrow> absent_fits L name rt ls c | Some x \<Rightarrow> fits L name rt ls c x)
    | _ \<Rightarrow> False"
proof (cases v)
  case (JObj m)
  with assms(2) have "\<forall>c\<in>set (n_children n). case map_of m (fst c) of
      None \<Rightarrow> absent_fits L name rt ls (snd c) | Some x \<Rightarrow> fits L name rt ls (snd c) x"
    unfolding fits_struct [OF assms(1)] by simp
  from bspec [OF this assms(3)] JObj show ?thesis by (cases "map_of m k") simp_all
next
  case JNull
  with assms(2) have "\<forall>c\<in>set (n_children n). absent_fits L name rt ls (snd c)"
    unfolding fits_struct [OF assms(1)] by simp
  from bspec [OF this assms(3)] JNull show ?thesis by simp
qed (use assms(2) fits_struct [OF assms(1)] in simp_all)

lemma required_reads:
  "walk_to F n segs = Inr (Some n') \<Longrightarrow> required n' \<Longrightarrow> \<not> leaf_fits L name rt ls n' (JStr []) \<Longrightarrow> ''*'' \<notin> set segs \<Longrightarrow>
   wf_node n \<Longrightarrow> fits L name rt ls n v \<Longrightarrow> \<exists>x. daemon_reads F segs v = {x} \<and> fits L name rt ls n' x"
proof (induction F n segs arbitrary: v rule: walk_to.induct)
  case (2 F n seg segs)
  from "2.prems"(1,4) have n: "\<not> (n_kind n = kZero \<or> n_kind n = kNull)" "n_kind n = kStruct \<and> seg \<noteq> ''*''"
    and other: "\<not> list_ex (\<lambda>c. fst c \<noteq> seg \<and> EqualFold F (fst c) seg) (n_children n)" by (auto split: if_splits)
  with "2.prems"(1) obtain c where c: "map_of (n_children n) seg = Some c" "walk_to F c segs = Inr (Some n')"
    by (auto split: option.splits)
  then have child: "(seg, c) \<in> set (n_children n)" by (simp add: map_of_SomeD)
  have absent: "\<not> absent_fits L name rt ls c"
    using required_absent [OF c(2) "2.prems"(2,3)] "2.prems"(4) by simp
  from n(2) have kind: "n_kind n = kStruct" by simp
  note f = struct_child [OF kind "2.prems"(6) child]
  from f absent obtain m where v: "v = JObj m" by (cases v) simp_all
  with "2.prems"(6) have keys: "fst ` set m \<subseteq> fst ` set (n_children n)" unfolding fits_struct [OF kind] by simp
  from f v absent have "map_of m seg \<noteq> None" by (cases "map_of m seg") simp_all
  then have seg: "seg \<in> fst ` set m" by (metis map_of_eq_None_iff)
  have "fits L name rt ls c (member m seg)"
    using f v member_SomeD [OF seg] by simp
  moreover have "wf_node c" using "2.prems"(5) child unfolding wf_node_iff [of n] by auto
  ultimately obtain x where x: "daemon_reads F segs (member m seg) = {x}" "fits L name rt ls n' x"
    using "2.IH"(1) [OF n other c "2.prems"(2,3)] "2.prems"(4) by auto
  have "{k \<in> fst ` set m. seg = ''*'' \<or> EqualFold F k seg} = {seg}"
  proof (intro equalityI subsetI)
    fix k assume "k \<in> {k \<in> fst ` set m. seg = ''*'' \<or> EqualFold F k seg}"
    with n(2) keys have k: "EqualFold F k seg" "k \<in> fst ` set (n_children n)" by auto
    with other show "k \<in> {seg}" by (auto simp: list_ex_iff)
  qed (use seg in auto)
  with x v show ?case by simp
qed simp

section \<open>Containers\<close>

lemma ascii_runes: "\<forall>c\<in>set s. byte c < 128 \<Longrightarrow> length (runes s) = length s"
  by (simp add: runes_all_ascii)

lemma EqualFold_length:
  "\<forall>c\<in>set s. byte c < 128 \<Longrightarrow> \<forall>c\<in>set t. byte c < 128 \<Longrightarrow> EqualFold F s t \<Longrightarrow> length s = length t"
  using ascii_runes unfolding EqualFold_def by (metis length_map)

definition first_segment :: "floorRule \<Rightarrow> string" where
  "first_segment r = hd (Split CHR ''.'' (fr_path r))"

lemma container_first_segments:
  "list_all (\<lambda>r. fr_path r = ''Labels'' \<or> length (first_segment r) \<noteq> 6 \<and> first_segment r \<noteq> ''*'' \<and>
     list_all (\<lambda>c. byte c < 128) (first_segment r)) containerFloor"
  by code_simp

lemma container_not_Labels:
  assumes "r \<in> set containerFloor" "fr_path r \<noteq> ''Labels''"
  shows "first_segment r \<noteq> ''*''" "\<not> EqualFold F ''Labels'' (first_segment r)"
proof -
  from assms container_first_segments have l: "length (first_segment r) \<noteq> 6" "first_segment r \<noteq> ''*''"
    "\<forall>c\<in>set (first_segment r). byte c < 128" by (auto simp: list_all_iff)
  then show "first_segment r \<noteq> ''*''" by blast
  show "\<not> EqualFold F ''Labels'' (first_segment r)"
  proof
    assume "EqualFold F ''Labels'' (first_segment r)"
    from EqualFold_length [OF _ l(3) this] have "length ''Labels'' = length (first_segment r)" by simp
    with l(1) show False by simp
  qed
qed

lemma container_table:
  assumes "Compile F tokenized ''ContainerCreate'' raw = Inr t" "r \<in> set containerFloor"
  shows "wf_node (t_root t)" "t_name t = ''ContainerCreate''" "check F r (t_root t) = None"
    "n_kind (t_root t) = kStruct"
proof -
  have f: "map_of floors ''ContainerCreate'' = Some containerFloor" by (simp add: floors_def)
  from Compile_Inr [OF assms(1) f] Compile_struct [OF assms(1)] check_all_None [OF _ assms(2)]
  show "wf_node (t_root t)" "t_name t = ''ContainerCreate''" "check F r (t_root t) = None"
    "n_kind (t_root t) = kStruct" by blast+
qed

text \<open>The tree that goes upstream is one the table fits, but for the labels' stamp.\<close>

lemma container_tree:
  assumes "Compile (folding L) tokenized ''ContainerCreate'' raw = Inr t" "Check L t body rt = Inr c"
    and "r \<in> set containerFloor" "fr_path r \<noteq> ''Labels''"
  obtains tree where "fits L ''ContainerCreate'' rt (set (ck_Lookups c)) (t_root t) (JObj tree)"
    and "stamp L tree (rt_Project rt) = Inr (ck_tree c)"
    and "daemon_reads (folding L) (Split CHR ''.'' (fr_path r)) (JObj (ck_tree c)) =
      daemon_reads (folding L) (Split CHR ''.'' (fr_path r)) (JObj tree)"
proof -
  note t = container_table [OF assms(1,3)]
  from Check_Inr [OF assms(2) t(1,4)] obtain tree where
    fits: "fits L (t_name t) rt (set (ck_Lookups c)) (t_root t) (JObj tree)"
    and "t_name t \<in> set stamps \<Longrightarrow> stamp L tree (rt_Project rt) = Inr (ck_tree c)" by blast
  with t(2) have s: "stamp L tree (rt_Project rt) = Inr (ck_tree c)" by (simp add: stamps_def)
  then obtain ls where put: "ck_tree c = put ''Labels'' (JObj ls) tree" by (rule stamp_Inr)
  obtain segs where split: "Split CHR ''.'' (fr_path r) = first_segment r # segs"
    unfolding first_segment_def by (metis Split_not_Nil list.collapse)
  show thesis
    by (rule that [OF fits [unfolded t(2)] s])
      (simp add: put split daemon_reads_put [OF container_not_Labels [OF assms(3,4)]] del: daemon_reads.simps)
qed

lemma container_floor:
  assumes "Compile (folding L) tokenized ''ContainerCreate'' raw = Inr t" "Check L t body rt = Inr c"
    and "r \<in> set containerFloor" "fr_path r \<noteq> ''Labels''"
    and "x \<in> daemon_reads (folding L) (Split CHR ''.'' (fr_path r)) (JObj (ck_tree c))"
  shows "floor_allows L ''ContainerCreate'' rt (set (ck_Lookups c)) r x"
proof -
  note t = container_table [OF assms(1,3)]
  from container_tree [OF assms(1-4)] assms(5) obtain tree where
    "fits L ''ContainerCreate'' rt (set (ck_Lookups c)) (t_root t) (JObj tree)"
    "x \<in> daemon_reads (folding L) (Split CHR ''.'' (fr_path r)) (JObj tree)" by metis
  then show ?thesis by (rule floor_holds [OF t(3) t(1)])
qed

text \<open>A rule that requires its path, of one kind of leaf.\<close>

lemma container_required:
  assumes "Compile (folding L) tokenized ''ContainerCreate'' raw = Inr t" "Check L t body rt = Inr c"
    and "r \<in> set containerFloor" "fr_path r \<noteq> ''Labels''" "fr_required r" "fr_values r = []" "fr_allowed r = [k]"
    and "k = kImage \<or> k = kNetwork" "''*'' \<notin> set (Split CHR ''.'' (fr_path r))"
    and absent: "\<And>n. n_kind n = k \<Longrightarrow> \<not> leaf_fits L ''ContainerCreate'' rt (set (ck_Lookups c)) n (JStr [])"
  obtains x n where "daemon_reads (folding L) (Split CHR ''.'' (fr_path r)) (JObj (ck_tree c)) = {x}"
    and "n_kind n = k" "leaf_fits L ''ContainerCreate'' rt (set (ck_Lookups c)) n x"
proof -
  note t = container_table [OF assms(1,3)]
  from t(3) assms(5-7) obtain n where w: "walk_to (folding L) (t_root t) (Split CHR ''.'' (fr_path r)) = Inr (Some n)"
    and k: "n_kind n = k"
    by (auto simp: check_def missing_def split: sum.splits option.splits if_splits)
  have req: "required n" using k assms(8) by (auto simp: required_def)
  from container_tree [OF assms(1-4)] obtain tree where
    f: "fits L ''ContainerCreate'' rt (set (ck_Lookups c)) (t_root t) (JObj tree)"
    and d: "daemon_reads (folding L) (Split CHR ''.'' (fr_path r)) (JObj (ck_tree c)) =
      daemon_reads (folding L) (Split CHR ''.'' (fr_path r)) (JObj tree)" by metis
  from required_reads [OF w req absent [OF k] assms(9) t(1) f] obtain x where
    "daemon_reads (folding L) (Split CHR ''.'' (fr_path r)) (JObj tree) = {x}"
    "fits L ''ContainerCreate'' rt (set (ck_Lookups c)) n x" by blast
  with d k assms(8) show thesis by (intro that [of x n]) (auto simp: fits_leaf)
qed

end
