(* ===== verification/Docker_Container.thy ===== *)
theory Docker_Container
  imports Docker_Floor
begin

text \<open>
  What frisket guarantees of a body it sends to the Docker daemon, whatever table its policy gives: the
  properties of \<open>Compile\<close> and \<open>Check\<close> together. Read the way the daemon reads it, with \<open>daemon_reads\<close>.
\<close>

section \<open>An instance\<close>

declare ok_then_def [code_unfold]

definition demo_lib :: lib where
  "demo_lib = \<lparr>folding = latin_fold, casing = ascii_unicode, printed = (\<lambda>_. ''127.1.2.3''), quoted = (\<lambda>s. s),
     tokens = (\<lambda>s. if s = ''t''
       then [Delim CHR ''{'', TStr ''Image'', TStr ''image'', TStr ''HostConfig'', TStr ''struct'',
         TStr ''HostConfig.NetworkMode'', TStr ''network'', TStr ''HostConfig.Privileged'', TStr ''zero'',
         TStr ''HostConfig.PortBindings'', TStr ''portBindings'', Delim CHR ''}'']
       else [Delim CHR ''{'', TStr ''Image'', TStr ''app:1'', TStr ''HostConfig'', Delim CHR ''{'',
         TStr ''NetworkMode'', TStr ''default'', TStr ''Privileged'', TBool False,
         TStr ''PortBindings'', Delim CHR ''{'', TStr ''80/tcp'', Delim CHR ''['', Delim CHR ''{'',
         TStr ''HostPort'', TStr ''8080'', Delim CHR ''}'', Delim CHR '']'', Delim CHR ''}'',
         Delim CHR ''}'', Delim CHR ''}''])\<rparr>"

definition demo_route :: route where
  "demo_route =
     \<lparr>rt_Project = ''me/box'', rt_Address = NoAddr, rt_Ports = [8080], rt_Images = [''app:1''], rt_Builds = []\<rparr>"

definition demo_table :: table where
  "demo_table =
     \<lparr>t_name = ''ContainerCreate'',
      t_root = Node kStruct keyAbsPath []
        [(''HostConfig'', Node kStruct keyAbsPath []
            [(''NetworkMode'', Node kNetwork keyAbsPath [] [] None ''HostConfig.NetworkMode''),
             (''PortBindings'', Node kPortBindings keyAbsPath [] [] None ''HostConfig.PortBindings''),
             (''Privileged'', Node kZero keyAbsPath [] [] None ''HostConfig.Privileged'')] None ''HostConfig''),
         (''Image'', Node kImage keyAbsPath [] [] None ''Image'')] None []\<rparr>"

definition demo_host :: members where
  "demo_host =
     [(''NetworkMode'', JStr ''frisket_me_box''), (''Privileged'', JBool False),
      (''PortBindings'', JObj [(''80/tcp'', JArr [JObj [(''HostPort'', JStr ''8080''), (''HostIp'', JStr ''127.1.2.3'')]])])]"

definition demo_checked :: checked where
  "demo_checked =
     \<lparr>ck_tree = [(''Image'', JStr ''app:1''), (''HostConfig'', JObj demo_host),
        (''Labels'', JObj [(LabelKey, JStr ''me/box'')])],
      ck_Lookups = [\<lparr>lk_Kind = ''network'', lk_Name = ''frisket_me_box'', lk_Use = Attach\<rparr>],
      ck_Account = [''networkmode default->frisket_me_box'', ''hostip 80/tcp->127.1.2.3:8080'', ''stamped''],
      ck_attached = [\<lparr>sl_path = [''HostConfig''], sl_key = ''NetworkMode'', sl_isKey = False\<rparr>]\<rparr>"

definition demo_entries :: members where
  "demo_entries =
     [(''Image'', JStr ''image''), (''HostConfig'', JStr ''struct''), (''HostConfig.NetworkMode'', JStr ''network''),
      (''HostConfig.Privileged'', JStr ''zero''), (''HostConfig.PortBindings'', JStr ''portBindings'')]"

lemma demo_read: "Read (tokens demo_lib) ''t'' = Inr demo_entries"
  by code_simp

lemma demo_placed:
  "place_all (folding demo_lib) demo_entries (by_depth (map fst demo_entries)) (leaf_node kStruct) = Inr (t_root demo_table)"
  by code_simp

lemma demo_floor: "check_all (folding demo_lib) containerFloor (t_root demo_table) = None"
  by code_simp

lemma demo_complete: "complete (t_root demo_table)"
  by code_simp

lemma demo_compiles: "Compile (folding demo_lib) (tokens demo_lib) ''ContainerCreate'' ''t'' = Inr demo_table"
proof -
  have "map_of floors ''ContainerCreate'' = Some containerFloor" by (simp add: floors_def)
  moreover have "\<lparr>t_name = ''ContainerCreate'', t_root = t_root demo_table\<rparr> = demo_table" by (simp add: demo_table_def)
  ultimately show ?thesis by (simp add: Compile_def demo_read demo_placed demo_floor demo_complete)
qed

lemma demo_checks: "Check demo_lib demo_table ''b'' demo_route = Inr demo_checked"
  by code_simp

section \<open>Properties\<close>

text \<open>
  C16: The floor. Whatever table frisket is given for container creation, if it compiles, and a body passes
  it, then every value the daemon reads from what goes upstream, at any path of the floor but the labels'
  and with keys matched in any case, is one the floor allows: zero or null for the settings that reach
  the host, a listed driver or policy, or a value its own check passed.
\<close>


theorem container_floor_holds:
  assumes "Compile (folding L) tokenized ''ContainerCreate'' raw = Inr t" "Check L t body rt = Inr c"
    and "r \<in> set containerFloor" "fr_path r \<noteq> ''Labels''"
    and "x \<in> daemon_reads (folding L) (Split CHR ''.'' (fr_path r)) (JObj (ck_tree c))"
  shows "floor_allows L ''ContainerCreate'' rt (set (ck_Lookups c)) r x"
  by (rule container_floor [OF assms])

lemma privileged_rule: "zeroAt ''HostConfig.Privileged'' \<in> set containerFloor"
  by (simp add: containerFloor_def hostconfig_zero_def)

lemma demo_privileged:
  "daemon_reads (folding demo_lib) (Split CHR ''.'' ''HostConfig.Privileged'') (JObj (ck_tree demo_checked)) = {JBool False}"
  by code_simp

theorem container_floor_holds_witness:
  "floor_allows demo_lib ''ContainerCreate'' demo_route (set (ck_Lookups demo_checked))
     (zeroAt ''HostConfig.Privileged'') (JBool False)"
  by (rule container_floor_holds [OF demo_compiles demo_checks privileged_rule])
    (simp_all add: zeroAt_def demo_privileged [simplified])

lemma no_empty_image: "list_all (\<lambda>i. ValidImage U F i = None) images \<Longrightarrow> [] \<notin> set images"
  by (auto simp: list_all_iff ValidImage_def)

lemma no_empty_leaf:
  assumes "[] \<notin> set (rt_Images rt)" "n_kind n = kImage \<or> n_kind n = kNetwork"
  shows "\<not> leaf_fits L name rt ls n (JStr [])"
  using assms by (auto simp: leaf_fits_def image_ok_def Built_def network_fits_def objectName_def nameRE_def)

lemma image_rule: "(exactly ''Image'' kImage)\<lparr>fr_required := True\<rparr> \<in> set containerFloor"
  and mode_rule: "(exactly ''HostConfig.NetworkMode'' kNetwork)\<lparr>fr_required := True\<rparr> \<in> set containerFloor"
  and ports_rule: "orZero ''HostConfig.PortBindings'' kPortBindings \<in> set containerFloor"
  by (simp_all add: containerFloor_def)

lemma container_leaf:
  assumes "Compile (folding L) tokenized ''ContainerCreate'' raw = Inr t" "Check L t body rt = Inr c"
    and "(exactly p k)\<lparr>fr_required := True\<rparr> \<in> set containerFloor" "p \<noteq> ''Labels''" "k = kImage \<or> k = kNetwork"
    and "Split CHR ''.'' p = segs" "''*'' \<notin> set segs" "[] \<notin> set (rt_Images rt)"
  obtains x n where "daemon_reads (folding L) segs (JObj (ck_tree c)) = {x}"
    and "n_kind n = k" "leaf_fits L ''ContainerCreate'' rt (set (ck_Lookups c)) n x"
proof -
  have path: "fr_path ((exactly p k)\<lparr>fr_required := True\<rparr>) = p" by (simp add: exactly_def)
  show thesis
    by (rule container_required [OF assms(1-3), unfolded path assms(6), OF _ _ _ _ assms(5)])
      (use assms(4,5,7) no_empty_leaf [OF assms(8)] in \<open>simp_all add: exactly_def that del: daemon_reads.simps\<close>)
qed

text \<open>
  C17: A container that goes upstream runs exactly one image, one its route lists or one its project builds,
  and is on exactly one network mode: none, or a network by name, which is not one of the daemon's shared
  networks in any case and is handed back to be looked up and attached. Neither can be left out, so the
  daemon never chooses. The images a route lists are ones \<open>docker.ValidImage\<close> passes.
\<close>

theorem container_runs_listed:
  assumes "Compile (folding L) tokenized ''ContainerCreate'' raw = Inr t" "Check L t body rt = Inr c"
    and "list_all (\<lambda>i. ValidImage (casing L) (folding L) i = None) (rt_Images rt)"
  shows "(\<exists>image. daemon_reads (folding L) [''Image''] (JObj (ck_tree c)) = {JStr image} \<and>
      (image \<in> set (rt_Images rt) \<or> Built (folding L) image (rt_Builds rt))) \<and>
    (\<exists>net. daemon_reads (folding L) [''HostConfig'', ''NetworkMode''] (JObj (ck_tree c)) = {JStr net} \<and>
      (net = ''none'' \<or> objectName net \<and> \<not> list_ex (EqualFold (folding L) net) [''default'', ''bridge'', ''host''] \<and>
        \<lparr>lk_Kind = ''network'', lk_Name = net, lk_Use = Attach\<rparr> \<in> set (ck_Lookups c)))"
proof (rule conjI)
  note empty = no_empty_image [OF assms(3)]
  have star: "''*'' \<notin> set [''Image'']" "''*'' \<notin> set [''HostConfig'', ''NetworkMode'']" by simp_all
  obtain x n where x: "daemon_reads (folding L) [''Image''] (JObj (ck_tree c)) = {x}"
    "n_kind n = kImage" "leaf_fits L ''ContainerCreate'' rt (set (ck_Lookups c)) n x"
    by (rule container_leaf [OF assms(1,2) image_rule _ _ _ star(1) empty]) (auto intro: that simp del: daemon_reads.simps)
  from x(2,3) obtain image where "x = JStr image" "image \<in> set (rt_Images rt) \<or> Built (folding L) image (rt_Builds rt)"
    by (cases x) (auto simp: leaf_fits_def image_ok_def)
  with x(1) show "\<exists>image. daemon_reads (folding L) [''Image''] (JObj (ck_tree c)) = {JStr image} \<and>
      (image \<in> set (rt_Images rt) \<or> Built (folding L) image (rt_Builds rt))" by blast
  obtain y m where y: "daemon_reads (folding L) [''HostConfig'', ''NetworkMode''] (JObj (ck_tree c)) = {y}"
    "n_kind m = kNetwork" "leaf_fits L ''ContainerCreate'' rt (set (ck_Lookups c)) m y"
    by (rule container_leaf [OF assms(1,2) mode_rule _ _ _ star(2) empty]) (auto intro: that simp del: daemon_reads.simps)
  from y(2,3) obtain net where "y = JStr net" "network_fits L (set (ck_Lookups c)) net"
    by (cases y) (auto simp: leaf_fits_def)
  with y(1) show "\<exists>net. daemon_reads (folding L) [''HostConfig'', ''NetworkMode''] (JObj (ck_tree c)) = {JStr net} \<and>
      (net = ''none'' \<or> objectName net \<and> \<not> list_ex (EqualFold (folding L) net) [''default'', ''bridge'', ''host''] \<and>
        \<lparr>lk_Kind = ''network'', lk_Name = net, lk_Use = Attach\<rparr> \<in> set (ck_Lookups c))"
    unfolding network_fits_def by blast
qed

lemma demo_image: "list_all (\<lambda>i. ValidImage (casing demo_lib) (folding demo_lib) i = None) (rt_Images demo_route)"
  by code_simp

theorem container_runs_listed_witness:
  "\<exists>image. daemon_reads (folding demo_lib) [''Image''] (JObj (ck_tree demo_checked)) = {JStr image} \<and>
     (image \<in> set (rt_Images demo_route) \<or> Built (folding demo_lib) image (rt_Builds demo_route))"
  using container_runs_listed [OF demo_compiles demo_checks demo_image] by (rule conjunct1)

text \<open>
  C18: The ports a container publishes, however the body asked for them, are bound on the project's own
  address alone, at host ports its route lists. Each port of the container it publishes has a binding, and no two
  of that port's bindings ask for one host port; two ports of the container may.
\<close>

theorem container_publishes:
  assumes "Compile (folding L) tokenized ''ContainerCreate'' raw = Inr t" "Check L t body rt = Inr c"
    and "JObj ports \<in> daemon_reads (folding L) [''HostConfig'', ''PortBindings''] (JObj (ck_tree c))"
    and "port \<in> fst ` set ports"
  shows "portKey port \<and> (\<exists>bs. member ports port = JArr (map JObj bs) \<and> bs \<noteq> [] \<and>
      distinct (map (\<lambda>b. member b ''HostPort'') bs) \<and>
      list_all (\<lambda>b. member b ''HostIp'' = JStr (printed L (rt_Address rt)) \<and>
        (\<exists>hp. member b ''HostPort'' = JStr hp \<and> decimal hp \<le> 65535 \<and> word_of_int (decimal hp) \<in> set (rt_Ports rt))) bs)"
proof -
  have "floor_allows L ''ContainerCreate'' rt (set (ck_Lookups c)) (orZero ''HostConfig.PortBindings'' kPortBindings) (JObj ports)"
    by (rule container_floor [OF assms(1,2) ports_rule]) (use assms(3) in \<open>simp_all add: orZero_def\<close>)
  moreover have "ports \<noteq> []" using assms(4) by auto
  ultimately have fit: "ports_fit L rt (JObj ports)"
    by (auto simp: floor_allows_def orZero_def fits_leaf leaf_fits_def)
  with assms(4) have "portKey port" "bindings_fit L rt (member ports port)"
    by (auto simp: ports_fit_def list_all_iff)
  moreover have "list_all (binding_fits L rt) bs \<Longrightarrow> list_all (\<lambda>b. member b ''HostIp'' = JStr (printed L (rt_Address rt)) \<and>
        (\<exists>hp. member b ''HostPort'' = JStr hp \<and> decimal hp \<le> 65535 \<and> word_of_int (decimal hp) \<in> set (rt_Ports rt))) bs" for bs
  proof (rule list.pred_mono_strong)
    fix b assume "binding_fits L rt b"
    then show "member b ''HostIp'' = JStr (printed L (rt_Address rt)) \<and>
        (\<exists>hp. member b ''HostPort'' = JStr hp \<and> decimal hp \<le> 65535 \<and> word_of_int (decimal hp) \<in> set (rt_Ports rt))"
      by (cases "member b ''HostPort''") (auto simp: binding_fits_def listed_def)
  qed
  ultimately show ?thesis unfolding bindings_fit_def by blast
qed

lemma demo_ports:
  "daemon_reads (folding demo_lib) [''HostConfig'', ''PortBindings''] (JObj (ck_tree demo_checked)) =
     {JObj [(''80/tcp'', JArr [JObj [(''HostPort'', JStr ''8080''), (''HostIp'', JStr ''127.1.2.3'')]])]}"
  by code_simp

theorem container_publishes_witness:
  "\<exists>ports bs. JObj ports \<in> daemon_reads (folding demo_lib) [''HostConfig'', ''PortBindings''] (JObj (ck_tree demo_checked)) \<and>
     member ports ''80/tcp'' = JArr (map JObj bs) \<and> bs \<noteq> [] \<and>
     list_all (\<lambda>b. member b ''HostIp'' = JStr (printed demo_lib (rt_Address demo_route)) \<and>
       (\<exists>hp. member b ''HostPort'' = JStr hp \<and> decimal hp \<le> 65535 \<and> word_of_int (decimal hp) \<in> set (rt_Ports demo_route))) bs"
proof -
  let ?ports = "[(''80/tcp'', JArr [JObj [(''HostPort'', JStr ''8080''), (''HostIp'', JStr ''127.1.2.3'')]])]"
  have "JObj ?ports \<in> daemon_reads (folding demo_lib) [''HostConfig'', ''PortBindings''] (JObj (ck_tree demo_checked))"
    unfolding demo_ports by simp
  from this container_publishes [OF demo_compiles demo_checks this, of "''80/tcp''"] show ?thesis by auto
qed

lemma labels_rule:
  assumes "name \<in> set stamps"
  obtains rs where "map_of floors name = Some rs" "exactly ''Labels'' kLabels \<in> set rs"
  using assms by (auto simp: stamps_def floors_def containerFloor_def)

lemma body_labels:
  assumes "Compile (folding L) tokenized name raw = Inr t" "name \<in> set stamps"
    and "fits L name rt ls (t_root t) (JObj tree)" "member tree ''Labels'' = JObj old"
  shows "labels_fit L (JObj old)"
proof -
  from labels_rule [OF assms(2)] obtain rs where rs: "map_of floors name = Some rs"
    and r: "exactly ''Labels'' kLabels \<in> set rs" by blast
  note t = Compile_Inr [OF assms(1) rs]
  from assms(4) have "''Labels'' \<in> fst ` set tree"
    by (metis json.distinct(9) member_def map_of_eq_None_iff option.case(1))
  then have "''Labels'' \<in> {k \<in> fst ` set tree. ''Labels'' = ''*'' \<or> EqualFold (folding L) k ''Labels''}" by simp
  then have "JObj old \<in> daemon_reads (folding L) [''Labels''] (JObj tree)"
    unfolding daemon_reads.simps by (rule UN_I) (simp add: assms(4))
  then have "JObj old \<in> daemon_reads (folding L) (Split CHR ''.'' (fr_path (exactly ''Labels'' kLabels))) (JObj tree)"
    by (simp add: exactly_def del: daemon_reads.simps)
  from floor_holds [OF check_all_None [OF t(3) r] t(1) assms(3) this] show ?thesis
    by (auto simp: floor_allows_def exactly_def fits_leaf leaf_fits_def)
qed

text \<open>
  C19: Everything frisket lets be created carries its project's label, and no other of frisket's: of a
  container, volume or network body that passed whatever table its policy gives, the daemon reads exactly
  one set of labels, in any case of the field's name; in it \<open>frisket.project\<close> is the route's project, and
  it is the only label whose name begins \<open>frisket.\<close>, in any case.
\<close>

theorem stamped_labels:
  assumes "Compile (folding L) tokenized name raw = Inr t" "Check L t body rt = Inr c" "name \<in> set stamps"
  shows "\<exists>ls. daemon_reads (folding L) [''Labels''] (JObj (ck_tree c)) = {JObj ls} \<and>
    map_of ls ''frisket.project'' = Some (JStr (rt_Project rt)) \<and>
    (\<forall>k\<in>fst ` set ls. 8 \<le> length k \<and> EqualFold (folding L) (take 8 k) ''frisket.'' \<longrightarrow> k = ''frisket.project'')"
proof -
  from labels_rule [OF assms(3)] obtain rs where rs: "map_of floors name = Some rs" by blast
  note t = Compile_Inr [OF assms(1) rs] Compile_struct [OF assms(1)]
  from Check_Inr [OF assms(2) t(1,5)] t(2) assms(3) obtain tree where
    fits: "fits L name rt (set (ck_Lookups c)) (t_root t) (JObj tree)"
    and s: "stamp L tree (rt_Project rt) = Inr (ck_tree c)" by metis
  from s obtain ls where put: "ck_tree c = put ''Labels'' (JObj ls) tree"
    and one: "\<And>k. k \<in> fst ` set tree \<Longrightarrow> EqualFold (folding L) k ''Labels'' \<Longrightarrow> k = ''Labels''"
    and ls: "member tree ''Labels'' = JNull \<and> ls = [(LabelKey, JStr (rt_Project rt))] \<or>
      (\<exists>old. member tree ''Labels'' = JObj old \<and> ls = put LabelKey (JStr (rt_Project rt)) old)"
    by (rule stamp_Inr) (rule that)
  have "{k \<in> fst ` set (ck_tree c). ''Labels'' = ''*'' \<or> EqualFold (folding L) k ''Labels''} = {''Labels''}"
    using one unfolding put by auto
  then have reads: "daemon_reads (folding L) [''Labels''] (JObj (ck_tree c)) = {JObj ls}"
    by (simp add: put)
  have only: "k = ''frisket.project''" if "k \<in> fst ` set ls" "8 \<le> length k" "EqualFold (folding L) (take 8 k) ''frisket.''" for k
  proof -
    from ls show ?thesis
    proof (elim disjE exE conjE)
      fix old assume old: "member tree ''Labels'' = JObj old" "ls = put LabelKey (JStr (rt_Project rt)) old"
      have "k \<notin> fst ` set old"
      proof
        assume "k \<in> fst ` set old"
        with body_labels [OF assms(1,3) fits old(1)] have "label_ok L (k, member old k)"
          by (auto simp: labels_fit_def list_all_iff)
        with that(2,3) show False by (simp add: label_ok_def)
      qed
      with that(1) old(2) show ?thesis by simp
    qed (use that(1) in simp)
  qed
  have "map_of ls ''frisket.project'' = Some (JStr (rt_Project rt))" using ls by auto
  with reads only show ?thesis by blast
qed

lemma demo_stamped: "''ContainerCreate'' \<in> set stamps"
  by (simp add: stamps_def)

theorem stamped_labels_witness:
  "\<exists>ls. daemon_reads (folding demo_lib) [''Labels''] (JObj (ck_tree demo_checked)) = {JObj ls} \<and>
     map_of ls ''frisket.project'' = Some (JStr ''me/box'')"
  using stamped_labels [OF demo_compiles demo_checks demo_stamped] by (auto simp: demo_route_def)

text \<open>
  C20: The walk implements what a table means. Of a body that passed a compiled table, the tree that goes
  upstream is one the table's specification \<open>fits\<close>, with every name it holds among those handed back to
  be looked up, and nothing but the labels' stamp is different from it.
\<close>

theorem Check_refines:
  assumes "Compile (folding L) tokenized name raw = Inr t" "Check L t body rt = Inr c"
  shows "\<exists>tree. fits L name rt (set (ck_Lookups c)) (t_root t) (JObj tree) \<and>
    (if name \<in> set stamps then stamp L tree (rt_Project rt) = Inr (ck_tree c) else ck_tree c = tree)"
proof -
  from assms(1) obtain rs where rs: "map_of floors name = Some rs"
    by (cases "map_of floors name") (simp_all add: Compile_def)
  note t = Compile_Inr [OF assms(1) rs] Compile_struct [OF assms(1)]
  from Check_Inr [OF assms(2) t(1,5)] t(2) show ?thesis by metis
qed

theorem Check_refines_witness:
  "\<exists>tree. fits demo_lib ''ContainerCreate'' demo_route (set (ck_Lookups demo_checked)) (t_root demo_table) (JObj tree)"
  using Check_refines [OF demo_compiles demo_checks] by blast

end
