(* ===== verification/Docker_Filter.thy ===== *)
theory Docker_Filter
  imports Docker_Values
begin

text \<open>
  The \<open>filters\<close> of a list, \<open>internal/dockerapi/filter.go\<close>, narrowed to the project.
\<close>

type_synonym terms = "(string \<times> bool) list"

section \<open>Merging\<close>

fun object_terms :: "members \<Rightarrow> terms \<Rightarrow> terms option" where
  "object_terms [] acc = Some acc"
| "object_terms ((k, JBool b) # m) acc = object_terms m (put k True acc)"
| "object_terms (_ # m) acc = None"

fun array_terms :: "json list \<Rightarrow> terms \<Rightarrow> terms option" where
  "array_terms [] acc = Some acc"
| "array_terms (JStr s # arr) acc = array_terms arr (put s True acc)"
| "array_terms (_ # arr) acc = None"

fun filterTerms :: "json \<Rightarrow> terms option" where
  "filterTerms (JObj m) = object_terms m []"
| "filterTerms (JArr arr) = array_terms arr []"
| "filterTerms _ = None"

definition bad_query :: "string \<Rightarrow> body_refusal" where
  "bad_query detail = \<lparr>bf_Reason = ReasonQuery, bf_Detail = detail\<rparr>"

fun merge_keys :: "string list \<Rightarrow> members \<Rightarrow> string list \<Rightarrow> (string \<times> terms) list \<Rightarrow>
    body_refusal + (string \<times> terms) list" where
  "merge_keys allowed tree [] merged = Inr merged"
| "merge_keys allowed tree (key # keys) merged =
     (if key \<notin> set allowed then Inl (bad_query ''a filter this operation does not allow'')
      else (case filterTerms (member tree key) of
          None \<Rightarrow> Inl (bad_query ''a filter that is not a set of strings'')
        | Some ts \<Rightarrow> merge_keys allowed tree keys (put key ts merged)))"

definition project_term :: "string \<Rightarrow> string" where
  "project_term project = LabelKey @ ''='' @ project"

definition with_project :: "string \<Rightarrow> (string \<times> terms) list \<Rightarrow> (string \<times> terms) list" where
  "with_project project merged =
     put ''label''
       (put (project_term project) True (case map_of merged ''label'' of None \<Rightarrow> [] | Some ts \<Rightarrow> ts)) merged"

definition query_tree :: "(string \<Rightarrow> token list) \<Rightarrow> string \<Rightarrow> failure + members" where
  "query_tree tokenized raw = (if raw = [] then Inr [] else Read tokenized raw)"

definition MergeFilter :: "(string \<Rightarrow> token list) \<Rightarrow> string \<Rightarrow> string list \<Rightarrow> string \<Rightarrow>
    body_refusal + (string \<times> terms) list" where
  "MergeFilter tokenized raw allowed project =
     ok_then
       (case query_tree tokenized raw of
          Inl e \<Rightarrow> Inl (bad_query ''filters is not a JSON object'')
        | Inr tree \<Rightarrow> merge_keys allowed tree (sortedKeys tree) [])
       (\<lambda>merged. Inr (with_project project merged))"

section \<open>What a merged filter lists\<close>

text \<open>The terms a filter value holds, however it was written.\<close>

fun asked :: "json \<Rightarrow> string set" where
  "asked (JObj m) = fst ` set m"
| "asked (JArr arr) = {s. JStr s \<in> set arr}"
| "asked _ = {}"

lemma all_put: "list_all snd acc \<Longrightarrow> list_all snd (put k True acc)"
  by (induction acc) auto

lemma object_terms:
  "object_terms m acc = Some ts \<Longrightarrow> fst ` set ts = fst ` set m \<union> fst ` set acc"
  "object_terms m acc = Some ts \<Longrightarrow> list_all snd acc \<Longrightarrow> list_all snd ts"
  by (induction m acc rule: object_terms.induct) (simp_all add: all_put)

lemma array_terms:
  "array_terms arr acc = Some ts \<Longrightarrow> fst ` set ts = {s. JStr s \<in> set arr} \<union> fst ` set acc"
  "array_terms arr acc = Some ts \<Longrightarrow> list_all snd acc \<Longrightarrow> list_all snd ts"
proof (induction arr acc rule: array_terms.induct)
  case (2 s arr acc)
  { case 1
    have "{x. JStr x \<in> set (JStr s # arr)} = insert s {x. JStr x \<in> set arr}" by auto
    moreover from 1 have "fst ` set ts = {x. JStr x \<in> set arr} \<union> fst ` set (put s True acc)"
      using "2.IH"(1) by simp
    ultimately show ?case by simp
  next
    case 2
    then show ?case using "2.IH"(2) by (simp add: all_put) }
qed simp_all

lemma filterTerms_asked:
  assumes "filterTerms v = Some ts"
  shows "fst ` set ts = asked v" "list_all snd ts"
proof -
  show "fst ` set ts = asked v" using assms by (cases v) (simp_all add: object_terms(1) array_terms(1))
  show "list_all snd ts" using assms by (cases v) (simp_all add: object_terms(2) array_terms(2))
qed


lemma merge_keys_terms:
  assumes "merge_keys allowed tree keys acc = Inr merged" "distinct keys" "set keys \<inter> fst ` set acc = {}"
  shows "fst ` set merged = set keys \<union> fst ` set acc" "set keys \<subseteq> set allowed"
    "k \<in> set keys \<Longrightarrow> \<exists>ts. map_of merged k = Some ts \<and> fst ` set ts = asked (member tree k) \<and> list_all snd ts"
    "k \<notin> set keys \<Longrightarrow> map_of merged k = map_of acc k"
proof -
  have "fst ` set merged = set keys \<union> fst ` set acc \<and> set keys \<subseteq> set allowed \<and>
    (\<forall>k. k \<in> set keys \<longrightarrow> (\<exists>ts. map_of merged k = Some ts \<and> fst ` set ts = asked (member tree k) \<and> list_all snd ts)) \<and>
    (\<forall>k. k \<notin> set keys \<longrightarrow> map_of merged k = map_of acc k)"
    using assms
  proof (induction keys arbitrary: acc)
    case (Cons key keys)
    from Cons.prems(1) obtain ts where k: "key \<in> set allowed" and t: "filterTerms (member tree key) = Some ts"
      and m: "merge_keys allowed tree keys (put key ts acc) = Inr merged"
      by (simp split: if_splits option.splits)
    from Cons.prems(2,3) have d: "distinct keys" "set keys \<inter> fst ` set (put key ts acc) = {}"
      and n: "key \<notin> set keys" by auto
    note ih = Cons.IH [OF m d]
    from ih n have "map_of merged key = Some ts" by simp
    with ih k n filterTerms_asked [OF t] show ?case by auto
  qed simp
  then show "fst ` set merged = set keys \<union> fst ` set acc" "set keys \<subseteq> set allowed"
    "k \<in> set keys \<Longrightarrow> \<exists>ts. map_of merged k = Some ts \<and> fst ` set ts = asked (member tree k) \<and> list_all snd ts"
    "k \<notin> set keys \<Longrightarrow> map_of merged k = map_of acc k"
    by blast+
qed

text \<open>What is asked with a list, and what goes to the daemon for it: the same keys with the same terms, and the
  project's label among those of \<open>label\<close>.\<close>

definition narrowed :: "string list \<Rightarrow> string \<Rightarrow> members \<Rightarrow> (string \<times> terms) list \<Rightarrow> bool" where
  "narrowed allowed project tree merged \<longleftrightarrow>
     fst ` set tree \<subseteq> set allowed \<and> fst ` set merged = insert ''label'' (fst ` set tree) \<and>
     (\<forall>key ts. map_of merged key = Some ts \<longrightarrow>
        fst ` set ts = asked (member tree key) \<union> (if key = ''label'' then {''frisket.project='' @ project} else {}) \<and>
        list_all snd ts)"

text \<open>
  A list's \<open>filters\<close> that \<open>MergeFilter\<close> passes hold the project's label term beside what was asked, and
  nothing else: every key asked for is allowed and none is added but \<open>label\<close>; the terms of every other
  key are the ones asked; those of \<open>label\<close> are the ones asked and \<open>frisket.project=<project>\<close>; and every
  term is true. Since the daemon ANDs the terms of \<open>label\<close>, what it lists is narrowed to the project.
\<close>

theorem MergeFilter_narrows:
  assumes "query_tree tokenized raw = Inr tree" "MergeFilter tokenized raw allowed project = Inr merged"
    and "map_of merged key = Some ts"
  shows "fst ` set tree \<subseteq> set allowed \<and> fst ` set merged = insert ''label'' (fst ` set tree) \<and>
    fst ` set ts = asked (member tree key) \<union> (if key = ''label'' then {''frisket.project='' @ project} else {}) \<and>
    list_all snd ts"
proof -
  from assms(1,2) obtain ms where k: "merge_keys allowed tree (sortedKeys tree) [] = Inr ms"
    and m: "merged = with_project project ms"
    by (auto simp: MergeFilter_def query_tree_def ok_then_Inr sortedKeys_def split: if_splits)
  have d: "distinct (sortedKeys tree)"
    using assms(1) by (auto simp: query_tree_def sortedKeys_def dest: Read_ok(1) split: if_splits)
  note asked = merge_keys_terms [OF k d, simplified]
  have other: "asked (member tree key) = {}" if "key \<notin> fst ` set tree"
  proof -
    from that have "map_of tree key = None" by (simp add: map_of_eq_None_iff)
    then show ?thesis by (simp add: member_def)
  qed
  have "fst ` set ts = asked (member tree key) \<union> (if key = ''label'' then {''frisket.project='' @ project} else {}) \<and>
    list_all snd ts"
  proof (cases "key = ''label''")
    case True
    with assms(3) m have ts: "ts = put (project_term project) True
        (case map_of ms ''label'' of None \<Rightarrow> [] | Some ts \<Rightarrow> ts)" by (simp add: with_project_def)
    show ?thesis
    proof (cases "''label'' \<in> fst ` set tree")
      case True
      from asked(3) [OF this] obtain t where t: "map_of ms ''label'' = Some t"
        "fst ` set t = asked (member tree ''label'')" "list_all snd t" by blast
      then have "fst ` set ts = insert (project_term project) (asked (member tree ''label''))" "list_all snd ts"
        by (simp_all add: ts all_put)
      with \<open>key = ''label''\<close> show ?thesis by (simp add: project_term_def)
    next
      case False
      with asked(4) [of "''label''"] ts \<open>key = ''label''\<close> other show ?thesis
        by (auto simp: project_term_def)
    qed
  next
    case False
    with assms(3) m have "map_of ms key = Some ts" by (simp add: with_project_def)
    with False asked(3) [of key] asked(4) [of key] show ?thesis by (cases "key \<in> fst ` set tree") auto
  qed
  with asked(1,2) m show ?thesis by (simp add: with_project_def)
qed

definition filter_tokens :: "string \<Rightarrow> token list" where
  "filter_tokens body = [Delim CHR ''{'', TStr ''label'', Delim CHR ''['', TStr ''a=b'', Delim CHR '']'', Delim CHR ''}'']"

theorem MergeFilter_narrows_witness:
  "fst ` set [(''frisket.project=me/box'', True), (''a=b'', True)] =
     asked (JArr [JStr ''a=b'']) \<union> {''frisket.project=me/box''}"
proof -
  have r: "query_tree filter_tokens ''{}'' = Inr [(''label'', JArr [JStr ''a=b''])]" by code_simp
  have m: "MergeFilter filter_tokens ''{}'' [''label''] ''me/box'' =
      Inr [(''label'', [(''a=b'', True), (''frisket.project=me/box'', True)])]" by code_simp
  from MergeFilter_narrows [OF r m, of "''label''"] show ?thesis by (auto simp: member_def)
qed

end
