(* ===== verification/Docker_Locks.thy ===== *)
theory Docker_Locks
  imports Prelude "HOL-Library.List_Lexorder" "HOL-Library.Char_ord"
begin

text \<open>
  The names Docker requests hold while the daemon acts on them, \<open>nameLocks\<close> and \<open>claim\<close> of
  \<open>internal/intercept/owned.go\<close>: each name on a daemon has one turn, a request takes the names it acts on
  in order, and lets them go when the daemon has answered.

  The requests are goroutines that share the locks. \<open>move\<close> is one part of one request between the points
  where others may run: under the mutex, at the channel of a turn, or none of these. Pointers to locks are
  numbers; a lock that is dropped and made again is another number.
\<close>

section \<open>State\<close>

record name_key =
  nk_socket :: string
  nk_kind :: string
  nk_name :: string

text \<open>What a request is doing: not begun, taking the names it has still to take, waiting for the turn of
  one, acting with all of them held, letting go, between giving up a turn and forgetting it, or over.\<close>

datatype stage =
  Fresh
| Taking "name_key list"
| Waiting name_key nat "name_key list"
| Acting
| Releasing
| Dropping name_key nat
| Over

text \<open>\<open>held\<close> is a request's locks, the last taken first, as \<open>release\<close> goes through them.\<close>

record claim =
  cm_place :: stage
  cm_held :: "(name_key \<times> nat) list"

record names =
  ns_held :: "name_key \<Rightarrow> nat option"
  ns_turn :: "nat \<Rightarrow> bool"
  ns_refs :: "nat \<Rightarrow> nat"
  ns_next :: nat
  ns_claims :: "nat \<Rightarrow> claim"

definition fresh_claim :: claim where
  "fresh_claim = \<lparr>cm_place = Fresh, cm_held = []\<rparr>"

definition heldNames :: names where
  "heldNames =
     \<lparr>ns_held = Map.empty, ns_turn = (\<lambda>_. False), ns_refs = (\<lambda>_. 0), ns_next = 0, ns_claims = (\<lambda>_. fresh_claim)\<rparr>"

section \<open>Operations\<close>

definition ordered :: "name_key \<Rightarrow> string" where
  "ordered k = nk_kind k @ CHR 0x00 # nk_name k"

text \<open>The order a request takes its names in, each once.\<close>

definition lock_order :: "name_key list \<Rightarrow> name_key list" where
  "lock_order keys = remdups_adj (sort_key ordered keys)"

definition with_place :: "nat \<Rightarrow> stage \<Rightarrow> (name_key \<times> nat) list \<Rightarrow> names \<Rightarrow> names" where
  "with_place p pc held s = s\<lparr>ns_claims := (ns_claims s)(p := \<lparr>cm_place = pc, cm_held = held\<rparr>)\<rparr>"

text \<open>\<open>take\<close>, up to where it waits: the name's lock, made if there is none, and one more who wants it.\<close>

definition enter_name :: "name_key \<Rightarrow> names \<Rightarrow> nat \<times> names" where
  "enter_name k s =
     (case ns_held s k of
        Some l \<Rightarrow> (l, s\<lparr>ns_refs := (ns_refs s)(l := ns_refs s l + 1)\<rparr>)
      | None \<Rightarrow>
          (ns_next s,
           s\<lparr>ns_held := (ns_held s)(k \<mapsto> ns_next s), ns_turn := (ns_turn s)(ns_next s := False),
             ns_refs := (ns_refs s)(ns_next s := 1), ns_next := ns_next s + 1\<rparr>))"

definition drop_name :: "name_key \<Rightarrow> nat \<Rightarrow> names \<Rightarrow> names" where
  "drop_name k l s =
     (let s = s\<lparr>ns_refs := (ns_refs s)(l := ns_refs s l - 1)\<rparr>
      in if ns_refs s l = 0 then s\<lparr>ns_held := (ns_held s)(k := None)\<rparr> else s)"

definition waiting :: "names \<Rightarrow> name_key \<Rightarrow> nat" where
  "waiting s k = (case ns_held s k of None \<Rightarrow> 0 | Some l \<Rightarrow> ns_refs s l)"

datatype event = Start "name_key list" | Enter | Turn | Give_up | Act | Answered | Untake | Forget

text \<open>The part \<open>e\<close> of request \<open>p\<close>, if it can be done now. A turn that is taken cannot be taken, and one
  that is not cannot be given up: there the request waits.\<close>

definition move_name :: "event \<Rightarrow> nat \<Rightarrow> names \<Rightarrow> names option" where
  "move_name e p s =
     (let held = cm_held (ns_claims s p) in
      case cm_place (ns_claims s p) of
        Fresh \<Rightarrow> (case e of Start keys \<Rightarrow> Some (with_place p (Taking (lock_order keys)) held s) | _ \<Rightarrow> None)
      | Taking [] \<Rightarrow> if e = Act then Some (with_place p Acting held s) else None
      | Taking (k # ks) \<Rightarrow>
          if e = Enter then Some (with_place p (Waiting k (fst (enter_name k s)) ks) held (snd (enter_name k s))) else None
      | Waiting k l ks \<Rightarrow>
          if e = Turn \<and> \<not> ns_turn s l
          then Some (with_place p (Taking ks) ((k, l) # held) (s\<lparr>ns_turn := (ns_turn s)(l := True)\<rparr>))
          else if e = Give_up then Some (with_place p Releasing held (drop_name k l s))
          else None
      | Acting \<Rightarrow> if e = Answered then Some (with_place p Releasing held s) else None
      | Releasing \<Rightarrow>
          if e \<noteq> Untake then None
          else (case held of
              [] \<Rightarrow> Some (with_place p Over [] s)
            | (k, l) # hs \<Rightarrow>
                if ns_turn s l
                then Some (with_place p (Dropping k l) hs (s\<lparr>ns_turn := (ns_turn s)(l := False)\<rparr>))
                else None)
      | Dropping k l \<Rightarrow> if e = Forget then Some (with_place p Releasing held (drop_name k l s)) else None
      | Over \<Rightarrow> None)"

text \<open>The keys of one request: all on its route's daemon, of a kind \<open>claim\<close> knows.\<close>

definition one_daemon :: "name_key list \<Rightarrow> bool" where
  "one_daemon keys \<longleftrightarrow> list_all (\<lambda>k. nk_socket k = nk_socket (hd keys) \<and> nk_kind k \<in> {''volume'', ''network''}) keys"

inductive names_reach :: "names \<Rightarrow> bool" where
  start: "names_reach heldNames"
| step: "names_reach s \<Longrightarrow> move_name e p s = Some s' \<Longrightarrow> (\<And>keys. e = Start keys \<Longrightarrow> one_daemon keys) \<Longrightarrow> names_reach s'"

section \<open>What a request may do, case by case\<close>

lemma move_name_cases:
  assumes "move_name e p s = Some s'"
  obtains
    (start) keys where "e = Start keys" "cm_place (ns_claims s p) = Fresh"
      "s' = with_place p (Taking (lock_order keys)) (cm_held (ns_claims s p)) s"
  | (enter) k ks where "e = Enter" "cm_place (ns_claims s p) = Taking (k # ks)"
      "s' = with_place p (Waiting k (fst (enter_name k s)) ks) (cm_held (ns_claims s p)) (snd (enter_name k s))"
  | (turn) k l ks where "e = Turn" "cm_place (ns_claims s p) = Waiting k l ks" "\<not> ns_turn s l"
      "s' = with_place p (Taking ks) ((k, l) # cm_held (ns_claims s p)) (s\<lparr>ns_turn := (ns_turn s)(l := True)\<rparr>)"
  | (give_up) k l ks where "e = Give_up" "cm_place (ns_claims s p) = Waiting k l ks"
      "s' = with_place p Releasing (cm_held (ns_claims s p)) (drop_name k l s)"
  | (quiet) pc where "e \<in> {Act, Answered, Untake}" "cm_place (ns_claims s p) = Taking [] \<and> pc = Acting \<or> cm_place (ns_claims s p) = Acting \<and> pc = Releasing \<or>
        cm_place (ns_claims s p) = Releasing \<and> cm_held (ns_claims s p) = [] \<and> pc = Over"
      "s' = with_place p pc (cm_held (ns_claims s p)) s"
  | (untake) k l hs where "e = Untake" "cm_place (ns_claims s p) = Releasing" "cm_held (ns_claims s p) = (k, l) # hs" "ns_turn s l"
      "s' = with_place p (Dropping k l) hs (s\<lparr>ns_turn := (ns_turn s)(l := False)\<rparr>)"
  | (forget) k l where "e = Forget" "cm_place (ns_claims s p) = Dropping k l"
      "s' = with_place p Releasing (cm_held (ns_claims s p)) (drop_name k l s)"
proof (cases "cm_place (ns_claims s p)")
  case Fresh
  with assms show thesis by (cases e) (auto simp: move_name_def intro: start)
next
  case (Taking ks)
  with assms show thesis by (cases ks) (auto simp: move_name_def split: if_splits intro: enter quiet)
next
  case Releasing
  with assms show thesis
    by (cases "cm_held (ns_claims s p)") (auto simp: move_name_def split: if_splits prod.splits intro: untake quiet)
qed (use assms in \<open>auto simp: move_name_def Let_def split: if_splits intro: turn give_up quiet forget\<close>)

section \<open>What every step keeps\<close>

text \<open>The names of a request, those it holds first, in the order it takes them.\<close>

definition keys_of :: "claim \<Rightarrow> name_key list" where
  "keys_of c = rev (map fst (cm_held c)) @
     (case cm_place c of Taking ks \<Rightarrow> ks | Waiting k l ks \<Rightarrow> k # ks | Dropping k l \<Rightarrow> [k] | _ \<Rightarrow> [])"

definition claim_ok :: "claim \<Rightarrow> bool" where
  "claim_ok c \<longleftrightarrow> sorted_wrt (\<lambda>a b. ordered a < ordered b) (keys_of c) \<and>
     (cm_place c = Fresh \<or> cm_place c = Over \<longrightarrow> cm_held c = [])"

text \<open>A request counts for a lock while it holds it, waits for it, or has yet to forget it.\<close>

definition uses :: "claim \<Rightarrow> name_key \<Rightarrow> nat \<Rightarrow> bool" where
  "uses c k l \<longleftrightarrow> (k, l) \<in> set (cm_held c) \<or> (\<exists>ks. cm_place c = Waiting k l ks) \<or> cm_place c = Dropping k l"

definition users :: "names \<Rightarrow> name_key \<Rightarrow> nat \<Rightarrow> nat set" where
  "users s k l = {p. uses (ns_claims s p) k l}"

definition holders :: "names \<Rightarrow> name_key \<Rightarrow> nat \<Rightarrow> nat set" where
  "holders s k l = {p. (k, l) \<in> set (cm_held (ns_claims s p))}"

text \<open>The locks, by who uses and who holds each: a lock is the one of its name while somebody uses it, its
  count is how many do, and its turn is taken while one of them holds it.\<close>

definition locks_ok :: "(name_key \<Rightarrow> nat option) \<Rightarrow> (nat \<Rightarrow> bool) \<Rightarrow> (nat \<Rightarrow> nat) \<Rightarrow> nat \<Rightarrow>
    (name_key \<Rightarrow> nat \<Rightarrow> nat set) \<Rightarrow> (name_key \<Rightarrow> nat \<Rightarrow> nat set) \<Rightarrow> bool" where
  "locks_ok m t r n U H \<longleftrightarrow>
     (\<forall>k l. m k = Some l \<longleftrightarrow> U k l \<noteq> {}) \<and>
     (\<forall>k l. finite (U k l) \<and> H k l \<subseteq> U k l) \<and>
     (\<forall>k l. m k = Some l \<longrightarrow> l < n \<and> r l = card (U k l) \<and> (t l \<longleftrightarrow> H k l \<noteq> {})) \<and>
     (\<forall>k k' l. m k = Some l \<longrightarrow> m k' = Some l \<longrightarrow> k = k') \<and>
     (\<forall>k l p q. p \<in> H k l \<longrightarrow> q \<in> H k l \<longrightarrow> p = q)"

definition upd :: "name_key \<Rightarrow> nat \<Rightarrow> nat set \<Rightarrow> (name_key \<Rightarrow> nat \<Rightarrow> nat set) \<Rightarrow> name_key \<Rightarrow> nat \<Rightarrow> nat set" where
  "upd k l X U = (\<lambda>k' l'. if k' = k \<and> l' = l then X else U k' l')"

lemma upd_simps [simp]: "upd k l X U k l = X" "k' \<noteq> k \<or> l' \<noteq> l \<Longrightarrow> upd k l X U k' l' = U k' l'"
  by (auto simp: upd_def)

lemma locks_okD:
  assumes "locks_ok m t r n U H"
  shows "m k = Some l \<longleftrightarrow> U k l \<noteq> {}" "finite (U k l)" "H k l \<subseteq> U k l" "m k = Some l \<Longrightarrow> l < n"
    "m k = Some l \<Longrightarrow> r l = card (U k l)" "m k = Some l \<Longrightarrow> t l \<longleftrightarrow> H k l \<noteq> {}"
    "m k = Some l \<Longrightarrow> m k' = Some l \<Longrightarrow> k = k'" "p \<in> H k l \<Longrightarrow> q \<in> H k l \<Longrightarrow> p = q"
  using assms unfolding locks_ok_def by blast+

lemma enter_old:
  assumes "locks_ok m t r n U H" "m k = Some l" "p \<notin> U k l"
  shows "locks_ok m t (r(l := Suc (r l))) n (upd k l (insert p (U k l)) U) H"
proof -
  note d = locks_okD [OF assms(1)]
  have other: "l' \<noteq> l" if "m k' = Some l'" "k' \<noteq> k" for k' l' using d(7) assms(2) that by blast
  show ?thesis
    unfolding locks_ok_def upd_def using d assms(2,3) other by (auto simp: subset_iff)
qed

lemma enter_new:
  assumes "locks_ok m t r n U H" "m k = None"
  shows "locks_ok (m(k \<mapsto> n)) (t(n := False)) (r(n := 1)) (Suc n) (upd k n {p} U) H"
proof -
  note d = locks_okD [OF assms(1)]
  have none: "U k l = {}" "H k l = {}" for l using d(1,3) [of k l] assms(2) by auto
  have new: "U k' n = {}" "H k' n = {}" for k' using d(1,3,4) [of k' n] by fastforce+
  show ?thesis
    unfolding locks_ok_def upd_def using d none new less_SucI [OF d(4)] by (auto simp: subset_iff)
qed

lemma turn_taken:
  assumes "locks_ok m t r n U H" "p \<in> U k l" "\<not> t l"
  shows "locks_ok m (t(l := True)) r n U (upd k l {p} H)"
proof -
  note d = locks_okD [OF assms(1)]
  have m: "m k = Some l" using d(1) assms(2) by blast
  have other: "l' \<noteq> l" if "m k' = Some l'" "k' \<noteq> k" for k' l' using d(7) m that by blast
  have "H k l = {}" using d(6) [OF m] assms(3) by simp
  then show ?thesis
    unfolding locks_ok_def upd_def using d m assms(2) other by (auto simp: subset_iff)
qed

lemma turn_given:
  assumes "locks_ok m t r n U H" "p \<in> H k l"
  shows "locks_ok m (t(l := False)) r n U (upd k l (H k l - {p}) H)"
proof -
  note d = locks_okD [OF assms(1)]
  have m: "m k = Some l" using d(1,3) [of k l] assms(2) by blast
  have other: "l' \<noteq> l" if "m k' = Some l'" "k' \<noteq> k" for k' l' using d(7) m that by blast
  have "H k l = {p}" using d(8) assms(2) by blast
  then show ?thesis
    unfolding locks_ok_def upd_def using d m assms(2) other by (auto simp: subset_iff)
qed

lemma use_dropped:
  assumes "locks_ok m t r n U H" "p \<in> U k l" "p \<notin> H k l"
  shows "locks_ok (if r l - 1 = 0 then m(k := None) else m) t (r(l := r l - 1)) n (upd k l (U k l - {p}) U) H"
proof -
  note d = locks_okD [OF assms(1)]
  have m: "m k = Some l" using d(1) assms(2) by blast
  have other: "l' \<noteq> l" if "m k' = Some l'" "k' \<noteq> k" for k' l' using d(7) m that by blast
  have card: "r l - 1 = card (U k l - {p})" using d(5) [OF m] d(2) assms(2) by simp
  then have empty: "r l - 1 = 0 \<longleftrightarrow> U k l - {p} = {}" using d(2) [of k l] by auto
  have sub: "H k l \<subseteq> U k l - {p}" using d(3) assms(3) by blast
  have same: "U k l' = {}" if "l' \<noteq> l" for l' using d(1) [of k l'] m that by auto
  show ?thesis
  proof (cases "r l - 1 = 0")
    case True
    with empty sub have e: "U k l - {p} = {}" "H k l = {}" by blast+
    show ?thesis
      unfolding locks_ok_def upd_def using d m other same e True by (auto simp: subset_iff)
  next
    case False
    with empty have e: "U k l - {p} \<noteq> {}" by blast
    show ?thesis
      unfolding locks_ok_def upd_def using d m other e False card sub by (auto simp: subset_iff)
  qed
qed

section \<open>The invariant\<close>

definition names_ok :: "names \<Rightarrow> bool" where
  "names_ok s \<longleftrightarrow> (\<forall>p. claim_ok (ns_claims s p)) \<and>
     locks_ok (ns_held s) (ns_turn s) (ns_refs s) (ns_next s) (users s) (holders s)"

lemma claims_with: "ns_claims (with_place p pc h s) q = (if q = p then \<lparr>cm_place = pc, cm_held = h\<rparr> else ns_claims s q)"
  by (simp add: with_place_def)

lemma fields_with [simp]:
  "ns_held (with_place p pc h s) = ns_held s" "ns_turn (with_place p pc h s) = ns_turn s"
  "ns_refs (with_place p pc h s) = ns_refs s" "ns_next (with_place p pc h s) = ns_next s"
  by (simp_all add: with_place_def)

lemma names_okI:
  assumes "names_ok s" "claim_ok \<lparr>cm_place = pc, cm_held = h\<rparr>" "ns_claims s0 = ns_claims s"
    and "users (with_place p pc h s0) = U" "holders (with_place p pc h s0) = H"
    and "locks_ok (ns_held s0) (ns_turn s0) (ns_refs s0) (ns_next s0) U H"
  shows "names_ok (with_place p pc h s0)"
  using assms by (simp add: names_ok_def claims_with)

lemma sorted_distinct: "sorted_wrt (\<lambda>a b. ordered a < ordered b) ks \<Longrightarrow> distinct ks"
  by (induction ks) auto

lemma held_key: "(k, l) \<in> set (cm_held c) \<Longrightarrow> k \<in> set (map fst (cm_held c))"
  by force

text \<open>What a request waits for or has yet to forget, it does not hold.\<close>

lemma not_held:
  assumes "claim_ok c" "cm_place c = Taking (k # ks) \<or> cm_place c = Waiting k l ks \<or> cm_place c = Dropping k l"
  shows "(k, l') \<notin> set (cm_held c)"
proof -
  from assms have "distinct (keys_of c)" by (simp add: claim_ok_def sorted_distinct)
  with assms(2) have "k \<notin> set (map fst (cm_held c))" by (auto simp: keys_of_def)
  then show ?thesis using held_key by blast
qed

lemma order_strict:
  fixes f :: "'a \<Rightarrow> 'b::linorder"
  shows "sorted (map f xs) \<Longrightarrow> inj_on f (set xs) \<Longrightarrow> sorted_wrt (\<lambda>a b. f a < f b) (remdups_adj xs)"
proof (induction xs rule: remdups_adj.induct)
  case (3 x y xs)
  show ?case
  proof (cases "x = y")
    case True
    with 3 show ?thesis by simp
  next
    case False
    with 3(3,4) have "f x < f y" by (auto simp: inj_on_def less_le)
    moreover have "f y \<le> f z" if "z \<in> set (y # xs)" for z using 3(3) that by auto
    ultimately have "\<forall>z \<in> set (remdups_adj (y # xs)). f x < f z" by (auto intro: less_le_trans)
    moreover have "sorted_wrt (\<lambda>a b. f a < f b) (remdups_adj (y # xs))" using 3 False by (auto simp: inj_on_def)
    ultimately show ?thesis using False by simp
  qed
qed simp_all

lemma ordered_inj: "one_daemon keys \<Longrightarrow> inj_on ordered (set keys)"
proof (rule inj_onI)
  fix a b
  assume "one_daemon keys" "a \<in> set keys" "b \<in> set keys" "ordered a = ordered b"
  moreover from calculation have "nk_socket a = nk_socket b" "nk_kind a \<in> {''volume'', ''network''}" "nk_kind b \<in> {''volume'', ''network''}"
    by (auto simp: one_daemon_def list_all_iff)
  ultimately show "a = b"
    by (cases a; cases b) (auto simp: ordered_def)
qed

lemma lock_order_strict: "one_daemon keys \<Longrightarrow> sorted_wrt (\<lambda>a b. ordered a < ordered b) (lock_order keys)"
  unfolding lock_order_def using order_strict [of ordered "sort_key ordered keys"] ordered_inj by simp

lemma users_with:
  "ns_claims s0 = ns_claims s \<Longrightarrow> users (with_place p pc h s0) k l =
     (if uses \<lparr>cm_place = pc, cm_held = h\<rparr> k l then insert p (users s k l) else users s k l - {p})"
  by (auto simp: users_def claims_with)

lemma holders_with:
  "ns_claims s0 = ns_claims s \<Longrightarrow> holders (with_place p pc h s0) k l =
     (if (k, l) \<in> set h then insert p (holders s k l) else holders s k l - {p})"
  by (auto simp: holders_def claims_with)

lemma in_users: "p \<in> users s k l \<longleftrightarrow> uses (ns_claims s p) k l"
  by (simp add: users_def)

lemma in_holders: "p \<in> holders s k l \<longleftrightarrow> (k, l) \<in> set (cm_held (ns_claims s p))"
  by (simp add: holders_def)

text \<open>A part that changes neither what a request holds nor what it waits for changes no lock.\<close>

lemma same_locks:
  assumes "\<And>k l. uses \<lparr>cm_place = pc, cm_held = cm_held (ns_claims s p)\<rparr> k l \<longleftrightarrow> uses (ns_claims s p) k l"
  shows "users (with_place p pc (cm_held (ns_claims s p)) s) = users s"
    "holders (with_place p pc (cm_held (ns_claims s p)) s) = holders s"
  using assms by (auto simp: fun_eq_iff users_with [OF refl] holders_with [OF refl] in_users in_holders)

lemma turn_claims: "ns_claims (s\<lparr>ns_turn := t\<rparr>) = ns_claims s"
  by simp

lemma enter_fields:
  "ns_claims (snd (enter_name k s)) = ns_claims s"
  "ns_held s k = Some l \<Longrightarrow> enter_name k s = (l, s\<lparr>ns_refs := (ns_refs s)(l := Suc (ns_refs s l))\<rparr>)"
  by (auto simp: enter_name_def split: option.split)

lemma drop_fields:
  "ns_claims (drop_name k l s) = ns_claims s" "ns_turn (drop_name k l s) = ns_turn s"
  "ns_next (drop_name k l s) = ns_next s" "ns_refs (drop_name k l s) = (ns_refs s)(l := ns_refs s l - 1)"
  "ns_held (drop_name k l s) = (if ns_refs s l - 1 = 0 then (ns_held s)(k := None) else ns_held s)"
  by (auto simp: drop_name_def Let_def)

lemma names_ok_step:
  assumes ok: "names_ok s" and m: "move_name e p s = Some s'" and keys: "\<And>keys. e = Start keys \<Longrightarrow> one_daemon keys"
  shows "names_ok s'"
proof -
  have c: "claim_ok (ns_claims s p)" and l: "locks_ok (ns_held s) (ns_turn s) (ns_refs s) (ns_next s) (users s) (holders s)"
    using ok by (simp_all add: names_ok_def)
  note pics = fun_eq_iff upd_def in_users in_holders uses_def
  from m show ?thesis
  proof (cases rule: move_name_cases)
    case (start ks)
    then show ?thesis unfolding start(3)
      using c l lock_order_strict [OF keys [OF start(1)]]
      by (intro names_okI [OF ok _ refl same_locks]) (auto simp: uses_def claim_ok_def keys_of_def)
  next
    case (enter k ks)
    have nh: "(k, l') \<notin> set (cm_held (ns_claims s p))" for l' using not_held [OF c] enter(2) by blast
    let ?l = "fst (enter_name k s)"
    have out: "p \<notin> users s k l'" for l' using nh enter(2) by (simp add: pics)
    have U: "users s' = upd k ?l (insert p (users s k ?l)) (users s)" and H: "holders s' = holders s"
      unfolding enter(3) using nh enter(2)
      by (auto simp: pics users_with [OF enter_fields(1)] holders_with [OF enter_fields(1)])
    have ok': "locks_ok (ns_held (snd (enter_name k s))) (ns_turn (snd (enter_name k s))) (ns_refs (snd (enter_name k s)))
        (ns_next (snd (enter_name k s))) (upd k ?l (insert p (users s k ?l)) (users s)) (holders s)"
    proof (cases "ns_held s k")
      case None
      then have "users s k (ns_next s) = {}" using locks_okD(1) [OF l, of k "ns_next s"] by simp
      with None enter_new [OF l None, of p] show ?thesis by (simp add: enter_name_def)
    next
      case (Some l')
      from enter_old [OF l Some out] show ?thesis by (simp add: enter_fields(2) [OF Some])
    qed
    show ?thesis unfolding enter(3)
      by (rule names_okI [OF ok _ enter_fields(1) U [unfolded enter(3)] H [unfolded enter(3)] ok'])
        (use c enter(2) in \<open>simp add: claim_ok_def keys_of_def\<close>)
  next
    case (turn k l' ks)
    have p: "p \<in> users s k l'" using turn(2) by (simp add: pics)
    then have "ns_held s k = Some l'" using locks_okD(1) [OF l] by blast
    then have empty: "holders s k l' = {}" using locks_okD(6) [OF l] turn(3) by blast
    have U: "users s' = users s" and H: "holders s' = upd k l' {p} (holders s)"
      unfolding turn(4) using turn(2) empty
      by (auto simp: pics users_with [OF turn_claims] holders_with [OF turn_claims])
    from turn_taken [OF l p turn(3)] show ?thesis unfolding turn(4)
      by (intro names_okI [OF ok _ _ U [unfolded turn(4)] H [unfolded turn(4)]])
        (use c turn(2) in \<open>auto simp: claim_ok_def keys_of_def\<close>)
  next
    case (give_up k l' ks)
    have p: "p \<in> users s k l'" "p \<notin> holders s k l'" using give_up(2) not_held [OF c] by (auto simp: pics)
    have U: "users s' = upd k l' (users s k l' - {p}) (users s)" and H: "holders s' = holders s"
      unfolding give_up(3) using give_up(2) p
      by (auto simp: pics users_with [OF drop_fields(1)] holders_with [OF drop_fields(1)])
    from use_dropped [OF l p] show ?thesis unfolding give_up(3)
      by (intro names_okI [OF ok _ drop_fields(1) U [unfolded give_up(3)] H [unfolded give_up(3)]])
        (use c give_up(2) in \<open>auto simp: claim_ok_def keys_of_def drop_fields sorted_wrt_append\<close>)
  next
    case (quiet pc)
    then show ?thesis unfolding quiet(3) using c l
      by (intro names_okI [OF ok _ refl same_locks]) (auto simp: uses_def claim_ok_def keys_of_def)
  next
    case (untake k l' hs)
    have p: "p \<in> holders s k l'" using untake(3) by (simp add: in_holders)
    have nd: "(k, l'') \<notin> set hs" for l''
      using c untake(2,3) sorted_distinct [of "keys_of (ns_claims s p)"] held_key [of k l'' "\<lparr>cm_place = Over, cm_held = hs\<rparr>"]
      by (auto simp: claim_ok_def keys_of_def)
    have U: "users s' = users s" and H: "holders s' = upd k l' (holders s k l' - {p}) (holders s)"
      unfolding untake(5) using untake(2,3) nd
      by (auto simp: pics users_with [OF turn_claims] holders_with [OF turn_claims])
    from turn_given [OF l p] show ?thesis unfolding untake(5)
      by (intro names_okI [OF ok _ _ U [unfolded untake(5)] H [unfolded untake(5)]])
        (use c untake(2,3) in \<open>auto simp: claim_ok_def keys_of_def\<close>)
  next
    case (forget k l')
    have p: "p \<in> users s k l'" "p \<notin> holders s k l'" using forget(2) not_held [OF c] by (auto simp: pics)
    have U: "users s' = upd k l' (users s k l' - {p}) (users s)" and H: "holders s' = holders s"
      unfolding forget(3) using forget(2) p
      by (auto simp: pics users_with [OF drop_fields(1)] holders_with [OF drop_fields(1)])
    from use_dropped [OF l p] show ?thesis unfolding forget(3)
      by (intro names_okI [OF ok _ drop_fields(1) U [unfolded forget(3)] H [unfolded forget(3)]])
        (use c forget(2) in \<open>auto simp: claim_ok_def keys_of_def drop_fields sorted_wrt_append\<close>)
  qed
qed

lemma names_reach_ok: "names_reach s \<Longrightarrow> names_ok s"
proof (induction rule: names_reach.induct)
  case start
  show ?case
    by (auto simp: names_ok_def heldNames_def fresh_claim_def claim_ok_def keys_of_def locks_ok_def users_def holders_def uses_def)
next
  case (step s e p s')
  then show ?case using names_ok_step by blast
qed

lemma uses_cases: "(\<exists>l. uses c k l) \<longleftrightarrow> k \<in> set (map fst (cm_held c)) \<or> (\<exists>l ks. cm_place c = Waiting k l ks) \<or> (\<exists>l. cm_place c = Dropping k l)"
  by (force simp: uses_def)

section \<open>Runs\<close>

fun run_names :: "(event \<times> nat) list \<Rightarrow> names \<Rightarrow> names option" where
  "run_names [] s = Some s"
| "run_names ((e, p) # es) s = (case move_name e p s of None \<Rightarrow> None | Some s' \<Rightarrow> run_names es s')"

fun starts_ok :: "event \<Rightarrow> bool" where
  "starts_ok (Start keys) = one_daemon keys"
| "starts_ok _ = True"

lemma run_reach: "run_names es s = Some s' \<Longrightarrow> names_reach s \<Longrightarrow> list_all (\<lambda>(e, p). starts_ok e) es \<Longrightarrow> names_reach s'"
proof (induction es s rule: run_names.induct)
  case (2 e p es s)
  then obtain s1 where m: "move_name e p s = Some s1" by (auto split: option.splits)
  have "names_reach s1" using names_reach.step [OF 2(3) m] 2(4) by (cases e) auto
  with 2 m show ?case by simp
qed simp

text \<open>The parts a request that has begun has still to do, if it gives nothing up.\<close>

definition left :: "claim \<Rightarrow> nat" where
  "left c = 2 * length (cm_held c) +
     (case cm_place c of Fresh \<Rightarrow> 0 | Taking ks \<Rightarrow> 4 * length ks + 3 | Waiting k l ks \<Rightarrow> 4 * length ks + 6
      | Acting \<Rightarrow> 2 | Releasing \<Rightarrow> 1 | Dropping k l \<Rightarrow> 2 | Over \<Rightarrow> 0)"

definition begun :: "names \<Rightarrow> nat set" where
  "begun s = {p. left (ns_claims s p) \<noteq> 0}"

lemma left_none: "claim_ok c \<Longrightarrow> left c = 0 \<longleftrightarrow> cm_place c \<in> {Fresh, Over}"
  by (cases "cm_place c") (auto simp: left_def claim_ok_def)

lemma move_other: "move_name e p s = Some s' \<Longrightarrow> q \<noteq> p \<Longrightarrow> ns_claims s' q = ns_claims s q"
  by (erule move_name_cases) (simp_all add: claims_with enter_fields(1) drop_fields(1))

lemma move_left:
  assumes "move_name e p s = Some s'" "cm_place (ns_claims s p) \<noteq> Fresh"
  shows "left (ns_claims s' p) < left (ns_claims s p)"
  using assms by (cases rule: move_name_cases) (auto simp: left_def claims_with)

lemma begun_finite: "names_reach s \<Longrightarrow> finite (begun s)"
proof (induction rule: names_reach.induct)
  case (step s e p s')
  have "begun s' \<subseteq> insert p (begun s)" using move_other [OF step(2)] by (auto simp: begun_def)
  then show ?case using step(4) finite_subset by blast
qed (simp add: begun_def heldNames_def fresh_claim_def left_def)

lemma held_finite:
  assumes "names_ok s"
  shows "finite (dom (ns_held s))"
proof (rule finite_imageD)
  have l: "locks_ok (ns_held s) (ns_turn s) (ns_refs s) (ns_next s) (users s) (holders s)" using assms by (simp add: names_ok_def)
  have "(\<lambda>k. the (ns_held s k)) ` dom (ns_held s) \<subseteq> {..<ns_next s}" using locks_okD(4) [OF l] by auto
  then show "finite ((\<lambda>k. the (ns_held s k)) ` dom (ns_held s))" using finite_subset by blast
  show "inj_on (\<lambda>k. the (ns_held s k)) (dom (ns_held s))" using locks_okD(7) [OF l] by (auto intro!: inj_onI)
qed

text \<open>A request that cannot go on waits for a name that is taken: one that lets go holds the turns it gives up.\<close>

lemma stuck:
  assumes ok: "names_ok s" and no: "\<And>e s'. e \<noteq> Give_up \<Longrightarrow> move_name e p s \<noteq> Some s'" and b: "cm_place (ns_claims s p) \<notin> {Fresh, Over}"
  obtains k l ks where "cm_place (ns_claims s p) = Waiting k l ks" "ns_turn s l" "ns_held s k = Some l"
proof -
  have l: "locks_ok (ns_held s) (ns_turn s) (ns_refs s) (ns_next s) (users s) (holders s)" using ok by (simp add: names_ok_def)
  have held: "ns_turn s l'" if "(k, l') \<in> set (cm_held (ns_claims s p))" for k l'
  proof -
    have h: "p \<in> holders s k l'" using that by (simp add: in_holders)
    then have "ns_held s k = Some l'" using locks_okD(1,3) [OF l, of k l'] by auto
    then show ?thesis using locks_okD(6) [OF l] h by blast
  qed
  show thesis
  proof (cases "cm_place (ns_claims s p)")
    case (Taking ks)
    with no [of Act] no [of Enter] show thesis by (cases ks) (auto simp: move_name_def)
  next
    case (Waiting k l' ks)
    moreover have "ns_turn s l'"
    proof (rule ccontr)
      assume "\<not> ns_turn s l'"
      with Waiting have "move_name Turn p s \<noteq> None" by (simp add: move_name_def Let_def)
      with no [of Turn] show False by auto
    qed
    moreover from Waiting have "users s k l' \<noteq> {}" using in_users [of p s k l'] by (auto simp: uses_def)
    then have "ns_held s k = Some l'" using locks_okD(1) [OF l] by blast
    ultimately show thesis using that by blast
  next
    case Acting
    with no [of Answered] show thesis by (auto simp: move_name_def)
  next
    case Releasing
    have "\<exists>s'. move_name Untake p s = Some s'"
    proof (cases "cm_held (ns_claims s p)")
      case Nil
      with Releasing show ?thesis by (simp add: move_name_def)
    next
      case (Cons h hs)
      then have "ns_turn s (snd h)" using held [of "fst h" "snd h"] by simp
      with Releasing Cons show ?thesis by (cases h) (simp add: move_name_def)
    qed
    with no [of Untake] show thesis by blast
  next
    case (Dropping k l')
    with no [of Forget] show thesis by (auto simp: move_name_def)
  qed (use b in auto)
qed

lemma held_before:
  assumes "claim_ok c" "(k, l) \<in> set (cm_held c)" "cm_place c = Waiting k' l' ks"
  shows "ordered k < ordered k'"
  using assms held_key [OF assms(2)] by (auto simp: claim_ok_def keys_of_def sorted_wrt_append)

text \<open>The names waited for have a last one. Who holds it waits for none, so it can go on.\<close>

lemma some_move:
  assumes ok: "names_ok s" and b: "cm_place (ns_claims s p) \<notin> {Fresh, Over}"
  shows "\<exists>q e s'. e \<noteq> Give_up \<and> cm_place (ns_claims s q) \<notin> {Fresh, Over} \<and> move_name e q s = Some s'"
proof (rule ccontr)
  assume no: "\<not> ?thesis"
  have l: "locks_ok (ns_held s) (ns_turn s) (ns_refs s) (ns_next s) (users s) (holders s)"
    and c: "\<And>q. claim_ok (ns_claims s q)" using ok by (simp_all add: names_ok_def)
  have wait: "\<exists>k l ks. cm_place (ns_claims s q) = Waiting k l ks \<and> ns_turn s l \<and> ns_held s k = Some l"
    if "cm_place (ns_claims s q) \<notin> {Fresh, Over}" for q
    using stuck [OF ok _ that] no that by metis
  define K where "K = {k. \<exists>q l ks. cm_place (ns_claims s q) = Waiting k l ks \<and> ns_turn s l \<and> ns_held s k = Some l}"
  have "K \<subseteq> dom (ns_held s)" by (auto simp: K_def)
  then have fin: "finite (ordered ` K)" using held_finite [OF ok] finite_subset by blast
  have "K \<noteq> {}" using wait [OF b] by (auto simp: K_def)
  then have "Max (ordered ` K) \<in> ordered ` K" using Max_in [OF fin] by simp
  then obtain k where k: "k \<in> K" "ordered k = Max (ordered ` K)" by (metis imageE)
  then obtain lk where lk: "ns_turn s lk" "ns_held s k = Some lk" by (auto simp: K_def)
  then obtain q where "q \<in> holders s k lk" using locks_okD(6) [OF l] by blast
  then have q: "(k, lk) \<in> set (cm_held (ns_claims s q))" by (simp add: in_holders)
  then have "cm_place (ns_claims s q) \<notin> {Fresh, Over}" using c [of q] by (auto simp: claim_ok_def)
  from wait [OF this] obtain k' l' ks where w: "cm_place (ns_claims s q) = Waiting k' l' ks" "ns_turn s l'" "ns_held s k' = Some l'" by blast
  then have "k' \<in> K" by (auto simp: K_def)
  then have "ordered k' \<le> ordered k" using k(2) fin by simp
  then show False using held_before [OF c q w(1)] by simp
qed

definition work :: "names \<Rightarrow> nat" where
  "work s = (\<Sum>p \<in> begun s. left (ns_claims s p))"

lemma move_work:
  assumes "finite (begun s)" "move_name e p s = Some s'" "cm_place (ns_claims s p) \<noteq> Fresh"
  shows "work s' < work s"
proof -
  have d: "left (ns_claims s' p) < left (ns_claims s p)" using move_left [OF assms(2,3)] .
  have sub: "begun s' \<subseteq> begun s" 
  proof
    fix q
    assume "q \<in> begun s'"
    then show "q \<in> begun s" using move_other [OF assms(2), of q] d by (cases "q = p") (auto simp: begun_def)
  qed
  have "work s' = (\<Sum>p \<in> begun s. left (ns_claims s' p))"
    unfolding work_def by (rule sum.mono_neutral_left) (use assms(1) sub in \<open>auto simp: begun_def\<close>)
  also have "\<dots> < work s"
    unfolding work_def
  proof (intro sum_strict_mono_ex1 ballI)
    show "left (ns_claims s' q) \<le> left (ns_claims s q)" for q
      using d move_other [OF assms(2), of q] by (cases "q = p") auto
    show "\<exists>q \<in> begun s. left (ns_claims s' q) < left (ns_claims s q)"
      using d by (auto simp: begun_def intro!: exI [of _ p])
  qed (use assms(1) in simp)
  finally show ?thesis .
qed

section \<open>What the locks promise\<close>

text \<open>
  C39: two requests never hold one name on one daemon at once, whatever order the parts of any number of
  requests are done in, requests that give up waiting and locks dropped and made again included.
\<close>

theorem names_exclusive:
  assumes "names_reach s" "(k, l) \<in> set (cm_held (ns_claims s p))" "(k, l') \<in> set (cm_held (ns_claims s q))"
  shows "p = q \<and> l = l'"
proof -
  have ok: "locks_ok (ns_held s) (ns_turn s) (ns_refs s) (ns_next s) (users s) (holders s)"
    using names_reach_ok [OF assms(1)] by (simp add: names_ok_def)
  have h: "p \<in> holders s k l" "q \<in> holders s k l'" using assms(2,3) by (simp_all add: in_holders)
  then have "ns_held s k = Some l" "ns_held s k = Some l'" using locks_okD(1,3) [OF ok, of k] by blast+
  then show ?thesis using h locks_okD(8) [OF ok] by auto
qed

text \<open>
  The count of a name is how many requests hold it, wait for it or have yet to forget it, and a name
  nobody does is forgotten: the table holds no more than the requests under way.
\<close>

theorem names_counted:
  assumes "names_reach s"
  shows "waiting s k = card {p. \<exists>l. uses (ns_claims s p) k l} \<and>
    (ns_held s k = None \<longleftrightarrow> {p. \<exists>l. uses (ns_claims s p) k l} = {})"
proof -
  have ok: "locks_ok (ns_held s) (ns_turn s) (ns_refs s) (ns_next s) (users s) (holders s)"
    using names_reach_ok [OF assms] by (simp add: names_ok_def)
  have one: "uses (ns_claims s p) k l \<longleftrightarrow> ns_held s k = Some l \<and> p \<in> users s k l" for p l
    using locks_okD(1) [OF ok] by (auto simp: in_users)
  show ?thesis
  proof (cases "ns_held s k")
    case None
    then show ?thesis by (simp add: one waiting_def)
  next
    case (Some l)
    then have "{p. \<exists>l. uses (ns_claims s p) k l} = users s k l" by (auto simp: one)
    moreover have "waiting s k = card (users s k l)" using Some locks_okD(5) [OF ok Some] by (simp add: waiting_def)
    ultimately show ?thesis using Some locks_okD(1) [OF ok, of k l] by simp
  qed
qed

text \<open>
  C40: requests never wait on each other for good. From whatever they have come to, those that have begun
  can all go on to the end, each taking every name it is still to take, with none of them giving up and none
  but those that had begun doing anything.
\<close>

theorem names_finish:
  assumes "names_reach s"
  shows "\<exists>es s'. run_names es s = Some s' \<and> (\<forall>p. cm_place (ns_claims s' p) \<in> {Fresh, Over}) \<and>
      list_all (\<lambda>(e, p). e \<noteq> Give_up \<and> cm_place (ns_claims s p) \<noteq> Fresh) es"
  using assms
proof (induction "work s" arbitrary: s rule: less_induct)
  case less
  have ok: "names_ok s" using names_reach_ok [OF less(2)] .
  show ?case
  proof (cases "\<forall>p. cm_place (ns_claims s p) \<in> {Fresh, Over}")
    case True
    then show ?thesis by (intro exI [of _ "[]"]) simp
  next
    case False
    then obtain p where "cm_place (ns_claims s p) \<notin> {Fresh, Over}" by blast
    from some_move [OF ok this] obtain q e s1 where
      m: "e \<noteq> Give_up" "cm_place (ns_claims s q) \<notin> {Fresh, Over}" "move_name e q s = Some s1" by blast
    then have ne: "\<And>keys. e \<noteq> Start keys" by (auto elim: move_name_cases)
    then have "names_reach s1" using names_reach.step [OF less(2) m(3)] by blast
    moreover have "work s1 < work s" using move_work [OF begun_finite [OF less(2)] m(3)] m(2) by simp
    ultimately obtain es s' where es: "run_names es s1 = Some s'" "\<forall>p. cm_place (ns_claims s' p) \<in> {Fresh, Over}"
        "list_all (\<lambda>(e, p). e \<noteq> Give_up \<and> cm_place (ns_claims s1 p) \<noteq> Fresh) es"
      using less(1) by blast
    have "cm_place (ns_claims s1 p) \<noteq> Fresh \<Longrightarrow> cm_place (ns_claims s p) \<noteq> Fresh" for p
      using move_other [OF m(3), of p] m(2) by (cases "p = q") auto
    then have "list_all (\<lambda>(e, p). e \<noteq> Give_up \<and> cm_place (ns_claims s p) \<noteq> Fresh) ((e, q) # es)"
      using es(3) m(1,2) by (auto simp: list_all_iff)
    then show ?thesis using es(1,2) m(3) by (intro exI [of _ "(e, q) # es"] exI [of _ s']) simp
  qed
qed

section \<open>An instance\<close>

text \<open>Two requests that each name the same two volumes, in different orders: the second waits for the
  first name while the first takes both.\<close>

abbreviation "vol n \<equiv> \<lparr>nk_socket = ''s'', nk_kind = ''volume'', nk_name = n\<rparr>"

definition contend :: "(event \<times> nat) list" where
  "contend = [(Start [vol ''b'', vol ''a'', vol ''b''], 1), (Enter, 1), (Start [vol ''a'', vol ''b''], 2), (Enter, 2),
     (Turn, 1), (Enter, 1), (Turn, 1)]"

definition contended :: names where
  "contended = the (run_names contend heldNames)"

lemma contended_run: "run_names contend heldNames = Some contended"
proof -
  have "run_names contend heldNames \<noteq> None" by code_simp
  then show ?thesis by (simp add: contended_def)
qed

lemma contended_reach: "names_reach contended"
  by (rule run_reach [OF contended_run start]) code_simp

lemma contended_held:
  "cm_held (ns_claims contended 1) = [(vol ''b'', 1), (vol ''a'', 0)]"
  "cm_place (ns_claims contended 2) = Waiting (vol ''a'') 0 [vol ''b'']"
  by code_simp+

theorem names_exclusive_instance:
  "(vol ''a'', 0) \<notin> set (cm_held (ns_claims contended 2)) \<and> ns_turn contended 0"
proof -
  have "(vol ''a'', 0) \<notin> set (cm_held (ns_claims contended 2))"
    using names_exclusive [OF contended_reach, of "vol ''a''" 0 1 0 2] contended_held(1) by auto
  moreover have "ns_turn contended 0" by code_simp
  ultimately show ?thesis by simp
qed

theorem names_counted_instance:
  "waiting contended (vol ''a'') = 2 \<and> card {p. \<exists>l. uses (ns_claims contended p) (vol ''a'') l} = 2"
proof -
  have "waiting contended (vol ''a'') = 2" by code_simp
  with names_counted [OF contended_reach, of "vol ''a''"] show ?thesis by simp
qed

theorem names_finish_instance:
  "\<exists>es s'. run_names es contended = Some s' \<and> (\<forall>p. cm_place (ns_claims s' p) \<in> {Fresh, Over}) \<and> es \<noteq> []"
proof -
  from names_finish [OF contended_reach] obtain es s' where
    es: "run_names es contended = Some s'" "\<forall>p. cm_place (ns_claims s' p) \<in> {Fresh, Over}" by blast
  have "es \<noteq> []"
  proof
    assume "es = []"
    with es have "cm_place (ns_claims contended 2) \<in> {Fresh, Over}" by simp
    then show False by (simp add: contended_held(2))
  qed
  with es show ?thesis by blast
qed

end
