(* ===== verification/Docker_Owned.thy ===== *)
theory Docker_Owned
  imports Docker_Walk
begin

text \<open>
  Whose an object is, \<open>claim\<close> of \<open>internal/intercept/owned.go\<close>: what frisket asks the Docker daemon about
  each object a request names, on its path and in its body, what it makes of the answers, and how the request
  is to name the object upstream.

  The daemon is given, an \<open>engine\<close> of \<open>net/http\<close>'s answers and of \<open>encoding/json\<close>'s reading of them, with a
  state of its own that every request may change. What a claim has been told is kept by the path it was told
  at, and a question is an argument and a result of the operations that ask it.
\<close>

section \<open>Routes and the daemon\<close>

record docker_route =
  dk_Project :: string
  dk_APIMin :: string
  dk_APIMax :: string
  dk_Unversioned :: "string list"
  dk_Images :: "string list"
  dk_Builds :: "string list"
  dk_Address :: addr
  dk_Ports :: "16 word list"
  dk_Names :: "string list"
  dk_MaxBody :: int
  dk_Bodies :: "(string \<times> table) list"

record facts =
  fc_ID :: string
  fc_Config :: "(string \<times> string) list option"
  fc_Labels :: "(string \<times> string) list"
  fc_ContainerID :: string

record listed_container =
  lc_ID :: string
  lc_Labels :: "(string \<times> string) list"
  lc_Mounts :: "(string \<times> string) list"

record answer =
  an_status :: int
  an_contentType :: string
  an_body :: string

record object_refusal =
  or_reason :: string
  or_status :: int
  or_account :: string
  or_answer :: "answer option"

text \<open>What comes of a request to the daemon: none that could be made, the transport's error, or a response,
  its status, Content-Type and body, and whether the body breaks off there.\<close>

datatype reply = Unsent | Unreached string | Responded int string string bool

record 's engine =
  eng_get :: "string \<Rightarrow> 's \<Rightarrow> reply \<times> 's"
  eng_create :: "string \<Rightarrow> members \<Rightarrow> 's \<Rightarrow> reply \<times> 's"
  eng_facts :: "string \<Rightarrow> facts option"
  eng_listed :: "string \<Rightarrow> listed_container list option"
  eng_filters :: "(string \<times> string list) list \<Rightarrow> string"
  eng_media :: "string \<Rightarrow> bool"

datatype asked = Found facts | Gone answer | Failed object_refusal

text \<open>\<open>ak_log\<close> is for what is proved: each request to the daemon and what came of it, the last first.\<close>

datatype exchange = Get string reply | Post string members reply

record 's asking =
  ak_seen :: "string \<Rightarrow> asked option"
  ak_world :: 's
  ak_log :: "exchange list"

section \<open>Refusals\<close>

abbreviation ReasonNotOwned :: string where "ReasonNotOwned \<equiv> ''not this project's''"
abbreviation ReasonAbsent :: string where "ReasonAbsent \<equiv> ''no such object''"
abbreviation ReasonLookup :: string where "ReasonLookup \<equiv> ''daemon lookup failed''"
abbreviation ReasonUnchecked :: string where "ReasonUnchecked \<equiv> ''docker request unchecked''"

definition maxLookup :: int where
  "maxLookup = 4194304"

definition maxAbsent :: int where
  "maxAbsent = 65536"

definition notOwned :: "string \<Rightarrow> object_refusal" where
  "notOwned account =
     \<lparr>or_reason = ReasonNotOwned, or_status = 403, or_account = account @ '' not this project's'', or_answer = None\<rparr>"

definition absent_object :: "string \<Rightarrow> answer option \<Rightarrow> object_refusal" where
  "absent_object account a =
     \<lparr>or_reason = ReasonAbsent, or_status = 403, or_account = account @ '' absent'', or_answer = a\<rparr>"

definition lookupFailed :: "string \<Rightarrow> string \<Rightarrow> object_refusal" where
  "lookupFailed account why =
     \<lparr>or_reason = ReasonLookup, or_status = 502, or_account = account @ '' lookup failed: '' @ why, or_answer = None\<rparr>"

definition undecided :: "string \<Rightarrow> object_refusal" where
  "undecided account = \<lparr>or_reason = ReasonUnchecked, or_status = 403, or_account = account, or_answer = None\<rparr>"

section \<open>Text\<close>

definition hex_upper :: "int \<Rightarrow> char" where
  "hex_upper d = char_of (if d < 10 then 48 + d else 55 + d)"

definition percent :: "char \<Rightarrow> string" where
  "percent c = [CHR ''%'', hex_upper (byte c div 16), hex_upper (byte c mod 16)]"

definition unreserved :: "char \<Rightarrow> bool" where
  "unreserved c \<longleftrightarrow> alnum c \<or> c \<in> {CHR ''-'', CHR ''_'', CHR ''.'', CHR ''~''}"

text \<open>\<open>url.PathEscape\<close>, and \<open>url.QueryEscape\<close>.\<close>

definition PathEscape :: "string \<Rightarrow> string" where
  "PathEscape s = concat (map (\<lambda>c. if unreserved c \<or> c \<in> {CHR ''$'', CHR ''&'', CHR ''+'', CHR ''='', CHR '':'', CHR ''@''}
     then [c] else percent c) s)"

definition QueryEscape :: "string \<Rightarrow> string" where
  "QueryEscape s = concat (map (\<lambda>c. if unreserved c then [c] else if c = CHR '' '' then ''+'' else percent c) s)"

definition short :: "string \<Rightarrow> string" where
  "short i = take 12 i"

section \<open>Asking\<close>

text \<open>A step of a claim, and the next where it came to no refusal.\<close>

definition and_then :: "(object_refusal + 'a) \<times> 's asking \<Rightarrow> ('a \<Rightarrow> 's asking \<Rightarrow> (object_refusal + 'b) \<times> 's asking) \<Rightarrow>
    (object_refusal + 'b) \<times> 's asking" where
  "and_then m f = (case m of (Inl e, c) \<Rightarrow> (Inl e, c) | (Inr x, c) \<Rightarrow> f x c)"

definition url_of :: "docker_route \<Rightarrow> string \<Rightarrow> string" where
  "url_of rt p = ''http://docker/v'' @ dk_APIMax rt @ p"

definition read_reply :: "'s engine \<Rightarrow> string \<Rightarrow> reply \<Rightarrow> object_refusal + answer + string" where
  "read_reply E account r =
     (case r of
        Unsent \<Rightarrow> Inl (lookupFailed account ''no request'')
      | Unreached why \<Rightarrow> Inl (lookupFailed account why)
      | Responded status ct body breaks \<Rightarrow>
          let bound = (if status = 404 then maxAbsent else maxLookup)
          in if breaks \<and> int (length body) \<le> bound then Inl (lookupFailed account ''answer unread'')
             else if int (length body) > bound then Inl (lookupFailed account (''answer over '' @ Sprint bound @ '' bytes''))
             else if status = 200 then Inr (Inr body)
             else if status = 404 then
               Inr (Inl \<lparr>an_status = 404, an_contentType = (if ct \<noteq> [] \<and> eng_media E ct then ct else []), an_body = body\<rparr>)
             else Inl (lookupFailed account (''status '' @ Sprint status)))"

definition claim_get :: "'s engine \<Rightarrow> docker_route \<Rightarrow> string \<Rightarrow> string \<Rightarrow> 's asking \<Rightarrow>
    (object_refusal + answer + string) \<times> 's asking" where
  "claim_get E rt p account c =
     (let (r, w) = eng_get E (url_of rt p) (ak_world c)
      in (read_reply E account r, c\<lparr>ak_world := w, ak_log := Get (url_of rt p) r # ak_log c\<rparr>))"

definition asked_of :: "'s engine \<Rightarrow> string \<Rightarrow> object_refusal + answer + string \<Rightarrow> asked" where
  "asked_of E account r =
     (case r of
        Inl e \<Rightarrow> Failed e
      | Inr (Inl a) \<Rightarrow> Gone a
      | Inr (Inr body) \<Rightarrow>
          (case eng_facts E body of
             None \<Rightarrow> Failed (lookupFailed account ''not the daemon's JSON'')
           | Some f \<Rightarrow> Found f))"

definition claim_ask :: "'s engine \<Rightarrow> docker_route \<Rightarrow> string \<Rightarrow> string \<Rightarrow> 's asking \<Rightarrow> asked \<times> 's asking" where
  "claim_ask E rt p account c =
     (case ak_seen c p of
        Some a \<Rightarrow> (a, c)
      | None \<Rightarrow>
          let (r, c) = claim_get E rt p account c; a = asked_of E account r
          in (a, c\<lparr>ak_seen := (ak_seen c)(p \<mapsto> a)\<rparr>))"

definition labels_own :: "docker_route \<Rightarrow> (string \<times> string) list \<Rightarrow> bool" where
  "labels_own rt ls \<longleftrightarrow> map_of ls LabelKey = Some (dk_Project rt)"

section \<open>What a path names\<close>

abbreviation container_at :: "string \<Rightarrow> string" where "container_at ref \<equiv> ''/containers/'' @ PathEscape ref @ ''/json''"
abbreviation exec_at :: "string \<Rightarrow> string" where "exec_at i \<equiv> ''/exec/'' @ PathEscape i @ ''/json''"
abbreviation volume_at :: "string \<Rightarrow> string" where "volume_at name \<equiv> ''/volumes/'' @ PathEscape name"
abbreviation network_at :: "string \<Rightarrow> string" where "network_at name \<equiv> ''/networks/'' @ PathEscape name"

definition container_of :: "docker_route \<Rightarrow> string \<Rightarrow> asked \<Rightarrow> object_refusal + string" where
  "container_of rt account a =
     (case a of
        Failed e \<Rightarrow> Inl e
      | Gone a \<Rightarrow> Inl (absent_object account (Some a))
      | Found f \<Rightarrow>
          if \<not> anonVol (fc_ID f) then Inl (lookupFailed account ''no ID'')
          else (case fc_Config f of
              None \<Rightarrow> Inl (notOwned account)
            | Some ls \<Rightarrow> if labels_own rt ls then Inr (fc_ID f) else Inl (notOwned account)))"

definition claim_container :: "'s engine \<Rightarrow> docker_route \<Rightarrow> string \<Rightarrow> string \<Rightarrow> 's asking \<Rightarrow>
    (object_refusal + string) \<times> 's asking" where
  "claim_container E rt ref account c =
     (let (a, c) = claim_ask E rt (container_at ref) account c in (container_of rt account a, c))"

definition path_exec :: "'s engine \<Rightarrow> docker_route \<Rightarrow> string \<Rightarrow> 's asking \<Rightarrow> (object_refusal + string \<times> string) \<times> 's asking" where
  "path_exec E rt seg c =
     (let name = ''exec='' @ short seg; (a, c) = claim_ask E rt (exec_at seg) name c
      in case a of
           Failed e \<Rightarrow> (Inl e, c)
         | Gone a \<Rightarrow> (Inl (absent_object name (Some a)), c)
         | Found f \<Rightarrow>
             if \<not> anonVol (fc_ContainerID f) then (Inl (lookupFailed name ''no container ID''), c)
             else and_then
               (claim_container E rt (fc_ContainerID f) (name @ '' container='' @ short (fc_ContainerID f)) c)
               (\<lambda>i c. (Inr (seg, name @ '' container='' @ short i @ '' owned''), c)))"

definition path_volume :: "'s engine \<Rightarrow> docker_route \<Rightarrow> string \<Rightarrow> 's asking \<Rightarrow> (object_refusal + string \<times> string) \<times> 's asking" where
  "path_volume E rt seg c =
     (let name = ''volume='' @ seg; (a, c) = claim_ask E rt (volume_at seg) name c
      in (case a of
            Failed e \<Rightarrow> Inl e
          | Gone a \<Rightarrow> Inl (absent_object name (Some a))
          | Found f \<Rightarrow> if labels_own rt (fc_Labels f) then Inr (seg, name @ '' owned'') else Inl (notOwned name), c))"

definition path_network :: "'s engine \<Rightarrow> docker_route \<Rightarrow> string \<Rightarrow> 's asking \<Rightarrow> (object_refusal + string \<times> string) \<times> 's asking" where
  "path_network E rt seg c =
     (let name = ''network='' @ seg; (a, c) = claim_ask E rt (network_at seg) name c
      in (case a of
            Failed e \<Rightarrow> Inl e
          | Gone a \<Rightarrow> Inl (absent_object name (Some a))
          | Found f \<Rightarrow>
              if \<not> anonVol (fc_ID f) then Inl (lookupFailed name ''no ID'')
              else if \<not> labels_own rt (fc_Labels f) then Inl (notOwned name)
              else Inr (fc_ID f, ''network='' @ short (fc_ID f) @ '' owned''), c))"

text \<open>How the path is to name the object its segment names, and what the log says of it.\<close>

definition claim_path :: "'s engine \<Rightarrow> docker_route \<Rightarrow> string \<Rightarrow> string \<Rightarrow> 's asking \<Rightarrow>
    (object_refusal + string \<times> string) \<times> 's asking" where
  "claim_path E rt kind seg c =
     (if kind = ''container'' then
        and_then (claim_container E rt seg (''container='' @ seg) c)
          (\<lambda>i c. (Inr (i, ''container='' @ short i @ '' owned''), c))
      else if kind = ''exec'' then path_exec E rt seg c
      else if kind = ''volume'' then path_volume E rt seg c
      else if kind = ''network'' then path_network E rt seg c
      else (Inl (undecided []), c))"

section \<open>What a body names\<close>

definition lists_own :: "docker_route \<Rightarrow> string \<Rightarrow> listed_container \<Rightarrow> bool" where
  "lists_own rt volume ct \<longleftrightarrow>
     anonVol (lc_ID ct) \<and> labels_own rt (lc_Labels ct) \<and> list_ex (\<lambda>(t, n). t = ''volume'' \<and> n = volume) (lc_Mounts ct)"

definition mounted_at :: "'s engine \<Rightarrow> docker_route \<Rightarrow> string \<Rightarrow> string" where
  "mounted_at E rt volume =
     ''/containers/json?all=1&filters='' @
     QueryEscape (eng_filters E [(''label'', [LabelKey @ ''='' @ dk_Project rt]), (''volume'', [volume])])"

definition mountedByOwn :: "'s engine \<Rightarrow> docker_route \<Rightarrow> string \<Rightarrow> string \<Rightarrow> 's asking \<Rightarrow> (object_refusal + bool) \<times> 's asking" where
  "mountedByOwn E rt volume account c =
     and_then (claim_get E rt (mounted_at E rt volume) account c)
       (\<lambda>r c. (case r of
            Inl a \<Rightarrow> Inl (lookupFailed account ''status 404'')
          | Inr body \<Rightarrow>
              (case eng_listed E body of
                 None \<Rightarrow> Inl (lookupFailed account ''not the daemon's JSON'')
               | Some cts \<Rightarrow> Inr (list_ex (lists_own rt volume) cts)), c))"

definition anonymousLabel :: string where
  "anonymousLabel = ''com.docker.volume.anonymous''"

definition use_name :: "use \<Rightarrow> string" where
  "use_name u = (case u of Bind \<Rightarrow> ''bind '' | Mount \<Rightarrow> ''mount '' | Create \<Rightarrow> ''volume='' | Attach \<Rightarrow> [])"

definition claim_volume :: "'s engine \<Rightarrow> docker_route \<Rightarrow> lookup \<Rightarrow> 's asking \<Rightarrow> (object_refusal + string) \<times> 's asking" where
  "claim_volume E rt l c =
     (let name = use_name (lk_Use l) @ lk_Name l; (a, c) = claim_ask E rt (volume_at (lk_Name l)) name c
      in case a of
           Failed e \<Rightarrow> (Inl e, c)
         | Gone a \<Rightarrow> if lk_Use l = Create then (Inr (name @ '' absent''), c) else (Inl (absent_object name None), c)
         | Found f \<Rightarrow>
             if labels_own rt (fc_Labels f) then (Inr (name @ '' owned''), c)
             else if lk_Use l \<noteq> Mount then (Inl (notOwned name), c)
             else if map_of (fc_Labels f) anonymousLabel = None then (Inl (notOwned name), c)
             else and_then (mountedByOwn E rt (lk_Name l) name c)
               (\<lambda>ok c. (if ok then Inr (name @ '' anonymous, mounted by this project's'') else Inl (notOwned name), c)))"

definition createDefault :: "'s engine \<Rightarrow> docker_route \<Rightarrow> string \<Rightarrow> string \<Rightarrow> 's asking \<Rightarrow> (object_refusal + unit) \<times> 's asking" where
  "createDefault E rt net account c =
     (let tree = [(''Name'', JStr net), (''Driver'', JStr ''bridge''), (''Labels'', JObj [(LabelKey, JStr (dk_Project rt))])];
          (r, w) = eng_create E (url_of rt ''/networks/create'') tree (ak_world c)
      in (case r of
            Unsent \<Rightarrow> Inl (lookupFailed account ''no request'')
          | Unreached why \<Rightarrow> Inl (lookupFailed account why)
          | Responded status ct body breaks \<Rightarrow>
              if status = 201 then Inr () else Inl (lookupFailed account (''create: status '' @ Sprint status)),
          c\<lparr>ak_world := w, ak_log := Post (url_of rt ''/networks/create'') tree r # ak_log c\<rparr>))"

text \<open>A network a body attaches to. The project's own default, where there is none yet, is made, under its
  name's lock, and asked about again.\<close>

definition attach_answer :: "'s engine \<Rightarrow> docker_route \<Rightarrow> string \<Rightarrow> 's asking \<Rightarrow>
    (object_refusal + asked \<times> string) \<times> 's asking" where
  "attach_answer E rt net c =
     (let name = ''network '' @ net; (a, c) = claim_ask E rt (network_at net) name c
      in case a of
           Gone _ \<Rightarrow>
             if net = DefaultNetwork (dk_Project rt) then
               and_then (createDefault E rt net name c)
                 (\<lambda>_ c. let (a, c) = claim_ask E rt (network_at net) name (c\<lparr>ak_seen := (ak_seen c)(network_at net := None)\<rparr>)
                        in (Inr (a, name @ '' made''), c))
             else (Inr (a, name), c)
         | _ \<Rightarrow> (Inr (a, name), c))"

definition claim_attach :: "'s engine \<Rightarrow> docker_route \<Rightarrow> string \<Rightarrow> 's asking \<Rightarrow> (object_refusal + string \<times> string) \<times> 's asking" where
  "claim_attach E rt net c =
     and_then (attach_answer E rt net c)
       (\<lambda>(a, name) c. (case a of
            Failed e \<Rightarrow> Inl e
          | Gone a \<Rightarrow> Inl (absent_object name None)
          | Found f \<Rightarrow>
              if \<not> anonVol (fc_ID f) then Inl (lookupFailed name ''no ID'')
              else if \<not> labels_own rt (fc_Labels f) then Inl (notOwned name)
              else Inr (name @ '' owned as '' @ short (fc_ID f), fc_ID f), c))"

definition claim_named :: "'s engine \<Rightarrow> docker_route \<Rightarrow> lookup \<Rightarrow> 's asking \<Rightarrow> (object_refusal + string \<times> string) \<times> 's asking" where
  "claim_named E rt l c =
     (if lk_Kind l = ''network'' \<and> lk_Use l = Create then (Inr (''network='' @ lk_Name l @ '' held'', []), c)
      else if lk_Kind l = ''network'' \<and> lk_Use l = Attach then claim_attach E rt (lk_Name l) c
      else if lk_Kind l \<noteq> ''volume'' then (Inl (undecided (lk_Kind l @ '' '' @ lk_Name l @ '' unknown'')), c)
      else and_then (claim_volume E rt l c) (\<lambda>account c. (Inr (account, []), c)))"

text \<open>Every name a body holds, and the ID of each network it attaches to. The log has what was found before
  a refusal too.\<close>

fun claim_body :: "'s engine \<Rightarrow> docker_route \<Rightarrow> lookup list \<Rightarrow> string list \<Rightarrow> (string \<times> string) list \<Rightarrow> 's asking \<Rightarrow>
    (string list \<times> (object_refusal + (string \<times> string) list)) \<times> 's asking" where
  "claim_body E rt [] account networks c = ((account, Inr networks), c)"
| "claim_body E rt (l # ls) account networks c =
     (case claim_named E rt l c of
        (Inl e, c) \<Rightarrow> ((account, Inl e), c)
      | (Inr (acct, i), c) \<Rightarrow>
          claim_body E rt ls (account @ [acct]) (if i \<noteq> [] then put (lk_Name l) i networks else networks) c)"

section \<open>What the daemon said\<close>

definition told :: "'s engine \<Rightarrow> docker_route \<Rightarrow> 's asking \<Rightarrow> string \<Rightarrow> facts \<Rightarrow> bool" where
  "told E rt c p f \<longleftrightarrow>
     (\<exists>ct body b. Get (url_of rt p) (Responded 200 ct body b) \<in> set (ak_log c) \<and> eng_facts E body = Some f)"

definition own_container :: "'s engine \<Rightarrow> docker_route \<Rightarrow> 's asking \<Rightarrow> string \<Rightarrow> string \<Rightarrow> bool" where
  "own_container E rt c ref i \<longleftrightarrow>
     (\<exists>f ls. told E rt c (container_at ref) f \<and> fc_ID f = i \<and> anonVol i \<and> fc_Config f = Some ls \<and> labels_own rt ls)"

definition own_exec :: "'s engine \<Rightarrow> docker_route \<Rightarrow> 's asking \<Rightarrow> string \<Rightarrow> bool" where
  "own_exec E rt c seg \<longleftrightarrow> (\<exists>f i. told E rt c (exec_at seg) f \<and> own_container E rt c (fc_ContainerID f) i)"

definition own_volume :: "'s engine \<Rightarrow> docker_route \<Rightarrow> 's asking \<Rightarrow> string \<Rightarrow> bool" where
  "own_volume E rt c name \<longleftrightarrow> (\<exists>f. told E rt c (volume_at name) f \<and> labels_own rt (fc_Labels f))"

definition own_network :: "'s engine \<Rightarrow> docker_route \<Rightarrow> 's asking \<Rightarrow> string \<Rightarrow> string \<Rightarrow> bool" where
  "own_network E rt c name i \<longleftrightarrow>
     (\<exists>f. told E rt c (network_at name) f \<and> fc_ID f = i \<and> anonVol i \<and> labels_own rt (fc_Labels f))"

definition listed_own :: "'s engine \<Rightarrow> docker_route \<Rightarrow> 's asking \<Rightarrow> string \<Rightarrow> bool" where
  "listed_own E rt c name \<longleftrightarrow>
     (\<exists>ct body b cts. Get (url_of rt (mounted_at E rt name)) (Responded 200 ct body b) \<in> set (ak_log c) \<and>
        eng_listed E body = Some cts \<and> list_ex (lists_own rt name) cts)"

text \<open>A volume the daemon named itself, which it lists as mounted by a container of the project's.\<close>

definition own_anonymous :: "'s engine \<Rightarrow> docker_route \<Rightarrow> 's asking \<Rightarrow> string \<Rightarrow> bool" where
  "own_anonymous E rt c name \<longleftrightarrow>
     (\<exists>f. told E rt c (volume_at name) f \<and> map_of (fc_Labels f) anonymousLabel \<noteq> None) \<and> listed_own E rt c name"

definition no_volume :: "docker_route \<Rightarrow> 's asking \<Rightarrow> string \<Rightarrow> bool" where
  "no_volume rt c name \<longleftrightarrow> (\<exists>ct body b. Get (url_of rt (volume_at name)) (Responded 404 ct body b) \<in> set (ak_log c))"

text \<open>What the daemon is asked about one object, and an answer that says nothing: none, one that breaks off or is
  too long, a status other than 200 and 404, or a 200 without what that question needs of it.\<close>

definition asks :: "string \<Rightarrow> bool" where
  "asks p \<longleftrightarrow> (\<exists>x. p = container_at x \<or> p = exec_at x \<or> p = volume_at x \<or> p = network_at x)"

definition unread :: "reply \<Rightarrow> bool" where
  "unread r \<longleftrightarrow>
     (case r of
        Responded status ct body breaks \<Rightarrow>
          breaks \<or> int (length body) > (if status = 404 then maxAbsent else maxLookup) \<or> status \<notin> {200, 404}
      | _ \<Rightarrow> True)"

definition unclear :: "'s engine \<Rightarrow> docker_route \<Rightarrow> string \<Rightarrow> string \<Rightarrow> bool" where
  "unclear E rt p body \<longleftrightarrow>
     asks p \<and> eng_facts E body = None \<or>
     (\<exists>x f. (p = container_at x \<or> p = network_at x) \<and> eng_facts E body = Some f \<and> \<not> anonVol (fc_ID f)) \<or>
     (\<exists>x f. p = exec_at x \<and> eng_facts E body = Some f \<and> \<not> anonVol (fc_ContainerID f)) \<or>
     (\<exists>x. p = mounted_at E rt x \<and> eng_listed E body = None)"

text \<open>The daemon did not say; it said there is no such object; it said one is not the project's.\<close>

definition silent :: "'s engine \<Rightarrow> docker_route \<Rightarrow> exchange \<Rightarrow> bool" where
  "silent E rt x \<longleftrightarrow>
     (case x of
        Get u r \<Rightarrow> unread r \<or>
          (\<exists>p ct body b. u = url_of rt p \<and>
             (r = Responded 200 ct body b \<and> unclear E rt p body \<or> r = Responded 404 ct body b \<and> (\<exists>n. p = mounted_at E rt n)))
      | Post u m r \<Rightarrow> \<forall>ct body b. r \<noteq> Responded 201 ct body b)"

definition not_said :: "'s engine \<Rightarrow> docker_route \<Rightarrow> 's asking \<Rightarrow> bool" where
  "not_said E rt c \<longleftrightarrow> (\<exists>x \<in> set (ak_log c). silent E rt x)"

definition said_absent :: "docker_route \<Rightarrow> 's asking \<Rightarrow> answer option \<Rightarrow> bool" where
  "said_absent rt c ao \<longleftrightarrow>
     (\<exists>p ct body b. Get (url_of rt p) (Responded 404 ct body b) \<in> set (ak_log c) \<and>
        (case ao of None \<Rightarrow> True | Some a \<Rightarrow> an_status a = 404 \<and> an_body a = body \<and> int (length body) \<le> maxAbsent))"

definition said_other :: "'s engine \<Rightarrow> docker_route \<Rightarrow> 's asking \<Rightarrow> bool" where
  "said_other E rt c \<longleftrightarrow>
     (\<exists>x f. told E rt c (container_at x) f \<and> (\<forall>ls. fc_Config f = Some ls \<longrightarrow> \<not> labels_own rt ls)) \<or>
     (\<exists>x f. told E rt c (volume_at x) f \<and> \<not> labels_own rt (fc_Labels f)) \<or>
     (\<exists>x f. told E rt c (network_at x) f \<and> \<not> labels_own rt (fc_Labels f))"

text \<open>A refusal with its reason: 502 for what the daemon did not say, and 403 for what it said is not the project's
  or not there, with its own answer at most for that.\<close>

definition answer_ok :: "answer \<Rightarrow> bool" where
  "answer_ok a \<longleftrightarrow> an_status a = 404 \<and> int (length (an_body a)) \<le> maxAbsent"

definition refusal_ok :: "'s engine \<Rightarrow> docker_route \<Rightarrow> 's asking \<Rightarrow> object_refusal \<Rightarrow> bool" where
  "refusal_ok E rt c e \<longleftrightarrow>
     or_status e = 502 \<and> or_reason e = ReasonLookup \<and> or_answer e = None \<and> not_said E rt c \<or>
     or_status e = 403 \<and> or_reason e = ReasonAbsent \<and> said_absent rt c (or_answer e) \<or>
     or_status e = 403 \<and> or_reason e = ReasonNotOwned \<and> or_answer e = None \<and> said_other E rt c \<or>
     or_status e = 403 \<and> or_reason e = ReasonUnchecked \<and> or_answer e = None"

lemma refusals_ok [simp]:
  "refusal_ok E rt c (notOwned account) \<longleftrightarrow> said_other E rt c"
  "refusal_ok E rt c (lookupFailed account why) \<longleftrightarrow> not_said E rt c"
  "refusal_ok E rt c (undecided account)"
  "refusal_ok E rt c (absent_object account a) \<longleftrightarrow> said_absent rt c a"
  by (simp_all add: refusal_ok_def notOwned_def lookupFailed_def undecided_def absent_object_def)

text \<open>What was kept is what was said, and what was said stays so.\<close>

definition kept_answer :: "'s engine \<Rightarrow> docker_route \<Rightarrow> 's asking \<Rightarrow> string \<Rightarrow> asked \<Rightarrow> bool" where
  "kept_answer E rt c p a \<longleftrightarrow>
     (case a of
        Found f \<Rightarrow> told E rt c p f
      | Gone a \<Rightarrow> answer_ok a \<and> (\<exists>ct b. Get (url_of rt p) (Responded 404 ct (an_body a) b) \<in> set (ak_log c))
      | Failed e \<Rightarrow> refusal_ok E rt c e \<and> or_answer e = None)"

text \<open>All a claim ever makes is the project's default network, labelled as the project's.\<close>

definition default_network :: "docker_route \<Rightarrow> members" where
  "default_network rt =
     [(''Name'', JStr (DefaultNetwork (dk_Project rt))), (''Driver'', JStr ''bridge''),
      (''Labels'', JObj [(LabelKey, JStr (dk_Project rt))])]"

definition made_own :: "docker_route \<Rightarrow> 's asking \<Rightarrow> bool" where
  "made_own rt c \<longleftrightarrow>
     (\<forall>u m r. Post u m r \<in> set (ak_log c) \<longrightarrow> u = url_of rt ''/networks/create'' \<and> m = default_network rt)"

definition kept :: "'s engine \<Rightarrow> docker_route \<Rightarrow> 's asking \<Rightarrow> bool" where
  "kept E rt c \<longleftrightarrow> (\<forall>p a. ak_seen c p = Some a \<longrightarrow> kept_answer E rt c p a) \<and> made_own rt c"

definition grows :: "'s asking \<Rightarrow> 's asking \<Rightarrow> bool" where
  "grows c c' \<longleftrightarrow> set (ak_log c) \<subseteq> set (ak_log c')"

definition goes_on :: "'s engine \<Rightarrow> docker_route \<Rightarrow> 's asking \<Rightarrow> 's asking \<Rightarrow> bool" where
  "goes_on E rt c c' \<longleftrightarrow> kept E rt c' \<and> grows c c'"

lemma grows_refl [simp]: "grows c c"
  by (simp add: grows_def)

lemma grows_trans [trans]: "grows a b \<Longrightarrow> grows b c \<Longrightarrow> grows a c"
  by (auto simp: grows_def)

lemma told_grows: "told E rt c p f \<Longrightarrow> grows c c' \<Longrightarrow> told E rt c' p f"
  unfolding told_def grows_def by blast

lemma toldI:
  "Get (url_of rt p) (Responded 200 ct body b) \<in> set (ak_log c) \<Longrightarrow> eng_facts E body = Some f \<Longrightarrow> told E rt c p f"
  unfolding told_def by blast

lemma own_grows:
  assumes g: "grows c c'"
  shows "own_container E rt c n i \<Longrightarrow> own_container E rt c' n i"
    "own_exec E rt c n \<Longrightarrow> own_exec E rt c' n"
    "own_volume E rt c n \<Longrightarrow> own_volume E rt c' n"
    "own_network E rt c n i \<Longrightarrow> own_network E rt c' n i"
    "own_anonymous E rt c n \<Longrightarrow> own_anonymous E rt c' n"
    "no_volume rt c n \<Longrightarrow> no_volume rt c' n"
proof -
  have told: "told E rt c p f \<Longrightarrow> told E rt c' p f" for p f using told_grows g by blast
  have log: "x \<in> set (ak_log c) \<Longrightarrow> x \<in> set (ak_log c')" for x using g by (auto simp: grows_def)
  show container: "own_container E rt c n i \<Longrightarrow> own_container E rt c' n i" for n i
    unfolding own_container_def using told by blast
  show "own_exec E rt c n \<Longrightarrow> own_exec E rt c' n" unfolding own_exec_def using told container by blast
  show "own_volume E rt c n \<Longrightarrow> own_volume E rt c' n" unfolding own_volume_def using told by blast
  show "own_network E rt c n i \<Longrightarrow> own_network E rt c' n i" unfolding own_network_def using told by blast
  show "own_anonymous E rt c n \<Longrightarrow> own_anonymous E rt c' n" unfolding own_anonymous_def listed_own_def using told log by blast
  show "no_volume rt c n \<Longrightarrow> no_volume rt c' n" unfolding no_volume_def using log by blast
qed

lemma refusal_grows:
  assumes "refusal_ok E rt c e" "grows c c'"
  shows "refusal_ok E rt c' e"
proof -
  have log: "x \<in> set (ak_log c) \<Longrightarrow> x \<in> set (ak_log c')" for x using assms(2) by (auto simp: grows_def)
  have "not_said E rt c'" if "not_said E rt c"
    using that log unfolding not_said_def by blast
  moreover have "said_absent rt c a \<Longrightarrow> said_absent rt c' a" for a unfolding said_absent_def using log by blast
  moreover have "said_other E rt c \<Longrightarrow> said_other E rt c'" unfolding said_other_def by (elim disjE exE conjE; blast dest: told_grows [OF _ assms(2)])
  ultimately show ?thesis using assms(1) unfolding refusal_ok_def by blast
qed

lemma kept_grows:
  assumes "kept_answer E rt c p a" "grows c c'"
  shows "kept_answer E rt c' p a"
proof (cases a)
  case (Found f)
  with assms told_grows [of E rt c p f c'] show ?thesis by (simp add: kept_answer_def)
next
  case (Gone x)
  with assms show ?thesis unfolding kept_answer_def grows_def Gone asked.case by blast
next
  case (Failed e)
  with assms refusal_grows show ?thesis by (auto simp: kept_answer_def)
qed

text \<open>What a kept answer makes a refusal of.\<close>

lemma gone_absent: "kept_answer E rt c p (Gone a) \<Longrightarrow> said_absent rt c (Some a) \<and> said_absent rt c None"
  by (auto simp: kept_answer_def said_absent_def answer_ok_def)

lemma kept_answer_Failed: "kept_answer E rt c p (Failed e) \<longleftrightarrow> refusal_ok E rt c e \<and> or_answer e = None"
  by (simp add: kept_answer_def)

lemma asks_at [simp]: "asks (container_at x)" "asks (exec_at x)" "asks (volume_at x)" "asks (network_at x)"
  unfolding asks_def by blast+

lemma not_said_told:
  assumes "told E rt c p f" "\<And>body. eng_facts E body = Some f \<Longrightarrow> unclear E rt p body"
  shows "not_said E rt c"
proof -
  obtain ct body b where "Get (url_of rt p) (Responded 200 ct body b) \<in> set (ak_log c)" "eng_facts E body = Some f"
    using assms(1) unfolding told_def by blast
  moreover from this assms(2) have "silent E rt (Get (url_of rt p) (Responded 200 ct body b))" unfolding silent_def by auto
  ultimately show ?thesis unfolding not_said_def by blast
qed

lemma not_saidI:
  "told E rt c (container_at x) f \<Longrightarrow> \<not> anonVol (fc_ID f) \<Longrightarrow> not_said E rt c"
  "told E rt c (network_at x) f \<Longrightarrow> \<not> anonVol (fc_ID f) \<Longrightarrow> not_said E rt c"
  "told E rt c (exec_at x) f \<Longrightarrow> \<not> anonVol (fc_ContainerID f) \<Longrightarrow> not_said E rt c"
  by (erule not_said_told, unfold unclear_def, blast)+

lemma said_otherI:
  "told E rt c (container_at x) f \<Longrightarrow> fc_Config f = None \<Longrightarrow> said_other E rt c"
  "told E rt c (container_at x) f \<Longrightarrow> fc_Config f = Some ls \<Longrightarrow> \<not> labels_own rt ls \<Longrightarrow> said_other E rt c"
  "told E rt c (volume_at x) f \<Longrightarrow> \<not> labels_own rt (fc_Labels f) \<Longrightarrow> said_other E rt c"
  "told E rt c (network_at x) f \<Longrightarrow> \<not> labels_own rt (fc_Labels f) \<Longrightarrow> said_other E rt c"
proof -
  show "told E rt c (container_at x) f \<Longrightarrow> fc_Config f = None \<Longrightarrow> said_other E rt c"
    unfolding said_other_def by (rule disjI1, rule exI, rule exI, erule conjI) simp
  show "told E rt c (container_at x) f \<Longrightarrow> fc_Config f = Some ls \<Longrightarrow> \<not> labels_own rt ls \<Longrightarrow> said_other E rt c"
    unfolding said_other_def by (rule disjI1, rule exI, rule exI, erule conjI) simp
qed (unfold said_other_def, blast+)

section \<open>What each step keeps\<close>

lemma read_reply_Inr:
  assumes "read_reply E account r = Inr x"
  obtains (found) ct body b where "x = Inr body" "r = Responded 200 ct body b"
  | (absent) a ct b where "x = Inl a" "answer_ok a" "r = Responded 404 ct (an_body a) b"
proof (cases r)
  case (Responded status ct body b)
  show thesis
  proof (cases "status = 404")
    case True
    from assms obtain a where "x = Inl a" "an_status a = 404" "an_body a = body" "int (length body) \<le> maxAbsent"
      by (auto simp: read_reply_def Responded True split: if_splits)
    then show thesis using absent [of a ct b] by (simp add: answer_ok_def Responded True)
  next
    case False
    with assms found [of body ct b] show thesis by (auto simp: read_reply_def Responded Let_def split: if_splits)
  qed
qed (use assms in \<open>simp_all add: read_reply_def\<close>)

lemma read_reply_Inl: "read_reply E account r = Inl e \<Longrightarrow> unread r \<and> (\<exists>why. e = lookupFailed account why)"
  by (cases r) (auto simp: read_reply_def Let_def unread_def split: if_splits)

lemma claim_get_spec:
  assumes "claim_get E rt p account c = (r, c')" "kept E rt c"
  shows "goes_on E rt c c'" "ak_seen c' = ak_seen c"
    "r = Inr (Inr body) \<Longrightarrow> \<exists>ct b. Get (url_of rt p) (Responded 200 ct body b) \<in> set (ak_log c')"
    "r = Inr (Inl a) \<Longrightarrow> answer_ok a \<and> (\<exists>ct b. Get (url_of rt p) (Responded 404 ct (an_body a) b) \<in> set (ak_log c'))"
    "r = Inl e \<Longrightarrow> refusal_ok E rt c' e \<and> or_answer e = None"
proof -
  obtain rp w where g: "eng_get E (url_of rt p) (ak_world c) = (rp, w)" by (cases "eng_get E (url_of rt p) (ak_world c)")
  from assms(1) have r: "r = read_reply E account rp"
    and c': "c' = c\<lparr>ak_world := w, ak_log := Get (url_of rt p) rp # ak_log c\<rparr>" by (simp_all add: claim_get_def g)
  have grows: "grows c c'" by (auto simp: grows_def c')
  with assms(2) show "goes_on E rt c c'" using kept_grows [of E rt c] by (auto simp: goes_on_def kept_def made_own_def c')
  show "ak_seen c' = ak_seen c" by (simp add: c')
  show "r = Inr (Inr body) \<Longrightarrow> \<exists>ct b. Get (url_of rt p) (Responded 200 ct body b) \<in> set (ak_log c')"
    unfolding r by (erule read_reply_Inr) (auto simp: c')
  show "r = Inr (Inl a) \<Longrightarrow> answer_ok a \<and> (\<exists>ct b. Get (url_of rt p) (Responded 404 ct (an_body a) b) \<in> set (ak_log c'))"
    unfolding r by (erule read_reply_Inr) (auto simp: c')
  assume "r = Inl e"
  then obtain why where "unread rp" "e = lookupFailed account why" using read_reply_Inl [of E account rp e] r by auto
  moreover from this have "not_said E rt c'" by (auto simp: not_said_def c' silent_def)
  moreover have "or_answer (lookupFailed account why) = None" by (simp add: lookupFailed_def)
  ultimately show "refusal_ok E rt c' e \<and> or_answer e = None" by simp
qed

lemma claim_ask_spec:
  assumes "claim_ask E rt p account c = (a, c')" "kept E rt c" "asks p"
  shows "goes_on E rt c c'" "kept_answer E rt c' p a"
proof -
  have "goes_on E rt c c' \<and> kept_answer E rt c' p a"
  proof (cases "ak_seen c p")
    case (Some x)
    with assms show ?thesis by (auto simp: claim_ask_def goes_on_def kept_def)
  next
    case None
    obtain r c1 where g: "claim_get E rt p account c = (r, c1)" by (cases "claim_get E rt p account c")
    note spec = claim_get_spec [OF g assms(2)]
    define x where "x = asked_of E account r"
    have a: "a = x" and c': "c' = c1\<lparr>ak_seen := (ak_seen c1)(p \<mapsto> x)\<rparr>"
      using assms(1) None by (auto simp: claim_ask_def g x_def Let_def)
    have log: "ak_log c' = ak_log c1" by (simp add: c')
    have "refusal_ok E rt c1 (lookupFailed account why)" if "r = Inr (Inr body)" "eng_facts E body = None" for body why
    proof -
      have "unclear E rt p body" using that(2) assms(3) by (simp add: unclear_def)
      then have "silent E rt (Get (url_of rt p) (Responded 200 ct body b))" for ct b by (auto simp: silent_def)
      with spec(3) [OF that(1)] have "not_said E rt c1" unfolding not_said_def by blast
      then show ?thesis by simp
    qed
    then have "kept_answer E rt c1 p x"
      using spec(3-5) by (auto simp: x_def asked_of_def kept_answer_def lookupFailed_def intro: toldI
        split: sum.splits option.splits)
    then have x: "kept_answer E rt c' p x" using kept_grows [of E rt c1 p x c'] by (simp add: grows_def log)
    moreover have "kept E rt c'"
      using spec(1) x kept_grows [of E rt c1 _ _ c'] by (auto simp: goes_on_def kept_def made_own_def c' grows_def)
    ultimately show ?thesis using spec(1) a by (auto simp: goes_on_def grows_def log)
  qed
  then show "goes_on E rt c c'" "kept_answer E rt c' p a" by blast+
qed

lemma goes_on_refl: "kept E rt c \<Longrightarrow> goes_on E rt c c"
  by (simp add: goes_on_def)

lemma goes_on_trans: "goes_on E rt a b \<Longrightarrow> goes_on E rt b c \<Longrightarrow> goes_on E rt a c"
  by (auto simp: goes_on_def intro: grows_trans)

lemma goes_on_kept: "goes_on E rt a b \<Longrightarrow> kept E rt b"
  by (simp add: goes_on_def)

text \<open>A step as a triple: it goes on from what was kept, with what it gives as \<open>Q\<close> says, or with a refusal.\<close>

definition gives :: "'s engine \<Rightarrow> docker_route \<Rightarrow> 's asking \<Rightarrow> ('a \<Rightarrow> 's asking \<Rightarrow> bool) \<Rightarrow>
    (object_refusal + 'a) \<times> 's asking \<Rightarrow> bool" where
  "gives E rt c Q m \<longleftrightarrow> goes_on E rt c (snd m) \<and> (case fst m of Inl e \<Rightarrow> refusal_ok E rt (snd m) e | Inr x \<Rightarrow> Q x (snd m))"

lemma gives_and_then:
  assumes "gives E rt c Q m" "\<And>x c'. Q x c' \<Longrightarrow> goes_on E rt c c' \<Longrightarrow> gives E rt c' R (f x c')"
  shows "gives E rt c R (and_then m f)"
proof (cases m)
  case (Pair r c')
  show ?thesis
  proof (cases r)
    case (Inr x)
    with assms(1) Pair have "Q x c'" "goes_on E rt c c'" by (simp_all add: gives_def)
    from assms(2) [OF this] this(2) show ?thesis
      by (auto simp: gives_def and_then_def Pair Inr intro: goes_on_trans)
  qed (use assms(1) Pair in \<open>simp add: gives_def and_then_def\<close>)
qed

lemma gives_mono: "gives E rt c Q m \<Longrightarrow> (\<And>x c'. Q x c' \<Longrightarrow> R x c') \<Longrightarrow> gives E rt c R m"
  by (auto simp: gives_def split: sum.splits)

lemma gives_after_ask:
  assumes "kept E rt c" "asks p" "\<And>a c'. claim_ask E rt p account c = (a, c') \<Longrightarrow> kept_answer E rt c' p a \<Longrightarrow> kept E rt c' \<Longrightarrow> gives E rt c' Q (f a c')"
  shows "gives E rt c Q (let (a, c') = claim_ask E rt p account c in f a c')"
proof -
  obtain a c' where g: "claim_ask E rt p account c = (a, c')" by (cases "claim_ask E rt p account c")
  note spec = claim_ask_spec [OF g assms(1,2)]
  from assms(3) [OF g spec(2) goes_on_kept [OF spec(1)]] spec(1) show ?thesis
    by (auto simp: g gives_def intro: goes_on_trans)
qed

lemma gives_here: "gives E rt c Q (r, c) \<longleftrightarrow> kept E rt c \<and> (case r of Inl e \<Rightarrow> refusal_ok E rt c e | Inr x \<Rightarrow> Q x c)"
  by (cases r) (auto simp: gives_def goes_on_def)

lemma gives_container: "kept E rt c \<Longrightarrow> gives E rt c (\<lambda>i c'. own_container E rt c' ref i) (claim_container E rt ref account c)"
  unfolding claim_container_def
proof (rule gives_after_ask [OF _ asks_at(1)], assumption, goal_cases)
  case (1 a c')
  show ?case
  proof (cases a)
    case (Found f)
    with 1 have told: "told E rt c' (container_at ref) f" by (simp add: kept_answer_def)
    show ?thesis
      using 1(4) not_saidI(1) [OF told] said_otherI(1,2) [OF told] told
      by (auto simp: Found gives_here container_of_def own_container_def split: option.split)
  qed (use 1 in \<open>auto simp: gives_here container_of_def kept_answer_Failed dest: gone_absent\<close>)
qed

definition path_owned :: "'s engine \<Rightarrow> docker_route \<Rightarrow> 's asking \<Rightarrow> string \<Rightarrow> string \<Rightarrow> string \<Rightarrow> bool" where
  "path_owned E rt c kind seg forward \<longleftrightarrow>
     (if kind = ''container'' then own_container E rt c seg forward
      else if kind = ''exec'' then forward = seg \<and> own_exec E rt c seg
      else if kind = ''volume'' then forward = seg \<and> own_volume E rt c seg
      else kind = ''network'' \<and> own_network E rt c seg forward)"

lemma gives_exec: "kept E rt c \<Longrightarrow> gives E rt c (\<lambda>(forward, _) c'. forward = seg \<and> own_exec E rt c' seg) (path_exec E rt seg c)"
  unfolding path_exec_def Let_def
proof (rule gives_after_ask [OF _ asks_at(2), unfolded Let_def], assumption, goal_cases)
  case (1 a c')
  show ?case
  proof (cases a)
    case (Found f)
    have told: "told E rt c' (exec_at seg) f" using 1(3) by (simp add: kept_answer_def Found)
    show ?thesis
    proof (cases "anonVol (fc_ContainerID f)")
      case True
      have "gives E rt c'' (\<lambda>(forward, _) c'. forward = seg \<and> own_exec E rt c' seg) (Inr (seg, account), c'')"
        if "own_container E rt c'' (fc_ContainerID f) i" "goes_on E rt c' c''" for i c'' account
        using that told_grows [OF told] by (auto simp: gives_here own_exec_def goes_on_def)
      with True show ?thesis
        by (simp add: Found) (rule gives_and_then [OF gives_container [OF 1(4)]])
    qed (use 1 not_saidI(3) [OF told] in \<open>simp add: Found gives_here\<close>)
  qed (use 1 in \<open>auto simp: gives_here kept_answer_Failed dest: gone_absent\<close>)
qed

lemma gives_path_volume: "kept E rt c \<Longrightarrow> gives E rt c (\<lambda>(forward, _) c'. forward = seg \<and> own_volume E rt c' seg) (path_volume E rt seg c)"
  unfolding path_volume_def Let_def
proof (rule gives_after_ask [OF _ asks_at(3), unfolded Let_def], assumption, goal_cases)
  case (1 a c')
  show ?case
  proof (cases a)
    case (Found f)
    with 1 have told: "told E rt c' (volume_at seg) f" by (simp add: kept_answer_def)
    show ?thesis using 1(4) said_otherI(3) [OF told] told by (auto simp: Found gives_here own_volume_def)
  qed (use 1 in \<open>auto simp: gives_here kept_answer_Failed dest: gone_absent\<close>)
qed

lemma gives_path_network:
  "kept E rt c \<Longrightarrow> gives E rt c (\<lambda>(forward, _) c'. own_network E rt c' seg forward) (path_network E rt seg c)"
  unfolding path_network_def Let_def
proof (rule gives_after_ask [OF _ asks_at(4), unfolded Let_def], assumption, goal_cases)
  case (1 a c')
  show ?case
  proof (cases a)
    case (Found f)
    with 1 have told: "told E rt c' (network_at seg) f" by (simp add: kept_answer_def)
    show ?thesis using 1(4) not_saidI(2) [OF told] said_otherI(4) [OF told] told by (auto simp: Found gives_here own_network_def)
  qed (use 1 in \<open>auto simp: gives_here kept_answer_Failed dest: gone_absent\<close>)
qed

lemma gives_path:
  "kept E rt c \<Longrightarrow> gives E rt c (\<lambda>(forward, _) c'. path_owned E rt c' kind seg forward) (claim_path E rt kind seg c)"
proof -
  assume k: "kept E rt c"
  consider "kind = ''container''" | "kind = ''exec''" | "kind = ''volume''" | "kind = ''network''"
    | "kind \<notin> {''container'', ''exec'', ''volume'', ''network''}" by blast
  then show ?thesis
  proof cases
    case 1
    then show ?thesis
      by (simp add: claim_path_def path_owned_def)
        (rule gives_and_then [OF gives_container [OF k]], auto simp: gives_here goes_on_def)
  next
    case 2
    with gives_exec [OF k, of seg] show ?thesis by (simp add: claim_path_def path_owned_def)
  next
    case 3
    with gives_path_volume [OF k, of seg] show ?thesis by (simp add: claim_path_def path_owned_def)
  next
    case 4
    with gives_path_network [OF k, of seg] show ?thesis by (simp add: claim_path_def path_owned_def)
  qed (use k in \<open>simp add: claim_path_def gives_here\<close>)
qed

text \<open>A body's name: a network to attach to by the ID of one that is the project's; a network to make held
  and no more; a volume that is the project's, or is not there and is to be made, or is to be mounted and is
  one the daemon named itself for a container of the project's.\<close>

definition name_owned :: "'s engine \<Rightarrow> docker_route \<Rightarrow> 's asking \<Rightarrow> lookup \<Rightarrow> string \<Rightarrow> bool" where
  "name_owned E rt c l i \<longleftrightarrow>
     (if lk_Kind l = ''network'' then lk_Use l = Create \<and> i = [] \<or> lk_Use l = Attach \<and> own_network E rt c (lk_Name l) i
      else lk_Kind l = ''volume'' \<and> i = [] \<and>
        (own_volume E rt c (lk_Name l) \<or>
         lk_Use l = Create \<and> no_volume rt c (lk_Name l) \<or>
         lk_Use l = Mount \<and> own_anonymous E rt c (lk_Name l)))"

lemma gives_mounted:
  assumes k: "kept E rt c"
  shows "gives E rt c (\<lambda>ok c'. ok \<longrightarrow> listed_own E rt c' name) (mountedByOwn E rt name account c)"
  unfolding mountedByOwn_def
proof (rule gives_and_then)
  let ?said = "\<lambda>status body c'. \<exists>ct b. Get (url_of rt (mounted_at E rt name)) (Responded status ct body b) \<in> set (ak_log c')"
  let ?Q = "\<lambda>r c'. case r of Inr body \<Rightarrow> ?said 200 body c' | Inl a \<Rightarrow> ?said 404 (an_body a) c'"
  obtain r c' where g: "claim_get E rt (mounted_at E rt name) account c = (r, c')"
    by (cases "claim_get E rt (mounted_at E rt name) account c")
  note spec = claim_get_spec [OF g k]
  show "gives E rt c ?Q (claim_get E rt (mounted_at E rt name) account c)"
    using spec(1,3,4,5) by (auto simp: gives_def g split: sum.split)
  fix r c'
  assume said: "?Q r c'" and "goes_on E rt c c'"
  then show "gives E rt c' (\<lambda>ok c'. ok \<longrightarrow> listed_own E rt c' name)
      (case r of Inl a \<Rightarrow> Inl (lookupFailed account ''status 404'')
       | Inr body \<Rightarrow> (case eng_listed E body of None \<Rightarrow> Inl (lookupFailed account ''not the daemon's JSON'')
           | Some cts \<Rightarrow> Inr (list_ex (lists_own rt name) cts)), c')"
  proof (cases r)
    case (Inr body)
    have "listed_own E rt c' name" if "eng_listed E body = Some cts" "list_ex (lists_own rt name) cts" for cts
      using that said by (auto simp: Inr listed_own_def)
    moreover have "not_said E rt c'" if "eng_listed E body = None"
    proof -
      from that have "silent E rt (Get (url_of rt (mounted_at E rt name)) (Responded 200 ct body b))" for ct b
        unfolding silent_def unclear_def exchange.case by blast
      with said show ?thesis by (auto simp: Inr not_said_def)
    qed
    ultimately show ?thesis using \<open>goes_on E rt c c'\<close> by (auto simp: Inr gives_here goes_on_kept split: option.split)
  next
    case (Inl a)
    have "silent E rt (Get (url_of rt (mounted_at E rt name)) (Responded 404 ct body b))" for ct body b
      unfolding silent_def exchange.case by blast
    with said have "not_said E rt c'" by (auto simp: Inl not_said_def)
    with \<open>goes_on E rt c c'\<close> show ?thesis by (simp add: Inl gives_here goes_on_kept)
  qed
qed

lemma gives_volume:
  "kept E rt c \<Longrightarrow> gives E rt c (\<lambda>_ c'. own_volume E rt c' (lk_Name l) \<or> lk_Use l = Create \<and> no_volume rt c' (lk_Name l) \<or>
     lk_Use l = Mount \<and> own_anonymous E rt c' (lk_Name l)) (claim_volume E rt l c)"
  unfolding claim_volume_def Let_def
proof (rule gives_after_ask [OF _ asks_at(3), unfolded Let_def], assumption, goal_cases)
  case (1 a c')
  show ?case
  proof (cases a)
    case (Found f)
    have told: "told E rt c' (volume_at (lk_Name l)) f" using 1(3) by (simp add: kept_answer_def Found)
    show ?thesis
    proof (cases "labels_own rt (fc_Labels f) \<or> lk_Use l \<noteq> Mount \<or> map_of (fc_Labels f) anonymousLabel = None")
      case True
      with told 1(4) said_otherI(3) [OF told] show ?thesis by (auto simp: Found gives_here own_volume_def)
    next
      case False
      have anon: "own_anonymous E rt c'' (lk_Name l)" if "goes_on E rt c' c''" "listed_own E rt c'' (lk_Name l)" for c''
        using that told_grows [OF told] False unfolding own_anonymous_def goes_on_def by blast
      from False have use: "labels_own rt (fc_Labels f) = False" "(lk_Use l \<noteq> Mount) = False"
        "(map_of (fc_Labels f) anonymousLabel = None) = False" by auto
      show ?thesis
        unfolding Found asked.case use if_False
        by (rule gives_and_then [OF gives_mounted [OF 1(4)]]) (use anon False said_otherI(3) [OF told_grows [OF told]] in \<open>auto simp: gives_here goes_on_def\<close>)
    qed
  next
    case (Gone x)
    with 1(3) have "no_volume rt c' (lk_Name l)" by (auto simp: kept_answer_def no_volume_def)
    with 1(3,4) gone_absent [of E rt c' _ x] show ?thesis by (auto simp: Gone gives_here)
  qed (use 1 in \<open>simp add: gives_here kept_answer_Failed\<close>)
qed

lemma gives_create:
  assumes k: "kept E rt c"
  shows "gives E rt c (\<lambda>_ _. True) (createDefault E rt (DefaultNetwork (dk_Project rt)) account c)"
proof -
  obtain r w where g: "eng_create E (url_of rt ''/networks/create'') (default_network rt) (ak_world c) = (r, w)"
    by (cases "eng_create E (url_of rt ''/networks/create'') (default_network rt) (ak_world c)")
  let ?c = "c\<lparr>ak_world := w, ak_log := Post (url_of rt ''/networks/create'') (default_network rt) r # ak_log c\<rparr>"
  have grows: "grows c ?c" by (auto simp: grows_def)
  then have "goes_on E rt c ?c" using k kept_grows [of E rt c] by (auto simp: goes_on_def kept_def made_own_def)
  moreover have "not_said E rt ?c" if "\<forall>ct body b. r \<noteq> Responded 201 ct body b"
    using that by (simp add: not_said_def silent_def)
  ultimately show ?thesis
    by (auto simp: createDefault_def default_network_def [symmetric] g gives_def split: reply.split sum.split if_splits)
qed

lemma gives_attach_answer:
  "kept E rt c \<Longrightarrow> gives E rt c (\<lambda>(a, _) c'. kept_answer E rt c' (network_at net) a) (attach_answer E rt net c)"
  unfolding attach_answer_def Let_def
proof (rule gives_after_ask [OF _ asks_at(4), unfolded Let_def], assumption, goal_cases)
  case (1 a c')
  show ?case
  proof (cases a)
    case (Gone x)
    show ?thesis
    proof (cases "net = DefaultNetwork (dk_Project rt)")
      case True
      show ?thesis
        unfolding Gone asked.case if_P [OF True]
      proof (rule gives_and_then [OF gives_create [OF 1(4), folded True]], goal_cases)
        case (1 _ c'')
        let ?c = "c''\<lparr>ak_seen := (ak_seen c'')(network_at net := None)\<rparr>"
        have "kept_answer E rt c'' p a \<Longrightarrow> kept_answer E rt ?c p a" for p a by (erule kept_grows) (auto simp: grows_def)
        then have k: "kept E rt ?c" using goes_on_kept [OF 1(2)] by (auto simp: kept_def made_own_def)
        obtain b c3 where g: "claim_ask E rt (network_at net) (''network '' @ net) ?c = (b, c3)"
          by (cases "claim_ask E rt (network_at net) (''network '' @ net) ?c")
        from claim_ask_spec [OF g k asks_at(4)] show ?case unfolding g prod.case gives_def by (simp add: goes_on_def grows_def)
      qed
    qed (use 1 in \<open>simp add: Gone gives_here\<close>)
  qed (use 1 in \<open>simp_all add: gives_here\<close>)
qed

lemma gives_attach:
  assumes k: "kept E rt c"
  shows "gives E rt c (\<lambda>(_, i) c'. own_network E rt c' net i) (claim_attach E rt net c)"
  unfolding claim_attach_def
proof (rule gives_and_then [OF gives_attach_answer [OF k]], goal_cases)
  case (1 x c')
  obtain a name where x: "x = (a, name)" by (cases x)
  show ?case
  proof (cases a)
    case (Found f)
    with 1 have told: "told E rt c' (network_at net) f" by (simp add: x kept_answer_def)
    show ?thesis
      using 1(2) not_saidI(2) [OF told] said_otherI(4) [OF told] told by (auto simp: x Found gives_here goes_on_kept own_network_def)
  qed (use 1 in \<open>auto simp: x gives_here goes_on_kept kept_answer_Failed dest: gone_absent\<close>)
qed

lemma own_network_ID: "own_network E rt c name i \<Longrightarrow> i \<noteq> []"
  by (auto simp: own_network_def anonVol_def)

lemma gives_named:
  assumes k: "kept E rt c"
  shows "gives E rt c (\<lambda>(_, i) c'. name_owned E rt c' l i) (claim_named E rt l c)"
proof -
  consider "lk_Kind l = ''network''" "lk_Use l = Create" | "lk_Kind l = ''network''" "lk_Use l = Attach"
    | "lk_Kind l \<noteq> ''volume''" "\<not> (lk_Kind l = ''network'' \<and> (lk_Use l = Create \<or> lk_Use l = Attach))"
    | "lk_Kind l = ''volume''" by fastforce
  then show ?thesis
  proof cases
    case 1
    with k show ?thesis by (simp add: claim_named_def gives_here name_owned_def)
  next
    case 2
    then show ?thesis
      using gives_mono [OF gives_attach [OF k, of "lk_Name l"], of "\<lambda>(_, i) c'. name_owned E rt c' l i"]
      by (auto simp: claim_named_def name_owned_def)
  next
    case 3
    with k show ?thesis by (auto simp: claim_named_def gives_here)
  next
    case 4
    then have "claim_named E rt l c = and_then (claim_volume E rt l c) (\<lambda>account c. (Inr (account, []), c))"
      by (simp add: claim_named_def)
    then show ?thesis
      by (simp only:) (rule gives_and_then [OF gives_volume [OF k, of l]], use 4 in \<open>auto simp: gives_here goes_on_kept name_owned_def\<close>)
  qed
qed

text \<open>The names of a body, with the IDs to name its networks by.\<close>

definition ids_owned :: "'s engine \<Rightarrow> docker_route \<Rightarrow> 's asking \<Rightarrow> (string \<times> string) list \<Rightarrow> bool" where
  "ids_owned E rt c networks \<longleftrightarrow> (\<forall>n i. map_of networks n = Some i \<longrightarrow> own_network E rt c n i)"

definition names_owned :: "'s engine \<Rightarrow> docker_route \<Rightarrow> 's asking \<Rightarrow> lookup list \<Rightarrow> (string \<times> string) list \<Rightarrow> bool" where
  "names_owned E rt c ls networks \<longleftrightarrow> ids_owned E rt c networks \<and>
     list_all (\<lambda>l. if lk_Kind l = ''network'' \<and> lk_Use l = Attach then map_of networks (lk_Name l) \<noteq> None
                   else name_owned E rt c l []) ls"

lemma name_owned_grows: "grows c c' \<Longrightarrow> name_owned E rt c l i \<Longrightarrow> name_owned E rt c' l i"
  unfolding name_owned_def using own_grows [of c c'] by (auto split: if_splits)

lemma ids_owned_grows: "grows c c' \<Longrightarrow> ids_owned E rt c ns \<Longrightarrow> ids_owned E rt c' ns"
  unfolding ids_owned_def using own_grows [of c c'] by blast

lemma claim_body_spec:
  assumes "claim_body E rt ls account networks c = ((account', r), c')" "kept E rt c" "ids_owned E rt c networks"
  shows "goes_on E rt c c' \<and> (\<forall>e. r = Inl e \<longrightarrow> refusal_ok E rt c' e) \<and>
    (\<forall>ns. r = Inr ns \<longrightarrow> names_owned E rt c' ls ns \<and> (\<forall>n. map_of networks n \<noteq> None \<longrightarrow> map_of ns n \<noteq> None))"
  using assms
proof (induction ls arbitrary: account networks c)
  case Nil
  then show ?case by (auto simp: goes_on_refl names_owned_def)
next
  case (Cons l ls)
  obtain x c1 where n: "claim_named E rt l c = (x, c1)" by (cases "claim_named E rt l c")
  have g: "gives E rt c (\<lambda>(_, i) c'. name_owned E rt c' l i) (x, c1)" using gives_named [OF Cons(3), of l] by (simp add: n)
  then have on: "goes_on E rt c c1" by (simp add: gives_def)
  show ?case
  proof (cases x)
    case (Inl e)
    with g on Cons(2) show ?thesis by (auto simp: n gives_def)
  next
    case (Inr y)
    obtain acct i where y: "y = (acct, i)" by (cases y)
    have o1: "name_owned E rt c1 l i" using g by (simp add: gives_def Inr y)
    define ns1 where "ns1 = (if i \<noteq> [] then put (lk_Name l) i networks else networks)"
    have rest: "claim_body E rt ls (account @ [acct]) ns1 c1 = ((account', r), c')"
      using Cons(2) by (simp add: n Inr y ns1_def split: if_splits)
    have "i \<noteq> [] \<Longrightarrow> own_network E rt c1 (lk_Name l) i" using o1 by (auto simp: name_owned_def split: if_splits)
    moreover have "ids_owned E rt c1 networks" using ids_owned_grows [OF _ Cons(4)] on by (simp add: goes_on_def)
    ultimately have "ids_owned E rt c1 ns1" by (auto simp: ids_owned_def ns1_def)
    from Cons.IH [OF rest goes_on_kept [OF on] this] have IH: "goes_on E rt c1 c'" "\<And>e. r = Inl e \<Longrightarrow> refusal_ok E rt c' e"
      "\<And>ns. r = Inr ns \<Longrightarrow> names_owned E rt c' ls ns" "\<And>ns n. r = Inr ns \<Longrightarrow> map_of ns1 n \<noteq> None \<Longrightarrow> map_of ns n \<noteq> None" by blast+
    have "name_owned E rt c' l i" using name_owned_grows o1 IH(1) by (auto simp: goes_on_def)
    then have "if lk_Kind l = ''network'' \<and> lk_Use l = Attach then map_of ns1 (lk_Name l) \<noteq> None else name_owned E rt c' l []"
      using own_network_ID by (fastforce simp: name_owned_def ns1_def split: if_splits)
    then have "names_owned E rt c' (l # ls) ns" if "r = Inr ns" for ns
      using IH(3,4) [OF that] by (auto simp: names_owned_def)
    moreover have "map_of ns n \<noteq> None" if "r = Inr ns" "map_of networks n \<noteq> None" for ns n
      using IH(4) [OF that(1), of n] that(2) by (auto simp: ns1_def)
    ultimately show ?thesis using goes_on_trans [OF on IH(1)] IH(2) by blast
  qed
qed

end
