(* ===== verification/Docker_Request.thy ===== *)
theory Docker_Request
  imports Docker_Owned Docker_Filter Docker_Locks Scope_GraphQL
begin

text \<open>
  A Docker route's own decision on a request, \<open>dockerRule.decide\<close> of \<open>internal/intercept/docker.go\<close> and what
  it calls: the API version, the protocol switch, the query and its encoding, the object the path names, the
  body by its table, whose each object is, and what goes upstream in the request's place.

  What only the log holds is left out. A checked body is its tree, as in \<open>Docker_Walk\<close>.
\<close>

section \<open>What is given, and the request\<close>

record 's given =
  gv_lib :: lib
  gv_engine :: "'s engine"
  gv_media :: "string \<Rightarrow> (string \<times> (string \<times> string) list) option"
  gv_filters :: "(string \<times> terms) list \<Rightarrow> string"

text \<open>A route that is served: the document's, its versions as numbers and the daemon's socket.\<close>

record live_route =
  lr_route :: docker_route
  lr_min :: int
  lr_max :: int
  lr_socket :: string

text \<open>\<open>dq_Tree\<close> is the body that goes upstream where a table judged it; there is none before.\<close>

record docker_request =
  dq_http :: http_request
  dq_Path :: string
  dq_UpgradeHeader :: "string list"
  dq_ConnectionHeader :: "string list"
  dq_Tree :: "members option"

record docker_answer =
  da_verdict :: verdict
  da_status :: int
  da_answer :: "answer option"
  da_upgrade :: string
  da_jsonBody :: bool
  da_held :: "name_key list"

section \<open>Refusals\<close>

abbreviation ReasonAPIVersion :: string where "ReasonAPIVersion \<equiv> ''api version not allowed''"
abbreviation ReasonUnversioned :: string where "ReasonUnversioned \<equiv> ''unversioned request''"
abbreviation ReasonNoBody :: string where "ReasonNoBody \<equiv> ''body on an operation that takes none''"
abbreviation ReasonUpgrade :: string where "ReasonUpgrade \<equiv> ''upgrade not allowed''"
abbreviation ReasonImage :: string where "ReasonImage \<equiv> ''image not listed''"
abbreviation ReasonParam :: string where "ReasonParam \<equiv> ''not a name''"

definition answered_with :: "verdict \<Rightarrow> docker_answer" where
  "answered_with v = \<lparr>da_verdict = v, da_status = 0, da_answer = None, da_upgrade = [], da_jsonBody = False, da_held = []\<rparr>"

definition rule_refuse :: "docker_rule \<Rightarrow> string \<Rightarrow> docker_answer" where
  "rule_refuse d reason = answered_with (Verdict Refuse reason (dr_operation d))"

text \<open>A nil table or node would be a panic, which ends the connection with nothing sent: a refusal here.\<close>

definition rule_refused :: "docker_rule \<Rightarrow> failure \<Rightarrow> docker_answer" where
  "rule_refused d e =
     (case e of
        Refused_body ref \<Rightarrow> rule_refuse d (refusal_Error ref)
      | Out_of_fuel \<Rightarrow> rule_refuse d ReasonUnreadable
      | Nil_node \<Rightarrow> rule_refuse d ReasonUnreadable)"

definition objectRefused :: "docker_rule \<Rightarrow> object_refusal \<Rightarrow> docker_answer" where
  "objectRefused d e = (rule_refuse d (or_reason e))\<lparr>da_status := or_status e, da_answer := or_answer e\<rparr>"

section \<open>Versions\<close>

definition digit :: "char \<Rightarrow> bool" where
  "digit c \<longleftrightarrow> between CHR ''0'' c CHR ''9''"

text \<open>The digits after \<open>1.\<close> of \<open>versionRE\<close>, and their number, where \<open>int\<close> holds it.\<close>

definition minor_digits :: "string \<Rightarrow> bool" where
  "minor_digits s \<longleftrightarrow> s = ''0'' \<or> s \<noteq> [] \<and> list_all digit s \<and> hd s \<noteq> CHR ''0''"

definition apiMinor :: "string \<Rightarrow> int option" where
  "apiMinor v =
     (case CutPrefix v ''1.'' of
        None \<Rightarrow> None
      | Some n \<Rightarrow> if minor_digits n \<and> decimal n \<le> 9223372036854775807 then Some (decimal n) else None)"

definition versionish :: "string \<Rightarrow> bool" where
  "versionish s \<longleftrightarrow> s \<noteq> [] \<and> hd s = CHR ''v'' \<and> list_all (\<lambda>c. digit c \<or> c = CHR ''.'') (tl s)"

definition newDockerRoute :: "docker_route \<Rightarrow> string \<Rightarrow> live_route" where
  "newDockerRoute d socket =
     \<lparr>lr_route = d,
      lr_min = (case apiMinor (dk_APIMin d) of None \<Rightarrow> 0 | Some n \<Rightarrow> n),
      lr_max = (case apiMinor (dk_APIMax d) of None \<Rightarrow> 0 | Some n \<Rightarrow> n),
      lr_socket = socket\<rparr>"

text \<open>Why a path is refused, or the path to decide on, the version, and how many segments it took.\<close>

definition api_version :: "unicode \<Rightarrow> live_route \<Rightarrow> string \<Rightarrow> string + string \<times> string \<times> nat" where
  "api_version U rt escaped =
     (if CHR 0x25 \<in> set escaped then Inl ReasonBadPath
      else case splitPath escaped of
        None \<Rightarrow> Inl ReasonBadPath
      | Some ss \<Rightarrow>
          let s0 = hd ss in
          if \<not> versionish (fold_seg U s0) then
            if escaped \<in> set (dk_Unversioned (lr_route rt)) then Inr (escaped, ''-'', 0) else Inl ReasonUnversioned
          else
            (case (if s0 \<noteq> [] \<and> hd s0 = CHR ''v'' then apiMinor (tl s0) else None) of
               None \<Rightarrow> Inl ReasonAPIVersion
             | Some minor \<Rightarrow>
                 if minor < lr_min rt \<or> lr_max rt < minor then Inl ReasonAPIVersion
                 else
                   let stripped = drop (1 + length s0) escaped in
                   Inr (if stripped = [] then ''/'' else stripped, tl s0, 1)))"

definition imageSegment :: string where
  "imageSegment = ''_''"

definition scoped :: "string \<Rightarrow> string" where
  "scoped stripped =
     (let ss = Split CHR ''/'' (tl stripped) in
      if length ss \<le> 3 \<or> hd ss \<noteq> ''images'' then stripped
      else ''/images/'' @ imageSegment @ ''/'' @ last ss)"

text \<open>The daemon's answer: the version it says it speaks, capped at the route's highest.\<close>

definition capped :: "live_route \<Rightarrow> string \<Rightarrow> string" where
  "capped rt v =
     (if v = [] then v
      else case apiMinor v of
          None \<Rightarrow> dk_APIMax (lr_route rt)
        | Some minor \<Rightarrow> if minor > lr_max rt then dk_APIMax (lr_route rt) else v)"

section \<open>Switching protocols\<close>

text \<open>\<open>strings.TrimSpace\<close>, of Unicode's spaces at either end.\<close>

function trim_left :: "string \<Rightarrow> string" where
  "trim_left s =
     (if s = [] \<or> \<not> IsSpace (fst (DecodeRune s)) then s else trim_left (drop (max 1 (snd (DecodeRune s))) s))"
  by pat_completeness auto
termination
  by (relation "measure length") auto

declare trim_left.simps [simp del]

definition last_space :: "string \<Rightarrow> nat option" where
  "last_space s =
     find (\<lambda>n. n \<le> length s \<and> (case DecodeRune (drop (length s - n) s) of (r, k) \<Rightarrow> k = n \<and> IsSpace r)) [1, 2, 3]"

function trim_right :: "string \<Rightarrow> string" where
  "trim_right s =
     (case last_space s of None \<Rightarrow> s | Some n \<Rightarrow> if s = [] \<or> n = 0 then s else trim_right (take (length s - n) s))"
  by pat_completeness auto
termination
  by (relation "measure length") auto

declare trim_right.simps [simp del]

definition TrimSpace :: "string \<Rightarrow> string" where
  "TrimSpace s = trim_right (trim_left s)"

definition rule_upgrade :: "docker_check \<Rightarrow> docker_request \<Rightarrow> string option" where
  "rule_upgrade k r =
     (let ups = dq_UpgradeHeader r;
          connUpgrade = list_ex (\<lambda>v. list_ex (\<lambda>tok. asciiEqualFold (TrimSpace tok) ''upgrade'') (Split CHR '','' v))
            (dq_ConnectionHeader r)
      in if ups = [] \<and> \<not> connUpgrade then None
         else if Upgrade k = [] \<or> length ups \<noteq> 1 \<or> \<not> asciiEqualFold (TrimSpace (hd ups)) (Upgrade k)
         then Some ReasonUpgrade
         else None)"

section \<open>The query\<close>

text \<open>\<open>intRE\<close>, \<open>contNameRE\<close> and \<open>contHexRE\<close>.\<close>

definition intRE :: "string \<Rightarrow> bool" where
  "intRE s \<longleftrightarrow>
     (let n = (case s of c # cs \<Rightarrow> if c = CHR ''-'' then cs else s | [] \<Rightarrow> s)
      in n \<noteq> [] \<and> length n \<le> 10 \<and> list_all digit n)"

definition unslashed :: "string \<Rightarrow> string" where
  "unslashed s = (case s of c # cs \<Rightarrow> if c = CHR ''/'' then cs else s | [] \<Rightarrow> s)"

definition judge :: "query_check \<Rightarrow> string \<Rightarrow> bool" where
  "judge k v \<longleftrightarrow>
     (if qc_Check k \<in> {''any'', ''filters'', ''imageName'', ''imageTag''} then True
      else if qc_Check k = ''bool'' then v \<in> {''0'', ''1'', ''true'', ''false''}
      else if qc_Check k = ''int'' then intRE v
      else if qc_Check k = ''containerName'' then nameRE (unslashed v) \<and> \<not> allHex (unslashed v)
      else qc_Check k = ''enum'' \<and> v \<in> set (qc_Enum k))"

fun judge_keys :: "docker_check \<Rightarrow> (string \<times> string) list \<Rightarrow> string list \<Rightarrow> body_refusal + (string \<times> string) list" where
  "judge_keys d ps [] = Inr []"
| "judge_keys d ps (key # keys) =
     (case map_of (Query d) key of
        None \<Rightarrow> Inl (bad_query ''a key this operation does not take'')
      | Some k \<Rightarrow>
          (case query_values ps key of
             [v] \<Rightarrow>
               if judge k v then ok_then (judge_keys d ps keys) (\<lambda>vals. Inr ((key, v) # vals))
               else Inl (bad_query (key @ '' is not '' @ qc_Check k))
           | _ \<Rightarrow> Inl (bad_query (key @ '' more than once''))))"

definition get_value :: "(string \<times> string) list \<Rightarrow> string \<Rightarrow> string" where
  "get_value vals key = (case map_of vals key of None \<Rightarrow> [] | Some v \<Rightarrow> v)"

definition image_refusal :: "string \<Rightarrow> body_refusal" where
  "image_refusal detail = \<lparr>bf_Reason = ReasonImage, bf_Detail = detail\<rparr>"

definition pulled :: "string list \<Rightarrow> (string \<times> string) list \<Rightarrow> body_refusal + string" where
  "pulled images vals =
     (let from = get_value vals ''fromImage''; tag = get_value vals ''tag'' in
      if from = [] then Inl (image_refusal ''a pull names no image'')
      else if tag \<noteq> [] \<and> Tagged from then Inl (image_refusal ''a pull with a tag in fromImage and in tag'')
      else if tag = [] \<and> \<not> Tagged from then Inl (image_refusal ''a pull of every tag'')
      else
        let ref = (if prefix ''sha256:'' tag then from @ ''@'' @ tag else if tag \<noteq> [] then from @ '':'' @ tag else from)
        in if ref \<in> set images then Inr ref else Inl (image_refusal ''a pull of an image the route does not list''))"

text \<open>\<open>url.Values.Encode\<close> of values with one to a key.\<close>

definition Encode :: "(string \<times> string) list \<Rightarrow> string" where
  "Encode vals = Join CHR ''&'' (map (\<lambda>(k, v). QueryEscape k @ ''='' @ QueryEscape v) (sort_key fst vals))"

definition rule_query :: "'s given \<Rightarrow> docker_route \<Rightarrow> docker_check \<Rightarrow> string \<Rightarrow> body_refusal + (string \<times> string) list" where
  "rule_query G rt d raw =
     (let (err, ps) = ParseQuery raw in
      if err then Inl (bad_query ''a query that does not parse'')
      else ok_then (judge_keys d ps (sort (remdups (map fst ps)))) (\<lambda>vals.
        if Owned d = ''list'' then
          ok_then (MergeFilter (tokens (gv_lib G)) (get_value vals ''filters'')
              (case map_of (Query d) ''filters'' of None \<Rightarrow> [] | Some k \<Rightarrow> qc_Filters k) (dk_Project rt)) (\<lambda>merged.
            Inr (put ''filters'' (gv_filters G merged) vals))
        else if Owned d = ''imagePull'' then ok_then (pulled (dk_Images rt) vals) (\<lambda>_. Inr vals)
        else Inr vals))"

section \<open>The object and the body\<close>

definition withParam :: "string list" where
  "withParam = [''container'', ''exec'', ''volume'', ''network'', ''image'']"

definition rule_param :: "(int \<Rightarrow> int) \<Rightarrow> docker_route \<Rightarrow> docker_check \<Rightarrow> string \<Rightarrow> string option" where
  "rule_param F rt d seg =
     (if Owned d = ''image'' then
        if seg \<notin> set (dk_Images rt) \<and> \<not> Built F seg (dk_Builds rt) then Some ReasonImage else None
      else if Owned d = ''exec'' then if anonVol seg then None else Some ReasonParam
      else if nameRE seg then None else Some ReasonParam)"

text \<open>Where the path names the rule's object, if it does. A negative place, which no rule that is checked
  has, would be a panic.\<close>

definition object_at :: "(int \<Rightarrow> int) \<Rightarrow> docker_route \<Rightarrow> docker_check \<Rightarrow> nat \<Rightarrow> string list \<Rightarrow> string + nat option" where
  "object_at F rt d offset raw =
     (if Owned d \<notin> set withParam then Inr None
      else
        let i = Param d + int offset in
        if i < 0 \<or> int (length raw) \<le> i then Inl ReasonParam
        else
          let at = nat i;
              seg = (if Owned d = ''image'' then Join CHR ''/'' (take (length raw - 1 - at) (drop at raw)) else raw ! at)
          in (case rule_param F rt d seg of Some reason \<Rightarrow> Inl reason | None \<Rightarrow> Inr (Some at)))"

definition noBody :: "http_request \<Rightarrow> string option" where
  "noBody r =
     (if hr_ContentLength r \<noteq> 0 \<or> hr_TransferEncoding r \<noteq> [] then Some ReasonNoBody
      else if hr_NoBody r then None
      else if hr_Body r \<noteq> [] then Some ReasonNoBody
      else if hr_fails r then Some ReasonStoppedWaiting
      else None)"

definition check_route :: "docker_route \<Rightarrow> route" where
  "check_route d =
     \<lparr>rt_Project = dk_Project d, rt_Address = dk_Address d, rt_Ports = dk_Ports d, rt_Images = dk_Images d,
      rt_Builds = dk_Builds d\<rparr>"

definition body_failure :: "string \<Rightarrow> string \<Rightarrow> failure" where
  "body_failure reason detail = Refused_body \<lparr>bf_Reason = reason, bf_Detail = detail\<rparr>"

definition rule_body :: "'s given \<Rightarrow> docker_route \<Rightarrow> docker_check \<Rightarrow> http_request \<Rightarrow> failure + checked" where
  "rule_body G rt d r =
     (if list_ex (\<lambda>v. \<not> asciiEqualFold (TrimSpace v) ''identity'') (hr_ContentEncoding r)
      then Inl (body_failure ReasonBody ''an encoded body'')
      else if \<not> isJSON (gv_media G) (hr_ContentType r)
      then Inl (body_failure ReasonBody ''a body that is not application/json'')
      else case fst (readUpTo r (dk_MaxBody rt)) of
        ReadFailed \<Rightarrow> Inl (body_failure ReasonStoppedWaiting [])
      | TooLong \<Rightarrow> Inl (body_failure ReasonBody (''a body over '' @ Sprint (dk_MaxBody rt) @ '' bytes''))
      | Whole body \<Rightarrow>
          if body = [] then Inl (body_failure ReasonUnreadable ''an empty body'')
          else (case map_of (dk_Bodies rt) (Body d) of
              None \<Rightarrow> Inl Nil_node
            | Some t \<Rightarrow> Check (gv_lib G) t body (check_route rt)))"

text \<open>A rule that names no body's table has the request have no body; another judges it.\<close>

definition request_body :: "'s given \<Rightarrow> docker_route \<Rightarrow> docker_rule \<Rightarrow> docker_request \<Rightarrow> docker_answer + checked option" where
  "request_body G rt d r =
     (if Body (dr_check d) = [] then
        (case noBody (dq_http r) of Some reason \<Rightarrow> Inl (rule_refuse d reason) | None \<Rightarrow> Inr None)
      else
        (case rule_body G rt (dr_check d) (dq_http r) of
           Inl e \<Rightarrow> Inl (rule_refused d e)
         | Inr checked \<Rightarrow> Inr (Some checked)))"

section \<open>The decision\<close>

text \<open>The names the request acts on, to be held while it does.\<close>

definition lock_keys :: "live_route \<Rightarrow> docker_check \<Rightarrow> string list \<Rightarrow> nat option \<Rightarrow> lookup list \<Rightarrow> name_key list" where
  "lock_keys rt d raw at lookups =
     (case at of
        Some i \<Rightarrow> if Owned d = ''volume''
          then [\<lparr>nk_socket = lr_socket rt, nk_kind = ''volume'', nk_name = raw ! i\<rparr>] else []
      | None \<Rightarrow> []) @
     map (\<lambda>l. \<lparr>nk_socket = lr_socket rt, nk_kind = lk_Kind l, nk_name = lk_Name l\<rparr>) lookups"

definition new_claim :: "'s \<Rightarrow> 's asking" where
  "new_claim w = \<lparr>ak_seen = Map.empty, ak_world = w, ak_log = []\<rparr>"

text \<open>The path as it goes upstream: the object's segment as the daemon said to name it.\<close>

definition claimed_path :: "'s given \<Rightarrow> live_route \<Rightarrow> docker_rule \<Rightarrow> string \<Rightarrow> string list \<Rightarrow> nat option \<Rightarrow> 's asking \<Rightarrow>
    (docker_answer + string) \<times> 's asking" where
  "claimed_path G rt d path raw at c =
     (case at of
        None \<Rightarrow> (Inr path, c)
      | Some i \<Rightarrow>
          if Owned (dr_check d) = ''image'' then (Inr path, c)
          else (case claim_path (gv_engine G) (lr_route rt) (Owned (dr_check d)) (raw ! i) c of
              (Inl e, c) \<Rightarrow> (Inl (objectRefused d e), c)
            | (Inr (forward, _), c) \<Rightarrow> (Inr (CHR ''/'' # Join CHR ''/'' (raw[i := forward])), c)))"

text \<open>The body as it goes upstream: its networks by their IDs.\<close>

definition claimed_body :: "'s given \<Rightarrow> live_route \<Rightarrow> docker_rule \<Rightarrow> checked option \<Rightarrow> 's asking \<Rightarrow>
    (docker_answer + members option) \<times> 's asking" where
  "claimed_body G rt d checked c =
     (case checked of
        None \<Rightarrow> (Inr None, c)
      | Some ck \<Rightarrow>
          if ck_Lookups ck = [] then (Inr (Some (ck_tree ck)), c)
          else (case claim_body (gv_engine G) (lr_route rt) (ck_Lookups ck) [] [] c of
              ((_, Inl e), c) \<Rightarrow> (Inl (objectRefused d e), c)
            | ((_, Inr networks), c) \<Rightarrow>
                (case Attached ck networks of
                   Inl e \<Rightarrow> (Inl (rule_refused d (Refused_body e)), c)
                 | Inr out \<Rightarrow> (Inr (Some out), c))))"

text \<open>\<open>took\<close> is whether the client waited until its request held its names. What is admitted is the answer
  and the request as it goes upstream.\<close>

definition admitted :: "docker_rule \<Rightarrow> docker_request \<Rightarrow> (string \<times> string) list \<Rightarrow> string \<Rightarrow> members option \<Rightarrow>
    name_key list \<Rightarrow> docker_answer \<times> docker_request" where
  "admitted d r vals path tree keys =
     ((answered_with (Verdict Admit ''path'' (dr_operation d)))
        \<lparr>da_jsonBody := tree \<noteq> None,
         da_upgrade := (if Upgrade (dr_check d) \<noteq> [] \<and> dq_UpgradeHeader r \<noteq> [] then Upgrade (dr_check d) else []),
         da_held := lock_order keys\<rparr>,
      r\<lparr>dq_http := (if tree = None
           then (dq_http r)\<lparr>hr_RawQuery := Encode vals, hr_NoBody := True\<rparr>
           else (dq_http r)\<lparr>hr_RawQuery := Encode vals, hr_ContentEncoding := [], hr_TransferEncoding := []\<rparr>),
         dq_Path := path, dq_Tree := tree\<rparr>)"

definition rule_decide :: "'s given \<Rightarrow> live_route option \<Rightarrow> bool \<Rightarrow> docker_rule \<Rightarrow> docker_request \<Rightarrow> 's \<Rightarrow>
    (docker_answer + docker_answer \<times> docker_request) \<times> 's asking" where
  "rule_decide G rto took d r w =
     (case rto of
        None \<Rightarrow> (Inl (rule_refuse d reasonUndecided), new_claim w)
      | Some rt \<Rightarrow>
      (case rule_upgrade (dr_check d) r of
        Some reason \<Rightarrow> (Inl (rule_refuse d reason), new_claim w)
      | None \<Rightarrow>
      (case rule_query G (lr_route rt) (dr_check d) (hr_RawQuery (dq_http r)) of
        Inl e \<Rightarrow> (Inl (rule_refused d (Refused_body e)), new_claim w)
      | Inr vals \<Rightarrow>
      (case api_version (casing (gv_lib G)) rt (dq_Path r) of
        Inl reason \<Rightarrow> (Inl (rule_refuse d reason), new_claim w)
      | Inr (_, _, offset) \<Rightarrow>
      let raw = Split CHR ''/'' (tl (dq_Path r)) in
      (case object_at (folding (gv_lib G)) (lr_route rt) (dr_check d) offset raw of
        Inl reason \<Rightarrow> (Inl (rule_refuse d reason), new_claim w)
      | Inr at \<Rightarrow>
      (case request_body G (lr_route rt) d r of
        Inl a \<Rightarrow> (Inl a, new_claim w)
      | Inr checked \<Rightarrow>
      let keys = lock_keys rt (dr_check d) raw at (case checked of None \<Rightarrow> [] | Some ck \<Rightarrow> ck_Lookups ck) in
      if keys \<noteq> [] \<and> \<not> took then (Inl (rule_refuse d ReasonStoppedWaiting), new_claim w)
      else
      (case claimed_path G rt d (dq_Path r) raw at (new_claim w) of
        (Inl a, c) \<Rightarrow> (Inl a, c)
      | (Inr path, c) \<Rightarrow>
      (case claimed_body G rt d checked c of
        (Inl a, c) \<Rightarrow> (Inl a, c)
      | (Inr tree, c) \<Rightarrow> (Inr (admitted d r vals path tree keys), c)))))))))"

end
