(* ===== verification/Docker_Admit.thy ===== *)
theory Docker_Admit
  imports Docker_Request Docker_Container
begin

text \<open>
  What a Docker request that is admitted acts on: its query as the daemon reads it, the names it holds, whose
  every object is that its path and its body name, and what a refusal gives.
\<close>

section \<open>Queries written and read\<close>

lemma hex_back:
  assumes "0 \<le> d" "d < 16"
  shows "ishex (hex_upper d)" "unhex (hex_upper d) = d" "unreserved (hex_upper d)"
proof -
  have "list_all (\<lambda>d. ishex (hex_upper d) \<and> unhex (hex_upper d) = d \<and> unreserved (hex_upper d)) [0..15]"
    by code_simp
  moreover have "d \<in> set [0..15]" using assms by simp
  ultimately show "ishex (hex_upper d)" "unhex (hex_upper d) = d" "unreserved (hex_upper d)"
    by (simp_all only: list_all_iff)
qed

lemma byte_bounds: "0 \<le> byte c" "byte c < 256"
proof -
  have "int (of_char c) = byte c" by (rule of_nat_of_char)
  moreover have "of_char c < (256::nat)" by (rule nat_of_char_less_256)
  ultimately show "0 \<le> byte c" "byte c < 256" by linarith+
qed

definition query_escaped :: "char \<Rightarrow> string" where
  "query_escaped c = (if unreserved c then [c] else if c = CHR '' '' then ''+'' else percent c)"

lemma QueryEscape_concat: "QueryEscape s = concat (map query_escaped s)"
  by (simp add: QueryEscape_def query_escaped_def [abs_def])

lemma escaped_bytes: "x \<in> set (query_escaped c) \<Longrightarrow> unreserved x \<or> x = CHR ''+'' \<or> x = CHR 0x25"
  using hex_back(3) byte_bounds [of c] by (auto simp: query_escaped_def percent_def split: if_splits)

lemma unreserved_plain: "unreserved c \<Longrightarrow> c \<notin> {CHR 0x25, CHR ''+'', CHR ''&'', CHR '';'', CHR ''='', CHR '' ''}"
  by (auto simp: unreserved_def alnum_def)

lemma QueryEscape_bytes: "CHR ''&'' \<notin> set (QueryEscape s)" "CHR '';'' \<notin> set (QueryEscape s)" "CHR ''='' \<notin> set (QueryEscape s)"
  using escaped_bytes unreserved_plain by (fastforce simp: QueryEscape_concat)+

abbreviation plus_space :: "char \<Rightarrow> char" where
  "plus_space c \<equiv> if c = CHR ''+'' then CHR '' '' else c"

lemma unescape_one: "PathUnescape (map plus_space (query_escaped c) @ t) = map_option ((#) c) (PathUnescape t)"
proof -
  have d: "byte c div 16 \<ge> 0" "byte c div 16 < 16" "byte c mod 16 \<ge> 0" "byte c mod 16 < 16" using byte_bounds [of c] by auto
  note h1 = hex_back [OF d(1) d(2)] and h2 = hex_back [OF d(3) d(4)]
  have plus: "plus_space x = x" if "unreserved x" for x using unreserved_plain [OF that] by auto
  have same: "char_of (16 * (byte c div 16) + byte c mod 16) = c" by simp
  show ?thesis
  proof (cases "unreserved c \<or> c = CHR '' ''")
    case True
    then show ?thesis using plus [of c] unreserved_plain [of c] by (auto simp: query_escaped_def)
  next
    case False
    then have "map plus_space (query_escaped c) = percent c"
      using plus [OF h1(3)] plus [OF h2(3)] by (simp add: query_escaped_def percent_def)
    then show ?thesis using h1 h2 same by (simp add: percent_def)
  qed
qed

lemma QueryUnescape_QueryEscape: "QueryUnescape (QueryEscape s) = Some s"
  by (induction s) (simp_all add: QueryUnescape_def QueryEscape_concat unescape_one del: map_map)

lemma query_pairs_encoded:
  "query_pairs (map (\<lambda>(k, v). QueryEscape k @ ''='' @ QueryEscape v) vals) = (False, vals)"
proof (induction vals)
  case (Cons p vals)
  obtain k v where p: "p = (k, v)" by (cases p)
  have "CHR '';'' \<notin> set (QueryEscape k @ ''='' @ QueryEscape v)" using QueryEscape_bytes by simp
  moreover have "Cut CHR ''='' (QueryEscape k @ ''='' @ QueryEscape v) = (QueryEscape k, Some (QueryEscape v))"
    using Cut_append [OF QueryEscape_bytes(3)] by simp
  ultimately show ?case using Cons by (simp add: p QueryUnescape_QueryEscape)
qed simp

lemma query_roundtrip_law: "ParseQuery (Encode vals) = (False, sort_key fst vals)"
proof (cases "vals = []")
  case False
  let ?ps = "map (\<lambda>(k, v). QueryEscape k @ ''='' @ QueryEscape v) (sort_key fst vals)"
  have "length (sort_key fst vals) \<noteq> 0" using False by simp
  then have "?ps \<noteq> []" by (simp only: length_0_conv map_is_Nil_conv not_False_eq_True)
  moreover have "list_all (\<lambda>p. CHR ''&'' \<notin> set p) ?ps" using QueryEscape_bytes(1) by (auto simp: list_all_iff)
  ultimately have "Split CHR ''&'' (Encode vals) = ?ps"
    unfolding Encode_def by (intro Split_Join) (auto simp: list_all_iff)
  then show ?thesis unfolding ParseQuery_def by (simp only: query_pairs_encoded)
qed (simp add: Encode_def ParseQuery_def)

text \<open>
  What frisket writes a query as is read back as what was checked: whatever bytes its keys and values
  hold, the query parses with no error to exactly them, in the order of the keys.
\<close>

theorem query_roundtrip: "ParseQuery (Encode vals) = (False, sort_key fst vals)"
  by (rule query_roundtrip_law)

section \<open>What an admission went through\<close>

lemma rule_decide_Inr:
  assumes "rule_decide G rto took d r w = (Inr (a, up), c)"
  obtains rt vals stripped ver offset at checked path c1 tree keys where
    "rto = Some rt" "rule_upgrade (dr_check d) r = None"
    "rule_query G (lr_route rt) (dr_check d) (hr_RawQuery (dq_http r)) = Inr vals"
    "api_version (casing (gv_lib G)) rt (dq_Path r) = Inr (stripped, ver, offset)"
    "object_at (folding (gv_lib G)) (lr_route rt) (dr_check d) offset (Split CHR ''/'' (tl (dq_Path r))) = Inr at"
    "request_body G (lr_route rt) d r = Inr checked"
    "keys = lock_keys rt (dr_check d) (Split CHR ''/'' (tl (dq_Path r))) at (case checked of None \<Rightarrow> [] | Some ck \<Rightarrow> ck_Lookups ck)"
    "claimed_path G rt d (dq_Path r) (Split CHR ''/'' (tl (dq_Path r))) at (new_claim w) = (Inr path, c1)"
    "claimed_body G rt d checked c1 = (Inr tree, c)"
    "(a, up) = admitted d r vals path tree keys" "keys = [] \<or> took"
  using assms
  unfolding rule_decide_def Let_def
  by (auto split: option.splits sum.splits prod.splits if_splits intro: that)

lemma kept_new: "kept E rt (new_claim w)"
  by (simp add: kept_def new_claim_def made_own_def)

text \<open>A refusal is a refusal, and says why. One that comes of what was asked about an object has the status for it:
  502 where the daemon did not say, 403 where it said there is none or that it is not the project's, and its own
  answer at most in the second case.\<close>

definition refuses_ok :: "'s engine \<Rightarrow> docker_route \<Rightarrow> 's asking \<Rightarrow> docker_answer \<Rightarrow> bool" where
  "refuses_ok E rt c a \<longleftrightarrow>
     v_outcome (da_verdict a) = Refuse \<and> v_deferred (da_verdict a) = NotDeferred \<and>
     (da_status a = 0 \<and> da_answer a = None \<or>
      da_status a = 502 \<and> v_reason (da_verdict a) = ReasonLookup \<and> da_answer a = None \<and> not_said E rt c \<or>
      da_status a = 403 \<and> v_reason (da_verdict a) = ReasonAbsent \<and> said_absent rt c (da_answer a) \<or>
      da_status a = 403 \<and> v_reason (da_verdict a) = ReasonNotOwned \<and> da_answer a = None \<and> said_other E rt c \<or>
      da_status a = 403 \<and> v_reason (da_verdict a) = ReasonUnchecked \<and> da_answer a = None)"

lemma objectRefused_ok: "refusal_ok E rt c e \<Longrightarrow> refuses_ok E rt c (objectRefused d e)"
  by (simp add: refuses_ok_def objectRefused_def rule_refuse_def answered_with_def refusal_ok_def)

lemma claimed_path_spec:
  assumes "claimed_path G rt d path raw at c = (res, c')" "kept (gv_engine G) (lr_route rt) c"
  shows "goes_on (gv_engine G) (lr_route rt) c c'"
    "res = Inl a \<Longrightarrow> refuses_ok (gv_engine G) (lr_route rt) c' a"
    "res = Inr p \<Longrightarrow> (at = None \<or> Owned (dr_check d) = ''image'') \<and> p = path \<or>
      (\<exists>i forward. at = Some i \<and> p = CHR ''/'' # Join CHR ''/'' (raw[i := forward]) \<and>
        path_owned (gv_engine G) (lr_route rt) c' (Owned (dr_check d)) (raw ! i) forward)"
proof -
  have "goes_on (gv_engine G) (lr_route rt) c c' \<and> (\<forall>a. res = Inl a \<longrightarrow> refuses_ok (gv_engine G) (lr_route rt) c' a) \<and> (\<forall>p. res = Inr p \<longrightarrow>
      (at = None \<or> Owned (dr_check d) = ''image'') \<and> p = path \<or>
      (\<exists>i forward. at = Some i \<and> p = CHR ''/'' # Join CHR ''/'' (raw[i := forward]) \<and>
        path_owned (gv_engine G) (lr_route rt) c' (Owned (dr_check d)) (raw ! i) forward))"
  proof (cases "at = None \<or> Owned (dr_check d) = ''image''")
    case True
    with assms show ?thesis by (auto simp: claimed_path_def goes_on_refl split: option.splits)
  next
    case False
    then obtain i where i: "at = Some i" by (cases at) auto
    obtain x c1 where x: "claim_path (gv_engine G) (lr_route rt) (Owned (dr_check d)) (raw ! i) c = (x, c1)"
      by (cases "claim_path (gv_engine G) (lr_route rt) (Owned (dr_check d)) (raw ! i) c")
    from gives_path [OF assms(2), of "Owned (dr_check d)" "raw ! i"] x
    have g: "goes_on (gv_engine G) (lr_route rt) c c1"
      "case x of Inl e \<Rightarrow> refusal_ok (gv_engine G) (lr_route rt) c1 e | Inr y \<Rightarrow> path_owned (gv_engine G) (lr_route rt) c1 (Owned (dr_check d)) (raw ! i) (fst y)"
      by (auto simp: gives_def split: sum.splits prod.splits)
    show ?thesis
    proof (cases x)
      case (Inl e)
      with assms(1) False i x g show ?thesis by (auto simp: claimed_path_def objectRefused_ok)
    next
      case (Inr y)
      obtain forward acct where y: "y = (forward, acct)" by (cases y)
      from assms(1) False i x Inr y
      have "res = Inr (CHR ''/'' # Join CHR ''/'' (raw[i := forward]))" "c' = c1" by (auto simp: claimed_path_def)
      with g Inr y i show ?thesis by auto
    qed
  qed
  then show "goes_on (gv_engine G) (lr_route rt) c c'"
    "res = Inl a \<Longrightarrow> refuses_ok (gv_engine G) (lr_route rt) c' a"
    "res = Inr p \<Longrightarrow> (at = None \<or> Owned (dr_check d) = ''image'') \<and> p = path \<or>
      (\<exists>i forward. at = Some i \<and> p = CHR ''/'' # Join CHR ''/'' (raw[i := forward]) \<and>
        path_owned (gv_engine G) (lr_route rt) c' (Owned (dr_check d)) (raw ! i) forward)" by blast+
qed

lemma rule_refuse_ok: "refuses_ok E rt c (rule_refuse d reason)" "refuses_ok E rt c (rule_refused d e)"
  by (auto simp: refuses_ok_def rule_refused_def rule_refuse_def answered_with_def split: failure.split)

lemma claimed_body_spec:
  assumes "claimed_body G rt d checked c = (res, c')" "kept (gv_engine G) (lr_route rt) c"
  shows "goes_on (gv_engine G) (lr_route rt) c c'"
    "res = Inl a \<Longrightarrow> refuses_ok (gv_engine G) (lr_route rt) c' a"
    "res = Inr tree \<Longrightarrow> (case checked of None \<Rightarrow> tree = None | Some ck \<Rightarrow>
      (\<exists>networks out. tree = Some out \<and> names_owned (gv_engine G) (lr_route rt) c' (ck_Lookups ck) networks \<and>
        (if ck_Lookups ck = [] then out = ck_tree ck else Attached ck networks = Inr out)))"
proof -
  have "goes_on (gv_engine G) (lr_route rt) c c' \<and> (\<forall>a. res = Inl a \<longrightarrow> refuses_ok (gv_engine G) (lr_route rt) c' a) \<and> (\<forall>tree. res = Inr tree \<longrightarrow>
    (case checked of None \<Rightarrow> tree = None | Some ck \<Rightarrow>
      (\<exists>networks out. tree = Some out \<and> names_owned (gv_engine G) (lr_route rt) c' (ck_Lookups ck) networks \<and>
        (if ck_Lookups ck = [] then out = ck_tree ck else Attached ck networks = Inr out))))"
  proof (cases checked)
    case None
    with assms show ?thesis by (auto simp: claimed_body_def goes_on_refl)
  next
    case (Some ck)
    show ?thesis
    proof (cases "ck_Lookups ck = []")
      case True
      with assms Some show ?thesis
        by (auto simp: claimed_body_def goes_on_refl names_owned_def ids_owned_def intro: exI [of _ "[]"])
    next
      case False
      obtain acct x c1 where x: "claim_body (gv_engine G) (lr_route rt) (ck_Lookups ck) [] [] c = ((acct, x), c1)"
        by (metis prod.exhaust)
      have "ids_owned (gv_engine G) (lr_route rt) c []" by (simp add: ids_owned_def)
      from claim_body_spec [OF x assms(2) this] False Some assms(1) show ?thesis
        by (auto simp: claimed_body_def x objectRefused_ok rule_refuse_ok split: sum.splits)
    qed
  qed
  then show "goes_on (gv_engine G) (lr_route rt) c c'"
    "res = Inl a \<Longrightarrow> refuses_ok (gv_engine G) (lr_route rt) c' a"
    "res = Inr tree \<Longrightarrow> (case checked of None \<Rightarrow> tree = None | Some ck \<Rightarrow>
      (\<exists>networks out. tree = Some out \<and> names_owned (gv_engine G) (lr_route rt) c' (ck_Lookups ck) networks \<and>
        (if ck_Lookups ck = [] then out = ck_tree ck else Attached ck networks = Inr out)))" by blast+
qed

lemma judge_keys_Inr:
  assumes "judge_keys d ps keys = Inr vals"
  shows "map fst vals = keys"
    "list_all (\<lambda>(key, v). query_values ps key = [v] \<and> (\<exists>k. map_of (Query d) key = Some k \<and> judge k v)) vals"
proof -
  have "map fst vals = keys \<and>
    list_all (\<lambda>(key, v). query_values ps key = [v] \<and> (\<exists>k. map_of (Query d) key = Some k \<and> judge k v)) vals"
    using assms
  proof (induction keys arbitrary: vals)
    case (Cons key keys)
    then show ?case
      by (auto simp: ok_then_def split: option.splits list.splits if_splits sum.splits)
  qed simp
  then show "map fst vals = keys"
    "list_all (\<lambda>(key, v). query_values ps key = [v] \<and> (\<exists>k. map_of (Query d) key = Some k \<and> judge k v)) vals" by blast+
qed

lemma object_at_Inr:
  assumes "object_at F rt d offset raw = Inr at"
  shows "at = None \<longleftrightarrow> Owned d \<notin> set withParam"
    "at = Some i \<Longrightarrow> int i = Param d + int offset \<and> i < length raw \<and>
      rule_param F rt d (if Owned d = ''image'' then Join CHR ''/'' (take (length raw - 1 - i) (drop i raw)) else raw ! i) = None"
  using assms by (auto simp: object_at_def Let_def split: if_splits option.splits)


lemma set_lock_order: "set (lock_order keys) = set keys"
  by (simp add: lock_order_def)

section \<open>Properties\<close>

text \<open>
  C22: A request goes upstream on a container, exec, volume or network only if the daemon, asked by frisket
  for this request, said that it is this project's: by the label of a container or network whose full ID then
  takes the place of whatever the path named it by, by the label of a volume, which is held by its name, or by
  the label of an exec's container. Nothing else of the path is changed.
\<close>

theorem docker_object_owned:
  assumes "rule_decide G (Some rt) took d r w = (Inr (a, up), c)"
    and "Owned (dr_check d) \<in> {''container'', ''exec'', ''volume'', ''network''}"
  shows "\<exists>i forward. i < length (Split CHR ''/'' (tl (dq_Path r))) \<and>
    path_owned (gv_engine G) (lr_route rt) c (Owned (dr_check d)) (Split CHR ''/'' (tl (dq_Path r)) ! i) forward \<and>
    (Owned (dr_check d) = ''volume'' \<longrightarrow>
      \<lparr>nk_socket = lr_socket rt, nk_kind = ''volume'', nk_name = Split CHR ''/'' (tl (dq_Path r)) ! i\<rparr> \<in> set (da_held a)) \<and>
    dq_Path up = CHR ''/'' # Join CHR ''/'' ((Split CHR ''/'' (tl (dq_Path r)))[i := forward])"
proof -
  let ?raw = "Split CHR ''/'' (tl (dq_Path r))"
  from assms(1) obtain vals stripped ver offset at checked path c1 tree keys where
    at: "object_at (folding (gv_lib G)) (lr_route rt) (dr_check d) offset ?raw = Inr at"
    and keys: "keys = lock_keys rt (dr_check d) ?raw at (case checked of None \<Rightarrow> [] | Some ck \<Rightarrow> ck_Lookups ck)"
    and path: "claimed_path G rt d (dq_Path r) ?raw at (new_claim w) = (Inr path, c1)"
    and body: "claimed_body G rt d checked c1 = (Inr tree, c)"
    and a: "(a, up) = admitted d r vals path tree keys"
    by (rule rule_decide_Inr) auto
  have "at \<noteq> None" using object_at_Inr(1) [OF at] assms(2) by (auto simp: withParam_def)
  then obtain i forward where i: "at = Some i" "path = CHR ''/'' # Join CHR ''/'' (?raw[i := forward])"
    and own: "path_owned (gv_engine G) (lr_route rt) c1 (Owned (dr_check d)) (?raw ! i) forward"
    using claimed_path_spec(3) [OF path kept_new refl] assms(2) by auto
  have "grows c1 c"
    using claimed_body_spec(1) [OF body goes_on_kept [OF claimed_path_spec(1) [OF path kept_new]]] by (simp add: goes_on_def)
  then have "path_owned (gv_engine G) (lr_route rt) c (Owned (dr_check d)) (?raw ! i) forward"
    using own own_grows [of c1 c] by (auto simp: path_owned_def split: if_splits)
  moreover have "\<lparr>nk_socket = lr_socket rt, nk_kind = ''volume'', nk_name = ?raw ! i\<rparr> \<in> set (da_held a)" if "Owned (dr_check d) = ''volume''"
    using a that by (auto simp: admitted_def set_lock_order keys lock_keys_def i(1))
  moreover have "dq_Path up = path" using a by (simp add: admitted_def)
  ultimately show ?thesis using object_at_Inr(2) [OF at i(1)] i(2) by blast
qed

text \<open>
  C21: A body goes upstream only as its rule's table passed it, with every name it holds this project's, as the
  daemon said: each network it attaches to by the ID of one with the project's label, each volume with it, or
  not there and to be made, or mounted and one the daemon named itself for the project's own container. The
  request holds every one of those names until the daemon has answered.
\<close>

theorem docker_names_owned:
  assumes "rule_decide G (Some rt) took d r w = (Inr (a, up), c)" "Body (dr_check d) \<noteq> []"
  shows "\<exists>t sent ck networks out. map_of (dk_Bodies (lr_route rt)) (Body (dr_check d)) = Some t \<and>
    Check (gv_lib G) t sent (check_route (lr_route rt)) = Inr ck \<and>
    int (length sent) \<le> dk_MaxBody (lr_route rt) \<and> sent = hr_Body (dq_http r) \<and>
    names_owned (gv_engine G) (lr_route rt) c (ck_Lookups ck) networks \<and>
    dq_Tree up = Some out \<and>
    (if ck_Lookups ck = [] then out = ck_tree ck else Attached ck networks = Inr out) \<and>
    (\<lambda>l. \<lparr>nk_socket = lr_socket rt, nk_kind = lk_Kind l, nk_name = lk_Name l\<rparr>) ` set (ck_Lookups ck) \<subseteq> set (da_held a)"
proof -
  let ?raw = "Split CHR ''/'' (tl (dq_Path r))"
  from assms(1) obtain vals stripped ver offset at checked path c1 tree keys where
    keys: "keys = lock_keys rt (dr_check d) ?raw at (case checked of None \<Rightarrow> [] | Some ck \<Rightarrow> ck_Lookups ck)"
    and req: "request_body G (lr_route rt) d r = Inr checked"
    and path: "claimed_path G rt d (dq_Path r) ?raw at (new_claim w) = (Inr path, c1)"
    and body: "claimed_body G rt d checked c1 = (Inr tree, c)"
    and a: "(a, up) = admitted d r vals path tree keys"
    by (rule rule_decide_Inr) auto
  from req assms(2) obtain ck where ck: "checked = Some ck" "rule_body G (lr_route rt) (dr_check d) (dq_http r) = Inr ck"
    by (auto simp: request_body_def split: sum.splits)
  from ck(2) obtain sent t where t: "map_of (dk_Bodies (lr_route rt)) (Body (dr_check d)) = Some t"
    "Check (gv_lib G) t sent (check_route (lr_route rt)) = Inr ck" "fst (readUpTo (dq_http r) (dk_MaxBody (lr_route rt))) = Whole sent"
    "sent \<noteq> []"
    by (auto simp: rule_body_def split: if_splits body_read.splits option.splits)
  have "int (length sent) \<le> dk_MaxBody (lr_route rt) \<and> sent = hr_Body (dq_http r)"
    using t(3,4) by (auto simp: readUpTo_def split: if_splits)
  moreover obtain networks out where
    "tree = Some out" "names_owned (gv_engine G) (lr_route rt) c (ck_Lookups ck) networks"
    "if ck_Lookups ck = [] then out = ck_tree ck else Attached ck networks = Inr out"
    using claimed_body_spec(3) [OF body goes_on_kept [OF claimed_path_spec(1) [OF path kept_new]] refl] ck(1) by auto
  moreover have "dq_Tree up = tree" using a by (simp add: admitted_def)
  moreover have "(\<lambda>l. \<lparr>nk_socket = lr_socket rt, nk_kind = lk_Kind l, nk_name = lk_Name l\<rparr>) ` set (ck_Lookups ck) \<subseteq> set (da_held a)"
    using a by (auto simp: admitted_def set_lock_order keys lock_keys_def ck(1))
  ultimately show ?thesis using t(1,2) by blast
qed

text \<open>The query of an admitted request, key by key: what it was and passed its check, or a list's filters, which
  are the ones the request gave, once at most, narrowed to the project (\<open>narrowed\<close>).\<close>

definition filters_asked :: "string \<Rightarrow> string" where
  "filters_asked raw = (case query_values (snd (ParseQuery raw)) ''filters'' of [] \<Rightarrow> [] | v # _ \<Rightarrow> v)"

definition query_pair_ok :: "'s given \<Rightarrow> docker_route \<Rightarrow> docker_check \<Rightarrow> string \<Rightarrow> string \<times> string \<Rightarrow> bool" where
  "query_pair_ok G rt d raw = (\<lambda>(k, v).
     if Owned d = ''list'' \<and> k = ''filters'' then
       length (query_values (snd (ParseQuery raw)) ''filters'') \<le> 1 \<and>
       (\<exists>tree merged. query_tree (tokens (gv_lib G)) (filters_asked raw) = Inr tree \<and> v = gv_filters G merged \<and>
          narrowed (case map_of (Query d) ''filters'' of None \<Rightarrow> [] | Some q \<Rightarrow> qc_Filters q) (dk_Project rt) tree merged)
     else query_values (snd (ParseQuery raw)) k = [v] \<and> (\<exists>q. map_of (Query d) k = Some q \<and> judge q v))"

lemma MergeFilter_narrowed:
  assumes "MergeFilter tokenized raw allowed project = Inr merged"
  obtains tree where "query_tree tokenized raw = Inr tree" "narrowed allowed project tree merged"
proof -
  obtain tree where t: "query_tree tokenized raw = Inr tree"
    using assms by (cases "query_tree tokenized raw") (simp_all add: MergeFilter_def ok_then_def)
  obtain ms where "merged = with_project project ms"
    using assms by (auto simp: MergeFilter_def ok_then_def t simp del: merge_keys.simps split: sum.splits)
  then obtain ts where "map_of merged ''label'' = Some ts" by (simp add: with_project_def)
  note keys = MergeFilter_narrows [OF t assms this]
  have "narrowed allowed project tree merged"
    unfolding narrowed_def
  proof (intro conjI allI impI)
    fix key ts
    assume "map_of merged key = Some ts"
    note ts = MergeFilter_narrows [OF t assms this, THEN conjunct2, THEN conjunct2]
    show "fst ` set ts = asked (member tree key) \<union> (if key = ''label'' then {''frisket.project='' @ project} else {})"
      by (rule ts [THEN conjunct1])
    show "list_all snd ts" by (rule ts [THEN conjunct2])
  qed (rule keys [THEN conjunct1], rule keys [THEN conjunct2, THEN conjunct1])
  with t show thesis by (rule that)
qed

lemma filters_given:
  assumes "ParseQuery raw = (False, ps)" "judge_keys d ps (sort (remdups (map fst ps))) = Inr vals"
  shows "get_value vals ''filters'' = filters_asked raw" "length (query_values ps ''filters'') \<le> 1"
proof -
  note jk = judge_keys_Inr [OF assms(2)]
  have "get_value vals ''filters'' = filters_asked raw \<and> length (query_values ps ''filters'') \<le> 1"
  proof (cases "''filters'' \<in> fst ` set ps")
    case True
    then have "''filters'' \<in> fst ` set vals" by (metis jk(1) list.set_map set_remdups set_sort)
    then obtain v where v: "map_of vals ''filters'' = Some v" by (metis map_of_eq_None_iff not_None_eq)
    from map_of_SomeD [OF v] jk(2) have "query_values ps ''filters'' = [v]" by (auto simp: list_all_iff)
    with v show ?thesis by (simp add: get_value_def filters_asked_def assms(1))
  next
    case False
    then have "query_values ps ''filters'' = []" unfolding query_values_def by (auto simp: filter_empty_conv image_iff)
    moreover from False have "''filters'' \<notin> fst ` set vals" by (metis jk(1) list.set_map set_remdups set_sort)
    then have "map_of vals ''filters'' = None" by (simp add: map_of_eq_None_iff)
    ultimately show ?thesis by (simp add: get_value_def filters_asked_def assms(1))
  qed
  then show "get_value vals ''filters'' = filters_asked raw" "length (query_values ps ''filters'') \<le> 1" by blast+
qed

lemma set_put_distinct: "distinct (map fst m) \<Longrightarrow> set (put k v m) = insert (k, v) {p \<in> set m. fst p \<noteq> k}"
  by (induction m) (auto simp: image_iff split: if_splits, fastforce)

lemma rule_query_Inr:
  assumes "rule_query G rt d raw = Inr vals"
  shows "distinct (map fst vals)" "list_all (query_pair_ok G rt d raw) vals"
    "Owned d = ''list'' \<Longrightarrow> ''filters'' \<in> fst ` set vals"
    "Owned d = ''imagePull'' \<Longrightarrow> \<exists>ref \<in> set (dk_Images rt). pulled (dk_Images rt) (sort_key fst vals) = Inr ref"
proof -
  obtain ps vals0 where ps: "ParseQuery raw = (False, ps)"
    and j: "judge_keys d ps (sort (remdups (map fst ps))) = Inr vals0"
    and v: "if Owned d = ''list'' then \<exists>merged. MergeFilter (tokens (gv_lib G)) (get_value vals0 ''filters'')
          (case map_of (Query d) ''filters'' of None \<Rightarrow> [] | Some k \<Rightarrow> qc_Filters k) (dk_Project rt) = Inr merged \<and>
          vals = put ''filters'' (gv_filters G merged) vals0
        else vals = vals0 \<and> (Owned d = ''imagePull'' \<longrightarrow> (\<exists>ref. pulled (dk_Images rt) vals0 = Inr ref))"
    using assms by (cases "ParseQuery raw") (fastforce simp: rule_query_def ok_then_def split: if_splits sum.splits)
  note jk = judge_keys_Inr [OF j]
  have dist: "distinct (map fst vals0)" and sorted: "sorted (map fst vals0)" by (simp_all add: jk(1))
  show "distinct (map fst vals)" using v dist by (auto simp: distinct_put split: if_splits)
  have ok0: "query_pair_ok G rt d raw p" if "p \<in> set vals0" "\<not> (Owned d = ''list'' \<and> fst p = ''filters'')" for p
    using jk(2) that by (auto simp: query_pair_ok_def list_all_iff ps)
  show "list_all (query_pair_ok G rt d raw) vals"
  proof (cases "Owned d = ''list''")
    case True
    with v obtain merged where m: "MergeFilter (tokens (gv_lib G)) (get_value vals0 ''filters'')
          (case map_of (Query d) ''filters'' of None \<Rightarrow> [] | Some k \<Rightarrow> qc_Filters k) (dk_Project rt) = Inr merged"
      "vals = put ''filters'' (gv_filters G merged) vals0" by auto
    obtain tree where "query_tree (tokens (gv_lib G)) (filters_asked raw) = Inr tree"
      "narrowed (case map_of (Query d) ''filters'' of None \<Rightarrow> [] | Some q \<Rightarrow> qc_Filters q) (dk_Project rt) tree merged"
      using MergeFilter_narrowed [OF m(1)] filters_given(1) [OF ps j] by (auto simp del: merge_keys.simps)
    then have "query_pair_ok G rt d raw (''filters'', gv_filters G merged)"
      using filters_given(2) [OF ps j] True by (auto simp: query_pair_ok_def ps)
    then show ?thesis using ok0 dist unfolding list_all_iff m(2) by (auto simp: set_put_distinct)
  next
    case False
    with v ok0 show ?thesis by (auto simp: list_all_iff)
  qed
  show "Owned d = ''list'' \<Longrightarrow> ''filters'' \<in> fst ` set vals" using v by auto
  assume pull: "Owned d = ''imagePull''"
  with v obtain ref where "pulled (dk_Images rt) vals0 = Inr ref" "vals = vals0" by auto
  moreover from this have "ref \<in> set (dk_Images rt)" by (auto simp: pulled_def Let_def split: if_splits)
  moreover have "sort_key fst vals0 = vals0" using sorted by (rule sort_key_id_if_sorted)
  ultimately show "\<exists>ref \<in> set (dk_Images rt). pulled (dk_Images rt) (sort_key fst vals) = Inr ref" by auto
qed

text \<open>
  C23: The query that goes upstream, read as the daemon reads one, has each of its keys once, and every one of
  them is a key the rule takes with the value the request gave it, passed by its check; but for a list's
  filters, which are there whether asked for or not. They are written from the request's own, given once at
  most: the same keys, each one the rule allows, with the same terms, all true, and beside them only the
  project's label among those of \<open>label\<close>. A pull fetches exactly an image its route lists.
\<close>

theorem docker_query_checked:
  assumes "rule_decide G (Some rt) took d r w = (Inr (a, up), c)"
  shows "\<exists>ps. ParseQuery (hr_RawQuery (dq_http up)) = (False, ps) \<and> distinct (map fst ps) \<and>
    list_all (query_pair_ok G (lr_route rt) (dr_check d) (hr_RawQuery (dq_http r))) ps \<and>
    (Owned (dr_check d) = ''list'' \<longrightarrow> ''filters'' \<in> fst ` set ps) \<and>
    (Owned (dr_check d) = ''imagePull'' \<longrightarrow>
      (\<exists>ref \<in> set (dk_Images (lr_route rt)). pulled (dk_Images (lr_route rt)) ps = Inr ref))"
proof -
  from assms obtain vals path tree keys where
    q: "rule_query G (lr_route rt) (dr_check d) (hr_RawQuery (dq_http r)) = Inr vals"
    and a: "(a, up) = admitted d r vals path tree keys"
    by (rule rule_decide_Inr) auto
  have "hr_RawQuery (dq_http up) = Encode vals" using a by (simp add: admitted_def)
  then have "ParseQuery (hr_RawQuery (dq_http up)) = (False, sort_key fst vals)" by (simp only: query_roundtrip_law)
  moreover have "distinct (map fst (sort_key fst vals))"
    using rule_query_Inr(1) [OF q] by (simp add: distinct_map)
  moreover have "list_all (query_pair_ok G (lr_route rt) (dr_check d) (hr_RawQuery (dq_http r))) (sort_key fst vals)"
    using rule_query_Inr(2) [OF q] by (simp add: list_all_iff)
  ultimately show ?thesis using rule_query_Inr(3,4) [OF q] by auto
qed


section \<open>An instance\<close>

definition demo_ID :: string where
  "demo_ID = ''aaaaaaaabbbbbbbbccccccccddddddddeeeeeeeeffffffff0000000011111111''"

definition demo_engine :: "unit engine" where
  "demo_engine =
     \<lparr>eng_get = (\<lambda>url w.
        (if url = ''http://docker/v1.47/containers/web/json'' then Responded 200 [] ''c'' False
         else if url = ''http://docker/v1.47/networks/frisket_me_box'' then Responded 200 [] ''n'' False
         else Responded 404 ''text/plain'' ''none'' False, w)),
      eng_create = (\<lambda>url tree w. (Unsent, w)),
      eng_facts = (\<lambda>text.
        if text = ''c''
        then Some \<lparr>fc_ID = demo_ID, fc_Config = Some [(''frisket.project'', ''me/box'')], fc_Labels = [], fc_ContainerID = []\<rparr>
        else Some \<lparr>fc_ID = demo_ID, fc_Config = None, fc_Labels = [(''frisket.project'', ''me/box'')], fc_ContainerID = []\<rparr>),
      eng_listed = (\<lambda>_. None), eng_filters = (\<lambda>_. []), eng_media = (\<lambda>_. True)\<rparr>"

definition demo_given :: "unit given" where
  "demo_given =
     \<lparr>gv_lib = demo_lib, gv_engine = demo_engine, gv_media = (\<lambda>v. Some (v, [])), gv_filters = (\<lambda>_. ''{}'')\<rparr>"

definition demo_live :: live_route where
  "demo_live = newDockerRoute
     \<lparr>dk_Project = ''me/box'', dk_APIMin = ''1.40'', dk_APIMax = ''1.47'', dk_Unversioned = [''/_ping''],
      dk_Images = [''app:1''], dk_Builds = [], dk_Address = NoAddr, dk_Ports = [8080], dk_Names = [],
      dk_MaxBody = 1000, dk_Bodies = [(''ContainerCreate'', demo_table)]\<rparr> ''/run/docker.sock''"

definition stop_rule :: docker_rule where
  "stop_rule =
     \<lparr>dr_check = \<lparr>Owned = ''container'', Param = 1,
        Query = [(''t'', \<lparr>qc_Check = ''int'', qc_Filters = [], qc_Enum = []\<rparr>)], Body = [], Upgrade = []\<rparr>,
      dr_operation = None\<rparr>"

definition create_rule :: docker_rule where
  "create_rule =
     \<lparr>dr_check = \<lparr>Owned = ''createContainer'', Param = 0, Query = [], Body = ''ContainerCreate'', Upgrade = []\<rparr>,
      dr_operation = None\<rparr>"

definition demo_request :: "string \<Rightarrow> string \<Rightarrow> string \<Rightarrow> docker_request" where
  "demo_request path q sent =
     \<lparr>dq_http = \<lparr>hr_Method = ''POST'', hr_RawQuery = q, hr_ContentEncoding = [], hr_ContentType = [''application/json''],
        hr_NoBody = (sent = []), hr_Body = sent, hr_fails = False, hr_ContentLength = int (length sent), hr_TransferEncoding = []\<rparr>,
      dq_Path = path, dq_UpgradeHeader = [], dq_ConnectionHeader = [], dq_Tree = None\<rparr>"

abbreviation "stop_decided \<equiv> rule_decide demo_given (Some demo_live) True stop_rule (demo_request ''/v1.47/containers/web/stop'' ''t=10'' []) ()"
abbreviation "create_decided \<equiv> rule_decide demo_given (Some demo_live) True create_rule (demo_request ''/v1.47/containers/create'' [] ''b'') ()"

abbreviation "gone_decided \<equiv> rule_decide demo_given (Some demo_live) True stop_rule (demo_request ''/v1.47/containers/db/stop'' [] []) ()"

text \<open>What is evaluated of them, all at once.\<close>

lemma demo_evaluated:
  "(\<not> isl (fst stop_decided) \<and> dq_Path (snd (projr (fst stop_decided))) = ''/v1.47/containers/'' @ demo_ID @ ''/stop'') \<and>
   \<not> isl (fst create_decided) \<and> (isl (fst gone_decided) \<and> da_answer (projl (fst gone_decided)) \<noteq> None) \<and>
   map_of (dk_Bodies (lr_route demo_live)) (Body (dr_check create_rule)) = Some demo_table \<and>
   Check demo_lib demo_table ''b'' (check_route (lr_route demo_live)) = Inr demo_checked"
  by code_simp

lemma stop_admitted: "\<not> isl (fst stop_decided) \<and> dq_Path (snd (projr (fst stop_decided))) = ''/v1.47/containers/'' @ demo_ID @ ''/stop''"
  by (rule demo_evaluated [THEN conjunct1])

lemma create_admitted: "\<not> isl (fst create_decided)"
  by (rule demo_evaluated [THEN conjunct2, THEN conjunct1])


lemma decided_Inr:
  assumes "\<not> isl (fst x)"
  obtains a up c where "x = (Inr (a, up), c)"
  using assms by (cases x; cases "fst x") auto

theorem docker_object_owned_witness:
  "\<exists>a up c i forward. stop_decided = (Inr (a, up), c) \<and>
     path_owned demo_engine (lr_route demo_live) c ''container'' ([''v1.47'', ''containers'', ''web'', ''stop''] ! i) forward \<and>
     dq_Path up = ''/v1.47/containers/'' @ demo_ID @ ''/stop''"
proof -
  obtain a up c where d: "stop_decided = (Inr (a, up), c)" using stop_admitted decided_Inr by blast
  have "Owned (dr_check stop_rule) = ''container''" "gv_engine demo_given = demo_engine"
    "Split CHR ''/'' (tl (dq_Path (demo_request ''/v1.47/containers/web/stop'' ''t=10'' []))) = [''v1.47'', ''containers'', ''web'', ''stop'']"
    by (simp_all add: stop_rule_def demo_given_def demo_request_def)
  with docker_object_owned [OF d] stop_admitted show ?thesis unfolding d by auto
qed

theorem docker_names_owned_witness:
  "\<exists>a up c networks out. create_decided = (Inr (a, up), c) \<and>
     names_owned demo_engine (lr_route demo_live) c (ck_Lookups demo_checked) networks \<and> Attached demo_checked networks = Inr out"
proof -
  obtain a up c where d: "create_decided = (Inr (a, up), c)" using create_admitted decided_Inr by blast
  have b: "Body (dr_check create_rule) \<noteq> []" by (simp add: create_rule_def)
  have r: "hr_Body (dq_http (demo_request ''/v1.47/containers/create'' [] ''b'')) = ''b''" by (simp add: demo_request_def)
  have t: "map_of (dk_Bodies (lr_route demo_live)) (Body (dr_check create_rule)) = Some demo_table"
    by (rule demo_evaluated [THEN conjunct2, THEN conjunct2, THEN conjunct2, THEN conjunct1])
  have c: "Check demo_lib demo_table ''b'' (check_route (lr_route demo_live)) = Inr demo_checked"
    by (rule demo_evaluated [THEN conjunct2, THEN conjunct2, THEN conjunct2, THEN conjunct2])
  have l: "ck_Lookups demo_checked \<noteq> []" by (simp add: demo_checked_def)
  have g: "gv_lib demo_given = demo_lib" "gv_engine demo_given = demo_engine" by (simp_all add: demo_given_def)
  from docker_names_owned [OF d b] l show ?thesis unfolding t r g d by (auto simp: c)
qed

theorem docker_query_checked_witness:
  "\<exists>a up c ps. stop_decided = (Inr (a, up), c) \<and> ParseQuery (hr_RawQuery (dq_http up)) = (False, ps) \<and> distinct (map fst ps) \<and>
     list_all (query_pair_ok demo_given (lr_route demo_live) (dr_check stop_rule) ''t=10'') ps"
proof -
  obtain a up c where d: "stop_decided = (Inr (a, up), c)" using stop_admitted decided_Inr by blast
  have "hr_RawQuery (dq_http (demo_request ''/v1.47/containers/web/stop'' ''t=10'' [])) = ''t=10''" by (simp add: demo_request_def)
  with docker_query_checked [OF d] d show ?thesis by auto
qed


end
