(* ===== verification/Project_Names.thy ===== *)
theory Project_Names
  imports Dns_Match Go_Text Net_Addr
begin

text \<open>
  The name and the loopback address every project is known by, \<open>project/project.go\<close>: pure functions of the
  slug, owner/repo. \<open>hexSum\<close>, the SHA-256 of a string in 64 hex digits, is a parameter; it is asked again
  until an address is fit, which nothing bounds, so \<open>Address\<close> is a partial function.
\<close>

section \<open>Text\<close>

text \<open>\<open>strings.Map\<close> of \<open>lowerASCII\<close>'s function: a byte that is not UTF-8 becomes the replacement character.\<close>

definition lower_rune :: "string \<Rightarrow> string \<times> nat" where
  "lower_rune s =
     (let (r, n) = DecodeRune s in
      (if r = RuneError \<and> n = 1 then [CHR 0xEF, CHR 0xBF, CHR 0xBD] else map ascii_lower (take n s), n))"

function lowerASCII :: "string \<Rightarrow> string" where
  "lowerASCII s =
     (if s = [] then [] else fst (lower_rune s) @ lowerASCII (drop (snd (lower_rune s)) s))"
  by pat_completeness auto
termination
proof (relation "measure length", goal_cases)
  case (2 s)
  then show ?case using DecodeRune_size [of s] by (auto simp: lower_rune_def split: prod.split)
qed simp

declare lowerASCII.simps [simp del, code del]

lemma lowerASCII_code [code]:
  "lowerASCII [] = []"
  "lowerASCII (c # s) = fst (lower_rune (c # s)) @ lowerASCII (drop (snd (lower_rune (c # s))) (c # s))"
  by (simp_all add: lowerASCII.simps [of "[]"] lowerASCII.simps [of "c # s"])

text \<open>\<open>strings.LastIndexByte\<close>, as what is before and after the last such byte.\<close>

definition CutLast :: "char \<Rightarrow> string \<Rightarrow> (string \<times> string) option" where
  "CutLast c s =
     (if c \<notin> set s then None
      else let after = rev (takeWhile (\<lambda>x. x \<noteq> c) (rev s)) in Some (take (length s - length after - 1) s, after))"

section \<open>Addresses\<close>

definition first_bytes :: "string \<Rightarrow> int \<times> int \<times> int" where
  "first_bytes h =
     (16 * unhex (h ! 0) + unhex (h ! 1), 16 * unhex (h ! 2) + unhex (h ! 3), 16 * unhex (h ! 4) + unhex (h ! 5))"

definition fit :: "int \<times> int \<times> int \<Rightarrow> bool" where
  "fit b \<longleftrightarrow> fst b \<noteq> 0 \<and> b \<noteq> (255, 255, 255)"

definition loopback :: "int \<times> int \<times> int \<Rightarrow> addr" where
  "loopback = (\<lambda>(b0, b1, b2). V4 (word_of_int (127 * 16777216 + b0 * 65536 + b1 * 256 + b2)))"

partial_function (option) address_loop :: "(string \<Rightarrow> string) \<Rightarrow> string \<Rightarrow> addr option" where
  "address_loop hexSum h =
     (if fit (first_bytes h) then Some (loopback (first_bytes h)) else address_loop hexSum (hexSum h))"

definition Address :: "(string \<Rightarrow> string) \<Rightarrow> string \<Rightarrow> addr option" where
  "Address hexSum project = address_loop hexSum (hexSum (lowerASCII project))"

section \<open>Names\<close>

datatype reserved_error = NoNames | NotReservable string

fun reservable :: "string list \<Rightarrow> reserved_error option" where
  "reservable [] = None"
| "reservable (n # ns) =
     (if \<not> ValidQueryName n \<or> lowerASCII n \<noteq> n \<or> \<not> suffix ''.internal'' n then Some (NotReservable n)
      else reservable ns)"

definition parseReserved :: "string list \<Rightarrow> reserved_error + string list" where
  "parseReserved names =
     (if names = [] then Inl NoNames
      else case reservable names of Some e \<Rightarrow> Inl e | None \<Rightarrow> Inr names)"

definition reserved :: "string list" where
  "reserved = [''frisket.internal'', ''google.internal'']"

definition Reserved :: "string \<Rightarrow> bool" where
  "Reserved name \<longleftrightarrow> list_ex (\<lambda>r. name = r \<or> suffix (CHR ''.'' # r) name) reserved"

definition low_alnum :: "char \<Rightarrow> bool" where
  "low_alnum c \<longleftrightarrow> between CHR ''a'' c CHR ''z'' \<or> between CHR ''0'' c CHR ''9''"

definition ownerRE :: "string \<Rightarrow> bool" where
  "ownerRE s \<longleftrightarrow> s \<noteq> [] \<and> low_alnum (hd s) \<and> length s \<le> 39 \<and> list_all (\<lambda>c. low_alnum c \<or> c = CHR ''-'') (tl s)"

definition repo_byte_ok :: "char \<Rightarrow> bool" where
  "repo_byte_ok c \<longleftrightarrow> low_alnum c \<or> c \<in> {CHR ''.'', CHR ''_'', CHR ''-''}"

definition projectRE :: "string \<Rightarrow> bool" where
  "projectRE s \<longleftrightarrow>
     (case Cut CHR ''/'' s of
        (owner, Some repo) \<Rightarrow> ownerRE owner \<and> repo \<noteq> [] \<and> length repo \<le> 100 \<and> list_all repo_byte_ok repo
      | _ \<Rightarrow> False)"

definition valid_project :: "string \<Rightarrow> bool" where
  "valid_project project \<longleftrightarrow> projectRE project \<and> \<not> suffix ''/.'' project \<and> \<not> suffix ''/..'' project"

definition labelRE :: "string \<Rightarrow> bool" where
  "labelRE s \<longleftrightarrow> s \<noteq> [] \<and> length s \<le> 63 \<and> list_all (\<lambda>c. low_alnum c \<or> c = CHR ''_'' \<or> c = CHR ''-'') s"

definition Names :: "string \<Rightarrow> string list" where
  "Names project =
     (case Cut CHR ''/'' (lowerASCII project) of
        (owner, Some repo) \<Rightarrow>
          if \<not> ownerRE owner then []
          else if prefix ''-'' repo then []
          else if \<not> list_all labelRE (Split CHR ''.'' repo) then []
          else
            let name = repo @ ''.'' @ owner @ ''.internal''
            in if Reserved name \<or> \<not> ValidQueryName name then [] else [name]
      | _ \<Rightarrow> [])"

definition FromName :: "string \<Rightarrow> string option" where
  "FromName name =
     (case CutSuffix (Normalize name) ''.internal'' of
        None \<Rightarrow> None
      | Some rest \<Rightarrow>
          (case CutLast CHR ''.'' rest of
             None \<Rightarrow> None
           | Some (repo, owner) \<Rightarrow>
               let p = owner @ ''/'' @ repo in
               if \<not> valid_project p then None
               else if Names p \<noteq> [Normalize name] then None
               else Some p))"

section \<open>Lemmas\<close>

lemma byte_nat: "byte c = int (of_char c)"
  by (rule of_nat_of_char [symmetric])

lemma char_le_byte: "c \<le> d \<longleftrightarrow> byte c \<le> byte d"
  by (simp add: less_eq_char_def byte_nat del: of_nat_of_char)

lemma low_ascii: "low_alnum c \<Longrightarrow> byte c < 128"
  by (auto simp: low_alnum_def char_le_byte)

lemma lowerASCII_ascii: "list_all (\<lambda>c. byte c < 128) s \<Longrightarrow> lowerASCII s = map ascii_lower s"
  by (induction s) (simp_all add: lowerASCII_code lower_rune_def RuneError_def)

text \<open>A byte of a slug is as it is in lower case, and is no dot or slash in an owner.\<close>

definition slug_byte :: "char \<Rightarrow> bool" where
  "slug_byte c \<longleftrightarrow> repo_byte_ok c \<or> c = CHR ''/''"

lemma slug_lower:
  assumes "slug_byte c"
  shows "byte c < 128 \<and> ascii_lower c = c"
proof -
  have "\<not> is_upper c" "byte c < 128"
    using assms by (auto simp: slug_byte_def repo_byte_ok_def low_alnum_def is_upper_def char_le_byte)
  then show ?thesis by simp
qed

lemma lowerASCII_slug: "list_all slug_byte s \<Longrightarrow> lowerASCII s = s"
  by (subst lowerASCII_ascii) (auto simp: list_all_iff slug_lower intro: map_idI)

lemma lower_slug: "list_all slug_byte s \<Longrightarrow> map ascii_lower s = s"
  by (auto simp: list_all_iff slug_lower intro: map_idI)

lemma owner_bytes: "ownerRE s \<Longrightarrow> list_all slug_byte s \<and> CHR ''.'' \<notin> set s \<and> CHR ''/'' \<notin> set s"
  by (cases s) (auto simp: ownerRE_def list_all_iff slug_byte_def repo_byte_ok_def low_alnum_def char_le_byte)

lemma valid_parts:
  assumes "valid_project p"
  obtains owner repo where "p = owner @ ''/'' @ repo" "ownerRE owner" "repo \<noteq> []" "length repo \<le> 100" "list_all repo_byte_ok repo"
proof -
  obtain owner r where c: "Cut CHR ''/'' p = (owner, r)" by (cases "Cut CHR ''/'' p")
  with assms obtain repo where r: "r = Some repo" "ownerRE owner" "repo \<noteq> []" "length repo \<le> 100" "list_all repo_byte_ok repo"
    by (auto simp: valid_project_def projectRE_def split: option.splits)
  with c have "p = owner @ ''/'' @ repo" using Cut_SomeD [of "CHR ''/''" p owner repo] by simp
  with r that show thesis by blast
qed

lemma valid_slug: "valid_project p \<Longrightarrow> list_all slug_byte p"
  by (erule valid_parts) (use owner_bytes in \<open>auto simp: list_all_iff slug_byte_def\<close>)

lemma Names_valid:
  assumes "valid_project p" "Names p = [n]"
  obtains owner repo where "p = owner @ ''/'' @ repo" "ownerRE owner" "list_all repo_byte_ok repo"
    "n = repo @ ''.'' @ owner @ ''.internal''"
proof -
  from valid_parts [OF assms(1)] obtain owner repo where
    p: "p = owner @ ''/'' @ repo" "ownerRE owner" "list_all repo_byte_ok repo" by metis
  have "Cut CHR ''/'' (lowerASCII p) = (owner, Some repo)"
    using lowerASCII_slug [OF valid_slug [OF assms(1)]] Cut_append [of "CHR ''/''" owner repo] owner_bytes [OF p(2)]
    by (simp add: p(1))
  with assms(2) have "n = repo @ ''.'' @ owner @ ''.internal''"
    by (auto simp: Names_def Let_def split: if_splits)
  with p that show thesis by blast
qed

lemma CutLast_append: "c \<notin> set b \<Longrightarrow> CutLast c (a @ c # b) = Some (a, b)"
proof -
  assume "c \<notin> set b"
  then have "takeWhile (\<lambda>x. x \<noteq> c) (rev b @ c # rev a) = rev b" by (subst takeWhile_append2) auto
  then show ?thesis by (simp add: CutLast_def)
qed

lemma Normalize_name:
  assumes "ownerRE owner" "list_all repo_byte_ok repo"
  shows "Normalize (repo @ ''.'' @ owner @ ''.internal'') = repo @ ''.'' @ owner @ ''.internal''"
proof -
  have "TrimRight (repo @ ''.'' @ owner @ ''.internal'') ''.'' = repo @ ''.'' @ owner @ ''.internal''"
    by (simp add: TrimRight_def)
  moreover have "list_all slug_byte (repo @ ''.'' @ owner @ ''.internal'')"
    using assms owner_bytes [OF assms(1)] by (auto simp: list_all_iff slug_byte_def repo_byte_ok_def low_alnum_def)
  ultimately show ?thesis unfolding Normalize_def by (simp only: lower_slug)
qed

section \<open>Properties\<close>

text \<open>
  C25: A project's name is that project's alone, and reads back as it: of a slug a route may name, \<open>FromName\<close>
  of the name it is given is that slug, and no other such slug is given the name.
\<close>

theorem names_roundtrip:
  assumes "valid_project p" "Names p = [n]"
  shows "FromName n = Some p \<and> (\<forall>q. valid_project q \<and> n \<in> set (Names q) \<longrightarrow> q = p)"
proof -
  have one: "Names q = [n]" if "n \<in> set (Names q)" for q
    using that by (auto simp: Names_def Let_def split: prod.splits option.splits if_splits)
  have "FromName n = Some q" if "valid_project q" "Names q = [n]" for q
  proof -
    from Names_valid [OF that] obtain owner repo where
      q: "q = owner @ ''/'' @ repo" "ownerRE owner" "list_all repo_byte_ok repo" "n = repo @ ''.'' @ owner @ ''.internal''" by metis
    have "CutSuffix n ''.internal'' = Some (repo @ ''.'' @ owner)" by (simp add: q(4) CutSuffix_Some)
    moreover have "CutLast CHR ''.'' (repo @ ''.'' @ owner) = Some (repo, owner)"
      using CutLast_append owner_bytes [OF q(2)] by simp
    moreover have "Normalize n = n" using Normalize_name [OF q(2,3)] by (simp add: q(4))
    ultimately show ?thesis using that by (simp add: FromName_def q(1))
  qed
  with assms one show ?thesis by (metis option.inject)
qed

lemma demo_names: "valid_project ''me/my.box'' \<and> Names ''me/my.box'' = [''my.box.me.internal'']"
  by code_simp

theorem names_roundtrip_witness: "FromName ''my.box.me.internal'' = Some ''me/my.box''"
  using names_roundtrip [of "''me/my.box''" "''my.box.me.internal''"] demo_names by simp

lemma unhex_bounds: "0 \<le> unhex c \<and> unhex c \<le> 15"
proof (cases "between CHR ''0'' c CHR ''9''")
  case True
  then have "48 \<le> byte c" "byte c \<le> 57" by (simp_all add: char_le_byte)
  then show ?thesis unfolding unhex_def if_P [OF True] by linarith
next
  case d: False
  show ?thesis
  proof (cases "between CHR ''a'' c CHR ''f''")
    case True
    then have "97 \<le> byte c" "byte c \<le> 102" by (simp_all add: char_le_byte)
    then show ?thesis unfolding unhex_def if_not_P [OF d] if_P [OF True] by linarith
  next
    case l: False
    show ?thesis
    proof (cases "between CHR ''A'' c CHR ''F''")
      case True
      then have "65 \<le> byte c" "byte c \<le> 70" by (simp_all add: char_le_byte)
      then show ?thesis unfolding unhex_def if_not_P [OF d] if_not_P [OF l] if_P [OF True] by linarith
    qed (simp only: unhex_def if_not_P [OF d] if_not_P [OF l] if_False, simp)
  qed
qed

lemma hex_byte_bounds: "0 \<le> 16 * unhex a + unhex b \<and> 16 * unhex a + unhex b \<le> 255"
  using unhex_bounds [of a] unhex_bounds [of b] by linarith

lemma first_bytes_bounds:
  assumes "first_bytes h = (b0, b1, b2)"
  shows "0 \<le> b0" "b0 \<le> 255" "0 \<le> b1" "b1 \<le> 255" "0 \<le> b2" "b2 \<le> 255"
  using assms hex_byte_bounds unfolding first_bytes_def prod.inject by metis+

lemma address_loop_fit:
  assumes "address_loop hexSum h = Some a"
  shows "\<exists>k. fit (first_bytes ((hexSum ^^ k) h)) \<and> a = loopback (first_bytes ((hexSum ^^ k) h))"
  using assms
proof (induction rule: address_loop.raw_induct [rotated 1, consumes 1, case_names step])
  case (step f hexSum h a)
  show ?case
  proof (cases "fit (first_bytes h)")
    case True
    then have "a = loopback (first_bytes h)" using step(2) unfolding if_P [OF True] by (simp only: option.inject)
    with True have "fit (first_bytes ((hexSum ^^ 0) h)) \<and> a = loopback (first_bytes ((hexSum ^^ 0) h))" by (simp only: funpow_0 simp_thms)
    then show ?thesis by (rule exI)
  next
    case False
    with step(2) have "f hexSum (hexSum h) = Some a" by (simp only: if_False)
    from step(1) [OF this] obtain k where "fit (first_bytes ((hexSum ^^ k) (hexSum h)))"
      "a = loopback (first_bytes ((hexSum ^^ k) (hexSum h)))" by blast
    then have "fit (first_bytes ((hexSum ^^ Suc k) h)) \<and> a = loopback (first_bytes ((hexSum ^^ Suc k) h))"
      by (simp only: funpow_Suc_right o_apply simp_thms)
    then show ?thesis by (rule exI)
  qed
qed

lemma address_loop_returns: "fit (first_bytes ((hexSum ^^ k) h)) \<Longrightarrow> address_loop hexSum h \<noteq> None"
proof (induction k arbitrary: h)
  case 0
  then show ?case by (subst address_loop.simps) (simp only: funpow_0 if_True option.distinct simp_thms not_False_eq_True)
next
  case (Suc k)
  then have "address_loop hexSum (hexSum h) \<noteq> None" unfolding funpow_Suc_right o_apply by blast
  then show ?case
    by (subst address_loop.simps) (cases "fit (first_bytes h)"; simp only: if_True if_False option.distinct simp_thms not_False_eq_True)
qed

text \<open>
  C26: A project's address is on the loopback and nobody else's there: in 127.0.0.0/8 and not in 127.0.0.0/16,
  where the host's own and the resolvers are, nor the broadcast. It comes to one exactly if some hash in the
  chain from the slug's gives one.
\<close>

theorem address_loopback:
  "(Address hexSum p = Some a \<longrightarrow> (\<exists>x. a = V4 x \<and> uint x div 2 ^ 24 = 127 \<and> uint x div 2 ^ 16 \<noteq> 127 * 256 \<and> uint x \<noteq> 2147483647)) \<and>
   (Address hexSum p \<noteq> None \<longleftrightarrow> (\<exists>k. fit (first_bytes ((hexSum ^^ k) (hexSum (lowerASCII p))))))"
proof (intro conjI impI)
  assume "Address hexSum p = Some a"
  then obtain k where k: "fit (first_bytes ((hexSum ^^ k) (hexSum (lowerASCII p))))"
    "a = loopback (first_bytes ((hexSum ^^ k) (hexSum (lowerASCII p))))"
    using address_loop_fit unfolding Address_def by blast
  obtain b0 b1 b2 where b: "first_bytes ((hexSum ^^ k) (hexSum (lowerASCII p))) = (b0, b1, b2)" by (metis prod.exhaust)
  note bounds = first_bytes_bounds [OF b]
  define n where "n = 127 * 16777216 + b0 * 65536 + b1 * 256 + b2"
  have "0 \<le> n" "n < 2 ^ 32" using bounds by (simp_all add: n_def)
  then have "uint (word_of_int n :: 32 word) = n" by (simp add: uint_word_of_int take_bit_eq_mod)
  moreover have "n div 2 ^ 24 = 127"
    using bounds by (intro int_div_pos_eq [where r = "b0 * 65536 + b1 * 256 + b2"]) (simp_all add: n_def)
  moreover have "n div 2 ^ 16 = 127 * 256 + b0"
    using bounds by (intro int_div_pos_eq [where r = "b1 * 256 + b2"]) (simp_all add: n_def)
  moreover have "b0 \<noteq> 0" "\<not> (b0 = 255 \<and> b1 = 255 \<and> b2 = 255)" using k(1) by (auto simp: b fit_def)
  moreover from this(2) have "n \<noteq> 2147483647" using bounds unfolding n_def by linarith
  ultimately show "\<exists>x. a = V4 x \<and> uint x div 2 ^ 24 = 127 \<and> uint x div 2 ^ 16 \<noteq> 127 * 256 \<and> uint x \<noteq> 2147483647"
    by (intro exI [of _ "word_of_int n"]) (simp add: k(2) b loopback_def n_def)
next
  show "Address hexSum p \<noteq> None \<longleftrightarrow> (\<exists>k. fit (first_bytes ((hexSum ^^ k) (hexSum (lowerASCII p)))))"
    unfolding Address_def using address_loop_fit address_loop_returns by (metis not_None_eq)
qed

definition demo_sum :: "string \<Rightarrow> string" where
  "demo_sum s = (if s = ''me/my.box'' then ''00c0ffee'' else ''0ac0ffee'')"

lemma demo_chain: "fit (first_bytes ((demo_sum ^^ 1) (demo_sum (lowerASCII ''me/my.box''))))"
  by code_simp

theorem address_loopback_witness:
  "\<exists>x. Address demo_sum ''me/my.box'' = Some (V4 x) \<and> uint x div 2 ^ 24 = 127 \<and> uint x div 2 ^ 16 \<noteq> 127 * 256"
proof -
  have "Address demo_sum ''me/my.box'' \<noteq> None" using address_loopback [of demo_sum "''me/my.box''"] demo_chain by blast
  then show ?thesis using address_loopback [of demo_sum "''me/my.box''"] by blast
qed

end
