(* ===== verification/Policy_Model.thy ===== *)
theory Policy_Model
  imports Scope_Model Docker_Json
begin

text \<open>
  A policy document as data, \<open>policy/v2.go\<close> and what of \<open>policy/policy.go\<close> a version 2 document lowers to, and
  the answers a layer of it gives, the first part of \<open>policy/lower.go\<close>.

  A Go map is an association list with each key once; where the code goes over one in the order of its keys
  that is \<open>sortedKeys\<close>, and where it goes over one in any order that is the order of the list. An answer is a
  string, as it is in the code: any string, until it is checked.
\<close>

section \<open>A version 2 document\<close>

record answers =
  Writes :: string
  Guarded :: string
  An_Unmatched :: string
  Interactive :: string

record credential_json =
  cj_Token :: string
  cj_ExpiresMillis :: string
  cj_ExpiresJWT :: string

record refusal_shape =
  rf_ContentType :: string
  rf_Body :: string

record session_key =
  sk_PublicKey :: string
  sk_Issuer :: string
  sk_Grants :: "string list"

record docker_block =
  db_Project :: string
  db_Min :: string
  db_Max :: string
  db_Unversioned :: "string list"
  db_Images :: "string list"
  db_Builds :: "string list"
  db_Address :: string
  db_Ports :: "int list"
  db_Names :: "string list"
  db_MaxBody :: int
  db_Bodies :: "(string \<times> string) list"

record record_block =
  rb_Default :: string
  rb_Sink :: string

record endpoint_v2 =
  ep_Operation :: "operation option"
  ep_Docker :: "docker_check option"

text \<open>\<open>GraphQLFieldV2\<close> is its operation.\<close>

type_synonym graphql_field_v2 = "operation option"

record graphql_v2 =
  g2_Query :: "graphql_field_v2 option"
  g2_Mutations :: "(string \<times> graphql_field_v2) list"
  g2_Subscriptions :: "(string \<times> graphql_field_v2) list"
  g2_Unmatched :: string

record route_v2 =
  r2_Host :: string
  r2_Upstream :: string
  r2_UpstreamCA :: string
  r2_CredentialFile :: string
  r2_CredentialJSON :: "credential_json option"
  r2_Header :: string
  r2_BasicUser :: string
  r2_Placeholder :: string
  r2_Refusal :: "refusal_shape option"
  r2_SessionKey :: "session_key option"
  r2_Docker :: "docker_block option"
  r2_Paths :: "(string \<times> endpoint_v2) list"
  r2_EncodedSlashes :: "(string \<times> bool) list"
  r2_Git :: "(string \<times> bool) list option"
  r2_GraphQL :: "(string \<times> graphql_v2) list"
  r2_Operations :: "(string \<times> string) list"
  r2_Answers :: answers
  r2_Ceiling :: "answers option"
  r2_Always :: bool

record ssh_route_v2 =
  s2_Address :: string
  s2_User :: string
  s2_HostKeys :: "string list"
  s2_Agent :: string
  s2_KeyFile :: string
  s2_PasswordFile :: string
  s2_Identity :: string
  s2_Shell :: bool
  s2_Env :: "(string \<times> bool) list"
  s2_Exec :: "(string \<times> string) list"
  s2_Commands :: "(string \<times> operation) list"
  s2_Answers :: answers
  s2_Ceiling :: "answers option"
  s2_Always :: bool

record document_v2 =
  d2_Version :: int
  d2_Name :: string
  d2_Allow :: "(string \<times> bool) list"
  d2_LAN :: "(string \<times> int list) list"
  d2_Routes :: "(string \<times> route_v2) list"
  d2_SSH :: "(string \<times> ssh_route_v2) list"
  d2_Record :: "record_block option"
  d2_Answers :: answers
  d2_Ceiling :: "answers option"

section \<open>What it lowers to\<close>

record git_rule =
  gr_Repos :: "string list"
  gr_Push :: string

text \<open>\<open>GraphQLField\<close>.\<close>

record graphql_field =
  gf_Field :: string
  gf_Ask :: bool
  gf_Refuse :: bool
  gf_Operation :: "operation option"

text \<open>\<open>GraphQLRule\<close> of package \<open>policy\<close>.\<close>

record graphql_doc =
  gd_Path :: string
  gd_Query :: "graphql_field option"
  gd_Mutations :: "graphql_field list"
  gd_Subscriptions :: "graphql_field list"
  gd_Unmatched :: string

text \<open>\<open>Route\<close> of package \<open>policy\<close>.\<close>

record doc_route =
  rt_Name :: string
  rt_Host :: string
  rt_Upstream :: string
  rt_UpstreamCA :: string
  rt_CredentialFile :: string
  rt_CredentialJSON :: "credential_json option"
  rt_Header :: string
  rt_BasicUser :: string
  rt_Placeholder :: string
  rt_Paths :: "path_rule list"
  rt_Git :: "git_rule option"
  rt_GraphQL :: "graphql_doc list"
  rt_Unmatched :: string
  rt_Refusal :: "refusal_shape option"
  rt_SessionKey :: "session_key option"
  rt_Docker :: "docker_block option"

text \<open>quoin's \<open>execrule.Rule\<close>, and a machine with its \<open>Spec\<close>.\<close>

record exec_rule =
  er_Command :: string
  er_Arg :: string
  er_Ask :: bool
  er_Refuse :: bool
  er_Operation :: "operation option"

record ssh_route =
  sr_Name :: string
  sr_Address :: string
  sr_User :: string
  sr_HostKeys :: "string list"
  sr_Agent :: string
  sr_KeyFile :: string
  sr_PasswordFile :: string
  sr_Identity :: string
  sr_Shell :: bool
  sr_Exec :: "exec_rule list"
  sr_Env :: "string list"
  sr_Unmatched :: string
  sr_Interactive :: string

record endpoint_answer =
  ea_rule :: path_rule
  ea_Answer :: string
  ea_Named :: bool

record scope_v2 =
  sv_Operations :: "endpoint_answer list"
  sv_Ceilings :: "(string \<times> string) list"
  sv_Unmatched :: string

record lowered =
  l_Name :: string
  l_Allow :: "string list"
  l_Routes :: "doc_route list"
  l_SSH :: "ssh_route list"
  l_LAN :: "(string \<times> int list) list"
  l_Record :: "record_block option"
  l_AllowPatterns :: "string list"
  l_LANPatterns :: "(string \<times> int list) list"
  l_Scopes :: "(string \<times> scope_v2) list"
  l_Always :: "string list"
  l_SSHAlways :: "string list"

text \<open>quoin's \<open>hostpattern\<close> and \<open>execrule.RuleName\<close>, as lowering uses them.\<close>

record 'p quoin =
  q_Compile :: "string \<Rightarrow> 'p option"
  q_Literal :: "'p \<Rightarrow> bool"
  q_Below :: "'p \<Rightarrow> string option"
  q_Match :: "'p \<Rightarrow> string \<Rightarrow> bool"
  q_Narrower :: "'p \<Rightarrow> 'p \<Rightarrow> bool"
  q_RuleName :: "string \<Rightarrow> string \<times> string"

section \<open>Answers\<close>

definition builtinWrites :: string where "builtinWrites = ''ask''"
definition builtinGuarded :: string where "builtinGuarded = ''refuse''"
definition builtinUnmatched :: string where "builtinUnmatched = ''refuse''"
definition builtinSSHUnmatched :: string where "builtinSSHUnmatched = ''ask''"
definition builtinInteractive :: string where "builtinInteractive = ''refuse''"
definition ReceivePackID :: string where "ReceivePackID = ''git-receive-pack''"

definition answer_strictness :: "string \<Rightarrow> int" where
  "answer_strictness a = (if a = ''allow'' then 0 else if a = ''ask'' then 1 else 2)"

definition stricter_answer :: "string \<Rightarrow> string \<Rightarrow> string" where
  "stricter_answer a b =
     (if a = [] then b
      else if b = [] then a
      else if answer_strictness b > answer_strictness a then b
      else a)"

datatype policy_error =
  BadAnswer string string
| Joined "policy_error list"
| NotVersion2
| BadHostPattern string
| NotAHost string
| RouteInteractive
| NoAnswer string
| NotEndpoint string
| NotCapitals string string
| MethodTwice string string
| StarsWithin string
| NotTemplate string
| NoOperation string
| BadClass string string
| NoCategory string
| UnknownOperation string
| PatternNoMachine string
| InRoute string policy_error

definition checkAnswer :: "string \<Rightarrow> string \<Rightarrow> policy_error list" where
  "checkAnswer what a = (if a \<in> {[], ''allow'', ''ask'', ''refuse''} then [] else [BadAnswer what a])"

definition checkAnswers :: "string \<Rightarrow> answers option \<Rightarrow> policy_error list" where
  "checkAnswers what a =
     (case a of
        None \<Rightarrow> []
      | Some a \<Rightarrow>
          checkAnswer (what @ '' writes'') (Writes a) @ checkAnswer (what @ '' guarded'') (Guarded a) @
          checkAnswer (what @ '' unmatched'') (An_Unmatched a) @ checkAnswer (what @ '' interactive'') (Interactive a))"

text \<open>\<open>errors.Join\<close>, returned where it is not nil.\<close>

definition none_of :: "policy_error list \<Rightarrow> policy_error + unit" where
  "none_of es = (if es = [] then Inr () else Inl (Joined es))"

text \<open>\<open>Answers.of\<close>.\<close>

definition answer_of :: "answers option \<Rightarrow> string \<Rightarrow> string" where
  "answer_of a class =
     (case a of
        None \<Rightarrow> []
      | Some a \<Rightarrow>
          if class = ''write'' then Writes a
          else if class = ''guarded'' then Guarded a
          else if class = ''unmatched'' then An_Unmatched a
          else if class = ''interactive'' then Interactive a
          else [])"

record chain =
  ch_answers :: "answers option list"
  ch_ceilings :: "answers option list"
  ch_unmatched :: string

text \<open>A class's name in an \<open>Answers\<close>: a request no operation describes is unmatched.\<close>

definition class_key :: "string \<Rightarrow> string" where
  "class_key class = (if class = [] then ''unmatched'' else class)"

definition chain_answer :: "chain \<Rightarrow> string \<Rightarrow> string" where
  "chain_answer c class =
     (if class = ''read'' then ''allow''
      else
        let class = class_key class in
        (case find (\<lambda>s. s \<noteq> []) (map (\<lambda>a. answer_of a class) (ch_answers c)) of
           Some s \<Rightarrow> s
         | None \<Rightarrow>
             if class = ''write'' then builtinWrites
             else if class = ''guarded'' then builtinGuarded
             else if class = ''interactive'' then builtinInteractive
             else ch_unmatched c))"

definition chain_ceiling :: "chain \<Rightarrow> string \<Rightarrow> string" where
  "chain_ceiling c class =
     (if class = ''read'' then []
      else foldl (\<lambda>out a. stricter_answer out (answer_of a (class_key class))) [] (ch_ceilings c))"

definition chain_clamp :: "chain \<Rightarrow> string \<Rightarrow> string \<Rightarrow> string" where
  "chain_clamp c a class = stricter_answer a (chain_ceiling c class)"

section \<open>Answers: lemmas\<close>

text \<open>An answer as strict as another, where that says anything.\<close>

definition as_strict :: "string \<Rightarrow> string \<Rightarrow> bool" where
  "as_strict floor a \<longleftrightarrow> floor = [] \<or> a \<noteq> [] \<and> answer_strictness floor \<le> answer_strictness a"

definition is_answer :: "string \<Rightarrow> bool" where
  "is_answer a \<longleftrightarrow> a \<in> {''allow'', ''ask'', ''refuse''}"

lemma as_strict_refl [simp]: "as_strict a a"
  by (simp add: as_strict_def)

lemma as_strict_trans: "as_strict a b \<Longrightarrow> as_strict b c \<Longrightarrow> as_strict a c"
  by (auto simp: as_strict_def)

lemma stricter_answer_left: "as_strict a (stricter_answer a b)"
  by (auto simp: as_strict_def stricter_answer_def)

lemma stricter_answer_right: "as_strict b (stricter_answer a b)"
  by (auto simp: as_strict_def stricter_answer_def)

lemma stricter_answer_either: "stricter_answer a b \<in> {a, b}"
  by (simp add: stricter_answer_def)

lemma foldl_strict:
  "as_strict out (foldl (\<lambda>out a. stricter_answer out (f a)) out cs) \<and>
   (\<forall>a\<in>set cs. as_strict (f a) (foldl (\<lambda>out a. stricter_answer out (f a)) out cs))"
proof (induction cs arbitrary: out)
  case (Cons x cs)
  show ?case
    using Cons [of "stricter_answer out (f x)"] stricter_answer_left [of out "f x"] stricter_answer_right [of "f x" out]
    by (auto intro: as_strict_trans)
qed simp

lemma foldl_in: "foldl (\<lambda>out a. stricter_answer out (f a)) out cs \<in> insert out (f ` set cs)"
proof (induction cs arbitrary: out)
  case (Cons x cs)
  show ?case using Cons [of "stricter_answer out (f x)"] stricter_answer_either [of out "f x"] by auto
qed simp

text \<open>A ceiling is as strict as each layer's, and an answer held to it as strict as both.\<close>

lemma chain_ceiling_strict:
  assumes "a \<in> set (ch_ceilings c)" "class \<noteq> ''read''"
  shows "as_strict (answer_of a (class_key class)) (chain_ceiling c class)"
  using assms foldl_strict [of "[]" "\<lambda>a. answer_of a (class_key class)" "ch_ceilings c"]
  by (auto simp: chain_ceiling_def)

lemma chain_clamp_strict:
  assumes "l \<in> set (ch_ceilings c)" "class \<noteq> ''read''"
  shows "as_strict (answer_of l (class_key class)) (chain_clamp c a class)"
  using chain_ceiling_strict [OF assms] stricter_answer_right [of "chain_ceiling c class" a]
  unfolding chain_clamp_def by (rule as_strict_trans)

lemma chain_clamp_own: "as_strict a (chain_clamp c a class)"
  by (simp add: chain_clamp_def stricter_answer_left)

lemma checkAnswer_ok: "checkAnswer what a = [] \<Longrightarrow> a = [] \<or> is_answer a"
  by (auto simp: checkAnswer_def is_answer_def split: if_splits)

lemma checkAnswers_ok: "checkAnswers what a = [] \<Longrightarrow> answer_of a class = [] \<or> is_answer (answer_of a class)"
proof (cases a)
  case (Some x)
  assume "checkAnswers what a = []"
  then have "checkAnswer (what @ '' writes'') (Writes x) = []" "checkAnswer (what @ '' guarded'') (Guarded x) = []"
    "checkAnswer (what @ '' unmatched'') (An_Unmatched x) = []" "checkAnswer (what @ '' interactive'') (Interactive x) = []"
    by (simp_all add: checkAnswers_def Some)
  then show ?thesis
    using checkAnswer_ok [of _ "Writes x"] checkAnswer_ok [of _ "Guarded x"] checkAnswer_ok [of _ "An_Unmatched x"]
      checkAnswer_ok [of _ "Interactive x"] by (simp add: answer_of_def Some)
qed (simp add: answer_of_def)

lemma as_strict_Refuse: "as_strict ''refuse'' a \<Longrightarrow> is_answer a \<Longrightarrow> a = ''refuse''"
  by (auto simp: as_strict_def is_answer_def answer_strictness_def)

lemma none_of_Inr [simp]: "none_of es = Inr u \<longleftrightarrow> es = []"
  by (simp add: none_of_def)

end
