(* ===== verification/Policy_Lower.thy ===== *)
theory Policy_Lower
  imports Policy_Model
begin

text \<open>
  A version 2 document's routes as the gateway builds them, \<open>policy/lower.go\<close>: each operation, field and push
  answered by its id, its category or its class, and held to the ceilings.

  An error is the first the code would return; of what it is found in, the key is kept.
\<close>

section \<open>Endpoint patterns\<close>

definition capital :: "char \<Rightarrow> bool" where
  "capital c \<longleftrightarrow> between CHR ''A'' c CHR ''Z''"

text \<open>\<open>strings.TrimFunc\<close> of the capitals.\<close>

definition trim_capitals :: "string \<Rightarrow> string" where
  "trim_capitals s = rev (dropWhile capital (rev (dropWhile capital s)))"

fun read_methods :: "string \<Rightarrow> string list \<Rightarrow> string list \<Rightarrow> policy_error + string list" where
  "read_methods key ms [] = Inr ms"
| "read_methods key ms (m # rest) =
     (if m = [] \<or> trim_capitals m \<noteq> [] then Inl (NotCapitals key m)
      else if m \<in> set ms then Inl (MethodTwice key m)
      else read_methods key (ms @ [m]) rest)"

definition path_and_prefix :: "string \<Rightarrow> string \<times> string" where
  "path_and_prefix p =
     (if p = ''/**'' then ([], ''/'')
      else if suffix ''/**'' p then ([], TrimSuffix p ''/**'')
      else (p, []))"

definition ParseEndpoint :: "string \<Rightarrow> policy_error + string list \<times> string \<times> string" where
  "ParseEndpoint key =
     (case Cut CHR '' '' key of
        (m, Some p) \<Rightarrow>
          if m = [] \<or> \<not> prefix ''/'' p then Inl (NotEndpoint key)
          else ok_then (read_methods key [] (Split CHR '','' m)) (\<lambda>methods.
            let (path, pre) = path_and_prefix p in
            if contains_sub (path @ pre) ''**'' then Inl (StarsWithin key)
            else Inr (methods, path, pre))
      | (_, None) \<Rightarrow> Inl (NotEndpoint key))"

definition IsEndpoint :: "string \<Rightarrow> bool" where
  "IsEndpoint key =
     (case Cut CHR '' '' key of
        (m, Some p) \<Rightarrow> m \<noteq> [] \<and> CHR '':'' \<notin> set m \<and> prefix ''/'' p
      | (_, None) \<Rightarrow> False)"

section \<open>Hosts\<close>

definition lowerHost :: "'p quoin \<Rightarrow> string \<Rightarrow> policy_error + string" where
  "lowerHost Q h =
     (case q_Compile Q h of
        None \<Rightarrow> Inl (BadHostPattern h)
      | Some p \<Rightarrow>
          if q_Literal Q p then Inr h
          else (case q_Below Q p of
              Some below \<Rightarrow> if below \<noteq> [] then Inr (''*.'' @ below) else Inl (NotAHost h)
            | None \<Rightarrow> Inl (NotAHost h)))"

definition lowerUpstream :: "string \<Rightarrow> string" where
  "lowerUpstream u = (case CutPrefix u ''https://**.'' of Some rest \<Rightarrow> ''https://*.'' @ rest | None \<Rightarrow> u)"

section \<open>A route's operations\<close>

definition check_operations :: "(string \<times> string) list \<Rightarrow> policy_error + unit" where
  "check_operations ops =
     each_ok (\<lambda>(k, a). ok_then (case checkAnswer (''operations '' @ k) a of [] \<Rightarrow> Inr () | e # _ \<Rightarrow> Inl e) (\<lambda>_.
       if a = [] then Inl (NoAnswer k) else Inr ())) ops"

definition check_encoded :: "(string \<times> bool) list \<Rightarrow> policy_error + unit" where
  "check_encoded m =
     each_ok (\<lambda>(k, _). ok_then
       (if IsEndpoint k then ok_then (ParseEndpoint k) (\<lambda>(_, path, pre). Inr (path @ pre)) else Inr k) (\<lambda>t.
       let t = TrimSuffix t ''/**'' in
       if \<not> prefix ''/'' t \<or> CHR ''*'' \<notin> set t then Inl (NotTemplate k) else Inr ())) m"

text \<open>A key's value in a Go map of bools.\<close>

definition set_true :: "(string \<times> bool) list \<Rightarrow> string \<Rightarrow> bool" where
  "set_true m k \<longleftrightarrow> map_of m k = Some True"

definition encoded_slashes :: "route_v2 \<Rightarrow> string \<Rightarrow> string \<Rightarrow> string \<Rightarrow> bool" where
  "encoded_slashes r key path pre =
     (let t = (if pre \<noteq> [] then TrimSuffix pre ''/'' @ ''/**'' else path);
          on = set_true (r2_EncodedSlashes r)
      in on key \<or> on (path @ pre) \<or> on t)"

definition byName :: "route_v2 \<Rightarrow> operation option \<Rightarrow> string \<Rightarrow> string option" where
  "byName r op name =
     (case map_of (r2_Operations r) name of
        Some a \<Rightarrow> Some a
      | None \<Rightarrow>
          (case op of
             None \<Rightarrow> None
           | Some o' \<Rightarrow>
               if op_Category o' = [] then None else map_of (r2_Operations r) (''category:'' @ op_Category o')))"

text \<open>What \<open>know\<close> has been told: the ids and the categories of the route's operations.\<close>

type_synonym known = "string set \<times> string set"

definition know :: "string \<Rightarrow> operation option \<Rightarrow> known \<Rightarrow> known" where
  "know name op = (\<lambda>(ids, categories).
     (insert name ids,
      case op of
        Some o' \<Rightarrow> if op_Category o' \<noteq> [] then insert (op_Category o') categories else categories
      | None \<Rightarrow> categories))"

definition lower_path :: "route_v2 \<Rightarrow> chain \<Rightarrow> string \<Rightarrow> endpoint_v2 \<Rightarrow> policy_error + endpoint_answer" where
  "lower_path r c key e =
     ok_then (ParseEndpoint key) (\<lambda>(methods, path, pre).
     case ep_Operation e of
       None \<Rightarrow> Inl (NoOperation key)
     | Some op \<Rightarrow>
         if op_ID op = [] \<or> op_Summary op = [] then Inl (NoOperation key)
         else if op_Class op \<notin> {[], ''read'', ''write'', ''guarded''} then Inl (BadClass key (op_ID op))
         else
           let named = byName r (Some op) (op_ID op);
               answer = (case named of Some a \<Rightarrow> a | None \<Rightarrow> chain_answer c (op_Class op))
           in Inr \<lparr>ea_rule = \<lparr>Methods = methods, Prefix = pre, Path = path,
                     EncodedSlashes = encoded_slashes r key path pre, AskFlag = False, RefuseFlag = False,
                     Operation = Some op, Docker = ep_Docker e\<rparr>,
                   ea_Answer = chain_clamp c answer (op_Class op), ea_Named = named \<noteq> None\<rparr>)"

fun lower_paths :: "route_v2 \<Rightarrow> chain \<Rightarrow> string list \<Rightarrow> known \<Rightarrow> policy_error + endpoint_answer list \<times> known" where
  "lower_paths r c [] kn = Inr ([], kn)"
| "lower_paths r c (key # keys) kn =
     (case map_of (r2_Paths r) key of
        None \<Rightarrow> Inl (NoOperation key)
      | Some e \<Rightarrow>
          ok_then (lower_path r c key e) (\<lambda>a.
          let op = Operation (ea_rule a) in
          ok_then (lower_paths r c keys (know (case op of None \<Rightarrow> [] | Some o' \<Rightarrow> op_ID o') op kn)) (\<lambda>(as, kn).
          Inr (a # as, kn))))"

section \<open>GraphQL\<close>

definition op_class :: "operation option \<Rightarrow> string" where
  "op_class op = (case op of Some o' \<Rightarrow> op_Class o' | None \<Rightarrow> [])"

definition lower_field ::
    "route_v2 \<Rightarrow> chain \<Rightarrow> string \<Rightarrow> string \<Rightarrow> graphql_field_v2 \<Rightarrow> known \<Rightarrow> graphql_field \<times> known" where
  "lower_field r c unmatched name op kn =
     (let name = (case op of Some o' \<Rightarrow> if op_ID o' \<noteq> [] then op_ID o' else name | None \<Rightarrow> name);
          class = op_class op;
          answer = (case byName r op name of
              Some a \<Rightarrow> a
            | None \<Rightarrow> if class = [] then unmatched else chain_answer c class);
          held = chain_clamp c answer class
      in (\<lparr>gf_Field = [], gf_Ask = held = ''ask'', gf_Refuse = held = ''refuse'', gf_Operation = op\<rparr>,
          know name op kn))"

fun lower_fields ::
    "route_v2 \<Rightarrow> chain \<Rightarrow> string \<Rightarrow> (string \<times> graphql_field_v2) list \<Rightarrow> string list \<Rightarrow> known \<Rightarrow>
     graphql_field list \<times> known" where
  "lower_fields r c unmatched m [] kn = ([], kn)"
| "lower_fields r c unmatched m (f # fs) kn =
     (let (g, kn) = lower_field r c unmatched f (case map_of m f of Some op \<Rightarrow> op | None \<Rightarrow> None) kn;
          (gs, kn) = lower_fields r c unmatched m fs kn
      in (g\<lparr>gf_Field := f\<rparr> # gs, kn))"

definition lower_graphql ::
    "route_v2 \<Rightarrow> chain \<Rightarrow> string \<Rightarrow> graphql_v2 \<Rightarrow> known \<Rightarrow> policy_error + graphql_doc \<times> known" where
  "lower_graphql r c path g kn =
     (case checkAnswer (''graphql '' @ path @ '' unmatched'') (g2_Unmatched g) of
        e # _ \<Rightarrow> Inl e
      | [] \<Rightarrow>
          let unmatched = (if g2_Unmatched g = [] then chain_answer c ''unmatched'' else g2_Unmatched g);
              (q, kn) = (case g2_Query g of
                  None \<Rightarrow> (None, kn)
                | Some op \<Rightarrow> let (q, kn) = lower_field r c unmatched ''query'' op kn in (Some q, kn));
              (ms, kn) = lower_fields r c unmatched (g2_Mutations g) (sortedKeys (g2_Mutations g)) kn;
              (ss, kn) = lower_fields r c unmatched (g2_Subscriptions g) (sortedKeys (g2_Subscriptions g)) kn
          in Inr (\<lparr>gd_Path = path, gd_Query = q, gd_Mutations = ms, gd_Subscriptions = ss,
                   gd_Unmatched = chain_clamp c unmatched ''unmatched''\<rparr>, kn))"

fun lower_graphqls ::
    "route_v2 \<Rightarrow> chain \<Rightarrow> (string \<times> graphql_v2) list \<Rightarrow> known \<Rightarrow> policy_error + graphql_doc list \<times> known" where
  "lower_graphqls r c [] kn = Inr ([], kn)"
| "lower_graphqls r c ((path, g) # gs) kn =
     ok_then (lower_graphql r c path g kn) (\<lambda>(d, kn).
     ok_then (lower_graphqls r c gs kn) (\<lambda>(ds, kn). Inr (d # ds, kn)))"

text \<open>A map's entries in the order of its keys.\<close>

definition in_order :: "(string \<times> 'v) list \<Rightarrow> (string \<times> 'v) list" where
  "in_order m = sort_key fst m"

section \<open>Git, and endpoint patterns\<close>

definition lower_git :: "route_v2 \<Rightarrow> chain \<Rightarrow> (string \<times> bool) list \<Rightarrow> git_rule" where
  "lower_git r c repos =
     (let push = (case map_of (r2_Operations r) ReceivePackID of Some a \<Rightarrow> a | None \<Rightarrow> []);
          push = (if push = [] then chain_answer c ''write'' else push)
      in \<lparr>gr_Repos = filter (set_true repos) (sortedKeys repos), gr_Push = chain_clamp c push ''write''\<rparr>)"

definition lower_pattern :: "route_v2 \<Rightarrow> known \<Rightarrow> string \<times> string \<Rightarrow> policy_error + path_rule list" where
  "lower_pattern r = (\<lambda>(ids, categories) (key, a).
     if prefix ''category:'' key then
       (if drop (length ''category:'') key \<notin> categories then Inl (NoCategory key) else Inr [])
     else if IsEndpoint key then
       ok_then (ParseEndpoint key) (\<lambda>(methods, path, pre).
       Inr [\<lparr>Methods = methods, Prefix = pre, Path = path, EncodedSlashes = encoded_slashes r key path pre,
             AskFlag = a = ''ask'', RefuseFlag = a = ''refuse'', Operation = None, Docker = None\<rparr>])
     else if key \<notin> ids then Inl (UnknownOperation key)
     else Inr [])"

fun lower_patterns :: "route_v2 \<Rightarrow> known \<Rightarrow> (string \<times> string) list \<Rightarrow> policy_error + path_rule list" where
  "lower_patterns r kn [] = Inr []"
| "lower_patterns r kn (op # ops) =
     ok_then (lower_pattern r kn op) (\<lambda>ps.
     ok_then (lower_patterns r kn ops) (\<lambda>rest. Inr (ps @ rest)))"

section \<open>A route\<close>

definition route_chain :: "route_v2 \<Rightarrow> document_v2 \<Rightarrow> chain" where
  "route_chain r d =
     \<lparr>ch_answers = [Some (r2_Answers r), Some (d2_Answers d)], ch_ceilings = [r2_Ceiling r, d2_Ceiling d],
      ch_unmatched = builtinUnmatched\<rparr>"

definition scope_ceilings :: "chain \<Rightarrow> (string \<times> string) list" where
  "scope_ceilings c =
     concat (map (\<lambda>class. if chain_ceiling c class = [] then []
        else [(if class = ''unmatched'' then [] else class, chain_ceiling c class)])
       [''write'', ''guarded'', ''unmatched''])"

definition route_unmatched :: "route_v2 \<Rightarrow> chain \<Rightarrow> string" where
  "route_unmatched r c =
     (if r2_Docker r \<noteq> None then ''refuse''
      else
        let own = An_Unmatched (r2_Answers r);
            unmatched = (if own = [] then chain_answer c ''unmatched'' else own)
        in chain_clamp c unmatched ''unmatched'')"

definition lowerRoute :: "'p quoin \<Rightarrow> string \<Rightarrow> route_v2 \<Rightarrow> document_v2 \<Rightarrow> policy_error + doc_route \<times> scope_v2" where
  "lowerRoute Q name r d =
     ok_then (none_of (checkAnswers ''route'' (Some (r2_Answers r)) @ checkAnswers ''route ceiling'' (r2_Ceiling r))) (\<lambda>_.
     if Interactive (r2_Answers r) \<noteq> [] \<or> (case r2_Ceiling r of Some ceil \<Rightarrow> Interactive ceil \<noteq> [] | None \<Rightarrow> False)
     then Inl RouteInteractive
     else ok_then (lowerHost Q (r2_Host r)) (\<lambda>host.
     let c = route_chain r d in
     ok_then (check_operations (r2_Operations r)) (\<lambda>_.
     ok_then (check_encoded (r2_EncodedSlashes r)) (\<lambda>_.
     ok_then (lower_paths r c (sortedKeys (r2_Paths r)) ({}, {})) (\<lambda>(operations, kn).
     ok_then (lower_graphqls r c (in_order (r2_GraphQL r)) kn) (\<lambda>(graphqls, kn).
     let git = map_option (lower_git r c) (r2_Git r);
         kn = (if r2_Git r = None then kn else know ReceivePackID None kn)
     in ok_then (lower_patterns r kn (in_order (r2_Operations r))) (\<lambda>patterns.
     Inr (\<lparr>rt_Name = name, rt_Host = host, rt_Upstream = lowerUpstream (r2_Upstream r), rt_UpstreamCA = r2_UpstreamCA r,
           rt_CredentialFile = r2_CredentialFile r, rt_CredentialJSON = r2_CredentialJSON r, rt_Header = r2_Header r,
           rt_BasicUser = r2_BasicUser r, rt_Placeholder = r2_Placeholder r, rt_Paths = patterns, rt_Git = git,
           rt_GraphQL = graphqls, rt_Unmatched = [], rt_Refusal = r2_Refusal r, rt_SessionKey = r2_SessionKey r,
           rt_Docker = r2_Docker r\<rparr>,
          \<lparr>sv_Operations = operations, sv_Ceilings = scope_ceilings c, sv_Unmatched = route_unmatched r c\<rparr>))))))))"

end
