(* ===== verification/Store_Scope.thy ===== *)
theory Store_Scope
  imports Policy_Lower Scope_Decide Docker_Owned
begin

text \<open>
  A policy's route as interception is given it, \<open>internal/store/store.go\<close>: the rules of its paths, of git and of
  GraphQL, what a version 2 document says beyond them, and what is refused of its credential. Reading a file of
  certificates, a key or a credential is given.
\<close>

datatype store_error =
  NoClass string string
| UnmatchedUnknown string
| OperationAnswer string
| CeilingAnswer string
| NoScope
| FieldAsksAndRefuses string string
| QueryNamed string
| FieldUnnamed string
| FieldTwice string string
| GraphQLUnmatched string string
| PushUnknown string
| NotRepo repo_error
| NoRepos

section \<open>Path rules\<close>

text \<open>The copy of an operation is where the operation is: of each there is one copy.\<close>

definition copy_operation :: "operation option \<Rightarrow> store_error + operation option" where
  "copy_operation op =
     (case op of
        None \<Rightarrow> Inr None
      | Some o' \<Rightarrow>
          if op_Class o' \<in> {[], ''read'', ''write'', ''guarded''} then Inr (Some o')
          else Inl (NoClass (op_ID o') (op_Class o')))"

definition pathRule :: "path_rule \<Rightarrow> store_error + path_rule" where
  "pathRule p =
     ok_then (copy_operation (Operation p)) (\<lambda>o'.
     Inr \<lparr>Methods = Methods p, Prefix = Prefix p, Path = Path p, EncodedSlashes = EncodedSlashes p,
       AskFlag = AskFlag p, RefuseFlag = RefuseFlag p, Operation = o',
       Docker = map_option (\<lambda>d. \<lparr>Owned = Owned d, Param = Param d, Query = Query d, Body = Body d, Upgrade = Upgrade d\<rparr>)
         (Docker p)\<rparr>)"

section \<open>What version 2 says\<close>

definition outcomes :: "(string \<times> outcome) list" where
  "outcomes = [(''allow'', Admit), (''ask'', Ask), (''refuse'', Refuse)]"

definition scope_endpoint :: "endpoint_answer \<Rightarrow> store_error + endpoint" where
  "scope_endpoint e =
     ok_then (pathRule (ea_rule e)) (\<lambda>rule.
     case map_of outcomes (ea_Answer e) of
       None \<Rightarrow> Inl (OperationAnswer (ea_Answer e))
     | Some oc \<Rightarrow> Inr \<lparr>e_rule = rule, e_Outcome = oc, e_Named = ea_Named e\<rparr>)"

definition scope_ceiling :: "string \<times> string \<Rightarrow> store_error + string \<times> outcome" where
  "scope_ceiling = (\<lambda>(class, a).
     (case map_of outcomes a of None \<Rightarrow> Inl (CeilingAnswer class) | Some oc \<Rightarrow> Inr (class, oc)))"

definition read_unmatched :: "string \<Rightarrow> store_error + unmatched" where
  "read_unmatched a =
     (if a = ''allow'' then Inr UnmatchedAdmit
      else if a = ''ask'' then Inr UnmatchedAsk
      else if a = ''refuse'' then Inr UnmatchedRefuse
      else Inl (UnmatchedUnknown a))"

definition scopeV2 :: "scope \<Rightarrow> doc_route \<Rightarrow> scope_v2 \<Rightarrow> store_error + scope" where
  "scopeV2 s r w2 =
     ok_then (read_unmatched (sv_Unmatched w2)) (\<lambda>um.
     ok_then (all_ok scope_endpoint (sv_Operations w2)) (\<lambda>es.
     ok_then (all_ok scope_ceiling (sv_Ceilings w2)) (\<lambda>cs.
     if rt_Paths r = [] \<and> sv_Operations w2 = [] \<and> rt_Git r = None \<and> rt_GraphQL r = [] \<and> um = UnmatchedRefuse
     then Inl NoScope
     else Inr (s\<lparr>sc_V2 := True, sc_Unmatched := um, sc_Operations := sc_Operations s @ es,
       sc_Ceiling := (if cs = [] then sc_Ceiling s else Some cs)\<rparr>))))"

section \<open>GraphQL and git\<close>

definition scope_field :: "string \<Rightarrow> string \<Rightarrow> graphql_field \<Rightarrow> store_error + graphql_rule" where
  "scope_field path what f =
     (if gf_Ask f \<and> gf_Refuse f then Inl (FieldAsksAndRefuses path what)
      else ok_then (copy_operation (gf_Operation f)) (\<lambda>o'.
        Inr \<lparr>gr_outcome = (if gf_Ask f then Ask else if gf_Refuse f then Refuse else Admit), gr_operation = o'\<rparr>))"

fun scope_fields ::
    "string \<Rightarrow> string \<Rightarrow> (string \<times> graphql_rule) list \<Rightarrow> graphql_field list \<Rightarrow>
     store_error + (string \<times> graphql_rule) list" where
  "scope_fields path what out [] = Inr out"
| "scope_fields path what out (f # fs) =
     (if gf_Field f = [] then Inl (FieldUnnamed path)
      else if map_of out (gf_Field f) \<noteq> None then Inl (FieldTwice path (gf_Field f))
      else ok_then (scope_field path (what @ '' '' @ gf_Field f) f) (\<lambda>r.
        scope_fields path what (put (gf_Field f) r out) fs))"

definition graphqlScope :: "graphql_doc \<Rightarrow> store_error + graphql_scope" where
  "graphqlScope g =
     (let path = gd_Path g in
      ok_then (if gd_Unmatched g \<in> {[], ''refuse''} then Inr Refuse
         else if gd_Unmatched g = ''ask'' then Inr Ask
         else if gd_Unmatched g = ''allow'' then Inr Admit
         else Inl (GraphQLUnmatched path (gd_Unmatched g))) (\<lambda>um.
      ok_then (case gd_Query g of
           None \<Rightarrow> Inr None
         | Some q \<Rightarrow>
             if gf_Field q \<noteq> [] then Inl (QueryNamed path)
             else ok_then (scope_field path ''query'' q) (\<lambda>r. Inr (Some r))) (\<lambda>q.
      ok_then (scope_fields path ''mutation'' [] (gd_Mutations g)) (\<lambda>ms.
      ok_then (scope_fields path ''subscription'' [] (gd_Subscriptions g)) (\<lambda>ss.
      Inr \<lparr>gs_Path = path, gs_Query = q, gs_Mutations = ms, gs_Subscriptions = ss, gs_Unmatched = um\<rparr>)))))"

definition gitScope :: "git_rule \<Rightarrow> store_error + git_scope" where
  "gitScope g =
     ok_then (if gr_Push g \<in> {[], ''refuse''} then Inr Refuse
        else if gr_Push g = ''ask'' then Inr Ask
        else if gr_Push g = ''allow'' then Inr Admit
        else Inl (PushUnknown (gr_Push g))) (\<lambda>push.
     if gr_Repos g = [''*''] then Inr \<lparr>Repos = [], AnyRepo = True, Push = push\<rparr>
     else ok_then (all_ok (\<lambda>name. lift_error NotRepo (ParseRepo name)) (gr_Repos g)) (\<lambda>repos.
       if repos = [] then Inl NoRepos
       else Inr \<lparr>Repos = repos, AnyRepo = False, Push = push\<rparr>))"

section \<open>A route\<close>

datatype inject = Bearer | BasicUser string | HeaderNamed string

datatype route_error =
  ScopeError store_error
| V1Unmatched string
| AdmitsNothingAtAll
| DockerCredential
| NoDockerBlock
| DockerGraphQLGit
| DockerAddress string
| DockerPort int
| DockerTable spec_error
| CAUnread
| CredentialUnnamed
| KeyUnread
| HeaderAndUser
| BadUser
| AuthorizationNamed
| NoToken
| TwoExpiries
| CredentialUnread
| NoRoute

text \<open>What the route holds of its credential: where the token is read from, and how it is sent.\<close>

record credential =
  cr_File :: string
  cr_JSON :: "credential_json option"
  cr_Inject :: inject
  cr_Placeholder :: string
  cr_SessionKey :: "session_key option"

record store_route =
  st_Name :: string
  st_Host :: string
  st_Upstream :: string
  st_Scope :: scope
  st_Refusal :: "refusal_shape option"
  st_UpstreamCA :: string
  st_Credential :: "credential option"
  st_Docker :: "docker_route option"

text \<open>What a route is read with: certificates, a key and a credential file, each whether it reads;
  \<open>netip.ParseAddr\<close>, \<open>encoding/json\<close>'s tokens and Unicode's simple folding.\<close>

record reader =
  rd_CAs :: "string \<Rightarrow> bool"
  rd_Key :: "string \<Rightarrow> bool"
  rd_Watch :: "string \<Rightarrow> credential_json option \<Rightarrow> bool"
  rd_Addr :: "string \<Rightarrow> addr option"
  rd_Tokens :: "string \<Rightarrow> Docker_Json.token list"
  rd_Fold :: "int \<Rightarrow> int"

definition empty_scope :: scope where
  "empty_scope =
     \<lparr>sc_Paths = [], sc_Git = None, sc_GraphQL = [], sc_GitHubAPI = None, sc_Unmatched = UnmatchedRefuse,
      sc_V2 = False, sc_Operations = [], sc_Ceiling = None\<rparr>"

definition scope_v1 :: "doc_route \<Rightarrow> route_error + scope" where
  "scope_v1 r =
     (if rt_Unmatched r \<in> {[], ''refuse''} then
        (if rt_Paths r = [] \<and> rt_Git r = None \<and> rt_GraphQL r = [] then Inl AdmitsNothingAtAll else Inr empty_scope)
      else if rt_Unmatched r = ''ask'' then Inr (empty_scope\<lparr>sc_Unmatched := UnmatchedAsk\<rparr>)
      else Inl (V1Unmatched (rt_Unmatched r)))"

definition route_paths :: "doc_route \<Rightarrow> scope_v2 option \<Rightarrow> route_error + scope" where
  "route_paths r w2 =
     ok_then (case w2 of Some v \<Rightarrow> lift_error ScopeError (scopeV2 empty_scope r v) | None \<Rightarrow> scope_v1 r) (\<lambda>s.
     ok_then (lift_error ScopeError (all_ok pathRule (rt_Paths r))) (\<lambda>ps.
     Inr (s\<lparr>sc_Paths := ps\<rparr>)))"

definition route_bodies :: "doc_route \<Rightarrow> scope \<Rightarrow> route_error + scope" where
  "route_bodies r s =
     ok_then (lift_error ScopeError (all_ok graphqlScope (rt_GraphQL r))) (\<lambda>gs.
     ok_then (case rt_Git r of
          None \<Rightarrow> Inr None
        | Some g \<Rightarrow> ok_then (lift_error ScopeError (gitScope g)) (\<lambda>x. Inr (Some x))) (\<lambda>git.
     Inr (s\<lparr>sc_GraphQL := gs, sc_Git := git\<rparr>)))"

fun docker_ports :: "int list \<Rightarrow> route_error + 16 word list" where
  "docker_ports [] = Inr []"
| "docker_ports (p # ps) =
     (if p < 1024 \<or> p > 65535 then Inl (DockerPort p)
      else ok_then (docker_ports ps) (\<lambda>ws. Inr (word_of_int p # ws)))"

definition dockerRoute ::
    "reader \<Rightarrow> doc_route \<Rightarrow> store_route \<Rightarrow> route_error + store_route" where
  "dockerRoute R r out =
     (if rt_CredentialFile r \<noteq> [] \<or> rt_Placeholder r \<noteq> [] \<or> rt_Header r \<noteq> [] \<or> rt_BasicUser r \<noteq> [] \<or>
         rt_SessionKey r \<noteq> None \<or> rt_CredentialJSON r \<noteq> None \<or> rt_UpstreamCA r \<noteq> []
      then Inl DockerCredential
      else case rt_Docker r of
        None \<Rightarrow> Inl NoDockerBlock
      | Some d \<Rightarrow>
          if rt_Git r \<noteq> None \<or> rt_GraphQL r \<noteq> [] then Inl DockerGraphQLGit
          else case rd_Addr R (db_Address d) of
            Some (V4 w) \<Rightarrow>
              ok_then (docker_ports (db_Ports d)) (\<lambda>ports.
              ok_then (all_ok (\<lambda>(name, raw). ok_then (lift_error DockerTable (Compile (rd_Fold R) (rd_Tokens R) name raw))
                  (\<lambda>t. Inr (name, t))) (db_Bodies d)) (\<lambda>bodies.
              Inr (out\<lparr>st_Docker := Some
                \<lparr>dk_Project = db_Project d, dk_APIMin = db_Min d, dk_APIMax = db_Max d, dk_Unversioned = db_Unversioned d,
                 dk_Images = db_Images d, dk_Builds = db_Builds d, dk_Address = V4 w, dk_Ports = ports, dk_Names = db_Names d,
                 dk_MaxBody = db_MaxBody d, dk_Bodies = bodies\<rparr>\<rparr>)))
          | _ \<Rightarrow> Inl (DockerAddress (db_Address d)))"

definition read_inject :: "(int \<Rightarrow> int) \<Rightarrow> doc_route \<Rightarrow> route_error + inject" where
  "read_inject F r =
     (if rt_Header r \<noteq> [] \<and> rt_BasicUser r \<noteq> [] then Inl HeaderAndUser
      else if rt_BasicUser r \<noteq> [] then
        (if list_ex (\<lambda>c. c \<in> {CHR '':'', CHR 0x0D, CHR 0x0A}) (rt_BasicUser r) then Inl BadUser
         else Inr (BasicUser (rt_BasicUser r)))
      else if rt_Header r \<noteq> [] then
        (if EqualFold F (rt_Header r) ''Authorization'' then Inl AuthorizationNamed else Inr (HeaderNamed (rt_Header r)))
      else Inr Bearer)"

definition read_credential ::
    "reader \<Rightarrow> bool \<Rightarrow> doc_route \<Rightarrow> route_error + credential option" where
  "read_credential R checking r =
     (if rt_CredentialFile r = [] then
        (if rt_Placeholder r \<noteq> [] \<or> rt_CredentialJSON r \<noteq> None \<or> rt_Header r \<noteq> [] \<or> rt_BasicUser r \<noteq> [] \<or>
            rt_SessionKey r \<noteq> None
         then Inl CredentialUnnamed else Inr None)
      else if (case rt_SessionKey r of None \<Rightarrow> False | Some k \<Rightarrow> \<not> rd_Key R (sk_PublicKey k)) then Inl KeyUnread
      else ok_then (read_inject (rd_Fold R) r) (\<lambda>inj.
        if (case rt_CredentialJSON r of None \<Rightarrow> False | Some j \<Rightarrow> cj_Token j = []) then Inl NoToken
        else if (case rt_CredentialJSON r of None \<Rightarrow> False
            | Some j \<Rightarrow> cj_ExpiresMillis j \<noteq> [] \<and> cj_ExpiresJWT j \<noteq> []) then Inl TwoExpiries
        else if \<not> checking \<and> \<not> rd_Watch R (rt_CredentialFile r) (rt_CredentialJSON r) then Inl CredentialUnread
        else Inr (Some \<lparr>cr_File = rt_CredentialFile r, cr_JSON = rt_CredentialJSON r, cr_Inject = inj,
          cr_Placeholder = rt_Placeholder r, cr_SessionKey = rt_SessionKey r\<rparr>)))"

definition assemble_route ::
    "reader \<Rightarrow> bool \<Rightarrow> doc_route \<Rightarrow> scope_v2 option \<Rightarrow> route_error + store_route" where
  "assemble_route R checking r w2 =
     ok_then (route_paths r w2) (\<lambda>s.
     let out = \<lparr>st_Name = rt_Name r, st_Host = rt_Host r, st_Upstream = rt_Upstream r, st_Scope = s,
       st_Refusal = rt_Refusal r, st_UpstreamCA = [], st_Credential = None, st_Docker = None\<rparr>
     in if rt_Docker r \<noteq> None \<or> prefix ''unix:'' (rt_Upstream r) then dockerRoute R r out
     else ok_then (route_bodies r s) (\<lambda>s.
     if rt_UpstreamCA r \<noteq> [] \<and> \<not> rd_CAs R (rt_UpstreamCA r) then Inl CAUnread
     else ok_then (read_credential R checking r) (\<lambda>cred.
     Inr (out\<lparr>st_Scope := s, st_UpstreamCA := rt_UpstreamCA r, st_Credential := cred\<rparr>))))"

text \<open>The routes a document is built with, and the scope of one by its name.\<close>

definition built_route :: "reader \<Rightarrow> bool \<Rightarrow> lowered \<Rightarrow> doc_route \<Rightarrow> route_error + store_route" where
  "built_route R checking l r = assemble_route R checking r (map_of (l_Scopes l) (rt_Name r))"

definition RouteScope :: "reader \<Rightarrow> lowered \<Rightarrow> string \<Rightarrow> route_error + scope" where
  "RouteScope R l nm =
     (case find (\<lambda>r. rt_Name r = nm) (l_Routes l) of
        None \<Rightarrow> Inl NoRoute
      | Some r \<Rightarrow> ok_then (built_route R True l r) (\<lambda>s. Inr (st_Scope s)))"

end
