(* ===== verification/Policy_Document.thy ===== *)
theory Policy_Document
  imports Policy_Lower
begin

text \<open>
  A version 2 document as the gateway builds it, \<open>policy/lower.go\<close>: its machines, each with the answers of every
  pattern that matches its name, and \<open>Lower\<close> whole.

  \<open>SortStableFunc\<close> is here the library's insertion sort, which it is for twenty elements and fewer: whether one
  pattern is narrower than another need not be an order that any sort would agree on.
\<close>

section \<open>Machines\<close>

definition sshHostOnly :: "ssh_route_v2 \<Rightarrow> bool" where
  "sshHostOnly r \<longleftrightarrow>
     s2_Address r \<noteq> [] \<or> s2_User r \<noteq> [] \<or> length (s2_HostKeys r) > 0 \<or> s2_Agent r \<noteq> [] \<or> s2_KeyFile r \<noteq> [] \<or>
     s2_PasswordFile r \<noteq> [] \<or> s2_Identity r \<noteq> [] \<or> s2_Shell r"

fun ssh_patterns ::
    "'p quoin \<Rightarrow> (string \<times> ssh_route_v2) list \<Rightarrow> policy_error + ((string \<times> ssh_route_v2) \<times> 'p) list" where
  "ssh_patterns Q [] = Inr []"
| "ssh_patterns Q ((k, r) # rest) =
     (case q_Compile Q k of
        None \<Rightarrow> Inl (BadHostPattern k)
      | Some p \<Rightarrow>
          if q_Literal Q p then ssh_patterns Q rest
          else if sshHostOnly r \<or> length (s2_Commands r) > 0 \<or> s2_Always r then Inl (PatternNoMachine k)
          else ok_then (ssh_patterns Q rest) (\<lambda>ps. Inr (((k, r), p) # ps)))"

text \<open>An element put where it belongs in what is before it, from the right, and each in turn.\<close>

definition insert_right :: "('a \<Rightarrow> 'a \<Rightarrow> int) \<Rightarrow> 'a \<Rightarrow> 'a list \<Rightarrow> 'a list" where
  "insert_right cmp x ys =
     (let after = takeWhile (\<lambda>y. cmp x y < 0) (rev ys) in take (length ys - length after) ys @ x # rev after)"

definition insertion_sort :: "('a \<Rightarrow> 'a \<Rightarrow> int) \<Rightarrow> 'a list \<Rightarrow> 'a list" where
  "insertion_sort cmp xs = foldl (\<lambda>ys x. insert_right cmp x ys) [] xs"

definition wider_first :: "'p quoin \<Rightarrow> 'a \<times> 'p \<Rightarrow> 'a \<times> 'p \<Rightarrow> int" where
  "wider_first Q a b = (if q_Narrower Q (snd a) (snd b) then 1 else if q_Narrower Q (snd b) (snd a) then -1 else 0)"

definition ssh_layers :: "'p quoin \<Rightarrow> ((string \<times> ssh_route_v2) \<times> 'p) list \<Rightarrow> string \<Rightarrow> ssh_route_v2 \<Rightarrow> ssh_route_v2 list" where
  "ssh_layers Q patterns nm own = map (snd \<circ> fst) (filter (\<lambda>p. q_Match Q (snd p) nm) patterns) @ [own]"

text \<open>\<open>maps.Copy\<close>.\<close>

definition copy_map :: "(string \<times> 'v) list \<Rightarrow> (string \<times> 'v) list \<Rightarrow> (string \<times> 'v) list" where
  "copy_map dst src = foldl (\<lambda>m (k, v). put k v m) dst src"

definition layers_check :: "string \<Rightarrow> ssh_route_v2 list \<Rightarrow> policy_error + unit" where
  "layers_check nm layers =
     each_ok (\<lambda>l. none_of (checkAnswers (''ssh '' @ nm) (Some (s2_Answers l)) @
       checkAnswers (''ssh '' @ nm @ '' ceiling'') (s2_Ceiling l))) layers"

definition ssh_chain :: "ssh_route_v2 list \<Rightarrow> document_v2 \<Rightarrow> chain" where
  "ssh_chain layers d =
     \<lparr>ch_answers = rev (map (\<lambda>l. Some (s2_Answers l)) layers) @ [Some (d2_Answers d)],
      ch_ceilings = map s2_Ceiling layers @ [d2_Ceiling d], ch_unmatched = builtinSSHUnmatched\<rparr>"

text \<open>One rule: the answer of \<open>exec\<close>, or its class's, held to the ceilings; an arg rule that would allow is none.\<close>

definition lower_exec ::
    "'p quoin \<Rightarrow> chain \<Rightarrow> string \<Rightarrow> (string \<times> operation) list \<Rightarrow> (string \<times> string) list \<Rightarrow> string \<Rightarrow>
     policy_error + exec_rule list" where
  "lower_exec Q c nm commands exec key =
     (let (command, arg) = q_RuleName Q key;
          op = map_of commands key;
          class = (case op of Some o' \<Rightarrow> op_Class o' | None \<Rightarrow> []);
          a = (case map_of exec key of Some a \<Rightarrow> a | None \<Rightarrow> [])
      in case checkAnswer (''ssh '' @ nm @ '' exec '' @ key) a of
           e # _ \<Rightarrow> Inl e
         | [] \<Rightarrow>
             let a = chain_clamp c (if a = [] then chain_answer c class else a) class in
             if arg \<noteq> [] \<and> a = ''allow'' then Inr []
             else Inr [\<lparr>er_Command = command, er_Arg = arg, er_Ask = a = ''ask'', er_Refuse = a = ''refuse'', er_Operation = op\<rparr>])"

definition exec_keys :: "(string \<times> string) list \<Rightarrow> (string \<times> operation) list \<Rightarrow> string list" where
  "exec_keys exec commands = sort (remdups (map fst exec @ map fst commands))"

definition every_command :: exec_rule where
  "every_command = \<lparr>er_Command = ''**'', er_Arg = [], er_Ask = False, er_Refuse = False, er_Operation = None\<rparr>"

definition lower_machine ::
    "'p quoin \<Rightarrow> document_v2 \<Rightarrow> ((string \<times> ssh_route_v2) \<times> 'p) list \<Rightarrow> string \<Rightarrow> ssh_route_v2 \<Rightarrow> policy_error + ssh_route" where
  "lower_machine Q d patterns nm own =
     (let layers = ssh_layers Q patterns nm own;
          env = foldl (\<lambda>m l. copy_map m (s2_Env l)) [] layers;
          exec = foldl (\<lambda>m l. copy_map m (s2_Exec l)) [] layers;
          c = ssh_chain layers d
      in ok_then (layers_check nm layers) (\<lambda>_.
         ok_then (all_ok (lower_exec Q c nm (s2_Commands own) exec) (exec_keys exec (s2_Commands own))) (\<lambda>rules.
         let rules = concat rules;
             unmatched = chain_clamp c (chain_answer c ''unmatched'') ''unmatched'';
             rules' = (if unmatched = ''allow'' \<and> \<not> list_ex (\<lambda>e. er_Command e = ''**'' \<and> er_Arg e = []) rules
               then rules @ [every_command] else rules)
         in Inr \<lparr>sr_Name = nm, sr_Address = s2_Address own, sr_User = s2_User own, sr_HostKeys = s2_HostKeys own,
              sr_Agent = s2_Agent own, sr_KeyFile = s2_KeyFile own, sr_PasswordFile = s2_PasswordFile own,
              sr_Identity = s2_Identity own, sr_Shell = s2_Shell own, sr_Exec = rules',
              sr_Env = filter (set_true env) (sortedKeys env),
              sr_Unmatched = (if unmatched = ''allow'' then ''refuse'' else unmatched),
              sr_Interactive = chain_clamp c (chain_answer c ''interactive'') ''interactive''\<rparr>)))"

fun lower_machines ::
    "'p quoin \<Rightarrow> document_v2 \<Rightarrow> ((string \<times> ssh_route_v2) \<times> 'p) list \<Rightarrow> (string \<times> ssh_route_v2) list \<Rightarrow>
     policy_error + ssh_route list" where
  "lower_machines Q d patterns [] = Inr []"
| "lower_machines Q d patterns ((nm, own) # rest) =
     (if (case q_Compile Q nm of Some p \<Rightarrow> \<not> q_Literal Q p | None \<Rightarrow> False) then lower_machines Q d patterns rest
      else ok_then (lower_machine Q d patterns nm own) (\<lambda>m.
        ok_then (lower_machines Q d patterns rest) (\<lambda>ms. Inr (m # ms))))"

definition lowerSSH :: "'p quoin \<Rightarrow> document_v2 \<Rightarrow> policy_error + ssh_route list" where
  "lowerSSH Q d =
     ok_then (ssh_patterns Q (in_order (d2_SSH d))) (\<lambda>patterns.
     lower_machines Q d (insertion_sort (wider_first Q) patterns) (in_order (d2_SSH d)))"

section \<open>A document\<close>

text \<open>Where a key of \<open>allow\<close> goes: among version 1's names, or among the patterns.\<close>

fun lower_allow ::
    "'p quoin \<Rightarrow> (string \<times> bool) list \<Rightarrow> string list \<Rightarrow> string list \<Rightarrow> policy_error + string list \<times> string list" where
  "lower_allow Q [] names pats = Inr (names, pats)"
| "lower_allow Q ((k, on) # rest) names pats =
     (if \<not> on then lower_allow Q rest names pats
      else case q_Compile Q k of
        None \<Rightarrow> Inl (BadHostPattern k)
      | Some p \<Rightarrow>
          if q_Literal Q p then lower_allow Q rest (names @ [k]) pats
          else (case q_Below Q p of
              Some below \<Rightarrow> lower_allow Q rest (names @ [if below = [] then ''*'' else ''*.'' @ below]) pats
            | None \<Rightarrow> lower_allow Q rest names (pats @ [k])))"

fun lower_lan ::
    "'p quoin \<Rightarrow> (string \<times> int list) list \<Rightarrow> (string \<times> int list) list \<Rightarrow> (string \<times> int list) list \<Rightarrow>
     policy_error + (string \<times> int list) list \<times> (string \<times> int list) list" where
  "lower_lan Q [] names pats = Inr (names, pats)"
| "lower_lan Q ((k, ports) # rest) names pats =
     (case q_Compile Q k of
        None \<Rightarrow> Inl (BadHostPattern k)
      | Some p \<Rightarrow>
          if q_Literal Q p then lower_lan Q rest (names @ [(k, ports)]) pats
          else lower_lan Q rest names (put k ports pats))"

fun lower_routes ::
    "'p quoin \<Rightarrow> document_v2 \<Rightarrow> (string \<times> route_v2) list \<Rightarrow>
     policy_error + (doc_route list \<times> (string \<times> scope_v2) list \<times> string list)" where
  "lower_routes Q d [] = Inr ([], [], [])"
| "lower_routes Q d ((nm, r) # rest) =
     (case lowerRoute Q nm r d of
        Inl e \<Rightarrow> Inl (InRoute nm e)
      | Inr (out, sv) \<Rightarrow>
          ok_then (lower_routes Q d rest) (\<lambda>(outs, svs, alw).
          Inr (out # outs, (nm, sv) # svs, (if r2_Always r then [nm] else []) @ alw)))"

definition Lower :: "'p quoin \<Rightarrow> document_v2 \<Rightarrow> policy_error + lowered" where
  "Lower Q d =
     (if d2_Version d \<noteq> 2 then Inl NotVersion2
      else
        ok_then (none_of (checkAnswers ''document'' (Some (d2_Answers d)) @ checkAnswers ''document ceiling'' (d2_Ceiling d))) (\<lambda>_.
        ok_then (lower_allow Q (in_order (d2_Allow d)) [] []) (\<lambda>(names, allow_pats).
        ok_then (lower_lan Q (in_order (d2_LAN d)) [] []) (\<lambda>(lan, lan_pats).
        ok_then (lower_routes Q d (in_order (d2_Routes d))) (\<lambda>(routes, scopes, alw).
        let ssh_always = map fst (filter (\<lambda>(nm, m).
            (case q_Compile Q nm of Some p \<Rightarrow> q_Literal Q p | None \<Rightarrow> False) \<and> s2_Always m) (d2_SSH d))
        in ok_then (lowerSSH Q d) (\<lambda>ssh.
        Inr \<lparr>l_Name = d2_Name d, l_Allow = names, l_Routes = routes, l_SSH = ssh, l_LAN = lan, l_Record = d2_Record d,
          l_AllowPatterns = allow_pats, l_LANPatterns = lan_pats, l_Scopes = scopes, l_Always = alw,
          l_SSHAlways = ssh_always\<rparr>))))))"

end
