(* ===== verification/Policy_Ceiling.thy ===== *)
theory Policy_Ceiling
  imports Store_Scope Policy_Document
begin

text \<open>
  What a ceiling holds: from a version 2 document lowered (\<open>policy/lower.go\<close>), through the scope its route is
  given (\<open>internal/store/store.go\<close>) and compiled, to the decision on a request (\<open>internal/intercept/scope.go\<close>).
\<close>

section \<open>What is lowered\<close>

text \<open>Whether the ceilings of the route and the document let a class be allowed.\<close>

definition ceiling_allows :: "route_v2 \<Rightarrow> document_v2 \<Rightarrow> string \<Rightarrow> bool" where
  "ceiling_allows r d class \<longleftrightarrow>
     class = ''read'' \<or>
     answer_of (r2_Ceiling r) (class_key class) \<in> {[], ''allow''} \<and>
     answer_of (d2_Ceiling d) (class_key class) \<in> {[], ''allow''}"

lemma as_strict_allow: "as_strict l ''allow'' \<longleftrightarrow> l \<in> {[], ''allow''}"
  by (auto simp: as_strict_def answer_strictness_def)

lemma chain_clamp_allow:
  assumes "chain_clamp (route_chain r d) a class = ''allow''"
  shows "ceiling_allows r d class"
proof (cases "class = ''read''")
  case False
  have "as_strict (answer_of l (class_key class)) ''allow''" if "l \<in> set (ch_ceilings (route_chain r d))" for l
    using chain_clamp_strict [OF that False, of a] assms by simp
  then show ?thesis unfolding as_strict_allow by (simp add: ceiling_allows_def route_chain_def)
qed (simp add: ceiling_allows_def)

lemma chain_ceiling_allow:
  assumes "chain_ceiling (route_chain r d) class \<in> {[], ''allow''}"
  shows "ceiling_allows r d class"
proof (cases "class = ''read''")
  case False
  have "answer_of l (class_key class) \<in> {[], ''allow''}" if "l \<in> set (ch_ceilings (route_chain r d))" for l
    using chain_ceiling_strict [OF that False] assms by (auto simp: as_strict_def answer_strictness_def split: if_splits)
  then show ?thesis by (simp add: ceiling_allows_def route_chain_def)
qed (simp add: ceiling_allows_def)

lemma ceiling_allows_unmatched: "ceiling_allows r d ''unmatched'' \<longleftrightarrow> ceiling_allows r d []"
  by (simp add: ceiling_allows_def class_key_def)

lemma lower_path_held:
  assumes "lower_path r c key e = Inr a"
  shows "\<exists>op ans. Operation (ea_rule a) = Some op \<and> op_Class op \<in> {[], ''read'', ''write'', ''guarded''} \<and>
    ea_Answer a = chain_clamp c ans (op_Class op) \<and> Docker (ea_rule a) = ep_Docker e"
proof -
  obtain ms path pre where "ParseEndpoint key = Inr (ms, path, pre)"
    using assms by (cases "ParseEndpoint key") (auto simp: lower_path_def)
  moreover obtain op where "ep_Operation e = Some op"
    using assms calculation by (cases "ep_Operation e") (auto simp: lower_path_def)
  ultimately show ?thesis using assms by (auto simp: lower_path_def Let_def split: if_splits)
qed

lemma lower_paths_each:
  "lower_paths r c keys kn = Inr (as, kn') \<Longrightarrow> a \<in> set as \<Longrightarrow> \<exists>key e. lower_path r c key e = Inr a"
proof (induction keys arbitrary: as kn)
  case (Cons key keys)
  obtain e where e: "map_of (r2_Paths r) key = Some e"
    using Cons.prems(1) by (cases "map_of (r2_Paths r) key") auto
  obtain b where b: "lower_path r c key e = Inr b"
    using Cons.prems(1) e by (cases "lower_path r c key e") auto
  let ?kn = "know (case Operation (ea_rule b) of None \<Rightarrow> [] | Some o' \<Rightarrow> op_ID o') (Operation (ea_rule b)) kn"
  from Cons.prems(1) e b obtain bs where bs: "lower_paths r c keys ?kn = Inr (bs, kn')" "as = b # bs"
    by (auto simp: ok_then_Inr Let_def)
  show ?case
  proof (cases "a = b")
    case False
    with Cons.prems(2) bs have "a \<in> set bs" by simp
    with Cons.IH [OF bs(1)] show ?thesis by blast
  qed (use b in blast)
qed simp

lemma lowerRoute_parts:
  assumes "lowerRoute Q nm r d = Inr (out, sv)"
  obtains kn where "lower_paths r (route_chain r d) (sortedKeys (r2_Paths r)) ({}, {}) = Inr (sv_Operations sv, kn)"
    and "\<exists>kn'. lower_graphqls r (route_chain r d) (in_order (r2_GraphQL r)) kn = Inr (rt_GraphQL out, kn')"
    and "rt_Git out = map_option (lower_git r (route_chain r d)) (r2_Git r)"
    and "sv_Ceilings sv = scope_ceilings (route_chain r d)" "sv_Unmatched sv = route_unmatched r (route_chain r d)"
  using assms by (auto simp: lowerRoute_def ok_then_Inr Let_def split: if_splits)

section \<open>What the scope is given\<close>

lemma route_paths_parts:
  assumes "route_paths out (Some sv) = Inr s"
  obtains es cs ps um where "read_unmatched (sv_Unmatched sv) = Inr um"
    "all_ok scope_endpoint (sv_Operations sv) = Inr es" "all_ok scope_ceiling (sv_Ceilings sv) = Inr cs"
    "all_ok pathRule (rt_Paths out) = Inr ps"
    "s = empty_scope\<lparr>sc_V2 := True, sc_Unmatched := um, sc_Operations := es, sc_Paths := ps,
      sc_Ceiling := (if cs = [] then None else Some cs)\<rparr>"
proof -
  obtain s1 ps where s1: "scopeV2 empty_scope out sv = Inr s1" "all_ok pathRule (rt_Paths out) = Inr ps" "s = s1\<lparr>sc_Paths := ps\<rparr>"
    using assms by (auto simp: route_paths_def ok_then_Inr)
  then show thesis by (auto simp: scopeV2_def ok_then_Inr empty_scope_def split: if_splits intro!: that)
qed

lemma dockerRoute_scope: "dockerRoute R r out = Inr s \<Longrightarrow> st_Scope s = st_Scope out \<and> st_Docker s \<noteq> None"
  by (auto simp: dockerRoute_def ok_then_Inr split: if_splits option.splits addr.splits)

lemma route_bodies_parts:
  assumes "route_bodies r s = Inr s'"
  obtains gs g where "all_ok graphqlScope (rt_GraphQL r) = Inr gs" "s' = s\<lparr>sc_GraphQL := gs, sc_Git := g\<rparr>"
    "case rt_Git r of None \<Rightarrow> g = None | Some x \<Rightarrow> \<exists>y. gitScope x = Inr y \<and> g = Some y"
  using assms by (auto simp: route_bodies_def ok_then_Inr split: option.splits intro!: that)

lemma assemble_route_scope:
  assumes "assemble_route R chk out (Some sv) = Inr s"
  obtains es cs ps um where "read_unmatched (sv_Unmatched sv) = Inr um"
    "all_ok scope_endpoint (sv_Operations sv) = Inr es" "all_ok scope_ceiling (sv_Ceilings sv) = Inr cs"
    "all_ok pathRule (rt_Paths out) = Inr ps"
    "sc_V2 (st_Scope s)" "sc_Unmatched (st_Scope s) = um" "sc_Operations (st_Scope s) = es" "sc_Paths (st_Scope s) = ps"
    "sc_Ceiling (st_Scope s) = (if cs = [] then None else Some cs)" "sc_GitHubAPI (st_Scope s) = None"
    "st_Docker s = None \<longrightarrow> all_ok graphqlScope (rt_GraphQL out) = Inr (sc_GraphQL (st_Scope s)) \<and>
       (case rt_Git out of None \<Rightarrow> sc_Git (st_Scope s) = None | Some g \<Rightarrow> \<exists>x. gitScope g = Inr x \<and> sc_Git (st_Scope s) = Some x)"
    "st_Docker s \<noteq> None \<longrightarrow> sc_GraphQL (st_Scope s) = [] \<and> sc_Git (st_Scope s) = None"
proof -
  obtain s0 where s0: "route_paths out (Some sv) = Inr s0" using assms by (auto simp: assemble_route_def ok_then_Inr)
  obtain es cs ps um where p: "read_unmatched (sv_Unmatched sv) = Inr um"
    "all_ok scope_endpoint (sv_Operations sv) = Inr es" "all_ok scope_ceiling (sv_Ceilings sv) = Inr cs"
    "all_ok pathRule (rt_Paths out) = Inr ps"
    and e: "s0 = empty_scope\<lparr>sc_V2 := True, sc_Unmatched := um, sc_Operations := es, sc_Paths := ps,
      sc_Ceiling := (if cs = [] then None else Some cs)\<rparr>"
    using route_paths_parts [OF s0] .
  show thesis
  proof (cases "rt_Docker out \<noteq> None \<or> prefix ''unix:'' (rt_Upstream out)")
    case True
    with assms s0 have "st_Scope s = s0 \<and> st_Docker s \<noteq> None"
      by (auto simp: assemble_route_def Let_def dest!: dockerRoute_scope)
    with p e show thesis by (intro that [of um es cs ps]) (auto simp: empty_scope_def)
  next
    case False
    with assms s0 obtain s1 where s1: "route_bodies out s0 = Inr s1" "st_Scope s = s1" "st_Docker s = None"
      by (auto simp: assemble_route_def Let_def ok_then_Inr split: if_splits)
    obtain gs g where "all_ok graphqlScope (rt_GraphQL out) = Inr gs" "s1 = s0\<lparr>sc_GraphQL := gs, sc_Git := g\<rparr>"
      "case rt_Git out of None \<Rightarrow> g = None | Some x \<Rightarrow> \<exists>y. gitScope x = Inr y \<and> g = Some y"
      using route_bodies_parts [OF s1(1)] .
    with p e s1(2,3) show thesis by (intro that [of um es cs ps]) (auto simp: empty_scope_def split: option.splits)
  qed
qed

section \<open>What is decided\<close>

lemma outcomes_Admit: "map_of outcomes a = Some Admit \<longleftrightarrow> a = ''allow''"
  by (auto simp: outcomes_def)

lemma scope_endpoint_inv:
  "scope_endpoint e = Inr x \<Longrightarrow>
   Operation (e_rule x) = Operation (ea_rule e) \<and> map_of outcomes (ea_Answer e) = Some (e_Outcome x)"
  by (auto simp: scope_endpoint_def pathRule_def copy_operation_def ok_then_Inr split: option.splits if_splits)

lemma compile_endpoint_inv:
  "compile_endpoint U e = Inr p \<Longrightarrow> outcome p = e_Outcome e \<and> operation p = Operation (e_rule e)"
  by (auto simp: compile_endpoint_def ok_then_Inr Let_def compilePath_wf(2) split: if_splits option.splits)

lemma compileScope_parts:
  assumes "compileScope U s = Inr c"
  shows "all_ok (compile_endpoint U) (sc_Operations s) = Inr (cs_ops c)"
    and "ceiling c = (case sc_Ceiling s of None \<Rightarrow> [] | Some m \<Rightarrow> m)" "cs_unmatched c = sc_Unmatched s"
    and "v2 c = sc_V2 s" "git c = sc_Git s" "compile_graphqls U [] (sc_GraphQL s) = Inr (graphql c)"
    and "sc_GitHubAPI s = None \<longrightarrow> api c = None"
  using assms unfolding compileScope_def if_Inl_Inr ok_then_Inr sum.inject by (auto simp: compile_api_def)

lemma scope_ceilings_each:
  "all_ok scope_ceiling xs = Inr cs \<Longrightarrow> map_of cs k = (case map_of xs k of None \<Rightarrow> None | Some a \<Rightarrow> map_of outcomes a)"
  by (induction xs arbitrary: cs) (auto simp: ok_then_Inr scope_ceiling_def split: option.splits)

lemma scope_ceilings_of:
  assumes "class \<in> {[], ''write'', ''guarded''}"
  shows "map_of (scope_ceilings c) class = (if chain_ceiling c class = [] then None else Some (chain_ceiling c class))"
  using assms by (auto simp: scope_ceilings_def chain_ceiling_def class_key_def)

text \<open>The scope that a document's route of a name comes to, step by step.\<close>

definition comes_to ::
    "'p quoin \<Rightarrow> reader \<Rightarrow> unicode \<Rightarrow> bool \<Rightarrow> document_v2 \<Rightarrow> string \<Rightarrow> compiled \<Rightarrow> bool" where
  "comes_to Q R U chk d nm c \<longleftrightarrow>
     distinct (map fst (d2_Routes d)) \<and>
     (case Lower Q d of
        Inl _ \<Rightarrow> False
      | Inr l \<Rightarrow>
          (case find (\<lambda>r. rt_Name r = nm) (l_Routes l) of
             None \<Rightarrow> False
           | Some out \<Rightarrow>
               (case built_route R chk l out of
                  Inl _ \<Rightarrow> False
                | Inr s \<Rightarrow> compileScope U (st_Scope s) = Inr c)))"

lemma lowerRoute_named: "lowerRoute Q nm r d = Inr (out, sv) \<Longrightarrow> rt_Name out = nm"
  by (auto simp: lowerRoute_def ok_then_Inr Let_def split: if_splits)

lemma lower_routes_find:
  "lower_routes Q d rs = Inr (outs, svs, alw) \<Longrightarrow> find (\<lambda>r. rt_Name r = nm) outs = Some out \<Longrightarrow>
   \<exists>r sv. (nm, r) \<in> set rs \<and> lowerRoute Q nm r d = Inr (out, sv) \<and> map_of svs nm = Some sv"
proof (induction rs arbitrary: outs svs alw)
  case (Cons x rs)
  obtain k r where x: "x = (k, r)" by (cases x)
  obtain o1 sv1 where one: "lowerRoute Q k r d = Inr (o1, sv1)"
    using Cons.prems(1) x by (cases "lowerRoute Q k r d") auto
  with Cons.prems(1) x obtain os ss as where rest: "lower_routes Q d rs = Inr (os, ss, as)" "outs = o1 # os" "svs = (k, sv1) # ss"
    by (auto simp: ok_then_Inr)
  show ?case
  proof (cases "k = nm")
    case True
    with Cons.prems(2) rest lowerRoute_named [OF one] have "out = o1" by simp
    with True one x rest(3) show ?thesis by auto
  next
    case False
    with Cons.prems(2) rest lowerRoute_named [OF one] have "find (\<lambda>r. rt_Name r = nm) os = Some out" by simp
    from Cons.IH [OF rest(1) this] False x rest(3) show ?thesis by auto
  qed
qed simp

lemma Lower_parts:
  assumes "Lower Q d = Inr l"
  obtains alw where "checkAnswers ''document'' (Some (d2_Answers d)) = []" "checkAnswers ''document ceiling'' (d2_Ceiling d) = []"
    "lower_routes Q d (in_order (d2_Routes d)) = Inr (l_Routes l, l_Scopes l, alw)"
proof -
  from assms have checks: "checkAnswers ''document'' (Some (d2_Answers d)) @ checkAnswers ''document ceiling'' (d2_Ceiling d) = []"
    by (auto simp: Lower_def ok_then_Inr Let_def split: if_splits)
  moreover have "\<exists>alw. lower_routes Q d (in_order (d2_Routes d)) = Inr (l_Routes l, l_Scopes l, alw)"
    using assms unfolding Lower_def ok_then_Inr if_Inl_Inr by (auto simp: ok_then_Inr Let_def)
  ultimately show thesis using that by auto
qed

lemma comes_to_parts:
  assumes "comes_to Q R U chk d nm c"
  obtains r out sv s where "map_of (d2_Routes d) nm = Some r" "lowerRoute Q nm r d = Inr (out, sv)"
    "assemble_route R chk out (Some sv) = Inr s" "compileScope U (st_Scope s) = Inr c"
    "checkAnswers ''document'' (Some (d2_Answers d)) = []" "checkAnswers ''document ceiling'' (d2_Ceiling d) = []"
proof -
  obtain l where l: "Lower Q d = Inr l" using assms by (cases "Lower Q d") (auto simp: comes_to_def)
  obtain out where out: "find (\<lambda>r. rt_Name r = nm) (l_Routes l) = Some out"
    using assms l by (cases "find (\<lambda>r. rt_Name r = nm) (l_Routes l)") (auto simp: comes_to_def)
  obtain s where s: "built_route R chk l out = Inr s"
    using assms l out by (cases "built_route R chk l out") (auto simp: comes_to_def)
  from Lower_parts [OF l] obtain alw where doc: "checkAnswers ''document'' (Some (d2_Answers d)) = []"
      "checkAnswers ''document ceiling'' (d2_Ceiling d) = []"
    and rs: "lower_routes Q d (in_order (d2_Routes d)) = Inr (l_Routes l, l_Scopes l, alw)" by metis
  obtain r sv where r: "(nm, r) \<in> set (in_order (d2_Routes d))" "lowerRoute Q nm r d = Inr (out, sv)" "map_of (l_Scopes l) nm = Some sv"
    using lower_routes_find [OF rs out] by metis
  have "map_of (d2_Routes d) nm = Some r" using r(1) assms by (simp add: in_order_def comes_to_def)
  moreover have "assemble_route R chk out (Some sv) = Inr s"
    using s r(3) lowerRoute_named [OF r(2)] by (simp add: built_route_def)
  moreover have "compileScope U (st_Scope s) = Inr c" using assms l out s by (simp add: comes_to_def)
  ultimately show thesis using that r(2) doc by blast
qed

lemma operation_held:
  assumes "comes_to Q R U chk d nm c" "map_of (d2_Routes d) nm = Some r" "p \<in> set (cs_ops c)"
  shows "class_of (Some p) \<in> {[], ''read'', ''write'', ''guarded''} \<and>
    (outcome p = Admit \<longrightarrow> ceiling_allows r d (class_of (Some p)))"
proof -
  obtain out sv s where l: "lowerRoute Q nm r d = Inr (out, sv)" and st: "assemble_route R chk out (Some sv) = Inr s"
    and cs: "compileScope U (st_Scope s) = Inr c" using comes_to_parts [OF assms(1)] assms(2) by (metis option.inject)
  obtain kn where ps: "lower_paths r (route_chain r d) (sortedKeys (r2_Paths r)) ({}, {}) = Inr (sv_Operations sv, kn)"
    using lowerRoute_parts [OF l] by metis
  obtain es where es: "all_ok scope_endpoint (sv_Operations sv) = Inr es" "sc_Operations (st_Scope s) = es"
    using assemble_route_scope [OF st] by metis
  obtain e where e: "e \<in> set es" "compile_endpoint U e = Inr p"
    using all_ok_Inr [OF compileScope_parts(1) [OF cs] assms(3)] es(2) by blast
  obtain a where a: "a \<in> set (sv_Operations sv)" "scope_endpoint a = Inr e"
    using all_ok_Inr [OF es(1) e(1)] by blast
  obtain key x where "lower_path r (route_chain r d) key x = Inr a" using lower_paths_each [OF ps a(1)] by blast
  from lower_path_held [OF this] obtain op ans where
    op: "Operation (ea_rule a) = Some op" "op_Class op \<in> {[], ''read'', ''write'', ''guarded''}"
      "ea_Answer a = chain_clamp (route_chain r d) ans (op_Class op)" by blast
  have "class_of (Some p) = op_Class op"
    using compile_endpoint_inv [OF e(2)] scope_endpoint_inv [OF a(2)] op(1) by (simp add: class_of_def)
  moreover have "outcome p = Admit \<longrightarrow> ea_Answer a = ''allow''"
    using compile_endpoint_inv [OF e(2)] scope_endpoint_inv [OF a(2)] outcomes_Admit by metis
  ultimately show ?thesis using op(2,3) chain_clamp_allow by metis
qed

lemma clamp_held:
  assumes "comes_to Q R U chk d nm c" "map_of (d2_Routes d) nm = Some r" "clamp c Admit class = Admit" "class \<in> {[], ''read'', ''write'', ''guarded''}"
  shows "ceiling_allows r d class"
proof (cases "class = ''read''")
  case False
  with assms(4) have k: "class \<in> {[], ''write'', ''guarded''}" by blast
  obtain out sv s where l: "lowerRoute Q nm r d = Inr (out, sv)" and st: "assemble_route R chk out (Some sv) = Inr s"
    and cs: "compileScope U (st_Scope s) = Inr c" using comes_to_parts [OF assms(1)] assms(2) by (metis option.inject)
  have sv: "sv_Ceilings sv = scope_ceilings (route_chain r d)" using lowerRoute_parts [OF l] by metis
  obtain ceils where ceils: "all_ok scope_ceiling (sv_Ceilings sv) = Inr ceils"
    "sc_Ceiling (st_Scope s) = (if ceils = [] then None else Some ceils)" using assemble_route_scope [OF st] by metis
  have "map_of (ceiling c) class = map_of ceils class" using compileScope_parts(2) [OF cs] ceils(2) by simp
  also have "\<dots> = (case map_of (scope_ceilings (route_chain r d)) class of None \<Rightarrow> None | Some a \<Rightarrow> map_of outcomes a)"
    using scope_ceilings_each [OF ceils(1)] sv by simp
  finally have "chain_ceiling (route_chain r d) class \<noteq> [] \<longrightarrow>
      map_of (ceiling c) class = map_of outcomes (chain_ceiling (route_chain r d) class)"
    using scope_ceilings_of [OF k] by simp
  moreover have "map_of outcomes (chain_ceiling (route_chain r d) class) \<noteq> None" if "chain_ceiling (route_chain r d) class \<noteq> []"
  proof -
    have "(class, chain_ceiling (route_chain r d) class) \<in> set (sv_Ceilings sv)"
      using scope_ceilings_of [OF k, of "route_chain r d"] that by (intro map_of_SomeD) (simp add: sv)
    from all_ok_all [OF ceils(1) this] show ?thesis by (auto simp: scope_ceiling_def split: option.splits)
  qed
  ultimately have "chain_ceiling (route_chain r d) class \<noteq> [] \<longrightarrow> map_of outcomes (chain_ceiling (route_chain r d) class) = Some Admit"
    using assms(3) unfolding clamp_def
    by (cases "map_of outcomes (chain_ceiling (route_chain r d) class)"; cases "the (map_of outcomes (chain_ceiling (route_chain r d) class))")
      (auto split: if_splits)
  then have "chain_ceiling (route_chain r d) class \<in> {[], ''allow''}" unfolding outcomes_Admit by blast
  then show ?thesis by (rule chain_ceiling_allow)
qed (simp add: ceiling_allows_def)

end
