(* ===== verification/Policy_Held.thy ===== *)
theory Policy_Held
  imports Policy_Ceiling
begin

text \<open>
  That what a ceiling of a version 2 document does not allow is admitted by no spelling of a request, no push and
  no field of a GraphQL document, whatever the layers under it answer.
\<close>

section \<open>Pushes and the unmatched\<close>

lemma unmatched_held:
  assumes "comes_to Q R U chk d nm c" "map_of (d2_Routes d) nm = Some r" "cs_unmatched c = UnmatchedAdmit"
  shows "ceiling_allows r d []"
proof -
  obtain out sv s where l: "lowerRoute Q nm r d = Inr (out, sv)" and st: "assemble_route R chk out (Some sv) = Inr s"
    and cs: "compileScope U (st_Scope s) = Inr c" using comes_to_parts [OF assms(1)] assms(2) by (metis option.inject)
  have "sv_Unmatched sv = route_unmatched r (route_chain r d)" using lowerRoute_parts [OF l] by metis
  moreover have "read_unmatched (sv_Unmatched sv) = Inr UnmatchedAdmit"
    using assemble_route_scope [OF st] compileScope_parts(3) [OF cs] assms(3) by metis
  then have "sv_Unmatched sv = ''allow''" by (auto simp: read_unmatched_def split: if_splits)
  ultimately have "\<exists>a. chain_clamp (route_chain r d) a ''unmatched'' = ''allow''"
    by (auto simp: route_unmatched_def Let_def split: if_splits)
  then show ?thesis using chain_clamp_allow ceiling_allows_unmatched by metis
qed

lemma no_api:
  assumes "comes_to Q R U chk d nm c"
  shows "v2 c \<and> api c = None"
proof -
  obtain r out sv s where st: "assemble_route R chk out (Some sv) = Inr s" and cs: "compileScope U (st_Scope s) = Inr c"
    using comes_to_parts [OF assms(1)] by metis
  have "sc_V2 (st_Scope s)" "sc_GitHubAPI (st_Scope s) = None" using assemble_route_scope [OF st] by metis+
  then show ?thesis using compileScope_parts(4,7) [OF cs] by simp
qed

lemma push_held:
  assumes "comes_to Q R U chk d nm c" "map_of (d2_Routes d) nm = Some r" "git c = Some g" "Push g = Admit"
  shows "ceiling_allows r d ''write''"
proof -
  obtain out sv s where l: "lowerRoute Q nm r d = Inr (out, sv)" and st: "assemble_route R chk out (Some sv) = Inr s"
    and cs: "compileScope U (st_Scope s) = Inr c" using comes_to_parts [OF assms(1)] assms(2) by (metis option.inject)
  have git: "rt_Git out = map_option (lower_git r (route_chain r d)) (r2_Git r)" using lowerRoute_parts [OF l] by metis
  have "sc_Git (st_Scope s) = Some g" using compileScope_parts(5) [OF cs] assms(3) by simp
  moreover have "st_Docker s \<noteq> None \<longrightarrow> sc_Git (st_Scope s) = None" by (rule assemble_route_scope [OF st]) blast
  moreover have "st_Docker s = None \<longrightarrow>
      (case rt_Git out of None \<Rightarrow> sc_Git (st_Scope s) = None | Some g \<Rightarrow> \<exists>x. gitScope g = Inr x \<and> sc_Git (st_Scope s) = Some x)"
    by (rule assemble_route_scope [OF st]) blast
  ultimately have "case rt_Git out of None \<Rightarrow> False | Some h \<Rightarrow> gitScope h = Inr g"
    by (cases "st_Docker s"; cases "rt_Git out") simp_all
  then obtain repos where h: "gitScope (lower_git r (route_chain r d) repos) = Inr g"
    using git by (cases "r2_Git r") auto
  then have "gr_Push (lower_git r (route_chain r d) repos) = ''allow''"
    using assms(4) by (auto simp: gitScope_def ok_then_Inr split: if_splits)
  then show ?thesis using chain_clamp_allow by (auto simp: lower_git_def Let_def)
qed

lemma pushed:
  "git_decide g ''POST'' ss q = Some v \<Longrightarrow> v_outcome v = Admit \<Longrightarrow> drop 2 ss = [''git-receive-pack''] \<Longrightarrow> Push g = Admit"
  by (cases "Push g") (auto simp: git_decide_def Let_def split: if_splits)

section \<open>GraphQL\<close>

definition valid_chain :: "chain \<Rightarrow> bool" where
  "valid_chain c \<longleftrightarrow> is_answer (ch_unmatched c) \<and>
     (\<forall>a\<in>set (ch_answers c) \<union> set (ch_ceilings c). \<forall>k. answer_of a k = [] \<or> is_answer (answer_of a k))"

lemma chain_answer_valid: "valid_chain c \<Longrightarrow> is_answer (chain_answer c class)"
proof (cases "find (\<lambda>s. s \<noteq> []) (map (\<lambda>a. answer_of a (class_key class)) (ch_answers c))")
  case None
  assume "valid_chain c"
  then show ?thesis
    using None by (auto simp: chain_answer_def Let_def valid_chain_def is_answer_def builtinWrites_def builtinGuarded_def builtinInteractive_def)
next
  case (Some s)
  assume c: "valid_chain c"
  from Some have "s \<in> set (map (\<lambda>a. answer_of a (class_key class)) (ch_answers c))" "s \<noteq> []"
    by (auto simp: find_Some_iff)
  with c have "is_answer s" by (auto simp: valid_chain_def)
  with Some show ?thesis by (auto simp: chain_answer_def Let_def is_answer_def)
qed

lemma chain_clamp_valid:
  assumes "valid_chain c" "is_answer a"
  shows "is_answer (chain_clamp c a class)"
proof -
  have "chain_ceiling c class = [] \<or> is_answer (chain_ceiling c class)"
  proof (cases "class = ''read''")
    case False
    then have "chain_ceiling c class \<in> insert [] ((\<lambda>a. answer_of a (class_key class)) ` set (ch_ceilings c))"
      using foldl_in [of "\<lambda>a. answer_of a (class_key class)" "[]" "ch_ceilings c"] by (simp add: chain_ceiling_def)
    with assms(1) show ?thesis unfolding valid_chain_def by (metis (no_types, lifting) UnI2 imageE insertE)
  qed (simp add: chain_ceiling_def)
  with assms(2) show ?thesis by (auto simp: chain_clamp_def stricter_answer_def is_answer_def)
qed

lemma route_chain_valid:
  assumes "checkAnswers w1 (Some (r2_Answers r)) = []" "checkAnswers w2 (r2_Ceiling r) = []"
    and "checkAnswers w3 (Some (d2_Answers d)) = []" "checkAnswers w4 (d2_Ceiling d) = []"
  shows "valid_chain (route_chain r d)"
  using checkAnswers_ok [OF assms(1)] checkAnswers_ok [OF assms(2)] checkAnswers_ok [OF assms(3)] checkAnswers_ok [OF assms(4)]
  by (auto simp: valid_chain_def route_chain_def is_answer_def builtinUnmatched_def)

lemma operations_valid:
  assumes "check_operations m = Inr u" "map_of m k = Some a"
  shows "is_answer a"
proof -
  from each_ok_all [OF assms(1) [unfolded check_operations_def] map_of_SomeD [OF assms(2)]]
  have "checkAnswer (''operations '' @ k) a = []" "a \<noteq> []"
    by (auto simp: ok_then_Inr split: list.splits if_splits)
  then show ?thesis by (auto simp: checkAnswer_def is_answer_def split: if_splits)
qed

lemma byName_valid: "check_operations (r2_Operations r) = Inr u \<Longrightarrow> byName r op nm = Some a \<Longrightarrow> is_answer a"
  by (auto simp: byName_def operations_valid split: option.splits if_splits)

text \<open>A field, or a query, that is neither asked about nor refused is of a class that may be allowed.\<close>

definition field_held :: "route_v2 \<Rightarrow> document_v2 \<Rightarrow> graphql_field \<Rightarrow> bool" where
  "field_held r d f \<longleftrightarrow> gf_Ask f \<or> gf_Refuse f \<or> ceiling_allows r d (op_class (gf_Operation f))"

lemma lower_field_held:
  assumes "valid_chain (route_chain r d)" "check_operations (r2_Operations r) = Inr u" "is_answer um"
  shows "field_held r d (fst (lower_field r (route_chain r d) um nm op kn))"
proof -
  define n where "n = (case op of Some o' \<Rightarrow> if op_ID o' \<noteq> [] then op_ID o' else nm | None \<Rightarrow> nm)"
  define a where "a = (case byName r op n of Some a \<Rightarrow> a
      | None \<Rightarrow> if op_class op = [] then um else chain_answer (route_chain r d) (op_class op))"
  define h where "h = chain_clamp (route_chain r d) a (op_class op)"
  have "is_answer a"
    using byName_valid [OF assms(2)] chain_answer_valid [OF assms(1)] assms(3) by (auto simp: a_def split: option.split)
  then have "is_answer h" unfolding h_def by (rule chain_clamp_valid [OF assms(1)])
  then have "h = ''ask'' \<or> h = ''refuse'' \<or> ceiling_allows r d (op_class op)"
    using chain_clamp_allow unfolding is_answer_def h_def by blast
  moreover have "fst (lower_field r (route_chain r d) um nm op kn) =
      \<lparr>gf_Field = [], gf_Ask = h = ''ask'', gf_Refuse = h = ''refuse'', gf_Operation = op\<rparr>"
    by (simp add: lower_field_def Let_def h_def a_def n_def)
  ultimately show ?thesis by (auto simp: field_held_def)
qed

lemma lower_fields_held:
  assumes "valid_chain (route_chain r d)" "check_operations (r2_Operations r) = Inr u" "is_answer um"
  shows "f \<in> set (fst (lower_fields r (route_chain r d) um m fs kn)) \<Longrightarrow> field_held r d f"
proof (induction fs arbitrary: kn)
  case (Cons x fs)
  let ?op = "case map_of m x of Some op \<Rightarrow> op | None \<Rightarrow> None"
  have "field_held r d (fst (lower_field r (route_chain r d) um x ?op kn))" by (rule lower_field_held [OF assms])
  with Cons show ?case
    by (auto simp: Let_def field_held_def split: prod.splits) (metis fst_conv)+
qed simp

definition doc_held :: "route_v2 \<Rightarrow> document_v2 \<Rightarrow> graphql_doc \<Rightarrow> bool" where
  "doc_held r d g \<longleftrightarrow>
     list_all (field_held r d) (gd_Mutations g @ gd_Subscriptions g) \<and>
     (case gd_Query g of None \<Rightarrow> True | Some q \<Rightarrow> field_held r d q) \<and>
     (gd_Unmatched g \<in> {''ask'', ''refuse''} \<or> gd_Unmatched g = ''allow'' \<and> ceiling_allows r d [])"

lemma lower_graphql_held:
  assumes "valid_chain (route_chain r d)" "check_operations (r2_Operations r) = Inr u"
    and "lower_graphql r (route_chain r d) path g kn = Inr (gd, kn')"
  shows "doc_held r d gd"
proof -
  let ?c = "route_chain r d"
  define um where "um = (if g2_Unmatched g = [] then chain_answer ?c ''unmatched'' else g2_Unmatched g)"
  have g: "checkAnswer (''graphql '' @ path @ '' unmatched'') (g2_Unmatched g) = []"
    using assms(3) by (cases "checkAnswer (''graphql '' @ path @ '' unmatched'') (g2_Unmatched g)") (simp_all only: lower_graphql_def list.case sum.distinct)
  then have um: "is_answer um"
    using chain_answer_valid [OF assms(1)] by (auto simp: um_def is_answer_def checkAnswer_def split: if_splits)
  obtain q kn1 where q: "(case g2_Query g of None \<Rightarrow> (None, kn)
      | Some op \<Rightarrow> let (q, kn) = lower_field r ?c um ''query'' op kn in (Some q, kn)) = (q, kn1)" by (meson surj_pair)
  obtain ms kn2 where ms: "lower_fields r ?c um (g2_Mutations g) (sortedKeys (g2_Mutations g)) kn1 = (ms, kn2)" by (meson surj_pair)
  obtain ss kn3 where ss: "lower_fields r ?c um (g2_Subscriptions g) (sortedKeys (g2_Subscriptions g)) kn2 = (ss, kn3)"
    by (meson surj_pair)
  have gd: "gd = \<lparr>gd_Path = path, gd_Query = q, gd_Mutations = ms, gd_Subscriptions = ss,
      gd_Unmatched = chain_clamp ?c um ''unmatched''\<rparr>"
  proof -
    have "Inr (gd, kn') = lower_graphql r ?c path g kn" by (rule assms(3) [symmetric])
    also have "\<dots> = Inr (\<lparr>gd_Path = path, gd_Query = q, gd_Mutations = ms, gd_Subscriptions = ss,
        gd_Unmatched = chain_clamp ?c um ''unmatched''\<rparr>, kn3)"
      unfolding lower_graphql_def g list.case Let_def um_def [symmetric] q [unfolded Let_def] prod.case ms ss by (rule refl)
    finally show ?thesis by (simp only: sum.inject prod.inject)
  qed
  have "list_all (field_held r d) (ms @ ss)"
    using lower_fields_held [OF assms(1,2) um, of _ "g2_Mutations g" "sortedKeys (g2_Mutations g)" kn1]
      lower_fields_held [OF assms(1,2) um, of _ "g2_Subscriptions g" "sortedKeys (g2_Subscriptions g)" kn2]
    by (auto simp: ms ss list_all_iff)
  moreover have "case q of None \<Rightarrow> True | Some q \<Rightarrow> field_held r d q"
  proof (cases "g2_Query g")
    case None
    with q show ?thesis by simp
  next
    case (Some op)
    with q have "q = Some (fst (lower_field r ?c um ''query'' op kn))"
      by (cases "lower_field r ?c um ''query'' op kn") simp
    then show ?thesis using lower_field_held [OF assms(1,2) um] by simp
  qed
  moreover have "chain_clamp ?c um ''unmatched'' = ''allow'' \<longrightarrow> ceiling_allows r d []"
    using chain_clamp_allow ceiling_allows_unmatched by metis
  ultimately show ?thesis
    using chain_clamp_valid [OF assms(1) um, of "''unmatched''"] by (auto simp: doc_held_def gd is_answer_def)
qed

lemma lower_graphqls_held:
  assumes "valid_chain (route_chain r d)" "check_operations (r2_Operations r) = Inr u"
  shows "lower_graphqls r (route_chain r d) gs kn = Inr (ds, kn') \<Longrightarrow> list_all (doc_held r d) ds"
proof (induction gs arbitrary: ds kn)
  case (Cons x gs)
  obtain path g where x: "x = (path, g)" by (cases x)
  obtain d1 kn1 where d1: "lower_graphql r (route_chain r d) path g kn = Inr (d1, kn1)"
    using Cons.prems x by (cases "lower_graphql r (route_chain r d) path g kn") auto
  with Cons.prems x obtain ds1 where "lower_graphqls r (route_chain r d) gs kn1 = Inr (ds1, kn')" "ds = d1 # ds1"
    by (auto simp: ok_then_Inr)
  with Cons.IH lower_graphql_held [OF assms d1] show ?case by simp
qed simp

text \<open>What interception is given of a GraphQL endpoint, and what it compiles.\<close>

definition rule_held :: "route_v2 \<Rightarrow> document_v2 \<Rightarrow> graphql_rule \<Rightarrow> bool" where
  "rule_held r d rule \<longleftrightarrow> gr_outcome rule \<noteq> Admit \<or> ceiling_allows r d (op_class (gr_operation rule))"

lemma scope_field_held: "scope_field path what f = Inr rule \<Longrightarrow> field_held r d f \<Longrightarrow> rule_held r d rule"
  by (auto simp: scope_field_def copy_operation_def ok_then_Inr field_held_def rule_held_def split: if_splits option.splits)

lemma set_put: "set (put k v m) \<subseteq> insert (k, v) (set m)"
  by (induction k v m rule: put.induct) auto

lemma scope_fields_held:
  "scope_fields path what out fs = Inr m \<Longrightarrow> list_all (field_held r d) fs \<Longrightarrow> \<forall>x\<in>set out. rule_held r d (snd x) \<Longrightarrow>
   x \<in> set m \<Longrightarrow> rule_held r d (snd x)"
proof (induction fs arbitrary: out)
  case (Cons f fs)
  obtain rule where rule: "scope_field path (what @ '' '' @ gf_Field f) f = Inr rule"
    and rest: "scope_fields path what (put (gf_Field f) rule out) fs = Inr m"
    using Cons.prems(1) by (auto simp: ok_then_Inr split: if_splits)
  have "\<forall>x\<in>set (put (gf_Field f) rule out). rule_held r d (snd x)"
    using set_put [of "gf_Field f" rule out] scope_field_held [OF rule] Cons.prems(2,3) by auto
  with Cons.IH [OF rest] Cons.prems(2,4) show ?case by simp
qed simp

definition endpoint_held :: "route_v2 \<Rightarrow> document_v2 \<Rightarrow> graphql_scope \<Rightarrow> bool" where
  "endpoint_held r d g \<longleftrightarrow>
     (\<forall>x\<in>set (gs_Mutations g @ gs_Subscriptions g). rule_held r d (snd x)) \<and>
     (case gs_Query g of None \<Rightarrow> True | Some q \<Rightarrow> rule_held r d q) \<and>
     (gs_Unmatched g = Admit \<longrightarrow> ceiling_allows r d [])"

lemma graphqlScope_held:
  assumes "graphqlScope g = Inr s" "doc_held r d g"
  shows "endpoint_held r d s"
proof -
  from assms(1) obtain um q ms ss where s: "s = \<lparr>gs_Path = gd_Path g, gs_Query = q, gs_Mutations = ms, gs_Subscriptions = ss, gs_Unmatched = um\<rparr>"
    and um: "um = Admit \<longrightarrow> gd_Unmatched g = ''allow''"
    and q: "case gd_Query g of None \<Rightarrow> q = None | Some f \<Rightarrow> \<exists>rule. scope_field (gd_Path g) ''query'' f = Inr rule \<and> q = Some rule"
    and ms: "scope_fields (gd_Path g) ''mutation'' [] (gd_Mutations g) = Inr ms"
    and ss: "scope_fields (gd_Path g) ''subscription'' [] (gd_Subscriptions g) = Inr ss"
    by (auto simp: graphqlScope_def Let_def ok_then_Inr split: if_splits option.splits)
  have "\<forall>x\<in>set (ms @ ss). rule_held r d (snd x)"
    using scope_fields_held [OF ms] scope_fields_held [OF ss] assms(2) by (auto simp: doc_held_def)
  moreover have "case q of None \<Rightarrow> True | Some q \<Rightarrow> rule_held r d q"
    using q assms(2) scope_field_held by (auto simp: doc_held_def split: option.splits)
  ultimately show ?thesis using um assms(2) by (auto simp: s endpoint_held_def doc_held_def)
qed

lemma compileGraphQL_parts:
  "compileGraphQL U g = Inr cg \<Longrightarrow>
   cg_query cg = gs_Query g \<and> cg_mutations cg = gs_Mutations g \<and> cg_subscriptions cg = gs_Subscriptions g \<and> cg_unmatched cg = gs_Unmatched g"
  by (auto simp: compileGraphQL_def split: sum.splits option.splits)

lemma compile_graphqls_each:
  "compile_graphqls U cgs gs = Inr out \<Longrightarrow> cg \<in> set out \<Longrightarrow> cg \<in> set cgs \<or> (\<exists>g\<in>set gs. compileGraphQL U g = Inr cg)"
  by (induction U cgs gs rule: compile_graphqls.induct) (fastforce simp: ok_then_Inr split: if_splits)+

lemma endpoint_reached:
  assumes "comes_to Q R U chk d nm c" "map_of (d2_Routes d) nm = Some r" "g \<in> set (graphql c)"
  obtains s where "compileGraphQL U s = Inr g" "endpoint_held r d s"
proof -
  obtain out sv s where l: "lowerRoute Q nm r d = Inr (out, sv)" and st: "assemble_route R chk out (Some sv) = Inr s"
    and cs: "compileScope U (st_Scope s) = Inr c"
    and doc: "checkAnswers ''document'' (Some (d2_Answers d)) = []" "checkAnswers ''document ceiling'' (d2_Ceiling d) = []"
    using comes_to_parts [OF assms(1)] assms(2) by (metis option.inject)
  from compile_graphqls_each [OF compileScope_parts(6) [OF cs] assms(3)] obtain e where
    e: "e \<in> set (sc_GraphQL (st_Scope s))" "compileGraphQL U e = Inr g" by auto
  have "st_Docker s \<noteq> None \<longrightarrow> sc_GraphQL (st_Scope s) = []" by (rule assemble_route_scope [OF st]) blast
  moreover have "st_Docker s = None \<longrightarrow> all_ok graphqlScope (rt_GraphQL out) = Inr (sc_GraphQL (st_Scope s))"
    by (rule assemble_route_scope [OF st]) blast
  ultimately have "all_ok graphqlScope (rt_GraphQL out) = Inr (sc_GraphQL (st_Scope s))" using e(1) by fastforce
  from all_ok_Inr [OF this e(1)] obtain gd where gd: "gd \<in> set (rt_GraphQL out)" "graphqlScope gd = Inr e" by blast
  obtain u kn kn' where ok: "checkAnswers ''route'' (Some (r2_Answers r)) = []" "checkAnswers ''route ceiling'' (r2_Ceiling r) = []"
      "check_operations (r2_Operations r) = Inr u"
    and gs: "lower_graphqls r (route_chain r d) (in_order (r2_GraphQL r)) kn = Inr (rt_GraphQL out, kn')"
    using l unfolding lowerRoute_def if_Inl_Inr ok_then_Inr none_of_Inr Let_def by (auto simp: ok_then_Inr)
  have "list_all (doc_held r d) (rt_GraphQL out)"
    by (rule lower_graphqls_held [OF route_chain_valid [OF ok(1,2) doc] ok(3) gs])
  with gd have "endpoint_held r d e" using graphqlScope_held by (auto simp: list_all_iff)
  with e(2) that show thesis by blast
qed

text \<open>The class of what answers a field: its rule's operation's, or an unmatched request's.\<close>

definition class_answering :: "compiled_graphql \<Rightarrow> string \<Rightarrow> string \<Rightarrow> string" where
  "class_answering g typ f =
     (if typ = ''query'' then (case cg_query g of Some rule \<Rightarrow> op_class (gr_operation rule) | None \<Rightarrow> [])
      else (case map_of (rules_of g typ) f of Some rule \<Rightarrow> op_class (gr_operation rule) | None \<Rightarrow> []))"

lemma answering_held:
  assumes "compileGraphQL U s = Inr g" "endpoint_held r d s"
    and "if typ = ''query'' then query_outcome g = Admit else held_outcome g typ f = Admit"
  shows "ceiling_allows r d (class_answering g typ f)"
proof -
  note parts = compileGraphQL_parts [OF assms(1)]
  have rules: "rule_held r d rule" if "map_of (rules_of g typ) f = Some rule" for rule
  proof -
    have "(f, rule) \<in> set (gs_Mutations s @ gs_Subscriptions s)"
      using map_of_SomeD [OF that] parts by (auto simp: rules_of_def split: if_splits)
    with assms(2) show ?thesis unfolding endpoint_held_def by force
  qed
  show ?thesis
    using assms(2,3) parts rules
    by (auto simp: class_answering_def endpoint_held_def query_outcome_def held_outcome_def rule_held_def split: if_splits option.splits)
qed

section \<open>An instance\<close>

definition demo_q :: "string quoin" where
  "demo_q =
     \<lparr>q_Compile = Some, q_Literal = (\<lambda>p. CHR ''*'' \<notin> set p), q_Below = (\<lambda>p. CutPrefix p ''**.''), q_Match = (=),
      q_Narrower = (\<lambda>_ _. False), q_RuleName = (\<lambda>k. (k, []))\<rparr>"

definition demo_reader :: reader where
  "demo_reader =
     \<lparr>rd_CAs = (\<lambda>_. True), rd_Key = (\<lambda>_. True), rd_Watch = (\<lambda>_ _. True), rd_Addr = (\<lambda>_. None),
      rd_Tokens = (\<lambda>_. []), rd_Fold = latin_fold\<rparr>"

definition no_answers :: answers where
  "no_answers = \<lparr>Writes = [], Guarded = [], An_Unmatched = [], Interactive = []\<rparr>"

definition demo_operation :: "string \<Rightarrow> string \<Rightarrow> operation" where
  "demo_operation nm class = \<lparr>op_ref = 1, op_ID = nm, op_Summary = ''-'', op_Class = class, op_Category = []\<rparr>"

definition demo_api :: route_v2 where
  "demo_api =
     \<lparr>r2_Host = ''api.test'', r2_Upstream = ''https://api.test'', r2_UpstreamCA = [], r2_CredentialFile = [],
      r2_CredentialJSON = None, r2_Header = [], r2_BasicUser = [], r2_Placeholder = [], r2_Refusal = None,
      r2_SessionKey = None, r2_Docker = None,
      r2_Paths = [(''POST /a'', \<lparr>ep_Operation = Some (demo_operation ''a'' ''write''), ep_Docker = None\<rparr>),
        (''POST /b'', \<lparr>ep_Operation = Some (demo_operation ''b'' ''guarded''), ep_Docker = None\<rparr>)],
      r2_EncodedSlashes = [], r2_Git = None,
      r2_GraphQL = [(''/graphql'', \<lparr>g2_Query = None, g2_Mutations = [(''a'', Some (demo_operation ''a'' ''write''))],
        g2_Subscriptions = [], g2_Unmatched = []\<rparr>)],
      r2_Operations = [(''a'', ''allow''), (''b'', ''allow'')], r2_Answers = no_answers,
      r2_Ceiling = Some (no_answers\<lparr>Writes := ''allow''\<rparr>), r2_Always = False\<rparr>"

definition demo_doc :: document_v2 where
  "demo_doc =
     \<lparr>d2_Version = 2, d2_Name = ''demo'', d2_Allow = [(''api.test'', True)], d2_LAN = [], d2_Routes = [(''api'', demo_api)],
      d2_SSH = [], d2_Record = None, d2_Answers = no_answers, d2_Ceiling = Some (no_answers\<lparr>Guarded := ''refuse''\<rparr>)\<rparr>"

definition demo_c :: compiled where
  "demo_c =
     (case Lower demo_q demo_doc of
        Inr l \<Rightarrow>
          (case built_route demo_reader True l (hd (l_Routes l)) of
             Inr s \<Rightarrow> (case compileScope ascii_unicode (st_Scope s) of Inr c \<Rightarrow> c)))"

declare ok_then_def [code_unfold]

text \<open>What is evaluated of it, all at once.\<close>

definition demo_decider :: "compiled_graphql \<Rightarrow> verdict" where
  "demo_decider g =
     fst (graphql_decide (\<lambda>_. Some ([Member ''query'' (Scope_GraphQL.JString ''mutation{a}'')], Closed))
       (\<lambda>t. Some (t, [])) (\<lambda>_. []) g example_post)"

lemma demo_facts:
  "case Some demo_c of None \<Rightarrow> False
   | Some c \<Rightarrow> comes_to demo_q demo_reader ascii_unicode True demo_doc ''api'' c \<and>
       v_outcome (decided ascii_unicode c ''POST'' ''/a'' []) = Admit \<and>
       v_outcome (decided ascii_unicode c ''POST'' ''/b'' []) = Refuse \<and> git c = None \<and> length (graphql c) = 1 \<and>
       v_outcome (demo_decider (hd (graphql c))) = Admit"
  by code_simp

lemmas demo_c_facts = demo_facts [unfolded option.case]

lemma demo_comes: "comes_to demo_q demo_reader ascii_unicode True demo_doc ''api'' demo_c"
  by (rule demo_c_facts [THEN conjunct1])

lemma demo_admits: "v_outcome (decided ascii_unicode demo_c ''POST'' ''/a'' []) = Admit"
  by (rule demo_c_facts [THEN conjunct2, THEN conjunct1])

lemma demo_holds: "v_outcome (decided ascii_unicode demo_c ''POST'' ''/b'' []) = Refuse"
  by (rule demo_c_facts [THEN conjunct2, THEN conjunct2, THEN conjunct1])

lemma demo_route_of: "map_of (d2_Routes demo_doc) ''api'' = Some demo_api"
  by (simp add: demo_doc_def)

section \<open>Properties\<close>

text \<open>
  C1: A request is admitted within the ceilings. Of a version 2 document's route, lowered, given to interception and
  compiled, whatever its layers answer: a request is admitted only where git's scope admits it, and a push only
  where the ceilings allow \<open>write\<close>; or where the operation it is as it was sent is of a class the document's ceiling
  and the route's own both allow, or set neither, and so is every operation another reading of it matches, but for
  those the rule that decided outranks.
\<close>

theorem ceiling_holds:
  assumes "comes_to Q R U chk d nm c" "map_of (d2_Routes d) nm = Some r"
    and "v_outcome (decided U c meth escaped q) = Admit"
  shows "\<exists>ss raw. splitPath escaped = Some ss \<and> raw = Split CHR ''/'' (tl escaped) \<and>
    ((\<exists>g v. git c = Some g \<and> git_decide g meth ss q = Some v \<and>
        (meth = ''POST'' \<and> drop 2 ss = [''git-receive-pack''] \<longrightarrow> ceiling_allows r d ''write'')) \<or>
     ceiling_allows r d (class_of (bestOf (cs_ops c) meth (length ss) (\<lambda>p. matches p ss raw))) \<and>
     (\<forall>p\<in>set (cs_ops c). reads_otherwise U c meth ss raw p \<and> \<not> held_off U ss (v2_sent c meth ss raw) p \<longrightarrow>
        ceiling_allows r d (class_of (Some p))))"
proof -
  obtain ss where ss: "splitPath escaped = Some ss"
    using assms(3) by (cases "splitPath escaped") (auto simp: decided_def)
  define raw where "raw = Split CHR ''/'' (tl escaped)"
  let ?git = "case git c of None \<Rightarrow> None | Some g \<Rightarrow> git_decide g meth ss q"
  let ?op = "bestOf (cs_ops c) meth (length ss) (\<lambda>p. matches p ss raw)"
  show ?thesis
  proof (cases ?git)
    case (Some v)
    then obtain g where g: "git c = Some g" "git_decide g meth ss q = Some v" by (auto split: option.splits)
    have "v_outcome v = Admit" using assms(3) Some by (simp add: decided_def ss)
    then have "meth = ''POST'' \<and> drop 2 ss = [''git-receive-pack''] \<longrightarrow> ceiling_allows r d ''write''"
      using pushed push_held [OF assms(1,2) g(1)] g(2) by blast
    with g ss show ?thesis by (auto simp: raw_def)
  next
    case None
    have a: "v_outcome (decideV2 U c meth ss raw) = Admit"
      using assms(3) None no_api [OF assms(1)] by (auto simp: decided_def ss Let_def raw_def split: option.splits)
    note adm = decideV2_Admit [OF a]
    have "ceiling_allows r d (class_of ?op)"
    proof (cases ?op)
      case None
      then have "class_of ?op = []" by (simp add: class_of_def)
      moreover have "clamp c Admit [] = Admit \<or> cs_unmatched c = UnmatchedAdmit"
        using adm None no_api [OF assms(1)] by (auto simp: class_of_def api_admits_def)
      ultimately show ?thesis using clamp_held [OF assms(1,2)] unmatched_held [OF assms(1,2)] by auto
    next
      case (Some p)
      then have p: "p \<in> set (cs_ops c)" using bestOf_Some by metis
      from adm Some have "outcome p = Admit \<or> clamp c Admit (class_of ?op) = Admit" by auto
      then show ?thesis using operation_held [OF assms(1,2) p] clamp_held [OF assms(1,2)] Some by metis
    qed
    moreover have "\<forall>p\<in>set (cs_ops c). reads_otherwise U c meth ss raw p \<and> \<not> held_off U ss (v2_sent c meth ss raw) p \<longrightarrow>
        ceiling_allows r d (class_of (Some p))"
      using adm operation_held [OF assms(1,2)] by blast
    ultimately show ?thesis using ss raw_def by blast
  qed
qed

theorem ceiling_holds_witness:
  "\<exists>ss. splitPath ''/a'' = Some ss \<and> ceiling_allows demo_api demo_doc
     (class_of (bestOf (cs_ops demo_c) ''POST'' (length ss) (\<lambda>p. matches p ss (Split CHR ''/'' ''a''))))"
proof -
  have "git demo_c = None" using demo_c_facts by blast
  then show ?thesis using ceiling_holds [OF demo_comes demo_route_of demo_admits] by auto
qed

text \<open>
  C3: a GraphQL request is held to the same ceilings. What an endpoint of a version 2 document's route admits is a
  document whose every query, and every field the root of a mutation or a subscription reaches, is of a class the
  ceilings of the document and the route allow, a field with no rule as unmatched.
\<close>

theorem graphql_ceiling:
  assumes "comes_to Q R U chk d nm c" "map_of (d2_Routes d) nm = Some r" "g \<in> set (graphql c)"
    and "v_outcome (fst (graphql_decide json media why g req)) = Admit"
  shows "\<exists>items s doc. json (sent_body req) = Some (items, Closed) \<and> Member ''query'' (Scope_GraphQL.JString s) \<in> set items \<and>
    parse_document s = Inr doc \<and>
    (\<forall>(o1, ss)\<in>set (ops doc). if Type o1 = ''query'' then ceiling_allows r d (class_answering g ''query'' [])
      else \<forall>f. root_field (fragments doc) ss f \<longrightarrow> ceiling_allows r d (class_answering g (Type o1) f))"
proof -
  obtain s where s: "compileGraphQL U s = Inr g" "endpoint_held r d s" using endpoint_reached [OF assms(1-3)] by metis
  from graphql_decide_Admit [OF assms(4)] obtain items t doc where
    body: "json (sent_body req) = Some (items, Closed)" "Member ''query'' (Scope_GraphQL.JString t) \<in> set items"
    and t: "parse_document t = Inr doc"
    "\<forall>(o1, ss)\<in>set (ops doc). if Type o1 = ''query'' then query_outcome g = Admit
        else \<forall>f. root_field (fragments doc) ss f \<longrightarrow> held_outcome g (Type o1) f = Admit" by blast
  from t(2) have "\<forall>(o1, ss)\<in>set (ops doc). if Type o1 = ''query'' then ceiling_allows r d (class_answering g ''query'' [])
      else \<forall>f. root_field (fragments doc) ss f \<longrightarrow> ceiling_allows r d (class_answering g (Type o1) f)"
    using answering_held [OF s] by (fastforce split: if_splits)
  with body t(1) show ?thesis by blast
qed

theorem graphql_ceiling_witness:
  "\<exists>g s doc. graphql demo_c = [g] \<and> s = ''mutation{a}'' \<and> parse_document s = Inr doc \<and>
     v_outcome (fst (graphql_decide (\<lambda>_. Some ([Member ''query'' (Scope_GraphQL.JString ''mutation{a}'')], Closed))
       (\<lambda>t. Some (t, [])) (\<lambda>_. []) g example_post)) = Admit"
proof -
  let ?j = "\<lambda>_::string. Some ([Member ''query'' (Scope_GraphQL.JString ''mutation{a}'')], Closed)"
  have a: "v_outcome (fst (graphql_decide ?j (\<lambda>t. Some (t, [])) (\<lambda>_. []) (hd (graphql demo_c)) example_post)) = Admit"
    using demo_c_facts unfolding demo_decider_def by blast
  have l: "length (graphql demo_c) = 1" using demo_c_facts by blast
  then have g: "graphql demo_c = [hd (graphql demo_c)]" by (cases "graphql demo_c") auto
  then have "hd (graphql demo_c) \<in> set (graphql demo_c)" by (metis list.set_intros(1))
  from graphql_ceiling [OF demo_comes demo_route_of this a] g a show ?thesis by auto
qed

end
