(* ===== verification/Policy_Layer.thy ===== *)
theory Policy_Layer
  imports Policy_Document "HOL-Library.List_Lexorder"
begin

text \<open>
  A project's layer of a document, \<open>policy/layer.go\<close> and the reading of a document in \<open>policy/v2.go\<close>: what a project
  may say, and what of the host's it cannot change.

  quoin's \<open>projpolicy\<close>, which reads, merges and writes JSON, is given, and so is \<open>encoding/json\<close>'s reading of a
  document into its types. \<open>reflect\<close>'s view of those types is \<open>document_shape\<close>, written out from the declarations;
  the shape of quoin's own \<open>Operation\<close> is given.
\<close>

section \<open>The shape of a document\<close>

datatype shape = Leaf | Struct "(string \<times> bool \<times> shape) list" | MapOf shape | SliceOf shape

text \<open>A field by its JSON name, and whether its scope is the host's.\<close>

abbreviation free :: "string \<Rightarrow> shape \<Rightarrow> string \<times> bool \<times> shape" where
  "free k s \<equiv> (k, False, s)"

abbreviation hosts_own :: "string \<Rightarrow> shape \<Rightarrow> string \<times> bool \<times> shape" where
  "hosts_own k s \<equiv> (k, True, s)"

definition answers_fields :: "(string \<times> bool \<times> shape) list" where
  "answers_fields = [free ''writes'' Leaf, free ''guarded'' Leaf, free ''unmatched'' Leaf, hosts_own ''interactive'' Leaf]"

definition credential_shape :: shape where
  "credential_shape = Struct [free ''token'' Leaf, free ''expiresMillis'' Leaf, free ''expiresJWT'' Leaf]"

definition docker_shape :: shape where
  "docker_shape =
     Struct [free ''project'' Leaf,
       free ''apiVersions'' (Struct [free ''min'' Leaf, free ''max'' Leaf, free ''unversioned'' (SliceOf Leaf)]),
       free ''images'' (SliceOf Leaf), free ''builds'' (SliceOf Leaf), free ''address'' Leaf, free ''ports'' (SliceOf Leaf),
       free ''names'' (SliceOf Leaf), free ''maxBody'' Leaf, free ''bodies'' (MapOf (SliceOf Leaf))]"

text \<open>A query check is a struct whose fields have no JSON names, so \<open>fields\<close> yields none of them; that it reads
  itself, from a name too, is nothing to \<open>reflect\<close>. No layer is read so far: its paths are the host's.\<close>

definition docker_rule_shape :: shape where
  "docker_rule_shape =
     Struct [free ''owned'' Leaf, free ''param'' Leaf, free ''query'' (MapOf (Struct [])), free ''body'' Leaf, free ''upgrade'' Leaf]"

definition graphql_shape :: "shape \<Rightarrow> shape" where
  "graphql_shape op =
     (let field = Struct [free ''operation'' op] in
      Struct [free ''query'' field, free ''mutations'' (MapOf field), free ''subscriptions'' (MapOf field), free ''unmatched'' Leaf])"

definition route_fields :: "shape \<Rightarrow> (string \<times> bool \<times> shape) list" where
  "route_fields op =
     [hosts_own ''host'' Leaf, hosts_own ''upstream'' Leaf, hosts_own ''upstreamCA'' Leaf, hosts_own ''credentialFile'' Leaf,
      hosts_own ''credentialJSON'' credential_shape, hosts_own ''header'' Leaf, hosts_own ''basicUser'' Leaf,
      hosts_own ''placeholder'' Leaf, hosts_own ''refusal'' (Struct [free ''contentType'' Leaf, free ''body'' Leaf]),
      hosts_own ''sessionKey'' (Struct [free ''publicKey'' Leaf, free ''issuer'' Leaf, free ''grants'' (SliceOf Leaf)]),
      hosts_own ''docker'' docker_shape,
      hosts_own ''paths'' (MapOf (Struct [free ''operation'' op, free ''docker'' docker_rule_shape])),
      hosts_own ''encodedSlashes'' (MapOf Leaf), hosts_own ''git'' (Struct [free ''repos'' (MapOf Leaf)]),
      hosts_own ''graphql'' (MapOf (graphql_shape op)), free ''operations'' (MapOf Leaf)] @
     answers_fields @ [hosts_own ''ceiling'' (Struct answers_fields), hosts_own ''always'' Leaf]"

definition ssh_fields :: "shape \<Rightarrow> (string \<times> bool \<times> shape) list" where
  "ssh_fields op =
     [hosts_own ''address'' Leaf, hosts_own ''user'' Leaf, hosts_own ''hostKeys'' (SliceOf Leaf), hosts_own ''agent'' Leaf,
      hosts_own ''keyFile'' Leaf, hosts_own ''passwordFile'' Leaf, hosts_own ''identity'' Leaf, hosts_own ''shell'' Leaf,
      free ''env'' (MapOf Leaf), free ''exec'' (MapOf Leaf), hosts_own ''commands'' (MapOf op)] @
     answers_fields @ [hosts_own ''ceiling'' (Struct answers_fields), hosts_own ''always'' Leaf]"

definition document_fields :: "shape \<Rightarrow> (string \<times> bool \<times> shape) list" where
  "document_fields op =
     [free ''version'' Leaf, hosts_own ''name'' Leaf, free ''allow'' (MapOf Leaf),
      free ''lan'' (MapOf (Struct [free ''ports'' (SliceOf Leaf)])), free ''routes'' (MapOf (Struct (route_fields op))),
      free ''ssh'' (MapOf (Struct (ssh_fields op))), hosts_own ''record'' (Struct [free ''default'' Leaf, free ''sink'' Leaf])] @
     answers_fields @ [hosts_own ''ceiling'' (Struct answers_fields)]"

abbreviation document_shape :: "shape \<Rightarrow> shape" where
  "document_shape op \<equiv> Struct (document_fields op)"

section \<open>What a layer may say\<close>

datatype layer_problem =
  LayerVersion
| NoSuchField string
| HostsAlone string
| DeletesRoute string string
| NoBaseRoute string string

definition dotted :: "string \<Rightarrow> string \<Rightarrow> string" where
  "dotted at k = (if at = [] then k else at @ ''.'' @ k)"

fun indexed :: "nat \<Rightarrow> 'a list \<Rightarrow> (nat \<times> 'a) list" where
  "indexed i [] = []"
| "indexed i (x # xs) = (i, x) # indexed (Suc i) xs"

lemma map_of_shape: "map_of fs k = Some (h, s) \<Longrightarrow> size s < size (Struct fs)"
  by (induction fs) (auto split: if_splits)

function (sequential) scoped :: "shape \<Rightarrow> json \<Rightarrow> string \<Rightarrow> layer_problem list" where
  "scoped Leaf v at = []"
| "scoped (Struct fs) v at =
     (case v of
        JObj m \<Rightarrow>
          concat (map (\<lambda>k.
            case map_of fs k of
              None \<Rightarrow> [NoSuchField (dotted at k)]
            | Some (host, s) \<Rightarrow>
                if host then [HostsAlone (dotted at k)]
                else (case map_of m k of
                    None \<Rightarrow> []
                  | Some x \<Rightarrow> if x = JNull then [] else scoped s x (dotted at k))) (sortedKeys m))
      | _ \<Rightarrow> [])"
| "scoped (MapOf s) v at =
     (case v of
        JObj m \<Rightarrow>
          concat (map (\<lambda>k.
            case map_of m k of
              None \<Rightarrow> []
            | Some x \<Rightarrow> if x = JNull then [] else scoped s x (dotted at k)) (sortedKeys m))
      | _ \<Rightarrow> [])"
| "scoped (SliceOf s) v at =
     (case v of
        JArr xs \<Rightarrow> concat (map (\<lambda>(i, x). scoped s x (at @ ''['' @ nat_digits i @ '']'')) (indexed 0 xs))
      | _ \<Rightarrow> [])"
  by pat_completeness auto
termination
  by (relation "measure (\<lambda>(s, _). size s)") (auto dest: map_of_shape)

section \<open>What can never match\<close>

datatype why_never =
  NameUncompiled
| LabelTooLong
| CapitalInName
| NoNameHolds char
| EndpointUnread policy_error
| EmptySegmentIn
| DotSegmentIn
| AtGraphQL
| AnsweredByName string string
| MatchesNoMachine

record never =
  nv_Path :: "string list"
  nv_Why :: why_never

definition namedAnswer :: "route_v2 \<Rightarrow> operation \<Rightarrow> string option" where
  "namedAnswer r op =
     (case map_of (r2_Operations r) (op_ID op) of
        Some a \<Rightarrow> Some a
      | None \<Rightarrow> if op_Category op = [] then None else map_of (r2_Operations r) (''category:'' @ op_Category op))"

definition name_pattern_byte :: "char \<Rightarrow> bool" where
  "name_pattern_byte c \<longleftrightarrow>
     c = CHR ''*'' \<or> between CHR ''a'' c CHR ''z'' \<or> between CHR ''0'' c CHR ''9'' \<or> c = CHR ''-'' \<or> c = CHR ''_''"

fun never_labels :: "string list \<Rightarrow> why_never option" where
  "never_labels [] = None"
| "never_labels (l # ls) =
     (if length l > 63 then Some LabelTooLong
      else case find (\<lambda>c. \<not> name_pattern_byte c) l of
          Some c \<Rightarrow> Some (if capital c then CapitalInName else NoNameHolds c)
        | None \<Rightarrow> never_labels ls)"

definition neverAName :: "'p quoin \<Rightarrow> string \<Rightarrow> why_never option" where
  "neverAName Q k =
     (case q_Compile Q k of
        None \<Rightarrow> Some NameUncompiled
      | Some p \<Rightarrow> if q_Literal Q p \<or> q_Below Q p \<noteq> None then None else never_labels (Split CHR ''.'' k))"

fun never_segments :: "string list \<Rightarrow> why_never option" where
  "never_segments [] = None"
| "never_segments (s # ss) =
     (if s = [] \<and> ss \<noteq> [] then Some EmptySegmentIn
      else if s = ''.'' \<or> s = ''..'' then Some DotSegmentIn
      else never_segments ss)"

definition neverAPath :: "string \<Rightarrow> why_never option" where
  "neverAPath p =
     (if p = ''/'' then None
      else never_segments (Split CHR ''/'' (case CutPrefix p ''/'' of Some rest \<Rightarrow> rest | None \<Rightarrow> p)))"

text \<open>At an operation's own template, a pattern at no more methods that is no stricter than the operation's answer.\<close>

definition overruled :: "route_v2 \<Rightarrow> string \<Rightarrow> string list \<Rightarrow> string \<Rightarrow> string \<times> endpoint_v2 \<Rightarrow> why_never list" where
  "overruled r k ms path = (\<lambda>(pk, e).
     (case ParseEndpoint pk of
        Inl _ \<Rightarrow> []
      | Inr (pm, pp, pprefix) \<Rightarrow>
          if pp \<noteq> path \<or> pprefix \<noteq> [] then []
          else (case ep_Operation e of
              None \<Rightarrow> []
            | Some op \<Rightarrow>
                (case namedAnswer r op of
                   None \<Rightarrow> []
                 | Some nm \<Rightarrow>
                     if list_all (\<lambda>m. m \<in> set pm) ms \<and>
                        stricter_answer (case map_of (r2_Operations r) k of Some a \<Rightarrow> a | None \<Rightarrow> []) nm = nm
                     then [AnsweredByName (op_ID op) nm] else []))))"

definition never_endpoint :: "route_v2 \<Rightarrow> string \<Rightarrow> why_never list" where
  "never_endpoint r k =
     (if \<not> IsEndpoint k then []
      else case ParseEndpoint k of
        Inl e \<Rightarrow> [EndpointUnread e]
      | Inr (ms, path, pre) \<Rightarrow>
          (case neverAPath (path @ pre) of
             Some w \<Rightarrow> [w]
           | None \<Rightarrow>
               if path = [] then []
               else if map_of (r2_GraphQL r) path \<noteq> None then [AtGraphQL]
               else concat (map (overruled r k ms path) (r2_Paths r))))"

definition never_hosts :: "'p quoin \<Rightarrow> string \<Rightarrow> (string \<times> 'v) list \<Rightarrow> never list" where
  "never_hosts Q coll m =
     concat (map (\<lambda>k. case neverAName Q k of Some w \<Rightarrow> [\<lparr>nv_Path = [coll, k], nv_Why = w\<rparr>] | None \<Rightarrow> []) (sortedKeys m))"

definition Unreachable :: "'p quoin \<Rightarrow> document_v2 \<Rightarrow> never list" where
  "Unreachable Q d =
     (let machines = filter (\<lambda>k. case q_Compile Q k of Some p \<Rightarrow> q_Literal Q p | None \<Rightarrow> False) (map fst (d2_SSH d)) in
      never_hosts Q ''allow'' (d2_Allow d) @ never_hosts Q ''lan'' (d2_LAN d) @
      concat (map (\<lambda>(nm, r).
        concat (map (\<lambda>k. map (\<lambda>w. \<lparr>nv_Path = [''routes'', nm, ''operations'', k], nv_Why = w\<rparr>) (never_endpoint r k))
          (sortedKeys (r2_Operations r)))) (in_order (d2_Routes d))) @
      concat (map (\<lambda>k.
        case q_Compile Q k of
          None \<Rightarrow> []
        | Some p \<Rightarrow>
            if q_Literal Q p \<or> list_ex (q_Match Q p) machines then []
            else [\<lparr>nv_Path = [''ssh'', k], nv_Why = MatchesNoMachine\<rparr>]) (sortedKeys (d2_SSH d))))"

fun layerSets :: "json \<Rightarrow> string list \<Rightarrow> bool" where
  "layerSets v [] = True"
| "layerSets v (k # ks) =
     (case v of
        JObj m \<Rightarrow> (case map_of m k of None \<Rightarrow> False | Some x \<Rightarrow> layerSets x ks)
      | _ \<Rightarrow> False)"

section \<open>Reading a document\<close>

lemma size_indexed: "(j, x) \<in> set (indexed i xs) \<Longrightarrow> size x < size (JArr xs)"
  by (induction i xs rule: indexed.induct) auto

lemma size_entry: "(k, x) \<in> set m \<Longrightarrow> size x < size (JObj m)"
  by (induction m) auto

text \<open>Where a null is, the first the code comes to: in an object, in whatever order it goes over it.\<close>

function (sequential) nullAt :: "json \<Rightarrow> string \<Rightarrow> string" where
  "nullAt JNull at = (if at = [] then ''the document'' else at)"
| "nullAt (JObj m) at =
     (case find (\<lambda>w. w \<noteq> []) (map (\<lambda>(k, x). nullAt x (dotted at k)) m) of Some w \<Rightarrow> w | None \<Rightarrow> [])"
| "nullAt (JArr xs) at =
     (case find (\<lambda>w. w \<noteq> []) (map (\<lambda>(i, x). nullAt x (at @ ''['' @ nat_digits i @ '']'')) (indexed 0 xs)) of
        Some w \<Rightarrow> w | None \<Rightarrow> [])"
| "nullAt _ at = []"
  by pat_completeness auto

termination
  by (relation "measure (\<lambda>(v, _). size v)") (auto dest: size_indexed size_entry)

text \<open>\<open>projpolicy\<close>, \<open>encoding/json\<close> and \<open>fmt.Sprint\<close>, as a layer is read and written with them.\<close>

record project_json =
  pj_Decode :: "string \<Rightarrow> json option"
  pj_Encode :: "json \<Rightarrow> string"
  pj_Merge :: "json \<Rightarrow> json \<Rightarrow> json"
  pj_Sprint :: "json \<Rightarrow> string"
  pj_Document :: "string \<Rightarrow> document_v2 option"
  pj_Operation :: shape

datatype layer_error =
  LayerUnread
| LayerNoObject
| BaseUnread
| BaseNoObject
| BaseVersion
| Problems "layer_problem list"
| NullIn string
| DocumentUnread
| DocumentVersion
| Unlowered policy_error
| NeverMatches "never list"

definition DecodeV2 :: "project_json \<Rightarrow> string \<Rightarrow> layer_error + document_v2" where
  "DecodeV2 J b =
     (case pj_Decode J b of
        None \<Rightarrow> Inl DocumentUnread
      | Some v \<Rightarrow>
          if nullAt v [] \<noteq> [] then Inl (NullIn (nullAt v []))
          else (case pj_Document J b of
              None \<Rightarrow> Inl DocumentUnread
            | Some d \<Rightarrow> if d2_Version d \<noteq> 2 then Inl DocumentVersion else Inr d))"

section \<open>A layer\<close>

definition object_or_none :: "json option \<Rightarrow> (string \<times> json) list" where
  "object_or_none v = (case v of Some (JObj m) \<Rightarrow> m | _ \<Rightarrow> [])"

definition collection_problems :: "'p quoin \<Rightarrow> (string \<times> json) list \<Rightarrow> (string \<times> json) list \<Rightarrow> string \<Rightarrow> layer_problem list" where
  "collection_problems Q lm bm coll =
     (let lc = object_or_none (map_of lm coll); bc = object_or_none (map_of bm coll) in
      concat (map (\<lambda>k.
        if coll = ''ssh'' \<and> (case q_Compile Q k of Some p \<Rightarrow> \<not> q_Literal Q p | None \<Rightarrow> False) then []
        else if map_of lc k = Some JNull then [DeletesRoute coll k]
        else if map_of bc k = None then [NoBaseRoute coll k]
        else []) (sortedKeys lc)))"

definition layer_problems :: "'p quoin \<Rightarrow> project_json \<Rightarrow> (string \<times> json) list \<Rightarrow> (string \<times> json) list \<Rightarrow> layer_problem list" where
  "layer_problems Q J lm bm =
     (case map_of lm ''version'' of Some v \<Rightarrow> if pj_Sprint J v \<noteq> ''2'' then [LayerVersion] else [] | None \<Rightarrow> []) @
     scoped (document_shape (pj_Operation J)) (JObj lm) [] @
     concat (map (collection_problems Q lm bm) [''routes'', ''ssh''])"

definition CheckProjectLayer :: "'p quoin \<Rightarrow> project_json \<Rightarrow> string \<Rightarrow> string \<Rightarrow> layer_error + string" where
  "CheckProjectLayer Q J layer base =
     (case pj_Decode J layer of
        Some (JObj lm) \<Rightarrow>
          (case pj_Decode J base of
             Some (JObj bm) \<Rightarrow>
               if pj_Sprint J (case map_of bm ''version'' of Some v \<Rightarrow> v | None \<Rightarrow> JNull) \<noteq> ''2'' then Inl BaseVersion
               else if layer_problems Q J lm bm \<noteq> [] then Inl (Problems (layer_problems Q J lm bm))
               else
                 let merged = pj_Encode J (pj_Merge J (JObj bm) (JObj lm)) in
                 ok_then (DecodeV2 J merged) (\<lambda>d.
                 ok_then (lift_error Unlowered (Lower Q d)) (\<lambda>_.
                 let never = filter (\<lambda>u. layerSets (JObj lm) (nv_Path u)) (Unreachable Q d) in
                 if never \<noteq> [] then Inl (NeverMatches never) else Inr merged))
           | Some _ \<Rightarrow> Inl BaseNoObject
           | None \<Rightarrow> Inl BaseUnread)
      | Some _ \<Rightarrow> Inl LayerNoObject
      | None \<Rightarrow> Inl LayerUnread)"

end
