(* ===== verification/Policy_Keeps.thy ===== *)
theory Policy_Keeps
  imports Policy_Layer "HOL-Library.Countable"
begin

text \<open>
  What a project's layer leaves as it was: every value at a field of the host's, but where the layer deletes what
  it is in; and that two such deletions are let through.
\<close>

section \<open>What is relied on\<close>

text \<open>A JSON Merge Patch, as RFC 7396 says it.\<close>

definition merged_value :: "(json \<Rightarrow> json \<Rightarrow> json) \<Rightarrow> (string \<times> json) list \<Rightarrow> (string \<times> json) list \<Rightarrow> string \<Rightarrow> json option" where
  "merged_value mp t m k =
     (case map_of m k of
        None \<Rightarrow> map_of t k
      | Some v \<Rightarrow> if v = JNull then None else Some (mp (case map_of t k of None \<Rightarrow> JNull | Some x \<Rightarrow> x) v))"

definition rfc7396 :: "(json \<Rightarrow> json \<Rightarrow> json) \<Rightarrow> bool" where
  "rfc7396 mp \<longleftrightarrow>
     (\<forall>t p. (\<forall>m. p \<noteq> JObj m) \<longrightarrow> mp t p = p) \<and>
     (\<forall>t m. \<exists>r. mp t (JObj m) = JObj r \<and> (\<forall>k. map_of r k = merged_value mp (object_or_none (Some t)) m k))"

lemma rfc7396_object:
  assumes "rfc7396 mp"
  obtains r where "mp t (JObj m) = JObj r" "\<And>k. map_of r k = merged_value mp (object_or_none (Some t)) m k"
  using assms unfolding rfc7396_def by blast

lemma rfc7396_other: "rfc7396 mp \<Longrightarrow> (\<And>m. p \<noteq> JObj m) \<Longrightarrow> mp t p = p"
  unfolding rfc7396_def by blast

text \<open>What \<open>encoding/json\<close> reads into a document has an object, or a null, at the document, at its routes and its
  machines, which are maps, and at each of these, which are structs; none of those types reads itself.\<close>

definition object_or_null :: "json \<Rightarrow> bool" where
  "object_or_null v \<longleftrightarrow> (case v of JNull \<Rightarrow> True | JObj _ \<Rightarrow> True | _ \<Rightarrow> False)"

definition objects_read :: "json \<Rightarrow> bool" where
  "objects_read v \<longleftrightarrow>
     object_or_null v \<and>
     list_all (\<lambda>coll.
       case map_of (object_or_none (Some v)) coll of
         None \<Rightarrow> True
       | Some x \<Rightarrow> object_or_null x \<and> list_all (\<lambda>(k, e). object_or_null e) (object_or_none (Some x))) [''routes'', ''ssh'']"

text \<open>\<open>projpolicy\<close> reads back what it writes of two values it read and merged: their objects have their keys once
  and in order, and their strings are UTF-8, as they were read.\<close>

definition reads_back :: "project_json \<Rightarrow> bool" where
  "reads_back J \<longleftrightarrow>
     (\<forall>b b' t p. pj_Decode J b = Some t \<longrightarrow> pj_Decode J b' = Some p \<longrightarrow>
        pj_Decode J (pj_Encode J (pj_Merge J t p)) = Some (pj_Merge J t p)) \<and>
     (\<forall>b v d. pj_Decode J b = Some v \<longrightarrow> pj_Document J b = Some d \<longrightarrow> objects_read v)"

text \<open>A value that has no null.\<close>

lemma null_found: "nullAt JNull at \<noteq> []"
  by simp

lemma no_null_inside:
  assumes "nullAt (JObj m) at = []" "map_of m k = Some x"
  shows "nullAt x (dotted at k) = []"
proof -
  have "find (\<lambda>w. w \<noteq> []) (map (\<lambda>(k, x). nullAt x (dotted at k)) m) = None"
    using assms(1) by (auto simp: find_Some_iff split: option.splits)
  then show ?thesis using map_of_SomeD [OF assms(2)] by (auto simp: find_None_iff)
qed

lemma an_object:
  assumes "object_or_null v" "nullAt v at = []"
  obtains m where "v = JObj m"
  using assms null_found by (cases v) (auto simp: object_or_null_def)

text \<open>A value with an object at every place above the one a path names, as far as it goes.\<close>

fun objects_to :: "json \<Rightarrow> string list \<Rightarrow> bool" where
  "objects_to v [] = True"
| "objects_to v (k # ks) =
     (case v of JObj m \<Rightarrow> (case map_of m k of None \<Rightarrow> True | Some x \<Rightarrow> objects_to x ks) | _ \<Rightarrow> False)"

lemma objects_collection:
  assumes "objects_read v" "nullAt v [] = []" "coll \<in> {''routes'', ''ssh''}"
  obtains m where "v = JObj m" "\<And>x. map_of m coll = Some x \<Longrightarrow> \<exists>es. x = JObj es \<and> (\<forall>nm e. map_of es nm = Some e \<longrightarrow> (\<exists>fs. e = JObj fs))"
proof -
  have "object_or_null v" using assms(1) by (simp add: objects_read_def)
  then obtain m where m: "v = JObj m" using assms(2) by (rule an_object)
  have "\<exists>es. x = JObj es \<and> (\<forall>nm e. map_of es nm = Some e \<longrightarrow> (\<exists>fs. e = JObj fs))" if x: "map_of m coll = Some x" for x
  proof -
    have "case map_of m coll of None \<Rightarrow> True | Some x \<Rightarrow> object_or_null x \<and> list_all (\<lambda>(k, e). object_or_null e) (object_or_none (Some x))"
      using assms(1,3) by (auto simp: objects_read_def m object_or_none_def)
    then have o: "object_or_null x" "list_all (\<lambda>(k, e). object_or_null e) (object_or_none (Some x))" by (simp_all add: x)
    have n: "nullAt x (dotted [] coll) = []" using no_null_inside assms(2) x unfolding m by blast
    from o(1) n obtain es where es: "x = JObj es" by (rule an_object)
    have "\<exists>fs. e = JObj fs" if e: "map_of es nm = Some e" for nm e
    proof -
      have "object_or_null e" using o(2) map_of_SomeD [OF e] by (auto simp: es object_or_none_def list_all_iff)
      moreover have "nullAt e (dotted (dotted [] coll) nm) = []" using no_null_inside n e unfolding es by blast
      ultimately show ?thesis using an_object by blast
    qed
    with es show ?thesis by blast
  qed
  with m that show thesis by blast
qed

section \<open>The host's values\<close>

fun host_path :: "shape \<Rightarrow> string list \<Rightarrow> bool" where
  "host_path (Struct fs) (k # ks) =
     (case map_of fs k of None \<Rightarrow> False | Some (h, s) \<Rightarrow> if h then ks = [] else host_path s ks)"
| "host_path (MapOf s) (k # ks) = host_path s ks"
| "host_path _ _ = False"

fun value_at :: "json \<Rightarrow> string list \<Rightarrow> json option" where
  "value_at v [] = Some v"
| "value_at v (k # ks) =
     (case v of JObj m \<Rightarrow> (case map_of m k of None \<Rightarrow> None | Some x \<Rightarrow> value_at x ks) | _ \<Rightarrow> None)"

text \<open>A null of the layer at a value, or around it.\<close>

fun deletes :: "json \<Rightarrow> string list \<Rightarrow> bool" where
  "deletes v [] = (v = JNull)"
| "deletes v (k # ks) =
     (v = JNull \<or> (case v of JObj m \<Rightarrow> (case map_of m k of None \<Rightarrow> False | Some x \<Rightarrow> deletes x ks) | _ \<Rightarrow> False))"

lemma scoped_field:
  assumes "scoped (Struct fs) (JObj m) at = []" "map_of m k = Some v"
  shows "\<exists>s. map_of fs k = Some (False, s) \<and> (v \<noteq> JNull \<longrightarrow> scoped s v (dotted at k) = [])"
proof -
  have "k \<in> set (sortedKeys m)" using map_of_SomeD [OF assms(2)] by force
  then have "(case map_of fs k of None \<Rightarrow> [NoSuchField (dotted at k)]
      | Some (host, s) \<Rightarrow> if host then [HostsAlone (dotted at k)]
          else (case map_of m k of None \<Rightarrow> [] | Some x \<Rightarrow> if x = JNull then [] else scoped s x (dotted at k))) = []"
    using assms(1) by (simp only: scoped.simps json.case concat_eq_Nil_conv set_map) blast
  with assms(2) show ?thesis by (auto split: option.splits prod.splits if_splits)
qed

lemma scoped_entry:
  assumes "scoped (MapOf s) (JObj m) at = []" "map_of m k = Some v"
  shows "v \<noteq> JNull \<longrightarrow> scoped s v (dotted at k) = []"
proof -
  have "k \<in> set (sortedKeys m)" using map_of_SomeD [OF assms(2)] by force
  then have "(case map_of m k of None \<Rightarrow> [] | Some x \<Rightarrow> if x = JNull then [] else scoped s x (dotted at k)) = []"
    using assms(1) by (simp only: scoped.simps json.case concat_eq_Nil_conv set_map) blast
  with assms(2) show ?thesis by (simp split: if_splits)
qed

lemma object_value: "value_at t (k # ks) = (case map_of (object_or_none (Some t)) k of None \<Rightarrow> None | Some x \<Rightarrow> value_at x ks)"
  by (cases t) (simp_all add: object_or_none_def)

lemma host_path_Nil [simp]: "\<not> host_path s []"
  by (cases s) simp_all

lemma value_at_null: "host_path s ks \<Longrightarrow> value_at JNull ks = None"
  by (cases ks) simp_all

text \<open>A layer with nothing of the host's, merged over anything, leaves the host's values, but where it deletes.\<close>

lemma merge_keeps:
  assumes mp: "rfc7396 mp"
  shows "scoped s p at = [] \<Longrightarrow> p \<noteq> JNull \<Longrightarrow> objects_to (mp t p) ks \<Longrightarrow> host_path s ks \<Longrightarrow> \<not> deletes p ks \<Longrightarrow>
    value_at (mp t p) ks = value_at t ks"
proof (induction ks arbitrary: s p t at)
  case (Cons k ks)
  show ?case
  proof (cases "\<exists>m. p = JObj m")
    case False
    then have "mp t p = p" using mp by (auto simp: rfc7396_def)
    with Cons.prems(3) False show ?thesis by (auto split: json.splits)
  next
    case True
    then obtain m where m: "p = JObj m" by blast
    obtain r where r: "mp t p = JObj r" "\<And>k. map_of r k = merged_value mp (object_or_none (Some t)) m k"
      using rfc7396_object [OF mp] m by metis
    show ?thesis
    proof (cases "map_of m k")
      case None
      then show ?thesis unfolding r(1) object_value by (simp add: object_or_none_def r(2) merged_value_def)
    next
      case (Some v)
      let ?t = "case map_of (object_or_none (Some t)) k of None \<Rightarrow> JNull | Some x \<Rightarrow> x"
      from Some Cons.prems(5) m have v: "v \<noteq> JNull" "\<not> deletes v ks" by (auto split: option.splits) (cases ks; simp)
      have rk: "map_of r k = Some (mp ?t v)" using Some v(1) by (simp add: r(2) merged_value_def)
      have o: "objects_to (mp ?t v) ks" using Cons.prems(3) by (simp add: r(1) rk)
      obtain s' where s': "scoped s' v (dotted at k) = []" "host_path s' ks"
      proof (cases s)
        case (Struct fs)
        obtain s' where f: "map_of fs k = Some (False, s')" "scoped s' v (dotted at k) = []"
          using scoped_field [of fs m at k v] Cons.prems(1) Some v(1) m Struct by blast
        moreover have "host_path s' ks" using Cons.prems(4) f(1) by (simp add: Struct)
        ultimately show ?thesis using that by blast
      next
        case (MapOf s')
        have "scoped s' v (dotted at k) = []" using scoped_entry [of s' m at k v] Cons.prems(1) Some v(1) m MapOf by blast
        moreover have "host_path s' ks" using Cons.prems(4) by (simp add: MapOf)
        ultimately show ?thesis using that by blast
      qed (use Cons.prems(4) in simp_all)
      have "value_at (mp t p) (k # ks) = value_at (mp ?t v) ks" by (simp add: r(1) rk)
      also have "\<dots> = value_at ?t ks" by (rule Cons.IH [OF s'(1) v(1) o s'(2) v(2)])
      also have "\<dots> = value_at t (k # ks)"
        using value_at_null [OF s'(2)] unfolding object_value by (auto split: option.splits)
      finally show ?thesis .
    qed
  qed
qed simp

section \<open>What a layer may delete\<close>

fun no_host :: "shape \<Rightarrow> bool" where
  "no_host Leaf \<longleftrightarrow> True"
| "no_host (MapOf s) \<longleftrightarrow> no_host s"
| "no_host (Struct fs) \<longleftrightarrow> list_all (\<lambda>(k, h, s). \<not> h \<and> no_host s) fs"
| "no_host (SliceOf s) \<longleftrightarrow> True"

lemma no_host_path: "no_host s \<Longrightarrow> \<not> host_path s ks"
proof (induction ks arbitrary: s)
  case (Cons k ks)
  show ?case
  proof (cases s)
    case (Struct fs)
    have "\<not> host_path s' ks" if "map_of fs k = Some (h, s')" for h s'
      using Cons.prems map_of_SomeD [OF that] Cons.IH [of s'] by (auto simp: Struct list_all_iff)
    moreover have "\<not> h" if "map_of fs k = Some (h, s')" for h s'
      using Cons.prems map_of_SomeD [OF that] by (auto simp: Struct list_all_iff)
    ultimately show ?thesis by (auto simp: Struct split: option.splits if_splits)
  qed (use Cons in simp_all)
qed simp

definition plain_fields :: "(string \<times> bool \<times> shape) list \<Rightarrow> bool" where
  "plain_fields fs \<longleftrightarrow> list_all (\<lambda>(k, h, s). h \<or> no_host s) fs"

lemma plain_route: "plain_fields (route_fields op)" and plain_ssh: "plain_fields (ssh_fields op)"
  by (simp_all add: plain_fields_def route_fields_def ssh_fields_def answers_fields_def)

lemma plain_path:
  assumes "plain_fields fs" "host_path (Struct fs) (k # ks)"
  shows "ks = [] \<and> (\<exists>s. map_of fs k = Some (True, s))"
proof -
  from assms(2) obtain h s where f: "map_of fs k = Some (h, s)" "if h then ks = [] else host_path s ks"
    by (cases "map_of fs k") auto
  have "h \<or> no_host s" using assms(1) map_of_SomeD [OF f(1)] by (auto simp: plain_fields_def list_all_iff)
  with f no_host_path [of s ks] show ?thesis by (cases h) simp_all
qed

lemma map_of_filter_key: "map_of (filter (\<lambda>p. P (fst p)) m) k = (if P k then map_of m k else None)"
  by (induction m) auto

lemma document_collections:
  "map_of (document_fields op) ''routes'' = Some (False, MapOf (Struct (route_fields op)))"
  "map_of (document_fields op) ''ssh'' = Some (False, MapOf (Struct (ssh_fields op)))"
  by (simp_all add: document_fields_def)

text \<open>Where the host's values are in a document.\<close>

lemma document_host_path:
  assumes "host_path (document_shape op) ks"
  obtains (top) k s where "ks = [k]" "map_of (document_fields op) k = Some (True, s)"
  | (route) nm f s where "ks = [''routes'', nm, f]" "map_of (route_fields op) f = Some (True, s)"
  | (machine) nm f s where "ks = [''ssh'', nm, f]" "map_of (ssh_fields op) f = Some (True, s)"
proof -
  obtain k rest where ks: "ks = k # rest" using assms by (cases ks) auto
  show thesis
  proof (cases "k \<in> {''routes'', ''ssh''}")
    case False
    let ?fs = "filter (\<lambda>f. fst f \<notin> {''routes'', ''ssh''}) (document_fields op)"
    have "plain_fields ?fs" by (simp add: plain_fields_def document_fields_def answers_fields_def)
    moreover have eq: "map_of ?fs k = map_of (document_fields op) k"
      by (simp only: map_of_filter_key [of "\<lambda>k. k \<notin> {''routes'', ''ssh''}"] False if_True not_False_eq_True)
    then have "host_path (Struct ?fs) (k # rest)" using assms by (simp only: ks host_path.simps)
    ultimately have "rest = [] \<and> (\<exists>s. map_of ?fs k = Some (True, s))" by (rule plain_path)
    then obtain s where "rest = []" "map_of (document_fields op) k = Some (True, s)" unfolding eq by blast
    then show thesis using top [of k s] ks by simp
  next
    case True
    then have r: "k = ''routes'' \<and> host_path (MapOf (Struct (route_fields op))) rest \<or>
        k = ''ssh'' \<and> host_path (MapOf (Struct (ssh_fields op))) rest"
      using assms document_collections [of op] by (auto simp: ks)
    then obtain nm rest2 where nm: "rest = nm # rest2" by (cases rest) auto
    with r have r2: "k = ''routes'' \<and> host_path (Struct (route_fields op)) rest2 \<or>
        k = ''ssh'' \<and> host_path (Struct (ssh_fields op)) rest2" by simp
    then obtain f rest3 where f: "rest2 = f # rest3" by (cases rest2) auto
    from r2 show thesis
    proof (elim disjE conjE)
      assume "k = ''routes''" "host_path (Struct (route_fields op)) rest2"
      then have "rest3 = [] \<and> (\<exists>s. map_of (route_fields op) f = Some (True, s))" unfolding f by (intro plain_path plain_route)
      then show thesis using route [of nm f] f nm ks \<open>k = ''routes''\<close> by blast
    next
      assume "k = ''ssh''" "host_path (Struct (ssh_fields op)) rest2"
      then have "rest3 = [] \<and> (\<exists>s. map_of (ssh_fields op) f = Some (True, s))" unfolding f by (intro plain_path plain_ssh)
      then show thesis using machine [of nm f] f nm ks \<open>k = ''ssh''\<close> by blast
    qed
  qed
qed

lemma read_objects:
  assumes "objects_read v" "nullAt v [] = []" "host_path (document_shape op) ks"
  shows "objects_to v ks"
proof -
  have inner: "objects_to v [coll, nm, f]" if c: "coll \<in> {''routes'', ''ssh''}" for coll nm f
  proof -
    obtain m where m: "v = JObj m"
      and "\<forall>x. map_of m coll = Some x \<longrightarrow> (\<exists>es. x = JObj es \<and> (\<forall>nm e. map_of es nm = Some e \<longrightarrow> (\<exists>fs. e = JObj fs)))"
      using objects_collection [OF assms(1,2) c] by metis
    note x = this(2) [rule_format]
    show ?thesis
    proof (cases "map_of m coll")
      case (Some y)
      then obtain es where es: "y = JObj es" "\<And>e. map_of es nm = Some e \<Longrightarrow> \<exists>fs. e = JObj fs" using x by blast
      show ?thesis
      proof (cases "map_of es nm")
        case (Some e)
        with es(2) obtain fs where "e = JObj fs" by blast
        with Some m es(1) \<open>map_of m coll = Some y\<close> show ?thesis by (simp split: option.split)
      qed (simp add: m es(1) \<open>map_of m coll = Some y\<close>)
    qed (simp add: m)
  qed
  show ?thesis using assms(3)
  proof (cases rule: document_host_path)
    case (top k s)
    obtain m where "v = JObj m" using objects_collection [OF assms(1,2), of "''routes''"] by blast
    with top show ?thesis by (simp split: option.split)
  next
    case (route nm f s)
    then show ?thesis using inner by blast
  next
    case (machine nm f s)
    then show ?thesis using inner by blast
  qed
qed

section \<open>A layer let through\<close>

lemma CheckProjectLayer_parts:
  assumes "CheckProjectLayer Q J layer base = Inr merged"
  obtains lm bm d where "pj_Decode J layer = Some (JObj lm)" "pj_Decode J base = Some (JObj bm)"
    "layer_problems Q J lm bm = []" "merged = pj_Encode J (pj_Merge J (JObj bm) (JObj lm))"
    "DecodeV2 J merged = Inr d"
proof -
  from assms obtain lm where lm: "pj_Decode J layer = Some (JObj lm)"
    by (auto simp: CheckProjectLayer_def split: option.splits json.splits)
  with assms obtain bm where bm: "pj_Decode J base = Some (JObj bm)"
    by (auto simp: CheckProjectLayer_def split: option.splits json.splits)
  show thesis
    using assms that [OF lm bm] by (auto simp: CheckProjectLayer_def lm bm ok_then_Inr Let_def split: if_splits)
qed

definition machine_pattern :: "'p quoin \<Rightarrow> string \<Rightarrow> bool" where
  "machine_pattern Q k \<longleftrightarrow> (case q_Compile Q k of Some p \<Rightarrow> \<not> q_Literal Q p | None \<Rightarrow> False)"

lemma collection_entry:
  assumes "collection_problems Q lm bm coll = []" "map_of lm coll = Some (JObj m)" "map_of m k = Some v"
  shows "coll = ''ssh'' \<and> machine_pattern Q k \<or> v \<noteq> JNull \<and> map_of (object_or_none (map_of bm coll)) k \<noteq> None"
proof -
  have "k \<in> set (sortedKeys m)" using map_of_SomeD [OF assms(3)] by force
  with assms(1,2) have "(if coll = ''ssh'' \<and> (case q_Compile Q k of Some p \<Rightarrow> \<not> q_Literal Q p | None \<Rightarrow> False) then []
      else if map_of m k = Some JNull then [DeletesRoute coll k]
      else if map_of (object_or_none (map_of bm coll)) k = None then [NoBaseRoute coll k] else []) = []"
    by (simp only: collection_problems_def Let_def object_or_none_def option.case json.case concat_eq_Nil_conv set_map) blast
  with assms(3) show ?thesis by (auto simp: machine_pattern_def split: if_splits)
qed

text \<open>What of the host's a layer let through deletes.\<close>

definition lost_whole :: "'p quoin \<Rightarrow> (string \<times> json) list \<Rightarrow> string list \<Rightarrow> bool" where
  "lost_whole Q lm ks \<longleftrightarrow>
     hd ks \<in> {''routes'', ''ssh''} \<and> map_of lm (hd ks) = Some JNull \<or>
     hd ks = ''ssh'' \<and> machine_pattern Q (hd (tl ks)) \<and> value_at (JObj lm) (take 2 ks) = Some JNull"

lemma layer_deletes:
  assumes "layer_problems Q J lm bm = []" "host_path (document_shape (pj_Operation J)) ks" "deletes (JObj lm) ks"
  shows "lost_whole Q lm ks"
proof -
  let ?op = "pj_Operation J"
  have sc: "scoped (document_shape ?op) (JObj lm) [] = []"
    and coll: "collection_problems Q lm bm ''routes'' = []" "collection_problems Q lm bm ''ssh'' = []"
    using assms(1) by (auto simp: layer_problems_def)
  have inner: "lost_whole Q lm [coll, nm, f]"
    if c: "coll \<in> {''routes'', ''ssh''}" and del: "deletes (JObj lm) [coll, nm, f]"
      and fs: "map_of (document_fields ?op) coll = Some (False, MapOf (Struct fs))" and f: "map_of fs f = Some (True, s)"
    for coll nm f fs s
  proof (cases "map_of lm coll = Some JNull")
    case False
    with del obtain v where v: "map_of lm coll = Some v" "v \<noteq> JNull" "deletes v [nm, f]" by (auto split: option.splits)
    then obtain m where m: "v = JObj m" "case map_of m nm of None \<Rightarrow> False | Some x \<Rightarrow> deletes x [f]"
      by (auto split: json.splits)
    then obtain x where x: "map_of m nm = Some x" "deletes x [f]" by (auto split: option.splits)
    from scoped_field [OF sc v(1)] fs v(2) have "scoped (MapOf (Struct fs)) (JObj m) (dotted [] coll) = []"
      unfolding m(1) by force
    from scoped_entry [OF this x(1)] have fsc: "x \<noteq> JNull \<longrightarrow> scoped (Struct fs) x (dotted (dotted [] coll) nm) = []" .
    have "x = JNull"
    proof (rule ccontr)
      assume "x \<noteq> JNull"
      with x(2) obtain em where em: "x = JObj em" "map_of em f \<noteq> None" by (auto split: json.splits option.splits)
      with fsc \<open>x \<noteq> JNull\<close> have "scoped (Struct fs) (JObj em) (dotted (dotted [] coll) nm) = []" by blast
      from scoped_field [OF this] em(2) f show False by fastforce
    qed
    moreover have "coll = ''ssh'' \<and> machine_pattern Q nm \<or> x \<noteq> JNull"
      using collection_entry [of Q lm bm coll m nm x] coll c v(1) m(1) x(1) by auto
    ultimately show ?thesis using v(1) m(1) x(1) by (auto simp: lost_whole_def)
  qed (use c in \<open>simp add: lost_whole_def\<close>)
  from assms(2) show ?thesis
  proof (cases rule: document_host_path)
    case (top k s)
    with assms(3) have "map_of lm k \<noteq> None" by (auto split: option.splits)
    with scoped_field [OF sc] top(2) show ?thesis by fastforce
  next
    case (route nm f s)
    then show ?thesis using inner [of "''routes''" nm f] assms(3) document_collections [of ?op] by blast
  next
    case (machine nm f s)
    then show ?thesis using inner [of "''ssh''" nm f] assms(3) document_collections [of ?op] by blast
  qed
qed

text \<open>A layer let through adds no route and no machine.\<close>

lemma layer_adds:
  assumes mp: "rfc7396 mp" and read: "objects_read (mp (JObj bm) (JObj lm))" "nullAt (mp (JObj bm) (JObj lm)) [] = []"
    and cs: "coll \<in> {''routes'', ''ssh''}" and ok: "collection_problems Q lm bm coll = []"
    and np: "\<not> (coll = ''ssh'' \<and> machine_pattern Q nm)" and e: "value_at (mp (JObj bm) (JObj lm)) [coll, nm] \<noteq> None"
  shows "value_at (JObj bm) [coll, nm] \<noteq> None"
proof (cases "map_of lm coll")
  case None
  obtain r where r: "mp (JObj bm) (JObj lm) = JObj r" "\<And>k. map_of r k = merged_value mp bm lm k"
    using rfc7396_object [OF mp, of "JObj bm" lm] by (auto simp: object_or_none_def)
  with e None show ?thesis by (simp add: merged_value_def)
next
  case (Some v)
  let ?t = "case map_of bm coll of None \<Rightarrow> JNull | Some x \<Rightarrow> x"
  obtain r where r: "mp (JObj bm) (JObj lm) = JObj r" "\<And>k. map_of r k = merged_value mp bm lm k"
    using rfc7396_object [OF mp, of "JObj bm" lm] by (auto simp: object_or_none_def)
  have v: "v \<noteq> JNull" using e Some by (auto simp: r merged_value_def)
  then have at: "map_of r coll = Some (mp ?t v)" using Some by (simp add: r(2) merged_value_def)
  have o: "\<exists>es. mp ?t v = JObj es"
    by (rule objects_collection [OF read cs]) (use at in \<open>auto simp: r(1)\<close>)
  obtain m where m: "v = JObj m"
  proof (cases "\<exists>m. v = JObj m")
    case False
    then have "mp ?t v = v" by (intro rfc7396_other [OF mp]) blast
    with o False show thesis by auto
  qed (use that in blast)
  obtain r2 where r2: "mp ?t v = JObj r2" "\<And>k. map_of r2 k = merged_value mp (object_or_none (Some ?t)) m k"
    using rfc7396_object [OF mp, of ?t m] m by metis
  have t: "object_or_none (Some ?t) = object_or_none (map_of bm coll)"
    by (simp add: object_or_none_def split: option.split)
  have "map_of r2 nm \<noteq> None" using e by (simp add: r(1) at r2(1) split: option.splits)
  then have "map_of m nm \<noteq> None \<or> map_of (object_or_none (map_of bm coll)) nm \<noteq> None"
    by (auto simp: r2(2) t merged_value_def split: option.splits)
  then have "map_of (object_or_none (map_of bm coll)) nm \<noteq> None"
    using collection_entry [OF ok Some [unfolded m]] np by blast
  then show ?thesis by (auto simp: object_or_none_def split: option.splits json.splits)
qed

section \<open>Deletions that are let through\<close>

text \<open>A layer of \<open>{"routes": null}\<close>, and one that deletes a pattern of \<open>ssh\<close>, has no problem, whatever the base: the
  loop over a layer's routes looks for a null among them and not at them, and that over its machines passes every
  pattern by. With them go the host's own fields in them, a pattern's ceiling among them.\<close>

lemma routes_deleted:
  "layer_problems Q J [(''routes'', JNull)] bm = [] \<and>
   (rfc7396 (pj_Merge J) \<longrightarrow> value_at (pj_Merge J (JObj bm) (JObj [(''routes'', JNull)])) (''routes'' # ks) = None)"
proof
  show "layer_problems Q J [(''routes'', JNull)] bm = []"
    by (simp add: layer_problems_def collection_problems_def object_or_none_def sortedKeys_def document_collections)
  show "rfc7396 (pj_Merge J) \<longrightarrow> value_at (pj_Merge J (JObj bm) (JObj [(''routes'', JNull)])) (''routes'' # ks) = None"
  proof
    assume mp: "rfc7396 (pj_Merge J)"
    show "value_at (pj_Merge J (JObj bm) (JObj [(''routes'', JNull)])) (''routes'' # ks) = None"
      by (rule rfc7396_object [OF mp, of "JObj bm" "[(''routes'', JNull)]"]) (simp add: merged_value_def)
  qed
qed

lemma machines_deleted:
  assumes "machine_pattern Q k"
  shows "layer_problems Q J [(''ssh'', JObj [(k, JNull)])] bm = []"
  using assms
  by (simp add: layer_problems_def collection_problems_def object_or_none_def sortedKeys_def document_collections machine_pattern_def)

section \<open>An instance\<close>

text \<open>A merge patch as RFC 7396's own, the trees coded as strings of their number, and a reader of two documents.\<close>

function (sequential) rfc_merge :: "json \<Rightarrow> json \<Rightarrow> json" where
  "rfc_merge t (JObj m) =
     (let old = object_or_none (Some t) in
      JObj (map (\<lambda>(k, v). (k, rfc_merge (case map_of old k of None \<Rightarrow> JNull | Some x \<Rightarrow> x) v))
              (filter (\<lambda>p. map_of m (fst p) \<noteq> Some JNull) m) @
            filter (\<lambda>p. map_of m (fst p) = None) old))"
| "rfc_merge t p = p"
  by pat_completeness auto
termination
  by (relation "measure (\<lambda>(t, p). size p)") (auto dest: size_entry)

lemma map_of_second: "map_of (map (\<lambda>(k, v). (k, f k v)) m) k = map_option (f k) (map_of m k)"
  by (induction m) auto

lemma rfc_merge: "rfc7396 rfc_merge"
  unfolding rfc7396_def
proof (intro conjI allI impI)
  fix t p
  assume "\<forall>m. p \<noteq> JObj m"
  then show "rfc_merge t p = p" by (cases p) auto
next
  fix t m
  let ?old = "object_or_none (Some t)"
  let ?f = "\<lambda>k v. rfc_merge (case map_of ?old k of None \<Rightarrow> JNull | Some x \<Rightarrow> x) v"
  let ?r = "map (\<lambda>(k, v). (k, ?f k v)) (filter (\<lambda>p. map_of m (fst p) \<noteq> Some JNull) m) @
    filter (\<lambda>p. map_of m (fst p) = None) ?old"
  have "map_of ?r k = merged_value rfc_merge ?old m k" for k
    using map_of_filter_key [of "\<lambda>k. map_of m k \<noteq> Some JNull" m k] map_of_filter_key [of "\<lambda>k. map_of m k = None" ?old k]
    by (simp add: map_add_def map_of_second merged_value_def split: option.split)
  then show "\<exists>r. rfc_merge t (JObj m) = JObj r \<and> (\<forall>k. map_of r k = merged_value rfc_merge ?old m k)"
    by (intro exI [of _ ?r]) (simp add: Let_def)
qed

instance json :: countable
  by countable_datatype

definition demo_document :: "json \<Rightarrow> document_v2" where
  "demo_document v =
     \<lparr>d2_Version = 2, d2_Name = ''demo'', d2_Allow = [(''api.test'', True)], d2_LAN = [],
      d2_Routes = (if value_at v [''routes'', ''api''] = None then [] else
        [(''api'', \<lparr>r2_Host = ''api.test'', r2_Upstream = ''https://api.test'', r2_UpstreamCA = [], r2_CredentialFile = [],
          r2_CredentialJSON = None, r2_Header = [], r2_BasicUser = [], r2_Placeholder = [], r2_Refusal = None,
          r2_SessionKey = None, r2_Docker = None, r2_Paths = [], r2_EncodedSlashes = [], r2_Git = None, r2_GraphQL = [],
          r2_Operations = [(''GET /a'', ''allow'')],
          r2_Answers = \<lparr>Writes = [], Guarded = [], An_Unmatched = [], Interactive = []\<rparr>, r2_Ceiling = None,
          r2_Always = False\<rparr>)]),
      d2_SSH = [], d2_Record = None, d2_Answers = \<lparr>Writes = [], Guarded = [], An_Unmatched = [], Interactive = []\<rparr>,
      d2_Ceiling = None\<rparr>"

definition demo_json :: project_json where
  "demo_json =
     \<lparr>pj_Decode = (\<lambda>s. Some (from_nat (length s))), pj_Encode = (\<lambda>v. replicate (to_nat v) CHR ''a''),
      pj_Merge = rfc_merge, pj_Sprint = (\<lambda>v. case v of JNum n \<Rightarrow> n | _ \<Rightarrow> []),
      pj_Document = (\<lambda>s. if objects_read (from_nat (length s)) then Some (demo_document (from_nat (length s))) else None),
      pj_Operation = Leaf\<rparr>"

lemma demo_json_simps [simp]:
  "pj_Decode demo_json (pj_Encode demo_json v) = Some v" "pj_Merge demo_json = rfc_merge"
  "pj_Document demo_json (pj_Encode demo_json v) = (if objects_read v then Some (demo_document v) else None)"
  "pj_Sprint demo_json (JNum n) = n" "pj_Operation demo_json = Leaf"
  by (simp_all add: demo_json_def)

lemma demo_reads_back: "reads_back demo_json"
  by (auto simp: reads_back_def demo_json_def split: if_splits)

definition demo_patterns :: "string quoin" where
  "demo_patterns =
     \<lparr>q_Compile = Some, q_Literal = (\<lambda>p. CHR ''*'' \<notin> set p), q_Below = (\<lambda>p. CutPrefix p ''**.''), q_Match = (=),
      q_Narrower = (\<lambda>_ _. False), q_RuleName = (\<lambda>k. (k, []))\<rparr>"

definition demo_base :: "(string \<times> json) list" where
  "demo_base =
     [(''version'', JNum ''2''), (''name'', JStr ''demo''),
      (''routes'', JObj [(''api'', JObj [(''host'', JStr ''api.test''), (''upstream'', JStr ''https://api.test'')])])]"

definition demo_layer :: "(string \<times> json) list" where
  "demo_layer = [(''routes'', JObj [(''api'', JObj [(''operations'', JObj [(''GET /a'', JStr ''allow'')])])])]"

lemma lets_through:
  assumes "pj_Decode J layer = Some (JObj lm)" "pj_Decode J base = Some (JObj bm)"
    and "map_of bm ''version'' = Some v" "pj_Sprint J v = ''2''" "layer_problems Q J lm bm = []"
    and "pj_Merge J (JObj bm) (JObj lm) = mv" "DecodeV2 J (pj_Encode J mv) = Inr d"
    and "lift_error Unlowered (Lower Q d) = Inr l" "Unreachable Q d = []"
  shows "CheckProjectLayer Q J layer base = Inr (pj_Encode J mv)"
  using assms by (simp add: CheckProjectLayer_def lift_error_def)

section \<open>What a layer keeps\<close>

text \<open>
  C2: a project's layer changes nothing of the host's. Of a layer that is let through, merged over its base as
  RFC 7396 has it: at every field whose scope is the host's, of the document, of each route and of each machine,
  the merged document has the value its base has, or none where it has none -- unless the layer deletes \<open>routes\<close>
  or \<open>ssh\<close> whole, or an \<open>ssh\<close> pattern; and it has no route its base does not define, and no machine.
\<close>

theorem layer_keeps_host:
  assumes "rfc7396 (pj_Merge J)" "reads_back J" "CheckProjectLayer Q J layer base = Inr merged"
  shows "\<exists>lm bm mv. pj_Decode J layer = Some (JObj lm) \<and> pj_Decode J base = Some (JObj bm) \<and> pj_Decode J merged = Some mv \<and>
    (\<forall>ks. host_path (document_shape (pj_Operation J)) ks \<and> \<not> lost_whole Q lm ks \<longrightarrow> value_at mv ks = value_at (JObj bm) ks) \<and>
    (\<forall>nm. value_at mv [''routes'', nm] \<noteq> None \<longrightarrow> value_at (JObj bm) [''routes'', nm] \<noteq> None) \<and>
    (\<forall>nm. value_at mv [''ssh'', nm] \<noteq> None \<and> \<not> machine_pattern Q nm \<longrightarrow> value_at (JObj bm) [''ssh'', nm] \<noteq> None)"
proof -
  let ?op = "pj_Operation J"
  obtain lm bm d where lm: "pj_Decode J layer = Some (JObj lm)" and bm: "pj_Decode J base = Some (JObj bm)"
    and ok: "layer_problems Q J lm bm = []" and merged: "merged = pj_Encode J (pj_Merge J (JObj bm) (JObj lm))"
    and d: "DecodeV2 J merged = Inr d" using CheckProjectLayer_parts [OF assms(3)] by metis
  let ?mv = "pj_Merge J (JObj bm) (JObj lm)"
  have dec: "pj_Decode J merged = Some ?mv" using assms(2) lm bm unfolding merged reads_back_def by blast
  have "pj_Document J merged = Some d" using d by (auto simp: DecodeV2_def dec split: if_splits option.splits)
  then have read: "objects_read ?mv" using assms(2) dec unfolding reads_back_def by blast
  have null: "nullAt ?mv [] = []" using d by (auto simp: DecodeV2_def dec split: if_splits)
  have sc: "scoped (document_shape ?op) (JObj lm) [] = []" using ok by (simp add: layer_problems_def)
  have "value_at ?mv ks = value_at (JObj bm) ks" if "host_path (document_shape ?op) ks" "\<not> lost_whole Q lm ks" for ks
    using merge_keeps [OF assms(1) sc _ read_objects [OF read null that(1)] that(1)] layer_deletes [OF ok that(1)] that(2) by blast
  moreover have "value_at (JObj bm) [coll, nm] \<noteq> None"
    if "value_at ?mv [coll, nm] \<noteq> None" "coll \<in> {''routes'', ''ssh''}" "\<not> (coll = ''ssh'' \<and> machine_pattern Q nm)" for coll nm
    using layer_adds [OF assms(1) read null that(2) _ that(3,1)] ok that(2) by (auto simp: layer_problems_def)
  ultimately show ?thesis using lm bm dec by (intro exI [of _ lm] exI [of _ bm] exI [of _ ?mv]) blast
qed

declare ok_then_def [code_unfold]

theorem layer_keeps_host_witness:
  "\<exists>merged mv. CheckProjectLayer demo_patterns demo_json (pj_Encode demo_json (JObj demo_layer)) (pj_Encode demo_json (JObj demo_base)) =
     Inr merged \<and> pj_Decode demo_json merged = Some mv \<and>
     value_at mv [''routes'', ''api'', ''host''] = Some (JStr ''api.test'')"
proof -
  let ?m = "rfc_merge (JObj demo_base) (JObj demo_layer)"
  have 1: "layer_problems demo_patterns demo_json demo_layer demo_base = []"
    unfolding layer_problems_def demo_json_simps by code_simp
  have 2: "nullAt ?m [] = []" by code_simp
  have 3: "objects_read ?m" by code_simp
  have "case Lower demo_patterns (demo_document ?m) of Inl _ \<Rightarrow> False | Inr _ \<Rightarrow> True" by code_simp
  then obtain l where 4: "lift_error Unlowered (Lower demo_patterns (demo_document ?m)) = Inr l"
    by (cases "Lower demo_patterns (demo_document ?m)") auto
  have 5: "Unreachable demo_patterns (demo_document ?m) = []" by code_simp
  have d: "DecodeV2 demo_json (pj_Encode demo_json ?m) = Inr (demo_document ?m)"
    unfolding DecodeV2_def demo_json_simps option.case if_P [OF 3] 2 by (simp add: demo_document_def)
  have v: "map_of demo_base ''version'' = Some (JNum ''2'')" by (simp add: demo_base_def)
  have mp: "rfc7396 (pj_Merge demo_json)" unfolding demo_json_simps by (rule rfc_merge)
  note ok = lets_through [OF demo_json_simps(1,1) v demo_json_simps(4) 1 refl, unfolded demo_json_simps(2), OF d 4 5]
  have h: "host_path (document_shape (pj_Operation demo_json)) [''routes'', ''api'', ''host'']"
    "\<not> lost_whole demo_patterns demo_layer [''routes'', ''api'', ''host'']"
    "value_at (JObj demo_base) [''routes'', ''api'', ''host''] = Some (JStr ''api.test'')"
    unfolding demo_json_simps by code_simp+
  from layer_keeps_host [OF mp demo_reads_back ok] obtain lm bm mv where
    dec: "pj_Decode demo_json (pj_Encode demo_json (JObj demo_layer)) = Some (JObj lm)"
      "pj_Decode demo_json (pj_Encode demo_json (JObj demo_base)) = Some (JObj bm)"
      "pj_Decode demo_json (pj_Encode demo_json ?m) = Some mv"
    and kept: "host_path (document_shape (pj_Operation demo_json)) ks \<and> \<not> lost_whole demo_patterns lm ks \<longrightarrow>
      value_at mv ks = value_at (JObj bm) ks" for ks by blast
  from dec(1,2) have "lm = demo_layer" "bm = demo_base" unfolding demo_json_simps by blast+
  with kept h have "value_at mv [''routes'', ''api'', ''host''] = Some (JStr ''api.test'')" by metis
  with ok dec(3) show ?thesis by blast
qed

end
