(* ===== verification/Http_Override.thy ===== *)
theory Http_Override
  imports Docker_Request
begin

text \<open>
  A request as interception is given it, and the method overrides it may hold,
  \<open>internal/intercept/override.go\<close>: the headers, the query parameters and the form of a POST an upstream may
  read another method from are applied, and stripped, before anything is decided.

  A header map is its keys in the order an iteration over it meets them, each once. \<open>F\<close> is Unicode's simple
  folding (\<open>Docker_Image\<close>).
\<close>

section \<open>Requests\<close>

text \<open>\<open>m_Path\<close> is \<open>URL.EscapedPath\<close>. Of a body: whether there is none, the bytes that arrive, and whether
  reading then fails. \<open>m_Tree\<close> is a body Docker's tables judged, where it is sent in the place of the bytes.\<close>

record message =
  m_Method :: string
  m_Path :: string
  m_RawQuery :: string
  m_Host :: string
  m_ProtoMajor :: int
  m_Header :: "(string \<times> string list) list"
  m_NoBody :: bool
  m_Body :: string
  m_fails :: bool
  m_ContentLength :: int
  m_TransferEncoding :: "string list"
  m_Tree :: "members option"

text \<open>\<open>Header.Values\<close> and \<open>Header.Get\<close> of a name in its canonical form, \<open>Del\<close> and \<open>Set\<close>.\<close>

definition Values :: "(string \<times> string list) list \<Rightarrow> string \<Rightarrow> string list" where
  "Values h key = (case map_of h key of None \<Rightarrow> [] | Some vs \<Rightarrow> vs)"

definition Get_header :: "(string \<times> string list) list \<Rightarrow> string \<Rightarrow> string" where
  "Get_header h key = (case Values h key of [] \<Rightarrow> [] | v # _ \<Rightarrow> v)"

definition Del :: "(string \<times> string list) list \<Rightarrow> string \<Rightarrow> (string \<times> string list) list" where
  "Del h key = filter (\<lambda>(k, _). k \<noteq> key) h"

definition Set_header :: "(string \<times> string list) list \<Rightarrow> string \<Rightarrow> string \<Rightarrow> (string \<times> string list) list" where
  "Set_header h key v = Del h key @ [(key, [v])]"

definition setBody :: "message \<Rightarrow> string \<Rightarrow> message" where
  "setBody m b = m\<lparr>m_ContentLength := int (length b), m_NoBody := (b = []), m_Body := b, m_fails := False\<rparr>"

section \<open>Overrides\<close>

definition ReasonOverrideConflict :: string where "ReasonOverrideConflict = ''method overrides disagree''"
definition ReasonOverrideInvalid :: string where "ReasonOverrideInvalid = ''method override is not a method''"
definition ReasonFormUnread :: string where
  "ReasonFormUnread = ''form body too long to read for a method override''"

definition maxForm :: int where "maxForm = 1048576"

definition overrideHeaders :: "string list" where
  "overrideHeaders = [''X-Http-Method-Override'', ''X-Http-Method'', ''X-Method-Override'']"

definition overrideParams :: "string list" where
  "overrideParams = [''$httpmethod'', ''_method'']"

text \<open>\<open>strings.Trim\<close> of spaces and tabs.\<close>

definition trim_blank :: "string \<Rightarrow> string" where
  "trim_blank v = TrimRight (TrimLeft v [CHR '' '', CHR 0x09]) [CHR '' '', CHR 0x09]"

definition isOverrideHeader :: "(int \<Rightarrow> int) \<Rightarrow> string \<Rightarrow> bool" where
  "isOverrideHeader F key \<longleftrightarrow>
     list_ex (EqualFold F (map (\<lambda>c. if c = CHR ''_'' then CHR ''-'' else c) key)) overrideHeaders"

fun param_rounds :: "(int \<Rightarrow> int) \<Rightarrow> nat \<Rightarrow> string \<Rightarrow> bool" where
  "param_rounds F 0 key \<longleftrightarrow> False"
| "param_rounds F (Suc k) key \<longleftrightarrow>
     (if list_ex (EqualFold F key) overrideParams then True
      else case QueryUnescape key of
          None \<Rightarrow> False
        | Some next \<Rightarrow> if next = key then False else param_rounds F k next)"

definition isOverrideParam :: "(int \<Rightarrow> int) \<Rightarrow> string \<Rightarrow> bool" where
  "isOverrideParam F key = param_rounds F maxDecodes key"

definition token_byte :: "char \<Rightarrow> bool" where
  "token_byte c \<longleftrightarrow>
     between CHR ''a'' c CHR ''z'' \<or> between CHR ''A'' c CHR ''Z'' \<or> between CHR ''0'' c CHR ''9'' \<or>
     c \<in> set ''!#$%&'' \<or> c = CHR 0x27 \<or> c \<in> set ''*+-.^_'' \<or> c = CHR 0x60 \<or> c = CHR ''|'' \<or> c = CHR ''~''"

definition validMethod :: "(int \<Rightarrow> int) \<Rightarrow> string \<Rightarrow> bool" where
  "validMethod F m \<longleftrightarrow> \<not> (m = [] \<or> EqualFold F m ''CONNECT'') \<and> list_all token_byte m"

text \<open>The pairs of a raw query, split at \<open>;\<close> as well as at \<open>&\<close>, each with the separator before it.\<close>

fun raw_pairs :: "string \<Rightarrow> string \<Rightarrow> string \<Rightarrow> (string \<times> string) list" where
  "raw_pairs sep acc [] = [(sep, rev acc)]"
| "raw_pairs sep acc (c # cs) =
     (if c = CHR ''&'' \<or> c = CHR '';'' then (sep, rev acc) # raw_pairs [c] [] cs
      else raw_pairs sep (c # acc) cs)"

fun strip_pairs :: "(int \<Rightarrow> int) \<Rightarrow> string \<Rightarrow> string list \<Rightarrow> (string \<times> string) list \<Rightarrow> (string \<times> string list) option" where
  "strip_pairs F kp vals [] = Some (kp, vals)"
| "strip_pairs F kp vals ((sep, pair) # ps) =
     (let (key, v) = Cut CHR ''='' pair in
      if \<not> isOverrideParam F key then
        strip_pairs F ((if kp = [] then [] else kp @ sep) @ pair) vals ps
      else case QueryUnescape (case v of None \<Rightarrow> [] | Some v \<Rightarrow> v) of
          None \<Rightarrow> None
        | Some v \<Rightarrow> strip_pairs F kp (vals @ [v]) ps)"

definition stripOverrideParams :: "(int \<Rightarrow> int) \<Rightarrow> string \<Rightarrow> (string \<times> string list) option" where
  "stripOverrideParams F raw =
     (if raw = [] then Some ([], [])
      else case strip_pairs F [] [] (raw_pairs [] [] raw) of
          None \<Rightarrow> None
        | Some (kp, vals) \<Rightarrow> Some (if vals = [] then raw else kp, vals))"

text \<open>A POST's form, read whole and put back: none where the request is not one, an error where it cannot be
  read whole.\<close>

definition readForm :: "(int \<Rightarrow> int) \<Rightarrow> message \<Rightarrow> unit + string option \<times> message" where
  "readForm F m =
     (let mt = TrimSpace (fst (Cut CHR '';'' (Get_header (m_Header m) ''Content-Type''))) in
      if m_Method m \<noteq> ''POST'' \<or> m_NoBody m then Inr (None, m)
      else if mt \<noteq> [] \<and> \<not> EqualFold F mt ''application/x-www-form-urlencoded'' then Inr (None, m)
      else if int (length (m_Body m)) > maxForm \<or> m_fails m then Inl ()
      else Inr (Some (m_Body m), setBody m (m_Body m)))"

definition header_overrides :: "(int \<Rightarrow> int) \<Rightarrow> (string \<times> string list) list \<Rightarrow> string list" where
  "header_overrides F h = concat (map (\<lambda>(k, vs). map trim_blank vs) (filter (\<lambda>(k, _). isOverrideHeader F k) h))"

text \<open>The loop over what was named: why it is refused, if it is.\<close>

fun names_agree :: "unicode \<Rightarrow> (int \<Rightarrow> int) \<Rightarrow> string \<Rightarrow> string list \<Rightarrow> string option" where
  "names_agree U F meth [] = None"
| "names_agree U F meth (m # ms) =
     (if \<not> validMethod F m then Some ReasonOverrideInvalid
      else if ToUpper U m \<noteq> meth then Some ReasonOverrideConflict
      else names_agree U F meth ms)"

definition replaced :: "message \<Rightarrow> string \<Rightarrow> string \<Rightarrow> string option \<Rightarrow> message" where
  "replaced m meth query form =
     (let m = m\<lparr>m_Method := meth, m_RawQuery := query\<rparr> in
      case form of
        None \<Rightarrow> m
      | Some f \<Rightarrow>
          if (meth = ''GET'' \<or> meth = ''HEAD'') \<and> Get_header (m_Header m) ''Content-Type'' \<noteq> [] then
            setBody (m\<lparr>m_RawQuery := (if query \<noteq> [] \<and> f \<noteq> [] then query @ ''&'' else query) @ f,
              m_Header := Del (m_Header m) ''Content-Type''\<rparr>) []
          else setBody m f)"

text \<open>Why the request is refused, or the method its request line said, where it is another now, and the
  request that is decided.\<close>

definition override :: "unicode \<Rightarrow> (int \<Rightarrow> int) \<Rightarrow> message \<Rightarrow> string + string \<times> message" where
  "override U F m =
     (case readForm F m of
        Inl _ \<Rightarrow> Inl ReasonFormUnread
      | Inr (form, m) \<Rightarrow>
          let headers = header_overrides F (m_Header m);
              m = m\<lparr>m_Header := filter (\<lambda>(k, _). \<not> isOverrideHeader F k) (m_Header m)\<rparr>
          in case stripOverrideParams F (m_RawQuery m) of
            None \<Rightarrow> Inl ReasonOverrideInvalid
          | Some (query, params) \<Rightarrow>
              (case (case form of None \<Rightarrow> Some (None, [])
                   | Some f \<Rightarrow> map_option (\<lambda>(stripped, formed). (Some stripped, formed)) (stripOverrideParams F f)) of
                 None \<Rightarrow> Inl ReasonOverrideInvalid
               | Some (form, formed) \<Rightarrow>
                   let named = headers @ params @ formed in
                   if named = [] then Inr ([], m)
                   else case names_agree U F (ToUpper U (hd named)) named of
                       Some reason \<Rightarrow> Inl reason
                     | None \<Rightarrow> Inr (m_Method m, replaced m (ToUpper U (hd named)) query form)))"

section \<open>What an upstream would read\<close>

text \<open>Every method the headers, the query and a POST's form name, as they would be read again; none where the
  form or a value of one cannot be.\<close>

definition named_in :: "(int \<Rightarrow> int) \<Rightarrow> message \<Rightarrow> string list option" where
  "named_in F m =
     (case readForm F m of
        Inl _ \<Rightarrow> None
      | Inr (form, _) \<Rightarrow>
          (case (stripOverrideParams F (m_RawQuery m), case form of None \<Rightarrow> Some ([], []) | Some f \<Rightarrow> stripOverrideParams F f) of
             (Some (_, params), Some (_, formed)) \<Rightarrow> Some (header_overrides F (m_Header m) @ params @ formed)
           | _ \<Rightarrow> None))"

definition clean_pair :: "(int \<Rightarrow> int) \<Rightarrow> string \<Rightarrow> bool" where
  "clean_pair F pair \<longleftrightarrow> \<not> isOverrideParam F (fst (Cut CHR ''='' pair))"

definition clean :: "(int \<Rightarrow> int) \<Rightarrow> string \<Rightarrow> bool" where
  "clean F s \<longleftrightarrow> list_all (clean_pair F) (map snd (raw_pairs [] [] s))"

abbreviation separator :: "char \<Rightarrow> bool" where
  "separator c \<equiv> c = CHR ''&'' \<or> c = CHR '';''"

lemma raw_pairs_head: "\<exists>p ps. \<forall>sep. raw_pairs sep acc s = (sep, p) # ps"
proof (induction s arbitrary: acc)
  case (Cons c s)
  then show ?case by (cases "separator c") auto
qed simp

lemma raw_pairs_sep: "map snd (raw_pairs sep acc s) = map snd (raw_pairs [] acc s)"
  "tl (raw_pairs sep acc s) = tl (raw_pairs [] acc s)" "fst (hd (raw_pairs sep acc s)) = sep" "raw_pairs sep acc s \<noteq> []"
  using raw_pairs_head [of acc s] by auto

lemma raw_pairs_append:
  "separator c \<Longrightarrow> map snd (raw_pairs sep acc (s @ c # t)) = map snd (raw_pairs sep acc s) @ map snd (raw_pairs [] [] t)"
  by (induction s arbitrary: sep acc) (auto simp: raw_pairs_sep(1) [of "[c]" for c])

lemma raw_pairs_plain: "list_all (\<lambda>c. \<not> separator c) s \<Longrightarrow> raw_pairs sep acc s = [(sep, rev acc @ s)]"
  by (induction s arbitrary: acc) auto

lemma raw_pairs_parts:
  "list_all (\<lambda>c. \<not> separator c) acc \<Longrightarrow> q \<in> set (map snd (raw_pairs sep acc s)) \<Longrightarrow> list_all (\<lambda>c. \<not> separator c) q"
proof (induction s arbitrary: sep acc)
  case (Cons c s)
  consider (cut) "separator c" "q = rev acc \<or> q \<in> set (map snd (raw_pairs [c] [] s))"
    | (go) "\<not> separator c" "q \<in> set (map snd (raw_pairs sep (c # acc) s))"
    using Cons.prems(2) by (cases "separator c") (simp_all only: raw_pairs.simps if_True if_False list.map list.set insert_iff snd_conv, blast+)
  then show ?case
  proof cases
    case cut
    then show ?thesis using Cons.IH [of "[]"] Cons.prems(1) by auto
  next
    case go
    then show ?thesis using Cons.IH [of "c # acc" sep] Cons.prems(1) by auto
  qed
qed simp

lemma raw_pairs_seps: "p \<in> set (tl (raw_pairs sep acc s)) \<Longrightarrow> \<exists>c. fst p = [c] \<and> separator c"
proof (induction s arbitrary: sep acc)
  case (Cons c s)
  show ?case
  proof (cases "separator c")
    case True
    with Cons.prems have "p = hd (raw_pairs [c] [] s) \<or> p \<in> set (tl (raw_pairs [c] [] s))"
      using raw_pairs_sep(4) [of "[c]" "[]" s] by (cases "raw_pairs [c] [] s") auto
    then show ?thesis using Cons.IH raw_pairs_sep(3) [of "[c]" "[]" s] True by auto
  qed (use Cons in auto)
qed simp

lemma raw_pairs_length:
  "sum_list (map (\<lambda>(sep, pair). length sep + length pair) (raw_pairs sep acc s)) = length sep + length acc + length s"
  by (induction s arbitrary: sep acc) auto

lemma isOverrideParam_Nil [simp]: "\<not> isOverrideParam F []"
proof -
  have "runes ''$httpmethod'' \<noteq> []" "runes ''_method'' \<noteq> []" by code_simp+
  then show ?thesis
    by (simp add: isOverrideParam_def maxDecodes_def numeral_eq_Suc overrideParams_def EqualFold_def QueryUnescape_def)
qed

lemma clean_Nil [simp]: "clean F []"
  by (simp add: clean_def clean_pair_def)

lemma clean_append: "separator c \<Longrightarrow> clean F (s @ c # t) \<longleftrightarrow> clean F s \<and> clean F t"
  by (simp add: clean_def raw_pairs_append)

lemma clean_plain: "list_all (\<lambda>c. \<not> separator c) s \<Longrightarrow> clean F s \<longleftrightarrow> clean_pair F s"
  by (simp add: clean_def raw_pairs_plain)

lemma strip_clean: "list_all (clean_pair F) (map snd ps) \<Longrightarrow> \<exists>k'. strip_pairs F k vs ps = Some (k', vs)"
  by (induction ps arbitrary: k) (auto simp: clean_pair_def Let_def split: prod.split)

lemma strip_again: "clean F s \<Longrightarrow> stripOverrideParams F s = Some (s, [])"
  using strip_clean [of F "raw_pairs [] [] s" "[]" "[]"] by (auto simp: stripOverrideParams_def clean_def)

lemma strip_values: "strip_pairs F k vs ps = Some (k', vs') \<Longrightarrow> \<exists>more. vs' = vs @ more \<and> (more = [] \<longrightarrow> list_all (clean_pair F) (map snd ps))"
proof (induction ps arbitrary: k vs)
  case (Cons p ps)
  obtain sep pair where p: "p = (sep, pair)" by (cases p)
  obtain key v where c: "Cut CHR ''='' pair = (key, v)" by (cases "Cut CHR ''='' pair")
  show ?case
  proof (cases "isOverrideParam F key")
    case False
    with Cons p c show ?thesis by (auto simp: clean_pair_def)
  next
    case True
    with Cons.prems p c obtain x where "strip_pairs F k (vs @ [x]) ps = Some (k', vs')" by (auto split: option.splits)
    from Cons.IH [OF this] show ?thesis by auto
  qed
qed simp

lemma strip_pairs_clean:
  assumes "strip_pairs F k vs ps = Some (k', vs')" "clean F k"
    and "\<And>p. p \<in> set ps \<Longrightarrow> list_all (\<lambda>c. \<not> separator c) (snd p)"
    and "\<And>p. p \<in> set (if k = [] then tl ps else ps) \<Longrightarrow> \<exists>c. fst p = [c] \<and> separator c"
  shows "clean F k' \<and> length k' \<le> length k + sum_list (map (\<lambda>(sep, pair). length sep + length pair) ps)"
  using assms
proof (induction ps arbitrary: k vs)
  case (Cons p ps)
  obtain sep pair where p: "p = (sep, pair)" by (cases p)
  obtain key v where c: "Cut CHR ''='' pair = (key, v)" by (cases "Cut CHR ''='' pair")
  have plain: "list_all (\<lambda>c. \<not> separator c) pair" using Cons.prems(3) [of p] p by simp
  have seps: "\<exists>c. fst q = [c] \<and> separator c" if "q \<in> set ps" for q
    using Cons.prems(4) [of q] that by (auto split: if_splits)
  show ?case
  proof (cases "isOverrideParam F key")
    case True
    with Cons.prems(1) p c obtain x where s: "strip_pairs F k (vs @ [x]) ps = Some (k', vs')" by (auto split: option.splits)
    have "clean F k' \<and> length k' \<le> length k + sum_list (map (\<lambda>(sep, pair). length sep + length pair) ps)"
    proof (rule Cons.IH [OF s Cons.prems(2)])
      show "q \<in> set ps \<Longrightarrow> list_all (\<lambda>c. \<not> separator c) (snd q)" for q using Cons.prems(3) by simp
      show "q \<in> set (if k = [] then tl ps else ps) \<Longrightarrow> \<exists>c. fst q = [c] \<and> separator c" for q
        using seps list.set_sel(2) by (cases ps) (auto split: if_splits)
    qed
    then show ?thesis using p by simp
  next
    case False
    let ?k = "(if k = [] then [] else k @ sep) @ pair"
    have s: "strip_pairs F ?k vs ps = Some (k', vs')" using Cons.prems(1) p c False by simp
    have pair: "clean F pair" using clean_plain [OF plain] False c by (simp add: clean_pair_def)
    have kclean: "clean F ?k"
    proof (cases "k = []")
      case False
      then obtain d where "sep = [d]" "separator d" using Cons.prems(4) [of p] p by auto
      then show ?thesis using clean_append [of d F k pair] pair Cons.prems(2) False by simp
    qed (use pair in simp)
    have "clean F k' \<and> length k' \<le> length ?k + sum_list (map (\<lambda>(sep, pair). length sep + length pair) ps)"
    proof (rule Cons.IH [OF s kclean])
      show "q \<in> set ps \<Longrightarrow> list_all (\<lambda>c. \<not> separator c) (snd q)" for q using Cons.prems(3) by simp
      show "q \<in> set (if ?k = [] then tl ps else ps) \<Longrightarrow> \<exists>c. fst q = [c] \<and> separator c" for q
        using seps list.set_sel(2) by (cases ps) (auto split: if_splits)
    qed
    then show ?thesis using p by (auto split: if_splits)
  qed
qed simp

lemma stripOverrideParams_clean:
  assumes "stripOverrideParams F raw = Some (q, vs)"
  shows "clean F q" "length q \<le> length raw"
proof -
  have "clean F q \<and> length q \<le> length raw"
  proof (cases "raw = []")
    case False
    with assms obtain kp where s: "strip_pairs F [] [] (raw_pairs [] [] raw) = Some (kp, vs)" "q = (if vs = [] then raw else kp)"
      by (auto simp: stripOverrideParams_def split: option.splits)
    have "clean F kp \<and> length kp \<le> length raw"
      using strip_pairs_clean [OF s(1)] raw_pairs_parts [of "[]" _ "[]" raw] raw_pairs_seps [of _ "[]" "[]" raw]
        raw_pairs_length [of "[]" "[]" raw] by force
    moreover have "clean F raw" if "vs = []" using strip_values [OF s(1)] that by (simp add: clean_def)
    ultimately show ?thesis using s(2) by auto
  qed (use assms in \<open>simp add: stripOverrideParams_def\<close>)
  then show "clean F q" "length q \<le> length raw" by blast+
qed

lemma Content_Type_kept: "\<not> isOverrideHeader F ''Content-Type''"
proof -
  have "list_all (\<lambda>h. length (runes ''Content-Type'') \<noteq> length (runes h)) overrideHeaders" by code_simp
  then show ?thesis
    by (auto simp: isOverrideHeader_def EqualFold_def list_all_iff list_ex_iff dest: map_eq_imp_length_eq)
qed

lemma Values_filter: "P k \<Longrightarrow> Values (filter (\<lambda>(k, _). P k) h) k = Values h k"
  by (induction h) (auto simp: Values_def split: option.splits)

lemma header_overrides_filter: "header_overrides F (filter (\<lambda>(k, _). \<not> isOverrideHeader F k) h) = []"
  by (induction h) (auto simp: header_overrides_def)

lemma header_overrides_Del: "header_overrides F h = [] \<Longrightarrow> header_overrides F (Del h k) = []"
  by (induction h) (auto simp: header_overrides_def Del_def split: if_splits)

lemma names_agree_None:
  "names_agree U F meth ms = None \<longleftrightarrow> list_all (\<lambda>m. validMethod F m \<and> ToUpper U m = meth) ms"
  by (induction ms) auto

lemma strip_none: "stripOverrideParams F raw = Some (q, []) \<Longrightarrow> clean F raw"
  using stripOverrideParams_clean(1) [of F raw q "[]"] by (auto simp: stripOverrideParams_def split: if_splits option.splits)

text \<open>The form of a request that is still a POST, once its overrides are gone.\<close>

lemma readForm_cases:
  assumes "readForm F m = Inr (form, m1)"
  shows "form = None \<Longrightarrow> m1 = m"
    "form = Some f \<Longrightarrow> m_Method m = ''POST'' \<and> m1 = setBody m (m_Body m) \<and> f = m_Body m \<and> int (length f) \<le> maxForm"
  using assms by (auto simp: readForm_def Let_def split: if_splits)

lemma readForm_same:
  assumes "readForm F m = Inr (form, m1)"
  shows "m_RawQuery m1 = m_RawQuery m" "m_Header m1 = m_Header m" "m_Method m1 = m_Method m"
  using assms by (auto simp: readForm_def Let_def setBody_def split: if_splits)

lemma readForm_again:
  assumes "readForm F m = Inr (form, m1)" "m_Method m' = m_Method m"
    "Values (m_Header m') ''Content-Type'' = Values (m_Header m) ''Content-Type''"
    "case form of None \<Rightarrow> m_NoBody m' = m_NoBody m \<and> m_Body m' = m_Body m \<and> m_fails m' = m_fails m
      | Some f \<Rightarrow> clean F (m_Body m') \<and> length (m_Body m') \<le> length f \<and> m_NoBody m' = (m_Body m' = []) \<and> \<not> m_fails m'"
  shows "\<exists>form' m2. readForm F m' = Inr (form', m2) \<and> (form' = None \<or> (\<exists>g. form' = Some g \<and> clean F g))"
  using assms by (auto simp: readForm_def Let_def Get_header_def maxForm_def split: if_splits option.splits)

lemma named_in_none:
  assumes "readForm F m = Inr (form, m1)" "form = None \<or> (\<exists>g. form = Some g \<and> clean F g)"
    "clean F (m_RawQuery m)" "header_overrides F (m_Header m) = []"
  shows "named_in F m = Some []"
  using assms by (auto simp: named_in_def strip_again)

lemma replaced_simps:
  "m_Method (replaced m meth q form) = meth"
  "header_overrides F (m_Header m) = [] \<Longrightarrow> header_overrides F (m_Header (replaced m meth q form)) = []"
  by (auto simp: replaced_def setBody_def header_overrides_Del Let_def split: option.splits)

lemma replaced_clean:
  "clean F q \<Longrightarrow> (case form of None \<Rightarrow> True | Some f \<Rightarrow> clean F f) \<Longrightarrow> clean F (m_RawQuery (replaced m meth q form))"
  using clean_append [of "CHR ''&''" F q]
  by (auto simp: replaced_def setBody_def Let_def split: option.splits)

lemma replaced_post:
  "replaced h ''POST'' q st = (case st of None \<Rightarrow> h\<lparr>m_Method := ''POST'', m_RawQuery := q\<rparr>
     | Some g \<Rightarrow> setBody (h\<lparr>m_Method := ''POST'', m_RawQuery := q\<rparr>) g)"
  by (simp add: replaced_def Let_def split: option.split)

lemma replaced_form:
  assumes "readForm F m = Inr (form, m1)" "m_Method m = ''POST'' \<or> m_Method m' \<noteq> ''POST''"
    and m': "m' = replaced h (m_Method m') q st"
    and ct: "Values (m_Header h) ''Content-Type'' = Values (m_Header m) ''Content-Type''"
    and body: "case form of None \<Rightarrow> m_NoBody h = m_NoBody m \<and> m_Body h = m_Body m \<and> m_fails h = m_fails m
      | Some f \<Rightarrow> m_Body h = f \<and> m_NoBody h = (f = []) \<and> \<not> m_fails h"
    and sc: "case st of None \<Rightarrow> form = None | Some g \<Rightarrow> \<exists>f. form = Some f \<and> clean F g \<and> length g \<le> length f"
  shows "\<exists>form' m2. readForm F m' = Inr (form', m2) \<and> (form' = None \<or> (\<exists>g. form' = Some g \<and> clean F g))"
proof (cases "m_Method m' = ''POST''")
  case True
  with assms(2) have post: "m_Method m' = m_Method m" by simp
  from m' have e: "m' = replaced h ''POST'' q st" unfolding True .
  show ?thesis
  proof (rule readForm_again [OF assms(1) post])
    show "Values (m_Header m') ''Content-Type'' = Values (m_Header m) ''Content-Type''"
      using ct unfolding e replaced_post by (cases st) (simp_all add: setBody_def)
    show "case form of None \<Rightarrow> m_NoBody m' = m_NoBody m \<and> m_Body m' = m_Body m \<and> m_fails m' = m_fails m
      | Some f \<Rightarrow> clean F (m_Body m') \<and> length (m_Body m') \<le> length f \<and> m_NoBody m' = (m_Body m' = []) \<and> \<not> m_fails m'"
      using sc body unfolding e replaced_post by (cases st) (auto simp: setBody_def)
  qed
qed (simp add: readForm_def)

lemma override_Inr:
  assumes "override U F m = Inr (sent, m')"
  obtains form m1 h query params formed stripped where
    "readForm F m = Inr (form, m1)" "h = m1\<lparr>m_Header := filter (\<lambda>(k, _). \<not> isOverrideHeader F k) (m_Header m1)\<rparr>"
    "stripOverrideParams F (m_RawQuery m) = Some (query, params)"
    "case form of None \<Rightarrow> stripped = None \<and> formed = []
      | Some f \<Rightarrow> \<exists>g. stripped = Some g \<and> stripOverrideParams F f = Some (g, formed)"
    "named_in F m = Some (header_overrides F (m_Header m) @ params @ formed)"
    "header_overrides F (m_Header m) @ params @ formed = [] \<and> m' = h \<and> sent = [] \<or>
     names_agree U F (m_Method m') (header_overrides F (m_Header m) @ params @ formed) = None \<and>
     header_overrides F (m_Header m) @ params @ formed \<noteq> [] \<and> sent = m_Method m \<and>
     m' = replaced h (m_Method m') query stripped"
proof -
  from assms obtain form m1 where f: "readForm F m = Inr (form, m1)" by (auto simp: override_def split: sum.splits)
  let ?h = "m1\<lparr>m_Header := filter (\<lambda>(k, _). \<not> isOverrideHeader F k) (m_Header m1)\<rparr>"
  have same: "m_RawQuery m1 = m_RawQuery m" "m_Header m1 = m_Header m" "m_Method m1 = m_Method m" by (rule readForm_same [OF f])+
  from assms f same obtain query params where q: "stripOverrideParams F (m_RawQuery m) = Some (query, params)"
    by (auto simp: override_def Let_def split: option.splits)
  from assms f same q obtain stripped formed where
    s: "(case form of None \<Rightarrow> Some (None, [])
      | Some f \<Rightarrow> map_option (\<lambda>(stripped, formed). (Some stripped, formed)) (stripOverrideParams F f)) = Some (stripped, formed)"
    by (auto simp: override_def Let_def split: option.splits)
  let ?named = "header_overrides F (m_Header m) @ params @ formed"
  have "case form of None \<Rightarrow> stripped = None \<and> formed = []
      | Some f \<Rightarrow> \<exists>g. stripped = Some g \<and> stripOverrideParams F f = Some (g, formed)"
    using s by (cases form) auto
  moreover from this have "named_in F m = Some ?named" using f q by (cases form) (auto simp: named_in_def)
  moreover have e: "override U F m = (if ?named = [] then Inr ([], ?h)
      else case names_agree U F (ToUpper U (hd ?named)) ?named of
          Some reason \<Rightarrow> Inl reason
        | None \<Rightarrow> Inr (m_Method m, replaced ?h (ToUpper U (hd ?named)) query stripped))"
    using f q s same by (simp add: override_def Let_def cong: option.case_cong)
  have "?named = [] \<and> m' = ?h \<and> sent = [] \<or>
     names_agree U F (m_Method m') ?named = None \<and> ?named \<noteq> [] \<and> sent = m_Method m \<and> m' = replaced ?h (m_Method m') query stripped"
  proof (cases "?named = []")
    case True
    with assms show ?thesis unfolding e by simp
  next
    case False
    with assms e have "names_agree U F (ToUpper U (hd ?named)) ?named = None"
      "m' = replaced ?h (ToUpper U (hd ?named)) query stripped" "sent = m_Method m"
      by (simp_all only: if_False split: option.splits) auto
    with False show ?thesis by (simp only: replaced_simps simp_thms)
  qed
  ultimately show thesis using that [OF f refl q] by blast
qed

text \<open>
  C8: Where a request was a POST, or has not become one, what goes on after its method overrides were applied names
  no method to an upstream that reads one from its headers, its query or a POST's form, and the method it is decided
  and sent as is the one every override it held named, or its own where it held none. Of a request that was no POST
  and becomes one this is not so: its form is left as it was (\<open>override_form_left\<close>).
\<close>

theorem override_final:
  assumes "override U F m = Inr (sent, m')" "m_Method m = ''POST'' \<or> m_Method m' \<noteq> ''POST''"
  shows "named_in F m' = Some [] \<and>
    (\<exists>named. named_in F m = Some named \<and>
      (if named = [] then sent = [] \<and> m_Method m' = m_Method m
       else sent = m_Method m \<and> list_all (\<lambda>n. validMethod F n \<and> ToUpper U n = m_Method m') named))"
proof -
  from assms(1) obtain form m1 h query params formed stripped where
    f: "readForm F m = Inr (form, m1)" and h: "h = m1\<lparr>m_Header := filter (\<lambda>(k, _). \<not> isOverrideHeader F k) (m_Header m1)\<rparr>"
    and q: "stripOverrideParams F (m_RawQuery m) = Some (query, params)"
    and s: "case form of None \<Rightarrow> stripped = None \<and> formed = []
      | Some f \<Rightarrow> \<exists>g. stripped = Some g \<and> stripOverrideParams F f = Some (g, formed)"
    and n: "named_in F m = Some (header_overrides F (m_Header m) @ params @ formed)"
    and r: "header_overrides F (m_Header m) @ params @ formed = [] \<and> m' = h \<and> sent = [] \<or>
     names_agree U F (m_Method m') (header_overrides F (m_Header m) @ params @ formed) = None \<and>
     header_overrides F (m_Header m) @ params @ formed \<noteq> [] \<and> sent = m_Method m \<and>
     m' = replaced h (m_Method m') query stripped"
    by (rule override_Inr)
  let ?named = "header_overrides F (m_Header m) @ params @ formed"
  have same: "m_RawQuery m1 = m_RawQuery m" "m_Header m1 = m_Header m" "m_Method m1 = m_Method m" by (rule readForm_same [OF f])+
  have hd: "header_overrides F (m_Header h) = []" "m_RawQuery h = m_RawQuery m" "m_Method h = m_Method m"
    unfolding h by (simp_all add: header_overrides_filter same)
  have ct: "Values (m_Header h) ''Content-Type'' = Values (m_Header m) ''Content-Type''"
    unfolding h using Values_filter [of "\<lambda>k. \<not> isOverrideHeader F k" "''Content-Type''"] Content_Type_kept by (simp add: same)
  have sc: "case stripped of None \<Rightarrow> form = None | Some g \<Rightarrow> \<exists>f. form = Some f \<and> clean F g \<and> length g \<le> length f"
    using s stripOverrideParams_clean by (cases form) auto
  have body: "case form of None \<Rightarrow> m_NoBody h = m_NoBody m \<and> m_Body h = m_Body m \<and> m_fails h = m_fails m
      | Some f \<Rightarrow> m_Body h = f \<and> m_NoBody h = (f = []) \<and> \<not> m_fails h"
    using h readForm_cases [OF f] by (cases form) (auto simp: setBody_def)
  have "named_in F m' = Some []"
  proof (cases "?named = []")
    case True
    with r have m': "m' = h" by blast
    have "clean F (m_RawQuery h)" using strip_none [of F _ query] q True hd(2) by simp
    moreover obtain form' m2 where "readForm F h = Inr (form', m2)" "form' = None \<or> (\<exists>g. form' = Some g \<and> clean F g)"
      using readForm_again [OF f hd(3) ct] body s True strip_none by (cases form) auto
    ultimately show ?thesis using named_in_none [OF _ _ _ hd(1)] m' by blast
  next
    case False
    with r have m': "m' = replaced h (m_Method m') query stripped" by blast
    have q': "clean F (m_RawQuery m')"
      using replaced_clean [OF stripOverrideParams_clean(1) [OF q], of stripped h "m_Method m'"] sc m' by (cases stripped) auto
    have "\<exists>form' m2. readForm F m' = Inr (form', m2) \<and> (form' = None \<or> (\<exists>g. form' = Some g \<and> clean F g))"
      by (rule replaced_form [OF f assms(2) m' ct body sc])
    moreover have "header_overrides F (m_Header m') = []" by (subst m') (rule replaced_simps(2) [OF hd(1)])
    ultimately show ?thesis using named_in_none q' by blast
  qed
  moreover have "if ?named = [] then sent = [] \<and> m_Method m' = m_Method m
       else sent = m_Method m \<and> list_all (\<lambda>n. validMethod F n \<and> ToUpper U n = m_Method m') ?named"
    using r hd(3) by (auto simp: names_agree_None)
  ultimately show ?thesis using n by blast
qed


text \<open>A PUT that a header makes a POST is not read for a form, so what its form names is left in it: the request is
  decided as a POST, and run as what its form says.\<close>

definition form_put :: message where
  "form_put =
     \<lparr>m_Method = ''PUT'', m_Path = ''/a'', m_RawQuery = [], m_Host = ''api.example.com'', m_ProtoMajor = 1,
      m_Header = [(''Content-Type'', [''application/x-www-form-urlencoded'']), (''X-Http-Method-Override'', [''POST''])],
      m_NoBody = False, m_Body = ''_method=DELETE'', m_fails = False, m_ContentLength = 14, m_TransferEncoding = [],
      m_Tree = None\<rparr>"

lemma override_form_left:
  "\<exists>m'. override ascii_unicode latin_fold form_put = Inr (''PUT'', m') \<and> m_Method m' = ''POST'' \<and>
     m_Body m' = ''_method=DELETE'' \<and> named_in latin_fold m' = Some [''DELETE'']"
proof -
  have "map_sum id (\<lambda>(sent, m'). (sent, m_Method m', m_Body m', named_in latin_fold m')) (override ascii_unicode latin_fold form_put) =
    Inr (''PUT'', ''POST'', ''_method=DELETE'', Some [''DELETE''])"
    by code_simp
  then show ?thesis by (cases "override ascii_unicode latin_fold form_put") auto
qed

lemma override_final_witness:
  "named_in latin_fold (form_put\<lparr>m_Header := [(''Content-Type'', [''application/x-www-form-urlencoded''])],
     m_Method := ''DELETE'', m_RawQuery := ''a=b''\<rparr>) = Some []"
proof -
  let ?m = "form_put\<lparr>m_Header := [(''Content-Type'', [''application/x-www-form-urlencoded'']), (''X_HTTP_METHOD'', ['' delete'']) ],
    m_Method := ''GET'', m_RawQuery := ''%5Fmethod=DELETE;a=b''\<rparr>"
  let ?m' = "form_put\<lparr>m_Header := [(''Content-Type'', [''application/x-www-form-urlencoded''])],
     m_Method := ''DELETE'', m_RawQuery := ''a=b''\<rparr>"
  have e: "override ascii_unicode latin_fold ?m = Inr (''GET'', ?m')" by code_simp
  have "m_Method ?m' \<noteq> ''POST''" by code_simp
  with override_final [OF e] show ?thesis by blast
qed

end
