(* ===== verification/Http_Key.thy ===== *)
theory Http_Key
  imports Http_Override Dns_Match
begin

text \<open>
  A session's key, \<open>internal/intercept/sessionkey.go\<close>: the JWTs it signed, checked and remembered, the token URLs
  answered here, and what they are answered.

  go-jose and \<open>encoding/json\<close> are given: \<open>jo_Verify\<close> is the payload of a compact RS256 token the key signed,
  \<open>jo_Claims\<close> what is read of a payload, \<open>jo_Sum\<close> SHA-256. Times are in nanoseconds of Unix time; a claim's is
  an \<open>int64\<close> of seconds. The ID token's text is left out, and the lock, which makes each part one step.
\<close>

section \<open>Tokens\<close>

record jwt_claims =
  jc_Issuer :: string
  jc_Subject :: string
  jc_Audience :: "string list"
  jc_Expiry :: "int option"
  jc_IssuedAt :: "int option"
  jc_NotBefore :: "int option"
  jc_Scope :: string
  jc_TargetAudience :: string

record jose =
  jo_Verify :: "string \<Rightarrow> string option"
  jo_Claims :: "string \<Rightarrow> jwt_claims option"
  jo_Sum :: "string \<Rightarrow> string"

datatype jwt_error =
  ErrClaims | ErrIssuer | ErrSubject | ErrExpired | ErrLifetime | ErrAudience | ErrNoAudience | ErrGrantAud
| ErrGrantMethod | ErrGrantForm | ErrGrantType | ErrGrantUnsound

fun jwt_Error :: "jwt_error \<Rightarrow> string" where
  "jwt_Error ErrClaims = ''session key JWT: claims are not a JWT's''"
| "jwt_Error ErrIssuer = ''session key JWT: issuer is not the session's''"
| "jwt_Error ErrSubject = ''session key JWT: subject is not the session's''"
| "jwt_Error ErrExpired = ''session key JWT: expired''"
| "jwt_Error ErrLifetime = ''session key JWT: issued in the future, or lives longer than an hour''"
| "jwt_Error ErrAudience = ''session key JWT: audience is not a host this route serves''"
| "jwt_Error ErrNoAudience = ''session key JWT: neither an audience nor a scope''"
| "jwt_Error ErrGrantAud = ''session key JWT: audience is not a token URL''"
| "jwt_Error ErrGrantMethod = ''grant: not a POST''"
| "jwt_Error ErrGrantForm = ''grant: not one form of one grant_type and one assertion''"
| "jwt_Error ErrGrantType = ''grant: grant_type is not jwt-bearer''"
| "jwt_Error ErrGrantUnsound = ''grant: assertion not signed by the session key''"

abbreviation seconds :: int where "seconds \<equiv> 1000000000"

definition jwtSkew :: int where "jwtSkew = 5 * 60 * seconds"
definition jwtMaxLife :: int where "jwtMaxLife = 60 * 60 * seconds + jwtSkew"
definition maxGrantBody :: int where "maxGrantBody = 65536"
definition maxVerified :: nat where "maxVerified = 4096"
definition minKeyBits :: int where "minKeyBits = 2048"
definition jwtBearer :: string where "jwtBearer = ''urn:ietf:params:oauth:grant-type:jwt-bearer''"

text \<open>\<open>time.Unix(s, 0)\<close>: a time counts from year 1 in an \<open>int64\<close>, which wraps.\<close>

definition unix_time :: "int \<Rightarrow> int" where
  "unix_time s = ((s + 62135596800 + 2 ^ 63) mod 2 ^ 64 - 2 ^ 63 - 62135596800) * seconds"

record verified =
  vf_exp :: int
  vf_aud :: "string list"
  vf_scope :: bool

text \<open>The key as a document gives it, of \<open>hk_Bits\<close> bits, none where there is none; and checked. What a route
  serves is an argument of what asks it.\<close>

record http_key =
  hk_Bits :: int
  hk_Issuer :: string
  hk_Grants :: "string list"

record live_key =
  jk_Issuer :: string
  jk_grants :: "string list"
  jk_auds :: "string list"
  jk_seen :: "(string \<times> verified) list"

datatype key_error = KeyBits | KeyIssuer | GrantShape string | GrantHost string

fun compile_grants ::
    "unicode \<Rightarrow> (string \<Rightarrow> bool) \<Rightarrow> live_key \<Rightarrow> string list \<Rightarrow> key_error + live_key" where
  "compile_grants U serves c [] = Inr c"
| "compile_grants U serves c (g # gs) =
     (let (host, p) = Cut CHR ''/'' g; path = (case p of None \<Rightarrow> [] | Some p \<Rightarrow> p) in
      case splitPath (CHR ''/'' # path) of
        None \<Rightarrow> Inl (GrantShape g)
      | Some ss \<Rightarrow>
          if p = None \<or> host \<noteq> Normalize host \<or> \<not> ValidQueryName host \<or> list_ex (\<lambda>c. c = CHR ''?'' \<or> c = CHR ''#'') path
          then Inl (GrantShape g)
          else if \<not> serves host then Inl (GrantHost g)
          else compile_grants U serves
            (c\<lparr>jk_grants := jk_grants c @ [host @ ''/'' @ Join CHR ''/'' (fst (lenient U ss))],
               jk_auds := jk_auds c @ [''https://'' @ g]\<rparr>) gs)"

definition compileSessionKey :: "unicode \<Rightarrow> (string \<Rightarrow> bool) \<Rightarrow> http_key \<Rightarrow> key_error + live_key" where
  "compileSessionKey U serves k =
     (if hk_Bits k < minKeyBits then Inl KeyBits
      else if hk_Issuer k = [] \<or> list_ex (\<lambda>c. c \<in> {CHR '' '', CHR 0x09, CHR 0x0D, CHR 0x0A}) (hk_Issuer k) then Inl KeyIssuer
      else compile_grants U serves \<lparr>jk_Issuer = hk_Issuer k, jk_grants = [], jk_auds = [], jk_seen = []\<rparr> (hk_Grants k))"

text \<open>A token the key did not sign; one it did whose claims are not the session's; or its claims.\<close>

datatype verification = NotOurs | Unsound jwt_error | Sound jwt_claims

definition check_claims :: "live_key \<Rightarrow> int \<Rightarrow> jwt_claims \<Rightarrow> verification" where
  "check_claims k now c =
     (if jc_Issuer c \<noteq> jk_Issuer k then Unsound ErrIssuer
      else if jc_Subject c \<noteq> [] \<and> jc_Subject c \<noteq> jk_Issuer k then Unsound ErrSubject
      else case (jc_Expiry c, jc_IssuedAt c) of
        (Some e, Some i) \<Rightarrow>
          if \<not> now < unix_time e then Unsound ErrExpired
          else if unix_time i > now + jwtSkew \<or> unix_time e - unix_time i > jwtMaxLife then Unsound ErrLifetime
          else if (case jc_NotBefore c of None \<Rightarrow> False | Some n \<Rightarrow> unix_time n > now + jwtSkew) then Unsound ErrLifetime
          else Sound c
      | _ \<Rightarrow> Unsound ErrLifetime)"

definition verify :: "jose \<Rightarrow> live_key \<Rightarrow> string \<Rightarrow> int \<Rightarrow> verification" where
  "verify J k jwt now =
     (case jo_Verify J jwt of
        None \<Rightarrow> NotOurs
      | Some payload \<Rightarrow>
          (case jo_Claims J payload of None \<Rightarrow> Unsound ErrClaims | Some c \<Rightarrow> check_claims k now c))"

section \<open>A bearer token\<close>

definition servesAudience :: "(string \<Rightarrow> bool) \<Rightarrow> string \<Rightarrow> bool" where
  "servesAudience serves aud \<longleftrightarrow>
     (case CutPrefix aud ''https://'' of
        None \<Rightarrow> False
      | Some n \<Rightarrow> (case CutSuffix n ''/'' of None \<Rightarrow> False | Some n \<Rightarrow> serves n))"

text \<open>What is remembered, over a full memory: everything expired goes, and more until there is room, in the order
  an iteration over the map meets it.\<close>

fun prune :: "nat \<Rightarrow> int \<Rightarrow> (string \<times> verified) list \<Rightarrow> (string \<times> verified) list" where
  "prune n now [] = []"
| "prune n now (e # es) =
     (if \<not> now < vf_exp (snd e) \<or> n \<ge> maxVerified then prune (n - 1) now es else e # prune n now es)"

definition remembered :: "live_key \<Rightarrow> string \<Rightarrow> verified \<Rightarrow> int \<Rightarrow> live_key" where
  "remembered k s v now =
     k\<lparr>jk_seen := put s v (if length (jk_seen k) \<ge> maxVerified then prune (length (jk_seen k)) now (jk_seen k) else jk_seen k)\<rparr>"

definition audience_of :: "(string \<Rightarrow> bool) \<Rightarrow> verified \<Rightarrow> bool \<times> string" where
  "audience_of serves v =
     (case vf_aud v of
        [] \<Rightarrow> (True, if vf_scope v then [] else jwt_Error ErrNoAudience)
      | [a] \<Rightarrow> (True, if servesAudience serves a then [] else jwt_Error ErrAudience)
      | _ \<Rightarrow> (True, jwt_Error ErrAudience))"

definition bearer :: "jose \<Rightarrow> (string \<Rightarrow> bool) \<Rightarrow> live_key \<Rightarrow> string \<Rightarrow> int \<Rightarrow> (bool \<times> string) \<times> live_key" where
  "bearer J serves k jwt now =
     (let s = jo_Sum J jwt in
      case (case map_of (jk_seen k) s of Some v \<Rightarrow> if now < vf_exp v then Some v else None | None \<Rightarrow> None) of
        Some v \<Rightarrow> (audience_of serves v, k)
      | None \<Rightarrow>
          (case verify J k jwt now of
             NotOurs \<Rightarrow> ((False, []), k)
           | Unsound e \<Rightarrow> ((True, jwt_Error e), k)
           | Sound c \<Rightarrow>
               let v = \<lparr>vf_exp = unix_time (the (jc_Expiry c)), vf_aud = jc_Audience c, vf_scope = (jc_Scope c \<noteq> [])\<rparr>
               in (audience_of serves v, remembered k s v now)))"

section \<open>Grants\<close>

definition grant :: "unicode \<Rightarrow> live_key \<Rightarrow> string \<Rightarrow> string \<Rightarrow> bool" where
  "grant U k host escaped \<longleftrightarrow>
     (case splitPath escaped of
        None \<Rightarrow> False
      | Some ss \<Rightarrow>
          let (whole, split) = lenient U ss in
          host @ ''/'' @ Join CHR ''/'' whole \<in> set (jk_grants k) \<or> host @ ''/'' @ Join CHR ''/'' split \<in> set (jk_grants k))"

text \<open>\<open>ParseForm\<close>'s \<open>PostForm\<close> of a POST, whose body is bounded; none where it is in error.\<close>

definition PostForm :: "(string \<Rightarrow> (string \<times> (string \<times> string) list) option) \<Rightarrow> message \<Rightarrow> (string \<times> string) list option" where
  "PostForm media m =
     (let ct = Get_header (m_Header m) ''Content-Type''; query_err = fst (ParseQuery (m_RawQuery m)) in
      case media (if ct = [] then ''application/octet-stream'' else ct) of
        None \<Rightarrow> None
      | Some (t, _) \<Rightarrow>
          if t \<noteq> ''application/x-www-form-urlencoded'' then (if query_err then None else Some [])
          else if \<not> m_NoBody m \<and> (int (length (m_Body m)) > maxGrantBody \<or> m_fails m) then None
          else
            (case ParseQuery (if m_NoBody m then [] else m_Body m) of
               (err, ps) \<Rightarrow> if err \<or> query_err then None else Some ps))"

text \<open>What a token URL is answered: the placeholder, an ID token for an audience signed by nobody, or why not.\<close>

datatype grant_answer = AccessToken string | IDToken string string | GrantRefused string jwt_error

definition grant_answer_of ::
    "jose \<Rightarrow> (string \<Rightarrow> (string \<times> (string \<times> string) list) option) \<Rightarrow> live_key \<Rightarrow> message \<Rightarrow> string \<Rightarrow> int \<Rightarrow> grant_answer" where
  "grant_answer_of J media k m placeholder now =
     (if m_Method m \<noteq> ''POST'' then GrantRefused ''invalid_request'' ErrGrantMethod
      else case PostForm media m of
        None \<Rightarrow> GrantRefused ''invalid_request'' ErrGrantForm
      | Some form \<Rightarrow>
          if length (query_values form ''grant_type'') \<noteq> 1 \<or> length (query_values form ''assertion'') > 1
          then GrantRefused ''invalid_request'' ErrGrantForm
          else if query_values form ''grant_type'' \<noteq> [jwtBearer] then GrantRefused ''unsupported_grant_type'' ErrGrantType
          else
            (case verify J k (case query_values form ''assertion'' of [] \<Rightarrow> [] | a # _ \<Rightarrow> a) now of
               NotOurs \<Rightarrow> GrantRefused ''invalid_grant'' ErrGrantUnsound
             | Unsound e \<Rightarrow> GrantRefused ''invalid_grant'' e
             | Sound c \<Rightarrow>
                 if \<not> (case jc_Audience c of [a] \<Rightarrow> a \<in> set (jk_auds k) | _ \<Rightarrow> False)
                 then GrantRefused ''invalid_grant'' ErrGrantAud
                 else if jc_TargetAudience c \<noteq> [] then IDToken (jk_Issuer k) (jc_TargetAudience c)
                 else AccessToken placeholder))"

section \<open>What is remembered\<close>

text \<open>What a token must be at a time: signed by the key, its claims the session's and in date, within five minutes of
  another clock and an hour of life, and for a host the route serves or for a scope.\<close>

definition sound_claims :: "string \<Rightarrow> int \<Rightarrow> jwt_claims \<Rightarrow> bool" where
  "sound_claims issuer now c \<longleftrightarrow>
     jc_Issuer c = issuer \<and> jc_Subject c \<in> {[], issuer} \<and>
     (\<exists>e i. jc_Expiry c = Some e \<and> jc_IssuedAt c = Some i \<and> now < unix_time e \<and> unix_time i \<le> now + 300 * seconds \<and>
        unix_time e \<le> unix_time i + 3900 * seconds) \<and>
     (\<forall>n. jc_NotBefore c = Some n \<longrightarrow> unix_time n \<le> now + 300 * seconds)"

definition fresh_ok :: "jose \<Rightarrow> (string \<Rightarrow> bool) \<Rightarrow> string \<Rightarrow> string \<Rightarrow> int \<Rightarrow> bool" where
  "fresh_ok J serves issuer jwt now \<longleftrightarrow>
     (\<exists>payload c. jo_Verify J jwt = Some payload \<and> jo_Claims J payload = Some c \<and> sound_claims issuer now c \<and>
        (case jc_Audience c of [] \<Rightarrow> jc_Scope c \<noteq> [] | [a] \<Rightarrow> servesAudience serves a | _ \<Rightarrow> False))"

lemma verify_Sound:
  assumes "verify J k jwt now = Sound c"
  obtains payload where "jo_Verify J jwt = Some payload" "jo_Claims J payload = Some c" "sound_claims (jk_Issuer k) now c"
proof -
  from assms obtain payload where p: "jo_Verify J jwt = Some payload" "jo_Claims J payload = Some c" "check_claims k now c = Sound c"
    by (auto simp: verify_def check_claims_def split: option.splits if_splits)
  from p(3) have "sound_claims (jk_Issuer k) now c"
    by (auto simp: check_claims_def sound_claims_def jwtSkew_def jwtMaxLife_def split: option.splits if_splits)
  with p show thesis by (rule_tac that)
qed

text \<open>Everything remembered is a token that was verified, by its digest.\<close>

definition entry_ok :: "jose \<Rightarrow> int \<Rightarrow> live_key \<Rightarrow> string \<times> verified \<Rightarrow> bool" where
  "entry_ok J now k e \<longleftrightarrow>
     (\<exists>t t0 c. fst e = jo_Sum J t \<and> t0 \<le> now \<and> verify J k t t0 = Sound c \<and>
        snd e = \<lparr>vf_exp = unix_time (the (jc_Expiry c)), vf_aud = jc_Audience c, vf_scope = (jc_Scope c \<noteq> [])\<rparr>)"

definition seen_ok :: "jose \<Rightarrow> int \<Rightarrow> live_key \<Rightarrow> bool" where
  "seen_ok J now k \<longleftrightarrow> list_all (entry_ok J now k) (jk_seen k)"

lemma check_claims_key: "jk_Issuer k' = jk_Issuer k \<Longrightarrow> check_claims k' = check_claims k"
  by (rule ext)+ (simp add: check_claims_def)

lemma verify_key:
  assumes "jk_Issuer k' = jk_Issuer k"
  shows "verify J k' = verify J k"
  unfolding verify_def check_claims_key [OF assms] ..

lemma entry_ok_later: "entry_ok J now k e \<Longrightarrow> now \<le> now' \<Longrightarrow> entry_ok J now' k e"
  unfolding entry_ok_def by (meson order_trans)

lemma seen_ok_later: "seen_ok J now k \<Longrightarrow> now \<le> now' \<Longrightarrow> seen_ok J now' k"
  by (auto simp: seen_ok_def list_all_iff intro: entry_ok_later)

text \<open>A token that was sound stays so until it expires.\<close>

lemma verify_later:
  assumes "verify J k jwt t0 = Sound c" "t0 \<le> now" "now < unix_time (the (jc_Expiry c))"
  shows "verify J k jwt now = Sound c"
proof -
  from assms(1) obtain p where p: "jo_Verify J jwt = Some p" "jo_Claims J p = Some c" "check_claims k t0 c = Sound c"
    by (auto simp: verify_def check_claims_def split: option.splits if_splits)
  from p(3) obtain e i where "jc_Expiry c = Some e" "jc_IssuedAt c = Some i" by (auto simp: check_claims_def split: option.splits if_splits)
  with p assms(2,3) have "check_claims k now c = Sound c"
    by (simp add: check_claims_def split: option.splits if_splits)
  with p show ?thesis by (simp add: verify_def)
qed

lemma set_prune: "set (prune n now es) \<subseteq> set es"
  by (induction n now es rule: prune.induct) auto

lemma length_prune: "length (prune n now es) \<le> length es"
  by (induction n now es rule: prune.induct) auto

lemma length_prune_full: "n \<ge> maxVerified \<Longrightarrow> es \<noteq> [] \<Longrightarrow> length (prune n now es) < length es"
  using length_prune by (cases es) (auto simp: less_Suc_eq_le)

lemma put_entries: "set (put k v m) \<subseteq> insert (k, v) (set m)"
  by (induction k v m rule: put.induct) auto

lemma length_put: "length (put k v m) \<le> Suc (length m)"
  by (induction k v m rule: put.induct) auto

lemma remembered_seen: "set (jk_seen (remembered k s v now)) \<subseteq> insert (s, v) (set (jk_seen k))"
proof -
  let ?es = "if length (jk_seen k) \<ge> maxVerified then prune (length (jk_seen k)) now (jk_seen k) else jk_seen k"
  have "set ?es \<subseteq> set (jk_seen k)" using set_prune by simp
  then show ?thesis using put_entries [of s v ?es] by (auto simp: remembered_def)
qed

lemma remembered_bound: "length (jk_seen k) \<le> maxVerified \<Longrightarrow> length (jk_seen (remembered k s v now)) \<le> maxVerified"
proof -
  assume b: "length (jk_seen k) \<le> maxVerified"
  let ?es = "if length (jk_seen k) \<ge> maxVerified then prune (length (jk_seen k)) now (jk_seen k) else jk_seen k"
  have "length ?es < maxVerified"
    using b length_prune_full [of "length (jk_seen k)" "jk_seen k" now] by (cases "jk_seen k = []") (auto simp: maxVerified_def)
  then show ?thesis using length_put [of s v ?es] by (simp add: remembered_def)
qed

lemma jwt_Error_some: "jwt_Error e \<noteq> []"
  by (cases e) simp_all

lemma audience_of_fresh:
  "audience_of serves \<lparr>vf_exp = e, vf_aud = jc_Audience c, vf_scope = (jc_Scope c \<noteq> [])\<rparr> = (True, []) \<Longrightarrow>
   verify J k t now = Sound c \<Longrightarrow> fresh_ok J serves (jk_Issuer k) t now"
proof -
  assume a: "audience_of serves \<lparr>vf_exp = e, vf_aud = jc_Audience c, vf_scope = (jc_Scope c \<noteq> [])\<rparr> = (True, [])"
    and v: "verify J k t now = Sound c"
  have "(if b then [] else jwt_Error x) = [] \<longleftrightarrow> b" for b x using jwt_Error_some by simp
  with a have "case jc_Audience c of [] \<Rightarrow> jc_Scope c \<noteq> [] | [a] \<Rightarrow> servesAudience serves a | _ \<Rightarrow> False"
    using jwt_Error_some by (simp add: audience_of_def del: jwt_Error.simps split: list.splits)
  with verify_Sound [OF v] show ?thesis unfolding fresh_ok_def by blast
qed

lemma bearer_step:
  assumes "seen_ok J now k"
  shows "seen_ok J now (snd (bearer J serves k jwt now))"
    and "jk_Issuer (snd (bearer J serves k jwt now)) = jk_Issuer k"
    and "length (jk_seen k) \<le> maxVerified \<Longrightarrow> length (jk_seen (snd (bearer J serves k jwt now))) \<le> maxVerified"
    and "fst (bearer J serves k jwt now) = (True, []) \<Longrightarrow> \<exists>t. jo_Sum J t = jo_Sum J jwt \<and> fresh_ok J serves (jk_Issuer k) t now"
proof -
  let ?hit = "case map_of (jk_seen k) (jo_Sum J jwt) of Some v \<Rightarrow> if now < vf_exp v then Some v else None | None \<Rightarrow> None"
  let ?b = "bearer J serves k jwt now"
  have "seen_ok J now (snd ?b) \<and> jk_Issuer (snd ?b) = jk_Issuer k \<and>
    (length (jk_seen k) \<le> maxVerified \<longrightarrow> length (jk_seen (snd ?b)) \<le> maxVerified) \<and>
    (fst ?b = (True, []) \<longrightarrow> (\<exists>t. jo_Sum J t = jo_Sum J jwt \<and> fresh_ok J serves (jk_Issuer k) t now))"
  proof (cases ?hit)
    case (Some v)
    then have b: "?b = (audience_of serves v, k)" by (simp add: bearer_def Let_def)
    from Some have v: "(jo_Sum J jwt, v) \<in> set (jk_seen k)" "now < vf_exp v"
      by (auto split: option.splits if_splits dest: map_of_SomeD)
    then have "entry_ok J now k (jo_Sum J jwt, v)" using assms by (simp add: seen_ok_def list_all_iff)
    then obtain t t0 c where t: "jo_Sum J jwt = jo_Sum J t" "t0 \<le> now" "verify J k t t0 = Sound c"
        "v = \<lparr>vf_exp = unix_time (the (jc_Expiry c)), vf_aud = jc_Audience c, vf_scope = (jc_Scope c \<noteq> [])\<rparr>"
      unfolding entry_ok_def by auto
    have s: "verify J k t now = Sound c" using verify_later [OF t(3,2)] v(2) t(4) by simp
    have "\<exists>t. jo_Sum J t = jo_Sum J jwt \<and> fresh_ok J serves (jk_Issuer k) t now" if "audience_of serves v = (True, [])"
      using audience_of_fresh [OF _ s] that t(1,4) by metis
    then show ?thesis unfolding b using assms by simp
  next
    case None
    show ?thesis
    proof (cases "verify J k jwt now")
      case (Sound c)
      let ?v = "\<lparr>vf_exp = unix_time (the (jc_Expiry c)), vf_aud = jc_Audience c, vf_scope = (jc_Scope c \<noteq> [])\<rparr>"
      let ?k = "remembered k (jo_Sum J jwt) ?v now"
      have b: "?b = (audience_of serves ?v, ?k)" unfolding bearer_def Let_def None by (simp add: Sound)
      have i: "jk_Issuer ?k = jk_Issuer k" by (simp add: remembered_def)
      have "entry_ok J now ?k e = entry_ok J now k e" for e by (simp add: entry_ok_def verify_key [OF i])
      moreover have "entry_ok J now k (jo_Sum J jwt, ?v)" using Sound by (auto simp: entry_ok_def)
      ultimately have "seen_ok J now ?k"
        using remembered_seen [of k "jo_Sum J jwt" ?v now] assms by (auto simp: seen_ok_def list_all_iff)
      moreover have "\<exists>t. jo_Sum J t = jo_Sum J jwt \<and> fresh_ok J serves (jk_Issuer k) t now" if "audience_of serves ?v = (True, [])"
        using audience_of_fresh [OF that Sound] by blast
      ultimately show ?thesis unfolding b using remembered_bound i by simp
    next
      case NotOurs
      have "?b = ((False, []), k)" unfolding bearer_def Let_def None by (simp add: NotOurs)
      then show ?thesis using assms by simp
    next
      case (Unsound e)
      have "?b = ((True, jwt_Error e), k)" unfolding bearer_def Let_def None by (simp add: Unsound)
      then show ?thesis using assms jwt_Error_some by simp
    qed
  qed
  then show "seen_ok J now (snd (bearer J serves k jwt now))"
    "jk_Issuer (snd (bearer J serves k jwt now)) = jk_Issuer k"
    "length (jk_seen k) \<le> maxVerified \<Longrightarrow> length (jk_seen (snd (bearer J serves k jwt now))) \<le> maxVerified"
    "fst (bearer J serves k jwt now) = (True, []) \<Longrightarrow> \<exists>t. jo_Sum J t = jo_Sum J jwt \<and> fresh_ok J serves (jk_Issuer k) t now"
    by blast+
qed

text \<open>A key over a run of requests: the answers, and the key after.\<close>

fun bearers :: "jose \<Rightarrow> (string \<Rightarrow> bool) \<Rightarrow> live_key \<Rightarrow> (string \<times> int) list \<Rightarrow> (bool \<times> string) list \<times> live_key" where
  "bearers J serves k [] = ([], k)"
| "bearers J serves k ((jwt, now) # calls) =
     (let (r, k) = bearer J serves k jwt now; (rs, k) = bearers J serves k calls in (r # rs, k))"

lemma bearers_ok:
  assumes "sorted (map snd calls)" "\<And>c. c \<in> set calls \<Longrightarrow> seen_ok J (snd c) k" "length (jk_seen k) \<le> maxVerified"
  shows "length (fst (bearers J serves k calls)) = length calls \<and>
    length (jk_seen (snd (bearers J serves k calls))) \<le> maxVerified \<and>
    (\<forall>i < length calls. fst (bearers J serves k calls) ! i = (True, []) \<longrightarrow>
      (\<exists>t. jo_Sum J t = jo_Sum J (fst (calls ! i)) \<and> fresh_ok J serves (jk_Issuer k) t (snd (calls ! i))))"
  using assms
proof (induction J serves k calls rule: bearers.induct)
  case (2 J serves k jwt now calls)
  obtain r k1 where b: "bearer J serves k jwt now = (r, k1)" by (cases "bearer J serves k jwt now")
  obtain rs k2 where bs: "bearers J serves k1 calls = (rs, k2)" by (cases "bearers J serves k1 calls")
  have ok: "seen_ok J now k" using "2.prems"(2) by force
  note step = bearer_step [OF ok, of serves jwt, unfolded b fst_conv snd_conv]
  have later: "seen_ok J (snd c) k1" if "c \<in> set calls" for c
    using seen_ok_later [OF step(1)] "2.prems"(1) that by auto
  have ih: "length rs = length calls \<and> length (jk_seen k2) \<le> maxVerified \<and>
    (\<forall>i < length calls. rs ! i = (True, []) \<longrightarrow> (\<exists>t. jo_Sum J t = jo_Sum J (fst (calls ! i)) \<and> fresh_ok J serves (jk_Issuer k1) t (snd (calls ! i))))"
    using "2.IH" [OF b [symmetric] refl _ later step(3) [OF "2.prems"(3)]] "2.prems"(1) bs by simp
  then show ?case
    using step(4) by (auto simp: b bs nth_Cons step(2) split: nat.splits)
qed simp

lemma compile_grants_seen: "compile_grants U serves c gs = Inr k \<Longrightarrow> jk_seen k = jk_seen c"
  by (induction U serves c gs rule: compile_grants.induct) (auto simp: Let_def split: prod.splits option.splits if_splits)

lemma compile_grants_issuer: "compile_grants U serves c gs = Inr k \<Longrightarrow> jk_Issuer k = jk_Issuer c"
  by (induction U serves c gs rule: compile_grants.induct) (auto simp: Let_def split: prod.splits option.splits if_splits)

text \<open>
  C5: A token is taken for the placeholder only where it, or one of the same digest, is signed by the session's
  key, names the session as its issuer and no other subject, has not expired then, was issued within five minutes
  of then or before, for no more than an hour and those five minutes, and is for one host the route serves, or for
  none and a scope. So what is remembered of a token never outlives it, and never answers for a host it was not
  signed for, whatever was asked before.
\<close>

theorem bearer_fresh:
  assumes "sorted (map snd calls)" "compileSessionKey U serves hk = Inr k" "i < length calls"
    and "fst (bearers J serves k calls) ! i = (True, [])"
  shows "\<exists>t payload c. jo_Sum J t = jo_Sum J (fst (calls ! i)) \<and>
    jo_Verify J t = Some payload \<and> jo_Claims J payload = Some c \<and> sound_claims (hk_Issuer hk) (snd (calls ! i)) c \<and>
    (case jc_Audience c of [] \<Rightarrow> jc_Scope c \<noteq> [] | [a] \<Rightarrow> servesAudience serves a | _ \<Rightarrow> False)"
proof -
  have "jk_seen k = []" using compile_grants_seen assms(2) by (fastforce simp: compileSessionKey_def split: if_splits)
  moreover have "jk_Issuer k = hk_Issuer hk"
    using compile_grants_issuer assms(2) by (fastforce simp: compileSessionKey_def split: if_splits)
  ultimately show ?thesis
    using bearers_ok [OF assms(1), of J k serves] assms(3,4) unfolding fresh_ok_def by (auto simp: seen_ok_def)
qed

definition demo_claims :: jwt_claims where
  "demo_claims =
     \<lparr>jc_Issuer = ''sa'', jc_Subject = [], jc_Audience = [''https://api.example.com/''], jc_Expiry = Some 1000,
      jc_IssuedAt = Some 0, jc_NotBefore = None, jc_Scope = [], jc_TargetAudience = []\<rparr>"

definition demo_jose :: jose where
  "demo_jose =
     \<lparr>jo_Verify = (\<lambda>t. if t = ''jwt'' then Some t else None), jo_Claims = (\<lambda>_. Some demo_claims), jo_Sum = (\<lambda>t. t)\<rparr>"

definition demo_key :: http_key where
  "demo_key = \<lparr>hk_Bits = 2048, hk_Issuer = ''sa'', hk_Grants = [''oauth2.example.com/token'']\<rparr>"

definition demo_serves :: "string \<Rightarrow> bool" where
  "demo_serves h \<longleftrightarrow> h = ''api.example.com'' \<or> h = ''oauth2.example.com''"

definition demo_calls :: "(string \<times> int) list" where
  "demo_calls = [(''jwt'', 5 * seconds), (''other'', 6 * seconds), (''jwt'', 9 * seconds)]"

definition demo_live_key :: live_key where
  "demo_live_key =
     \<lparr>jk_Issuer = ''sa'', jk_grants = [''oauth2.example.com/token''], jk_auds = [''https://oauth2.example.com/token''], jk_seen = []\<rparr>"

lemma bearer_fresh_witness:
  "fst (bearers demo_jose demo_serves demo_live_key demo_calls) = [(True, []), (False, []), (True, [])] \<and>
   (\<exists>t payload c. jo_Sum demo_jose t = ''jwt'' \<and> jo_Verify demo_jose t = Some payload \<and> jo_Claims demo_jose payload = Some c \<and>
     sound_claims ''sa'' (9 * seconds) c)"
proof -
  have k: "compileSessionKey ascii_unicode demo_serves demo_key = Inr demo_live_key" by code_simp
  have c: "sorted (map snd demo_calls)" "2 < length demo_calls" "demo_calls ! 2 = (''jwt'', 9 * seconds)"
    "jo_Sum demo_jose ''jwt'' = ''jwt''" by code_simp+
  have r: "fst (bearers demo_jose demo_serves demo_live_key demo_calls) = [(True, []), (False, []), (True, [])]" by code_simp
  then have "fst (bearers demo_jose demo_serves demo_live_key demo_calls) ! 2 = (True, [])" by simp
  from bearer_fresh [OF c(1) k c(2) this] r show ?thesis unfolding c(3) fst_conv snd_conv c(4) by (auto simp: demo_key_def)
qed

end
