(* ===== verification/Go_Base64.thy ===== *)
theory Go_Base64
  imports Go_Text
begin

text \<open>
  \<open>encoding/base64\<close>'s \<open>StdEncoding\<close>, with its padding, as a credential is put in a header and a client's read from
  one: what is written is read back.
\<close>

definition base64_char :: "int \<Rightarrow> char" where
  "base64_char d =
     (if d < 26 then char_of (65 + d) else if d < 52 then char_of (97 + (d - 26))
      else if d < 62 then char_of (48 + (d - 52)) else if d = 62 then CHR ''+'' else CHR ''/'')"

definition base64_digit :: "char \<Rightarrow> int option" where
  "base64_digit c =
     (if between CHR ''A'' c CHR ''Z'' then Some (byte c - 65)
      else if between CHR ''a'' c CHR ''z'' then Some (byte c - 97 + 26)
      else if between CHR ''0'' c CHR ''9'' then Some (byte c - 48 + 52)
      else if c = CHR ''+'' then Some 62
      else if c = CHR ''/'' then Some 63
      else None)"

fun base64_encode :: "string \<Rightarrow> string" where
  "base64_encode (a # b # c # s) =
     base64_char (byte a div 4) # base64_char ((byte a mod 4) * 16 + byte b div 16) #
     base64_char ((byte b mod 16) * 4 + byte c div 64) # base64_char (byte c mod 64) # base64_encode s"
| "base64_encode [a, b] =
     [base64_char (byte a div 4), base64_char ((byte a mod 4) * 16 + byte b div 16), base64_char ((byte b mod 16) * 4), CHR ''='']"
| "base64_encode [a] = [base64_char (byte a div 4), base64_char ((byte a mod 4) * 16), CHR ''='', CHR ''='']"
| "base64_encode [] = []"

text \<open>The digits of a quantum, a pad at the end of the last; the bits a pad leaves over are not looked at.\<close>

fun decode_quanta :: "string \<Rightarrow> string option" where
  "decode_quanta [] = Some []"
| "decode_quanta (a # b # c # d # s) =
     (case (base64_digit a, base64_digit b) of
        (Some x, Some y) \<Rightarrow>
          (case (base64_digit c, base64_digit d) of
             (Some z, Some w) \<Rightarrow>
               map_option (\<lambda>t. char_of (x * 4 + y div 16) # char_of ((y mod 16) * 16 + z div 4) # char_of ((z mod 4) * 64 + w) # t)
                 (decode_quanta s)
           | (Some z, None) \<Rightarrow>
               if d = CHR ''='' \<and> s = [] then Some [char_of (x * 4 + y div 16), char_of ((y mod 16) * 16 + z div 4)] else None
           | (None, _) \<Rightarrow> if c = CHR ''='' \<and> d = CHR ''='' \<and> s = [] then Some [char_of (x * 4 + y div 16)] else None)
      | _ \<Rightarrow> None)"
| "decode_quanta _ = None"

definition base64_decode :: "string \<Rightarrow> string option" where
  "base64_decode s = decode_quanta (filter (\<lambda>c. c \<noteq> CHR 0x0A \<and> c \<noteq> CHR 0x0D) s)"

lemma base64_digit_char: "0 \<le> d \<Longrightarrow> d < 64 \<Longrightarrow> base64_digit (base64_char d) = Some d \<and> base64_char d \<noteq> CHR 0x0A \<and> base64_char d \<noteq> CHR 0x0D"
proof -
  assume "0 \<le> d" "d < 64"
  then have "d \<in> set [0..63]" by simp
  moreover have "list_all (\<lambda>d. base64_digit (base64_char d) = Some d \<and> base64_char d \<noteq> CHR 0x0A \<and> base64_char d \<noteq> CHR 0x0D) [0..63]"
    by code_simp
  ultimately show ?thesis unfolding list_all_iff by blast
qed

lemma pad_digit [simp]: "base64_digit CHR ''='' = None"
  by code_simp

lemma char_byte: "0 \<le> byte c" "byte c < 256"
proof -
  have "int (of_char c) = byte c" by (rule of_nat_of_char)
  moreover have "of_char c < (256::nat)" by (rule nat_of_char_less_256)
  ultimately show "0 \<le> byte c" "byte c < 256" by linarith+
qed

text \<open>A quantum of digits is the bytes they spell.\<close>

lemma quantum:
  "base64_digit p = Some x \<Longrightarrow> base64_digit q = Some y \<Longrightarrow> base64_digit r = Some z \<Longrightarrow> base64_digit t = Some w \<Longrightarrow>
   x * 4 + y div 16 = byte a \<Longrightarrow> (y mod 16) * 16 + z div 4 = byte b \<Longrightarrow> (z mod 4) * 64 + w = byte c \<Longrightarrow>
   decode_quanta s = Some u \<Longrightarrow> decode_quanta (p # q # r # t # s) = Some (a # b # c # u)"
  "base64_digit p = Some x \<Longrightarrow> base64_digit q = Some y \<Longrightarrow> base64_digit r = Some z \<Longrightarrow>
   x * 4 + y div 16 = byte a \<Longrightarrow> (y mod 16) * 16 + z div 4 = byte b \<Longrightarrow> decode_quanta [p, q, r, CHR ''=''] = Some [a, b]"
  "base64_digit p = Some x \<Longrightarrow> base64_digit q = Some y \<Longrightarrow> x * 4 + y div 16 = byte a \<Longrightarrow>
   decode_quanta [p, q, CHR ''='', CHR ''=''] = Some [a]"
  by simp_all

lemma small:
  assumes "0 \<le> (x::int)" "x < 256"
  shows "0 \<le> x div 4" "x div 4 < 64" "0 \<le> x div 16" "x div 16 < 16" "0 \<le> x div 64" "x div 64 < 4"
  using assms by presburger+

lemma shifted:
  assumes "0 \<le> (p::int)" "p < m" "0 \<le> q" "q < n" "m * n \<le> 64"
  shows "0 \<le> p * n + q \<and> p * n + q < 64" "(p * n + q) div n = p" "(p * n + q) mod n = q"
proof -
  have "p * n + q < (p + 1) * n" using assms by (simp add: algebra_simps)
  also have "\<dots> \<le> m * n" using assms by (intro mult_right_mono) auto
  finally show "0 \<le> p * n + q \<and> p * n + q < 64" using assms by simp
  show "(p * n + q) div n = p" "(p * n + q) mod n = q" using assms by simp_all
qed

lemma joined:
  assumes "0 \<le> (x::int)" "x < 256" "0 \<le> y" "y < 256"
  shows "0 \<le> (x mod 4) * 16 + y div 16 \<and> (x mod 4) * 16 + y div 16 < 64"
    "0 \<le> (x mod 16) * 4 + y div 64 \<and> (x mod 16) * 4 + y div 64 < 64"
    "x div 4 * 4 + ((x mod 4) * 16 + y div 16) div 16 = x"
    "(((x mod 4) * 16 + y div 16) mod 16) = y div 16" "((x mod 16) * 4 + y div 64) div 4 = x mod 16"
    "((x mod 16) * 4 + y div 64) mod 4 = y div 64"
proof -
  have m: "0 \<le> x mod 4" "x mod 4 < 4" "0 \<le> x mod 16" "x mod 16 < 16" by simp_all
  note four = shifted [OF m(1,2) small(3,4) [OF assms(3,4)]] and sixteen = shifted [OF m(3,4) small(5,6) [OF assms(3,4)]]
  show "0 \<le> (x mod 4) * 16 + y div 16 \<and> (x mod 4) * 16 + y div 16 < 64" by (rule four(1)) simp
  show "0 \<le> (x mod 16) * 4 + y div 64 \<and> (x mod 16) * 4 + y div 64 < 64" by (rule sixteen(1)) simp
  have "((x mod 4) * 16 + y div 16) div 16 = x mod 4" by (rule four(2)) simp
  then show "x div 4 * 4 + ((x mod 4) * 16 + y div 16) div 16 = x" by (simp only: div_mult_mod_eq)
  show "(((x mod 4) * 16 + y div 16) mod 16) = y div 16" by (rule four(3)) simp
  show "((x mod 16) * 4 + y div 64) div 4 = x mod 16" by (rule sixteen(2)) simp
  show "((x mod 16) * 4 + y div 64) mod 4 = y div 64" by (rule sixteen(3)) simp
qed

lemmas joined_bytes = joined [OF char_byte char_byte]
lemmas small_byte = small [OF char_byte]

lemma last_digit:
  "0 \<le> byte a mod 4 * 16 \<and> byte a mod 4 * 16 < 64" "0 \<le> byte a mod 16 * 4 \<and> byte a mod 16 * 4 < 64" "0 \<le> byte a mod 64 \<and> byte a mod 64 < 64"
  "byte a div 4 * 4 + (byte a mod 4 * 16) div 16 = byte a" "byte a div 16 * 16 + (byte a mod 16 * 4) div 4 = byte a"
  by simp_all

definition six_bits :: "int \<Rightarrow> bool" where
  "six_bits d \<longleftrightarrow> 0 \<le> d \<and> d < 64"

lemma all_six_bits:
  "six_bits (byte a div 4)" "six_bits (byte a mod 4 * 16 + byte b div 16)" "six_bits (byte a mod 16 * 4 + byte b div 64)"
  "six_bits (byte a mod 64)" "six_bits (byte a mod 4 * 16)" "six_bits (byte a mod 16 * 4)"
  using small_byte(1,2) joined_bytes(1,2) last_digit(1,2,3) by (simp_all add: six_bits_def)

lemma six_bits_char:
  "six_bits d \<Longrightarrow> base64_digit (base64_char d) = Some d" "six_bits d \<Longrightarrow> base64_char d \<noteq> CHR 0x0A" "six_bits d \<Longrightarrow> base64_char d \<noteq> CHR 0x0D"
  using base64_digit_char by (simp_all add: six_bits_def)

lemma decode_encode_quanta: "decode_quanta (base64_encode s) = Some s"
proof (induction s rule: base64_encode.induct)
  case (1 a b c s)
  have e: "byte a div 4 * 4 + ((byte a mod 4) * 16 + byte b div 16) div 16 = byte a" by (rule joined_bytes(3))
  have f: "(((byte a mod 4) * 16 + byte b div 16) mod 16) * 16 + ((byte b mod 16) * 4 + byte c div 64) div 4 = byte b"
    unfolding joined_bytes(4,5) by simp
  have g: "(((byte b mod 16) * 4 + byte c div 64) mod 4) * 64 + byte c mod 64 = byte c" unfolding joined_bytes(6) by simp
  show ?case unfolding base64_encode.simps
    by (rule quantum(1) [OF _ _ _ _ e f g 1]; rule six_bits_char; rule all_six_bits)
next
  case (2 a b)
  have e: "byte a div 4 * 4 + ((byte a mod 4) * 16 + byte b div 16) div 16 = byte a" by (rule joined_bytes(3))
  have f: "(((byte a mod 4) * 16 + byte b div 16) mod 16) * 16 + ((byte b mod 16) * 4) div 4 = byte b"
    unfolding joined_bytes(4) by (rule last_digit(5))
  show ?case unfolding base64_encode.simps
    by (rule quantum(2) [OF _ _ _ e f]; rule six_bits_char; rule all_six_bits)
next
  case (3 a)
  show ?case unfolding base64_encode.simps
    by (rule quantum(3) [OF _ _ last_digit(4)]; rule six_bits_char; rule all_six_bits)
qed simp

lemma encode_plain: "list_all (\<lambda>c. c \<noteq> CHR 0x0A \<and> c \<noteq> CHR 0x0D) (base64_encode s)"
  by (induction s rule: base64_encode.induct) (simp_all add: six_bits_char all_six_bits)

lemma base64_roundtrip: "base64_decode (base64_encode s) = Some s"
  using decode_encode_quanta [of s] encode_plain [of s] filter_True [of "base64_encode s"]
  by (simp add: base64_decode_def list_all_iff)

end
