(* ===== verification/Http_Route.thy ===== *)
theory Http_Route
  imports Store_Scope Http_Key Go_Base64 Project_Names
begin

text \<open>
  A route as interception is given it, and what it is held to before it is served,
  \<open>internal/intercept/route.go\<close> and \<open>docker.go\<close>: its host and upstream, its credential and how it is put on a
  request, a Docker route's project, names, ports and rules, and which requests carry the placeholder.

  \<open>net/url\<close>'s parsing of the upstream is given, as the fields of what it parses. Errors are their constructors.
\<close>

section \<open>Routes\<close>

text \<open>\<open>ul_Path\<close> is decoded and \<open>ul_Escaped\<close> is \<open>EscapedPath\<close>; \<open>ul_User\<close> is whether there is any.\<close>

record http_url =
  ul_Scheme :: string
  ul_Opaque :: string
  ul_Host :: string
  ul_Path :: string
  ul_Escaped :: string
  ul_User :: bool
  ul_RawQuery :: string
  ul_ForceQuery :: bool
  ul_Fragment :: string

record intercept_route =
  in_Name :: string
  in_Host :: string
  in_Upstream :: string
  in_CAs :: bool
  in_Credential :: bool
  in_Inject :: "inject option"
  in_Placeholder :: string
  in_Scope :: scope
  in_Refusal :: "refusal_shape option"
  in_Key :: "http_key option"
  in_Docker :: "docker_route option"

text \<open>\<open>url.URL\<close>'s \<open>Port\<close> and \<open>Hostname\<close>.\<close>

definition optional_port :: "string \<Rightarrow> bool" where
  "optional_port p \<longleftrightarrow> p = [] \<or> hd p = CHR '':'' \<and> list_all digit (tl p)"

definition split_host_port :: "string \<Rightarrow> string \<times> string" where
  "split_host_port hp =
     (let (host, port) = (case CutLast CHR '':'' hp of
          Some (h, p) \<Rightarrow> if optional_port (CHR '':'' # p) then (h, p) else (hp, [])
        | None \<Rightarrow> (hp, []))
      in (if host \<noteq> [] \<and> hd host = CHR ''['' \<and> last host = CHR '']'' then butlast (tl host) else host, port))"

definition Hostname :: "http_url \<Rightarrow> string" where
  "Hostname u = fst (split_host_port (ul_Host u))"

definition Port :: "http_url \<Rightarrow> string" where
  "Port u = snd (split_host_port (ul_Host u))"

text \<open>\<open>path.Clean\<close> of a rooted path: what is left of its elements, each dot-dot having taken one away.\<close>

fun clean_elements :: "string list \<Rightarrow> string list \<Rightarrow> string list" where
  "clean_elements out [] = rev out"
| "clean_elements out (e # es) =
     (if e = [] \<or> e = ''.'' then clean_elements out es
      else if e = ''..'' then clean_elements (tl out) es
      else clean_elements (e # out) es)"

definition Clean_rooted :: "string \<Rightarrow> string" where
  "Clean_rooted p = CHR ''/'' # Join CHR ''/'' (clean_elements [] (Split CHR ''/'' (tl p)))"

definition normaliseHost :: "string \<Rightarrow> string" where
  "normaliseHost h =
     (if prefix ''['' h then h
      else Normalize (case CutLast CHR '':'' h of None \<Rightarrow> h | Some (host, _) \<Rightarrow> host))"

section \<open>Putting a credential on a request\<close>

text \<open>\<open>http.CanonicalHeaderKey\<close>: a name that is not a token is left as it is.\<close>

fun canonical_bytes :: "bool \<Rightarrow> string \<Rightarrow> string" where
  "canonical_bytes up [] = []"
| "canonical_bytes up (c # cs) = (if up then ascii_upper c else ascii_lower c) # canonical_bytes (c = CHR ''-'') cs"

definition CanonicalHeaderKey :: "string \<Rightarrow> string" where
  "CanonicalHeaderKey s = (if list_all token_byte s then canonical_bytes True s else s)"

fun inject_Header :: "inject \<Rightarrow> string" where
  "inject_Header Bearer = ''Authorization''"
| "inject_Header (BasicUser user) = ''Authorization''"
| "inject_Header (HeaderNamed n) = CanonicalHeaderKey n"

fun inject_Value :: "inject \<Rightarrow> string \<Rightarrow> string" where
  "inject_Value Bearer s = ''Bearer '' @ s"
| "inject_Value (BasicUser user) s = ''Basic '' @ base64_encode (user @ CHR '':'' # s)"
| "inject_Value (HeaderNamed n) s = s"

definition credentialHeader :: "intercept_route \<Rightarrow> string" where
  "credentialHeader r = (case in_Inject r of None \<Rightarrow> ''Authorization'' | Some i \<Rightarrow> inject_Header i)"

section \<open>A route checked\<close>

datatype query_fault =
  EmptyKey | UnknownCheck | FiltersListed | EnumListed | FiltersOfList | ImageOfPull | TagOfPull

definition queryChecks :: "string list" where
  "queryChecks = [''any'', ''bool'', ''int'', ''containerName'', ''filters'', ''imageName'', ''imageTag'', ''enum'']"

definition ownedKinds :: "string list" where
  "ownedKinds =
     [''none'', ''container'', ''exec'', ''volume'', ''network'', ''image'', ''imagePull'', ''list'',
      ''createContainer'', ''createVolume'', ''createNetwork'']"

definition creates :: "(string \<times> string) list" where
  "creates =
     [(''createContainer'', ''ContainerCreate''), (''createVolume'', ''VolumeCreate''), (''createNetwork'', ''NetworkCreate'')]"

definition upgrades :: "string list" where
  "upgrades = [[], ''tcp'', ''h2c'']"

definition validateQueryCheck :: "string \<Rightarrow> string \<Rightarrow> query_check \<Rightarrow> query_fault option" where
  "validateQueryCheck ow key c =
     (if key = [] then Some EmptyKey
      else if qc_Check c \<notin> set queryChecks then Some UnknownCheck
      else if (qc_Check c = ''filters'') \<noteq> (qc_Filters c \<noteq> []) then Some FiltersListed
      else if (qc_Check c = ''enum'') \<noteq> (qc_Enum c \<noteq> []) then Some EnumListed
      else if qc_Check c = ''filters'' \<and> (ow \<noteq> ''list'' \<or> key \<noteq> ''filters'') then Some FiltersOfList
      else if qc_Check c = ''imageName'' \<and> (ow \<noteq> ''imagePull'' \<or> key \<noteq> ''fromImage'') then Some ImageOfPull
      else if qc_Check c = ''imageTag'' \<and> (ow \<noteq> ''imagePull'' \<or> key \<noteq> ''tag'') then Some TagOfPull
      else None)"

datatype rule_fault =
  RuleNoOperation | RuleAsks | RuleRefusesWithBlock | RuleNoBlock | RulePrefix | RuleOwned | RuleParam | RuleImageParam
| RuleNoParam | RuleUpgrade | RuleBody | RuleCreates | RuleQuery string query_fault | RuleListFilters | RulePullImage

definition param_fault :: "docker_check \<Rightarrow> string \<Rightarrow> rule_fault option" where
  "param_fault k path =
     (let ss = Split CHR ''/'' (tl path) in
      if Owned k \<in> set withParam then
        (if Param k < 0 \<or> Param k \<ge> int (length ss) \<or> ss ! nat (Param k) \<noteq> wildcard then Some RuleParam
         else if Owned k = ''image'' \<and> (hd ss \<noteq> ''images'' \<or> Param k \<noteq> int (length ss) - 2) then Some RuleImageParam
         else None)
      else if Param k \<noteq> 0 then Some RuleNoParam
      else None)"

definition check_of :: "docker_check \<Rightarrow> string \<Rightarrow> string" where
  "check_of k key = (case map_of (Query k) key of None \<Rightarrow> [] | Some c \<Rightarrow> qc_Check c)"

definition validateRule :: "docker_route \<Rightarrow> path_rule \<Rightarrow> rule_fault option" where
  "validateRule d p =
     (if Operation p = None then Some RuleNoOperation
      else if AskFlag p then Some RuleAsks
      else if RefuseFlag p \<and> Docker p \<noteq> None then Some RuleRefusesWithBlock
      else if RefuseFlag p then None
      else case Docker p of
        None \<Rightarrow> Some RuleNoBlock
      | Some k \<Rightarrow>
          if Path p = [] then Some RulePrefix
          else if Owned k \<notin> set ownedKinds then Some RuleOwned
          else (case param_fault k (Path p) of Some e \<Rightarrow> Some e
          | None \<Rightarrow>
              if Upgrade k \<notin> set upgrades then Some RuleUpgrade
              else if Body k \<noteq> [] \<and> map_of (dk_Bodies d) (Body k) = None then Some RuleBody
              else if list_ex (\<lambda>(ow, tbl). (Owned k = ow) \<noteq> (Body k = tbl)) creates then Some RuleCreates
              else (case find (\<lambda>(key, c). validateQueryCheck (Owned k) key c \<noteq> None) (Query k) of
                  Some (key, c) \<Rightarrow> Some (RuleQuery key (the (validateQueryCheck (Owned k) key c)))
                | None \<Rightarrow>
                    if Owned k = ''list'' \<and> check_of k ''filters'' \<noteq> ''filters'' then Some RuleListFilters
                    else if Owned k = ''imagePull'' \<and> check_of k ''fromImage'' \<noteq> ''imageName'' then Some RulePullImage
                    else None)))"

datatype docker_fault =
  NotDocker | NotSocket | DockerWild | DockerCredentialed | DockerScope | NotProject | BadMin | BadMax | MinAboveMax
| UnversionedPath string | NoImages | BadImage string image_error | BadBuild string build_error | NotItsAddress
| TooManyPorts | LowPort "16 word" | PortTwice "16 word" | NotItsNames | BadMaxBody | BadTable string | BadRule rule_fault

definition maxDockerPorts :: nat where "maxDockerPorts = 64"
definition maxDockerBody :: int where "maxDockerBody = 1048576"

fun port_faults :: "16 word list \<Rightarrow> 16 word list \<Rightarrow> docker_fault option" where
  "port_faults before [] = None"
| "port_faults before (p # ps) =
     (if p < 1024 then Some (LowPort p)
      else if p \<in> set before then Some (PortTwice p)
      else port_faults (before @ [p]) ps)"

text \<open>What the checks of a route are given: case mapping and folding, \<open>net/url\<close>, and the hexadecimal of SHA-256.\<close>

record route_given =
  rg_lib :: lib
  rg_URL :: "string \<Rightarrow> http_url option"
  rg_Sum :: "string \<Rightarrow> string"

definition plain_unversioned :: "unicode \<Rightarrow> string \<Rightarrow> bool" where
  "plain_unversioned U p \<longleftrightarrow>
     (case splitPath p of
        None \<Rightarrow> False
      | Some ss \<Rightarrow> \<not> list_ex (\<lambda>c. c \<in> {CHR 0x25, CHR ''?'', CHR ''#''}) p \<and> \<not> versionish (fold_seg U (hd ss)))"

definition first_fault :: "('a \<Rightarrow> docker_fault option) \<Rightarrow> 'a list \<Rightarrow> docker_fault option" where
  "first_fault f xs = (case find (\<lambda>x. f x \<noteq> None) xs of None \<Rightarrow> None | Some x \<Rightarrow> f x)"

definition not_socket :: "intercept_route \<Rightarrow> http_url \<Rightarrow> bool" where
  "not_socket r u \<longleftrightarrow>
     ul_Scheme u \<noteq> ''unix'' \<or> ul_Opaque u \<noteq> [] \<or> ul_Host u \<noteq> [] \<or> ul_User u \<or> ul_RawQuery u \<noteq> [] \<or> ul_ForceQuery u \<or>
     ul_Fragment u \<noteq> [] \<or> CHR 0x25 \<in> set (in_Upstream r) \<or> \<not> prefix ''/'' (ul_Path u) \<or> Clean_rooted (ul_Path u) \<noteq> ul_Path u"

definition docker_credentialed :: "intercept_route \<Rightarrow> bool" where
  "docker_credentialed r \<longleftrightarrow>
     in_Credential r \<or> in_Inject r \<noteq> None \<or> in_Placeholder r \<noteq> [] \<or> in_Key r \<noteq> None \<or> in_CAs r"

definition docker_scoped :: "scope \<Rightarrow> bool" where
  "docker_scoped s \<longleftrightarrow> sc_Unmatched s = UnmatchedRefuse \<and> sc_Git s = None \<and> sc_GraphQL s = [] \<and> sc_GitHubAPI s = None"

definition docker_parts_fault :: "route_given \<Rightarrow> docker_route \<Rightarrow> docker_fault option" where
  "docker_parts_fault G d =
     (let U = casing (rg_lib G); F = folding (rg_lib G) in
      if \<not> valid_project (dk_Project d) then Some NotProject
      else case (apiMinor (dk_APIMin d), apiMinor (dk_APIMax d)) of
        (None, _) \<Rightarrow> Some BadMin
      | (_, None) \<Rightarrow> Some BadMax
      | (Some lo, Some hi) \<Rightarrow>
          if lo > hi then Some MinAboveMax
          else case find (\<lambda>p. \<not> plain_unversioned U p) (dk_Unversioned d) of
            Some p \<Rightarrow> Some (UnversionedPath p)
          | None \<Rightarrow>
              if dk_Images d = [] then Some NoImages
              else case first_fault (\<lambda>i. map_option (BadImage i) (ValidImage U F i)) (dk_Images d) of
                Some e \<Rightarrow> Some e
              | None \<Rightarrow>
                  (case first_fault (\<lambda>b. map_option (BadBuild b) (ValidBuild F b)) (dk_Builds d) of
                     Some e \<Rightarrow> Some e
                   | None \<Rightarrow>
                       if Some (dk_Address d) \<noteq> Address (rg_Sum G) (dk_Project d) then Some NotItsAddress
                       else if length (dk_Ports d) > maxDockerPorts then Some TooManyPorts
                       else (case port_faults [] (dk_Ports d) of Some e \<Rightarrow> Some e
                       | None \<Rightarrow>
                           if dk_Names d \<noteq> Names (dk_Project d) then Some NotItsNames
                           else if dk_MaxBody d < 1 \<or> dk_MaxBody d > maxDockerBody then Some BadMaxBody
                           else map_option (\<lambda>(n, _). BadTable n) (find (\<lambda>(n, t). t_name t \<noteq> n) (dk_Bodies d)))))"

definition validateDocker :: "route_given \<Rightarrow> intercept_route \<Rightarrow> http_url \<Rightarrow> bool \<Rightarrow> docker_fault option" where
  "validateDocker G r u star =
     (case in_Docker r of
        None \<Rightarrow> Some NotDocker
      | Some d \<Rightarrow>
          if not_socket r u then Some NotSocket
          else if star then Some DockerWild
          else if docker_credentialed r then Some DockerCredentialed
          else if \<not> docker_scoped (in_Scope r) then Some DockerScope
          else (case docker_parts_fault G d of Some e \<Rightarrow> Some e
          | None \<Rightarrow> first_fault (\<lambda>p. map_option BadRule (validateRule d p)) (sc_Paths (in_Scope r))))"

datatype route_fault =
  Unnamed | BadHost | BadUpstream | DockerFault docker_fault | DockerBlock | NotHTTPS | WildUpstream | StarUpstream
| NoCredential | NoInjector | BadPlaceholder | KeyNotBearer

definition is_wild :: "pattern \<Rightarrow> bool" where
  "is_wild p = (case p of WildName _ \<Rightarrow> True | _ \<Rightarrow> False)"

definition https_fault :: "intercept_route \<Rightarrow> pattern \<Rightarrow> http_url \<Rightarrow> route_fault option" where
  "https_fault r pat u =
     (if list_ex (\<lambda>p. Docker p \<noteq> None) (sc_Paths (in_Scope r)) then Some DockerBlock
      else if ul_Scheme u \<noteq> ''https'' \<or> ul_Host u = [] \<or> ul_User u \<or> ul_RawQuery u \<noteq> [] \<or> ul_Fragment u \<noteq> [] then Some NotHTTPS
      else if is_wild pat \<and> (Normalize (Hostname u) \<noteq> pattern_String pat \<or> ul_Path u \<noteq> []) then Some WildUpstream
      else if \<not> is_wild pat \<and> CHR ''*'' \<in> set (ul_Host u) then Some StarUpstream
      else if \<not> in_Credential r then
        (if in_Inject r \<noteq> None \<or> in_Placeholder r \<noteq> [] \<or> in_Key r \<noteq> None then Some NoCredential else None)
      else (case in_Inject r of
          None \<Rightarrow> Some NoInjector
        | Some i \<Rightarrow>
            if inject_Header i = [] then Some NoInjector
            else if in_Placeholder r = [] \<or> list_ex (\<lambda>c. c \<in> {CHR '' '', CHR 0x09, CHR 0x0D, CHR 0x0A}) (in_Placeholder r)
            then Some BadPlaceholder
            else if in_Key r \<noteq> None \<and> i \<noteq> Bearer then Some KeyNotBearer
            else None))"

definition validate_route :: "route_given \<Rightarrow> intercept_route \<Rightarrow> route_fault + http_url" where
  "validate_route G r =
     (if in_Name r = [] then Inl Unnamed
      else case ParsePattern (in_Host r) of
        Inl _ \<Rightarrow> Inl BadHost
      | Inr AnyName \<Rightarrow> Inl BadHost
      | Inr pat \<Rightarrow>
          (case rg_URL G (in_Upstream r) of
             None \<Rightarrow> Inl BadUpstream
           | Some u \<Rightarrow>
               if ul_Scheme u = ''unix'' \<or> in_Docker r \<noteq> None then
                 (case validateDocker G r u (is_wild pat) of Some e \<Rightarrow> Inl (DockerFault e) | None \<Rightarrow> Inr u)
               else (case https_fault r pat u of Some e \<Rightarrow> Inl e | None \<Rightarrow> Inr u)))"

section \<open>The placeholder\<close>

text \<open>Whether a request carries the placeholder, why it is refused, and the key after it was asked. \<open>key\<close> is the
  session's, checked, with what the route serves.\<close>

definition carries ::
    "(int \<Rightarrow> int) \<Rightarrow> jose \<Rightarrow> (string \<Rightarrow> bool) \<Rightarrow> intercept_route \<Rightarrow> live_key option \<Rightarrow> (string \<times> string list) list \<Rightarrow> int \<Rightarrow>
     (bool \<times> string) \<times> live_key option" where
  "carries F J serves r key h now =
     (case (if in_Credential r then in_Inject r else None) of
        None \<Rightarrow> ((False, []), key)
      | Some i \<Rightarrow>
          (case Values h (inject_Header i) of
             [v] \<Rightarrow>
               if v = in_Placeholder r then ((True, []), key)
               else (case Cut CHR '' '' v of
                 (_, None) \<Rightarrow> ((False, []), key)
               | (scheme, Some t) \<Rightarrow>
                   (case (if EqualFold F scheme ''Basic'' then base64_decode t else None) of
                      Some b \<Rightarrow> ((snd (Cut CHR '':'' b) = Some (in_Placeholder r), []), key)
                    | None \<Rightarrow>
                        if t = in_Placeholder r then ((True, []), key)
                        else (case (if EqualFold F scheme ''Bearer'' then key else None) of
                            None \<Rightarrow> ((False, []), key)
                          | Some k \<Rightarrow>
                              let ((ours, why), k) = bearer J serves k t now in ((ours \<and> why = [], why), Some k))))
           | _ \<Rightarrow> ((False, []), key)))"

end
