(* ===== verification/Http_Docker.thy ===== *)
theory Http_Docker
  imports Http_Route Docker_Admit
begin





text \<open>A verdict that lets nothing through by itself: a refusal, or one deferred to a rule in \<open>ok\<close>.\<close>

definition held_back :: "(docker_rule \<Rightarrow> bool) \<Rightarrow> verdict \<Rightarrow> bool" where
  "held_back ok v \<longleftrightarrow>
     v_outcome v = Refuse \<and> (case v_deferred v of NotDeferred \<Rightarrow> True | DeferGraphQL _ \<Rightarrow> False | DeferDocker k \<Rightarrow> ok k)"


lemma held_back_refusal [simp]: "held_back ok (Verdict Refuse reason o')"
  by (simp add: held_back_def)








text \<open>A route to evaluate: its one rule starts and stops a container of the project's own.\<close>

definition demo_sha :: "string \<Rightarrow> string" where
  "demo_sha s = ''0ac0ffee''"

lemma demo_sha_address: "Address demo_sha ''me/box'' = Some (V4 0x7F0AC0FF)"
proof -
  have "fit (first_bytes ''0ac0ffee'')" "loopback (first_bytes ''0ac0ffee'') = V4 0x7F0AC0FF" by code_simp+
  then show ?thesis by (simp add: Address_def demo_sha_def address_loop.simps)
qed

definition demo_docker :: docker_route where
  "demo_docker =
     \<lparr>dk_Project = ''me/box'', dk_APIMin = ''1.40'', dk_APIMax = ''1.47'', dk_Unversioned = [''/_ping''],
      dk_Images = [''app:1''], dk_Builds = [], dk_Address = V4 0x7F0AC0FF, dk_Ports = [8080],
      dk_Names = Names ''me/box'', dk_MaxBody = 1000, dk_Bodies = []\<rparr>"

definition demo_operation :: operation where
  "demo_operation = \<lparr>op_ref = 0, op_ID = ''stop'', op_Summary = ''stop a container'', op_Class = ''write'', op_Category = []\<rparr>"

definition demo_rule :: path_rule where
  "demo_rule =
     \<lparr>Methods = [''POST''], Prefix = [], Path = ''/containers/*/stop'', EncodedSlashes = False, AskFlag = False, RefuseFlag = False,
      Operation = Some demo_operation, Docker = Some (dr_check stop_rule)\<rparr>"

definition demo_route :: intercept_route where
  "demo_route =
     \<lparr>in_Name = ''docker'', in_Host = ''docker.internal'', in_Upstream = ''unix:///run/docker.sock'', in_CAs = False,
      in_Credential = False, in_Inject = None, in_Placeholder = [], in_Scope = empty_scope\<lparr>sc_Paths := [demo_rule]\<rparr>,
      in_Refusal = None, in_Key = None, in_Docker = Some demo_docker\<rparr>"

definition demo_url :: http_url where
  "demo_url =
     \<lparr>ul_Scheme = ''unix'', ul_Opaque = [], ul_Host = [], ul_Path = ''/run/docker.sock'', ul_Escaped = ''/run/docker.sock'',
      ul_User = False, ul_RawQuery = [], ul_ForceQuery = False, ul_Fragment = []\<rparr>"

definition demo_checks :: route_given where
  "demo_checks = \<lparr>rg_lib = demo_lib, rg_URL = (\<lambda>_. Some demo_url), rg_Sum = demo_sha\<rparr>"

lemma demo_parts: "docker_parts_fault demo_checks demo_docker = None"
proof -
  have a: "Some (dk_Address demo_docker) = Address demo_sha (dk_Project demo_docker)"
    by (simp add: demo_docker_def demo_sha_address)
  have "(valid_project (dk_Project demo_docker)) \<and>
    (apiMinor (dk_APIMin demo_docker) = Some 40) \<and>
    (apiMinor (dk_APIMax demo_docker) = Some 47) \<and>
    (find (\<lambda>p. \<not> plain_unversioned (casing demo_lib) p) (dk_Unversioned demo_docker) = None) \<and>
    (dk_Images demo_docker \<noteq> []) \<and>
    (first_fault (\<lambda>i. map_option (BadImage i) (ValidImage (casing demo_lib) (folding demo_lib) i)) (dk_Images demo_docker) = None) \<and>
    (first_fault (\<lambda>b. map_option (BadBuild b) (ValidBuild (folding demo_lib) b)) (dk_Builds demo_docker) = None) \<and>
    (\<not> length (dk_Ports demo_docker) > maxDockerPorts) \<and>
    (port_faults [] (dk_Ports demo_docker) = None) \<and>
    (dk_Names demo_docker = Names (dk_Project demo_docker)) \<and>
    (\<not> (dk_MaxBody demo_docker < 1 \<or> dk_MaxBody demo_docker > maxDockerBody)) \<and>
    (find (\<lambda>(n, t). t_name t \<noteq> n) (dk_Bodies demo_docker) = None)"
    by code_simp
  then show ?thesis using a by (simp add: docker_parts_fault_def demo_checks_def Let_def)
qed

lemma demo_validates:
  assumes "docker_scoped s" "first_fault (\<lambda>p. map_option BadRule (validateRule demo_docker p)) (sc_Paths s) = None"
  shows "validate_route demo_checks (demo_route\<lparr>in_Scope := s\<rparr>) = Inr demo_url"
proof -
  have "ParsePattern (in_Host demo_route) = Inr (ExactName ''docker.internal'')" "in_Name demo_route \<noteq> []"
    "\<not> not_socket (demo_route\<lparr>in_Scope := empty_scope\<rparr>) demo_url" "\<not> docker_credentialed (demo_route\<lparr>in_Scope := empty_scope\<rparr>)"
    "ul_Scheme demo_url = ''unix''" by code_simp+
  moreover have "in_Docker demo_route = Some demo_docker" by (simp add: demo_route_def)
  ultimately show ?thesis using assms demo_parts
    by (simp add: validate_route_def validateDocker_def is_wild_def not_socket_def docker_credentialed_def demo_checks_def)
qed


text \<open>A version 2 route whose one operation is allowed, with no docker block: the route passes its checks, and the
  request is admitted with none of a rule's.\<close>

definition bare_scope :: scope where
  "bare_scope =
     empty_scope\<lparr>sc_V2 := True, sc_Operations := [\<lparr>e_rule = demo_rule\<lparr>Docker := None\<rparr>, e_Outcome = Admit, e_Named = True\<rparr>]\<rparr>"

lemma operation_unchecked:
  "validate_route demo_checks (demo_route\<lparr>in_Scope := bare_scope\<rparr>) = Inr demo_url \<and>
   (\<exists>c. compileScope (casing demo_lib) bare_scope = Inr c \<and>
     v_outcome (decided (casing demo_lib) c ''POST'' ''/containers/web/stop'' []) = Admit \<and>
     v_deferred (decided (casing demo_lib) c ''POST'' ''/containers/web/stop'' []) = NotDeferred)"
proof -
  have "map_sum id (\<lambda>c. (v_outcome (decided (casing demo_lib) c ''POST'' ''/containers/web/stop'' []),
      v_deferred (decided (casing demo_lib) c ''POST'' ''/containers/web/stop'' [])))
      (compileScope (casing demo_lib) bare_scope) = Inr (Admit, NotDeferred)"
    by code_simp
  then have "\<exists>c. compileScope (casing demo_lib) bare_scope = Inr c \<and>
     v_outcome (decided (casing demo_lib) c ''POST'' ''/containers/web/stop'' []) = Admit \<and>
     v_deferred (decided (casing demo_lib) c ''POST'' ''/containers/web/stop'' []) = NotDeferred"
    by (cases "compileScope (casing demo_lib) bare_scope") auto
  moreover have "docker_scoped bare_scope"
    "first_fault (\<lambda>p. map_option BadRule (validateRule demo_docker p)) (sc_Paths bare_scope) = None" by code_simp+
  ultimately show ?thesis using demo_validates by blast
qed

end
