(* ===== verification/Http_Preview.thy ===== *)
theory Http_Preview
  imports Prelude
begin

text \<open>
  The start of a body, read to be shown, \<open>internal/intercept/preview.go\<close>: how much is waited for, and that the
  whole of the body is still sent.

  A reader is the list of what its reads return. What ends a wait, a read that returns, the idle timer or the
  asking side's going, is a choice given for each turn of the loop. Closing is left out.
\<close>

section \<open>Readers\<close>

datatype read_error = EOF | ReadError string

text \<open>What one \<open>Read\<close> returns: some bytes, and an error if it ended there.\<close>

type_synonym chunk = "string \<times> read_error option"

text \<open>What comes of a reader, for the theorems: its bytes, and how it ended if it did.\<close>

fun stream :: "chunk list \<Rightarrow> string \<times> read_error option" where
  "stream [] = ([], None)"
| "stream ((b, Some e) # cs) = (b, Some e)"
| "stream ((b, None) # cs) = (b @ fst (stream cs), snd (stream cs))"

section \<open>The preview\<close>

definition BodyPreview :: nat where
  "BodyPreview = 4096"

text \<open>A stream with its start read. \<open>rs_pending\<close> is the channel of a read begun, with the chunk that is or will be
  on it, which the reader does not have any more; none of a read that never returns.\<close>

record resumed =
  rs_head :: string
  rs_pending :: "chunk list option"
  rs_err :: "read_error option"
  rs_reader :: "chunk list"

datatype wake = ReadReturns | IdlePasses | AskerGone

datatype preview = Waits | Shown string bool resumed | PreviewFailed string | PreviewLeft

fun Preview :: "wake list \<Rightarrow> bool \<Rightarrow> string \<Rightarrow> chunk list \<Rightarrow> preview" where
  "Preview (ReadReturns # ws) timer head ((b, e) # cs) =
     (let head = head @ b in
      case e of
        Some (ReadError err) \<Rightarrow> PreviewFailed err
      | _ \<Rightarrow>
          if length head > BodyPreview
          then Shown (take BodyPreview head) True \<lparr>rs_head = head, rs_pending = None, rs_err = e, rs_reader = cs\<rparr>
          else if e = Some EOF
          then Shown head False \<lparr>rs_head = head, rs_pending = None, rs_err = Some EOF, rs_reader = cs\<rparr>
          else Preview ws (timer \<or> b \<noteq> []) head cs)"
| "Preview (IdlePasses # ws) timer head cs =
     (if timer then Shown head True \<lparr>rs_head = head, rs_pending = Some (take 1 cs), rs_err = None, rs_reader = drop 1 cs\<rparr>
      else Preview ws timer head cs)"
| "Preview (AskerGone # ws) timer head cs = PreviewLeft"
| "Preview _ timer head cs = Waits"

text \<open>\<open>resumed.Read\<close> into \<open>n\<close> bytes: what it returns, and the stream after. A read that never returns gives nothing, and
  leaves the stream as it is.\<close>

definition take_pending :: "resumed \<Rightarrow> resumed" where
  "take_pending r =
     (case rs_pending r of
        Some ((b, e) # _) \<Rightarrow>
          if rs_head r = [] \<and> rs_err r = None then r\<lparr>rs_pending := None, rs_head := b, rs_err := e\<rparr> else r
      | _ \<Rightarrow> r)"

definition read_resumed :: "nat \<Rightarrow> resumed \<Rightarrow> chunk \<times> resumed" where
  "read_resumed n r =
     (let r = take_pending r in
      if rs_head r \<noteq> [] then ((take n (rs_head r), None), r\<lparr>rs_head := drop n (rs_head r)\<rparr>)
      else if rs_err r \<noteq> None then (([], rs_err r), r)
      else if rs_pending r \<noteq> None then (([], None), r)
      else (case rs_reader r of
          [] \<Rightarrow> (([], None), r)
        | c # cs \<Rightarrow> (c, r\<lparr>rs_reader := cs\<rparr>)))"

text \<open>A stream read out, with buffers of the sizes given: what came of it, and how it ended if it did.\<close>

fun read_out :: "nat list \<Rightarrow> resumed \<Rightarrow> string \<times> read_error option" where
  "read_out [] r = ([], None)"
| "read_out (n # ns) r =
     (case read_resumed n r of
        ((b, Some e), r) \<Rightarrow> (b, Some e)
      | ((b, None), r) \<Rightarrow> (b @ fst (read_out ns r), snd (read_out ns r)))"

section \<open>What is shown is the start of what is sent\<close>

text \<open>What is still to come of a stream whose start was read, and how many reads of a byte or more bring it.\<close>

definition to_come :: "resumed \<Rightarrow> chunk list" where
  "to_come r = (case rs_pending r of None \<Rightarrow> rs_reader r | Some [] \<Rightarrow> [] | Some (c # _) \<Rightarrow> c # rs_reader r)"

definition left_of :: "resumed \<Rightarrow> string \<times> read_error option" where
  "left_of r =
     (if rs_err r \<noteq> None then (rs_head r, rs_err r)
      else (rs_head r @ fst (stream (to_come r)), snd (stream (to_come r))))"

definition reads_left :: "resumed \<Rightarrow> nat" where
  "reads_left r =
     length (rs_head r) + (if rs_err r \<noteq> None then 1
       else sum_list (map (\<lambda>c. Suc (length (fst c))) (to_come r)) + (case rs_pending r of None \<Rightarrow> 0 | Some _ \<Rightarrow> 1))"

lemma to_come_make [simp]:
  "to_come \<lparr>rs_head = h, rs_pending = p, rs_err = x, rs_reader = cs\<rparr> =
   (case p of None \<Rightarrow> cs | Some [] \<Rightarrow> [] | Some (c # _) \<Rightarrow> c # cs)"
  by (cases p) (simp_all add: to_come_def split: list.split)

lemma stream_Cons: "stream ((b, e) # cs) = (case e of None \<Rightarrow> (b @ fst (stream cs), snd (stream cs)) | Some x \<Rightarrow> (b, Some x))"
  by (cases e) simp_all

lemma take_pending_cases:
  obtains (taken) b e cs where "rs_pending r = Some ((b, e) # cs)" "rs_head r = []" "rs_err r = None"
      "take_pending r = r\<lparr>rs_pending := None, rs_head := b, rs_err := e\<rparr>"
  | (kept) "take_pending r = r"
    "rs_pending r = None \<or> rs_pending r = Some [] \<or> rs_head r \<noteq> [] \<or> rs_err r \<noteq> None"
proof (cases "\<exists>b e cs. rs_pending r = Some ((b, e) # cs) \<and> rs_head r = [] \<and> rs_err r = None")
  case True
  then obtain b e cs where p: "rs_pending r = Some ((b, e) # cs)" "rs_head r = []" "rs_err r = None" by blast
  then show thesis by (intro taken [of b e cs]) (simp_all add: take_pending_def)
next
  case False
  then have "rs_pending r = None \<or> rs_pending r = Some [] \<or> rs_head r \<noteq> [] \<or> rs_err r \<noteq> None"
    by (metis list.exhaust option.exhaust prod.exhaust)
  moreover from False have "take_pending r = r"
    by (auto simp: take_pending_def split: option.split list.split prod.split)
  ultimately show thesis using kept by blast
qed

lemma left_of_pending: "left_of (take_pending r) = left_of r"
  by (cases r rule: take_pending_cases) (auto simp: left_of_def to_come_def stream_Cons split: option.split)

text \<open>A read returns the start of what is left, or how it ends; what it did not return is left, and is less of it.\<close>

lemma read_resumed_left:
  assumes "read_resumed n r = ((b, e), r')"
  shows "case e of None \<Rightarrow> left_of r = (b @ fst (left_of r'), snd (left_of r')) | Some x \<Rightarrow> left_of r = (b, Some x)"
proof -
  obtain q where q: "take_pending r = q" by blast
  obtain h p x cs where f: "q = \<lparr>rs_head = h, rs_pending = p, rs_err = x, rs_reader = cs\<rparr>" by (cases q)
  have "case e of None \<Rightarrow> left_of q = (b @ fst (left_of r'), snd (left_of r')) | Some x \<Rightarrow> left_of q = (b, Some x)"
  proof (cases "h = [] \<and> x = None \<and> p = None")
    case True
    then show ?thesis using assms unfolding read_resumed_def q f
      by (cases cs) (auto simp: Let_def left_of_def stream_Cons split: option.splits)
  next
    case False
    then consider "h \<noteq> []" | "h = []" "x \<noteq> None" | "h = []" "x = None" "p \<noteq> None" by auto
    then show ?thesis
    proof cases
      case 1
      with assms show ?thesis unfolding read_resumed_def q f
        by (auto simp: Let_def left_of_def simp flip: append_assoc)
    next
      case 2
      with assms show ?thesis unfolding read_resumed_def q f by (auto simp: Let_def left_of_def)
    next
      case 3
      with assms show ?thesis unfolding read_resumed_def q f by (auto simp: Let_def)
    qed
  qed
  then show ?thesis by (simp only: q [symmetric] left_of_pending)
qed

lemma read_resumed_less:
  assumes "read_resumed n r = ((b, None), r')" "0 < n" "snd (left_of r) \<noteq> None"
  shows "reads_left r' < reads_left r"
proof -
  obtain h p x cs where f: "r = \<lparr>rs_head = h, rs_pending = p, rs_err = x, rs_reader = cs\<rparr>" by (cases r)
  have d: "length (drop n y) < length y" if "y \<noteq> []" for y :: string using that assms(2) by (cases y) simp_all
  show ?thesis
  proof (cases "h = [] \<and> x = None")
    case True
    show ?thesis
    proof (cases p)
      case None
      with True assms show ?thesis unfolding f
        by (cases cs) (auto simp: read_resumed_def take_pending_def reads_left_def to_come_def left_of_def)
    next
      case (Some l)
      show ?thesis
      proof (cases l)
        case Nil
        with True Some assms(3) show ?thesis unfolding f by (simp add: left_of_def to_come_def)
      next
        case (Cons c l')
        obtain b' e' where c: "c = (b', e')" by (cases c)
        have t: "take_pending r = \<lparr>rs_head = b', rs_pending = None, rs_err = e', rs_reader = cs\<rparr>"
          unfolding f using True Some Cons c by (simp add: take_pending_def)
        have "reads_left r = Suc (Suc (length b')) + sum_list (map (\<lambda>c. Suc (length (fst c))) cs)"
          unfolding f using True Some Cons c by (simp add: reads_left_def to_come_def)
        moreover have "reads_left r' < Suc (Suc (length b')) + sum_list (map (\<lambda>c. Suc (length (fst c))) cs)"
        proof (cases "b' = []")
          case True
          with assms(1) show ?thesis unfolding read_resumed_def t
            by (cases cs) (auto simp: Let_def reads_left_def to_come_def split: if_splits)
        next
          case False
          with assms(1) have "r' = \<lparr>rs_head = drop n b', rs_pending = None, rs_err = e', rs_reader = cs\<rparr>"
            unfolding read_resumed_def t by (simp add: Let_def)
          with d [OF False] show ?thesis by (simp add: reads_left_def to_come_def)
        qed
        ultimately show ?thesis by simp
      qed
    qed
  next
    case False
    then have t: "take_pending r = r" unfolding f by (auto simp: take_pending_def split: option.split list.split)
    from False assms(1) have "h \<noteq> []" "r' = r\<lparr>rs_head := drop n h\<rparr>"
      unfolding read_resumed_def t unfolding f by (auto simp: Let_def split: if_splits)
    with d [of h] show ?thesis unfolding f by (simp add: reads_left_def)
  qed
qed

lemma read_out_left:
  "prefix (fst (read_out ns r)) (fst (left_of r)) \<and> (snd (read_out ns r) \<noteq> None \<longrightarrow> read_out ns r = left_of r) \<and>
   (snd (left_of r) \<noteq> None \<and> list_all (\<lambda>n. 0 < n) ns \<and> reads_left r < length ns \<longrightarrow> read_out ns r = left_of r)"
proof (induction ns arbitrary: r)
  case Nil
  show ?case by simp
next
  case (Cons n ns)
  obtain b e r' where g: "read_resumed n r = ((b, e), r')" by (metis prod.exhaust)
  note left = read_resumed_left [OF g]
  show ?case
  proof (cases e)
    case (Some x)
    with g left show ?thesis by simp
  next
    case None
    from None left have l: "left_of r = (b @ fst (left_of r'), snd (left_of r'))" by simp
    have o: "read_out (n # ns) r = (b @ fst (read_out ns r'), snd (read_out ns r'))" using g None by simp
    have less: "0 < n \<Longrightarrow> snd (left_of r) \<noteq> None \<Longrightarrow> reads_left r' < reads_left r"
      using read_resumed_less g None by blast
    obtain u v where u: "left_of r' = (u, v)" by (cases "left_of r'")
    obtain y z where y: "read_out ns r' = (y, z)" by (cases "read_out ns r'")
    note ih = Cons.IH [of r', unfolded u y]
    show ?thesis unfolding o l u y
    proof (intro conjI impI)
      show "prefix (fst (b @ fst (y, z), snd (y, z))) (fst (b @ fst (u, v), snd (u, v)))" using ih by simp
    next
      assume "snd (b @ fst (y, z), snd (y, z)) \<noteq> None"
      with ih show "(b @ fst (y, z), snd (y, z)) = (b @ fst (u, v), snd (u, v))" by simp
    next
      assume a: "snd (b @ fst (u, v), snd (u, v)) \<noteq> None \<and> list_all (\<lambda>n. 0 < n) (n # ns) \<and> reads_left r < length (n # ns)"
      have "snd (left_of r) \<noteq> None" using a unfolding l u by blast
      with a less have "reads_left r' < reads_left r" by simp
      moreover from a have "reads_left r < Suc (length ns)" by simp
      ultimately have "reads_left r' < length ns" by linarith
      moreover from a have "v \<noteq> None" "list_all (\<lambda>n. 0 < n) ns" by simp_all
      ultimately have "(y, z) = (u, v)" using ih unfolding snd_conv by blast
      then show "(b @ fst (y, z), snd (y, z)) = (b @ fst (u, v), snd (u, v))" by simp
    qed
  qed
qed

lemma Preview_shown:
  assumes "Preview ws timer head cs = Shown shown longer rest"
  shows "left_of rest = (head @ fst (stream cs), snd (stream cs)) \<and> prefix shown (head @ fst (stream cs)) \<and>
    (length head \<le> BodyPreview \<longrightarrow> length shown \<le> BodyPreview) \<and>
    (longer \<or> shown = head @ fst (stream cs) \<and> snd (stream cs) = Some EOF)"
  using assms
proof (induction ws timer head cs rule: Preview.induct)
  case (1 ws timer head b e cs)
  consider (failed) err where "e = Some (ReadError err)" | (ended) "e = Some EOF" | (longer) "e = None"
    by (cases e) (auto intro: read_error.exhaust)
  then show ?case
  proof cases
    case failed
    with "1.prems" show ?thesis by (simp add: Let_def)
  next
    case ended
    with "1.prems" show ?thesis
      by (auto simp: Let_def left_of_def take_is_prefix simp flip: take_append split: if_splits)
  next
    case longer
    show ?thesis
    proof (cases "length (head @ b) > BodyPreview")
      case True
      have "prefix (take BodyPreview (head @ b)) ((head @ b) @ fst (stream cs))"
        by (metis prefix_order.trans prefixI take_is_prefix)
      with True longer "1.prems" show ?thesis by (auto simp: Let_def left_of_def to_come_def)
    next
      case False
      with longer "1.prems" "1.IH" [OF refl] show ?thesis by (auto simp: Let_def)
    qed
  qed
next
  case (2 ws timer head cs)
  then show ?case by (cases cs) (auto simp: left_of_def to_come_def split: if_splits)
qed (auto simp: left_of_def split: if_splits)

text \<open>
  C38: What a person is shown of a body is its start, of at most the preview's length; said to be the whole, it is.
  What is read of the body afterwards, with buffers of whatever sizes, is its bytes from the first on, none lost or
  given twice; where the reading ends, it was the whole, ended as the body did; and where the body ends, reading on
  with buffers that are not empty comes to that end. So it is whatever arrived when, and with a read still out.
\<close>

theorem preview_is_start:
  assumes "Preview ws timer [] body = Shown shown longer rest"
  shows "prefix shown (fst (stream body)) \<and> length shown \<le> BodyPreview \<and>
    (longer \<or> stream body = (shown, Some EOF)) \<and>
    (\<forall>ns. prefix (fst (read_out ns rest)) (fst (stream body)) \<and>
       (snd (read_out ns rest) \<noteq> None \<longrightarrow> read_out ns rest = stream body)) \<and>
    (snd (stream body) \<noteq> None \<longrightarrow>
       (\<exists>k. \<forall>ns. list_all (\<lambda>n. 0 < n) ns \<and> k < length ns \<longrightarrow> read_out ns rest = stream body))"
proof -
  have l: "left_of rest = stream body" using Preview_shown [OF assms] by simp
  have "prefix shown (fst (stream body)) \<and> length shown \<le> BodyPreview \<and> (longer \<or> stream body = (shown, Some EOF))"
    using Preview_shown [OF assms] by (cases "stream body") auto
  with read_out_left [of _ rest] show ?thesis unfolding l by blast
qed

lemma preview_is_start_witness:
  "\<exists>rest. Preview [IdlePasses, ReadReturns, IdlePasses] False [] [(''ab'', None), (''cd'', Some EOF)] = Shown ''ab'' True rest \<and>
   read_out [1, 5, 1, 1, 1] rest = (''abcd'', Some EOF)"
proof -
  let ?rest = "\<lparr>rs_head = ''ab'', rs_pending = Some [(''cd'', Some EOF)], rs_err = None, rs_reader = []\<rparr>"
  have p: "Preview [IdlePasses, ReadReturns, IdlePasses] False [] [(''ab'', None), (''cd'', Some EOF)] = Shown ''ab'' True ?rest"
    by code_simp
  have s: "stream [(''ab'', None), (''cd'', Some EOF)] = (''abcd'', Some EOF)" by code_simp
  have "snd (read_out [1, 5, 1, 1, 1] ?rest) \<noteq> None" by code_simp
  with preview_is_start [OF p] have "read_out [1, 5, 1, 1, 1] ?rest = (''abcd'', Some EOF)" unfolding s by blast
  with p show ?thesis by blast
qed

end
