(* ===== verification/Http_Hosts.thy ===== *)
theory Http_Hosts
  imports Http_Route Docker_Request "HOL-Library.List_Lexorder" "HOL-Library.Char_ord"
begin

text \<open>
  The hosts that are intercepted, \<open>internal/intercept/intercept.go\<close>, with \<open>refusal.go\<close>: routes checked and made
  into an interceptor, the route that serves a name, and what a refusal looks like on it.

  A map is a list of its entries. What is started and closed, the server, its listener and the transports, is
  left out.
\<close>

section \<open>The shape of a refusal\<close>

definition RefusalMessage :: string where
  "RefusalMessage = ''{{message}}''"

record compiled_refusal =
  cr_contentType :: string
  cr_before :: string
  cr_after :: string
  cr_json :: bool

text \<open>\<open>strings.Cut\<close> and \<open>strings.Count\<close> of a string that is not empty.\<close>

fun cut_at :: "string \<Rightarrow> string \<Rightarrow> string \<Rightarrow> (string \<times> string) option" where
  "cut_at sep acc [] = None"
| "cut_at sep acc (c # cs) =
     (if prefix sep (c # cs) then Some (rev acc, drop (length sep) (c # cs)) else cut_at sep (c # acc) cs)"

lemma cut_at_length: "cut_at sep acc s = Some (b, a) \<Longrightarrow> sep \<noteq> [] \<Longrightarrow> length a < length s"
  by (induction sep acc s rule: cut_at.induct) (auto split: if_splits simp: Suc_diff_le dest: prefix_length_le)

function Count :: "string \<Rightarrow> string \<Rightarrow> nat" where
  "Count s sep = (if sep = [] then 0 else case cut_at sep [] s of None \<Rightarrow> 0 | Some (b, a) \<Rightarrow> Suc (Count a sep))"
  by pat_completeness auto
termination
  by (relation "measure (length \<circ> fst)") (auto dest: cut_at_length)

declare Count.simps [simp del]

text \<open>\<open>json.Marshal\<close> of a string, without its quotes.\<close>

definition low_hex :: "int \<Rightarrow> char" where
  "low_hex n = ''0123456789abcdef'' ! nat n"

definition json_byte :: "char \<Rightarrow> string" where
  "json_byte c =
     (if c = CHR 0x22 \<or> c = CHR 0x5C then [CHR 0x5C, c]
      else if byte c = 8 then [CHR 0x5C, CHR ''b'']
      else if byte c = 12 then [CHR 0x5C, CHR ''f'']
      else if byte c = 10 then [CHR 0x5C, CHR ''n'']
      else if byte c = 13 then [CHR 0x5C, CHR ''r'']
      else if byte c = 9 then [CHR 0x5C, CHR ''t'']
      else if byte c < 32 \<or> c \<in> {CHR ''<'', CHR ''>'', CHR ''&''}
        then CHR 0x5C # ''u00'' @ [low_hex (byte c div 16), low_hex (byte c mod 16)]
      else [c])"

function json_inside :: "string \<Rightarrow> string" where
  "json_inside s =
     (case s of
        [] \<Rightarrow> []
      | c # cs \<Rightarrow>
          if byte c < 128 then json_byte c @ json_inside cs
          else (case DecodeRune s of (r, n) \<Rightarrow>
            (if r = RuneError \<and> n = 1 then CHR 0x5C # ''ufffd''
             else if r = 8232 \<or> r = 8233 then CHR 0x5C # ''u202'' @ [low_hex (r mod 16)]
             else take n s) @ json_inside (drop n s)))"
  by pat_completeness auto
termination
  by (relation "measure length") (auto dest: DecodeRune_less)

declare json_inside.simps [simp del]

definition fill :: "compiled_refusal \<Rightarrow> string \<Rightarrow> string" where
  "fill c message = cr_before c @ (if cr_json c then json_inside message else message) @ cr_after c"

datatype refusal_error = RefusalType | RefusalCount nat | RefusalNotJSON

text \<open>\<open>media\<close> is \<open>mime.ParseMediaType\<close>, \<open>valid\<close> is \<open>json.Valid\<close>.\<close>

definition compileRefusal ::
    "(string \<Rightarrow> (string \<times> (string \<times> string) list) option) \<Rightarrow> (string \<Rightarrow> bool) \<Rightarrow> refusal_shape option \<Rightarrow>
     refusal_error + compiled_refusal option" where
  "compileRefusal media valid r =
     (case r of
        None \<Rightarrow> Inr None
      | Some r \<Rightarrow>
          (case media (rf_ContentType r) of
             None \<Rightarrow> Inl RefusalType
           | Some (t, _) \<Rightarrow>
               if Count (rf_Body r) RefusalMessage \<noteq> 1 then Inl (RefusalCount (Count (rf_Body r) RefusalMessage))
               else
                 let (before, after) = (case cut_at RefusalMessage [] (rf_Body r) of None \<Rightarrow> (rf_Body r, []) | Some p \<Rightarrow> p);
                     c = \<lparr>cr_contentType = rf_ContentType r, cr_before = before, cr_after = after,
                       cr_json = (t = ''application/json'' \<or> suffix ''+json'' t)\<rparr>
                 in if cr_json c \<and> \<not> valid (fill c (''a '' @ [CHR 0x22] @ ''quoted'' @ [CHR 0x22] @ '' message''))
                    then Inl RefusalNotJSON else Inr (Some c)))"

text \<open>What is answered: a status, a content type and a body. \<open>http.Error\<close> writes a line of plain text.\<close>

record refusal_answer =
  ra_status :: int
  ra_contentType :: string
  ra_body :: string

definition refusal_message :: "string \<Rightarrow> operation option \<Rightarrow> string" where
  "refusal_message reason oper =
     ''frisket: refused: '' @ reason @ (case oper of None \<Rightarrow> [] | Some p \<Rightarrow> '' ('' @ op_Summary p @ '')'')"

definition refuse_on :: "compiled_refusal option \<Rightarrow> int \<Rightarrow> string \<Rightarrow> operation option \<Rightarrow> refusal_answer" where
  "refuse_on shape status reason oper =
     (let message = refusal_message reason oper in
      case shape of
        None \<Rightarrow> \<lparr>ra_status = status, ra_contentType = ''text/plain; charset=utf-8'', ra_body = message @ [CHR 0x0A]\<rparr>
      | Some c \<Rightarrow> \<lparr>ra_status = status, ra_contentType = cr_contentType c, ra_body = fill c message\<rparr>)"

section \<open>An interceptor\<close>

record http_route =
  ht_Route :: intercept_route
  ht_host :: string
  ht_wild :: bool
  ht_key :: "live_key option"
  ht_upstream :: http_url
  ht_scope :: compiled
  ht_refusal :: "compiled_refusal option"
  ht_docker :: "live_route option"
  ht_stale :: int

record interceptor =
  ip_routes :: "(string \<times> http_route) list"
  ip_wild :: "(string \<times> http_route) list"

datatype new_error =
  NewRoute route_fault | TwoRoutes string | NewScope string scope_error | NewRefusal string refusal_error | TwoDockers
| NewKey key_error

text \<open>The walk of \<open>lookup\<close> over the dots of a name, which meets the nearest suffix first.\<close>

fun wild_route :: "(string \<times> 'r) list \<Rightarrow> string \<Rightarrow> 'r option" where
  "wild_route w [] = None"
| "wild_route w (c # cs) =
     (if c = CHR ''.''
      then (case map_of w cs of Some r \<Rightarrow> Some r | None \<Rightarrow> wild_route w cs)
      else wild_route w cs)"

definition lookup_route :: "interceptor \<Rightarrow> string \<Rightarrow> http_route option" where
  "lookup_route i dn =
     (if \<not> ValidQueryName dn then None
      else case map_of (ip_routes i) dn of
        Some r \<Rightarrow> Some r
      | None \<Rightarrow> wild_route (ip_wild i) dn)"

definition all_routes :: "interceptor \<Rightarrow> http_route list" where
  "all_routes i = map snd (ip_routes i) @ map snd (ip_wild i)"

definition Hosts :: "interceptor \<Rightarrow> string list" where
  "Hosts i = map ht_host (all_routes i)"

text \<open>Whether a name is a route's own: \<open>lookup\<close> gives that route, which its table and its key in it tell.\<close>

definition serves :: "interceptor \<Rightarrow> http_route \<Rightarrow> string \<Rightarrow> bool" where
  "serves i rt dn \<longleftrightarrow>
     (case lookup_route i dn of None \<Rightarrow> False | Some r \<Rightarrow> ht_wild r = ht_wild rt \<and> ht_host r = ht_host rt)"

text \<open>What \<open>New\<close> is given, and one route of its loop. A scope's Docker rules are given their route where they
  decide, rather than here.\<close>

record new_given =
  ng_route :: route_given
  ng_media :: "string \<Rightarrow> (string \<times> (string \<times> string) list) option"
  ng_valid :: "string \<Rightarrow> bool"

definition compile_route :: "new_given \<Rightarrow> http_url \<Rightarrow> string \<Rightarrow> bool \<Rightarrow> intercept_route \<Rightarrow> new_error + http_route" where
  "compile_route G up host star r =
     ok_then (lift_error (NewScope (in_Name r)) (compileScope (casing (rg_lib (ng_route G))) (in_Scope r))) (\<lambda>sc.
     ok_then (lift_error (NewRefusal (in_Name r)) (compileRefusal (ng_media G) (ng_valid G) (in_Refusal r))) (\<lambda>rf.
       Inr \<lparr>ht_Route = r, ht_host = host, ht_wild = star, ht_key = None, ht_upstream = up, ht_scope = sc,
         ht_refusal = rf, ht_docker = map_option (\<lambda>d. newDockerRoute d (ul_Path up)) (in_Docker r), ht_stale = 0\<rparr>))"

definition add_route :: "new_given \<Rightarrow> interceptor \<Rightarrow> intercept_route \<Rightarrow> new_error + interceptor" where
  "add_route G i r =
     ok_then (lift_error NewRoute (validate_route (ng_route G) r)) (\<lambda>up.
     let host = normaliseHost (in_Host r);
         (dn, star) = (case CutPrefix host ''*.'' of Some s \<Rightarrow> (s, True) | None \<Rightarrow> (host, False));
         byName = (if star then ip_wild i else ip_routes i) in
     if map_of byName dn \<noteq> None then Inl (TwoRoutes host)
     else
       ok_then (compile_route G up host star r) (\<lambda>rt.
       if ht_docker rt \<noteq> None \<and> list_ex (\<lambda>r. ht_docker r \<noteq> None) (all_routes i) then Inl TwoDockers
       else Inr (if star then i\<lparr>ip_wild := put dn rt (ip_wild i)\<rparr> else i\<lparr>ip_routes := put dn rt (ip_routes i)\<rparr>)))"

fun add_routes :: "new_given \<Rightarrow> interceptor \<Rightarrow> intercept_route list \<Rightarrow> new_error + interceptor" where
  "add_routes G i [] = Inr i"
| "add_routes G i (r # rs) = ok_then (add_route G i r) (\<lambda>i. add_routes G i rs)"

definition with_key :: "unicode \<Rightarrow> interceptor \<Rightarrow> string \<times> http_route \<Rightarrow> new_error + string \<times> http_route" where
  "with_key U i e =
     (case in_Key (ht_Route (snd e)) of
        None \<Rightarrow> Inr e
      | Some k \<Rightarrow>
          ok_then (lift_error NewKey (compileSessionKey U (serves i (snd e)) k)) (\<lambda>k.
            Inr (fst e, (snd e)\<lparr>ht_key := Some k\<rparr>)))"

definition New_interceptor :: "new_given \<Rightarrow> intercept_route list \<Rightarrow> new_error + interceptor" where
  "New_interceptor G rs =
     ok_then (add_routes G \<lparr>ip_routes = [], ip_wild = []\<rparr> rs) (\<lambda>i.
     let U = casing (rg_lib (ng_route G)) in
     ok_then (all_ok (with_key U i) (ip_routes i)) (\<lambda>ex.
     ok_then (all_ok (with_key U i) (ip_wild i)) (\<lambda>wi.
       Inr \<lparr>ip_routes = ex, ip_wild = wi\<rparr>)))"

section \<open>What a parsed host is\<close>

lemma TrimRight_no_dot: "validHostname raw = None \<Longrightarrow> TrimRight raw ''.'' = raw \<and> TrimRight (raw @ ''.'') ''.'' = raw"
  using ValidQueryName_last_dot [OF validHostname_valid, of raw] TrimRight_id [of raw "''.''"]
  by (simp add: TrimRight_def)

lemma valid_bytes: "ValidQueryName n \<Longrightarrow> list_all (\<lambda>c. nameByte c \<or> c = CHR ''.'') n"
proof -
  have "query_bytes k s \<Longrightarrow> list_all (\<lambda>c. nameByte c \<or> c = CHR ''.'') s" for k s
    by (induction k s rule: query_bytes.induct) (auto split: if_splits)
  then show "ValidQueryName n \<Longrightarrow> list_all (\<lambda>c. nameByte c \<or> c = CHR ''.'') n" by (auto simp: ValidQueryName_def)
qed

text \<open>A host that parses is its pattern, in the normal form of names.\<close>

lemma TrimSuffix_dot: "TrimSuffix s ''.'' = t \<Longrightarrow> s = t \<or> s = t @ ''.''"
  by (auto simp: TrimSuffix_def CutSuffix_Some suffix_def split: option.splits if_splits)

lemma host_of_pattern:
  assumes "ParsePattern s = Inr p" "p \<noteq> AnyName"
  shows "normaliseHost s = pattern_String p"
proof -
  obtain star raw where raw: "validHostname raw = None" "TrimSuffix s ''.'' = (if star then ''*.'' else []) @ raw"
    "p = (if star then WildName (map ascii_lower raw) else ExactName (map ascii_lower raw))"
  proof -
    let ?t = "TrimSuffix s ''.''"
    have N: "validHostname r = None \<Longrightarrow> Normalize r = map ascii_lower r" for r
      using Normalize_valid validHostname_valid by blast
    show thesis
    proof (cases "CutPrefix ?t ''*.''")
      case None
      with assms N that [of ?t False] show thesis by (auto simp: ParsePattern_def Let_def split: if_splits option.splits)
    next
      case (Some r)
      with assms N that [of r True] show thesis
        by (auto simp: ParsePattern_def Let_def CutPrefix_Some split: if_splits option.splits)
    qed
  qed
  have v: "ValidQueryName raw" by (rule validHostname_valid [OF raw(1)])
  then have b: "list_all (\<lambda>c. nameByte c \<or> c = CHR ''.'') raw" "raw \<noteq> []"
    by (auto simp: valid_bytes ValidQueryName_def)
  have s: "s = (if star then ''*.'' else []) @ raw \<or> s = ((if star then ''*.'' else []) @ raw) @ ''.''"
    by (rule TrimSuffix_dot [OF raw(2)])
  have n: "\<not> nameByte CHR '':''" "\<not> nameByte CHR ''[''" by code_simp+
  have colon: "CHR '':'' \<notin> set s" "CHR ''['' \<notin> set s" using b s n by (auto simp: list_all_iff split: if_splits)
  then have open': "\<not> prefix ''['' s" by (auto simp: prefix_def)
  have cut: "CutLast CHR '':'' s = None" using colon(1) by (simp add: CutLast_def)
  have t: "TrimRight (x @ raw) ''.'' = x @ raw \<and> TrimRight ((x @ raw) @ ''.'') ''.'' = x @ raw" for x
    using ValidQueryName_last_dot [OF v] TrimRight_id [of "x @ raw" "''.''"] by (simp add: TrimRight_def)
  have "TrimRight s ''.'' = (if star then ''*.'' else []) @ raw"
    using s t [of "if star then ''*.'' else []"] by auto
  moreover have "map ascii_lower ''*.'' = ''*.''" by code_simp
  ultimately have "Normalize s = (if star then ''*.'' else []) @ map ascii_lower raw" by (simp add: Normalize_def)
  with open' cut raw(3) show ?thesis by (simp add: normaliseHost_def)
qed

section \<open>What an interceptor holds\<close>

text \<open>A route as it was made, at its name in the table of exact names or of wildcards.\<close>

definition route_made :: "new_given \<Rightarrow> intercept_route list \<Rightarrow> bool \<Rightarrow> string \<times> http_route \<Rightarrow> bool" where
  "route_made G rs star e \<longleftrightarrow>
     (let (dn, rt) = e; r = ht_Route rt in
      r \<in> set rs \<and> ht_wild rt = star \<and> ht_host rt = (if star then ''*.'' else []) @ dn \<and>
      ParsePattern (in_Host r) = Inr (if star then WildName dn else ExactName dn) \<and>
      validate_route (ng_route G) r = Inr (ht_upstream rt) \<and>
      compileScope (casing (rg_lib (ng_route G))) (in_Scope r) = Inr (ht_scope rt) \<and>
      compileRefusal (ng_media G) (ng_valid G) (in_Refusal r) = Inr (ht_refusal rt) \<and>
      ht_docker rt = map_option (\<lambda>d. newDockerRoute d (ul_Path (ht_upstream rt))) (in_Docker r))"

definition routes_made :: "new_given \<Rightarrow> intercept_route list \<Rightarrow> interceptor \<Rightarrow> bool" where
  "routes_made G rs i \<longleftrightarrow>
     distinct (map fst (ip_routes i)) \<and> distinct (map fst (ip_wild i)) \<and>
     list_all (route_made G rs False) (ip_routes i) \<and> list_all (route_made G rs True) (ip_wild i) \<and>
     length (filter (\<lambda>r. ht_docker r \<noteq> None) (all_routes i)) \<le> 1"

lemma put_unmapped: "map_of m k = None \<Longrightarrow> put k v m = m @ [(k, v)]"
  by (induction k v m rule: put.induct) (auto split: if_splits)

lemma validate_route_pattern:
  assumes "validate_route G r = Inr u"
  obtains p where "ParsePattern (in_Host r) = Inr p" "p \<noteq> AnyName"
  using assms that by (auto simp: validate_route_def split: if_splits sum.splits pattern.splits)

lemma pattern_no_star: "ParsePattern s = Inr (ExactName dn) \<Longrightarrow> CutPrefix dn ''*.'' = None"
proof (erule ParsePattern_cases)
  fix raw assume "CHR ''*'' \<notin> set raw" "ExactName dn = ExactName (map ascii_lower raw)"
  then have "CHR ''*'' \<notin> set dn" by (simp add: star_in_lower)
  then have "\<not> prefix ''*.'' dn" by (auto simp: prefix_def)
  then show ?thesis by (simp add: CutPrefix_def)
qed auto

text \<open>Where a route's name and table are read off its host.\<close>

lemma host_name:
  assumes "ParsePattern (in_Host r) = Inr p" "p \<noteq> AnyName"
  obtains dn star where "p = (if star then WildName dn else ExactName dn)"
    "normaliseHost (in_Host r) = (if star then ''*.'' else []) @ dn"
    "(case CutPrefix (normaliseHost (in_Host r)) ''*.'' of Some s \<Rightarrow> (s, True) | None \<Rightarrow> (normaliseHost (in_Host r), False)) =
     (dn, star)"
proof (cases p)
  case (ExactName dn)
  with assms show thesis
    by (intro that [of False dn]) (simp_all add: host_of_pattern pattern_no_star)
next
  case (WildName dn)
  with assms show thesis
    by (intro that [of True dn]) (simp_all add: host_of_pattern CutPrefix_def)
qed (use assms in simp)

lemma compile_route_made:
  assumes "compile_route G up host star r = Inr rt"
  shows "ht_Route rt = r" "ht_host rt = host" "ht_wild rt = star" "ht_upstream rt = up" "ht_key rt = None"
    "compileScope (casing (rg_lib (ng_route G))) (in_Scope r) = Inr (ht_scope rt)"
    "compileRefusal (ng_media G) (ng_valid G) (in_Refusal r) = Inr (ht_refusal rt)"
    "ht_docker rt = map_option (\<lambda>d. newDockerRoute d (ul_Path up)) (in_Docker r)"
  using assms by (auto simp: compile_route_def ok_then_Inr lift_error_Inr)

lemma add_route_made:
  assumes "add_route G i r = Inr i'" "routes_made G rs i" "r \<in> set rs" "list_all (\<lambda>rt. ht_key rt = None) (all_routes i)"
  shows "routes_made G rs i' \<and> length (all_routes i') = Suc (length (all_routes i)) \<and>
    list_all (\<lambda>rt. ht_key rt = None) (all_routes i')"
proof -
  from assms(1) obtain up where up: "validate_route (ng_route G) r = Inr up"
    by (auto simp: add_route_def ok_then_Inr lift_error_Inr)
  from validate_route_pattern [OF up] obtain p where p: "ParsePattern (in_Host r) = Inr p" "p \<noteq> AnyName" .
  obtain dn star where h: "p = (if star then WildName dn else ExactName dn)"
    "normaliseHost (in_Host r) = (if star then ''*.'' else []) @ dn"
    "(case CutPrefix (normaliseHost (in_Host r)) ''*.'' of Some s \<Rightarrow> (s, True) | None \<Rightarrow> (normaliseHost (in_Host r), False)) =
     (dn, star)" using host_name [OF p] .
  from assms(1) h(3) obtain rt where rt: "compile_route G up (normaliseHost (in_Host r)) star r = Inr rt"
    and fresh: "map_of (if star then ip_wild i else ip_routes i) dn = None"
    and one: "ht_docker rt = None \<or> \<not> list_ex (\<lambda>r. ht_docker r \<noteq> None) (all_routes i)"
    and i': "i' = (if star then i\<lparr>ip_wild := put dn rt (ip_wild i)\<rparr> else i\<lparr>ip_routes := put dn rt (ip_routes i)\<rparr>)"
    using up by (auto simp: add_route_def Let_def ok_then_Inr lift_error_Inr split: if_splits)
  note m = compile_route_made [OF rt]
  have made: "route_made G rs star (dn, rt)"
    using m h p(1) up assms(3) by (simp add: route_made_def Let_def)
  have i'': "i' = (if star then i\<lparr>ip_wild := ip_wild i @ [(dn, rt)]\<rparr> else i\<lparr>ip_routes := ip_routes i @ [(dn, rt)]\<rparr>)"
    using i' fresh by (auto simp: put_unmapped)
  have docker: "filter (\<lambda>r. ht_docker r \<noteq> None) (all_routes i) = [] \<or> ht_docker rt = None"
    using one by (auto simp: list_ex_iff filter_empty_conv)
  show ?thesis
    using assms(2,4) made fresh docker m(5) unfolding i''
    by (cases star) (auto simp: routes_made_def all_routes_def map_of_eq_None_iff filter_map)
qed

lemma add_routes_made:
  assumes "add_routes G i rs' = Inr i'" "routes_made G rs i" "set rs' \<subseteq> set rs" "list_all (\<lambda>rt. ht_key rt = None) (all_routes i)"
  shows "routes_made G rs i' \<and> length (all_routes i') = length (all_routes i) + length rs' \<and>
    list_all (\<lambda>rt. ht_key rt = None) (all_routes i')"
  using assms
proof (induction G i rs' rule: add_routes.induct)
  case (2 G i r rs')
  then obtain j where j: "add_route G i r = Inr j" "add_routes G j rs' = Inr i'" by (auto simp: ok_then_Inr)
  from add_route_made [OF j(1)] 2 have "routes_made G rs j \<and> length (all_routes j) = Suc (length (all_routes i)) \<and>
    list_all (\<lambda>rt. ht_key rt = None) (all_routes j)" by simp
  with "2.IH" j "2.prems"(3) show ?case by auto
qed simp

text \<open>The second loop changes no route but for its key.\<close>

lemma with_key_keeps:
  assumes "with_key U i e = Inr e'"
  shows "fst e' = fst e \<and> (\<exists>k. snd e' = (snd e)\<lparr>ht_key := k\<rparr>) \<and>
    (ht_key (snd e) = None \<longrightarrow> (ht_key (snd e') \<noteq> None) = (in_Key (ht_Route (snd e')) \<noteq> None))"
proof (cases "in_Key (ht_Route (snd e))")
  case None
  with assms have "e' = e" by (simp add: with_key_def)
  then show ?thesis using None by (auto intro: exI [of _ "ht_key (snd e)"])
next
  case (Some k)
  with assms show ?thesis by (auto simp: with_key_def ok_then_Inr)
qed

lemma all_with_key:
  assumes "all_ok (with_key U i) es = Inr es'"
  shows "map fst es' = map fst es" "length es' = length es"
    "list_all (route_made G rs star) es \<Longrightarrow> list_all (route_made G rs star) es'"
    "map ht_docker (map snd es') = map ht_docker (map snd es)"
    "list_all (\<lambda>rt. ht_key rt = None) (map snd es) \<Longrightarrow>
     list_all (\<lambda>rt. (ht_key rt \<noteq> None) = (in_Key (ht_Route rt) \<noteq> None)) (map snd es')"
proof -
  have "map fst es' = map fst es \<and> length es' = length es \<and> map ht_docker (map snd es') = map ht_docker (map snd es) \<and>
    (list_all (route_made G rs star) es \<longrightarrow> list_all (route_made G rs star) es') \<and>
    (list_all (\<lambda>rt. ht_key rt = None) (map snd es) \<longrightarrow>
     list_all (\<lambda>rt. (ht_key rt \<noteq> None) = (in_Key (ht_Route rt) \<noteq> None)) (map snd es'))"
    using assms
  proof (induction es arbitrary: es')
    case (Cons e es)
    then obtain f fs where f: "with_key U i e = Inr f" "all_ok (with_key U i) es = Inr fs" "es' = f # fs"
      by (auto simp: ok_then_Inr)
    from with_key_keeps [OF f(1)] obtain k where k: "fst f = fst e" "snd f = (snd e)\<lparr>ht_key := k\<rparr>"
      "ht_key (snd e) = None \<longrightarrow> (ht_key (snd f) \<noteq> None) = (in_Key (ht_Route (snd f)) \<noteq> None)"
      by (elim conjE exE) (rule that)
    have "f = (fst e, (snd e)\<lparr>ht_key := k\<rparr>)" using k by (cases f) simp
    then have "route_made G rs star e = route_made G rs star f" by (simp add: route_made_def Let_def split: prod.splits)
    with Cons.IH [OF f(2)] f(3) k show ?case by auto
  qed simp
  then show "map fst es' = map fst es" "length es' = length es"
    "list_all (route_made G rs star) es \<Longrightarrow> list_all (route_made G rs star) es'"
    "map ht_docker (map snd es') = map ht_docker (map snd es)"
    "list_all (\<lambda>rt. ht_key rt = None) (map snd es) \<Longrightarrow>
     list_all (\<lambda>rt. (ht_key rt \<noteq> None) = (in_Key (ht_Route rt) \<noteq> None)) (map snd es')"
    by blast+
qed

lemma length_filter_map: "map f xs = map f ys \<Longrightarrow> length (filter (\<lambda>x. P (f x)) xs) = length (filter (\<lambda>x. P (f x)) ys)"
proof -
  assume "map f xs = map f ys"
  then have "length (filter P (map f xs)) = length (filter P (map f ys))" by simp
  then show ?thesis by (simp add: filter_map comp_def)
qed

lemma New_made:
  assumes "New_interceptor G rs = Inr i"
  shows "routes_made G rs i \<and> length (all_routes i) = length rs \<and>
    list_all (\<lambda>rt. (ht_key rt \<noteq> None) = (in_Key (ht_Route rt) \<noteq> None)) (all_routes i)"
proof -
  let ?U = "casing (rg_lib (ng_route G))"
  from assms obtain j ex wi where j: "add_routes G \<lparr>ip_routes = [], ip_wild = []\<rparr> rs = Inr j"
    and k: "all_ok (with_key ?U j) (ip_routes j) = Inr ex" "all_ok (with_key ?U j) (ip_wild j) = Inr wi"
    and i: "i = \<lparr>ip_routes = ex, ip_wild = wi\<rparr>"
    by (auto simp: New_interceptor_def Let_def ok_then_Inr)
  have "routes_made G rs \<lparr>ip_routes = [], ip_wild = []\<rparr>" by (simp add: routes_made_def all_routes_def)
  from add_routes_made [OF j this] have m: "routes_made G rs j" "length (all_routes j) = length rs"
    "list_all (\<lambda>rt. ht_key rt = None) (all_routes j)" by (auto simp: all_routes_def)
  note e = all_with_key [OF k(1)] and w = all_with_key [OF k(2)]
  have "map ht_docker (all_routes i) = map ht_docker (all_routes j)" using e(4) w(4) by (simp add: all_routes_def i)
  from length_filter_map [OF this, of "\<lambda>d. d \<noteq> None"]
  have "length (filter (\<lambda>r. ht_docker r \<noteq> None) (all_routes i)) \<le> 1" using m(1) by (simp add: routes_made_def)
  with m e w show ?thesis by (simp add: routes_made_def all_routes_def i)
qed

section \<open>The route that serves a name\<close>

definition served_pattern :: "http_route \<Rightarrow> pattern" where
  "served_pattern rt = (if ht_wild rt then WildName (drop 2 (ht_host rt)) else ExactName (ht_host rt))"

lemma wild_route_Some:
  "wild_route w n = Some r \<Longrightarrow>
   (\<exists>x e. n = x @ CHR ''.'' # e \<and> map_of w e = Some r \<and>
     (\<forall>x' e'. n = x' @ CHR ''.'' # e' \<and> map_of w e' \<noteq> None \<longrightarrow> length e' \<le> length e))"
proof (induction w n rule: wild_route.induct)
  case (2 w c cs)
  show ?case
  proof (cases "c = CHR ''.'' \<and> map_of w cs \<noteq> None")
    case True
    with 2 have "c # cs = [] @ CHR ''.'' # cs \<and> map_of w cs = Some r" by (auto split: option.splits)
    moreover have "length e' \<le> length cs" if "c # cs = x' @ CHR ''.'' # e'" for x' e'
      using arg_cong [OF that, of length] by simp
    ultimately show ?thesis by blast
  next
    case False
    with 2(3) have w: "wild_route w cs = Some r" by (auto split: if_splits option.splits)
    with False 2(1,2) obtain x e where x: "cs = x @ CHR ''.'' # e" "map_of w e = Some r"
      "\<forall>x' e'. cs = x' @ CHR ''.'' # e' \<and> map_of w e' \<noteq> None \<longrightarrow> length e' \<le> length e"
      by (cases "c = CHR ''.''") auto
    have "length e' \<le> length e" if "c # cs = x' @ CHR ''.'' # e'" "map_of w e' \<noteq> None" for x' e'
      using that False x(3) by (cases x') auto
    with x(1,2) have "c # cs = (c # x) @ CHR ''.'' # e \<and> map_of w e = Some r \<and>
      (\<forall>x' e'. c # cs = x' @ CHR ''.'' # e' \<and> map_of w e' \<noteq> None \<longrightarrow> length e' \<le> length e)" by auto
    then show ?thesis by blast
  qed
qed simp

lemma wild_route_None: "wild_route w n = None \<Longrightarrow> n = x @ CHR ''.'' # e \<Longrightarrow> map_of w e = None"
proof (induction w n arbitrary: x rule: wild_route.induct)
  case (2 w c cs)
  then show ?case by (cases x) (auto split: if_splits option.splits)
qed simp

lemma covers_wild: "covers (WildName e) n \<longleftrightarrow> (\<exists>x. n = x @ CHR ''.'' # e)"
  using dot_suffix_labels [of n e] by (simp add: covers_def)

text \<open>
  C7: A name is served by its own route, or by the wildcard whose suffix is the longest of those it is below; it
  is refused only where it is no name, or no route is for it.
\<close>

theorem lookup_nearest:
  assumes "New_interceptor G rs = Inr i"
  shows "case lookup_route i n of
      None \<Rightarrow> \<not> ValidQueryName n \<or> list_all (\<lambda>r. \<not> covers (served_pattern r) n) (all_routes i)
    | Some rt \<Rightarrow> rt \<in> set (all_routes i) \<and> covers (served_pattern rt) n \<and>
        list_all (\<lambda>r. covers (served_pattern r) n \<longrightarrow>
          r = rt \<or> ht_wild r \<and> (ht_wild rt \<longrightarrow> length (ht_host r) < length (ht_host rt))) (all_routes i)"
proof -
  have m: "routes_made G rs i" using New_made [OF assms] by blast
  have e: "\<not> ht_wild rt \<and> ht_host rt = k" if "(k, rt) \<in> set (ip_routes i)" for k rt
    using m that by (auto simp: routes_made_def list_all_iff route_made_def Let_def)
  have w: "ht_wild rt \<and> ht_host rt = ''*.'' @ k" if "(k, rt) \<in> set (ip_wild i)" for k rt
    using m that by (force simp: routes_made_def list_all_iff route_made_def Let_def)
  have d: "distinct (map fst (ip_routes i))" "distinct (map fst (ip_wild i))" using m by (simp_all add: routes_made_def)
  have pe: "served_pattern rt = ExactName k" if "(k, rt) \<in> set (ip_routes i)" for k rt
    using e [OF that] by (simp add: served_pattern_def)
  have pw: "served_pattern rt = WildName k" if "(k, rt) \<in> set (ip_wild i)" for k rt
    using w [OF that] by (simp add: served_pattern_def)
  have exact_same: "map_of (ip_routes i) n = Some rt" if "(k, rt) \<in> set (ip_routes i)" "covers (served_pattern rt) n" for k rt
    using that pe [OF that(1)] d(1) by (auto simp: covers_def)
  have wild_of: "\<exists>x. n = x @ CHR ''.'' # k \<and> map_of (ip_wild i) k = Some rt"
    if "(k, rt) \<in> set (ip_wild i)" "covers (served_pattern rt) n" for k rt
    using that pw [OF that(1)] d(2) by (auto simp: covers_wild)
  have all: "r \<in> set (all_routes i) \<Longrightarrow> (\<exists>k. (k, r) \<in> set (ip_routes i)) \<or> (\<exists>k. (k, r) \<in> set (ip_wild i))" for r
    by (auto simp: all_routes_def)
  consider (bad) "\<not> ValidQueryName n" | (own) rt where "ValidQueryName n" "map_of (ip_routes i) n = Some rt"
    | (above) rt where "ValidQueryName n" "map_of (ip_routes i) n = None" "wild_route (ip_wild i) n = Some rt"
    | (none) "ValidQueryName n" "map_of (ip_routes i) n = None" "wild_route (ip_wild i) n = None"
    by (cases "map_of (ip_routes i) n"; cases "wild_route (ip_wild i) n") auto
  then show ?thesis
  proof cases
    case own
    then have in_own: "(n, rt) \<in> set (ip_routes i)" by (simp add: map_of_SomeD)
    have "r = rt \<or> ht_wild r" if "r \<in> set (all_routes i)" "covers (served_pattern r) n" for r
      using all [OF that(1)] exact_same that(2) own(2) w by fastforce
    moreover have "rt \<in> set (all_routes i)" using in_own by (force simp: all_routes_def)
    moreover have "covers (served_pattern rt) n" using pe [OF in_own] by (simp add: covers_def)
    ultimately show ?thesis using own e [OF in_own] by (auto simp: lookup_route_def list_all_iff)
  next
    case above
    obtain x k where k: "n = x @ CHR ''.'' # k" "map_of (ip_wild i) k = Some rt"
      "\<forall>x' e'. n = x' @ CHR ''.'' # e' \<and> map_of (ip_wild i) e' \<noteq> None \<longrightarrow> length e' \<le> length k"
      using wild_route_Some [OF above(3)] by blast
    then have in_wild: "(k, rt) \<in> set (ip_wild i)" by (simp add: map_of_SomeD)
    have "r = rt \<or> ht_wild r \<and> length (ht_host r) < length (ht_host rt)"
      if r: "r \<in> set (all_routes i)" and c: "covers (served_pattern r) n" for r
    proof -
      from all [OF r] exact_same c above(2) obtain k' where k': "(k', r) \<in> set (ip_wild i)" by fastforce
      from wild_of [OF this c] obtain x' where x': "n = x' @ CHR ''.'' # k'" "map_of (ip_wild i) k' = Some r" by blast
      with k(3) have "length k' \<le> length k" by simp
      moreover have "k' = k" if "length k' = length k" using k(1) x'(1) that by (simp add: append_eq_append_conv)
      ultimately show ?thesis using w [OF k'] w [OF in_wild] x'(2) k(2) by (cases "length k' = length k") auto
    qed
    moreover have "covers (served_pattern rt) n" unfolding pw [OF in_wild] covers_wild using k(1) by blast
    moreover have "rt \<in> set (all_routes i)" using in_wild by (force simp: all_routes_def)
    ultimately show ?thesis using above by (auto simp: lookup_route_def list_all_iff)
  next
    case none
    have "\<not> covers (served_pattern r) n" if "r \<in> set (all_routes i)" for r
      using all [OF that] exact_same wild_of none(2) wild_route_None [OF none(3)] by fastforce
    with none show ?thesis by (simp add: lookup_route_def list_all_iff)
  qed (simp add: lookup_route_def)
qed

text \<open>Routes to evaluate: one name, and the names under the one above it.\<close>

definition plain_lib :: lib where
  "plain_lib =
     \<lparr>folding = latin_fold, casing = ascii_unicode, printed = (\<lambda>_. []), quoted = (\<lambda>s. s), tokens = (\<lambda>_. [])\<rparr>"

definition plain_route :: "string \<Rightarrow> intercept_route" where
  "plain_route h =
     \<lparr>in_Name = h, in_Host = h, in_Upstream = h, in_CAs = False, in_Credential = False, in_Inject = None,
      in_Placeholder = [], in_Scope = empty_scope\<lparr>sc_Unmatched := UnmatchedAsk\<rparr>, in_Refusal = None, in_Key = None,
      in_Docker = None\<rparr>"

definition plain_given :: new_given where
  "plain_given =
     \<lparr>ng_route = \<lparr>rg_lib = plain_lib, rg_URL = (\<lambda>h. Some \<lparr>ul_Scheme = ''https'', ul_Opaque = [], ul_Host = h, ul_Path = [],
        ul_Escaped = [], ul_User = False, ul_RawQuery = [], ul_ForceQuery = False, ul_Fragment = []\<rparr>), rg_Sum = (\<lambda>_. [])\<rparr>,
      ng_media = (\<lambda>v. Some (v, [])), ng_valid = (\<lambda>_. True)\<rparr>"

definition plain_routes :: "intercept_route list" where
  "plain_routes = [plain_route ''*.example.com'', plain_route ''api.example.com'']"

lemma plain_interceptor:
  obtains i rt where "New_interceptor plain_given plain_routes = Inr i" "lookup_route i ''x.example.com'' = Some rt"
    "ht_host rt = ''*.example.com''" "Hosts i = [''api.example.com'', ''*.example.com'']"
proof -
  have "map_sum id (\<lambda>i. (map_option ht_host (lookup_route i ''x.example.com''), Hosts i)) (New_interceptor plain_given plain_routes) =
    Inr (Some ''*.example.com'', [''api.example.com'', ''*.example.com''])" by code_simp
  then show thesis by (cases "New_interceptor plain_given plain_routes") (auto intro: that)
qed

lemma lookup_nearest_witness:
  "\<exists>i rt. New_interceptor plain_given plain_routes = Inr i \<and>
     lookup_route i ''x.example.com'' = Some rt \<and> ht_host rt = ''*.example.com'' \<and>
     covers (served_pattern rt) ''x.example.com''"
proof -
  obtain i rt where i: "New_interceptor plain_given plain_routes = Inr i" "lookup_route i ''x.example.com'' = Some rt"
    "ht_host rt = ''*.example.com''" by (rule plain_interceptor)
  with lookup_nearest [OF i(1), of "''x.example.com''"] show ?thesis by auto
qed

text \<open>
  C36: An interceptor that is made holds every route it was given once, under its own name and in the table of its
  kind, with a scope, refusal and Docker route compiled from the route's own, a key where it has one, and at most
  one Docker route.
\<close>

theorem New_well_formed:
  assumes "New_interceptor G rs = Inr i"
  shows "routes_made G rs i \<and> length (all_routes i) = length rs \<and>
    list_all (\<lambda>rt. (ht_key rt \<noteq> None) = (in_Key (ht_Route rt) \<noteq> None)) (all_routes i)"
  by (rule New_made [OF assms])

lemma New_well_formed_witness:
  "\<exists>i. New_interceptor plain_given plain_routes = Inr i \<and> routes_made plain_given plain_routes i \<and> length (all_routes i) = 2"
proof -
  obtain i where i: "New_interceptor plain_given plain_routes = Inr i" by (rule plain_interceptor)
  with New_well_formed [OF i] show ?thesis by (simp add: plain_routes_def)
qed

end
