(* ===== verification/Http_CA.thy ===== *)
theory Http_CA
  imports Http_Hosts Net_Addr
begin

text \<open>
  A session's certificate authority, \<open>internal/intercept/ca.go\<close>, and the handshake, \<open>getCertificate\<close> of
  \<open>intercept.go\<close>: the names it is constrained to, the certificates minted and kept, and which handshakes get one.

  Keys, serial numbers and signing are given: a certificate's key and serial number are numbers, none where
  making one failed. A certificate is the fields of its template, its times in whole seconds as X.509 has them.
  PEM and PKCS are left out. Elements of the list of leaves are numbers of cells.
\<close>

section \<open>The constraints\<close>

abbreviation hour :: int where "hour \<equiv> 3600 * seconds"

definition caLifetime :: int where "caLifetime = 365 * 24 * hour"
definition leafLifetime :: int where "leafLifetime = 7 * 24 * hour"
definition leafRenew :: int where "leafRenew = 24 * hour"
definition backdate :: int where "backdate = hour"
definition DefaultLeafCacheSize :: int where "DefaultLeafCacheSize = 256"

definition whole_seconds :: "int \<Rightarrow> int" where
  "whole_seconds t = t div seconds * seconds"

record ca_certificate =
  cc_Permitted :: "string list"
  cc_Excluded :: "string list"
  cc_ExcludedIPs :: "(addr \<times> nat) list"
  cc_Critical :: bool
  cc_NotBefore :: int
  cc_NotAfter :: int
  cc_IsCA :: bool
  cc_MaxPathLenZero :: bool

text \<open>\<open>slices.Compact\<close> keeps the first of each run of equals.\<close>

definition constrained_name :: "string \<Rightarrow> string option" where
  "constrained_name h =
     (let n = Normalize h; n = (case CutPrefix n ''*.'' of Some s \<Rightarrow> s | None \<Rightarrow> n) in
      if n = [] \<or> list_ex (\<lambda>c. c \<in> set ''*:[]/ '') n then None else Some n)"

definition constrainedNames :: "string list \<Rightarrow> string + string list" where
  "constrainedNames hs =
     (case find (\<lambda>h. constrained_name h = None) hs of
        Some h \<Rightarrow> Inl h
      | None \<Rightarrow> Inr (remdups_adj (sort (map (\<lambda>h. the (constrained_name h)) hs))))"

definition constrain :: "ca_certificate \<Rightarrow> string list \<Rightarrow> ca_certificate" where
  "constrain tmpl ns =
     tmpl\<lparr>cc_Critical := True, cc_Permitted := ns, cc_Excluded := (if ns = [] then [[]] else cc_Excluded tmpl),
       cc_ExcludedIPs := [(V4 0, 0), (V6 0 [], 0)]\<rparr>"

section \<open>A CA and its leaves\<close>

record leaf_certificate =
  lc_CommonName :: string
  lc_DNSNames :: "string list"
  lc_NotBefore :: int
  lc_NotAfter :: int
  lc_Key :: nat
  lc_Serial :: nat

record kept_leaf =
  lf_name :: string
  lf_cert :: leaf_certificate
  lf_notAfter :: int

record ca =
  ca_cert :: ca_certificate
  ca_max :: int
  ca_lru :: "nat list"
  ca_cells :: "nat \<Rightarrow> kept_leaf"
  ca_next :: nat
  ca_byKey :: "string \<Rightarrow> nat option"

definition no_leaf :: kept_leaf where
  "no_leaf =
     \<lparr>lf_name = [], lf_cert = \<lparr>lc_CommonName = [], lc_DNSNames = [], lc_NotBefore = 0, lc_NotAfter = 0, lc_Key = 0, lc_Serial = 0\<rparr>,
      lf_notAfter = 0\<rparr>"

definition newCA :: "ca_certificate \<Rightarrow> ca" where
  "newCA cert =
     \<lparr>ca_cert = cert, ca_max = DefaultLeafCacheSize, ca_lru = [], ca_cells = (\<lambda>_. no_leaf), ca_next = 0, ca_byKey = Map.empty\<rparr>"

datatype ca_error = CANotHost string | CAFailed

text \<open>\<open>made\<close> is whether the key and the certificate could be made.\<close>

definition NewCA :: "string list \<Rightarrow> int \<Rightarrow> bool \<Rightarrow> ca_error + ca" where
  "NewCA hs now made =
     ok_then (lift_error CANotHost (constrainedNames hs)) (\<lambda>ns.
       if \<not> made then Inl CAFailed
       else Inr (newCA (constrain
         \<lparr>cc_Permitted = [], cc_Excluded = [], cc_ExcludedIPs = [], cc_Critical = False,
          cc_NotBefore = whole_seconds (now - backdate), cc_NotAfter = whole_seconds (now + caLifetime),
          cc_IsCA = True, cc_MaxPathLenZero = True\<rparr> ns)))"

text \<open>What \<open>ParseCA\<close> refuses of a certificate it could parse: its being another key's is given.\<close>

datatype parse_error = NotCA | CAExpired | NotItsKey

definition ParseCA :: "ca_certificate \<Rightarrow> bool \<Rightarrow> int \<Rightarrow> parse_error + ca" where
  "ParseCA cert same now =
     (if \<not> cc_IsCA cert then Inl NotCA
      else if now > cc_NotAfter cert then Inl CAExpired
      else if \<not> same then Inl NotItsKey
      else Inr (newCA cert))"

definition ca_Hosts :: "ca \<Rightarrow> string list" where
  "ca_Hosts a = cc_Permitted (ca_cert a)"

definition Permits :: "ca \<Rightarrow> string \<Rightarrow> bool" where
  "Permits a host =
     (let h = normaliseHost host; h = (case CutPrefix h ''*.'' of Some s \<Rightarrow> s | None \<Rightarrow> h) in
      list_ex (\<lambda>c. h = c \<or> suffix (CHR ''.'' # c) h) (cc_Permitted (ca_cert a)))"

definition drop_leaf :: "nat \<Rightarrow> ca \<Rightarrow> ca" where
  "drop_leaf e a = a\<lparr>ca_lru := remove1 e (ca_lru a), ca_byKey := (ca_byKey a)(lf_name (ca_cells a e) := None)\<rparr>"

text \<open>The loop of \<open>evict\<close>, which ends when the list is empty at the latest.\<close>

fun evict_rounds :: "nat \<Rightarrow> ca \<Rightarrow> ca" where
  "evict_rounds 0 a = a"
| "evict_rounds (Suc k) a =
     (if int (length (ca_lru a)) > ca_max a \<and> ca_lru a \<noteq> [] then evict_rounds k (drop_leaf (last (ca_lru a)) a) else a)"

definition evict_leaves :: "ca \<Rightarrow> ca" where
  "evict_leaves a = evict_rounds (length (ca_lru a)) a"

definition SetCacheSize :: "ca \<Rightarrow> int \<Rightarrow> ca" where
  "SetCacheSize a n = evict_leaves (a\<lparr>ca_max := (if n < 1 then 1 else n)\<rparr>)"

definition mint :: "ca \<Rightarrow> string \<Rightarrow> int \<Rightarrow> (nat \<times> nat) option \<Rightarrow> (leaf_certificate \<times> int) option" where
  "mint a dn now made =
     (case made of
        None \<Rightarrow> None
      | Some (key, serial) \<Rightarrow>
          let notAfter = now + leafLifetime;
              notAfter = (if notAfter > cc_NotAfter (ca_cert a) then cc_NotAfter (ca_cert a) else notAfter)
          in Some (\<lparr>lc_CommonName = dn, lc_DNSNames = [dn], lc_NotBefore = whole_seconds (now - backdate),
            lc_NotAfter = whole_seconds notAfter, lc_Key = key, lc_Serial = serial\<rparr>, notAfter))"

definition keep_leaf :: "ca \<Rightarrow> kept_leaf \<Rightarrow> ca" where
  "keep_leaf a l =
     (let e = ca_next a in
      a\<lparr>ca_cells := (ca_cells a)(e := l), ca_next := Suc e, ca_byKey := (ca_byKey a)(lf_name l := Some e),
        ca_lru := e # ca_lru a\<rparr>)"

definition mint_leaf :: "ca \<Rightarrow> string \<Rightarrow> int \<Rightarrow> (nat \<times> nat) option \<Rightarrow> leaf_certificate option \<times> ca" where
  "mint_leaf a dn now made =
     (case mint a dn now made of
        None \<Rightarrow> (None, a)
      | Some (cert, notAfter) \<Rightarrow>
          (Some cert, evict_leaves (keep_leaf a \<lparr>lf_name = dn, lf_cert = cert, lf_notAfter = notAfter\<rparr>)))"

definition ca_Leaf :: "ca \<Rightarrow> string \<Rightarrow> int \<Rightarrow> (nat \<times> nat) option \<Rightarrow> leaf_certificate option \<times> ca" where
  "ca_Leaf a dn now made =
     (case ca_byKey a dn of
        Some e \<Rightarrow>
          let l = ca_cells a e in
          if now + leafRenew < lf_notAfter l
          then (Some (lf_cert l), a\<lparr>ca_lru := e # remove1 e (ca_lru a)\<rparr>)
          else mint_leaf (drop_leaf e a) dn now made
      | None \<Rightarrow> mint_leaf a dn now made)"

section \<open>The handshake\<close>

definition ReasonNoSNI :: string where "ReasonNoSNI = ''no SNI''"
definition ReasonUnknownName :: string where "ReasonUnknownName = ''not a route''"
definition ReasonNotInCA :: string where "ReasonNotInCA = ''not in the session's CA''"

datatype handshake = Presents leaf_certificate | HandshakeRefused string string | HandshakeFailed

definition getCertificate :: "interceptor \<Rightarrow> ca \<Rightarrow> string \<Rightarrow> int \<Rightarrow> (nat \<times> nat) option \<Rightarrow> handshake \<times> ca" where
  "getCertificate i a serverName now made =
     (let dn = normaliseHost serverName in
      if dn = [] then (HandshakeRefused [] ReasonNoSNI, a)
      else if lookup_route i dn = None then (HandshakeRefused dn ReasonUnknownName, a)
      else if \<not> Permits a dn then (HandshakeRefused dn ReasonNotInCA, a)
      else (case ca_Leaf a dn now made of
          (Some cert, a) \<Rightarrow> (Presents cert, a)
        | (None, a) \<Rightarrow> (HandshakeFailed, a)))"

section \<open>The leaves kept\<close>

definition leaf_good :: "ca \<Rightarrow> kept_leaf \<Rightarrow> bool" where
  "leaf_good a l \<longleftrightarrow>
     lc_DNSNames (lf_cert l) = [lf_name l] \<and> lc_NotAfter (lf_cert l) = whole_seconds (lf_notAfter l) \<and>
     lf_notAfter l \<le> cc_NotAfter (ca_cert a)"

definition leaves_ok :: "ca \<Rightarrow> bool" where
  "leaves_ok a \<longleftrightarrow>
     distinct (ca_lru a) \<and>
     (\<forall>e \<in> set (ca_lru a). e < ca_next a \<and> ca_byKey a (lf_name (ca_cells a e)) = Some e \<and> leaf_good a (ca_cells a e)) \<and>
     (\<forall>n e. ca_byKey a n = Some e \<longrightarrow> e \<in> set (ca_lru a) \<and> lf_name (ca_cells a e) = n)"

definition ca_ok :: "ca \<Rightarrow> bool" where
  "ca_ok a \<longleftrightarrow> leaves_ok a \<and> 1 \<le> ca_max a \<and> int (length (ca_lru a)) \<le> ca_max a"

lemma leaves_okD:
  assumes "leaves_ok a"
  shows "distinct (ca_lru a)" "f \<in> set (ca_lru a) \<Longrightarrow> f < ca_next a"
    "f \<in> set (ca_lru a) \<Longrightarrow> ca_byKey a (lf_name (ca_cells a f)) = Some f" "f \<in> set (ca_lru a) \<Longrightarrow> leaf_good a (ca_cells a f)"
    "ca_byKey a n = Some f \<Longrightarrow> f \<in> set (ca_lru a)" "ca_byKey a n = Some f \<Longrightarrow> lf_name (ca_cells a f) = n"
  using assms by (auto simp: leaves_ok_def)

lemma leaf_good_cert: "ca_cert b = ca_cert a \<Longrightarrow> leaf_good b = leaf_good a"
  by (simp add: leaf_good_def fun_eq_iff)

lemma drop_leaf_ok:
  assumes "leaves_ok a" "e \<in> set (ca_lru a)"
  shows "leaves_ok (drop_leaf e a)"
proof -
  note a = leaves_okD [OF assms(1)]
  have g: "leaf_good (drop_leaf e a) = leaf_good a" by (rule leaf_good_cert) (simp add: drop_leaf_def)
  have s: "set (ca_lru (drop_leaf e a)) = set (ca_lru a) - {e}" using a(1) by (simp add: drop_leaf_def)
  have "lf_name (ca_cells a f) \<noteq> lf_name (ca_cells a e)" if "f \<in> set (ca_lru a)" "f \<noteq> e" for f
    using a(3) [OF that(1)] a(3) [OF assms(2)] that(2) by auto
  then show ?thesis
    using a unfolding leaves_ok_def g s by (simp add: drop_leaf_def) blast
qed

text \<open>Moving a leaf to the front.\<close>

lemma used_ok:
  assumes "leaves_ok a" "e \<in> set (ca_lru a)"
  shows "leaves_ok (a\<lparr>ca_lru := e # remove1 e (ca_lru a)\<rparr>)"
proof -
  note a = leaves_okD [OF assms(1)]
  have g: "leaf_good (a\<lparr>ca_lru := e # remove1 e (ca_lru a)\<rparr>) = leaf_good a" by (rule leaf_good_cert) simp
  have s: "set (ca_lru (a\<lparr>ca_lru := e # remove1 e (ca_lru a)\<rparr>)) = set (ca_lru a)" using a(1) assms(2) by auto
  show ?thesis using a unfolding leaves_ok_def g s by simp
qed

lemma keep_leaf_ok:
  assumes "leaves_ok a" "ca_byKey a (lf_name l) = None" "leaf_good a l"
  shows "leaves_ok (keep_leaf a l)"
proof -
  note a = leaves_okD [OF assms(1)]
  have g: "leaf_good (keep_leaf a l) = leaf_good a" by (rule leaf_good_cert) (simp add: keep_leaf_def Let_def)
  have old: "f \<noteq> ca_next a \<and> f < Suc (ca_next a) \<and> lf_name (ca_cells a f) \<noteq> lf_name l" if "f \<in> set (ca_lru a)" for f
    using a(2,3) [OF that] assms(2) by auto
  then have "ca_next a \<notin> set (ca_lru a)" by blast
  with a old assms show ?thesis unfolding leaves_ok_def g by (simp add: keep_leaf_def Let_def)
qed

lemma drop_leaf_fields [simp]:
  "ca_cert (drop_leaf e a) = ca_cert a" "ca_max (drop_leaf e a) = ca_max a"
  by (simp_all add: drop_leaf_def)

lemma evict_rounds_ok:
  assumes "leaves_ok a" "length (ca_lru a) \<le> k" "0 \<le> ca_max a"
  shows "leaves_ok (evict_rounds k a) \<and> int (length (ca_lru (evict_rounds k a))) \<le> ca_max a \<and>
    ca_cert (evict_rounds k a) = ca_cert a \<and> ca_max (evict_rounds k a) = ca_max a"
  using assms
proof (induction k arbitrary: a)
  case (Suc k)
  show ?case
  proof (cases "int (length (ca_lru a)) > ca_max a \<and> ca_lru a \<noteq> []")
    case True
    then have l: "last (ca_lru a) \<in> set (ca_lru a)" by simp
    have "length (ca_lru (drop_leaf (last (ca_lru a)) a)) \<le> k"
      using Suc.prems(2) l by (simp add: drop_leaf_def length_remove1)
    from Suc.IH [OF drop_leaf_ok [OF Suc.prems(1) l] this] Suc.prems(3) True show ?thesis by simp
  qed (use Suc.prems in auto)
qed auto

lemma evict_leaves_ok: "leaves_ok a \<Longrightarrow> 1 \<le> ca_max a \<Longrightarrow> ca_ok (evict_leaves a) \<and> ca_cert (evict_leaves a) = ca_cert a"
  using evict_rounds_ok [of a "length (ca_lru a)"] by (simp add: ca_ok_def evict_leaves_def)

lemma newCA_ok: "ca_ok (newCA cert)" "ca_cert (newCA cert) = cert"
  by (simp_all add: ca_ok_def leaves_ok_def newCA_def DefaultLeafCacheSize_def)

lemma leaves_ok_max: "leaves_ok (a\<lparr>ca_max := n\<rparr>) = leaves_ok a"
  by (simp add: leaves_ok_def leaf_good_def)

lemma SetCacheSize_ok: "ca_ok a \<Longrightarrow> ca_ok (SetCacheSize a n) \<and> ca_cert (SetCacheSize a n) = ca_cert a"
  unfolding SetCacheSize_def
  using evict_leaves_ok [of "a\<lparr>ca_max := (if n < 1 then 1 else n)\<rparr>"] by (simp add: leaves_ok_max ca_ok_def)

text \<open>What a certificate given for a name at a time is.\<close>

definition cert_fits :: "ca \<Rightarrow> string \<Rightarrow> int \<Rightarrow> leaf_certificate \<Rightarrow> bool" where
  "cert_fits a dn now cert \<longleftrightarrow>
     lc_DNSNames cert = [dn] \<and> lc_NotAfter cert \<le> cc_NotAfter (ca_cert a) \<and>
     whole_seconds (min (now + leafRenew) (cc_NotAfter (ca_cert a))) \<le> lc_NotAfter cert"

lemma whole_mono: "s \<le> t \<Longrightarrow> whole_seconds s \<le> whole_seconds t"
  by (simp add: whole_seconds_def zdiv_mono1)

lemma whole_le: "whole_seconds t \<le> t"
  using div_mult_mod_eq [of t seconds] pos_mod_sign [of seconds t] by (simp add: whole_seconds_def)

lemma mint_leaf_ok:
  assumes "mint_leaf a dn now made = (r, a')" "leaves_ok a" "1 \<le> ca_max a" "int (length (ca_lru a)) \<le> ca_max a"
    "ca_byKey a dn = None"
  shows "ca_ok a' \<and> ca_cert a' = ca_cert a \<and> (r = None) = (made = None) \<and> pred_option (cert_fits a dn now) r"
proof (cases made)
  case None
  with assms show ?thesis by (simp add: mint_leaf_def mint_def ca_ok_def)
next
  case (Some ks)
  obtain key serial where ks: "ks = (key, serial)" by (cases ks)
  define na where "na = (if now + leafLifetime > cc_NotAfter (ca_cert a) then cc_NotAfter (ca_cert a) else now + leafLifetime)"
  define cert where "cert = \<lparr>lc_CommonName = dn, lc_DNSNames = [dn], lc_NotBefore = whole_seconds (now - backdate),
    lc_NotAfter = whole_seconds na, lc_Key = key, lc_Serial = serial\<rparr>"
  define l where "l = \<lparr>lf_name = dn, lf_cert = cert, lf_notAfter = na\<rparr>"
  have m: "r = Some cert" "a' = evict_leaves (keep_leaf a l)"
    using assms(1) Some ks by (auto simp: mint_leaf_def mint_def na_def cert_def l_def Let_def)
  have "leaf_good a l" by (simp add: leaf_good_def l_def cert_def na_def)
  then have "leaves_ok (keep_leaf a l)" using keep_leaf_ok [OF assms(2)] assms(5) by (simp add: l_def)
  from evict_leaves_ok [OF this] assms(3) have "ca_ok a' \<and> ca_cert a' = ca_cert a"
    unfolding m by (simp add: keep_leaf_def Let_def)
  moreover have "min (now + leafRenew) (cc_NotAfter (ca_cert a)) \<le> na"
    by (auto simp: na_def leafRenew_def leafLifetime_def)
  then have "cert_fits a dn now cert"
    using whole_mono whole_le [of na] by (auto simp: cert_fits_def cert_def na_def split: if_splits)
  ultimately show ?thesis using m Some by simp
qed

lemma Leaf_ok:
  assumes "ca_Leaf a dn now made = (r, a')" "ca_ok a"
  shows "ca_ok a' \<and> ca_cert a' = ca_cert a \<and> (r = None \<longrightarrow> made = None) \<and> pred_option (cert_fits a dn now) r"
proof (cases "ca_byKey a dn")
  case None
  with assms mint_leaf_ok [of a dn now made r a'] show ?thesis by (auto simp: ca_Leaf_def ca_ok_def)
next
  case (Some e)
  let ?l = "ca_cells a e"
  have e: "e \<in> set (ca_lru a)" "lf_name ?l = dn" "leaf_good a ?l"
    using assms(2) Some by (auto simp: ca_ok_def leaves_ok_def)
  show ?thesis
  proof (cases "now + leafRenew < lf_notAfter ?l")
    case True
    with assms(1) Some have r: "r = Some (lf_cert ?l)" "a' = a\<lparr>ca_lru := e # remove1 e (ca_lru a)\<rparr>"
      by (simp_all add: ca_Leaf_def Let_def)
    have "leaves_ok a'" using used_ok assms(2) e(1) r(2) by (simp add: ca_ok_def)
    moreover have "length (ca_lru a') = length (ca_lru a)" using e(1) r(2) length_pos_if_in_set [OF e(1)] by (simp add: length_remove1)
    ultimately have "ca_ok a'" using assms(2) r(2) by (simp add: ca_ok_def)
    moreover have "cert_fits a dn now (lf_cert ?l)"
      using e(2,3) True whole_mono [of "min (now + leafRenew) (cc_NotAfter (ca_cert a))" "lf_notAfter ?l"] whole_le [of "lf_notAfter ?l"]
      by (simp add: cert_fits_def leaf_good_def)
    ultimately show ?thesis using r by simp
  next
    case False
    with assms(1) Some have m: "mint_leaf (drop_leaf e a) dn now made = (r, a')" by (simp add: ca_Leaf_def Let_def)
    have d: "leaves_ok (drop_leaf e a)" "1 \<le> ca_max (drop_leaf e a)" "ca_byKey (drop_leaf e a) dn = None"
      "int (length (ca_lru (drop_leaf e a))) \<le> ca_max (drop_leaf e a)"
      using assms(2) e drop_leaf_ok by (auto simp: ca_ok_def drop_leaf_def length_remove1)
    have "cert_fits (drop_leaf e a) = cert_fits a" by (simp add: cert_fits_def fun_eq_iff)
    with mint_leaf_ok [OF m d(1,2,4,3)] show ?thesis by simp
  qed
qed

section \<open>The certificates given\<close>

text \<open>What is asked of a CA, in order: a leaf for a name at a time, or another bound on those kept.\<close>

datatype ca_call = CallLeaf string int "(nat \<times> nat) option" | CallSize int

fun ca_run :: "ca \<Rightarrow> ca_call list \<Rightarrow> ca" where
  "ca_run a [] = a"
| "ca_run a (CallLeaf dn now made # cs) = ca_run (snd (ca_Leaf a dn now made)) cs"
| "ca_run a (CallSize n # cs) = ca_run (SetCacheSize a n) cs"

lemma ca_run_ok: "ca_ok a \<Longrightarrow> ca_ok (ca_run a cs) \<and> ca_cert (ca_run a cs) = ca_cert a"
proof (induction a cs rule: ca_run.induct)
  case (2 a dn now made cs)
  from Leaf_ok [OF surjective_pairing 2(2)] have "ca_ok (snd (ca_Leaf a dn now made)) \<and> ca_cert (snd (ca_Leaf a dn now made)) = ca_cert a"
    by blast
  with 2(1) show ?case by simp
next
  case (3 a n cs)
  with SetCacheSize_ok show ?case by simp
qed simp

lemma NewCA_ok:
  assumes "NewCA hs now made = Inr a"
  shows "ca_ok a" "constrainedNames hs = Inr (cc_Permitted (ca_cert a))"
  using assms newCA_ok by (auto simp: NewCA_def ok_then_Inr constrain_def split: if_splits)




section \<open>The handshakes that are answered\<close>

lemma valid_host: "ValidQueryName n \<Longrightarrow> normaliseHost n = Normalize n \<and> CutPrefix n ''*.'' = None"
proof -
  assume "ValidQueryName n"
  then have b: "list_all (\<lambda>c. nameByte c \<or> c = CHR ''.'') n" by (rule valid_bytes)
  have n: "\<not> nameByte CHR '':''" "\<not> nameByte CHR ''[''" "\<not> nameByte CHR ''*''" by code_simp+
  have "CHR '':'' \<notin> set n" "CHR ''['' \<notin> set n" "CHR ''*'' \<notin> set n" using b n by (auto simp: list_all_iff)
  then show ?thesis by (auto simp: normaliseHost_def CutLast_def prefix_def CutPrefix_def)
qed

lemma served_name_normal: "ValidQueryName (normaliseHost s) \<Longrightarrow> Normalize (normaliseHost s) = normaliseHost s"
proof -
  assume v: "ValidQueryName (normaliseHost s)"
  have "\<not> nameByte CHR ''[''" by code_simp
  then have "\<not> prefix ''['' (normaliseHost s)" using valid_bytes [OF v] by (auto simp: prefix_def)
  then have "\<not> prefix ''['' s" by (auto simp: normaliseHost_def)
  then show ?thesis by (simp add: normaliseHost_def)
qed

lemma constrainedNames_in:
  assumes "constrainedNames hs = Inr ns" "h \<in> set hs"
  shows "\<exists>n. constrained_name h = Some n \<and> n \<in> set ns"
proof -
  from assms(1) have none: "find (\<lambda>h. constrained_name h = None) hs = None"
    and ns: "ns = remdups_adj (sort (map (\<lambda>h. the (constrained_name h)) hs))"
    by (auto simp: constrainedNames_def split: option.splits)
  from none assms(2) obtain n where "constrained_name h = Some n" by (auto simp: find_None_iff)
  moreover have "the (constrained_name h) \<in> set ns" unfolding ns using assms(2) by simp
  ultimately show ?thesis by auto
qed

lemma constrained_nameD: "constrained_name h = Some n \<Longrightarrow> n = (case CutPrefix (Normalize h) ''*.'' of Some s \<Rightarrow> s | None \<Rightarrow> Normalize h)"
  by (auto simp: constrained_name_def Let_def split: if_splits)

lemma made_constrained:
  assumes "route_made G rs star (k, rt)" "constrained_name (ht_host rt) = Some k'"
  shows "k' = k"
proof (cases star)
  case False
  with assms(1) have p: "ParsePattern (in_Host (ht_Route rt)) = Inr (ExactName k)" "ht_host rt = k"
    by (simp_all add: route_made_def Let_def)
  have "Normalize k = k" "CutPrefix k ''*.'' = None" using parsed_name_valid(2) [OF p(1)] pattern_no_star [OF p(1)] by simp_all
  with constrained_nameD [OF assms(2)] p(2) show ?thesis by simp
next
  case True
  with assms(1) have p: "ParsePattern (in_Host (ht_Route rt)) = Inr (WildName k)" "ht_host rt = ''*.'' @ k"
    by (simp_all add: route_made_def Let_def)
  have k: "Normalize k = k" "ValidQueryName k" using parsed_name_valid [OF p(1)] by simp_all
  have "TrimRight (''*.'' @ k) ''.'' = ''*.'' @ k"
    using ValidQueryName_last_dot [OF k(2)] by (intro TrimRight_id) simp
  moreover have "map ascii_lower k = k" using Normalize_valid [OF k(2)] k(1) by simp
  ultimately have "Normalize (''*.'' @ k) = ''*.'' @ k" by (simp add: Normalize_def)
  with constrained_nameD [OF assms(2)] p(2) show ?thesis by (simp add: CutPrefix_def)
qed

text \<open>A name a route serves is the route's own, or below it.\<close>

lemma lookup_entry:
  assumes "lookup_route i n = Some rt"
  obtains k where "(k, rt) \<in> set (ip_routes i) \<or> (k, rt) \<in> set (ip_wild i)" "n = k \<or> (\<exists>x. n = x @ CHR ''.'' # k)"
proof (cases "map_of (ip_routes i) n")
  case (Some r)
  with assms that [of n] show thesis by (auto simp: lookup_route_def dest: map_of_SomeD split: if_splits)
next
  case None
  with assms have "wild_route (ip_wild i) n = Some rt" by (simp add: lookup_route_def split: if_splits)
  from wild_route_Some [OF this] obtain x k where k: "n = x @ CHR ''.'' # k" "map_of (ip_wild i) k = Some rt" by blast
  then show thesis using that [of k] map_of_SomeD [OF k(2)] by blast
qed

text \<open>A name that is a host of a CA's, or below one.\<close>

definition in_ca :: "string list \<Rightarrow> string \<Rightarrow> bool" where
  "in_ca hs n \<longleftrightarrow>
     list_ex (\<lambda>h. case constrained_name h of None \<Rightarrow> False | Some c \<Rightarrow> n = c \<or> suffix (CHR ''.'' # c) n) hs"

lemma Permits_in:
  assumes "constrainedNames hs = Inr (cc_Permitted (ca_cert a))" "ValidQueryName (normaliseHost s)"
  shows "Permits a (normaliseHost s) \<longleftrightarrow> in_ca hs (normaliseHost s)"
proof -
  let ?n = "normaliseHost s"
  have nn: "normaliseHost ?n = ?n" "CutPrefix ?n ''*.'' = None"
    using valid_host [OF assms(2)] served_name_normal [OF assms(2)] by auto
  have ns: "set (cc_Permitted (ca_cert a)) = (\<lambda>h. the (constrained_name h)) ` set hs"
  proof -
    from assms(1) have "cc_Permitted (ca_cert a) = remdups_adj (sort (map (\<lambda>h. the (constrained_name h)) hs))"
      by (simp add: constrainedNames_def split: option.splits)
    then show ?thesis by simp
  qed
  let ?fits = "\<lambda>c. ?n = c \<or> suffix (CHR ''.'' # c) ?n"
  have "Permits a ?n \<longleftrightarrow> (\<exists>c \<in> set (cc_Permitted (ca_cert a)). ?fits c)"
    unfolding Permits_def Let_def nn by (simp add: list_ex_iff)
  also have "\<dots> \<longleftrightarrow> (\<exists>h \<in> set hs. ?fits (the (constrained_name h)))" unfolding ns by blast
  also have "\<dots> \<longleftrightarrow> in_ca hs ?n"
    unfolding in_ca_def list_ex_iff
  proof (rule bex_cong [OF refl])
    fix h assume "h \<in> set hs"
    with constrainedNames_in [OF assms(1)] obtain c where "constrained_name h = Some c" by blast
    then show "?fits (the (constrained_name h)) \<longleftrightarrow> (case constrained_name h of None \<Rightarrow> False | Some c \<Rightarrow> ?fits c)" by simp
  qed
  finally show ?thesis .
qed

text \<open>A CA for an interceptor's hosts, and others, is for every name a route of it serves.\<close>

lemma served_in_ca:
  assumes "New_interceptor G rs = Inr i" "constrainedNames hs = Inr ns" "set (Hosts i) \<subseteq> set hs" "lookup_route i n = Some rt"
  shows "in_ca hs n"
proof -
  have m: "routes_made G rs i" using New_made [OF assms(1)] by blast
  obtain k where k: "(k, rt) \<in> set (ip_routes i) \<or> (k, rt) \<in> set (ip_wild i)" "n = k \<or> (\<exists>x. n = x @ CHR ''.'' # k)"
    using lookup_entry [OF assms(4)] .
  obtain star where made: "route_made G rs star (k, rt)"
    using m k(1) by (auto simp: routes_made_def list_all_iff)
  have "rt \<in> set (all_routes i)" using k(1) by (force simp: all_routes_def)
  then have h: "ht_host rt \<in> set hs" using assms(3) by (auto simp: Hosts_def)
  from constrainedNames_in [OF assms(2) h] made_constrained [OF made] have "constrained_name (ht_host rt) = Some k" by blast
  with h k(2) show ?thesis by (force simp: in_ca_def list_ex_iff suffix_def)
qed

text \<open>
  C6: A handshake is given a certificate only for a name a route serves and the CA's hosts hold, and for that name
  alone, whatever the CA was asked before. It is refused for no other reason than what it says: it names nothing;
  or no route serves the name; or one does, and the session's CA, made for other hosts, does not hold it. A CA made
  for every host of the routes refuses no name a route serves. It fails only where no certificate could be made.
\<close>

theorem handshake_served:
  assumes "New_interceptor G rs = Inr i" "NewCA hs t made0 = Inr a0" "n = normaliseHost serverName"
  shows "case fst (getCertificate i (ca_run a0 cs) serverName now made) of
      Presents cert \<Rightarrow> lookup_route i n \<noteq> None \<and> in_ca hs n \<and> lc_DNSNames cert = [n]
    | HandshakeRefused said reason \<Rightarrow> said = n \<and>
        (reason = ReasonNoSNI \<and> n = [] \<or>
         reason = ReasonUnknownName \<and> n \<noteq> [] \<and> lookup_route i n = None \<or>
         reason = ReasonNotInCA \<and> lookup_route i n \<noteq> None \<and> \<not> in_ca hs n \<and> \<not> set (Hosts i) \<subseteq> set hs)
    | HandshakeFailed \<Rightarrow> made = None \<and> lookup_route i n \<noteq> None \<and> in_ca hs n"
proof -
  let ?a = "ca_run a0 cs"
  have r: "ca_ok ?a" "ca_cert ?a = ca_cert a0" using ca_run_ok NewCA_ok(1) [OF assms(2)] by blast+
  have c: "constrainedNames hs = Inr (cc_Permitted (ca_cert ?a))" using NewCA_ok(2) [OF assms(2)] r(2) by simp
  have no: "lookup_route i [] = None" by (simp add: lookup_route_def ValidQueryName_def)
  show ?thesis
  proof (cases "lookup_route i n")
    case None
    then show ?thesis by (simp add: getCertificate_def Let_def assms(3))
  next
    case (Some rt)
    then have v: "ValidQueryName (normaliseHost serverName)" by (auto simp: assms(3) lookup_route_def split: if_splits)
    note p = Permits_in [OF c v, folded assms(3)]
    obtain r' a' where l: "ca_Leaf ?a n now made = (r', a')" by fastforce
    note leaf = Leaf_ok [OF l r(1)]
    have sub: "in_ca hs n" if "set (Hosts i) \<subseteq> set hs" using served_in_ca [OF assms(1) c that Some] .
    from no Some have "n \<noteq> []" by auto
    with leaf Some p l sub show ?thesis
      by (cases "in_ca hs n"; cases r') (auto simp: getCertificate_def Let_def cert_fits_def assms(3) [symmetric])
  qed
qed

lemma handshake_served_witness:
  "\<exists>i a0 b0. New_interceptor plain_given plain_routes = Inr i \<and> NewCA (Hosts i) 0 True = Inr a0 \<and>
     (case fst (getCertificate i (ca_run a0 []) ''x.example.com'' 0 (Some (1, 1))) of
        Presents cert \<Rightarrow> lc_DNSNames cert = [''x.example.com''] | _ \<Rightarrow> False) \<and>
     NewCA [''api.example.com''] 0 True = Inr b0 \<and>
     fst (getCertificate i (ca_run b0 []) ''x.example.com'' 0 (Some (1, 1))) = HandshakeRefused ''x.example.com'' ReasonNotInCA"
proof -
  obtain i where i: "New_interceptor plain_given plain_routes = Inr i" "lookup_route i ''x.example.com'' \<noteq> None"
    "Hosts i = [''api.example.com'', ''*.example.com'']" by (rule plain_interceptor) auto
  have "case NewCA [''api.example.com'', ''*.example.com''] 0 True of Inr a \<Rightarrow> True | Inl e \<Rightarrow> False" by code_simp
  then obtain a0 where a: "NewCA (Hosts i) 0 True = Inr a0" unfolding i(3) by (auto split: sum.splits)
  have "case NewCA [''api.example.com''] 0 True of Inr a \<Rightarrow> True | Inl e \<Rightarrow> False" by code_simp
  then obtain b0 where b: "NewCA [''api.example.com''] 0 True = Inr b0" by (auto split: sum.splits)
  have n: "''x.example.com'' = normaliseHost ''x.example.com''" by code_simp
  have out: "\<not> in_ca [''api.example.com''] ''x.example.com''" by code_simp
  from handshake_served [OF i(1) a n, where cs = "[]" and now = 0 and made = "Some (1, 1)"] i(2)
  have "case fst (getCertificate i (ca_run a0 []) ''x.example.com'' 0 (Some (1, 1))) of
      Presents cert \<Rightarrow> lc_DNSNames cert = [''x.example.com''] | _ \<Rightarrow> False"
    by (auto split: handshake.splits)
  moreover from handshake_served [OF i(1) b n, where cs = "[]" and now = 0 and made = "Some (1, 1)"] i(2) out
  have "fst (getCertificate i (ca_run b0 []) ''x.example.com'' 0 (Some (1, 1))) = HandshakeRefused ''x.example.com'' ReasonNotInCA"
    by (auto split: handshake.splits)
  ultimately show ?thesis using i(1) a b by blast
qed

end
