(* ===== verification/Http_Ask.thy ===== *)
theory Http_Ask
  imports Http_Hosts Http_Preview Record_Recorder
begin

text \<open>
  A request put to a person, \<open>internal/intercept/record.go\<close>, \<open>always.go\<close> and the asking in \<open>intercept.go\<close>, with
  the part of \<open>internal/always/always.go\<close> a session keeps: the question, the rule an answer of always would write,
  what is made of the answer, and what a recording session decides in the scope's place.

  What the asker and the recorder answer, and what a project's file would become, are given.
\<close>

section \<open>Deciding from the body\<close>

text \<open>What deciding is given: for Docker, for a GraphQL body and what its errors say, for a session key's tokens,
  and SHA-256 in hexadecimal.\<close>

record 's services =
  sv_given :: "'s given"
  sv_json :: json_decoder
  sv_why :: "Scope_GraphQL.read_error \<Rightarrow> string"
  sv_jose :: jose
  sv_Sum :: "string \<Rightarrow> string"

text \<open>The request as the scope's rules are given it, and the request after they have read its body.\<close>

definition http_of :: "message \<Rightarrow> http_request" where
  "http_of m =
     \<lparr>hr_Method = m_Method m, hr_RawQuery = m_RawQuery m, hr_ContentEncoding = Values (m_Header m) ''Content-Encoding'',
      hr_ContentType = Values (m_Header m) ''Content-Type'', hr_NoBody = m_NoBody m, hr_Body = m_Body m,
      hr_fails = m_fails m, hr_ContentLength = m_ContentLength m, hr_TransferEncoding = m_TransferEncoding m\<rparr>"

definition after_read :: "message \<Rightarrow> http_request \<Rightarrow> message" where
  "after_read m r =
     m\<lparr>m_RawQuery := hr_RawQuery r, m_NoBody := hr_NoBody r, m_Body := hr_Body r, m_fails := hr_fails r,
       m_ContentLength := hr_ContentLength r, m_TransferEncoding := hr_TransferEncoding r\<rparr>"

definition decide_graphql :: "'s services \<Rightarrow> compiled_graphql \<Rightarrow> message \<Rightarrow> verdict \<times> message" where
  "decide_graphql S g m =
     (let (v, r) = graphql_decide (sv_json S) (gv_media (sv_given S)) (sv_why S) g (http_of m) in (v, after_read m r))"

section \<open>Rules that may be written\<close>

text \<open>\<open>url.URL\<close>'s \<open>RequestURI\<close> of an escaped path and a raw query, and \<open>url.ParseRequestURI\<close> of a target that is
  a path: \<open>None\<close> is the error.\<close>

definition RequestURI :: "string \<Rightarrow> string \<Rightarrow> string" where
  "RequestURI path query = (if path = [] then ''/'' else path) @ (if query = [] then [] else CHR ''?'' # query)"

definition ParseRequestURI :: "string \<Rightarrow> (string \<times> string) option" where
  "ParseRequestURI t =
     (if list_ex (\<lambda>c. byte c < 0x20 \<or> c = CHR 0x7F) t \<or> t = [] then None
      else if t = ''*'' then Some (t, [])
      else let (path, query) = Cut CHR ''?'' t in
        if \<not> prefix ''/'' path \<or> PathUnescape path = None then None
        else Some (path, case query of None \<Rightarrow> [] | Some q \<Rightarrow> q))"

text \<open>\<open>ar_Decides\<close> is the request decided again by another scope; an error of compiling it is none.\<close>

record always_rule =
  ar_Route :: string
  ar_SSH :: bool
  ar_Key :: string
  ar_Command :: string
  ar_Decides :: "scope \<Rightarrow> outcome option"

definition decide_again :: "'s services \<Rightarrow> message \<Rightarrow> string \<Rightarrow> string \<Rightarrow> scope \<Rightarrow> outcome option" where
  "decide_again S m meth target s =
     (let U = casing (gv_lib (sv_given S)) in
      case compileScope U s of
        Inl _ \<Rightarrow> None
      | Inr c \<Rightarrow>
          (case ParseRequestURI target of
             None \<Rightarrow> None
           | Some (path, query) \<Rightarrow>
               let v = decided U c meth path query in
               Some (case v_deferred v of
                   NotDeferred \<Rightarrow> v_outcome v
                 | DeferGraphQL g \<Rightarrow> v_outcome (fst (decide_graphql S g m))
                 | DeferDocker d \<Rightarrow> v_outcome (da_verdict (rule_refuse d reasonUndecided)))))"

definition alwaysRule :: "'s services \<Rightarrow> http_route \<Rightarrow> message \<Rightarrow> string \<Rightarrow> string \<Rightarrow> verdict \<Rightarrow> always_rule option" where
  "alwaysRule S rt m path query v =
     (let rule = (\<lambda>key. Some \<lparr>ar_Route = in_Name (ht_Route rt), ar_SSH = False, ar_Key = key, ar_Command = [],
            ar_Decides = decide_again S m (m_Method m) (RequestURI path query)\<rparr>);
          exactly = (if CHR ''*'' \<in> set path then None else rule (m_Method m @ '' '' @ path))
      in if ht_docker rt \<noteq> None \<or> length (v_operations v) > 1 then None
         else (case v_operation v of
             Some oper \<Rightarrow>
               if (v_reason v = ''graphql'' \<or> v_reason v = ''git'') \<and> op_ID oper \<noteq> [] then rule (op_ID oper) else exactly
           | None \<Rightarrow> exactly))"

record diff =
  df_Path :: string
  df_Old :: string
  df_New :: string

text \<open>\<open>Session\<close>: the rules answered always, the routes and machines that offer it, and what the workspace's file
  would become with a rule in it, where it would stand.\<close>

record always_session =
  as_answered :: "string list"
  as_routes :: "string list"
  as_machines :: "string list"
  as_prepare :: "always_rule \<Rightarrow> diff option"

definition ruleID :: "always_rule \<Rightarrow> string" where
  "ruleID r = (if ar_SSH r then ''ssh'' else ''http'') @ [CHR 0x00] @ ar_Route r @ [CHR 0x00] @ ar_Key r"

definition Always_Admits :: "always_session \<Rightarrow> always_rule \<Rightarrow> bool" where
  "Always_Admits s r \<longleftrightarrow> ruleID r \<in> set (as_answered s)"

definition save_rule :: "always_rule \<Rightarrow> always_session \<Rightarrow> always_session" where
  "save_rule r s = s\<lparr>as_answered := ruleID r # as_answered s\<rparr>"

section \<open>Questions\<close>

record question =
  qn_Session :: string
  qn_Workspace :: string
  qn_Policy :: string
  qn_Route :: string
  qn_Method :: string
  qn_Host :: string
  qn_Path :: string
  qn_Query :: string
  qn_Body :: string
  qn_BodyMore :: bool
  qn_BodyLength :: int
  qn_Operation :: "operation option"
  qn_Operations :: "operation list"
  qn_Record :: bool
  qn_ID :: string
  qn_Diff :: "diff option"
  qn_Always :: bool

text \<open>\<open>Offer\<close>: the question as it is then asked, and whether an answer of always is saved.\<close>

definition Offer :: "always_session \<Rightarrow> question \<Rightarrow> always_rule \<Rightarrow> question \<times> bool" where
  "Offer s q r =
     (if ar_Key r = [] \<or> qn_Record q then (q, False)
      else if ar_Route r \<notin> set (if ar_SSH r then as_machines s else as_routes s) then (q, False)
      else case as_prepare s r of
        None \<Rightarrow> (q, False)
      | Some d \<Rightarrow> (q\<lparr>qn_Diff := Some d, qn_Always := True\<rparr>, True))"

text \<open>\<open>interceptedConn\<close>, with the policy its interceptor serves.\<close>

record conn =
  cn_session :: string
  cn_workspace :: string
  cn_policy :: string
  cn_sni :: string
  cn_route :: http_route
  cn_always :: "always_session option"

definition operationIDs :: "verdict \<Rightarrow> string" where
  "operationIDs v =
     (if v_operations v \<noteq> [] then Join CHR '','' (map op_ID (v_operations v))
      else case v_operation v of None \<Rightarrow> [] | Some oper \<Rightarrow> op_ID oper)"

definition httpKey :: "string \<Rightarrow> string \<Rightarrow> string \<Rightarrow> verdict \<Rightarrow> string" where
  "httpKey rt meth path v =
     (let ids = operationIDs v;
          what = ''path '' @ path @ (if ids \<noteq> [] \<and> v_reason v = ''graphql'' then '' operation '' @ ids else [])
      in rt @ [CHR 0x00] @ meth @ [CHR 0x00] @ what @ [CHR 0x00] @ v_graphql v)"

definition ID :: "(string \<Rightarrow> string) \<Rightarrow> string \<Rightarrow> string \<Rightarrow> string \<Rightarrow> string" where
  "ID sha session k key = take 32 (sha (session @ [CHR 0x00] @ k @ [CHR 0x00] @ key))"

definition request_key :: "conn \<Rightarrow> message \<Rightarrow> verdict \<Rightarrow> string" where
  "request_key ic m v = httpKey (in_Name (ht_Route (cn_route ic))) (m_Method m) (m_Path m) v"

definition question_of :: "'s services \<Rightarrow> conn \<Rightarrow> message \<Rightarrow> verdict \<Rightarrow> bool \<Rightarrow> question" where
  "question_of S ic m v recorded =
     \<lparr>qn_Session = cn_session ic, qn_Workspace = cn_workspace ic, qn_Policy = cn_policy ic,
      qn_Route = in_Name (ht_Route (cn_route ic)), qn_Method = m_Method m, qn_Host = cn_sni ic, qn_Path = m_Path m,
      qn_Query = m_RawQuery m, qn_Body = [], qn_BodyMore = False, qn_BodyLength = 0, qn_Operation = v_operation v,
      qn_Operations = v_operations v, qn_Record = recorded,
      qn_ID = ID (sv_Sum S) (cn_session ic) KindHTTP (request_key ic m v), qn_Diff = None, qn_Always = False\<rparr>"

section \<open>Asking\<close>

abbreviation ReasonNobodyToAsk :: string where "ReasonNobodyToAsk \<equiv> ''nobody to ask''"
abbreviation ReasonDeclined :: string where "ReasonDeclined \<equiv> ''declined''"
abbreviation ReasonAskFailed :: string where "ReasonAskFailed \<equiv> ''asking failed''"
abbreviation ReasonBusy :: string where "ReasonBusy \<equiv> ''a question from this session is already waiting''"
abbreviation ReasonRecordRefused :: string where "ReasonRecordRefused \<equiv> ''refused while recording''"

text \<open>What comes of asking: an answer, which may be any text; that another question waits; the asker's failure; or
  that nobody waits for it any more.\<close>

datatype asking_end = AnsweredBy string | AskerBusy | AskerFails | SideGone

definition AskAbout :: "(question \<Rightarrow> asking_end) option \<Rightarrow> question \<Rightarrow> string \<times> string" where
  "AskAbout a q =
     (case a of
        None \<Rightarrow> (answer_Refuse, ReasonNobodyToAsk)
      | Some ask \<Rightarrow>
          (case ask q of
             SideGone \<Rightarrow> (answer_Refuse, Scope_Model.ReasonStoppedWaiting)
           | AskerBusy \<Rightarrow> (answer_Refuse, ReasonBusy)
           | AskerFails \<Rightarrow> (answer_Refuse, ReasonAskFailed)
           | AnsweredBy x \<Rightarrow> if Admits x then (x, []) else (answer_Refuse, ReasonDeclined)))"

text \<open>The body as it arrives, and what ends each wait of the preview (\<open>Http_Preview\<close>).\<close>

record arrival =
  av_wakes :: "wake list"
  av_chunks :: "chunk list"

text \<open>The question with the start of the body; why it is not asked; or neither, where the body has still to arrive.\<close>

datatype previewed = StillArriving | NotAsked string | Asks question

definition with_body :: "arrival \<Rightarrow> message \<Rightarrow> question \<Rightarrow> previewed" where
  "with_body av m q =
     (if m_NoBody m then Asks q
      else case Preview (av_wakes av) False [] (av_chunks av) of
        Waits \<Rightarrow> StillArriving
      | PreviewFailed _ \<Rightarrow> NotAsked Scope_Model.ReasonStoppedWaiting
      | PreviewLeft \<Rightarrow> NotAsked Scope_Model.ReasonStoppedWaiting
      | Shown head longer _ \<Rightarrow> Asks (q\<lparr>qn_Body := head, qn_BodyMore := longer, qn_BodyLength := max (m_ContentLength m) 0\<rparr>))"

text \<open>The answer and why it is refused, or neither while it waits; and the session's always after.\<close>

definition askPerson ::
    "'s services \<Rightarrow> (question \<Rightarrow> asking_end) option \<Rightarrow> arrival \<Rightarrow> conn \<Rightarrow> message \<Rightarrow> verdict \<Rightarrow> bool \<Rightarrow> always_rule option \<Rightarrow>
     (string \<times> string) option \<times> always_session option" where
  "askPerson S asker av ic m v recorded rule =
     (case with_body av m (question_of S ic m v recorded) of
        StillArriving \<Rightarrow> (None, cn_always ic)
      | NotAsked why \<Rightarrow> (Some (answer_Refuse, why), cn_always ic)
      | Asks q \<Rightarrow>
          (case (if recorded then None else rule, cn_always ic) of
             (Some r, Some s) \<Rightarrow>
               let (q, offered) = (if ar_Key r = [] then (q, False) else Offer s q r); (answer, why) = AskAbout asker q in
               (Some (answer, why), Some (if answer = answer_Always \<and> why = [] \<and> offered then save_rule r s else s))
           | _ \<Rightarrow> (Some (AskAbout asker q), cn_always ic)))"

section \<open>Recording\<close>

definition recordable :: "http_route \<Rightarrow> verdict \<Rightarrow> bool" where
  "recordable rt v \<longleftrightarrow>
     \<not> (ht_docker rt \<noteq> None \<or> v_structural v) \<and>
     (v_outcome v = Ask \<or>
      v_outcome v = Refuse \<and> v_reason v \<in> {ReasonOutOfScope, ReasonRefused, ReasonPush, ReasonUnclassified})"

definition hard :: "string \<Rightarrow> bool" where
  "hard reason \<longleftrightarrow> reason \<notin> {Scope_Model.ReasonStoppedWaiting, ReasonLookup, ReasonAbsent}"

definition RecordAnswer :: "string \<times> string \<Rightarrow> string \<times> string" where
  "RecordAnswer r = (if snd r = ReasonDeclined then (answer_Refuse, []) else r)"

definition httpLine :: "conn \<Rightarrow> message \<Rightarrow> verdict \<Rightarrow> line" where
  "httpLine ic m v =
     empty_line\<lparr>ln_Session := cn_session ic, ln_Kind := KindHTTP, ln_Route := in_Name (ht_Route (cn_route ic)),
       ln_Method := m_Method m, ln_Host := cn_sni ic, ln_Path := m_Path m, ln_Operation := operationIDs v,
       ln_GraphQL := v_graphql v, ln_Would := (if v_outcome v = Ask then answer_Ask else answer_Refuse),
       ln_Rule := v_reason v\<rparr>"

text \<open>\<open>Decide\<close> and, of what is asked about each time, \<open>DecideEach\<close>: the answer and reason, from what asking
  would give, or none while it waits (\<open>Record_Recorder\<close>).\<close>

type_synonym decider = "bool \<Rightarrow> line \<Rightarrow> string \<Rightarrow> (string \<times> string) option \<Rightarrow> (string \<times> string) option"

definition record_request ::
    "'s services \<Rightarrow> decider \<Rightarrow> (question \<Rightarrow> asking_end) option \<Rightarrow> arrival \<Rightarrow> conn \<Rightarrow> message \<Rightarrow> verdict \<Rightarrow> string option" where
  "record_request S decider asker av ic m v =
     map_option (\<lambda>(answer, why). if Admits answer then [] else if why \<noteq> [] then why else ReasonRecordRefused)
       (decider (v_unseen v) (httpLine ic m v) (request_key ic m v)
          (map_option RecordAnswer (fst (askPerson S asker av ic m v True None))))"

end
