(* ===== verification/Http_Credential.thy ===== *)
theory Http_Credential
  imports Http_Route
begin

text \<open>
  A route's credential, \<open>internal/credential\<close>: read from a file of the host's, as it is or out of JSON, with its
  expiry where the file has one, and loaded again when the file changes.

  \<open>encoding/json\<close>'s reading of a document and of a JWT's claims, and what the file holds at each reading, are
  given. Times are in nanoseconds of Unix time. An error is its constructor.
\<close>

section \<open>Secrets\<close>

text \<open>Go's zero time, which is the first of January of year 1.\<close>

definition zero_time :: int where "zero_time = -62135596800 * seconds"

record secret =
  se_Value :: string
  se_Expires :: int

definition Expired :: "secret \<Rightarrow> int \<Rightarrow> bool" where
  "Expired s now \<longleftrightarrow> se_Expires s \<noteq> zero_time \<and> \<not> now < se_Expires s"

datatype credential_error =
  EmptyValue | ValueControl | DocNotJSON | NoString string | NoNumber string | NotMillis string | NotJWT | NotBase64URL
| PayloadNotJSON | NoExp | FileUnread | FileTooLarge

definition validValue :: "string \<Rightarrow> credential_error option" where
  "validValue v =
     (if v = [] then Some EmptyValue
      else if list_ex (\<lambda>c. byte c \<le> 0x20 \<or> c = CHR 0x7F) v then Some ValueControl
      else None)"

definition valid_secret :: "credential_error option \<Rightarrow> secret \<Rightarrow> credential_error + secret" where
  "valid_secret e s = (case e of Some e \<Rightarrow> Inl e | None \<Rightarrow> Inr s)"

definition Trimmed :: "string \<Rightarrow> credential_error + secret" where
  "Trimmed raw =
     (let v = TrimSpace raw in valid_secret (validValue v) \<lparr>se_Value = v, se_Expires = zero_time\<rparr>)"

section \<open>Out of JSON\<close>

text \<open>\<open>lookup\<close>: nil, here JSON's null, where there is nothing.\<close>

fun lookup_keys :: "json \<Rightarrow> string list \<Rightarrow> json" where
  "lookup_keys d [] = d"
| "lookup_keys (JObj m) (key # keys) = lookup_keys (case map_of m key of None \<Rightarrow> json.JNull | Some v \<Rightarrow> v) keys"
| "lookup_keys _ (key # keys) = json.JNull"

definition lookup_path :: "json \<Rightarrow> string \<Rightarrow> json" where
  "lookup_path d p = (if p = [] then json.JNull else lookup_keys d (Split CHR ''.'' p))"

text \<open>\<open>json.Number.Int64\<close>, which is \<open>strconv.ParseInt\<close> in base 10.\<close>

definition Int64 :: "string \<Rightarrow> int option" where
  "Int64 s =
     (let (neg, n) = (case s of c # cs \<Rightarrow> if c = CHR ''-'' then (True, cs) else if c = CHR ''+'' then (False, cs) else (False, s)
                      | [] \<Rightarrow> (False, s));
          v = (if neg then - decimal n else decimal n)
      in if n = [] \<or> \<not> list_all digit n \<or> v < - (2 ^ 63) \<or> v > 2 ^ 63 - 1 then None else Some v)"

text \<open>\<open>base64.RawURLEncoding\<close>: no padding, and carriage returns and newlines passed over.\<close>

definition url_digit :: "char \<Rightarrow> int option" where
  "url_digit c =
     (if c = CHR ''-'' then Some 62 else if c = CHR ''_'' then Some 63
      else if c = CHR ''+'' \<or> c = CHR ''/'' then None else base64_digit c)"

fun raw_url_quanta :: "int list \<Rightarrow> string option" where
  "raw_url_quanta [] = Some []"
| "raw_url_quanta [x] = None"
| "raw_url_quanta [x, y] = Some [char_of (x * 4 + y div 16)]"
| "raw_url_quanta [x, y, z] = Some [char_of (x * 4 + y div 16), char_of ((y mod 16) * 16 + z div 4)]"
| "raw_url_quanta (x # y # z # w # s) =
     map_option (\<lambda>t. char_of (x * 4 + y div 16) # char_of ((y mod 16) * 16 + z div 4) # char_of ((z mod 4) * 64 + w) # t)
       (raw_url_quanta s)"

definition raw_url_decode :: "string \<Rightarrow> string option" where
  "raw_url_decode s =
     (let ds = map url_digit (filter (\<lambda>c. c \<noteq> CHR 0x0A \<and> c \<noteq> CHR 0x0D) s) in
      if None \<in> set ds then None else raw_url_quanta (map the ds))"

text \<open>What \<open>encoding/json\<close> reads: a document, and the text of a payload's \<open>exp\<close>, empty where it has none.\<close>

record json_reader =
  jr_Doc :: "string \<Rightarrow> json option"
  jr_Exp :: "string \<Rightarrow> string option"

definition jwtExpiry :: "json_reader \<Rightarrow> string \<Rightarrow> credential_error + int" where
  "jwtExpiry D jwt =
     (let parts = Split CHR ''.'' jwt in
      if length parts \<noteq> 3 then Inl NotJWT
      else case raw_url_decode (parts ! 1) of
        None \<Rightarrow> Inl NotBase64URL
      | Some payload \<Rightarrow>
          (case jr_Exp D payload of
             None \<Rightarrow> Inl PayloadNotJSON
           | Some e \<Rightarrow> (case Int64 e of None \<Rightarrow> Inl NoExp | Some secs \<Rightarrow> Inr (unix_time secs))))"

record credential_json =
  cj_Token :: string
  cj_ExpiresMillis :: string
  cj_ExpiresJWT :: string

definition string_at :: "json \<Rightarrow> string \<Rightarrow> credential_error + string" where
  "string_at d p = (case lookup_path d p of JStr s \<Rightarrow> Inr s | _ \<Rightarrow> Inl (NoString p))"

definition expires_millis :: "json \<Rightarrow> string \<Rightarrow> secret \<Rightarrow> credential_error + secret" where
  "expires_millis d p s =
     (if p = [] then Inr s
      else case lookup_path d p of
        JNum n \<Rightarrow> (case Int64 n of None \<Rightarrow> Inl (NotMillis p) | Some ms \<Rightarrow> Inr (s\<lparr>se_Expires := ms * 1000000\<rparr>))
      | _ \<Rightarrow> Inl (NoNumber p))"

definition expires_jwt :: "json_reader \<Rightarrow> json \<Rightarrow> string \<Rightarrow> secret \<Rightarrow> credential_error + secret" where
  "expires_jwt D d p s =
     (if p = [] then Inr s
      else ok_then (string_at d p) (\<lambda>jwt. ok_then (jwtExpiry D jwt) (\<lambda>exp. Inr (s\<lparr>se_Expires := exp\<rparr>))))"

definition Extract :: "json_reader \<Rightarrow> credential_json \<Rightarrow> string \<Rightarrow> credential_error + secret" where
  "Extract D j raw =
     (case jr_Doc D raw of
        None \<Rightarrow> Inl DocNotJSON
      | Some d \<Rightarrow>
          ok_then (string_at d (cj_Token j)) (\<lambda>tok.
          ok_then (valid_secret (validValue tok) \<lparr>se_Value = tok, se_Expires = zero_time\<rparr>) (\<lambda>s.
          ok_then (expires_millis d (cj_ExpiresMillis j) s) (expires_jwt D d (cj_ExpiresJWT j)))))"

section \<open>The file\<close>

definition maxFileSize :: int where "maxFileSize = 1048576"

text \<open>What is configured: a bare token, or JSON's.\<close>

datatype extractor = Bare | InJSON credential_json

definition extracted :: "json_reader \<Rightarrow> extractor \<Rightarrow> string \<Rightarrow> credential_error + secret" where
  "extracted D x raw = (case x of Bare \<Rightarrow> Trimmed raw | InJSON j \<Rightarrow> Extract D j raw)"

text \<open>The bytes of the file, none where it cannot be read.\<close>

definition readBounded :: "string option \<Rightarrow> credential_error + string" where
  "readBounded file =
     (case file of
        None \<Rightarrow> Inl FileUnread
      | Some raw \<Rightarrow> if int (length raw) > maxFileSize then Inl FileTooLarge else Inr raw)"

record credential_file =
  fl_extract :: extractor
  fl_state :: "(credential_error + secret) option"
  fl_log :: "(credential_error + int) list"

text \<open>What a line of the log says of an outcome: why there is none, or when it expires.\<close>

definition logged_outcome :: "credential_error + secret \<Rightarrow> credential_error + int" where
  "logged_outcome r = map_sum id se_Expires r"

definition load :: "json_reader \<Rightarrow> string option \<Rightarrow> credential_file \<Rightarrow> credential_file" where
  "load D file f =
     (let next = ok_then (readBounded file) (extracted D (fl_extract f)) in
      f\<lparr>fl_log := (if fl_state f = Some next then fl_log f else fl_log f @ [logged_outcome next]), fl_state := Some next\<rparr>)"

text \<open>\<open>changed\<close> is what the file holds now, where \<open>Check\<close> loads it again.\<close>

definition Get :: "json_reader \<Rightarrow> string option option \<Rightarrow> credential_file \<Rightarrow> (credential_error + secret) option \<times> credential_file" where
  "Get D changed f = (let f = (case changed of None \<Rightarrow> f | Some file \<Rightarrow> load D file f) in (fl_state f, f))"

section \<open>What a source gives\<close>

definition clean_value :: "string \<Rightarrow> bool" where
  "clean_value v \<longleftrightarrow> v \<noteq> [] \<and> list_all (\<lambda>c. byte c > 0x20 \<and> c \<noteq> CHR 0x7F) v"

lemma validValue_clean: "validValue v = None \<longleftrightarrow> clean_value v"
proof -
  have "list_all (\<lambda>c. byte c > 0x20 \<and> c \<noteq> CHR 0x7F) v \<longleftrightarrow> \<not> list_ex (\<lambda>c. byte c \<le> 0x20 \<or> c = CHR 0x7F) v"
    unfolding list_all_iff list_ex_iff not_le [symmetric] by blast
  then show ?thesis unfolding validValue_def clean_value_def by (cases "v = []"; cases "list_ex (\<lambda>c. byte c \<le> 0x20 \<or> c = CHR 0x7F) v") simp_all
qed

lemma valid_secret_Inr: "valid_secret e s = Inr s' \<longleftrightarrow> e = None \<and> s' = s"
  by (auto simp: valid_secret_def split: option.splits)

lemma valid_secret_clean: "valid_secret (validValue v) \<lparr>se_Value = v, se_Expires = e\<rparr> = Inr s \<Longrightarrow> clean_value (se_Value s)"
  by (auto simp: valid_secret_Inr validValue_clean)

lemma expires_value:
  "expires_millis d p s = Inr s' \<Longrightarrow> se_Value s' = se_Value s"
  "expires_jwt D d p s = Inr s' \<Longrightarrow> se_Value s' = se_Value s"
  by (auto simp: expires_millis_def split: if_splits json.splits option.splits)
    (auto simp: expires_jwt_def ok_then_def split: if_splits sum.splits)

lemma extracted_clean:
  assumes "extracted D x raw = Inr s"
  shows "clean_value (se_Value s)"
proof (cases x)
  case Bare
  with assms show ?thesis by (auto simp: extracted_def Trimmed_def Let_def dest: valid_secret_clean)
next
  case (InJSON j)
  with assms obtain d tok s1 s2 where "valid_secret (validValue tok) \<lparr>se_Value = tok, se_Expires = zero_time\<rparr> = Inr s1"
    "expires_millis d (cj_ExpiresMillis j) s1 = Inr s2" "expires_jwt D d (cj_ExpiresJWT j) s2 = Inr s"
    by (auto simp: extracted_def Extract_def ok_then_def split: option.splits sum.splits)
  then show ?thesis using valid_secret_clean expires_value by metis
qed

text \<open>A file as it was made, and loaded again and again with whatever it held then.\<close>

definition new_file :: "json_reader \<Rightarrow> extractor \<Rightarrow> string option \<Rightarrow> credential_file" where
  "new_file D x file = load D file \<lparr>fl_extract = x, fl_state = None, fl_log = []\<rparr>"

definition loads :: "json_reader \<Rightarrow> credential_file \<Rightarrow> string option list \<Rightarrow> credential_file" where
  "loads D f files = foldl (\<lambda>f file. load D file f) f files"

definition file_ok :: "json_reader \<Rightarrow> string option \<Rightarrow> credential_file \<Rightarrow> bool" where
  "file_ok D file f \<longleftrightarrow>
     (case fl_state f of
        None \<Rightarrow> False
      | Some r \<Rightarrow> r = ok_then (readBounded file) (extracted D (fl_extract f)) \<and> fl_log f \<noteq> [] \<and> last (fl_log f) = logged_outcome r)"

lemma load_ok:
  assumes "fl_state f = None \<or> file_ok D before f"
  shows "file_ok D file (load D file f)" "fl_extract (load D file f) = fl_extract f"
  using assms by (auto simp: load_def file_ok_def Let_def split: option.splits)

lemma loads_ok:
  "file_ok D before f \<Longrightarrow> file_ok D (last (before # files)) (loads D f files) \<and> fl_extract (loads D f files) = fl_extract f"
proof (induction files arbitrary: before f)
  case (Cons c cs)
  note l = load_ok [OF disjI2 [OF Cons.prems], of c]
  have "loads D f (c # cs) = loads D (load D c f) cs" by (simp add: loads_def)
  with Cons.IH [OF l(1)] l(2) show ?case by simp
qed (simp add: loads_def)

text \<open>
  What a file gives is what it last held, read as the route says to, and is a value with no space and no
  control character in it: nothing it puts in a header can begin another. The log has said so before it is given.
\<close>

theorem credential_given:
  assumes "Get D None (loads D (new_file D x first) files) = (Some r, f)"
  shows "r = ok_then (readBounded (last (first # files))) (extracted D x) \<and> fl_log f \<noteq> [] \<and> last (fl_log f) = logged_outcome r \<and>
    (case r of Inl e \<Rightarrow> True | Inr s \<Rightarrow> clean_value (se_Value s))"
proof -
  have n: "file_ok D first (new_file D x first)" "fl_extract (new_file D x first) = x"
    using load_ok [of "\<lparr>fl_extract = x, fl_state = None, fl_log = []\<rparr>" D first first] by (simp_all add: new_file_def)
  from loads_ok [OF n(1), of files] n(2) assms
  have r: "r = ok_then (readBounded (last (first # files))) (extracted D x)" "fl_log f \<noteq> []" "last (fl_log f) = logged_outcome r"
    by (auto simp: Get_def Let_def file_ok_def)
  then show ?thesis using extracted_clean by (auto simp: ok_then_def split: sum.splits)
qed

definition demo_reader :: json_reader where
  "demo_reader =
     \<lparr>jr_Doc = (\<lambda>s. if s = ''{}'' then None
        else Some (JObj [(''login'', JObj [(''token'', JStr s), (''at'', JNum ''1700000000000''), (''jwt'', JStr ''e30.MTIz.c2ln'')])])),
      jr_Exp = (\<lambda>s. if s = ''123'' then Some ''1700000000'' else None)\<rparr>"

definition demo_json :: credential_json where
  "demo_json = \<lparr>cj_Token = ''login.token'', cj_ExpiresMillis = ''login.at'', cj_ExpiresJWT = ''login.jwt''\<rparr>"

lemma credential_given_witness:
  "extracted demo_reader (InJSON demo_json) ''abc'' = Inr \<lparr>se_Value = ''abc'', se_Expires = 1700000000 * seconds\<rparr> \<and>
   clean_value ''abc'' \<and>
   length (fl_log (loads demo_reader (new_file demo_reader (InJSON demo_json) None) [Some ''a b'', Some ''abc'', Some ''abc''])) = 3"
proof -
  let ?f = "loads demo_reader (new_file demo_reader (InJSON demo_json) None) [Some ''a b'', Some ''abc'', Some ''abc'']"
  have f: "fl_state ?f = Some (Inr \<lparr>se_Value = ''abc'', se_Expires = 1700000000 * seconds\<rparr>) \<and> length (fl_log ?f) = 3"
    by code_simp
  then have "Get demo_reader None ?f = (Some (Inr \<lparr>se_Value = ''abc'', se_Expires = 1700000000 * seconds\<rparr>), ?f)"
    by (simp add: Get_def Let_def)
  from credential_given [OF this] f show ?thesis by (simp add: readBounded_def maxFileSize_def ok_then_def)
qed

end
