(* ===== verification/Http_Serve.thy ===== *)
theory Http_Serve
  imports Http_Ask Http_Credential
begin

text \<open>
  A request served, \<open>serveHTTP\<close> of \<open>internal/intercept/intercept.go\<close>: every check from the Host it names to the
  credential it is given, in the code's order, and what goes upstream: through \<open>httputil.ReverseProxy\<close> and
  \<open>rewrite\<close>, or by \<open>stream\<close> (\<open>stream.go\<close>) where Docker's protocol switches.

  One request is one function. The clock is read when it arrives and again when its credential is looked at. What
  the upstream answers is left out, and of the log what names, sizes and timings do not decide.
\<close>

section \<open>What is answered and what is sent\<close>

text \<open>What goes upstream: the scheme and host it is addressed to, and the request.\<close>

record outgoing =
  og_Scheme :: string
  og_Host :: string
  og_message :: message

text \<open>\<open>Pending\<close> is a request whose body, or whose person, is still waited for.\<close>

datatype http_reply =
  RefusedWith refusal_answer | DaemonSaid Docker_Owned.answer | Granted grant_answer | UpstreamFailed
| Forwarded outgoing | Switched string outgoing | Pending

record request_log =
  rq_refused :: bool
  rq_reason :: string
  rq_rule :: string
  rq_credential :: string
  rq_operation :: string
  rq_graphql :: string
  rq_api :: string
  rq_sentMethod :: string
  rq_hard :: "(string \<times> line) option"

abbreviation CredentialInjected :: string where "CredentialInjected \<equiv> ''injected''"
abbreviation CredentialPassed :: string where "CredentialPassed \<equiv> ''passed''"
abbreviation CredentialNone :: string where "CredentialNone \<equiv> ''none''"
abbreviation CredentialAnswered :: string where "CredentialAnswered \<equiv> ''answered''"

abbreviation ReasonMisdirected :: string where "ReasonMisdirected \<equiv> ''Host does not match SNI''"
abbreviation ReasonHTTP11Only :: string where "ReasonHTTP11Only \<equiv> ''HTTP/1.1 only''"
abbreviation ReasonNoCredential :: string where "ReasonNoCredential \<equiv> ''credential unavailable''"
abbreviation ReasonStaleCredential :: string where "ReasonStaleCredential \<equiv> ''credential expired''"
abbreviation RuleAsked :: string where "RuleAsked \<equiv> ''asked''"
abbreviation RuleRecorded :: string where "RuleRecorded \<equiv> ''recorded''"
abbreviation RuleAlways :: string where "RuleAlways \<equiv> ''always''"
abbreviation RuleGrant :: string where "RuleGrant \<equiv> ''session key grant''"

definition new_log :: request_log where
  "new_log =
     \<lparr>rq_refused = False, rq_reason = [], rq_rule = [], rq_credential = [], rq_operation = [], rq_graphql = [],
      rq_api = [], rq_sentMethod = [], rq_hard = None\<rparr>"

definition log_refuse :: "string \<Rightarrow> request_log \<Rightarrow> request_log" where
  "log_refuse reason lg = lg\<lparr>rq_refused := True, rq_reason := reason\<rparr>"

definition route_refuse :: "http_route \<Rightarrow> int \<Rightarrow> string \<Rightarrow> operation option \<Rightarrow> request_log \<Rightarrow> http_reply \<times> request_log" where
  "route_refuse rt status reason oper lg =
     (RefusedWith (refuse_on (ht_refusal rt) status reason oper), log_refuse reason lg)"

section \<open>Headers of a hop\<close>

definition hopHeaders :: "string list" where
  "hopHeaders =
     [''Connection'', ''Proxy-Connection'', ''Keep-Alive'', ''Proxy-Authenticate'', ''Proxy-Authorization'', ''Te'',
      ''Trailer'', ''Transfer-Encoding'', ''Upgrade'']"

text \<open>Those a hop's \<open>Connection\<close> names and its own, with how a name is trimmed.\<close>

definition hop_names :: "(string \<Rightarrow> string) \<Rightarrow> (string \<times> string list) list \<Rightarrow> string list" where
  "hop_names trim h =
     map CanonicalHeaderKey
       (filter (\<lambda>t. t \<noteq> []) (map trim (concat (map (Split CHR '','') (Values h ''Connection''))))) @ hopHeaders"

definition without_hops :: "(string \<Rightarrow> string) \<Rightarrow> (string \<times> string list) list \<Rightarrow> (string \<times> string list) list" where
  "without_hops trim h = foldl Del h (hop_names trim h)"

definition forwarding :: "string list" where
  "forwarding = [''Forwarded'', ''X-Forwarded-For'', ''X-Forwarded-Host'', ''X-Forwarded-Proto'']"

definition with_agent :: "(string \<times> string list) list \<Rightarrow> (string \<times> string list) list" where
  "with_agent h = (if map_of h ''User-Agent'' = None then Set_header h ''User-Agent'' [] else h)"

text \<open>\<open>record.dockerHeaders\<close>.\<close>

definition dockerHeaders :: "bool \<Rightarrow> (string \<times> string list) list \<Rightarrow> (string \<times> string list) list" where
  "dockerHeaders json h =
     (if json then Del (Set_header h ''Content-Type'' ''application/json'') ''Content-Encoding'' else h)"

section \<open>\<open>httputil.ReverseProxy\<close>\<close>

text \<open>\<open>httpguts.HeaderValuesContainsToken\<close> and \<open>textproto.TrimString\<close>.\<close>

definition has_token :: "string list \<Rightarrow> string \<Rightarrow> bool" where
  "has_token vs t = list_ex (\<lambda>v. list_ex (\<lambda>x. asciiEqualFold (trim_blank x) t) (Split CHR '','' v)) vs"

definition trim_ascii :: "string \<Rightarrow> string" where
  "trim_ascii s = (let cs = [CHR '' '', CHR 0x09, CHR 0x0A, CHR 0x0D] in TrimRight (TrimLeft s cs) cs)"

definition upgradeType :: "(string \<times> string list) list \<Rightarrow> string" where
  "upgradeType h = (if has_token (Values h ''Connection'') ''Upgrade'' then Get_header h ''Upgrade'' else [])"

definition printable :: "string \<Rightarrow> bool" where
  "printable s = list_all (\<lambda>c. between CHR '' '' c CHR ''~'') s"

definition proxied_headers :: "(string \<times> string list) list \<Rightarrow> (string \<times> string list) list" where
  "proxied_headers h =
     (let up = upgradeType h;
          out = without_hops trim_ascii h;
          out = (if has_token (Values h ''Te'') ''trailers'' then Set_header out ''Te'' ''trailers'' else out);
          out = (if up \<noteq> [] then Set_header (Set_header out ''Connection'' ''Upgrade'') ''Upgrade'' up else out)
      in foldl Del out forwarding)"

text \<open>\<open>cleanQueryParams\<close>: a query another parser could read apart is written again as it was read.\<close>

fun clean_query :: "string \<Rightarrow> bool" where
  "clean_query [] \<longleftrightarrow> True"
| "clean_query (c # cs) \<longleftrightarrow>
     (if c = CHR '';'' then False
      else if c = CHR 0x25 then (case cs of a # b # s \<Rightarrow> ishex a \<and> ishex b \<and> clean_query s | _ \<Rightarrow> False)
      else clean_query cs)"

definition cleanQueryParams :: "string \<Rightarrow> string" where
  "cleanQueryParams s = (if clean_query s then s else Encode (snd (ParseQuery s)))"

text \<open>\<open>SetURL\<close>: the request addressed to a target, under its path and with its query before its own.\<close>

definition singleJoiningSlash :: "string \<Rightarrow> string \<Rightarrow> string" where
  "singleJoiningSlash a b =
     (let aslash = suffix ''/'' a; bslash = prefix ''/'' b in
      if aslash \<and> bslash then a @ tl b else if \<not> aslash \<and> \<not> bslash then a @ ''/'' @ b else a @ b)"

definition joined_query :: "string \<Rightarrow> string \<Rightarrow> string" where
  "joined_query a b = (if a = [] \<or> b = [] then a @ b else a @ ''&'' @ b)"

definition addressed_to :: "string \<Rightarrow> string \<Rightarrow> string \<Rightarrow> string \<Rightarrow> message \<Rightarrow> outgoing" where
  "addressed_to scheme host base query m =
     \<lparr>og_Scheme = scheme, og_Host = host,
      og_message = m\<lparr>m_Path := singleJoiningSlash base (m_Path m), m_RawQuery := joined_query query (m_RawQuery m), m_Host := []\<rparr>\<rparr>"

definition JoinHostPort :: "string \<Rightarrow> string \<Rightarrow> string" where
  "JoinHostPort host port = (if CHR '':'' \<in> set host then ''['' @ host @ '']:'' @ port else host @ '':'' @ port)"

definition upstream_host :: "conn \<Rightarrow> string" where
  "upstream_host ic =
     (let rt = cn_route ic; port = Port (ht_upstream rt) in
      if ht_wild rt then (if port = [] then cn_sni ic else JoinHostPort (cn_sni ic) port)
      else ul_Host (ht_upstream rt))"

text \<open>\<open>rewrite\<close>: \<open>None\<close> where the URL is made nil, so that nothing is sent. \<open>json\<close> is that frisket wrote the body.\<close>

definition rewrite :: "conn \<Rightarrow> string option \<Rightarrow> bool \<Rightarrow> message \<Rightarrow> outgoing option" where
  "rewrite ic sec json m =
     (let rt = cn_route ic in
      if ht_docker rt \<noteq> None then
        Some (addressed_to ''http'' ''docker'' [] [] (m\<lparr>m_Header := dockerHeaders json (m_Header m)\<rparr>))
      else
        let out = (\<lambda>m. addressed_to (ul_Scheme (ht_upstream rt)) (upstream_host ic) (ul_Escaped (ht_upstream rt)) (ul_RawQuery (ht_upstream rt)) m) in
        case sec of
          None \<Rightarrow> Some (out m)
        | Some s \<Rightarrow>
            if s = [] then None
            else (case in_Inject (ht_Route rt) of
                None \<Rightarrow> None
              | Some j \<Rightarrow> Some (out (m\<lparr>m_Header := Set_header (m_Header m) (inject_Header j) (inject_Value j s)\<rparr>))))"

definition proxied :: "conn \<Rightarrow> string option \<Rightarrow> bool \<Rightarrow> message \<Rightarrow> http_reply" where
  "proxied ic sec json m =
     (if \<not> printable (upgradeType (m_Header m)) then UpstreamFailed
      else case rewrite ic sec json
          (m\<lparr>m_Header := proxied_headers (m_Header m), m_RawQuery := cleanQueryParams (m_RawQuery m),
             m_NoBody := (m_NoBody m \<or> m_ContentLength m = 0)\<rparr>) of
        None \<Rightarrow> UpstreamFailed
      | Some out \<Rightarrow> Forwarded (out\<lparr>og_message := (og_message out)\<lparr>m_Header := with_agent (m_Header (og_message out))\<rparr>\<rparr>))"

text \<open>\<open>stream\<close>: the request frisket makes itself.\<close>

definition stream_request :: "string \<Rightarrow> bool \<Rightarrow> message \<Rightarrow> outgoing" where
  "stream_request proto json m =
     (let h = foldl Del (without_hops TrimSpace (m_Header m)) (forwarding @ [''Expect'']);
          h = Set_header (Set_header h ''Connection'' ''Upgrade'') ''Upgrade'' proto
      in \<lparr>og_Scheme = ''http'', og_Host = ''docker'',
          og_message = m\<lparr>m_Header := with_agent (dockerHeaders json h), m_Host := []\<rparr>\<rparr>)"

section \<open>\<open>serveHTTP\<close>\<close>

text \<open>What is around a request: what the route serves, the recorder and the asker where there are any, how the body
  arrives, whether a Docker request got the names it waits for, the daemon, and the clock.\<close>

record 's setting =
  st_services :: "'s services"
  st_serves :: "string \<Rightarrow> bool"
  st_recorder :: "decider option"
  st_asker :: "(question \<Rightarrow> asking_end) option"
  st_arrival :: arrival
  st_took :: bool
  st_daemon :: 's
  st_now :: int
  st_later :: int

abbreviation set_casing :: "'s setting \<Rightarrow> unicode" where
  "set_casing X \<equiv> casing (gv_lib (sv_given (st_services X)))"

abbreviation set_folding :: "'s setting \<Rightarrow> int \<Rightarrow> int" where
  "set_folding X \<equiv> folding (gv_lib (sv_given (st_services X)))"

text \<open>The answer, the line written, and what the request leaves of its route and its session's always.\<close>

record served =
  sd_reply :: http_reply
  sd_log :: request_log
  sd_route :: http_route
  sd_always :: "always_session option"

definition served_by :: "conn \<Rightarrow> http_reply \<times> request_log \<Rightarrow> served" where
  "served_by ic r = \<lparr>sd_reply = fst r, sd_log = snd r, sd_route = cn_route ic, sd_always = cn_always ic\<rparr>"

text \<open>The request on the connection it came on, and by the method that decides it.\<close>

definition addressed :: "'s setting \<Rightarrow> conn \<Rightarrow> message \<Rightarrow> (http_reply \<times> request_log) + message \<times> request_log" where
  "addressed X ic m =
     (let rt = cn_route ic in
      if normaliseHost (m_Host m) \<noteq> cn_sni ic \<and> \<not> (ht_docker rt \<noteq> None \<and> m_Host m = []) then
        Inl (route_refuse rt 421 ReasonMisdirected None new_log)
      else if ht_docker rt \<noteq> None \<and> m_ProtoMajor m \<noteq> 1 then Inl (route_refuse rt 505 ReasonHTTP11Only None new_log)
      else case override (set_casing X) (set_folding X) m of
        Inl reason \<Rightarrow> Inl (route_refuse rt 400 reason None new_log)
      | Inr (was, m) \<Rightarrow> Inr (m, new_log\<lparr>rq_sentMethod := was\<rparr>))"

text \<open>A token URL is answered here.\<close>

definition granted :: "'s setting \<Rightarrow> conn \<Rightarrow> message \<Rightarrow> request_log \<Rightarrow> (http_reply \<times> request_log) + unit" where
  "granted X ic m lg =
     (let rt = cn_route ic in
      case ht_key rt of
        None \<Rightarrow> Inr ()
      | Some k \<Rightarrow>
          if grant (set_casing X) k (cn_sni ic) (m_Path m) then
            (let a = grant_answer_of (sv_jose (st_services X)) (gv_media (sv_given (st_services X))) k m
                   (in_Placeholder (ht_Route rt)) (st_now X);
                 lg = lg\<lparr>rq_rule := RuleGrant\<rparr> in
             case a of
               GrantRefused _ e \<Rightarrow> Inl (Granted a, log_refuse (jwt_Error e) lg)
             | _ \<Rightarrow> Inl (Granted a, lg\<lparr>rq_credential := CredentialAnswered\<rparr>))
          else Inr ())"

text \<open>Whether its credential is to be put on it, and the connection with the key that was asked.\<close>

definition carried :: "'s setting \<Rightarrow> conn \<Rightarrow> message \<Rightarrow> (bool \<times> string) \<times> conn" where
  "carried X ic m =
     (let rt = cn_route ic;
          (r, key) = carries (set_folding X) (sv_jose (st_services X)) (st_serves X) (ht_Route rt) (ht_key rt)
            (m_Header m) (st_now X)
      in (r, ic\<lparr>cn_route := rt\<lparr>ht_key := key\<rparr>\<rparr>))"

text \<open>\<open>EscapedPath\<close> of a URL with a path and no other spelling of it: \<open>shouldEscape\<close> of a path.\<close>

definition EscapedPath :: "string \<Rightarrow> string" where
  "EscapedPath p =
     (if p = ''*'' then p
      else concat (map (\<lambda>c. if unreserved c \<or> c \<in> set ''$&+,/:;=@'' then [c] else percent c) p))"

text \<open>The path and query decided, and the version a Docker request says.\<close>

definition decided_of :: "'s setting \<Rightarrow> conn \<Rightarrow> message \<Rightarrow> request_log \<Rightarrow> (http_reply \<times> request_log) + (string \<times> string) \<times> request_log" where
  "decided_of X ic m lg =
     (let rt = cn_route ic in
      case ht_docker rt of
        None \<Rightarrow> Inr ((m_Path m, m_RawQuery m), lg)
      | Some d \<Rightarrow>
          (case api_version (set_casing X) d (m_Path m) of
             Inl reason \<Rightarrow> Inl (route_refuse rt 403 reason None (lg\<lparr>rq_api := ''-''\<rparr>))
           | Inr (stripped, ver, _) \<Rightarrow> Inr ((EscapedPath (scoped stripped), m_RawQuery m), lg\<lparr>rq_api := ver\<rparr>)))"

definition docker_request_of :: "message \<Rightarrow> docker_request" where
  "docker_request_of m =
     \<lparr>dq_http = http_of m, dq_Path = m_Path m, dq_UpgradeHeader = Values (m_Header m) ''Upgrade'',
      dq_ConnectionHeader = Values (m_Header m) ''Connection'', dq_Tree = None\<rparr>"

definition after_docker :: "message \<Rightarrow> docker_request \<Rightarrow> message" where
  "after_docker m r =
     (after_read m (dq_http r))
       \<lparr>m_Path := dq_Path r, m_Tree := dq_Tree r,
        m_Header := (if dq_Tree r = None then m_Header m else Del (m_Header m) ''Content-Encoding'')\<rparr>"

text \<open>The verdict, and the request after what decided read its body.\<close>

definition judged :: "'s setting \<Rightarrow> conn \<Rightarrow> message \<Rightarrow> string \<times> string \<Rightarrow> docker_answer \<times> message" where
  "judged X ic m target =
     (let v = decided (set_casing X) (ht_scope (cn_route ic)) (m_Method m) (fst target) (snd target) in
      case v_deferred v of
        NotDeferred \<Rightarrow> (answered_with v, m)
      | DeferGraphQL g \<Rightarrow> (let (v, m) = decide_graphql (st_services X) g m in (answered_with v, m))
      | DeferDocker d \<Rightarrow>
          (case fst (rule_decide (sv_given (st_services X)) (ht_docker (cn_route ic)) (st_took X) d (docker_request_of m) (st_daemon X)) of
             Inl a \<Rightarrow> (a, m)
           | Inr (a, up) \<Rightarrow> (a, after_docker m up)))"

definition log_verdict :: "verdict \<Rightarrow> request_log \<Rightarrow> request_log" where
  "log_verdict v lg = lg\<lparr>rq_graphql := v_graphql v, rq_operation := operationIDs v\<rparr>"

text \<open>What a recording session makes of a verdict that does not admit.\<close>

definition recorded :: "'s setting \<Rightarrow> conn \<Rightarrow> message \<Rightarrow> verdict \<Rightarrow> request_log \<Rightarrow> (http_reply \<times> request_log) + verdict \<times> request_log" where
  "recorded X ic m v lg =
     (case st_recorder X of
        None \<Rightarrow> Inr (v, lg)
      | Some dec \<Rightarrow>
          if v_outcome v = Admit then Inr (v, lg)
          else if recordable (cn_route ic) v then
            (case record_request (st_services X) dec (st_asker X) (st_arrival X) ic m v of
               None \<Rightarrow> Inl (Pending, lg)
             | Some reason \<Rightarrow>
                 if reason \<noteq> [] then Inl (route_refuse (cn_route ic) 403 reason (v_operation v) lg)
                 else Inr (v\<lparr>v_outcome := Admit, v_reason := RuleRecorded\<rparr>, lg))
          else if v_outcome v = Refuse \<and> hard (v_reason v)
          then Inr (v, lg\<lparr>rq_hard := Some (Hard (httpLine ic m v) (request_key ic m v) (v_reason v))\<rparr>)
          else Inr (v, lg))"

text \<open>\<open>ask\<close>: why it is refused, empty where it is admitted, and none while it waits.\<close>

definition ask_request :: "'s setting \<Rightarrow> conn \<Rightarrow> message \<Rightarrow> verdict \<Rightarrow> always_rule option \<Rightarrow> string option \<times> always_session option" where
  "ask_request X ic m v rule =
     (if st_asker X = None then (Some ReasonNobodyToAsk, cn_always ic)
      else case askPerson (st_services X) (st_asker X) (st_arrival X) ic m v False rule of
        (r, s) \<Rightarrow> (map_option snd r, s))"

text \<open>The outcome acted on: an answer, or what the log calls what admitted it; and the session's always.\<close>

definition acted_on ::
    "'s setting \<Rightarrow> conn \<Rightarrow> message \<Rightarrow> string \<times> string \<Rightarrow> docker_answer \<Rightarrow> verdict \<Rightarrow> request_log \<Rightarrow>
     ((http_reply \<times> request_log) + request_log) \<times> always_session option" where
  "acted_on X ic m target a v lg =
     (let rt = cn_route ic in
      case v_outcome v of
        Refuse \<Rightarrow>
          (case da_answer a of
             Some x \<Rightarrow> (Inl (DaemonSaid x, log_refuse (v_reason v) lg), cn_always ic)
           | None \<Rightarrow>
               (Inl (route_refuse rt (if da_status a = 0 then 403 else da_status a) (v_reason v) (v_operation v) lg), cn_always ic))
      | Ask \<Rightarrow>
          let rule = alwaysRule (st_services X) rt m (fst target) (snd target) v in
          if (case (rule, cn_always ic) of (Some r, Some s) \<Rightarrow> Always_Admits s r | _ \<Rightarrow> False)
          then (Inr (lg\<lparr>rq_rule := RuleAlways\<rparr>), cn_always ic)
          else (case ask_request X ic m v rule of
              (None, s) \<Rightarrow> (Inl (Pending, lg), s)
            | (Some reason, s) \<Rightarrow>
                if reason \<noteq> [] then (Inl (route_refuse rt 403 reason (v_operation v) lg), s)
                else (Inr (lg\<lparr>rq_rule := RuleAsked\<rparr>), s))
      | Admit \<Rightarrow> (Inr (lg\<lparr>rq_rule := v_reason v\<rparr>), cn_always ic))"

text \<open>What comes before the credential is looked at: an answer; or whether it is to be put on the request, the
  request as it goes on, what was answered for it, and the connection and its always since.\<close>

record admission =
  ad_inject :: bool
  ad_message :: message
  ad_answer :: docker_answer
  ad_log :: request_log
  ad_conn :: conn

definition admission_of :: "'s setting \<Rightarrow> conn \<Rightarrow> message \<Rightarrow> served + admission" where
  "admission_of X ic m =
     ok_then (lift_error (served_by ic) (addressed X ic m)) (\<lambda>(m, lg).
     ok_then (lift_error (served_by ic) (granted X ic m lg)) (\<lambda>_.
     let ((inject, why), ic) = carried X ic m; rt = cn_route ic in
     if why \<noteq> [] then Inl (served_by ic (route_refuse rt 403 why None lg))
     else ok_then (lift_error (served_by ic) (decided_of X ic m lg)) (\<lambda>(target, lg).
     let (a, m) = judged X ic m target; lg = log_verdict (da_verdict a) lg in
     ok_then (lift_error (served_by ic) (recorded X ic m (da_verdict a) lg)) (\<lambda>(v, lg).
     let (r, s) = acted_on X ic m target a v lg; ic = ic\<lparr>cn_always := s\<rparr> in
     ok_then (lift_error (served_by ic) r) (\<lambda>lg.
       Inr \<lparr>ad_inject = inject, ad_message = m, ad_answer = a\<lparr>da_verdict := v\<rparr>, ad_log = lg, ad_conn = ic\<rparr>)))))"

text \<open>The credential's own part: what its source gives, at the later reading of the clock.\<close>

definition spend :: "'s setting \<Rightarrow> credential_error + secret \<Rightarrow> admission \<Rightarrow> served" where
  "spend X source ad =
     (let ic = ad_conn ad; rt = cn_route ic; m = ad_message ad; lg = ad_log ad; a = ad_answer ad in
      if \<not> ad_inject ad then
        let lg = lg\<lparr>rq_credential :=
          (if Get_header (m_Header m) (credentialHeader (ht_Route rt)) = [] then CredentialNone else CredentialPassed)\<rparr>
        in served_by ic
          (if da_upgrade a \<noteq> [] then Switched (da_upgrade a) (stream_request (da_upgrade a) (da_jsonBody a) m)
           else proxied ic None (da_jsonBody a) m, lg)
      else
        let lg = lg\<lparr>rq_credential := CredentialInjected\<rparr>; oper = v_operation (da_verdict a) in
        case source of
          Inl _ \<Rightarrow> served_by ic (route_refuse rt 502 ReasonNoCredential oper lg)
        | Inr s \<Rightarrow>
            if Expired s (st_later X) then
              served_by (ic\<lparr>cn_route := rt\<lparr>ht_stale := (if ht_stale rt = 0 then st_later X else ht_stale rt)\<rparr>\<rparr>)
                (route_refuse rt 503 ReasonStaleCredential oper lg)
            else served_by (ic\<lparr>cn_route := rt\<lparr>ht_stale := 0\<rparr>\<rparr>) (proxied ic (Some (se_Value s)) (da_jsonBody a) m, lg))"

definition serveHTTP :: "'s setting \<Rightarrow> credential_error + secret \<Rightarrow> conn \<Rightarrow> message \<Rightarrow> served" where
  "serveHTTP X source ic m = (case admission_of X ic m of Inl d \<Rightarrow> d | Inr ad \<Rightarrow> spend X source ad)"

end
