(* ===== verification/Http_Sent.thy ===== *)
theory Http_Sent
  imports Http_Serve Http_CA Docker_Admit
begin

text \<open>
  What a request served shows: where its credential goes and what depends on it, that what leaves was let through
  as it was decided, that a token URL's requests never do, what a person is asked, and what the log says.
\<close>

section \<open>What was gone through\<close>

lemma lift_error_Inl [simp]: "lift_error f r = Inl y \<longleftrightarrow> (\<exists>x. r = Inl x \<and> y = f x)"
  by (cases r) (auto simp: lift_error_def)

lemma admission_Inr:
  assumes "admission_of X ic m = Inr ad"
  obtains m1 lg1 ic1 target lg2 a m2 v lg3 s where
    "addressed X ic m = Inr (m1, lg1)" "granted X ic m1 lg1 = Inr ()" "carried X ic m1 = ((ad_inject ad, []), ic1)"
    "decided_of X ic1 m1 lg1 = Inr (target, lg2)" "judged X ic1 m1 target = (a, m2)"
    "recorded X ic1 m2 (da_verdict a) (log_verdict (da_verdict a) lg2) = Inr (v, lg3)"
    "acted_on X ic1 m2 target a v lg3 = (Inr (ad_log ad), s)"
    "ad_message ad = m2" "ad_answer ad = a\<lparr>da_verdict := v\<rparr>" "ad_conn ad = ic1\<lparr>cn_always := s\<rparr>"
proof -
  from assms obtain m1 lg1 where b1: "addressed X ic m = Inr (m1, lg1)" "granted X ic m1 lg1 = Inr ()"
    by (auto simp: admission_of_def ok_then_Inr)
  obtain inject why ic1 where c: "carried X ic m1 = ((inject, why), ic1)" by (metis prod.exhaust)
  note w = assms [unfolded admission_of_def, simplified ok_then_Inr, simplified b1 c, simplified Let_def]
  from w obtain target lg2 where d: "why = []" "decided_of X ic1 m1 lg1 = Inr (target, lg2)"
    by (auto simp: b1 c ok_then_Inr split: if_splits)
  obtain a m2 where j: "judged X ic1 m1 target = (a, m2)" by fastforce
  from w obtain v lg3 where r: "recorded X ic1 m2 (da_verdict a) (log_verdict (da_verdict a) lg2) = Inr (v, lg3)"
    by (auto simp: b1 c d j ok_then_Inr)
  obtain x s where t: "acted_on X ic1 m2 target a v lg3 = (x, s)" by fastforce
  from w have "x = Inr (ad_log ad) \<and> inject = ad_inject ad \<and> ad_message ad = m2 \<and> ad_answer ad = a\<lparr>da_verdict := v\<rparr> \<and>
      ad_conn ad = ic1\<lparr>cn_always := s\<rparr>"
    by (auto simp: b1 c d j r t ok_then_Inr)
  with b1 c d j r t show thesis by (intro that) auto
qed

lemma carried_conn:
  assumes "carried X ic m = (r, ic1)"
  shows "\<exists>key. ic1 = ic\<lparr>cn_route := (cn_route ic)\<lparr>ht_key := key\<rparr>\<rparr> \<and>
    carries (set_folding X) (sv_jose (st_services X)) (st_serves X) (ht_Route (cn_route ic)) (ht_key (cn_route ic)) (m_Header m) (st_now X) =
      (r, key)"
  using assms by (auto simp: carried_def Let_def split: prod.splits)

lemma admission_conn:
  assumes "admission_of X ic m = Inr ad"
  shows "\<exists>key s. ad_conn ad = ic\<lparr>cn_route := (cn_route ic)\<lparr>ht_key := key\<rparr>, cn_always := s\<rparr>"
proof -
  from assms obtain r m1 ic1 s where "carried X ic m1 = (r, ic1)" "ad_conn ad = ic1\<lparr>cn_always := s\<rparr>" by (rule admission_Inr)
  with carried_conn [OF this(1)] show ?thesis by auto
qed

section \<open>The credential\<close>

text \<open>A reply, but for one header of the request it sends.\<close>

fun hidden :: "string \<Rightarrow> http_reply \<Rightarrow> http_reply" where
  "hidden key (Forwarded out) =
     Forwarded (out\<lparr>og_message := (og_message out)\<lparr>m_Header := Del (m_Header (og_message out)) key\<rparr>\<rparr>)"
| "hidden key r = r"

lemma Del_Set: "Del (Set_header h k v) k = Del h k"
  by (auto simp: Set_header_def Del_def filter_empty_conv)

lemma Del_Set_other: "a \<noteq> k \<Longrightarrow> Del (Set_header h a v) k = Set_header (Del h k) a v"
  by (auto simp: Set_header_def Del_def intro: filter_cong)

lemma map_of_Set: "map_of (Set_header h k v) a = (if a = k then Some [v] else map_of h a)"
proof -
  have "map_of (Del h k) a = (if a = k then None else map_of h a)" by (induction h) (auto simp: Del_def)
  then show ?thesis by (simp add: Set_header_def map_add_def split: option.split)
qed

lemma Del_agent: "Del (with_agent (Set_header h k v)) k = Del (with_agent (Set_header h k w)) k"
  by (cases "k = ''User-Agent''") (simp_all add: with_agent_def map_of_Set Del_Set Del_Set_other)

lemma proxied_hidden:
  assumes "s \<noteq> []" "s' \<noteq> []"
  shows "hidden (credentialHeader (ht_Route (cn_route ic))) (proxied ic (Some s) json m) =
    hidden (credentialHeader (ht_Route (cn_route ic))) (proxied ic (Some s') json m)"
  using assms
  by (simp add: proxied_def rewrite_def Let_def addressed_to_def credentialHeader_def Del_agent split: option.split)

text \<open>
  The credential is in nothing but its own header of what goes upstream: two that expire together give the same
  answer, the same log and the same request but for that header. Where the log does not say it was put on the
  request, nothing depends on it at all, nor on whether it could be had.
\<close>

theorem credential_confined:
  assumes "se_Expires s = se_Expires s'" "se_Value s \<noteq> []" "se_Value s' \<noteq> []"
  shows "sd_log (serveHTTP X (Inr s) ic m) = sd_log (serveHTTP X (Inr s') ic m) \<and>
    sd_route (serveHTTP X (Inr s) ic m) = sd_route (serveHTTP X (Inr s') ic m) \<and>
    sd_always (serveHTTP X (Inr s) ic m) = sd_always (serveHTTP X (Inr s') ic m) \<and>
    hidden (credentialHeader (ht_Route (cn_route ic))) (sd_reply (serveHTTP X (Inr s) ic m)) =
      hidden (credentialHeader (ht_Route (cn_route ic))) (sd_reply (serveHTTP X (Inr s') ic m)) \<and>
    (rq_credential (sd_log (serveHTTP X (Inr s) ic m)) \<noteq> CredentialInjected \<longrightarrow> serveHTTP X source ic m = serveHTTP X (Inr s) ic m)"
proof (cases "admission_of X ic m")
  case (Inr ad)
  from admission_conn [OF Inr] obtain key al where
    c: "ad_conn ad = ic\<lparr>cn_route := (cn_route ic)\<lparr>ht_key := key\<rparr>, cn_always := al\<rparr>" by blast
  have h: "hidden (credentialHeader (ht_Route (cn_route ic))) (proxied (ad_conn ad) (Some (se_Value s)) json mm) =
    hidden (credentialHeader (ht_Route (cn_route ic))) (proxied (ad_conn ad) (Some (se_Value s')) json mm)" for json mm
    using proxied_hidden [OF assms(2,3), of "ad_conn ad"] by (simp add: c)
  have e: "Expired s = Expired s'" using assms(1) by (simp add: Expired_def fun_eq_iff)
  show ?thesis
    using h by (cases "ad_inject ad"; cases "Expired s (st_later X)")
      (simp_all add: serveHTTP_def Inr spend_def Let_def served_by_def e route_refuse_def log_refuse_def)
qed (simp add: serveHTTP_def)

section \<open>What is answered before the credential\<close>

fun refusing :: "http_reply \<Rightarrow> bool" where
  "refusing (RefusedWith _) \<longleftrightarrow> True"
| "refusing (DaemonSaid _) \<longleftrightarrow> True"
| "refusing (Granted (GrantRefused _ _)) \<longleftrightarrow> True"
| "refusing _ \<longleftrightarrow> False"

fun leaving :: "http_reply \<Rightarrow> outgoing option" where
  "leaving (Forwarded out) = Some out"
| "leaving (Switched _ out) = Some out"
| "leaving _ = None"

definition unsaid :: "request_log \<Rightarrow> bool" where
  "unsaid lg \<longleftrightarrow> \<not> rq_refused lg \<and> rq_credential lg = []"

text \<open>An answer given before the credential: nothing leaves, and its line says refused where it is.\<close>

definition answered_early :: "http_reply \<times> request_log \<Rightarrow> bool" where
  "answered_early r \<longleftrightarrow>
     leaving (fst r) = None \<and> fst r \<noteq> UpstreamFailed \<and> rq_refused (snd r) = refusing (fst r) \<and>
     rq_credential (snd r) = (case fst r of Granted a \<Rightarrow> if refusing (fst r) then [] else CredentialAnswered | _ \<Rightarrow> [])"

lemma unsaid_new: "unsaid new_log" "unsaid lg \<Longrightarrow> unsaid (lg\<lparr>rq_sentMethod := x\<rparr>)" "unsaid lg \<Longrightarrow> unsaid (lg\<lparr>rq_api := x\<rparr>)"
  "unsaid lg \<Longrightarrow> unsaid (lg\<lparr>rq_rule := x\<rparr>)" "unsaid lg \<Longrightarrow> unsaid (lg\<lparr>rq_hard := h\<rparr>)" "unsaid lg \<Longrightarrow> unsaid (log_verdict v lg)"
  by (simp_all add: unsaid_def new_log_def log_verdict_def)

lemma early_refusal: "unsaid lg \<Longrightarrow> answered_early (route_refuse rt st reason oper lg)"
  by (simp add: answered_early_def route_refuse_def log_refuse_def unsaid_def)

lemma early_refusal_eq: "route_refuse rt st reason oper lg = r \<Longrightarrow> unsaid lg \<Longrightarrow> answered_early r"
  using early_refusal by blast

lemma early_pending: "unsaid lg \<Longrightarrow> answered_early (Pending, lg)"
  by (simp add: answered_early_def unsaid_def)

definition stage_ok :: "(http_reply \<times> request_log) + 'a \<Rightarrow> ('a \<Rightarrow> request_log) \<Rightarrow> bool" where
  "stage_ok r f \<longleftrightarrow> (case r of Inl x \<Rightarrow> answered_early x | Inr y \<Rightarrow> unsaid (f y))"

lemma stages_ok:
  "stage_ok (addressed X ic m) snd"
  "unsaid lg \<Longrightarrow> stage_ok (granted X ic m lg) (\<lambda>_. lg)"
  "unsaid lg \<Longrightarrow> stage_ok (decided_of X ic m lg) snd"
  "unsaid lg \<Longrightarrow> stage_ok (recorded X ic m v lg) snd"
  "unsaid lg \<Longrightarrow> stage_ok (fst (acted_on X ic m target a v lg)) id"
proof goal_cases
  case 1
  show ?case by (auto simp: stage_ok_def addressed_def Let_def early_refusal unsaid_new intro: early_refusal_eq split: sum.split)
next
  case 2
  then show ?case by (auto simp: stage_ok_def granted_def Let_def answered_early_def log_refuse_def unsaid_def split: option.split grant_answer.split)
next
  case 3
  then show ?case by (auto simp: stage_ok_def decided_of_def Let_def unsaid_new intro: early_refusal_eq split: option.split sum.split prod.split)
next
  case 4
  then show ?case by (auto simp: stage_ok_def recorded_def early_refusal early_pending unsaid_new split: option.split)
next
  case 5
  then have "answered_early (DaemonSaid x, log_refuse r lg)" for x r
    by (simp add: answered_early_def log_refuse_def unsaid_def)
  with 5 show ?case
    by (cases "v_outcome v") (auto simp: stage_ok_def acted_on_def Let_def early_refusal early_pending unsaid_new
      split: option.split prod.split)
qed

definition early_ok :: "served + 'a \<Rightarrow> bool" where
  "early_ok r \<longleftrightarrow> (case r of Inl d \<Rightarrow> answered_early (sd_reply d, sd_log d) | Inr _ \<Rightarrow> True)"

lemma early_chain:
  assumes "stage_ok r f" "\<And>y. r = Inr y \<Longrightarrow> unsaid (f y) \<Longrightarrow> early_ok (k y)"
  shows "early_ok (ok_then (lift_error (served_by c) r) k)"
  using assms by (cases r) (auto simp: early_ok_def stage_ok_def lift_error_def served_by_def)

lemma early_served: "answered_early r \<Longrightarrow> early_ok (Inl (served_by c r))"
  by (simp add: early_ok_def served_by_def)

lemma admission_early: "early_ok (admission_of X ic m)"
  unfolding admission_of_def
  apply (rule early_chain [OF stages_ok(1)])
  apply clarsimp
  apply (rule early_chain [OF stages_ok(2)], assumption)
  apply (clarsimp simp: Let_def early_served early_refusal split: prod.split)
  apply (rule early_chain [OF stages_ok(3)], assumption)
  apply (clarsimp split: prod.split)
  apply (rule early_chain [OF stages_ok(4)])
   apply (simp add: unsaid_new)
  apply (clarsimp split: prod.split)
  apply (rule early_chain [of _ id])
   apply (metis fst_conv stages_ok(5))
  apply (simp add: early_ok_def)
  done

lemma admission_unsaid:
  assumes "admission_of X ic m = Inr ad"
  shows "unsaid (ad_log ad)"
proof -
  from assms obtain m1 lg1 ic1 target lg2 a m2 v lg3 s where
    st: "addressed X ic m = Inr (m1, lg1)" "decided_of X ic1 m1 lg1 = Inr (target, lg2)"
      "recorded X ic1 m2 (da_verdict a) (log_verdict (da_verdict a) lg2) = Inr (v, lg3)"
      "acted_on X ic1 m2 target a v lg3 = (Inr (ad_log ad), s)"
    by (rule admission_Inr)
  have "unsaid lg1" using stages_ok(1) [of X ic m] st(1) by (simp add: stage_ok_def)
  then have "unsaid lg2" using stages_ok(3) [of lg1 X ic1 m1] st(2) by (simp add: stage_ok_def)
  then have "unsaid lg3"
    using stages_ok(4) [OF unsaid_new(6), of lg2 X ic1 m2 "da_verdict a" "da_verdict a"] st(3) by (simp add: stage_ok_def)
  then show ?thesis using stages_ok(5) [of lg3 X ic1 m2 target a v] st(4) by (simp add: stage_ok_def)
qed

lemma proxied_reply: "proxied ic sec json m = UpstreamFailed \<or> (\<exists>out. proxied ic sec json m = Forwarded out)"
  by (auto simp: proxied_def Let_def split: option.split)

text \<open>A request that is not answered early: sent without the credential, refused for want of it, or sent with it.\<close>

lemma served_cases:
  obtains (early) d where "serveHTTP X source ic m = d" "answered_early (sd_reply d, sd_log d)"
  | (plain) ad c where "admission_of X ic m = Inr ad" "\<not> ad_inject ad" "c = CredentialNone \<or> c = CredentialPassed"
      "sd_log (serveHTTP X source ic m) = (ad_log ad)\<lparr>rq_credential := c\<rparr>"
      "sd_reply (serveHTTP X source ic m) =
        (if da_upgrade (ad_answer ad) \<noteq> []
         then Switched (da_upgrade (ad_answer ad)) (stream_request (da_upgrade (ad_answer ad)) (da_jsonBody (ad_answer ad)) (ad_message ad))
         else proxied (ad_conn ad) None (da_jsonBody (ad_answer ad)) (ad_message ad))"
  | (unspent) ad status reason where "admission_of X ic m = Inr ad" "ad_inject ad"
      "(sd_reply (serveHTTP X source ic m), sd_log (serveHTTP X source ic m)) =
        route_refuse (cn_route (ad_conn ad)) status reason (v_operation (da_verdict (ad_answer ad)))
          ((ad_log ad)\<lparr>rq_credential := CredentialInjected\<rparr>)"
  | (spent) ad s where "admission_of X ic m = Inr ad" "ad_inject ad" "source = Inr s" "\<not> Expired s (st_later X)"
      "sd_log (serveHTTP X source ic m) = (ad_log ad)\<lparr>rq_credential := CredentialInjected\<rparr>"
      "sd_reply (serveHTTP X source ic m) = proxied (ad_conn ad) (Some (se_Value s)) (da_jsonBody (ad_answer ad)) (ad_message ad)"
proof (cases "admission_of X ic m")
  case (Inl d)
  with admission_early [of X ic m] early [of d] show thesis by (simp add: serveHTTP_def early_ok_def)
next
  case (Inr ad)
  show thesis
  proof (cases "ad_inject ad")
    case False
    with Inr show thesis by (intro plain [of ad]) (auto simp: serveHTTP_def spend_def Let_def served_by_def)
  next
    case True
    note inj = this
    show thesis
    proof (cases source)
      case (Inl e)
      with Inr inj show thesis
        by (intro unspent [of ad 502 ReasonNoCredential]) (auto simp: serveHTTP_def spend_def Let_def served_by_def)
    next
      case (Inr s)
      with \<open>admission_of X ic m = Inr ad\<close> inj show thesis
      proof (cases "Expired s (st_later X)")
        case True
        with \<open>admission_of X ic m = Inr ad\<close> inj Inr show thesis
          by (intro unspent [of ad 503 ReasonStaleCredential]) (auto simp: serveHTTP_def spend_def Let_def served_by_def)
      next
        case False
        with \<open>admission_of X ic m = Inr ad\<close> inj Inr show thesis
          by (intro spent [of ad s]) (auto simp: serveHTTP_def spend_def Let_def served_by_def)
      qed
    qed
  qed
qed

text \<open>
  The line written for a request says it was refused exactly where it was; that it was answered, where a token
  URL gave a token; and that it is neither where it was sent.
\<close>

theorem served_logged:
  "rq_refused (sd_log (serveHTTP X source ic m)) = refusing (sd_reply (serveHTTP X source ic m)) \<and>
   (rq_credential (sd_log (serveHTTP X source ic m)) = CredentialAnswered) =
     (\<exists>g. sd_reply (serveHTTP X source ic m) = Granted g \<and> \<not> refusing (Granted g))"
proof (rule served_cases [of X source ic m])
  fix d assume "serveHTTP X source ic m = d" "answered_early (sd_reply d, sd_log d)"
  then show ?thesis by (cases "sd_reply d") (auto simp: answered_early_def split: if_splits)
next
  fix ad c assume *: "admission_of X ic m = Inr ad" "sd_log (serveHTTP X source ic m) = (ad_log ad)\<lparr>rq_credential := c\<rparr>"
    "c = CredentialNone \<or> c = CredentialPassed"
    "sd_reply (serveHTTP X source ic m) =
      (if da_upgrade (ad_answer ad) \<noteq> []
       then Switched (da_upgrade (ad_answer ad)) (stream_request (da_upgrade (ad_answer ad)) (da_jsonBody (ad_answer ad)) (ad_message ad))
       else proxied (ad_conn ad) None (da_jsonBody (ad_answer ad)) (ad_message ad))"
  show ?thesis
    using *(3) admission_unsaid [OF *(1)] proxied_reply [of "ad_conn ad" None "da_jsonBody (ad_answer ad)" "ad_message ad"]
    by (auto simp: *(2,4) unsaid_def)
next
  fix ad status reason assume *: "admission_of X ic m = Inr ad"
    "(sd_reply (serveHTTP X source ic m), sd_log (serveHTTP X source ic m)) =
      route_refuse (cn_route (ad_conn ad)) status reason (v_operation (da_verdict (ad_answer ad)))
        ((ad_log ad)\<lparr>rq_credential := CredentialInjected\<rparr>)"
  then show ?thesis by (simp add: route_refuse_def log_refuse_def)
next
  fix ad s assume *: "admission_of X ic m = Inr ad" "sd_log (serveHTTP X source ic m) = (ad_log ad)\<lparr>rq_credential := CredentialInjected\<rparr>"
    "sd_reply (serveHTTP X source ic m) = proxied (ad_conn ad) (Some (se_Value s)) (da_jsonBody (ad_answer ad)) (ad_message ad)"
  show ?thesis
    using admission_unsaid [OF *(1)] proxied_reply [of "ad_conn ad" "Some (se_Value s)" "da_jsonBody (ad_answer ad)" "ad_message ad"]
    by (auto simp: *(2,3) unsaid_def)
qed

section \<open>Where the credential goes\<close>

text \<open>A Docker route has no credential, and another's upstream is reached over TLS.\<close>

lemma made_upstream:
  assumes "New_interceptor G rs = Inr i" "lookup_route i n = Some rt" "in_Credential (ht_Route rt)"
  shows "ht_docker rt = None" "ul_Scheme (ht_upstream rt) = ''https''"
proof -
  have m: "routes_made G rs i" using New_made [OF assms(1)] by blast
  obtain k where "(k, rt) \<in> set (ip_routes i) \<or> (k, rt) \<in> set (ip_wild i)" by (rule lookup_entry [OF assms(2)])
  with m obtain star where "route_made G rs star (k, rt)" by (auto simp: routes_made_def list_all_iff)
  then have v: "validate_route (ng_route G) (ht_Route rt) = Inr (ht_upstream rt)"
    and d: "ht_docker rt = map_option (\<lambda>d. newDockerRoute d (ul_Path (ht_upstream rt))) (in_Docker (ht_Route rt))"
    by (simp_all add: route_made_def Let_def)
  have no: "\<not> docker_credentialed (ht_Route rt)" if "validateDocker (ng_route G) (ht_Route rt) u b = None" for u b
    using that by (auto simp: validateDocker_def split: option.splits if_splits)
  from v no assms(3) have "in_Docker (ht_Route rt) = None \<and> ul_Scheme (ht_upstream rt) = ''https''"
    by (auto simp: validate_route_def docker_credentialed_def https_fault_def split: if_splits sum.splits pattern.splits option.splits)
  with d show "ht_docker rt = None" "ul_Scheme (ht_upstream rt) = ''https''" by simp_all
qed

lemma carries_True:
  assumes "carries F J sv r key h now = ((True, why), key')"
  shows "in_Credential r \<and> in_Inject r \<noteq> None"
  using assms by (auto simp: carries_def split: if_splits option.splits)

lemma Values_agent: "Values (with_agent (Set_header h k v)) k = [v]"
  by (simp add: Values_def with_agent_def map_of_Set)

lemma addressed_Inr:
  assumes "addressed X ic m = Inr (m1, lg)"
  obtains was where "override (set_casing X) (set_folding X) m = Inr (was, m1)"
    "normaliseHost (m_Host m) = cn_sni ic \<or> ht_docker (cn_route ic) \<noteq> None \<and> m_Host m = []"
  using assms by (auto simp: addressed_def Let_def split: if_splits sum.splits intro: that)

lemma proxied_spent:
  assumes "proxied ic (Some s) json m = Forwarded out" "ht_docker (cn_route ic) = None"
  shows "\<exists>j. in_Inject (ht_Route (cn_route ic)) = Some j \<and> Values (m_Header (og_message out)) (inject_Header j) = [inject_Value j s] \<and>
    og_Scheme out = ul_Scheme (ht_upstream (cn_route ic)) \<and> og_Host out = upstream_host ic"
  using assms by (auto simp: proxied_def rewrite_def Let_def addressed_to_def Values_agent split: if_splits option.splits)

text \<open>
  A credential goes upstream only where the request carried the placeholder, on the host the connection was made
  for, while it was in date; over TLS to the route's own upstream, or on a wildcard route to the name asked; and its
  header is then the credential's value alone, whatever the client put there.
\<close>

theorem credential_goes_home:
  assumes "New_interceptor G rs = Inr i" "lookup_route i (cn_sni ic) = Some rt" "cn_route ic = rt\<lparr>ht_key := k, ht_stale := t\<rparr>"
    and "leaving (sd_reply (serveHTTP X source ic m)) = Some out"
    and "rq_credential (sd_log (serveHTTP X source ic m)) = CredentialInjected"
  shows "\<exists>s j was m1 k'. source = Inr s \<and> \<not> Expired s (st_later X) \<and> in_Inject (ht_Route rt) = Some j \<and>
    Values (m_Header (og_message out)) (inject_Header j) = [inject_Value j (se_Value s)] \<and>
    og_Scheme out = ''https'' \<and> og_Host out = upstream_host ic \<and>
    normaliseHost (m_Host m) = cn_sni ic \<and> override (set_casing X) (set_folding X) m = Inr (was, m1) \<and>
    carries (set_folding X) (sv_jose (st_services X)) (st_serves X) (ht_Route rt) k (m_Header m1) (st_now X) = ((True, []), k')"
proof -
  have "\<exists>ad s. admission_of X ic m = Inr ad \<and> ad_inject ad \<and> source = Inr s \<and> \<not> Expired s (st_later X) \<and>
    proxied (ad_conn ad) (Some (se_Value s)) (da_jsonBody (ad_answer ad)) (ad_message ad) = Forwarded out"
  proof (rule served_cases [of X source ic m])
    fix d assume "serveHTTP X source ic m = d" "answered_early (sd_reply d, sd_log d)"
    with assms(4) show ?thesis by (simp add: answered_early_def)
  next
    fix ad s assume "admission_of X ic m = Inr ad" "ad_inject ad" "source = Inr s" "\<not> Expired s (st_later X)"
      "sd_reply (serveHTTP X source ic m) = proxied (ad_conn ad) (Some (se_Value s)) (da_jsonBody (ad_answer ad)) (ad_message ad)"
    with assms(4) proxied_reply [of "ad_conn ad" "Some (se_Value s)" "da_jsonBody (ad_answer ad)" "ad_message ad"] show ?thesis by auto
  qed (use assms(4,5) in \<open>auto simp: route_refuse_def\<close>)
  then obtain ad s where ad: "admission_of X ic m = Inr ad" "ad_inject ad" "source = Inr s" "\<not> Expired s (st_later X)"
    "proxied (ad_conn ad) (Some (se_Value s)) (da_jsonBody (ad_answer ad)) (ad_message ad) = Forwarded out" by blast
  from ad(1,2) obtain m1 lg1 ic1 where st: "addressed X ic m = Inr (m1, lg1)" "carried X ic m1 = ((True, []), ic1)"
    by (elim admission_Inr) simp
  from carried_conn [OF st(2)] assms(3) obtain key where
    car: "carries (set_folding X) (sv_jose (st_services X)) (st_serves X) (ht_Route rt) k (m_Header m1) (st_now X) = ((True, []), key)"
    by auto
  note up = made_upstream [OF assms(1,2) carries_True [OF car, THEN conjunct1]]
  obtain key' al where c: "ad_conn ad = ic\<lparr>cn_route := (cn_route ic)\<lparr>ht_key := key'\<rparr>, cn_always := al\<rparr>"
    using admission_conn [OF ad(1)] by blast
  have "ht_docker (cn_route (ad_conn ad)) = None" by (simp add: c assms(3) up)
  from proxied_spent [OF ad(5) this] obtain j where
    j: "in_Inject (ht_Route rt) = Some j" "Values (m_Header (og_message out)) (inject_Header j) = [inject_Value j (se_Value s)]"
      "og_Scheme out = ''https''" "og_Host out = upstream_host ic"
    by (auto simp: c assms(3) up upstream_host_def Let_def)
  from addressed_Inr [OF st(1)] up(1) assms(3) obtain was where
    "override (set_casing X) (set_folding X) m = Inr (was, m1)" "normaliseHost (m_Host m) = cn_sni ic" by auto
  with ad(3,4) j car show ?thesis by blast
qed

text \<open>
  Nothing sent to a token URL leaves: whatever else the request holds, and whatever the scope says of it, it is
  answered here or refused.
\<close>

theorem grant_stays:
  assumes "ht_key (cn_route ic) = Some k" "override (set_casing X) (set_folding X) m = Inr (was, m1)"
    and "grant (set_casing X) k (cn_sni ic) (m_Path m1)"
  shows "leaving (sd_reply (serveHTTP X source ic m)) = None \<and> sd_reply (serveHTTP X source ic m) \<noteq> Pending"
proof (cases "addressed X ic m")
  case (Inl r)
  then show ?thesis
    by (auto simp: serveHTTP_def admission_of_def lift_error_def served_by_def addressed_def Let_def route_refuse_def assms(2)
      split: if_splits)
next
  case (Inr y)
  obtain m1' lg where y: "y = (m1', lg)" by (cases y)
  with Inr assms(2) have "m1' = m1" by (auto elim: addressed_Inr)
  with Inr y assms(1,3) show ?thesis
    by (auto simp: serveHTTP_def admission_of_def lift_error_def served_by_def granted_def Let_def split: grant_answer.split)
qed

section \<open>What let a request through\<close>

text \<open>A question that is about a request: what a person is shown is what it holds, and of its body the start.\<close>

definition question_about :: "'s setting \<Rightarrow> conn \<Rightarrow> message \<Rightarrow> question \<Rightarrow> bool" where
  "question_about X ic m q \<longleftrightarrow>
     qn_Session q = cn_session ic \<and> qn_Route q = in_Name (ht_Route (cn_route ic)) \<and> qn_Host q = cn_sni ic \<and>
     qn_Method q = m_Method m \<and> qn_Path q = m_Path m \<and> qn_Query q = m_RawQuery m \<and>
     (m_NoBody m \<or>
      (let body = stream (av_chunks (st_arrival X)) in
       prefix (qn_Body q) (fst body) \<and> (qn_BodyMore q \<or> body = (qn_Body q, Some EOF))))"

definition person_admits :: "'s setting \<Rightarrow> conn \<Rightarrow> message \<Rightarrow> bool" where
  "person_admits X ic m \<longleftrightarrow>
     (\<exists>ask q x. st_asker X = Some ask \<and> ask q = AnsweredBy x \<and> Record_Recorder.Admits x \<and> question_about X ic m q)"

definition let_through :: "'s setting \<Rightarrow> conn \<Rightarrow> message \<Rightarrow> string \<times> string \<Rightarrow> verdict \<Rightarrow> bool" where
  "let_through X ic m target v \<longleftrightarrow>
     v_outcome v = Admit \<or>
     (\<exists>dec. st_recorder X = Some dec \<and> recordable (cn_route ic) v \<and>
        record_request (st_services X) dec (st_asker X) (st_arrival X) ic m v = Some []) \<or>
     v_outcome v = Ask \<and>
     (person_admits X ic m \<or>
      (\<exists>r s. alwaysRule (st_services X) (cn_route ic) m (fst target) (snd target) v = Some r \<and> cn_always ic = Some s \<and>
         Always_Admits s r))"

lemma AskAbout_admits:
  "AskAbout asker q = (x, []) \<Longrightarrow> \<exists>ask. asker = Some ask \<and> ask q = AnsweredBy x \<and> Record_Recorder.Admits x"
  by (auto simp: AskAbout_def Scope_Model.ReasonStoppedWaiting_def split: option.splits asking_end.splits if_splits)

lemma with_body_about:
  assumes "with_body (st_arrival X) m (question_of S ic m v rec) = Asks q"
  shows "question_about X ic m q"
proof (cases "m_NoBody m")
  case True
  with assms show ?thesis by (auto simp: with_body_def question_about_def question_of_def)
next
  case False
  with assms obtain head longer r where p: "Preview (av_wakes (st_arrival X)) False [] (av_chunks (st_arrival X)) = Shown head longer r"
    "q = (question_of S ic m v rec)\<lparr>qn_Body := head, qn_BodyMore := longer, qn_BodyLength := max (m_ContentLength m) 0\<rparr>"
    by (auto simp: with_body_def split: preview.splits)
  have "prefix head (fst (stream (av_chunks (st_arrival X)))) \<and>
      (longer \<or> stream (av_chunks (st_arrival X)) = (head, Some EOF))"
    using Preview_shown [OF p(1)] by (cases "stream (av_chunks (st_arrival X))") auto
  then show ?thesis by (simp add: p(2) question_about_def question_of_def Let_def)
qed

lemma Offer_about: "question_about X ic m (fst (Offer s q r)) = question_about X ic m q"
  by (auto simp: Offer_def question_about_def split: option.split)

lemma askPerson_admits:
  assumes "askPerson S (st_asker X) (st_arrival X) ic m v rec rule = (Some (x, []), s)"
  shows "person_admits X ic m"
proof -
  from assms obtain q where q: "with_body (st_arrival X) m (question_of S ic m v rec) = Asks q"
    by (auto simp: askPerson_def Scope_Model.ReasonStoppedWaiting_def with_body_def split: previewed.splits preview.splits if_splits)
  have "\<exists>q'. AskAbout (st_asker X) q' = (x, []) \<and> question_about X ic m q'"
  proof (cases "(if rec then None else rule, cn_always ic)")
    case (Pair a b)
    show ?thesis
    proof (cases "a = None \<or> b = None")
      case True
      then have "AskAbout (st_asker X) q = (x, [])" using assms Pair by (auto simp: askPerson_def q split: option.splits)
      then show ?thesis using with_body_about [OF q] by blast
    next
      case False
      then obtain r al where r: "a = Some r" "b = Some al" by auto
      let ?o = "if ar_Key r = [] then (q, False) else Offer al q r"
      have "AskAbout (st_asker X) (fst ?o) = (x, [])"
        using assms Pair r by (auto simp: askPerson_def q Let_def split: prod.splits if_splits)
      moreover have "question_about X ic m (fst ?o)" using with_body_about [OF q] by (simp add: Offer_about)
      ultimately show ?thesis by blast
    qed
  qed
  then show ?thesis unfolding person_admits_def using AskAbout_admits by metis
qed

lemma acted_on_through:
  assumes "recorded X ic m v lg = Inr (v', lg')" "acted_on X ic m target a v' lg' = (Inr lg'', s)"
  shows "let_through X ic m target v"
proof (cases "v' = v")
  case False
  with assms(1) show ?thesis by (auto simp: recorded_def let_through_def split: option.splits if_splits)
next
  case True
  show ?thesis
  proof (cases "v_outcome v")
    case Ask
    with assms(2) True consider
      (always) "\<exists>r s. alwaysRule (st_services X) (cn_route ic) m (fst target) (snd target) v = Some r \<and> cn_always ic = Some s \<and> Always_Admits s r"
    | (asked) rule s' where "ask_request X ic m v rule = (Some [], s')"
      by (auto simp: acted_on_def Let_def split: if_splits option.splits prod.splits)
    then show ?thesis
    proof cases
      case asked
      then obtain x where "askPerson (st_services X) (st_asker X) (st_arrival X) ic m v False rule = (Some (x, []), s')"
        by (auto simp: ask_request_def split: if_splits prod.splits)
      from askPerson_admits [OF this] Ask show ?thesis by (simp add: let_through_def)
    qed (simp add: let_through_def Ask)
  next
    case Refuse
    with assms(2) True show ?thesis by (auto simp: acted_on_def Let_def split: option.splits)
  qed (simp add: let_through_def)
qed

text \<open>The method is what was decided, and the path what the decision left of it, under the upstream's own.\<close>

lemma judged_method: "judged X ic m target = (a, m') \<Longrightarrow> m_Method m' = m_Method m"
  by (auto simp: judged_def Let_def decide_graphql_def after_read_def after_docker_def split: deferred.splits prod.splits sum.splits)

lemma proxied_message:
  assumes "proxied ic sec json m = Forwarded out"
  shows "m_Method (og_message out) = m_Method m \<and> (\<exists>base. m_Path (og_message out) = singleJoiningSlash base (m_Path m)) \<and>
    m_Body (og_message out) = m_Body m"
  using assms
  by (auto simp: proxied_def rewrite_def Let_def addressed_to_def split: if_splits option.splits)

text \<open>
  A request leaves only where it was made for the host its connection was, no override of it is left unread, it
  is for no token URL, and the scope admitted it, or a recording did what the scope would have refused or asked about,
  or the rule it needs was answered always in this session, or a person admitted a question that shows this method,
  host, path and query and the start of this body. What leaves has the method and the body that were decided.
\<close>

theorem sent_let_through:
  assumes "leaving (sd_reply (serveHTTP X source ic m)) = Some out"
  shows "\<exists>was m1 key target a m2. let ic1 = ic\<lparr>cn_route := (cn_route ic)\<lparr>ht_key := key\<rparr>\<rparr> in
    (normaliseHost (m_Host m) = cn_sni ic \<or> ht_docker (cn_route ic) \<noteq> None \<and> m_Host m = []) \<and>
    override (set_casing X) (set_folding X) m = Inr (was, m1) \<and>
    judged X ic1 m1 target = (a, m2) \<and> let_through X ic1 m2 target (da_verdict a) \<and>
    m_Method (og_message out) = m_Method m1 \<and> m_Body (og_message out) = m_Body m2 \<and>
    (\<exists>base. m_Path (og_message out) \<in> {m_Path m2, singleJoiningSlash base (m_Path m2)})"
proof -
  have "\<exists>ad. admission_of X ic m = Inr ad \<and> m_Method (og_message out) = m_Method (ad_message ad) \<and>
    m_Body (og_message out) = m_Body (ad_message ad) \<and>
    (\<exists>base. m_Path (og_message out) \<in> {m_Path (ad_message ad), singleJoiningSlash base (m_Path (ad_message ad))})"
  proof (rule served_cases [of X source ic m])
    fix d assume "serveHTTP X source ic m = d" "answered_early (sd_reply d, sd_log d)"
    with assms show ?thesis by (simp add: answered_early_def)
  next
    fix ad s assume *: "admission_of X ic m = Inr ad"
      "sd_reply (serveHTTP X source ic m) = proxied (ad_conn ad) (Some (se_Value s)) (da_jsonBody (ad_answer ad)) (ad_message ad)"
    with assms proxied_reply [of "ad_conn ad" "Some (se_Value s)" "da_jsonBody (ad_answer ad)" "ad_message ad"]
    have "proxied (ad_conn ad) (Some (se_Value s)) (da_jsonBody (ad_answer ad)) (ad_message ad) = Forwarded out" by auto
    from proxied_message [OF this] *(1) show ?thesis by blast
  next
    fix ad c assume *: "admission_of X ic m = Inr ad"
      "sd_reply (serveHTTP X source ic m) =
        (if da_upgrade (ad_answer ad) \<noteq> []
         then Switched (da_upgrade (ad_answer ad)) (stream_request (da_upgrade (ad_answer ad)) (da_jsonBody (ad_answer ad)) (ad_message ad))
         else proxied (ad_conn ad) None (da_jsonBody (ad_answer ad)) (ad_message ad))"
    show ?thesis
    proof (cases "da_upgrade (ad_answer ad) = []")
      case True
      with assms * proxied_reply [of "ad_conn ad" None "da_jsonBody (ad_answer ad)" "ad_message ad"]
      have "proxied (ad_conn ad) None (da_jsonBody (ad_answer ad)) (ad_message ad) = Forwarded out" by auto
      from proxied_message [OF this] *(1) show ?thesis by blast
    qed (use assms * in \<open>auto simp: stream_request_def Let_def\<close>)
  qed (use assms in \<open>auto simp: route_refuse_def\<close>)
  then obtain ad base where ad: "admission_of X ic m = Inr ad" "m_Method (og_message out) = m_Method (ad_message ad)"
    "m_Body (og_message out) = m_Body (ad_message ad)"
    "m_Path (og_message out) \<in> {m_Path (ad_message ad), singleJoiningSlash base (m_Path (ad_message ad))}" by blast
  from ad(1) obtain m1 lg1 ic1 target lg2 a v lg3 s where st: "addressed X ic m = Inr (m1, lg1)"
    "carried X ic m1 = ((ad_inject ad, []), ic1)" "judged X ic1 m1 target = (a, ad_message ad)"
    "recorded X ic1 (ad_message ad) (da_verdict a) (log_verdict (da_verdict a) lg2) = Inr (v, lg3)"
    "acted_on X ic1 (ad_message ad) target a v lg3 = (Inr (ad_log ad), s)"
    by (elim admission_Inr) simp
  from carried_conn [OF st(2)] obtain key where "ic1 = ic\<lparr>cn_route := (cn_route ic)\<lparr>ht_key := key\<rparr>\<rparr>" by blast
  moreover obtain was where "override (set_casing X) (set_folding X) m = Inr (was, m1)"
    "normaliseHost (m_Host m) = cn_sni ic \<or> ht_docker (cn_route ic) \<noteq> None \<and> m_Host m = []"
    using st(1) by (rule addressed_Inr)
  moreover note acted_on_through [OF st(4,5)] judged_method [OF st(3)] ad(2-4) st(3)
  ultimately show ?thesis unfolding Let_def by metis
qed

section \<open>A request to evaluate\<close>

text \<open>A route with a credential, whose scope asks; and a request with its placeholder.\<close>

definition token_route :: intercept_route where
  "token_route =
     (plain_route ''api.example.com'')\<lparr>in_Credential := True, in_Inject := Some Bearer, in_Placeholder := ''proxy''\<rparr>"

definition token_services :: "unit services" where
  "token_services =
     \<lparr>sv_given = demo_given, sv_json = (\<lambda>_. None), sv_why = (\<lambda>_. []), sv_jose = demo_jose, sv_Sum = (\<lambda>s. s)\<rparr>"

definition token_asker :: "question \<Rightarrow> asking_end" where
  "token_asker q = AnsweredBy (if qn_Path q = ''/v1/items'' then answer_Allow else answer_Refuse)"

definition token_setting :: "unit setting" where
  "token_setting =
     \<lparr>st_services = token_services, st_serves = (\<lambda>_. False), st_recorder = None, st_asker = Some token_asker,
      st_arrival = \<lparr>av_wakes = [], av_chunks = []\<rparr>, st_took = True, st_daemon = (), st_now = 5, st_later = 6\<rparr>"

definition token_conn :: "http_route \<Rightarrow> conn" where
  "token_conn rt =
     \<lparr>cn_session = ''s'', cn_workspace = [], cn_policy = ''p'', cn_sni = ''api.example.com'', cn_route = rt, cn_always = None\<rparr>"

definition token_message :: message where
  "token_message =
     \<lparr>m_Method = ''GET'', m_Path = ''/v1/items'', m_RawQuery = ''page=2'', m_Host = ''api.example.com:443'', m_ProtoMajor = 2,
      m_Header = [(''Authorization'', [''Bearer proxy'']), (''Connection'', [''Authorization''])], m_NoBody = True, m_Body = [],
      m_fails = False, m_ContentLength = 0, m_TransferEncoding = [], m_Tree = None\<rparr>"

definition token_secret :: secret where
  "token_secret = \<lparr>se_Value = ''s3cret'', se_Expires = 7\<rparr>"

definition token_sent :: "http_route \<Rightarrow> bool" where
  "token_sent rt =
     (let d = serveHTTP token_setting (Inr token_secret) (token_conn rt) token_message in
      rq_credential (sd_log d) = CredentialInjected \<and>
      (case leaving (sd_reply d) of None \<Rightarrow> False | Some out \<Rightarrow> upstream_host (token_conn rt) = ''api.example.com''))"

lemma token_sent:
  obtains i rt out where "New_interceptor plain_given [token_route] = Inr i" "lookup_route i ''api.example.com'' = Some rt"
    "leaving (sd_reply (serveHTTP token_setting (Inr token_secret) (token_conn rt) token_message)) = Some out"
    "rq_credential (sd_log (serveHTTP token_setting (Inr token_secret) (token_conn rt) token_message)) = CredentialInjected"
    "upstream_host (token_conn rt) = ''api.example.com''" "in_Inject (ht_Route rt) = Some Bearer"
proof -
  have "case New_interceptor plain_given [token_route] of Inl _ \<Rightarrow> False
    | Inr i \<Rightarrow> (case lookup_route i ''api.example.com'' of
        None \<Rightarrow> False | Some rt \<Rightarrow> token_sent rt \<and> in_Inject (ht_Route rt) = Some Bearer)" by code_simp
  then show thesis
    by (auto simp: token_sent_def Let_def split: sum.splits option.splits intro: that)
qed

lemma credential_goes_home_witness:
  "\<exists>i rt out. New_interceptor plain_given [token_route] = Inr i \<and> lookup_route i ''api.example.com'' = Some rt \<and>
     leaving (sd_reply (serveHTTP token_setting (Inr token_secret) (token_conn rt) token_message)) = Some out \<and>
     Values (m_Header (og_message out)) ''Authorization'' = [''Bearer s3cret''] \<and> og_Host out = ''api.example.com''"
proof -
  obtain i rt out where d: "New_interceptor plain_given [token_route] = Inr i" "lookup_route i ''api.example.com'' = Some rt"
    "leaving (sd_reply (serveHTTP token_setting (Inr token_secret) (token_conn rt) token_message)) = Some out"
    "rq_credential (sd_log (serveHTTP token_setting (Inr token_secret) (token_conn rt) token_message)) = CredentialInjected"
    "upstream_host (token_conn rt) = ''api.example.com''" "in_Inject (ht_Route rt) = Some Bearer" by (rule token_sent)
  have "lookup_route i (cn_sni (token_conn rt)) = Some rt" "cn_route (token_conn rt) = rt\<lparr>ht_key := ht_key rt, ht_stale := ht_stale rt\<rparr>"
    using d(2) by (simp_all add: token_conn_def)
  from credential_goes_home [OF d(1) this d(3,4)] d show ?thesis by (auto simp: token_secret_def)
qed

lemma credential_confined_witness:
  "\<exists>i rt. New_interceptor plain_given [token_route] = Inr i \<and> lookup_route i ''api.example.com'' = Some rt \<and>
     rq_credential (sd_log (serveHTTP token_setting (Inr token_secret) (token_conn rt) token_message)) = CredentialInjected \<and>
     sd_log (serveHTTP token_setting (Inr token_secret) (token_conn rt) token_message) =
       sd_log (serveHTTP token_setting (Inr (token_secret\<lparr>se_Value := ''other''\<rparr>)) (token_conn rt) token_message)"
proof -
  obtain i rt out where d: "New_interceptor plain_given [token_route] = Inr i" "lookup_route i ''api.example.com'' = Some rt"
    "rq_credential (sd_log (serveHTTP token_setting (Inr token_secret) (token_conn rt) token_message)) = CredentialInjected"
    by (rule token_sent)
  have "se_Expires token_secret = se_Expires (token_secret\<lparr>se_Value := ''other''\<rparr>)" "se_Value token_secret \<noteq> []"
    "se_Value (token_secret\<lparr>se_Value := ''other''\<rparr>) \<noteq> []" by (simp_all add: token_secret_def)
  from credential_confined [OF this, of token_setting "token_conn rt" token_message] d show ?thesis by blast
qed

lemma sent_let_through_witness:
  "\<exists>i rt out. New_interceptor plain_given [token_route] = Inr i \<and> lookup_route i ''api.example.com'' = Some rt \<and>
     leaving (sd_reply (serveHTTP token_setting (Inr token_secret) (token_conn rt) token_message)) = Some out \<and>
     (\<exists>ic1 target (a::docker_answer) m2. let_through token_setting ic1 m2 target (da_verdict a) \<and> m_Body (og_message out) = m_Body m2)"
proof -
  obtain i rt out where d: "New_interceptor plain_given [token_route] = Inr i" "lookup_route i ''api.example.com'' = Some rt"
    "leaving (sd_reply (serveHTTP token_setting (Inr token_secret) (token_conn rt) token_message)) = Some out" by (rule token_sent)
  from sent_let_through [OF d(3)] d show ?thesis unfolding Let_def by blast
qed

text \<open>A form sent to a token URL of a session key.\<close>

definition grant_message :: message where
  "grant_message =
     token_message\<lparr>m_Method := ''POST'', m_Path := ''/token'', m_Host := ''oauth2.example.com'',
       m_Header := [(''Content-Type'', [''application/x-www-form-urlencoded''])], m_NoBody := False,
       m_Body := ''grant_type=x'', m_ContentLength := 12\<rparr>"

lemma grant_stays_witness:
  "\<exists>i rt. New_interceptor plain_given [token_route] = Inr i \<and> lookup_route i ''api.example.com'' = Some rt \<and>
     leaving (sd_reply (serveHTTP token_setting (Inr token_secret)
       ((token_conn (rt\<lparr>ht_key := Some demo_live_key\<rparr>))\<lparr>cn_sni := ''oauth2.example.com''\<rparr>) grant_message)) = None"
proof -
  obtain i rt where d: "New_interceptor plain_given [token_route] = Inr i" "lookup_route i ''api.example.com'' = Some rt"
    by (rule token_sent)
  let ?ic = "(token_conn (rt\<lparr>ht_key := Some demo_live_key\<rparr>))\<lparr>cn_sni := ''oauth2.example.com''\<rparr>"
  have e: "map_sum id (\<lambda>(was, m). m_Path m) (override (set_casing token_setting) (set_folding token_setting) grant_message) = Inr ''/token'' \<and>
    grant (set_casing token_setting) demo_live_key ''oauth2.example.com'' ''/token''" by code_simp
  then obtain was m1 where m: "override (set_casing token_setting) (set_folding token_setting) grant_message = Inr (was, m1)"
    "m_Path m1 = ''/token''"
    by (cases "override (set_casing token_setting) (set_folding token_setting) grant_message") auto
  have k: "ht_key (cn_route ?ic) = Some demo_live_key" and g: "grant (set_casing token_setting) demo_live_key (cn_sni ?ic) (m_Path m1)"
    using e m(2) by (simp_all add: token_conn_def)
  from grant_stays [OF k m(1) g] d show ?thesis by blast
qed

end
