(* ===== verification/Spec2Isabelle.thy ===== *)
theory Spec2Isabelle
  imports Dns_Match Scope_Decide Egress_Handler Egress_Routes Docker_Container Docker_Filter Docker_Locks Docker_Owned Docker_Admit Project_Names Policy_Held Policy_Keeps Http_Docker Http_Preview Http_CA Http_Sent
begin

text \<open>
  frisket, verified in part.

  frisket stands between a workload and the network: it answers its DNS for the names a policy lists,
  decides every connection and every HTTP, GraphQL, git and Docker request it makes, and writes down
  what it decided. This development models what decides, and leaves the sockets, namespaces and
  processes around it out.

  PARTS OF THE PROGRAM, AND THE THEORIES THAT MODEL THEM (paths under \<open>src/\<close>).

  Shared: \<open>Prelude\<close> has the functions of Go's \<open>strings\<close> and \<open>slices\<close> the code uses, \<open>ok_then\<close> for Go's
  early return of an error, the collections \<open>go_strings\<close> and others its lemmas are in, and the locale of
  comparison functions that sorting and choosing a best rest on; \<open>Go_Text\<close> has UTF-8, percent-encoding
  and queries; \<open>Net_Addr\<close> has \<open>netip\<close>'s addresses and prefixes, on machine words.

  Names (\<open>internal/dns/match.go\<close>): \<open>Dns_Match\<close>. The normal form of a name, the three shapes of an
  allowlist entry, the validity of a queried name, and the matcher, whose walk over the dots of a name is
  shown to be matching each entry alone.

  HTTP scopes (\<open>internal/intercept/scope.go\<close>, \<open>scope_v2.go\<close>, \<open>graphql.go\<close>): \<open>Scope_Path\<close> splits and decodes a
  path and refuses what two readers could read apart; \<open>Scope_Rules\<close> has the rules and their specificity;
  \<open>Scope_Model\<close> the records of a scope and of a verdict; \<open>Scope_Git\<close> git's requests; \<open>Scope_V2\<close> the
  decisions of a version 2 document; \<open>Scope_GraphQL\<close> a GraphQL request's body and its verdict; and
  \<open>Scope_Decide\<close> compiles a scope and composes the rest as \<open>decided\<close> does. The lemmas say what is
  admitted: no path that climbs however often it is decoded, no lenient reading answered more leniently
  than its rule, the most specific rule, the strictest of a GraphQL request's fields.

  GraphQL (\<open>internal/graphql\<close>): \<open>Graphql_Lexer\<close>, \<open>Graphql_Parser\<close>, \<open>Graphql_Roots\<close> and \<open>Graphql_Total\<close>. The
  parser's recursion is by fuel, \<open>fuel_for\<close> of a document, twice its length and eight: \<open>Graphql_Total\<close>
  shows that no document spends it. \<open>Graphql_Roots\<close> shows that the fields named for an operation are
  those its root reaches, that no cycle of fragments is followed, and the bound \<open>maxFollowed\<close>.

  Egress (\<open>internal/egress\<close>): \<open>Egress_Host\<close> the host's own addresses, read from the kernel and read
  again when stale; \<open>Egress_Routes\<close> its routers and inner networks, from the bytes of a route dump;
  \<open>Egress_Classify\<close> the structural table and every IPv4 spelling an IPv6 address has; \<open>Egress_Structural\<close>
  what that shows; \<open>Egress_Resolved\<close> the addresses a session resolved, a linked list and an index that
  refine a bounded list; and \<open>Egress_Handler\<close> the decision on a connection with all of these, a recording
  session's recorder, and the check again at the dial. A set of addresses as the classifier sees one is
  the locale \<open>address_set\<close>, interpreted on the host's addresses.

  Recording (\<open>internal/record/record.go\<close>, \<open>sink.go\<close>): \<open>Record_Recorder\<close>. The goroutines that share a recorder
  as an interleaving of the parts between its lock and its waits, with the invariant every step keeps: one
  first question on a subject, nothing admitted off the record, no waiter left behind, memory within its
  bounds. The sink its lines go to is bounded, may fail and may be closed, and what is said of a line's being
  in it says so.

  Docker (\<open>docker/image.go\<close>, \<open>internal/dockerapi\<close>): \<open>Docker_Image\<close> the images a route may name;
  \<open>Docker_Json\<close> a body read, whose fuel \<open>read_fuel\<close>, twice the tokens and two, \<open>Read_fuel\<close> shows enough;
  \<open>Docker_Table\<close> the tables of fields a policy allows, and frisket's floor; \<open>Docker_Values\<close> and
  \<open>Docker_Walk\<close> the walk of a body by its table, what it rewrites and the names it hands back;
  \<open>Docker_Fits\<close> the abstract meaning of a table and that the walk refines it; \<open>Docker_Floor\<close> and
  \<open>Docker_Container\<close> what the floor guarantees of what goes upstream, whatever the table, as the daemon
  reads it; \<open>Docker_Filter\<close> the filter of a list. The route itself (\<open>internal/intercept/docker.go\<close>,
  \<open>owned.go\<close>): \<open>Docker_Locks\<close> the names requests hold, as an interleaving of their parts, with mutual
  exclusion, the counts and that all can go on; \<open>Docker_Owned\<close> what the daemon is asked about an object and
  what is made of its answers; \<open>Docker_Request\<close> a rule's checks of a request's version, query, upgrade,
  path and body; and \<open>Docker_Admit\<close> what a request admitted shows: each object it names the project's own by
  what the daemon said, its query read back as it was checked, and no refusal that sent anything.

  HTTP routes (\<open>internal/intercept/route.go\<close>, \<open>override.go\<close>, \<open>sessionkey.go\<close>, and \<open>docker.go\<close> where a Docker
  route is checked): \<open>Http_Override\<close> a request as data and the method its overrides name, which is the one
  decided; \<open>Http_Key\<close> a session key, its tokens and what is remembered of them, and the grants it answers,
  with \<open>Go_Base64\<close> for Basic authentication; \<open>Http_Route\<close> what a route is held to before it is served, and which requests carry
  its placeholder; \<open>Http_Docker\<close> that a Docker route which passed admits nothing by its scope alone;
  \<open>Http_Hosts\<close> an interceptor's routes put together, the route a host is looked up by, and the body a refusal
  is written in (\<open>refusal.go\<close>); \<open>Http_CA\<close> the session's certificate authority, the leaves it mints and keeps
  (\<open>ca.go\<close>), and the handshake that asks for one, of a CA made for these hosts or for others; \<open>Http_Preview\<close>
  the start of a body a person is shown, and that what is read of it afterwards is the body whole
  (\<open>preview.go\<close>).

  A request served (\<open>intercept.go\<close>, \<open>record.go\<close>, \<open>always.go\<close>, \<open>stream.go\<close>, with \<open>internal/credential\<close> and
  \<open>internal/always\<close>): \<open>Http_Credential\<close> a credential read from its file, which can begin no header of its own;
  \<open>Http_Ask\<close> the question a person is put, the rule an answer of always writes, and what a recording makes of a
  verdict; \<open>Http_Serve\<close> \<open>serveHTTP\<close> itself, from the Host a request names, through the scope's decision of it, to
  what goes upstream through \<open>httputil.ReverseProxy\<close> or a stream; and \<open>Http_Sent\<close> what that shows: the
  credential is in one header of one request to the route's own upstream, and nothing else depends on it; what
  leaves was let through, with the method and body decided; a token URL's requests never leave; and the log
  says refused exactly where it was.

  Projects (\<open>project/project.go\<close>): \<open>Project_Names\<close>, a project's name, which reads back as it, and its
  loopback address.

  Policies (\<open>policy\<close>, and \<open>internal/store/store.go\<close> where it builds a route): \<open>Policy_Model\<close> a version 2
  document as data and the answers of its layers; \<open>Policy_Lower\<close> a route lowered, \<open>Policy_Document\<close> the
  machines and the document whole; \<open>Store_Scope\<close> the scope, Docker route and credential interception is
  given; \<open>Policy_Ceiling\<close> and \<open>Policy_Held\<close> compose these with \<open>compileScope\<close>, \<open>decided\<close> and the GraphQL
  decision, and show that what a ceiling does not allow nothing admits; \<open>Policy_Layer\<close> and \<open>Policy_Keeps\<close>
  a project's layer, that it changes nothing of the host's but by two deletions, which are let through.

  HOW STATE AND ERRORS CORRESPOND. A struct is a \<open>record\<close>, an enumeration a \<open>datatype\<close>; a method that
  changes its receiver returns it. An error is \<open>Inl\<close> of a constructor, or of the refusal where its text
  reaches a client; text that only a log holds is left out. A Go map is an association list under \<open>put\<close>
  and \<open>del\<close>, or a function to \<open>option\<close>; its iteration order, where it shows, is said at the definition.
  Integers are unbounded except where the code's width decides: ports and addresses are words, \<open>int32\<close>
  is written out. A mutex makes an operation one step; the recorder, which waits while others run, is a
  transition relation.

  WHAT IS GIVEN AND NOT DEFINED. Unicode's case mapping and simple folding; quoin's host patterns; the
  tokens \<open>encoding/json\<close> gives for a text; \<open>mime.ParseMediaType\<close>; the attributes \<open>syscall\<close> finds in a netlink
  message and the machine's byte order; how \<open>netip\<close> prints an address and \<open>strconv\<close> quotes a string; the
  clock and what the kernel answers at each asking; what a person answers; the Docker daemon's answers, and
  what \<open>encoding/json\<close> reads in them; SHA-256; JOSE's signatures; quoin's rule names, and its \<open>projpolicy\<close>, of
  which \<open>layer_keeps_host\<close> assumes RFC 7396, that it reads back a merge of two values it read, and that what
  \<open>encoding/json\<close> read into a document's maps and structs were objects or nulls. They are arguments of the
  definitions that use them, and no property assumes anything of them that its statement does not say.

  NOT MODELLED, AND WHY. The DNS server and its upstreams (sockets, a third party's messages), the HTTP
  server's sockets and TLS, what an upstream answers, the SSH routes (\<open>x/crypto/ssh\<close>'s channels, and the words of
  a command read by quoin's \<open>execrule\<close>), the relay, control socket, namespaces, nftables and mounts (I/O and the
  kernel), the signing and writing of a project's file and of commits (helpers that are run), the rest of the
  store, which opens documents and keeps them, Nix modules and scripts (not Go).
\<close>

end
